(* ===== verification/Yougori_Prelude.thy ===== *)
theory Yougori_Prelude
  imports Complex_Main "HOL-Library.Word" "HOL-Library.Char_ord" "HOL-Library.List_Lexorder"
begin

text \<open>
  Shared vocabulary of the development: the widths of Rust's unsigned integers, Rust's
  \<open>Result\<close>, byte slices with their bounds checks, the ordered association list that stands
  for \<open>BTreeMap\<close>, the string operations of the standard library that several components
  use, and the two interfaces that the component theories interpret: ordered maps and
  safety invariants of transition systems.
\<close>

section \<open>Types\<close>

type_synonym u8 = "8 word"
type_synonym u16 = "16 word"
type_synonym u32 = "32 word"
type_synonym u64 = "64 word"
type_synonym bytes = "8 word list"

text \<open>Rust's \<open>Result<T, E>\<close>; the question-mark operator is \<open>result_bind\<close>.\<close>

datatype ('a, 'e) result = Ok 'a | Err 'e

fun result_bind :: "('a, 'e) result \<Rightarrow> ('a \<Rightarrow> ('b, 'e) result) \<Rightarrow> ('b, 'e) result" where
  "result_bind (Ok x) f = f x"
| "result_bind (Err e) f = Err e"

fun is_ok :: "('a, 'e) result \<Rightarrow> bool" where
  "is_ok (Ok x) = True"
| "is_ok (Err e) = False"

fun ok_or :: "'a option \<Rightarrow> 'e \<Rightarrow> ('a, 'e) result" where
  "ok_or (Some x) e = Ok x"
| "ok_or None e = Err e"

named_theorems model_defs \<open>definitions of operations, unfolded when a branch is evaluated\<close>
named_theorems frame_simps \<open>fields that an operation leaves unchanged\<close>

lemma is_ok_iff: "is_ok r = (\<exists>x. r = Ok x)"
  by (cases r) auto

lemma result_bind_Ok [simp]:
  "(result_bind r f = Ok y) = (\<exists>x. r = Ok x \<and> f x = Ok y)"
  by (cases r) auto

lemma result_bind_Err:
  "(result_bind r f = Err e) = (r = Err e \<or> (\<exists>x. r = Ok x \<and> f x = Err e))"
  by (cases r) auto

lemma ok_or_Ok [simp]: "(ok_or x e = Ok y) = (x = Some y)"
  by (cases x) auto

lemma ok_or_Err [simp]: "(ok_or x e = Err e') = (x = None \<and> e = e')"
  by (cases x) auto

section \<open>Slices\<close>

text \<open>
  \<open>subslice xs a b\<close> is the Rust range \<open>xs[a..b]\<close> where it is in bounds; \<open>get_range\<close> is
  \<open>xs.get(a..b)\<close>, which is \<open>None\<close> out of bounds.
\<close>

definition subslice :: "'a list \<Rightarrow> nat \<Rightarrow> nat \<Rightarrow> 'a list" where
  "subslice xs a b = take (b - a) (drop a xs)"

definition get_range :: "'a list \<Rightarrow> nat \<Rightarrow> nat \<Rightarrow> 'a list option" where
  "get_range xs a b = (if a \<le> b \<and> b \<le> length xs then Some (subslice xs a b) else None)"

definition get_from :: "'a list \<Rightarrow> nat \<Rightarrow> 'a list option" where
  "get_from xs a = (if a \<le> length xs then Some (drop a xs) else None)"

definition get_at :: "'a list \<Rightarrow> nat \<Rightarrow> 'a option" where
  "get_at xs i = (if i < length xs then Some (xs ! i) else None)"

text \<open>\<open>xs[a..a + v.len()].copy_from_slice(v)\<close>, for a range in bounds.\<close>

definition copy_into :: "'a list \<Rightarrow> nat \<Rightarrow> 'a list \<Rightarrow> 'a list" where
  "copy_into xs a v = take a xs @ v @ drop (a + length v) xs"

lemma length_subslice [simp]: "length (subslice xs a b) = min (b - a) (length xs - a)"
  by (simp add: subslice_def)

lemma subslice_nth: "a + i < b \<Longrightarrow> b \<le> length xs \<Longrightarrow> subslice xs a b ! i = xs ! (a + i)"
  by (simp add: subslice_def)

lemma subslice_subslice:
  "a + d \<le> b \<Longrightarrow> subslice (subslice xs a b) c d = subslice xs (a + c) (a + d)"
  by (simp add: subslice_def drop_take min_def add.commute)

lemma length_copy_into [simp]:
  "a + length v \<le> length xs \<Longrightarrow> length (copy_into xs a v) = length xs"
  by (simp add: copy_into_def)

lemma subslice_copy_same:
  "a + length v \<le> length xs \<Longrightarrow> subslice (copy_into xs a v) a (a + length v) = v"
  by (simp add: subslice_def copy_into_def)

lemma nth_copy_into:
  assumes "k + length v \<le> length xs" and "j < length xs"
  shows "copy_into xs k v ! j =
     (if j < k then xs ! j else if j < k + length v then v ! (j - k) else xs ! j)"
  using assms by (auto simp: copy_into_def nth_append min_def)

lemma subslice_copy_disjoint:
  assumes "b \<le> k \<or> k + length v \<le> a" and "k + length v \<le> length xs" and "b \<le> length xs"
  shows "subslice (copy_into xs k v) a b = subslice xs a b"
proof (rule nth_equalityI)
  show "length (subslice (copy_into xs k v) a b) = length (subslice xs a b)"
    using assms by simp
  fix i assume "i < length (subslice (copy_into xs k v) a b)"
  then have "a + i < b" by (simp add: less_diff_conv add.commute)
  then show "subslice (copy_into xs k v) a b ! i = subslice xs a b ! i"
    using assms by (auto simp: subslice_nth nth_copy_into)
qed

lemma subslice_append_left: "b \<le> length xs \<Longrightarrow> subslice (xs @ ys) a b = subslice xs a b"
  by (simp add: subslice_def)

lemma subslice_append_right:
  "length xs \<le> a \<Longrightarrow> subslice (xs @ ys) a b = subslice ys (a - length xs) (b - length xs)"
  by (simp add: subslice_def)

lemma get_range_Some [simp]:
  "(get_range xs a b = Some ys) = (a \<le> b \<and> b \<le> length xs \<and> ys = subslice xs a b)"
  by (auto simp: get_range_def)

lemma get_from_Some [simp]: "(get_from xs a = Some ys) = (a \<le> length xs \<and> ys = drop a xs)"
  by (auto simp: get_from_def)

lemma get_at_Some [simp]: "(get_at xs i = Some y) = (i < length xs \<and> y = xs ! i)"
  by (auto simp: get_at_def)

section \<open>Ordered maps\<close>

text \<open>
  \<open>BTreeMap\<close> and \<open>serde_json::Map\<close> keep their entries in key order and hold one entry per
  key. The interface is what the clients rely on; the implementation is a sorted
  association list, so that iteration in key order is the list itself.
\<close>

locale ordered_map =
  fixes lookup :: "'m \<Rightarrow> 'k \<Rightarrow> 'v option"
    and insert :: "'k \<Rightarrow> 'v \<Rightarrow> 'm \<Rightarrow> 'm"
    and remove :: "'k \<Rightarrow> 'm \<Rightarrow> 'm"
    and wf :: "'m \<Rightarrow> bool"
  assumes lookup_insert: "lookup (insert k v m) k' = (if k' = k then Some v else lookup m k')"
    and lookup_remove: "wf m \<Longrightarrow> lookup (remove k m) k' = (if k' = k then None else lookup m k')"
    and wf_insert: "wf m \<Longrightarrow> wf (insert k v m)"
    and wf_remove: "wf m \<Longrightarrow> wf (remove k m)"
begin

lemma insert_agrees: "lookup m k = Some v \<Longrightarrow> lookup (insert k v m) = lookup m"
  by (rule ext) (simp add: lookup_insert)

lemma remove_insert: "wf m \<Longrightarrow> lookup m k = None \<Longrightarrow> lookup (remove k (insert k v m)) = lookup m"
  by (rule ext) (simp add: lookup_insert lookup_remove wf_insert)

lemma fold_insert_lookup:
  "k \<notin> fst ` set kvs \<Longrightarrow> lookup (fold (\<lambda>(k, v). insert k v) kvs m) k = lookup m k"
  by (induction kvs arbitrary: m) (auto simp: lookup_insert)

end

fun map_insert :: "'k::linorder \<Rightarrow> 'v \<Rightarrow> ('k \<times> 'v) list \<Rightarrow> ('k \<times> 'v) list" where
  "map_insert k v [] = [(k, v)]"
| "map_insert k v ((k', v') # m) =
     (if k < k' then (k, v) # (k', v') # m
      else if k = k' then (k, v) # m
      else (k', v') # map_insert k v m)"

fun map_remove :: "'k::linorder \<Rightarrow> ('k \<times> 'v) list \<Rightarrow> ('k \<times> 'v) list" where
  "map_remove k [] = []"
| "map_remove k ((k', v') # m) = (if k = k' then m else (k', v') # map_remove k m)"

definition map_wf :: "('k::linorder \<times> 'v) list \<Rightarrow> bool" where
  "map_wf m \<longleftrightarrow> sorted_wrt (<) (map fst m)"

lemma map_of_map_insert:
  "map_of (map_insert k v m) k' = (if k' = k then Some v else map_of m k')"
  by (induction k v m rule: map_insert.induct) auto

lemma keys_map_insert [simp]: "fst ` set (map_insert k v m) = Set.insert k (fst ` set m)"
  by (induction k v m rule: map_insert.induct) auto

lemma keys_map_remove: "fst ` set (map_remove k m) \<subseteq> fst ` set m"
  by (induction k m rule: map_remove.induct) auto

lemma map_wf_insert: "map_wf m \<Longrightarrow> map_wf (map_insert k v m)"
proof (induction k v m rule: map_insert.induct)
  case (2 k v k' v' m)
  then show ?case using keys_map_insert [of k v m] by (auto simp: map_wf_def)
qed (simp add: map_wf_def)

lemma map_wf_remove: "map_wf m \<Longrightarrow> map_wf (map_remove k m)"
proof (induction k m rule: map_remove.induct)
  case (2 k k' v' m)
  then show ?case using keys_map_remove [of k m] by (fastforce simp: map_wf_def)
qed (simp add: map_wf_def)

lemma map_of_map_remove:
  "map_wf m \<Longrightarrow> map_of (map_remove k m) k' = (if k' = k then None else map_of m k')"
proof (induction k m rule: map_remove.induct)
  case (2 k k0 v0 m)
  then have "map_of m k0 = None" by (force simp: map_wf_def map_of_eq_None_iff)
  with "2" show ?case by (cases "k = k0"; cases "k' = k") (simp_all add: map_wf_def)
qed simp

interpretation btree: ordered_map map_of map_insert map_remove map_wf
  by unfold_locales
    (simp_all add: map_of_map_insert map_of_map_remove map_wf_insert map_wf_remove)

lemmas btree_simps = btree.lookup_insert btree.lookup_remove btree.wf_insert btree.wf_remove

section \<open>Transition systems\<close>

text \<open>
  The states a component can reach from its initial states by its steps, and the interface
  of a safety argument: an invariant that holds initially and that every step keeps.
\<close>

inductive reach :: "('s \<Rightarrow> bool) \<Rightarrow> ('s \<Rightarrow> 's \<Rightarrow> bool) \<Rightarrow> 's \<Rightarrow> bool"
  for start :: "'s \<Rightarrow> bool" and move :: "'s \<Rightarrow> 's \<Rightarrow> bool" where
  reach_start: "start s \<Longrightarrow> reach start move s"
| reach_move: "reach start move s \<Longrightarrow> move s t \<Longrightarrow> reach start move t"

lemma reach_run: "move\<^sup>*\<^sup>* s t \<Longrightarrow> reach start move s \<Longrightarrow> reach start move t"
  by (induction rule: rtranclp_induct) (auto intro: reach_move)

locale safety =
  fixes start :: "'s \<Rightarrow> bool"
    and move :: "'s \<Rightarrow> 's \<Rightarrow> bool"
    and inv :: "'s \<Rightarrow> bool"
  assumes inv_start: "start s \<Longrightarrow> inv s"
    and inv_move: "inv s \<Longrightarrow> move s t \<Longrightarrow> inv t"
begin

lemma inv_reach: "reach start move s \<Longrightarrow> inv s"
  by (induction rule: reach.induct) (auto intro: inv_start inv_move)

lemma inv_run: "move\<^sup>*\<^sup>* s t \<Longrightarrow> inv s \<Longrightarrow> inv t"
  by (induction rule: rtranclp_induct) (auto intro: inv_move)

end

end
