(* ===== verification/Float64.thy ===== *)
theory Float64
  imports Yougori_Prelude "HOL-Library.Log_Nat"
begin

text \<open>
  Rust's \<open>f64\<close>: IEEE 754 binary64 with round-to-nearest, ties to even, as the scheduler, the
  capacity computation and the command line use it. A finite value is the rational it
  denotes; arithmetic is exact arithmetic followed by \<open>rnd\<close>. The two zeros are one value:
  no operation of the modelled code can tell them apart (it never divides by a computed
  value and never inspects a sign bit).
\<close>

section \<open>Rounding to 53 significant bits\<close>

definition ilog2 :: "rat \<Rightarrow> int" where
  "ilog2 x = (if 1 \<le> x then bitlen \<lfloor>x\<rfloor> - 1 else - bitlen (\<lceil>1 / x\<rceil> - 1))"

definition round_half_even :: "rat \<Rightarrow> int" where
  "round_half_even x =
     (let n = \<lfloor>x\<rfloor>; d = x - of_int n
      in if d < 1 / 2 then n else if 1 / 2 < d then n + 1 else if even n then n else n + 1)"

text \<open>The unit in the last place of a magnitude, with gradual underflow below \<open>2 ^ -1022\<close>.\<close>

definition ulp :: "rat \<Rightarrow> rat" where
  "ulp x = 2 powi (max (ilog2 \<bar>x\<bar>) (- 1022) - 52)"

definition rnd_value :: "rat \<Rightarrow> rat" where
  "rnd_value x = (if x = 0 then 0 else of_int (round_half_even (x / ulp x)) * ulp x)"

datatype f64 = Fin rat | PInf | NInf | NaN

definition rnd :: "rat \<Rightarrow> f64" where
  "rnd x = (let y = rnd_value x
            in if y \<ge> 2 ^ 1024 then PInf else if y \<le> - (2 ^ 1024) then NInf else Fin y)"

section \<open>Operations of \<open>f64\<close>\<close>

fun is_finite :: "f64 \<Rightarrow> bool" where
  "is_finite (Fin x) = True"
| "is_finite _ = False"

fun f_neg :: "f64 \<Rightarrow> f64" where
  "f_neg (Fin x) = Fin (- x)"
| "f_neg PInf = NInf"
| "f_neg NInf = PInf"
| "f_neg NaN = NaN"

fun f_add :: "f64 \<Rightarrow> f64 \<Rightarrow> f64" where
  "f_add (Fin x) (Fin y) = rnd (x + y)"
| "f_add NaN _ = NaN"
| "f_add _ NaN = NaN"
| "f_add PInf NInf = NaN"
| "f_add NInf PInf = NaN"
| "f_add PInf _ = PInf"
| "f_add _ PInf = PInf"
| "f_add NInf _ = NInf"
| "f_add _ NInf = NInf"

definition f_sub :: "f64 \<Rightarrow> f64 \<Rightarrow> f64" where
  "f_sub a b = f_add a (f_neg b)"

fun f_sign :: "f64 \<Rightarrow> int" where
  "f_sign (Fin x) = (if x > 0 then 1 else if x < 0 then - 1 else 0)"
| "f_sign PInf = 1"
| "f_sign NInf = - 1"
| "f_sign NaN = 0"

definition f_inf :: "int \<Rightarrow> f64" where
  "f_inf s = (if s > 0 then PInf else if s < 0 then NInf else NaN)"

fun f_mul :: "f64 \<Rightarrow> f64 \<Rightarrow> f64" where
  "f_mul (Fin x) (Fin y) = rnd (x * y)"
| "f_mul NaN _ = NaN"
| "f_mul _ NaN = NaN"
| "f_mul a b = f_inf (f_sign a * f_sign b)"

fun f_div :: "f64 \<Rightarrow> f64 \<Rightarrow> f64" where
  "f_div NaN _ = NaN"
| "f_div _ NaN = NaN"
| "f_div (Fin x) (Fin y) = (if y = 0 then f_inf (f_sign (Fin x)) else rnd (x / y))"
| "f_div (Fin x) _ = Fin 0"
| "f_div a (Fin y) = f_inf (f_sign a * (if y < 0 then - 1 else 1))"
| "f_div _ _ = NaN"

fun f_lt :: "f64 \<Rightarrow> f64 \<Rightarrow> bool" where
  "f_lt (Fin x) (Fin y) = (x < y)"
| "f_lt (Fin x) PInf = True"
| "f_lt NInf (Fin y) = True"
| "f_lt NInf PInf = True"
| "f_lt _ _ = False"

fun f_eq :: "f64 \<Rightarrow> f64 \<Rightarrow> bool" where
  "f_eq NaN _ = False"
| "f_eq _ NaN = False"
| "f_eq a b = (a = b)"

definition f_le :: "f64 \<Rightarrow> f64 \<Rightarrow> bool" where
  "f_le a b \<longleftrightarrow> f_lt a b \<or> f_eq a b"

text \<open>\<open>f64::min\<close> and \<open>f64::max\<close> return the other operand when one is not a number.\<close>

definition f_min :: "f64 \<Rightarrow> f64 \<Rightarrow> f64" where
  "f_min a b = (if a = NaN then b else if b = NaN then a else if f_lt b a then b else a)"

definition f_max :: "f64 \<Rightarrow> f64 \<Rightarrow> f64" where
  "f_max a b = (if a = NaN then b else if b = NaN then a else if f_lt a b then b else a)"

text \<open>\<open>f64::clamp\<close> panics (\<open>None\<close>) unless \<open>lo <= hi\<close>; a value that is not a number stays so.\<close>

definition f_clamp :: "f64 \<Rightarrow> f64 \<Rightarrow> f64 \<Rightarrow> f64 option" where
  "f_clamp x lo hi =
     (if f_le lo hi then
        Some (let y = (if f_lt x lo then lo else x) in if f_lt hi y then hi else y)
      else None)"

fun f_floor :: "f64 \<Rightarrow> f64" where
  "f_floor (Fin x) = Fin (of_int \<lfloor>x\<rfloor>)"
| "f_floor a = a"

fun f_ceil :: "f64 \<Rightarrow> f64" where
  "f_ceil (Fin x) = Fin (of_int \<lceil>x\<rceil>)"
| "f_ceil a = a"

text \<open>\<open>f64::round\<close>: half-way cases away from zero.\<close>

fun f_round :: "f64 \<Rightarrow> f64" where
  "f_round (Fin x) = Fin (of_int (if x \<ge> 0 then \<lfloor>x + 1 / 2\<rfloor> else \<lceil>x - 1 / 2\<rceil>))"
| "f_round a = a"

definition f_of_nat :: "nat \<Rightarrow> f64" where
  "f_of_nat n = rnd (of_nat n)"

text \<open>The saturating cast \<open>as u64\<close> (and \<open>as usize\<close> on the 64-bit targets).\<close>

fun f_to_u64 :: "f64 \<Rightarrow> nat" where
  "f_to_u64 (Fin x) = (if x < 0 then 0 else min (nat \<lfloor>x\<rfloor>) (2 ^ 64 - 1))"
| "f_to_u64 PInf = 2 ^ 64 - 1"
| "f_to_u64 NInf = 0"
| "f_to_u64 NaN = 0"

text \<open>A decimal literal of the source denotes the nearest representable value.\<close>

abbreviation f_lit :: "rat \<Rightarrow> f64" where
  "f_lit \<equiv> rnd"

definition f_sum :: "f64 list \<Rightarrow> f64" where
  "f_sum xs = foldl f_add (Fin 0) xs"

section \<open>Comparison\<close>

lemma f_le_Fin [simp]: "f_le (Fin x) (Fin y) = (x \<le> y)"
  by (auto simp: f_le_def)

lemma f_le_refl [simp]: "f_le a a = (a \<noteq> NaN)"
  by (cases a) (auto simp: f_le_def)

lemma f_le_trans: "f_le a b \<Longrightarrow> f_le b c \<Longrightarrow> f_le a c"
  by (cases a; cases b; cases c) (auto simp: f_le_def)

lemma f_le_linear: "a \<noteq> NaN \<Longrightarrow> b \<noteq> NaN \<Longrightarrow> f_le a b \<or> f_lt b a"
  by (cases a; cases b) (auto simp: f_le_def)

lemma f_le_not_NaN: "f_le a b \<Longrightarrow> a \<noteq> NaN \<and> b \<noteq> NaN"
  by (cases a; cases b) (auto simp: f_le_def)

lemma f_lt_not_le: "f_lt a b \<Longrightarrow> \<not> f_le b a"
  by (cases a; cases b) (auto simp: f_le_def)

lemma f_lt_imp_le: "f_lt a b \<Longrightarrow> f_le a b"
  by (simp add: f_le_def)

section \<open>Clamping\<close>

lemma f_clamp_Some_iff: "(\<exists>y. f_clamp x lo hi = Some y) \<longleftrightarrow> f_le lo hi"
  by (simp add: f_clamp_def)

lemma f_clamp_bounds:
  assumes "f_clamp x lo hi = Some y" and "x \<noteq> NaN"
  shows "f_le lo y \<and> f_le y hi"
proof -
  from assms(1) have le: "f_le lo hi" by (auto simp: f_clamp_def split: if_splits)
  then have nn: "lo \<noteq> NaN" "hi \<noteq> NaN" by (auto dest: f_le_not_NaN)
  show ?thesis
  proof (cases "f_lt x lo")
    case True
    then have "y = lo" using assms(1) le
      by (auto simp: f_clamp_def Let_def split: if_splits dest: f_lt_not_le)
    with le nn show ?thesis by simp
  next
    case False
    with nn assms(2) have "f_le lo x" using f_le_linear by blast
    with assms le nn show ?thesis
      by (auto simp: f_clamp_def Let_def split: if_splits dest: f_le_linear [rotated])
  qed
qed

lemma f_clamp_id: "f_le lo x \<Longrightarrow> f_le x hi \<Longrightarrow> f_clamp x lo hi = Some x"
  using f_le_trans [of lo x hi] f_lt_not_le by (auto simp: f_clamp_def Let_def)

lemma f_clamp_finite:
  "f_clamp x (Fin lo) (Fin hi) = Some y \<Longrightarrow> x \<noteq> NaN \<Longrightarrow> \<exists>v. y = Fin v \<and> lo \<le> v \<and> v \<le> hi"
  using f_clamp_bounds [of x "Fin lo" "Fin hi" y] by (cases y) (auto simp: f_le_def)

section \<open>Laws of rounding\<close>

lemma powi_less_iff: "(2::rat) powi a < 2 powi b \<longleftrightarrow> a < b"
proof -
  have "(2::rat) powi a < 2 powi b" if "a < b" for a b
    using that by (intro power_int_strict_increasing) auto
  then show ?thesis by (metis less_asym linorder_neqE)
qed

lemma ilog2_bounds:
  assumes "0 < x"
  shows "2 powi ilog2 x \<le> x \<and> x < 2 powi (ilog2 x + 1)"
proof (cases "1 \<le> x")
  case True
  define k where "k = bitlen \<lfloor>x\<rfloor>"
  have pos: "0 < \<lfloor>x\<rfloor>" using True by (simp add: less_floor_iff)
  with bitlen_nonneg bitlen_eq_zero_iff have k: "1 \<le> k" unfolding k_def
    by (metis int_one_le_iff_zero_less leD le_less)
  have "2 ^ nat (k - 1) \<le> \<lfloor>x\<rfloor>" and "\<lfloor>x\<rfloor> < 2 ^ nat k"
    using bitlen_bounds [OF pos] by (simp_all add: k_def)
  then have "(2::rat) ^ nat (k - 1) \<le> x" and "x < 2 ^ nat k"
    by (simp_all add: le_floor_iff floor_less_iff)
  with True k show ?thesis by (simp add: ilog2_def power_int_nonneg_exp flip: k_def)
next
  case False
  define m where "m = \<lceil>1 / x\<rceil> - 1"
  define k where "k = bitlen m"
  have "1 < 1 / x" using False assms by simp
  then have pos: "0 < m" by (simp add: m_def less_ceiling_iff)
  with bitlen_nonneg bitlen_eq_zero_iff have k: "1 \<le> k" unfolding k_def
    by (metis int_one_le_iff_zero_less leD le_less)
  have b: "2 ^ nat (k - 1) \<le> m" "m < 2 ^ nat k"
    using bitlen_bounds [OF pos] by (simp_all add: k_def)
  have "1 / x \<le> of_int (m + 1)" by (simp add: m_def)
  also have "\<dots> \<le> (2::rat) ^ nat k" using b(2)
    by (metis add1_zle_eq of_int_le_iff of_int_numeral of_int_power)
  finally have lo: "2 powi (- k) \<le> x"
    using assms k by (simp add: power_int_minus power_int_nonneg_exp field_simps)
  have "(2::rat) ^ nat (k - 1) \<le> of_int m" using b(1)
    by (metis of_int_le_iff of_int_numeral of_int_power)
  also have "of_int m < 1 / x" by (simp add: m_def) linarith
  finally have "x < 2 powi (- (k - 1))"
    using assms k by (simp only: power_int_minus) (simp add: power_int_nonneg_exp field_simps)
  with lo False show ?thesis by (simp add: ilog2_def flip: m_def k_def)
qed

lemma ilog2_mono:
  assumes "0 < x" and "x \<le> y"
  shows "ilog2 x \<le> ilog2 y"
proof -
  have "(2::rat) powi ilog2 x < 2 powi (ilog2 y + 1)"
    using ilog2_bounds [OF assms(1)] ilog2_bounds [of y] assms by linarith
  then show ?thesis by (simp add: powi_less_iff)
qed

lemma rhe_bounds: "\<lfloor>x\<rfloor> \<le> round_half_even x \<and> round_half_even x \<le> \<lfloor>x\<rfloor> + 1"
  by (auto simp: round_half_even_def Let_def)

lemma rhe_int [simp]: "round_half_even (of_int n) = n"
  by (simp add: round_half_even_def)

lemma rhe_mono:
  assumes "x \<le> y"
  shows "round_half_even x \<le> round_half_even y"
proof (cases "\<lfloor>x\<rfloor> = \<lfloor>y\<rfloor>")
  case True
  with assms show ?thesis by (auto simp: round_half_even_def Let_def)
next
  case False
  with floor_mono [OF assms] have "\<lfloor>x\<rfloor> + 1 \<le> \<lfloor>y\<rfloor>" by linarith
  with rhe_bounds [of x] rhe_bounds [of y] show ?thesis by linarith
qed

lemma rhe_minus: "round_half_even (- x) = - round_half_even x"
proof (cases "x = of_int \<lfloor>x\<rfloor>")
  case True
  then show ?thesis by (metis of_int_minus rhe_int)
next
  case False
  then have "\<lceil>x\<rceil> = \<lfloor>x\<rfloor> + 1" by (simp add: ceiling_altdef)
  then have "\<lfloor>- x\<rfloor> = - \<lfloor>x\<rfloor> - 1" by (simp add: floor_minus)
  then show ?thesis by (auto simp: round_half_even_def Let_def)
qed


lemma ulp_pos: "0 < ulp x"
  by (simp add: ulp_def)

lemma rnd_value_minus: "rnd_value (- x) = - rnd_value x"
  by (simp add: rnd_value_def ulp_def rhe_minus)

text \<open>The magnitude range of a rounded value, by the exponent of its last place.\<close>

lemma rnd_value_upper:
  assumes "0 < x" and "x \<le> 2 powi (e + 1)" and "max (ilog2 x) (- 1022) = e"
  shows "rnd_value x \<le> 2 powi (e + 1)"
proof -
  have u: "ulp x = 2 powi (e - 52)" using assms by (simp add: ulp_def)
  have split: "(2::rat) powi (e + 1) = 2 ^ 53 * 2 powi (e - 52)"
    by (simp add: power_int_add power_int_diff field_simps)
  then have "x / ulp x \<le> of_int (2 ^ 53)" using assms(2) by (simp add: u field_simps)
  then have "round_half_even (x / ulp x) \<le> 2 ^ 53" using rhe_mono rhe_int by metis
  then have "of_int (round_half_even (x / ulp x)) \<le> (2 ^ 53 :: rat)"
    by (metis of_int_le_iff of_int_numeral of_int_power)
  then have "of_int (round_half_even (x / ulp x)) * ulp x \<le> 2 ^ 53 * ulp x"
    using ulp_pos [of x] by (simp add: mult_right_mono)
  with split u assms(1) show ?thesis by (simp add: rnd_value_def)
qed

lemma rnd_value_lower:
  assumes "0 < x" and "ilog2 x = e" and "- 1022 \<le> e"
  shows "2 powi e \<le> rnd_value x"
proof -
  have u: "ulp x = 2 powi (e - 52)" using assms by (simp add: ulp_def max_def)
  have split: "(2::rat) powi e = 2 ^ 52 * 2 powi (e - 52)"
    by (simp add: power_int_diff)
  then have "of_int (2 ^ 52) \<le> x / ulp x"
    using ilog2_bounds [OF assms(1)] assms(2) by (simp add: u field_simps)
  then have "2 ^ 52 \<le> round_half_even (x / ulp x)" using rhe_mono rhe_int by metis
  then have "(2 ^ 52 :: rat) \<le> of_int (round_half_even (x / ulp x))"
    by (metis of_int_le_iff of_int_numeral of_int_power)
  then have "2 ^ 52 * ulp x \<le> of_int (round_half_even (x / ulp x)) * ulp x"
    using ulp_pos [of x] by (simp add: mult_right_mono)
  with split u assms(1) show ?thesis by (simp add: rnd_value_def)
qed

lemma rnd_value_nonneg: "0 \<le> x \<Longrightarrow> 0 \<le> rnd_value x"
  using rhe_mono [of 0 "x / ulp x"] rhe_int [of 0] ulp_pos [of x]
  by (simp add: rnd_value_def)

lemma rnd_value_mono_pos:
  assumes "0 < x" and "x \<le> y"
  shows "rnd_value x \<le> rnd_value y"
proof -
  define ex where "ex = max (ilog2 x) (- 1022)"
  define ey where "ey = max (ilog2 y) (- 1022)"
  have y: "0 < y" using assms by simp
  have le: "ex \<le> ey" using ilog2_mono [OF assms] by (simp add: ex_def ey_def)
  show ?thesis
  proof (cases "ex = ey")
    case True
    then have "ulp x = ulp y" using assms y by (simp add: ulp_def ex_def ey_def)
    moreover from this have "x / ulp x \<le> y / ulp y" using assms ulp_pos [of y]
      by (simp add: divide_right_mono)
    ultimately show ?thesis using rhe_mono [of "x / ulp x" "y / ulp y"] ulp_pos [of y] assms y
      by (simp add: rnd_value_def mult_right_mono)
  next
    case False
    with le have lt: "ex + 1 \<le> ey" and ey: "ilog2 y = ey" "- 1022 \<le> ey"
      by (auto simp: ex_def ey_def)
    have "x \<le> 2 powi (ex + 1)"
      using ilog2_bounds [OF assms(1)] power_int_increasing [of "ilog2 x + 1" "ex + 1" "2::rat"]
      by (simp add: ex_def)
    then have "rnd_value x \<le> 2 powi (ex + 1)"
      using rnd_value_upper assms(1) ex_def by blast
    also have "\<dots> \<le> 2 powi ey" using lt by (intro power_int_increasing) auto
    also have "\<dots> \<le> rnd_value y" using rnd_value_lower [OF y] ey by blast
    finally show ?thesis .
  qed
qed

lemma rnd_value_0 [simp]: "rnd_value 0 = 0"
  by (simp add: rnd_value_def)

lemma rnd_value_mono:
  assumes "x \<le> y"
  shows "rnd_value x \<le> rnd_value y"
proof -
  consider "0 < x" | "x \<le> 0" "0 \<le> y" | "y < 0" by linarith
  then show ?thesis
  proof cases
    case 1
    then show ?thesis using rnd_value_mono_pos assms by blast
  next
    case 2
    then show ?thesis
      using rnd_value_nonneg [of y] rnd_value_nonneg [of "- x"] by (simp add: rnd_value_minus)
  next
    case 3
    then show ?thesis
      using rnd_value_mono_pos [of "- y" "- x"] assms by (simp add: rnd_value_minus)
  qed
qed

lemma rnd_mono: "x \<le> y \<Longrightarrow> f_le (rnd x) (rnd y)"
  using rnd_value_mono [of x y] by (auto simp: rnd_def Let_def f_le_def)

lemma rnd_not_NaN [simp]: "rnd x \<noteq> NaN"
  by (simp add: rnd_def Let_def)

lemma rnd_0 [simp]: "rnd 0 = Fin 0"
  by (simp add: rnd_def)

lemma ilog2_unique:
  assumes "2 powi e \<le> x" and "x < 2 powi (e + 1)"
  shows "ilog2 x = e"
proof -
  have "0 < x" using assms(1) by (meson less_le_trans zero_less_numeral zero_less_power_int)
  then have b: "2 powi ilog2 x \<le> x" "x < 2 powi (ilog2 x + 1)" using ilog2_bounds by auto
  have "(2::rat) powi ilog2 x < 2 powi (e + 1)" and "(2::rat) powi e < 2 powi (ilog2 x + 1)"
    using b assms by linarith+
  then show ?thesis by (simp add: powi_less_iff)
qed

lemma rnd_value_integral: "x / ulp x = of_int m \<Longrightarrow> rnd_value x = x"
  using ulp_pos [of x] by (simp add: rnd_value_def) (simp add: field_simps)

lemma rnd_value_idem_pos:
  assumes "0 < x"
  shows "rnd_value (rnd_value x) = rnd_value x"
proof (cases "rnd_value x = 0")
  case False
  define e where "e = max (ilog2 x) (- 1022)"
  define y where "y = rnd_value x"
  define m where "m = round_half_even (x / ulp x)"
  have u: "ulp x = 2 powi (e - 52)" using assms by (simp add: ulp_def e_def)
  have y: "y = of_int m * 2 powi (e - 52)" using assms u by (simp add: y_def m_def rnd_value_def)
  have pos: "0 < y" using False rnd_value_nonneg [of x] assms by (simp add: y_def)
  have "x \<le> 2 powi (e + 1)"
    using ilog2_bounds [OF assms] power_int_increasing [of "ilog2 x + 1" "e + 1" "2::rat"]
    by (simp add: e_def)
  then have hi: "y \<le> 2 powi (e + 1)" using rnd_value_upper assms e_def y_def by blast
  show ?thesis
  proof (cases "y = 2 powi (e + 1)")
    case True
    then have "ilog2 y = e + 1" by (intro ilog2_unique) (auto simp: powi_less_iff)
    then have "ulp y = 2 powi (e + 1 - 52)" using pos by (simp add: ulp_def e_def)
    moreover have "y = 2 ^ 52 * 2 powi (e + 1 - 52)" using True
      by (simp add: power_int_add power_int_diff)
    ultimately have "y / ulp y = of_int (2 ^ 52)" by simp
    then show ?thesis unfolding y_def [symmetric] by (rule rnd_value_integral)
  next
    case False
    with hi have "(2::rat) powi ilog2 y < 2 powi (e + 1)" using ilog2_bounds [OF pos] by linarith
    then have le: "ilog2 y \<le> e" by (simp add: powi_less_iff)
    have "max (ilog2 y) (- 1022) = e"
    proof (cases "ilog2 x \<ge> - 1022")
      case True
      then have "2 powi e \<le> y" using rnd_value_lower [OF assms] by (simp add: y_def e_def max_def)
      then show ?thesis using ilog2_unique [of e y] hi \<open>y \<noteq> 2 powi (e + 1)\<close> True
        by (simp add: e_def)
    qed (use le in \<open>simp add: e_def\<close>)
    then have "ulp y = 2 powi (e - 52)" using pos by (simp add: ulp_def)
    then have "y / ulp y = of_int m" using y by simp
    then show ?thesis unfolding y_def [symmetric] by (rule rnd_value_integral)
  qed
qed simp

lemma rnd_value_idem: "rnd_value (rnd_value x) = rnd_value x"
proof -
  consider "0 < x" | "x = 0" | "0 < - x" by linarith
  then show ?thesis
  proof cases
    case 3
    then show ?thesis using rnd_value_idem_pos [of "- x"] by (simp add: rnd_value_minus)
  qed (auto simp: rnd_value_idem_pos)
qed

text \<open>The finite values that occur: those rounding leaves alone.\<close>

definition representable :: "f64 \<Rightarrow> bool" where
  "representable a \<longleftrightarrow> (case a of Fin x \<Rightarrow> rnd x = Fin x | _ \<Rightarrow> True)"

lemma representable_rnd [simp]: "representable (rnd x)"
  by (auto simp: representable_def rnd_def Let_def rnd_value_idem split: f64.splits)

lemma f_sub_le:
  assumes "representable (Fin a)" and "0 \<le> b"
  shows "f_le (f_sub (Fin a) (Fin b)) (Fin a)"
  using assms rnd_mono [of "a - b" a] by (simp add: f_sub_def representable_def)

lemma f_add_ge:
  assumes "representable (Fin a)" and "0 \<le> b"
  shows "f_le (Fin a) (f_add (Fin a) (Fin b))"
  using assms rnd_mono [of a "a + b"] by (simp add: representable_def)

text \<open>Short dyadic fractions, and integers below \<open>2 ^ 53\<close>, are exact.\<close>

lemma rnd_value_dyadic:
  assumes "x * 2 ^ j = of_int m" and "\<bar>m\<bar> < 2 ^ 53" and "j \<le> 1074"
  shows "rnd_value x = x"
proof (cases "x = 0")
  case False
  define e where "e = max (ilog2 \<bar>x\<bar>) (- 1022)"
  have "\<bar>x\<bar> * 2 ^ j < 2 ^ 53"
  proof -
    have "\<bar>x\<bar> * 2 ^ j = of_int \<bar>m\<bar>" using assms(1) by (metis abs_mult abs_numeral of_int_abs power_abs)
    also have "\<dots> < of_int (2 ^ 53)" using assms(2) by (simp only: of_int_less_iff)
    finally show ?thesis by simp
  qed
  then have "\<bar>x\<bar> < 2 ^ 53 * 2 powi (- int j)" by (simp add: power_int_minus field_simps)
  also have "\<dots> = 2 powi (53 - int j)" by (simp add: power_int_diff power_int_minus field_simps)
  finally have "(2::rat) powi ilog2 \<bar>x\<bar> < 2 powi (53 - int j)"
    using ilog2_bounds [of "\<bar>x\<bar>"] False by simp
  then have le: "e - 52 \<le> - int j" using assms(3) by (auto simp: e_def powi_less_iff)
  have u: "ulp x = 2 powi (e - 52)" by (simp add: ulp_def e_def)
  have "(2::rat) powi (- int j) = 2 ^ nat (- int j - (e - 52)) * 2 powi (e - 52)"
    using le by (simp flip: power_int_add power_int_of_nat)
  then have "1 / (2 ^ j * ulp x) = 2 ^ nat (- int j - (e - 52))"
    using ulp_pos [of x] by (simp add: u power_int_minus field_simps)
  moreover have "x / ulp x = (x * 2 ^ j) * (1 / (2 ^ j * ulp x))" by simp
  ultimately have "x / ulp x = of_int (m * 2 ^ nat (- int j - (e - 52)))" using assms(1) by simp
  then show ?thesis by (rule rnd_value_integral)
qed simp

lemma rnd_dyadic:
  assumes "x * 2 ^ j = of_int m" and "\<bar>m\<bar> < 2 ^ 53" and "j \<le> 1074"
  shows "rnd x = Fin x"
proof -
  have "\<bar>x\<bar> \<le> \<bar>x\<bar> * 2 ^ j" by (simp add: mult_le_cancel_left1)
  also have "\<dots> = of_int \<bar>m\<bar>" using assms(1) by (metis abs_mult abs_numeral of_int_abs power_abs)
  also have "\<dots> < of_int (2 ^ 53)" using assms(2) by (simp only: of_int_less_iff)
  also have "\<dots> < 2 ^ 1024" by simp
  finally have "- (2 ^ 1024) < x" and "x < 2 ^ 1024" by (auto simp: abs_less_iff)
  with rnd_value_dyadic [OF assms] show ?thesis by (simp add: rnd_def)
qed

lemma rnd_of_int: "\<bar>m\<bar> < 2 ^ 53 \<Longrightarrow> rnd (of_int m) = Fin (of_int m)"
  by (rule rnd_dyadic [of _ 0 m]) simp_all

lemma rnd_of_nat: "n < 2 ^ 53 \<Longrightarrow> rnd (of_nat n) = Fin (of_nat n)"
  using rnd_of_int [of "int n"] by simp

lemma rnd_numeral: "numeral n < (2 ^ 53 :: int) \<Longrightarrow> rnd (numeral n) = Fin (numeral n)"
  using rnd_of_int [of "numeral n"] by simp

lemma rnd_1 [simp]: "rnd 1 = Fin 1"
  using rnd_of_int [of 1] by simp

end
