(* ===== verification/Models.thy ===== *)
theory Models
  imports Float64
begin

text \<open>
  The platform's data model (\<open>src-tauri/src/models.rs\<close>): environments with their resource
  policies, connections, snapshots, backups, host metrics and settings, gathered in the
  \<open>PlatformState\<close> that the store persists, and the migration of states that older versions
  saved. Field names carry a prefix per struct, since record fields are constants.
\<close>

section \<open>Enumerations\<close>

datatype EnvironmentKind = Cloud | Container | MicroVm | FullVm | ComputerBranch

datatype EnvironmentStatus = Running | Stopped | Paused | Provisioning | StatusError

datatype RuntimeProviderKind = CloudSsh | OpenDockOci | OpenDockCuda | Qemu | NativeSandbox

fun provider_is_container :: "RuntimeProviderKind \<Rightarrow> bool" where
  "provider_is_container OpenDockOci = True"
| "provider_is_container OpenDockCuda = True"
| "provider_is_container _ = False"

datatype BranchType = ExactCopy | AppsSettings | AppsOnly | CleanOs

datatype SandboxFileAccess = ReadOnly | ReadWrite

record SandboxShare =
  sh_path :: string
  sh_access :: SandboxFileAccess

record SandboxPolicy =
  sp_executable :: string
  sp_arguments :: string
  sp_shares :: "SandboxShare list"
  sp_network_access :: bool

text \<open>The derived order of \<open>Priority\<close> is the order of its variants.\<close>

datatype Priority = PrioLow | PrioNormal | PrioHigh | PrioCritical

fun priority_rank :: "Priority \<Rightarrow> nat" where
  "priority_rank PrioLow = 0"
| "priority_rank PrioNormal = 1"
| "priority_rank PrioHigh = 2"
| "priority_rank PrioCritical = 3"

instantiation Priority :: linorder
begin

definition less_eq_Priority :: "Priority \<Rightarrow> Priority \<Rightarrow> bool" where
  "less_eq_Priority a b = (priority_rank a \<le> priority_rank b)"

definition less_Priority :: "Priority \<Rightarrow> Priority \<Rightarrow> bool" where
  "less_Priority a b = (priority_rank a < priority_rank b)"

instance
proof
  fix a b :: Priority
  show "a \<le> b \<Longrightarrow> b \<le> a \<Longrightarrow> a = b"
    by (cases a; cases b) (auto simp: less_eq_Priority_def)
qed (auto simp: less_eq_Priority_def less_Priority_def)

end

section \<open>Resources and environments\<close>

record ResourceRange =
  rr_min :: f64
  rr_preferred :: f64
  rr_max :: f64
  rr_current :: f64

record ResourcePolicy =
  rp_cpu :: ResourceRange
  rp_memory_gb :: ResourceRange
  rp_priority :: Priority
  rp_dynamic :: bool

record Environment =
  env_id :: string
  env_name :: string
  env_kind :: EnvironmentKind
  env_status :: EnvironmentStatus
  env_runtime :: string
  env_provider :: "RuntimeProviderKind option"
  env_runtime_id :: "string option"
  env_runtime_path :: "string option"
  env_control_endpoint :: "string option"
  env_console_endpoint :: "string option"
  env_container_command :: "string option"
  env_network_access :: bool
  env_gpu_access :: bool
  env_sandbox_policy :: "SandboxPolicy option"
  env_last_error :: "string option"
  env_description :: string
  env_branch_type :: "BranchType option"
  env_created_at :: string
  env_last_opened_at :: "string option"
  env_cpu_usage :: f64
  env_memory_usage_gb :: f64
  env_storage_delta_gb :: f64
  env_storage_limit_gb :: "f64 option"
  env_network_rx_mbps :: f64
  env_resource_policy :: ResourcePolicy

section \<open>Connections, snapshots and backups\<close>

datatype PermissionKind = Network | Ports | Files | Volumes | Data | Secrets

datatype ConnectionDirection = OneWay | Bidirectional

datatype EnforcementStatus = Enforced | Pending | EnforcementError

record Connection =
  conn_id :: string
  conn_source_id :: string
  conn_target_id :: string
  conn_direction :: ConnectionDirection
  conn_permissions :: "PermissionKind list"
  conn_ports :: "string list"
  conn_volume :: "string option"
  conn_active :: bool
  conn_created_at :: string
  conn_enforcement_status :: "EnforcementStatus option"
  conn_provider_rule_ids :: "string list"
  conn_last_error :: "string option"

datatype SnapshotStatus = SnapReady | SnapCreating | SnapFailed

record SnapshotEnvironmentState =
  ses_runtime :: string
  ses_provider :: "RuntimeProviderKind option"
  ses_runtime_path :: "string option"
  ses_container_command :: "string option"
  ses_network_access :: bool
  ses_gpu_access :: bool
  ses_sandbox_policy :: "SandboxPolicy option"
  ses_description :: string
  ses_branch_type :: "BranchType option"
  ses_resource_policy :: ResourcePolicy

record Snapshot =
  snap_id :: string
  snap_environment_id :: string
  snap_name :: string
  snap_created_at :: string
  snap_size_gb :: f64
  snap_delta_gb :: f64
  snap_encrypted :: bool
  snap_status :: SnapshotStatus
  snap_provider_snapshot_id :: "string option"
  snap_artifact_path :: "string option"
  snap_artifact_size_bytes :: "u64 option"
  snap_checksum_sha256 :: "string option"
  snap_environment_state :: "SnapshotEnvironmentState option"
  snap_connections :: "Connection list option"

datatype BackupProvider = AwsS3 | AzureBlob | GoogleCloud | S3Compatible

record BackupDestination =
  bd_id :: string
  bd_name :: string
  bd_provider :: BackupProvider
  bd_location :: string
  bd_encrypted :: bool
  bd_connected :: bool
  bd_last_verified_at :: string

datatype BackupRunStatus = RunComplete | RunRunning | RunFailed

record BackupRun =
  br_id :: string
  br_environment_id :: string
  br_destination_id :: string
  br_created_at :: string
  br_completed_at :: "string option"
  br_transferred_gb :: f64
  br_deduplicated_gb :: f64
  br_status :: BackupRunStatus
  br_remote_object :: "string option"
  br_checksum_sha256 :: "string option"
  br_last_error :: "string option"

section \<open>Host, providers and settings\<close>

datatype HostPressure = PressureLow | PressureModerate | PressureHigh

record HostMetrics =
  host_hostname :: string
  host_os :: string
  host_cpu_model :: string
  host_total_cpu :: nat
  host_used_cpu_percent :: f64
  host_gpu_usage_percent :: "f64 option"
  host_total_memory_gb :: f64
  host_used_memory_gb :: f64
  host_total_storage_gb :: f64
  host_used_storage_gb :: f64
  host_storage_drive :: "string option"
  host_storage_saved_gb :: f64
  host_pressure :: HostPressure
  host_cpu_history :: "f64 list"
  host_gpu_history :: "f64 list"
  host_memory_history :: "f64 list"
  host_updated_at :: string

datatype ProviderKind = ProvContainer | ProvVirtualization | ProvStorage | ProvBackup

datatype ProviderAvailability = ProvReady | ProvUnavailable | ProvNeedsSetup

record ProviderStatus =
  ps_id :: string
  ps_name :: string
  ps_kind :: ProviderKind
  ps_status :: ProviderAvailability
  ps_detail :: string

datatype ThemePreference = ThemeLight | ThemeDark | ThemeSystem

record AppSettings =
  set_theme :: ThemePreference
  set_launch_at_startup :: bool
  set_minimize_to_tray :: bool
  set_pause_on_battery :: bool
  set_telemetry_enabled :: bool
  set_data_directory :: string
  set_snapshot_retention :: nat
  set_bandwidth_limit_mbps :: nat

section \<open>Platform state\<close>

record FactoryResetCleanup =
  frc_environment :: Environment
  frc_snapshots :: "Snapshot list"
  frc_committed :: bool

record PlatformState =
  manual_service_ports :: "(string \<times> u16 list) list"
  pending_factory_resets :: "FactoryResetCleanup list"
  schema_version :: u32
  environments :: "Environment list"
  connections :: "Connection list"
  snapshots :: "Snapshot list"
  destinations :: "BackupDestination list"
  backup_runs :: "BackupRun list"
  pending_vm_restores :: "string list"
  host :: HostMetrics
  providers :: "ProviderStatus list"
  settings :: AppSettings

section \<open>Requests\<close>

record CreateResourceRange =
  crr_min :: f64
  crr_preferred :: f64
  crr_max :: f64

record CreateResourcePolicy =
  crp_cpu :: CreateResourceRange
  crp_memory_gb :: CreateResourceRange
  crp_priority :: Priority
  crp_dynamic :: bool

record CreateEnvironmentRequest =
  cer_storage_gb :: "f64 option"
  cer_name :: string
  cer_kind :: EnvironmentKind
  cer_runtime :: string
  cer_provider :: RuntimeProviderKind
  cer_container_command :: "string option"
  cer_network_access :: bool
  cer_gpu_access :: bool
  cer_sandbox_policy :: "SandboxPolicy option"
  cer_description :: string
  cer_branch_type :: "BranchType option"
  cer_resource_policy :: CreateResourcePolicy

record CreateConnectionRequest =
  ccr_source_id :: string
  ccr_target_id :: string
  ccr_direction :: ConnectionDirection
  ccr_permissions :: "PermissionKind list"
  ccr_ports :: "string list"
  ccr_volume :: "string option"

section \<open>Example values\<close>

text \<open>Concrete states at which the theorems of the development are instantiated.\<close>

definition example_range :: ResourceRange where
  "example_range = \<lparr>rr_min = Fin 1, rr_preferred = Fin 2, rr_max = Fin 4, rr_current = Fin 0\<rparr>"

definition example_policy :: ResourcePolicy where
  "example_policy = \<lparr>rp_cpu = example_range, rp_memory_gb = example_range,
     rp_priority = PrioNormal, rp_dynamic = True\<rparr>"

definition example_env :: "string \<Rightarrow> EnvironmentKind \<Rightarrow> EnvironmentStatus \<Rightarrow> Environment" where
  "example_env i k st = \<lparr>env_id = i, env_name = ''web'', env_kind = k, env_status = st,
     env_runtime = ''alpine'', env_provider = None, env_runtime_id = None, env_runtime_path = None,
     env_control_endpoint = None, env_console_endpoint = None, env_container_command = None,
     env_network_access = False, env_gpu_access = False, env_sandbox_policy = None,
     env_last_error = None, env_description = [], env_branch_type = None, env_created_at = [],
     env_last_opened_at = None, env_cpu_usage = Fin 0, env_memory_usage_gb = Fin 0,
     env_storage_delta_gb = Fin 0, env_storage_limit_gb = None, env_network_rx_mbps = Fin 0,
     env_resource_policy = example_policy\<rparr>"

definition example_host :: HostMetrics where
  "example_host = \<lparr>host_hostname = ''pc'', host_os = [], host_cpu_model = [], host_total_cpu = 8,
     host_used_cpu_percent = Fin 0, host_gpu_usage_percent = None, host_total_memory_gb = Fin 16,
     host_used_memory_gb = Fin 0, host_total_storage_gb = Fin 1, host_used_storage_gb = Fin 0,
     host_storage_drive = None, host_storage_saved_gb = Fin 0, host_pressure = PressureLow,
     host_cpu_history = [], host_gpu_history = [], host_memory_history = [],
     host_updated_at = []\<rparr>"

definition example_settings :: AppSettings where
  "example_settings = \<lparr>set_theme = ThemeSystem, set_launch_at_startup = False,
     set_minimize_to_tray = False, set_pause_on_battery = False, set_telemetry_enabled = False,
     set_data_directory = [], set_snapshot_retention = 20, set_bandwidth_limit_mbps = 0\<rparr>"

definition example_state :: "u32 \<Rightarrow> Environment list \<Rightarrow> PlatformState" where
  "example_state v es = \<lparr>manual_service_ports = [], pending_factory_resets = [],
     schema_version = v, environments = es, connections = [], snapshots = [], destinations = [],
     backup_runs = [], pending_vm_restores = [], host = example_host, providers = [],
     settings = example_settings\<rparr>"

lemmas example_defs = example_range_def example_policy_def example_env_def example_host_def
  example_settings_def example_state_def

end
