(* ===== verification/Migration.thy ===== *)
theory Migration
  imports Models
begin

text \<open>
  \<open>PlatformState::empty\<close> and \<open>PlatformState::migrate\<close>: the state of a first start, and the
  upgrade of a state saved by schema versions 0 to 6. The seed document is data compiled
  into the binary and decoded by serde; what decoding it yields is the parameter
  \<open>seeded\<close>, and its failure is an error of every operation that needs it.
\<close>

type_synonym 'e seed = "(PlatformState, 'e) result"

definition current_schema :: u32 where
  "current_schema = 7"

definition empty_of :: "PlatformState \<Rightarrow> PlatformState" where
  "empty_of s = s\<lparr>schema_version := current_schema, environments := [], connections := [],
     snapshots := [], destinations := [], backup_runs := [], pending_vm_restores := []\<rparr>"

definition empty_state :: "'e seed \<Rightarrow> (PlatformState, 'e) result" where
  "empty_state seeded = result_bind seeded (\<lambda>s. Ok (empty_of s))"

text \<open>The message stored on a branch that has no sandbox policy.\<close>

definition retired_branch_error :: string where
  "retired_branch_error = ''This branch used the retired virtual-machine engine. Create a new Computer Branch and choose the application and folders it may access.''"

definition migrate_env_v3 :: "Environment \<Rightarrow> Environment" where
  "migrate_env_v3 e =
     (if env_kind e = ComputerBranch then
        let e1 = e\<lparr>env_provider := Some NativeSandbox, env_status := Stopped,
                   env_console_endpoint := None\<rparr>
        in if env_sandbox_policy e1 = None
           then e1\<lparr>env_last_error := Some retired_branch_error\<rparr> else e1
      else e)"

definition migrate_env_v4 :: "Environment \<Rightarrow> Environment" where
  "migrate_env_v4 e = (if env_kind e = MicroVm then e\<lparr>env_kind := FullVm\<rparr> else e)"

definition migrate_env_v7 :: "Environment \<Rightarrow> Environment" where
  "migrate_env_v7 e = (if env_kind e = FullVm then e\<lparr>env_network_access := True\<rparr> else e)"

definition migrate_snap_v7 :: "Environment list \<Rightarrow> Snapshot \<Rightarrow> Snapshot" where
  "migrate_snap_v7 es sn =
     (if list_ex (\<lambda>e. env_id e = snap_environment_id sn \<and> env_kind e = FullVm) es then
        (case snap_environment_state sn of
           Some saved \<Rightarrow> sn\<lparr>snap_environment_state := Some (saved\<lparr>ses_network_access := True\<rparr>)\<rparr>
         | None \<Rightarrow> sn)
      else sn)"

text \<open>The upgrade steps in the order of the code, each guarded by the version it reads.\<close>

definition migrate_v3 :: "PlatformState \<Rightarrow> PlatformState" where
  "migrate_v3 s = (if schema_version s < 3
     then s\<lparr>environments := map migrate_env_v3 (environments s)\<rparr> else s)"

definition migrate_v4 :: "PlatformState \<Rightarrow> PlatformState" where
  "migrate_v4 s = (if schema_version s < 4
     then s\<lparr>environments := map migrate_env_v4 (environments s)\<rparr> else s)"

definition migrate_v7 :: "PlatformState \<Rightarrow> PlatformState" where
  "migrate_v7 s = (if schema_version s < 7
     then let es = map migrate_env_v7 (environments s)
          in s\<lparr>environments := es, snapshots := map (migrate_snap_v7 es) (snapshots s)\<rparr> else s)"

definition migrate_from_2 :: "PlatformState \<Rightarrow> PlatformState" where
  "migrate_from_2 s = (migrate_v7 (migrate_v4 (migrate_v3 s)))\<lparr>schema_version := current_schema\<rparr>"

definition migrate :: "'e seed \<Rightarrow> PlatformState \<Rightarrow> (PlatformState, 'e) result" where
  "migrate seeded self =
     result_bind
       (if schema_version self < 2
        then result_bind (empty_state seeded) (\<lambda>s. Ok (s\<lparr>settings := settings self\<rparr>))
        else Ok self)
       (\<lambda>s. Ok (migrate_from_2 s))"

lemmas migrate_defs = migrate_v3_def migrate_v4_def migrate_v7_def migrate_from_2_def
  migrate_env_v3_def migrate_env_v4_def migrate_env_v7_def current_schema_def

lemma migrate_version: "migrate seeded s = Ok t \<Longrightarrow> schema_version t = current_schema"
  by (auto simp: migrate_def migrate_from_2_def split: if_splits)

lemma migrate_from_2_current [simp]:
  "7 \<le> schema_version s \<Longrightarrow> migrate_from_2 s = s\<lparr>schema_version := current_schema\<rparr>"
proof -
  assume "7 \<le> schema_version s"
  then have "\<not> schema_version s < 3" "\<not> schema_version s < 4" "\<not> schema_version s < 7"
    by (simp_all add: word_less_nat_alt word_le_nat_alt)
  then show ?thesis by (simp add: migrate_defs)
qed

lemma not_legacy_7: "7 \<le> (v::u32) \<Longrightarrow> \<not> v < 2"
  by (simp add: word_less_nat_alt word_le_nat_alt)

lemma migrate_current:
  "7 \<le> schema_version s \<Longrightarrow> migrate seeded s = Ok (s\<lparr>schema_version := current_schema\<rparr>)"
  by (simp add: migrate_def not_legacy_7)

text \<open>
  Migrating is idempotent: a state that has been migrated, when migrated again (as
  every later start does), is returned unchanged, whatever version it came from. In
  particular a full VM that the user disconnects from the Internet after the upgrade
  stays disconnected.
\<close>

theorem migrate_idempotent:
  "migrate seeded s = Ok t \<Longrightarrow> migrate seeded' t = Ok t"
proof -
  assume "migrate seeded s = Ok t"
  then have v: "schema_version t = current_schema" by (rule migrate_version)
  then have "migrate seeded' t = Ok (t\<lparr>schema_version := schema_version t\<rparr>)"
    by (subst migrate_current) (simp_all add: current_schema_def)
  then show ?thesis by simp
qed

theorem migrate_idempotent_witness:
  "\<exists>t. migrate (Err ()) (example_state 3 [example_env ''a'' MicroVm Running]) = Ok t
    \<and> migrate (Err ()) t = Ok t"
proof -
  obtain t where "migrate (Err ()) (example_state 3 [example_env ''a'' MicroVm Running]) = Ok t"
    by (auto simp: migrate_def example_state_def)
  with migrate_idempotent show ?thesis by blast
qed

lemma migrate_env_ids [simp]:
  "env_id (migrate_env_v3 e) = env_id e" "env_id (migrate_env_v4 e) = env_id e"
  "env_id (migrate_env_v7 e) = env_id e"
  "env_resource_policy (migrate_env_v3 e) = env_resource_policy e"
  "env_resource_policy (migrate_env_v4 e) = env_resource_policy e"
  "env_resource_policy (migrate_env_v7 e) = env_resource_policy e"
  by (simp_all add: migrate_defs Let_def)

lemma migrate_snap_ids [simp]: "snap_id (migrate_snap_v7 es sn) = snap_id sn"
  by (simp add: migrate_snap_v7_def split: option.splits)

text \<open>What an environment becomes when a state of version 2 to 6 is upgraded.\<close>

definition migrate_env :: "u32 \<Rightarrow> Environment \<Rightarrow> Environment" where
  "migrate_env v e =
     (let e = (if v < 3 then migrate_env_v3 e else e);
          e = (if v < 4 then migrate_env_v4 e else e)
      in (if v < 7 then migrate_env_v7 e else e))"

lemma migrate_environments:
  "\<not> schema_version s < 2 \<Longrightarrow> migrate seeded s = Ok t \<Longrightarrow>
     environments t = map (migrate_env (schema_version s)) (environments s)"
  by (auto simp: migrate_def migrate_from_2_def migrate_v3_def migrate_v4_def migrate_v7_def
      migrate_env_def [abs_def] Let_def)

text \<open>
  C25. Upgrading a state of version 2 or later loses nothing: it succeeds without the seed
  document, keeps every environment with its identity and resource policy in order, every
  snapshot, and leaves connections, backups, pending work, host, providers and settings
  as they were.
\<close>

theorem migrate_preserves:
  assumes "\<not> schema_version s < 2"
  shows "\<exists>t. migrate seeded s = Ok t
    \<and> map env_id (environments t) = map env_id (environments s)
    \<and> map env_resource_policy (environments t) = map env_resource_policy (environments s)
    \<and> map snap_id (snapshots t) = map snap_id (snapshots s)
    \<and> t\<lparr>environments := environments s, snapshots := snapshots s,
         schema_version := schema_version s\<rparr> = s"
  using assms
  by (auto simp: migrate_def migrate_from_2_def migrate_v3_def migrate_v4_def migrate_v7_def Let_def)

theorem migrate_preserves_witness:
  "\<exists>t. migrate (Err ()) (example_state 3 [example_env ''a'' MicroVm Running]) = Ok t
    \<and> map env_id (environments t) = [''a'']"
  using migrate_preserves [of "example_state 3 [example_env ''a'' MicroVm Running]" "Err ()"]
  by (force simp: example_state_def example_env_def)

text \<open>
  Virtual machines survive the two semantic changes of the schema: after the upgrade of
  a version 2 or 3 state no environment is a direct-kernel microVM, and in every upgrade
  from below version 7 each full VM of the result keeps the uplink it always had.
\<close>

theorem migrate_vms:
  assumes "\<not> schema_version s < 2" and "migrate seeded s = Ok t" and "e \<in> set (environments t)"
  shows "(schema_version s < 4 \<longrightarrow> env_kind e \<noteq> MicroVm)
    \<and> (schema_version s < 7 \<longrightarrow> env_kind e = FullVm \<longrightarrow> env_network_access e)"
proof -
  have lt: "schema_version s < 4 \<Longrightarrow> schema_version s < 7"
    by (simp add: word_less_nat_alt)
  from assms migrate_environments obtain e0 where "e = migrate_env (schema_version s) e0"
    by fastforce
  with lt show ?thesis
    by (auto simp: migrate_env_def migrate_env_v4_def migrate_env_v7_def Let_def)
qed

theorem migrate_vms_witness:
  "\<exists>t. migrate (Err ()) (example_state 3 [example_env ''a'' MicroVm Running]) = Ok t
    \<and> (\<forall>e \<in> set (environments t). env_kind e \<noteq> MicroVm)"
proof -
  let ?s = "example_state 3 [example_env ''a'' MicroVm Running]"
  have v: "\<not> schema_version ?s < 2" "schema_version ?s < 4" by (simp_all add: example_state_def)
  then obtain t where t: "migrate (Err ()) ?s = Ok t" by (auto simp: migrate_def)
  with migrate_vms [OF v(1) t] v(2) show ?thesis by blast
qed

end
