(* ===== verification/File_Model.thy ===== *)
theory File_Model
  imports Yougori_Prelude
begin

text \<open>
  The host file system as the state store uses it through \<open>std::fs\<close>: a map from paths to
  nodes, and a script of faults that decides, for each call in turn, whether it succeeds,
  fails with an I/O error, or never returns because the machine stops. A call that writes
  may leave a partial file behind in the last two cases, which the script also supplies;
  once the script is exhausted every call succeeds. A rename or a removal either happens
  or does not, as POSIX and Windows document for files on one volume. Whether a directory
  entry is itself durable before the directory is synced is not modelled.
\<close>

datatype fnode = File bytes | Other

type_synonym path = string
type_synonym files = "path \<Rightarrow> fnode option"

datatype fault = Succeeds | Fails bytes | Crashes bytes

text \<open>
  What a fallible operation ends in: a value, an error that it returns, or the end of the
  process. The text of an error message is kept only where the operation chose it.
\<close>

datatype failure = IoError | LockPoisoned | OperationRefused string | EncodeError
  | StateUnreadable | SeedUndecodable string | NotMigrated string

datatype 'a outcome = Done 'a | Failed failure | Crashed

record world =
  w_files :: files
  w_script :: "fault list"

type_synonym 'a io = "world \<Rightarrow> 'a outcome \<times> world"

definition io_return :: "'a \<Rightarrow> 'a io" where
  "io_return x w = (Done x, w)"

definition io_bind :: "'a io \<Rightarrow> ('a \<Rightarrow> 'b io) \<Rightarrow> 'b io" where
  "io_bind m k w = (case m w of (Done x, w') \<Rightarrow> k x w' | (Failed e, w') \<Rightarrow> (Failed e, w')
                              | (Crashed, w') \<Rightarrow> (Crashed, w'))"

definition io_then :: "'a io \<Rightarrow> 'b io \<Rightarrow> 'b io" where
  "io_then m k = io_bind m (\<lambda>_. k)"

text \<open>\<open>let _ = operation;\<close> ignores an error, but not the end of the process.\<close>

definition io_ignore :: "'a io \<Rightarrow> unit io" where
  "io_ignore m w = (case m w of (Done x, w') \<Rightarrow> (Done (), w') | (Failed e, w') \<Rightarrow> (Done (), w')
                              | (Crashed, w') \<Rightarrow> (Crashed, w'))"

text \<open>\<open>if let Err(error) = m { h; return Err(error); }\<close>\<close>

definition io_on_error :: "'a io \<Rightarrow> unit io \<Rightarrow> 'a io" where
  "io_on_error m h w = (case m w of (Done x, w') \<Rightarrow> (Done x, w')
                          | (Failed e, w') \<Rightarrow> io_bind h (\<lambda>_ w. (Failed e, w)) w'
                          | (Crashed, w') \<Rightarrow> (Crashed, w'))"

text \<open>One call: its fault, its effect on success, and what a partial execution leaves.\<close>

definition io_call :: "(files \<Rightarrow> files option) \<Rightarrow> (bytes \<Rightarrow> files \<Rightarrow> files) \<Rightarrow> unit io" where
  "io_call effect partial w =
     (case w_script w of
        [] \<Rightarrow> (case effect (w_files w) of None \<Rightarrow> (Failed IoError, w) | Some f \<Rightarrow> (Done (), w\<lparr>w_files := f\<rparr>))
      | Succeeds # rest \<Rightarrow>
          (case effect (w_files w) of None \<Rightarrow> (Failed IoError, w\<lparr>w_script := rest\<rparr>)
           | Some f \<Rightarrow> (Done (), w\<lparr>w_files := f, w_script := rest\<rparr>))
      | Fails junk # rest \<Rightarrow> (Failed IoError, w\<lparr>w_files := partial junk (w_files w), w_script := rest\<rparr>)
      | Crashes junk # rest \<Rightarrow> (Crashed, w\<lparr>w_files := partial junk (w_files w), w_script := rest\<rparr>))"

definition untouched :: "bytes \<Rightarrow> files \<Rightarrow> files" where
  "untouched junk f = f"

definition torn :: "path \<Rightarrow> bytes \<Rightarrow> files \<Rightarrow> files" where
  "torn p junk f = (if f p = Some Other then f else f(p \<mapsto> File junk))"

definition fs_create :: "path \<Rightarrow> unit io" where
  "fs_create p = io_call (\<lambda>f. if f p = Some Other then None else Some (f(p \<mapsto> File []))) untouched"

definition fs_write_all :: "path \<Rightarrow> bytes \<Rightarrow> unit io" where
  "fs_write_all p bs = io_call (\<lambda>f. Some (f(p \<mapsto> File bs))) (torn p)"

definition fs_sync_all :: "path \<Rightarrow> unit io" where
  "fs_sync_all p = io_call Some (torn p)"

definition fs_remove_file :: "path \<Rightarrow> unit io" where
  "fs_remove_file p = io_call
     (\<lambda>f. case f p of Some (File bs) \<Rightarrow> Some (f(p := None)) | _ \<Rightarrow> None) untouched"

definition fs_rename :: "path \<Rightarrow> path \<Rightarrow> unit io" where
  "fs_rename a b = io_call
     (\<lambda>f. case f a of None \<Rightarrow> None
          | Some n \<Rightarrow> if f b = Some Other then None else Some ((f(a := None))(b \<mapsto> n))) untouched"

definition fs_copy :: "path \<Rightarrow> path \<Rightarrow> unit io" where
  "fs_copy a b = io_call
     (\<lambda>f. case f a of Some (File bs) \<Rightarrow> if f b = Some Other then None else Some (f(b \<mapsto> File bs))
          | _ \<Rightarrow> None) (torn b)"

definition fs_create_dir_all :: "unit io" where
  "fs_create_dir_all = io_call Some untouched"

text \<open>A call that only reads: \<open>False\<close> when it fails.\<close>

definition io_probe :: "bool io" where
  "io_probe w =
     (case w_script w of
        [] \<Rightarrow> (Done True, w)
      | Succeeds # rest \<Rightarrow> (Done True, w\<lparr>w_script := rest\<rparr>)
      | Fails junk # rest \<Rightarrow> (Done False, w\<lparr>w_script := rest\<rparr>)
      | Crashes junk # rest \<Rightarrow> (Crashed, w\<lparr>w_script := rest\<rparr>))"

text \<open>\<open>Path::exists\<close> answers \<open>false\<close> also when the file cannot be inspected.\<close>

definition fs_exists :: "path \<Rightarrow> bool io" where
  "fs_exists p = io_bind io_probe (\<lambda>inspected w. (Done (inspected \<and> w_files w p \<noteq> None), w))"

definition io_when_exists :: "path \<Rightarrow> unit io \<Rightarrow> unit io" where
  "io_when_exists p m = io_bind (fs_exists p) (\<lambda>found. if found then m else io_return ())"

lemmas fs_defs = fs_create_def fs_write_all_def fs_sync_all_def fs_remove_file_def fs_rename_def
  fs_copy_def fs_create_dir_all_def fs_exists_def io_when_exists_def io_probe_def io_return_def
  untouched_def torn_def

section \<open>Reasoning about file programs\<close>

text \<open>
  \<open>holds P m Q E C\<close>: started on files that satisfy \<open>P\<close>, under any script of faults, \<open>m\<close> ends
  with files that satisfy \<open>Q\<close> when it returns a value, \<open>E\<close> when it returns an error and \<open>C\<close>
  when the process stops inside it.
\<close>

definition holds :: "(files \<Rightarrow> bool) \<Rightarrow> 'a io \<Rightarrow> ('a \<Rightarrow> files \<Rightarrow> bool) \<Rightarrow> (files \<Rightarrow> bool) \<Rightarrow>
    (files \<Rightarrow> bool) \<Rightarrow> bool" where
  "holds P m Q E C \<longleftrightarrow>
     (\<forall>w. P (w_files w) \<longrightarrow>
        (case m w of (Done x, w') \<Rightarrow> Q x (w_files w') | (Failed e, w') \<Rightarrow> E (w_files w')
                   | (Crashed, w') \<Rightarrow> C (w_files w')))"

lemma holds_bind:
  assumes "holds P m R E C" and "\<And>x. holds (R x) (k x) Q E C"
  shows "holds P (io_bind m k) Q E C"
  using assms by (fastforce simp: holds_def io_bind_def split: prod.splits outcome.splits)

lemma holds_then:
  assumes "holds P m (\<lambda>_. R) E C" and "holds R k Q E C"
  shows "holds P (io_then m k) Q E C"
  using assms unfolding io_then_def by (rule holds_bind)

lemma holds_on_error:
  assumes "holds P m Q R C" and "holds R h (\<lambda>_. E) E C"
  shows "holds P (io_on_error m h) Q E C"
  using assms
  by (fastforce simp: holds_def io_on_error_def io_bind_def split: prod.splits outcome.splits)

lemma holds_ignore:
  assumes "holds P m (\<lambda>_. Q) Q C"
  shows "holds P (io_ignore m) (\<lambda>_. Q) E C"
  using assms by (fastforce simp: holds_def io_ignore_def split: prod.splits outcome.splits)

lemma holds_probe: "(\<And>f. P f \<Longrightarrow> C f) \<Longrightarrow> holds P io_probe (\<lambda>_. P) E C"
  by (auto simp: holds_def io_probe_def split: list.splits fault.splits)

lemma holds_exists: "(\<And>f. P f \<Longrightarrow> C f) \<Longrightarrow> holds P (fs_exists p) (\<lambda>b f. P f \<and> (b \<longrightarrow> f p \<noteq> None)) E C"
  unfolding fs_exists_def by (rule holds_bind [OF holds_probe]) (auto simp: holds_def)

lemma holds_when_exists:
  assumes "holds (\<lambda>f. P f \<and> f p \<noteq> None) m Q E C" and "\<And>f. P f \<Longrightarrow> Q () f" and "\<And>f. P f \<Longrightarrow> C f"
  shows "holds P (io_when_exists p m) Q E C"
  unfolding io_when_exists_def
  by (rule holds_bind [OF holds_exists]) (use assms in \<open>auto simp: holds_def io_return_def\<close>)

lemma holds_call:
  assumes "\<And>f f'. P f \<Longrightarrow> effect f = Some f' \<Longrightarrow> Q () f'"
    and "\<And>f. P f \<Longrightarrow> E f" and "\<And>f junk. P f \<Longrightarrow> E (partial junk f) \<and> C (partial junk f)"
  shows "holds P (io_call effect partial) Q E C"
  using assms
  by (auto simp: holds_def io_call_def split: list.splits fault.splits option.splits)

text \<open>
  The rule of each call: what it establishes, and that the files before it (or with a torn
  target) are acceptable when it does not return a value.
\<close>

lemma holds_create:
  assumes "\<And>f. P f \<Longrightarrow> Q () (f(p \<mapsto> File []))" and "\<And>f. P f \<Longrightarrow> E f \<and> C f"
  shows "holds P (fs_create p) Q E C"
  unfolding fs_create_def
  by (rule holds_call) (use assms in \<open>auto simp: untouched_def split: if_splits\<close>)

lemma holds_write_all:
  assumes "\<And>f. P f \<Longrightarrow> Q () (f(p \<mapsto> File bs))"
    and "\<And>f junk. P f \<Longrightarrow> E f \<and> C f \<and> E (f(p \<mapsto> File junk)) \<and> C (f(p \<mapsto> File junk))"
  shows "holds P (fs_write_all p bs) Q E C"
  unfolding fs_write_all_def
  by (rule holds_call) (use assms in \<open>auto simp: torn_def split: if_splits\<close>)

lemma holds_sync_all:
  assumes "\<And>f. P f \<Longrightarrow> Q () f"
    and "\<And>f junk. P f \<Longrightarrow> E f \<and> C f \<and> E (f(p \<mapsto> File junk)) \<and> C (f(p \<mapsto> File junk))"
  shows "holds P (fs_sync_all p) Q E C"
  unfolding fs_sync_all_def
  by (rule holds_call) (use assms in \<open>auto simp: torn_def split: if_splits\<close>)

lemma holds_remove_file:
  assumes "\<And>f. P f \<Longrightarrow> Q () (f(p := None))" and "\<And>f. P f \<Longrightarrow> E f \<and> C f"
  shows "holds P (fs_remove_file p) Q E C"
  unfolding fs_remove_file_def
  by (rule holds_call) (use assms in \<open>auto simp: untouched_def split: option.splits fnode.splits\<close>)

lemma holds_rename:
  assumes "\<And>f n. P f \<Longrightarrow> f a = Some n \<Longrightarrow> Q () ((f(a := None))(b \<mapsto> n))"
    and "\<And>f. P f \<Longrightarrow> E f \<and> C f"
  shows "holds P (fs_rename a b) Q E C"
  unfolding fs_rename_def
  by (rule holds_call) (use assms in \<open>auto simp: untouched_def split: option.splits if_splits\<close>)

lemma holds_return: "(\<And>f. P f \<Longrightarrow> Q x f) \<Longrightarrow> holds P (io_return x) Q E C"
  by (simp add: holds_def io_return_def)

lemma holds_conseq:
  assumes "holds P m Q E C" and "\<And>f. P' f \<Longrightarrow> P f" and "\<And>x f. Q x f \<Longrightarrow> Q' x f"
    and "\<And>f. E f \<Longrightarrow> E' f" and "\<And>f. C f \<Longrightarrow> C' f"
  shows "holds P' m Q' E' C'"
  using assms by (fastforce simp: holds_def split: prod.splits outcome.splits)

lemma holdsD:
  assumes "holds P m Q E C" and "P (w_files w)" and "m w = (r, w')"
  shows "case r of Done x \<Rightarrow> Q x (w_files w') | Failed e \<Rightarrow> E (w_files w') | Crashed \<Rightarrow> C (w_files w')"
  using assms by (fastforce simp: holds_def split: outcome.splits)

lemma io_call_no_fault:
  "w_script w = [] \<Longrightarrow> effect (w_files w) = Some f \<Longrightarrow>
     io_call effect partial w = (Done (), w\<lparr>w_files := f\<rparr>)"
  by (simp add: io_call_def)

section \<open>Paths\<close>

text \<open>
  \<open>Path::with_extension\<close>: the part of the file name after its last dot is replaced (a name
  that only starts with a dot has no extension), and a name without one gets it appended.
\<close>

definition path_stem :: "path \<Rightarrow> path" where
  "path_stem p =
     (let r = rev p;
          name = takeWhile (\<lambda>c. c \<noteq> CHR ''/'') r;
          dir = dropWhile (\<lambda>c. c \<noteq> CHR ''/'') r
      in case dropWhile (\<lambda>c. c \<noteq> CHR ''.'') name of
           [] \<Rightarrow> p
         | [_] \<Rightarrow> p
         | _ # stem \<Rightarrow> rev dir @ rev stem)"

definition with_extension :: "path \<Rightarrow> string \<Rightarrow> path" where
  "with_extension p ext = path_stem p @ CHR ''.'' # ext"

lemma with_extension_inject [simp]:
  "(with_extension p a = with_extension p b) = (a = b)"
  by (simp add: with_extension_def)

lemma with_extension_example: "with_extension ''/data/state.json'' ''json.bak'' = ''/data/state.json.bak''"
  by (simp add: with_extension_def path_stem_def)

end
