(* ===== verification/State_Store.thy ===== *)
theory State_Store
  imports Migration File_Model
begin

text \<open>
  The platform store (\<open>src-tauri/src/store.rs\<close>): the state in memory behind a mutex, its
  persistence through a temporary file and a backup file, loading with recovery from the
  backup, and the transactional updates every command goes through. Serialization by
  serde_json is a parameter (\<open>encode\<close>, \<open>decode\<close>); where a property needs it, the hypothesis
  says that the encoding of the state at hand decodes to it.
\<close>

section \<open>Loading\<close>

definition MAX_STATE_BYTES :: nat where
  "MAX_STATE_BYTES = 32 * 1024 * 1024"

datatype load_error = Inspect | NotRegular | ReadFailed | Undecodable

type_synonym loaded = "(PlatformState option, load_error) result"

definition load_state_file :: "(bytes \<Rightarrow> PlatformState option) \<Rightarrow> path \<Rightarrow> loaded io" where
  "load_state_file decode p = io_bind io_probe (\<lambda>inspected w.
     if \<not> inspected then (Done (Err Inspect), w)
     else (case w_files w p of
        None \<Rightarrow> (Done (Ok None), w)
      | Some Other \<Rightarrow> (Done (Err NotRegular), w)
      | Some (File bs) \<Rightarrow>
          if length bs > MAX_STATE_BYTES then (Done (Err NotRegular), w)
          else io_bind io_probe (\<lambda>got. io_return
            (if \<not> got then Err ReadFailed
             else (case decode bs of Some s \<Rightarrow> Ok (Some s) | None \<Rightarrow> Err Undecodable))) w))"

text \<open>Which of the two files the state is taken from; the flag says that it was the backup.\<close>

datatype choice = Use PlatformState bool | Fresh | Unreadable

fun select_state :: "loaded \<Rightarrow> loaded \<Rightarrow> choice" where
  "select_state (Ok (Some s)) _ = Use s False"
| "select_state (Ok None) (Ok (Some s)) = Use s True"
| "select_state (Err _) (Ok (Some s)) = Use s True"
| "select_state (Ok None) (Ok None) = Fresh"
| "select_state _ _ = Unreadable"

section \<open>Persisting\<close>

abbreviation tmp_path :: "path \<Rightarrow> path" where
  "tmp_path p \<equiv> with_extension p ''json.tmp''"

abbreviation bak_path :: "path \<Rightarrow> path" where
  "bak_path p \<equiv> with_extension p ''json.bak''"

abbreviation recovering_path :: "path \<Rightarrow> path" where
  "recovering_path p \<equiv> with_extension p ''json.recovering''"

definition write_atomic :: "path \<Rightarrow> bytes \<Rightarrow> unit io" where
  "write_atomic p contents =
     io_then (fs_create (tmp_path p))
    (io_then (fs_write_all (tmp_path p) contents)
    (io_then (fs_sync_all (tmp_path p))
    (io_then (io_when_exists (bak_path p) (fs_remove_file (bak_path p)))
    (io_then (io_when_exists p (fs_rename p (bak_path p)))
    (io_on_error (fs_rename (tmp_path p) p)
       (io_when_exists (bak_path p) (io_ignore (fs_rename (bak_path p) p))))))))"

definition persist_state :: "(PlatformState \<Rightarrow> bytes option) \<Rightarrow> path \<Rightarrow> PlatformState \<Rightarrow> unit io" where
  "persist_state encode p s w =
     (case encode s of None \<Rightarrow> (Failed EncodeError, w) | Some bs \<Rightarrow> write_atomic p bs w)"

definition recover_primary_from_backup :: "string \<Rightarrow> path \<Rightarrow> unit io" where
  "recover_primary_from_backup timestamp p =
     io_then (io_when_exists p (fs_rename p (with_extension p (''json.corrupt-'' @ timestamp))))
    (io_then (io_ignore (fs_remove_file (recovering_path p)))
    (io_then (fs_copy (bak_path p) (recovering_path p))
    (io_then (fs_sync_all (recovering_path p))
    (fs_rename (recovering_path p) p))))"

section \<open>The store\<close>

record PlatformStore =
  st_path :: path
  st_poisoned :: bool
  st_state :: PlatformState

definition stop_cloud :: "Environment \<Rightarrow> Environment" where
  "stop_cloud e = (if env_kind e = Cloud
     then e\<lparr>env_status := Stopped, env_last_error := None, env_console_endpoint := None,
            env_control_endpoint := None\<rparr>
     else e)"

definition store_snapshot :: "PlatformStore \<Rightarrow> (PlatformState, failure) result" where
  "store_snapshot st = (if st_poisoned st then Err LockPoisoned else Ok (st_state st))"

definition store_persist :: "(PlatformState \<Rightarrow> bytes option) \<Rightarrow> PlatformStore \<Rightarrow> unit io" where
  "store_persist encode st =
     io_then fs_create_dir_all
       (\<lambda>w. if st_poisoned st then (Failed LockPoisoned, w)
             else persist_state encode (st_path st) (st_state st) w)"

definition start_state :: "string seed \<Rightarrow> choice \<Rightarrow> (PlatformState \<times> bool, failure) result" where
  "start_state seeded c =
     result_bind
       (case c of
          Use s recovered \<Rightarrow> Ok (s, recovered)
        | Fresh \<Rightarrow> (case empty_state seeded of Ok s \<Rightarrow> Ok (s, False) | Err e \<Rightarrow> Err (SeedUndecodable e))
        | Unreadable \<Rightarrow> Err StateUnreadable)
       (\<lambda>(s, recovered). case migrate seeded s of
          Ok t \<Rightarrow> Ok (t\<lparr>environments := map stop_cloud (environments t)\<rparr>, recovered)
        | Err e \<Rightarrow> Err (NotMigrated e))"

definition store_load :: "string seed \<Rightarrow> (bytes \<Rightarrow> PlatformState option) \<Rightarrow>
    (PlatformState \<Rightarrow> bytes option) \<Rightarrow> string \<Rightarrow> path \<Rightarrow> PlatformStore io" where
  "store_load seeded decode encode timestamp p =
     io_bind (load_state_file decode p) (\<lambda>main.
     io_bind (load_state_file decode (bak_path p)) (\<lambda>backup w.
       case start_state seeded (select_state main backup) of
         Err e \<Rightarrow> (Failed e, w)
       | Ok (s, recovered) \<Rightarrow>
           let st = \<lparr>st_path = p, st_poisoned = False, st_state = s\<rparr>
           in io_then (if recovered then recover_primary_from_backup timestamp p else io_return ())
             (io_then (store_persist encode st) (io_return st)) w))"

definition store_replace :: "(PlatformState \<Rightarrow> bytes option) \<Rightarrow> PlatformState \<Rightarrow> PlatformStore \<Rightarrow>
    world \<Rightarrow> PlatformState outcome \<times> PlatformStore \<times> world" where
  "store_replace encode s st w =
     (if st_poisoned st then (Failed LockPoisoned, st, w)
      else (case persist_state encode (st_path st) s w of
              (Done _, w') \<Rightarrow> (Done s, st\<lparr>st_state := s\<rparr>, w')
            | (Failed e, w') \<Rightarrow> (Failed e, st, w')
            | (Crashed, w') \<Rightarrow> (Crashed, st, w')))"

definition store_mutate :: "(PlatformState \<Rightarrow> bytes option) \<Rightarrow>
    (PlatformState \<Rightarrow> (PlatformState, string) result) \<Rightarrow> PlatformStore \<Rightarrow>
    world \<Rightarrow> PlatformState outcome \<times> PlatformStore \<times> world" where
  "store_mutate encode operation st w =
     (if st_poisoned st then (Failed LockPoisoned, st, w)
      else (case operation (st_state st) of
              Err e \<Rightarrow> (Failed (OperationRefused e), st, w)
            | Ok candidate \<Rightarrow>
                (case persist_state encode (st_path st) candidate w of
                   (Done _, w') \<Rightarrow> (Done candidate, st\<lparr>st_state := candidate\<rparr>, w')
                 | (Failed e, w') \<Rightarrow> (Failed e, st, w')
                 | (Crashed, w') \<Rightarrow> (Crashed, st, w'))))"

definition store_mutate_ephemeral :: "(PlatformState \<Rightarrow> (PlatformState, string) result) \<Rightarrow>
    PlatformStore \<Rightarrow> PlatformState outcome \<times> PlatformStore" where
  "store_mutate_ephemeral operation st =
     (if st_poisoned st then (Failed LockPoisoned, st)
      else (case operation (st_state st) of
              Err e \<Rightarrow> (Failed (OperationRefused e), st)
            | Ok candidate \<Rightarrow> (Done candidate, st\<lparr>st_state := candidate\<rparr>)))"

section \<open>What a restart would find\<close>

definition inspect :: "(bytes \<Rightarrow> PlatformState option) \<Rightarrow> files \<Rightarrow> path \<Rightarrow> loaded" where
  "inspect decode f p =
     (case f p of
        None \<Rightarrow> Ok None
      | Some Other \<Rightarrow> Err NotRegular
      | Some (File bs) \<Rightarrow>
          if length bs > MAX_STATE_BYTES then Err NotRegular
          else (case decode bs of Some s \<Rightarrow> Ok (Some s) | None \<Rightarrow> Err Undecodable))"

definition durable :: "(bytes \<Rightarrow> PlatformState option) \<Rightarrow> path \<Rightarrow> files \<Rightarrow> choice" where
  "durable decode p f = select_state (inspect decode f p) (inspect decode f (bak_path p))"

definition json_path :: "path \<Rightarrow> bool" where
  "json_path p \<longleftrightarrow> with_extension p ''json'' = p"

text \<open>A file holds a state: it is small enough to be read back and decodes to it.\<close>

definition stores :: "(bytes \<Rightarrow> PlatformState option) \<Rightarrow> bytes \<Rightarrow> PlatformState \<Rightarrow> bool" where
  "stores decode bs s \<longleftrightarrow> length bs \<le> MAX_STATE_BYTES \<and> decode bs = Some s"

lemma load_state_file_no_fault:
  "w_script w = [] \<Longrightarrow> load_state_file decode p w = (Done (inspect decode (w_files w) p), w)"
  by (auto simp: load_state_file_def inspect_def io_bind_def io_probe_def io_return_def
      split: option.splits fnode.splits)

lemma json_path_distinct:
  assumes "json_path p"
  shows "with_extension p e = p \<longleftrightarrow> e = ''json''"
  using assms with_extension_inject [of p e "''json''"] by (auto simp: json_path_def)

lemma inspect_stores: "f p = Some (File bs) \<Longrightarrow> stores decode bs s \<Longrightarrow> inspect decode f p = Ok (Some s)"
  by (simp add: inspect_def stores_def)

lemma durable_primary: "f p = Some (File bs) \<Longrightarrow> stores decode bs s \<Longrightarrow> durable decode p f = Use s False"
  by (simp add: durable_def inspect_stores)

lemma durable_backup:
  "f p = None \<Longrightarrow> f (bak_path p) = Some (File bs) \<Longrightarrow> stores decode bs s \<Longrightarrow>
     durable decode p f = Use s True"
  by (simp add: durable_def inspect_stores) (simp add: inspect_def)

text \<open>
  The protocol of \<open>write_atomic\<close> on three distinct files: target, temporary, backup. When both files could not be
  inspected and the activation fails, the last line renames an older backup over the target, which was still in place.
\<close>

lemma write_protocol:
  fixes p t b :: path
  assumes [simp]: "t \<noteq> p" "p \<noteq> t" "b \<noteq> p" "p \<noteq> b" "t \<noteq> b" "b \<noteq> t"
  shows "holds (\<lambda>f. f p = Some (File old) \<and> f b = B)
    (io_then (fs_create t) (io_then (fs_write_all t new) (io_then (fs_sync_all t)
      (io_then (io_when_exists b (fs_remove_file b))
      (io_then (io_when_exists p (fs_rename p b))
      (io_on_error (fs_rename t p) (io_when_exists b (io_ignore (fs_rename b p)))))))))
    (\<lambda>_ f. f p = Some (File new) \<and> f b \<in> {None, B, Some (File old)})
    (\<lambda>f. f p = Some (File old) \<and> f b \<in> {None, B} \<or> f p = None \<and> f b = Some (File old) \<or> f p = B \<and> B \<noteq> None \<and> f b = None)
    (\<lambda>f. f p = Some (File old) \<or> f p = None \<and> f b = Some (File old))"
    (is "holds ?old _ ?Q ?E ?C")
proof -
  let ?synced = "\<lambda>f. f p = Some (File old) \<and> f b \<in> {None, B} \<and> f t = Some (File new)"
  let ?moved = "\<lambda>f. ?synced f \<or> f p = None \<and> f b = Some (File old) \<and> f t = Some (File new)"
  have 1: "holds ?old (fs_create t) (\<lambda>_. ?old) ?E ?C"
    by (rule holds_create) auto
  have 2: "holds ?old (fs_write_all t new) (\<lambda>_. ?synced) ?E ?C"
    by (rule holds_write_all) auto
  have 3: "holds ?synced (fs_sync_all t) (\<lambda>_. ?synced) ?E ?C"
    by (rule holds_sync_all) auto
  have 4: "holds ?synced (io_when_exists b (fs_remove_file b)) (\<lambda>_. ?synced) ?E ?C"
    by (rule holds_when_exists, rule holds_remove_file) auto
  have 5: "holds ?synced (io_when_exists p (fs_rename p b)) (\<lambda>_. ?moved) ?E ?C"
    by (rule holds_when_exists, rule holds_rename) auto
  have 6: "holds ?moved (fs_rename t p) ?Q ?moved ?C"
    by (rule holds_rename) auto
  have 7: "holds ?moved (io_when_exists b (io_ignore (fs_rename b p))) (\<lambda>_. ?E) ?E ?C"
    by (rule holds_when_exists, rule holds_ignore, rule holds_rename) auto
  show ?thesis
    by (intro holds_then [OF 1] holds_then [OF 2] holds_then [OF 3] holds_then [OF 4]
        holds_then [OF 5] holds_on_error [OF 6 7])
qed

lemma json_siblings:
  assumes "json_path p"
  shows "tmp_path p \<noteq> p" "p \<noteq> tmp_path p" "bak_path p \<noteq> p" "p \<noteq> bak_path p"
    "recovering_path p \<noteq> p" "p \<noteq> recovering_path p"
  by (simp_all add: json_path_distinct [OF assms] eq_commute [of p])

lemma write_atomic_holds:
  assumes "json_path p"
  shows "holds (\<lambda>f. f p = Some (File old) \<and> f (bak_path p) = B) (write_atomic p new)
    (\<lambda>_ f. f p = Some (File new) \<and> f (bak_path p) \<in> {None, B, Some (File old)})
    (\<lambda>f. f p = Some (File old) \<and> f (bak_path p) \<in> {None, B} \<or> f p = None \<and> f (bak_path p) = Some (File old)
       \<or> f p = B \<and> B \<noteq> None \<and> f (bak_path p) = None)
    (\<lambda>f. f p = Some (File old) \<or> f p = None \<and> f (bak_path p) = Some (File old))"
  unfolding write_atomic_def
  by (rule write_protocol) (use json_siblings [OF assms] in simp_all)

section \<open>The store as a durable cell\<close>

text \<open>
  What the commands rely on: a cell whose content survives restarts, with an older content beside it. A write that
  returns has replaced the content; one that returns an error leaves the content, or at worst the older one; one that the
  process did not survive has done the one or the other. \<open>standing\<close> says that the content itself is in place, and not
  only its copy: \<open>run_puts\<close> goes on after an error as long as it is.
\<close>

fun run_puts :: "('s \<Rightarrow> 'd \<Rightarrow> unit outcome \<times> 'd) \<Rightarrow> ('d \<Rightarrow> bool) \<Rightarrow> 's list \<Rightarrow> 'd \<Rightarrow> unit outcome list \<times> 'd" where
  "run_puts put standing [] d = ([], d)"
| "run_puts put standing (t # ts) d =
     (case put t d of
        (Crashed, d') \<Rightarrow> ([Crashed], d')
      | (r, d') \<Rightarrow>
          if standing d' then (let (rs, d'') = run_puts put standing ts d' in (r # rs, d''))
          else ([r], d'))"

locale atomic_cell =
  fixes committed :: "'d \<Rightarrow> 's \<Rightarrow> bool"
    and beside :: "'d \<Rightarrow> 's set \<Rightarrow> bool"
    and readable :: "'d \<Rightarrow> 's \<Rightarrow> bool"
    and standing :: "'d \<Rightarrow> bool"
    and put :: "'s \<Rightarrow> 'd \<Rightarrow> unit outcome \<times> 'd"
    and acceptable :: "'s \<Rightarrow> bool"
  assumes committed_readable: "committed d s \<Longrightarrow> readable d s \<and> standing d"
    and put_done: "committed d s \<Longrightarrow> beside d S \<Longrightarrow> acceptable t \<Longrightarrow> put t d = (Done x, d') \<Longrightarrow>
      committed d' t \<and> beside d' (insert s S)"
    and put_failed: "committed d s \<Longrightarrow> beside d S \<Longrightarrow> acceptable t \<Longrightarrow> put t d = (Failed e, d') \<Longrightarrow>
      \<exists>u \<in> insert s S. readable d' u \<and> (standing d' \<longrightarrow> committed d' u \<and> beside d' S)"
    and put_crashed: "committed d s \<Longrightarrow> beside d S \<Longrightarrow> acceptable t \<Longrightarrow> put t d = (Crashed, d') \<Longrightarrow>
      readable d' s \<or> readable d' t"
begin

lemma run_puts_readable:
  assumes "committed d s" and "beside d S" and "\<forall>t \<in> set ts. acceptable t" and "run_puts put standing ts d = (rs, d')"
  shows "\<exists>u \<in> insert s S \<union> set ts. readable d' u"
  using assms
proof (induction ts arbitrary: s S d rs)
  case Nil
  then show ?case by (auto dest: committed_readable)
next
  case (Cons t ts)
  obtain r1 d1 where p: "put t d = (r1, d1)" by force
  show ?case
  proof (cases r1)
    case (Done x)
    with p Cons.prems have c: "committed d1 t" "beside d1 (insert s S)" by (auto dest: put_done)
    moreover obtain rs' where "run_puts put standing ts d1 = (rs', d')"
      using Cons.prems(4) p Done committed_readable [OF c(1)] by (auto split: prod.splits)
    ultimately have "\<exists>u \<in> insert t (insert s S) \<union> set ts. readable d' u" using Cons.IH [of d1 t "insert s S"] Cons.prems(3) by simp
    then show ?thesis by auto
  next
    case (Failed e)
    with p Cons.prems put_failed obtain u where u: "u \<in> insert s S" "readable d1 u" "standing d1 \<longrightarrow> committed d1 u \<and> beside d1 S"
      by (metis list.set_intros(1))
    show ?thesis
    proof (cases "standing d1")
      case True
      moreover obtain rs' where "run_puts put standing ts d1 = (rs', d')"
        using Cons.prems(4) p Failed True by (auto split: prod.splits)
      ultimately have "\<exists>u \<in> insert u S \<union> set ts. readable d' u" using u Cons.IH Cons.prems(3) by auto
      then show ?thesis using u(1) by auto
    qed (use p Failed Cons.prems(4) u in auto)
  next
    case Crashed
    with p Cons.prems put_crashed [of d s S t d1] show ?thesis by auto
  qed
qed

lemma run_puts_done:
  assumes "committed d s" and "beside d S" and "\<forall>t \<in> set ts. acceptable t" and "run_puts put standing ts d = (rs, d')"
    and "ts \<noteq> []" and "length rs = length ts" and "last rs = Done ()"
  shows "committed d' (last ts)"
  using assms
proof (induction ts arbitrary: s S d rs)
  case (Cons t ts)
  obtain r1 d1 where p: "put t d = (r1, d1)" by force
  show ?case
  proof (cases ts)
    case Nil
    with Cons.prems p have "r1 = Done ()" by (auto split: outcome.splits if_splits prod.splits)
    with p Cons.prems have "committed d1 t" by (auto dest: put_done)
    with Nil p Cons.prems(4) \<open>r1 = Done ()\<close> show ?thesis by (auto split: if_splits)
  next
    case (Cons t' ts')
    with \<open>length rs = length (t # ts)\<close> p \<open>run_puts put standing (t # ts) d = (rs, d')\<close>
    obtain rs' where st: "standing d1" "r1 \<noteq> Crashed" and r: "run_puts put standing ts d1 = (rs', d')" "rs = r1 # rs'"
      by (auto split: outcome.splits if_splits prod.splits)
    then have l: "length rs' = length ts" "last rs' = Done ()" using Cons.prems Cons by (auto split: if_splits)
    have "\<exists>u S'. committed d1 u \<and> beside d1 S'"
      using st p Cons.prems put_done [of d s S t] put_failed [of d s S t] by (cases r1) fastforce+
    then show ?thesis using Cons.IH [OF _ _ _ r(1) _ l] Cons.prems(3) Cons by auto
  qed
qed simp

end

definition cell_committed :: "(bytes \<Rightarrow> PlatformState option) \<Rightarrow> path \<Rightarrow> world \<Rightarrow> PlatformState \<Rightarrow> bool" where
  "cell_committed decode p w s \<longleftrightarrow>
     json_path p \<and> (\<exists>bs. w_files w p = Some (File bs) \<and> stores decode bs s)"

text \<open>The backup file is missing, or holds one of the states.\<close>

definition cell_beside :: "(bytes \<Rightarrow> PlatformState option) \<Rightarrow> path \<Rightarrow> world \<Rightarrow> PlatformState set \<Rightarrow> bool" where
  "cell_beside decode p w S \<longleftrightarrow>
     (\<forall>n. w_files w (bak_path p) = Some n \<longrightarrow> (\<exists>bs s. n = File bs \<and> stores decode bs s \<and> s \<in> S))"

definition cell_standing :: "path \<Rightarrow> world \<Rightarrow> bool" where
  "cell_standing p w \<longleftrightarrow> w_files w p \<noteq> None"

definition cell_readable :: "(bytes \<Rightarrow> PlatformState option) \<Rightarrow> path \<Rightarrow> world \<Rightarrow> PlatformState \<Rightarrow> bool" where
  "cell_readable decode p w s \<longleftrightarrow> (\<exists>b. durable decode p (w_files w) = Use s b)"

definition encodable :: "(bytes \<Rightarrow> PlatformState option) \<Rightarrow> (PlatformState \<Rightarrow> bytes option) \<Rightarrow>
    PlatformState \<Rightarrow> bool" where
  "encodable decode encode s \<longleftrightarrow>
     (case encode s of None \<Rightarrow> True | Some bs \<Rightarrow> stores decode bs s)"

lemma persist_state_post:
  assumes "cell_committed decode p w s" and "cell_beside decode p w S" and "encodable decode encode t"
    and "persist_state encode p t w = (r, w')"
  shows "case r of
        Done _ \<Rightarrow> cell_committed decode p w' t \<and> cell_beside decode p w' (insert s S)
      | Failed _ \<Rightarrow> \<exists>u \<in> insert s S. cell_readable decode p w' u
          \<and> (cell_standing p w' \<longrightarrow> cell_committed decode p w' u \<and> cell_beside decode p w' S)
      | Crashed \<Rightarrow> cell_readable decode p w' s \<or> cell_readable decode p w' t"
proof -
  obtain obs where jp: "json_path p" and o: "w_files w p = Some (File obs)" "stores decode obs s"
    using assms(1) by (auto simp: cell_committed_def)
  have rd: "cell_readable decode p v u"
    if "stores decode bs u" "w_files v p = Some (File bs)
      \<or> w_files v p = None \<and> w_files v (bak_path p) = Some (File bs)" for bs u v
    using that by (auto simp: cell_readable_def dest: durable_primary durable_backup)
  show ?thesis
  proof (cases "encode t")
    case None
    with assms(1,2,4) o jp show ?thesis by (auto simp: persist_state_def intro: rd)
  next
    case (Some nbs)
    with assms have n: "stores decode nbs t" "write_atomic p nbs w = (r, w')"
      by (auto simp: encodable_def persist_state_def)
    have post: "case r of
        Done _ \<Rightarrow> w_files w' p = Some (File nbs) \<and> w_files w' (bak_path p) \<in> {None, w_files w (bak_path p), Some (File obs)}
      | Failed _ \<Rightarrow> w_files w' p = Some (File obs) \<and> w_files w' (bak_path p) \<in> {None, w_files w (bak_path p)}
          \<or> w_files w' p = None \<and> w_files w' (bak_path p) = Some (File obs)
          \<or> w_files w' p = w_files w (bak_path p) \<and> w_files w (bak_path p) \<noteq> None \<and> w_files w' (bak_path p) = None
      | Crashed \<Rightarrow> w_files w' p = Some (File obs) \<or> w_files w' p = None \<and> w_files w' (bak_path p) = Some (File obs)"
      using holdsD [OF write_atomic_holds [OF jp, of obs "w_files w (bak_path p)" nbs] _ n(2)] o(1)
      by (auto split: outcome.splits)
    show ?thesis
    proof (cases r)
      case (Done x)
      with post n o jp have "cell_committed decode p w' t" by (auto simp: cell_committed_def)
      moreover have "cell_beside decode p w' (insert s S)" using post Done o assms(2) by (fastforce simp: cell_beside_def)
      ultimately show ?thesis using Done by simp
    next
      case (Failed e)
      consider (kept) "w_files w' p = Some (File obs)" "w_files w' (bak_path p) \<in> {None, w_files w (bak_path p)}"
        | (moved) "w_files w' p = None" "w_files w' (bak_path p) = Some (File obs)"
        | (older) "w_files w' p = w_files w (bak_path p)" "w_files w (bak_path p) \<noteq> None" "w_files w' (bak_path p) = None"
        using post Failed by auto
      then show ?thesis
      proof cases
        case kept
        then have "cell_committed decode p w' s" "cell_beside decode p w' S" "cell_readable decode p w' s"
          using o jp assms(2) by (auto simp: cell_committed_def cell_beside_def intro: rd)
        with Failed show ?thesis by auto
      next
        case moved
        with o have "cell_readable decode p w' s" by (intro rd) auto
        with Failed moved show ?thesis by (auto simp: cell_standing_def)
      next
        case older
        then obtain bs u where u: "w_files w' p = Some (File bs)" "stores decode bs u" "u \<in> S"
          using assms(2) by (auto simp: cell_beside_def)
        then have "cell_committed decode p w' u" "cell_beside decode p w' S" "cell_readable decode p w' u"
          using older jp by (auto simp: cell_committed_def cell_beside_def intro: rd)
        with Failed u(3) show ?thesis by auto
      qed
    next
      case Crashed
      with post o show ?thesis by (auto intro: rd)
    qed
  qed
qed

interpretation store_cell: atomic_cell "cell_committed decode p" "cell_beside decode p" "cell_readable decode p"
  "cell_standing p" "persist_state encode p" "encodable decode encode" for decode encode p
proof
  show "cell_committed decode p d s \<Longrightarrow> cell_readable decode p d s \<and> cell_standing p d" for d s
    by (auto simp: cell_committed_def cell_readable_def cell_standing_def durable_primary)
next
  fix d s S t d'
  assume c: "cell_committed decode p d s" "cell_beside decode p d S" "encodable decode encode t"
  show "cell_committed decode p d' t \<and> cell_beside decode p d' (insert s S)" if "persist_state encode p t d = (Done x, d')" for x
    using persist_state_post [OF c that] by simp
  show "\<exists>u \<in> insert s S. cell_readable decode p d' u \<and> (cell_standing p d' \<longrightarrow> cell_committed decode p d' u \<and> cell_beside decode p d' S)"
    if "persist_state encode p t d = (Failed e, d')" for e
    using persist_state_post [OF c that] by (simp only: outcome.case)
  show "cell_readable decode p d' s \<or> cell_readable decode p d' t" if "persist_state encode p t d = (Crashed, d')"
    using persist_state_post [OF c that] by simp
qed

section \<open>Properties\<close>

text \<open>A serializer for the examples: it knows two states.\<close>

definition example_encode :: "PlatformState \<Rightarrow> PlatformState \<Rightarrow> PlatformState \<Rightarrow> bytes option" where
  "example_encode a b s = (if s = a then Some [1] else if s = b then Some [2] else None)"

definition example_decode :: "PlatformState \<Rightarrow> PlatformState \<Rightarrow> bytes \<Rightarrow> PlatformState option" where
  "example_decode a b bs = (if bs = [1] then Some a else if bs = [2] then Some b else None)"

abbreviation example_path :: path where
  "example_path \<equiv> ''state.json''"

lemma example_json_path: "json_path example_path"
  by (simp add: json_path_def with_extension_def path_stem_def)

lemma example_encodable: "a \<noteq> b \<Longrightarrow> encodable (example_decode a b) (example_encode a b) s"
  by (simp add: encodable_def example_encode_def example_decode_def stores_def MAX_STATE_BYTES_def)

definition example_disk :: "bytes \<Rightarrow> fault list \<Rightarrow> world" where
  "example_disk bs script = \<lparr>w_files = (\<lambda>q. if q = example_path then Some (File bs) else None),
     w_script = script\<rparr>"

lemma example_committed: "cell_committed (example_decode a b) example_path (example_disk [1] sc) a"
  using example_json_path
  by (simp add: cell_committed_def example_disk_def example_decode_def stores_def MAX_STATE_BYTES_def)

lemma example_beside: "cell_beside decode example_path (example_disk bs sc) S"
  by (simp add: cell_beside_def example_disk_def with_extension_def path_stem_def)

text \<open>
  C1. Persisting is crash safe over a history of writes. At the start the state file holds a state and the backup is
  missing or holds one; every state written has an encoding that is read back, so in particular of at most 32 MiB. Calls
  may fail, inspections of files included, and the process may stop, anywhere; the history goes on after a write that
  returned an error as long as that write left the state file in place (it ends with a write that left only the backup,
  which is what \<open>double_fault_loses_state\<close> is about). Then a restart reads back one of the states of the history,
  or one of those that the files held before it, never a mixture and never nothing; and when the last write returned, its
  state is what the file holds.
\<close>

theorem persist_history_safe:
  assumes "cell_committed decode p w s" and "cell_beside decode p w S" and "\<forall>t \<in> set ts. encodable decode encode t"
    and "run_puts (persist_state encode p) (cell_standing p) ts w = (rs, w')"
  shows "(\<exists>u \<in> insert s S \<union> set ts. cell_readable decode p w' u)
    \<and> (ts \<noteq> [] \<and> length rs = length ts \<and> last rs = Done () \<longrightarrow> cell_committed decode p w' (last ts))"
  using store_cell.run_puts_readable [OF assms] store_cell.run_puts_done [OF assms] by blast

theorem persist_history_safe_witness:
  "cell_readable (example_decode (example_state 7 []) (example_state 6 [])) example_path
       (snd (run_puts (persist_state (example_encode (example_state 7 []) (example_state 6 []))
          example_path) (cell_standing example_path) [example_state 7 [], example_state 7 []]
          (example_disk [1] [Succeeds, Fails [], Succeeds, Succeeds, Crashes []]))) (example_state 7 [])"
proof -
  let ?a = "example_state 7 []" and ?b = "example_state 6 []"
  let ?w = "example_disk [1] [Succeeds, Fails [], Succeeds, Succeeds, Crashes []]"
  have ab: "?a \<noteq> ?b" by (simp add: example_state_def)
  obtain r w' where run: "run_puts (persist_state (example_encode ?a ?b) example_path) (cell_standing example_path) [?a, ?a] ?w = (r, w')"
    by force
  from persist_history_safe [OF example_committed [of ?a ?b] example_beside [where S = "{}"] _ this] example_encodable [OF ab]
  have "cell_readable (example_decode ?a ?b) example_path w' ?a" by simp
  then show ?thesis unfolding run by simp
qed

text \<open>
  C3. An update of the store is a transaction on memory and on the state file, which need not hold the state in memory
  when the update begins (an update without persistence or one that failed may have come before): when the update returns
  the new state, memory and the state file both hold what the operation made of the state in memory; when the operation
  refuses, nothing changes; when persisting fails, the memory is unchanged and a restart reads the state that the file
  held, or one that the backup held; when the process stops inside, a restart reads the file's old state or the new one.
  The state file is readable before, the backup missing or readable, and the new state has an encoding that is read back,
  so of at most 32 MiB.
\<close>

theorem mutate_transaction:
  assumes "cell_committed decode (st_path st) w saved" and "cell_beside decode (st_path st) w S"
    and "\<forall>c. operation (st_state st) = Ok c \<longrightarrow> encodable decode encode c"
    and "store_mutate encode operation st w = (r, st', w')"
  shows "case r of
      Done c \<Rightarrow> operation (st_state st) = Ok c \<and> st' = st\<lparr>st_state := c\<rparr>
        \<and> cell_committed decode (st_path st) w' c
    | Failed e \<Rightarrow> st' = st \<and> (\<exists>u \<in> insert saved S. cell_readable decode (st_path st) w' u)
        \<and> ((\<exists>m. operation (st_state st) = Err m) \<longrightarrow> w' = w)
    | Crashed \<Rightarrow> \<exists>c. operation (st_state st) = Ok c
        \<and> (cell_readable decode (st_path st) w' saved
           \<or> cell_readable decode (st_path st) w' c)"
proof -
  have old: "cell_readable decode (st_path st) w saved"
    using store_cell.committed_readable [OF assms(1)] by blast
  show ?thesis
  proof (cases "st_poisoned st \<or> (\<exists>e. operation (st_state st) = Err e)")
    case True
    with assms(4) old show ?thesis
      by (auto simp: store_mutate_def split: if_splits result.splits)
  next
    case False
    then obtain c where c: "operation (st_state st) = Ok c" and np: "\<not> st_poisoned st"
      by (meson result.exhaust)
    obtain r0 w0 where p: "persist_state encode (st_path st) c w = (r0, w0)" by force
    from c assms(3) have "encodable decode encode c" by simp
    from persist_state_post [OF assms(1,2) this p] assms(4) c np p show ?thesis
      by (auto simp: store_mutate_def split: outcome.splits)
  qed
qed

theorem mutate_transaction_witness:
  "cell_committed (example_decode (example_state 7 []) (example_state 6 [])) example_path
     (snd (snd (store_mutate (example_encode (example_state 7 []) (example_state 6 []))
        (\<lambda>_. Ok (example_state 6 [])) \<lparr>st_path = example_path, st_poisoned = False,
          st_state = example_state 5 []\<rparr> (example_disk [1] [])))) (example_state 6 [])"
proof -
  let ?a = "example_state 7 []" and ?b = "example_state 6 []"
  let ?st = "\<lparr>st_path = example_path, st_poisoned = False, st_state = example_state 5 []\<rparr>"
  have ab: "?a \<noteq> ?b" by (simp add: example_state_def)
  obtain st' w' where m: "store_mutate (example_encode ?a ?b) (\<lambda>_. Ok ?b) ?st (example_disk [1] [])
      = (Done ?b, st', w')"
    using ab by (simp add: store_mutate_def persist_state_def example_encode_def write_atomic_def
        io_then_def io_bind_def io_on_error_def io_call_def fs_defs example_disk_def
        with_extension_def path_stem_def)
  show ?thesis
    using mutate_transaction [of "example_decode ?a ?b" ?st "example_disk [1] []" ?a "{}" "\<lambda>_. Ok ?b", OF _ _ _ m]
      example_committed [of ?a ?b] example_beside [of "example_decode ?a ?b"] example_encodable [OF ab] m by simp
qed

text \<open>No path of interest is a directory, and no call fails.\<close>

definition healthy :: "world \<Rightarrow> bool" where
  "healthy w \<longleftrightarrow> w_script w = [] \<and> (\<forall>q. w_files w q \<noteq> Some Other)"

lemma healthy_call:
  "healthy w \<Longrightarrow> effect (w_files w) = Some f \<Longrightarrow>
     io_call effect partial w = (Done (), w\<lparr>w_files := f\<rparr>)"
  by (simp add: healthy_def io_call_no_fault)

lemma healthy_upd:
  "healthy w \<Longrightarrow> (\<forall>q. f q \<noteq> Some Other) \<Longrightarrow> healthy (w\<lparr>w_files := f\<rparr>)"
  by (simp add: healthy_def)

lemma healthy_FileE:
  assumes "healthy w" and "w_files w q \<noteq> None"
  obtains bs where "w_files w q = Some (File bs)"
  using assms by (metis fnode.exhaust healthy_def option.exhaust)

lemma write_atomic_healthy:
  assumes "healthy w" and "json_path p"
  shows "\<exists>w'. write_atomic p bs w = (Done (), w') \<and> w_files w' p = Some (File bs) \<and> healthy w'
    \<and> (w_files w p \<noteq> None \<longrightarrow> w_files w' (bak_path p) = w_files w p)
    \<and> (\<forall>q. q \<notin> {p, tmp_path p, bak_path p} \<longrightarrow> w_files w' q = w_files w q)"
proof -
  note [simp] = json_siblings [OF assms(2)]
  have h: "w_script w = []" "w_files w q \<noteq> Some Other" for q using assms(1) by (auto simp: healthy_def)
  show ?thesis
    using h(1) h(2) [of "tmp_path p"] h(2) [of "bak_path p"] h(2)
    by (auto simp: write_atomic_def io_then_def io_bind_def io_on_error_def io_call_def fs_defs
        healthy_def split: option.splits fnode.splits if_splits)
qed


lemma corrupt_sibling:
  assumes "json_path p"
  shows "with_extension p (''json.corrupt-'' @ ts) \<noteq> p" "p \<noteq> with_extension p (''json.corrupt-'' @ ts)"
  by (simp_all add: json_path_distinct [OF assms] eq_commute [of p])

lemma recover_healthy:
  assumes "healthy w" and "json_path p" and "w_files w (bak_path p) = Some (File bs)"
  shows "\<exists>w'. recover_primary_from_backup ts p w = (Done (), w')
    \<and> w_files w' p = Some (File bs) \<and> healthy w'
    \<and> (w_files w p \<noteq> None \<longrightarrow> w_files w' (with_extension p (''json.corrupt-'' @ ts)) = w_files w p)"
proof -
  note [simp] = json_siblings [OF assms(2)] corrupt_sibling [OF assms(2), simplified]
  have h: "w_script w = []" "w_files w q \<noteq> Some Other" for q using assms(1) by (auto simp: healthy_def)
  show ?thesis
    using h(1) h(2) [of "recovering_path p"] h(2) assms(3)
    by (auto simp: recover_primary_from_backup_def io_then_def io_bind_def io_ignore_def
        io_call_def fs_defs healthy_def split: option.splits fnode.splits if_splits)
qed

text \<open>
  The saved state that is the newest readable one, and what the application starts with: the same state, in which every
  cloud environment is disconnected and nothing else differs.
\<close>

definition file_holds :: "(bytes \<Rightarrow> PlatformState option) \<Rightarrow> files \<Rightarrow> path \<Rightarrow> PlatformState \<Rightarrow> bool" where
  "file_holds decode f q s \<longleftrightarrow> (\<exists>bs. f q = Some (File bs) \<and> stores decode bs s)"

definition newest_readable :: "(bytes \<Rightarrow> PlatformState option) \<Rightarrow> files \<Rightarrow> path \<Rightarrow> PlatformState \<Rightarrow> bool" where
  "newest_readable decode f p s \<longleftrightarrow> file_holds decode f p s
     \<or> (\<forall>s'. \<not> file_holds decode f p s') \<and> file_holds decode f (bak_path p) s"

definition disconnected :: "Environment \<Rightarrow> Environment \<Rightarrow> bool" where
  "disconnected e e' \<longleftrightarrow>
     (if env_kind e = Cloud
      then env_status e' = Stopped \<and> env_last_error e' = None \<and> env_console_endpoint e' = None
        \<and> env_control_endpoint e' = None
        \<and> e'\<lparr>env_status := env_status e, env_last_error := env_last_error e,
             env_console_endpoint := env_console_endpoint e, env_control_endpoint := env_control_endpoint e\<rparr> = e
      else e' = e)"

definition cloud_offline :: "PlatformState \<Rightarrow> PlatformState \<Rightarrow> bool" where
  "cloud_offline m t \<longleftrightarrow> t\<lparr>environments := environments m\<rparr> = m \<and> list_all2 disconnected (environments m) (environments t)"

lemma disconnected_iff: "disconnected e e' \<longleftrightarrow> e' = stop_cloud e"
  by (cases e; cases e') (auto simp: disconnected_def stop_cloud_def)

lemma cloud_offline_iff: "cloud_offline m t \<longleftrightarrow> t = m\<lparr>environments := map stop_cloud (environments m)\<rparr>"
proof
  assume "cloud_offline m t"
  then have "environments t = map stop_cloud (environments m)" "t\<lparr>environments := environments m\<rparr> = m"
    by (auto simp: cloud_offline_def disconnected_iff list_all2_conv_all_nth intro!: nth_equalityI)
  then have "m\<lparr>environments := environments t\<rparr> = t" by (metis PlatformState.surjective PlatformState.update_convs(4))
  then show "t = m\<lparr>environments := map stop_cloud (environments m)\<rparr>"
    using \<open>environments t = map stop_cloud (environments m)\<close> by simp
qed (cases m, auto simp: cloud_offline_def disconnected_iff list_all2_map2 intro: list_all2_refl)

lemma inspect_iff: "inspect decode f q = Ok (Some s) \<longleftrightarrow> file_holds decode f q s"
  by (auto simp: inspect_def file_holds_def stores_def split: option.splits fnode.splits)

lemma durable_newest:
  assumes "newest_readable decode f p s"
  shows "durable decode p f = Use s (\<forall>s'. \<not> file_holds decode f p s')"
proof (cases "\<exists>s'. file_holds decode f p s'")
  case True
  then have "file_holds decode f p s" using assms by (auto simp: newest_readable_def)
  then show ?thesis by (auto simp: durable_def simp flip: inspect_iff)
next
  case False
  then have b: "inspect decode f (bak_path p) = Ok (Some s)" "\<And>s'. inspect decode f p \<noteq> Ok (Some s')"
    using assms by (auto simp: newest_readable_def simp flip: inspect_iff)
  then have "durable decode p f = Use s True"
    by (cases "(inspect decode f p, inspect decode f (bak_path p))" rule: select_state.cases) (auto simp: durable_def)
  with False show ?thesis by simp
qed

text \<open>
  C5. Starting after any interruption: on a disk whose files can be read and written, when the state file holds a
  readable state, or does not and the backup does, loading succeeds with that state (the file wins over the backup),
  migrated to the current schema, with every cloud environment disconnected and nothing else changed; the state file then
  holds the same state, and an unreadable state file that had to give way is kept under its \<open>corrupt\<close> name.
\<close>

theorem load_recovers:
  assumes "healthy w" and "json_path p"
    and "newest_readable decode (w_files w) p s"
    and "migrate seeded s = Ok m" and "cloud_offline m t"
    and "encode t = Some bs" and "stores decode bs t"
  shows "\<exists>w'. store_load seeded decode encode ts p w = (Done \<lparr>st_path = p, st_poisoned = False, st_state = t\<rparr>, w')
    \<and> cell_committed decode p w' t
    \<and> ((\<exists>s'. file_holds decode (w_files w) p s') \<or> w_files w p = None
        \<or> w_files w' (with_extension p (''json.corrupt-'' @ ts)) = w_files w p)"
proof -
  let ?b = "\<forall>s'. \<not> file_holds decode (w_files w) p s'" and ?c = "with_extension p (''json.corrupt-'' @ ts)"
  have sc: "w_script w = []" using assms(1) by (simp add: healthy_def)
  have d: "durable decode p (w_files w) = Use s ?b" by (rule durable_newest) (rule assms(3))
  have st: "start_state seeded (Use s ?b) = Ok (t, ?b)"
    using assms(4,5) by (simp add: start_state_def cloud_offline_iff)
  obtain w1 where w1: "(if ?b then recover_primary_from_backup ts p else io_return ()) w = (Done (), w1)" "healthy w1"
    and c: "?b \<longrightarrow> w_files w p \<noteq> None \<longrightarrow> w_files w1 ?c = w_files w p"
  proof (cases ?b)
    case True
    with assms(3) obtain bbs where "w_files w (bak_path p) = Some (File bbs)"
      by (auto simp: newest_readable_def file_holds_def)
    from recover_healthy [OF assms(1,2) this, of ts] True that show thesis by auto
  next
    case False
    then have "(if ?b then recover_primary_from_backup ts p else io_return ()) w = (Done (), w)"
      by (simp only: if_False io_return_def)
    from that [OF this assms(1)] False show thesis by blast
  qed
  from write_atomic_healthy [OF w1(2) assms(2), of bs] obtain w2 where
    w2: "write_atomic p bs w1 = (Done (), w2)" "w_files w2 p = Some (File bs)"
    and o: "\<And>q. q \<notin> {p, tmp_path p, bak_path p} \<Longrightarrow> w_files w2 q = w_files w1 q" by auto
  have dir: "fs_create_dir_all w1 = (Done (), w1)"
    using w1(2) by (simp add: fs_create_dir_all_def healthy_call)
  have "store_load seeded decode encode ts p w
      = (Done \<lparr>st_path = p, st_poisoned = False, st_state = t\<rparr>, w2)"
    using d st assms(6) sc w1(1) w2(1) dir
    by (simp add: store_load_def io_bind_def io_then_def io_return_def load_state_file_no_fault
        store_persist_def persist_state_def flip: durable_def)
  moreover have "w_files w2 ?c = w_files w1 ?c"
    by (rule o) (simp add: corrupt_sibling [OF assms(2), simplified])
  ultimately show ?thesis using w2(2) c assms(2,7) by (auto simp: cell_committed_def)
qed

theorem load_recovers_witness:
  "\<exists>w'. store_load (Err []) (example_decode (example_state 7 []) (example_state 6 []))
     (example_encode (example_state 7 []) (example_state 6 [])) ''1'' example_path
     \<lparr>w_files = (\<lambda>q. if q = bak_path example_path then Some (File [1]) else None), w_script = []\<rparr>
     = (Done \<lparr>st_path = example_path, st_poisoned = False, st_state = example_state 7 []\<rparr>, w')"
proof -
  let ?a = "example_state 7 []" and ?b = "example_state 6 []"
  let ?w = "\<lparr>w_files = (\<lambda>q. if q = bak_path example_path then Some (File [1]) else None),
    w_script = []\<rparr>"
  have st: "stores (example_decode ?a ?b) [1] ?a"
    by (simp add: stores_def example_decode_def MAX_STATE_BYTES_def)
  then have d: "newest_readable (example_decode ?a ?b) (w_files ?w) example_path ?a"
    using json_siblings [OF example_json_path] by (simp add: newest_readable_def file_holds_def)
  have m: "migrate (Err []) ?a = Ok ?a"
    by (simp add: migrate_current example_state_def current_schema_def)
  have o: "cloud_offline ?a ?a" by (simp add: cloud_offline_iff example_state_def)
  have "healthy ?w" by (auto simp: healthy_def)
  from load_recovers [OF this example_json_path d m o _ st, where ts = "''1''" and encode = "example_encode ?a ?b"]
  show ?thesis by (auto simp: example_encode_def)
qed


definition lone_primary :: "path \<Rightarrow> bytes \<Rightarrow> fault list \<Rightarrow> world" where
  "lone_primary p bs script = \<lparr>w_files = (\<lambda>q. if q = p then Some (File bs) else None), w_script = script\<rparr>"

lemmas write_atomic_eval = write_atomic_def io_then_def io_bind_def io_on_error_def io_ignore_def
  io_call_def fs_defs

text \<open>
  C40. The limit of crash safety. If both renames of a write fail (the activation of the
  new file and the attempt to put the old one back), the only copy of the state is the
  backup; the next write removes that backup before it activates its own file, and if the
  process stops in between, a restart finds neither file and starts from an empty state.
\<close>

theorem double_fault_loses_state:
  assumes "json_path p"
  shows "\<exists>script w1 w2. write_atomic p first (lone_primary p old script) = (Failed IoError, w1)
    \<and> w_files w1 p = None \<and> w_files w1 (bak_path p) = Some (File old)
    \<and> write_atomic p second w1 = (Crashed, w2)
    \<and> durable decode p (w_files w2) = Fresh"
proof -
  note [simp] = json_siblings [OF assms]
  let ?script = "[Succeeds, Succeeds, Succeeds, Succeeds, Succeeds, Succeeds, Fails [], Succeeds, Fails [],
    Succeeds, Succeeds, Succeeds, Succeeds, Succeeds, Crashes []]"
  let ?w1 = "\<lparr>w_files = (\<lambda>q. if q = bak_path p then Some (File old)
       else if q = tmp_path p then Some (File first) else None),
     w_script = [Succeeds, Succeeds, Succeeds, Succeeds, Succeeds, Crashes []]\<rparr>"
  have w1: "write_atomic p first (lone_primary p old ?script) = (Failed IoError, ?w1)"
    by (auto simp: write_atomic_eval lone_primary_def fun_eq_iff)
  obtain w2 where w2: "write_atomic p second ?w1 = (Crashed, w2)"
    "w_files w2 p = None" "w_files w2 (bak_path p) = None"
    by (auto simp: write_atomic_eval)
  have "durable decode p (w_files w2) = Fresh"
    using w2(2,3) by (simp add: durable_def inspect_def)
  with w1 w2(1) show ?thesis by (intro exI [of _ ?script] exI [of _ ?w1] exI [of _ w2]) simp
qed

theorem double_fault_loses_state_witness:
  "\<exists>script w1 w2. write_atomic example_path [2] (lone_primary example_path [1] script) = (Failed IoError, w1)
    \<and> w_files w1 example_path = None \<and> w_files w1 (bak_path example_path) = Some (File [1])
    \<and> write_atomic example_path [3] w1 = (Crashed, w2)
    \<and> durable (example_decode (example_state 7 []) (example_state 6 [])) example_path (w_files w2) = Fresh"
  by (rule double_fault_loses_state [OF example_json_path])

text \<open>
  The size limit is applied when reading only: a state whose encoding exceeds it is
  persisted without an error, and the next start silently goes back to the state before.
\<close>

theorem oversized_state_reverts:
  assumes "healthy w" and "json_path p" and "cell_committed decode p w s"
    and "encode t = Some bs" and "MAX_STATE_BYTES < length bs"
  shows "\<exists>w'. persist_state encode p t w = (Done (), w')
    \<and> durable decode p (w_files w') = Use s True"
proof -
  obtain obs where o: "w_files w p = Some (File obs)" "stores decode obs s"
    using assms(3) by (auto simp: cell_committed_def)
  from write_atomic_healthy [OF assms(1,2), of bs] o(1) obtain w' where
    w': "write_atomic p bs w = (Done (), w')" "w_files w' p = Some (File bs)"
      "w_files w' (bak_path p) = Some (File obs)" by auto
  have "inspect decode (w_files w') p = Err NotRegular"
    using w'(2) assms(5) by (simp add: inspect_def)
  with inspect_stores [where f = "w_files w'" and p = "bak_path p", OF w'(3) o(2)] w'(1) assms(4) show ?thesis
    by (auto simp: persist_state_def durable_def)
qed

theorem oversized_state_reverts_witness:
  "\<exists>w'. persist_state (\<lambda>_. Some (replicate (Suc MAX_STATE_BYTES) 0)) example_path (example_state 6 [])
       (example_disk [1] []) = (Done (), w')
    \<and> durable (example_decode (example_state 7 []) (example_state 6 [])) example_path (w_files w')
       = Use (example_state 7 []) True"
  by (rule oversized_state_reverts [OF _ example_json_path example_committed,
        where bs = "replicate (Suc MAX_STATE_BYTES) 0"])
    (simp_all add: healthy_def example_disk_def del: replicate_Suc)

end
