(* ===== verification/Packet.thy ===== *)
theory Packet
  imports Yougori_Prelude "HOL-Library.Monad_Syntax"
begin

unbundle bit_operations_syntax

text \<open>
  The byte-level part of the private Ethernet fabric (\<open>src-tauri/src/runtime/fabric.rs\<close>):
  addresses derived from an environment's identifier, the IPv4 header checks, the Internet
  checksum, the DHCP responder and the classification of a frame. Reading a slice out of
  bounds panics in Rust; the outer \<open>option\<close> of these functions is that panic, and
  \<open>Some\<close> is every way of returning.
\<close>

section \<open>Addresses\<close>

text \<open>SHA-256 comes from a library: \<open>digest\<close> stands for it.\<close>

definition address :: "(string \<Rightarrow> bytes) \<Rightarrow> string \<Rightarrow> bytes \<times> bytes" where
  "address digest i =
     (let h = digest i;
          ip = [10, 192 + h ! 0 mod 32, h ! 1, 2 + h ! 2 mod 252]
      in (ip, [0x52, 0x54, 0x4f, ip ! 1, ip ! 2, ip ! 3]))"

definition service_ip :: bytes where
  "service_ip = [10, 192, 0, 1]"

definition service_mac :: bytes where
  "service_mac = [0x52, 0x54, 0x4f, 192, 0, 1]"

section \<open>Headers\<close>

definition be16_of :: "u8 \<Rightarrow> u8 \<Rightarrow> u16" where
  "be16_of a b = push_bit 8 (ucast a) OR ucast b"

definition be16 :: "bytes \<Rightarrow> nat \<Rightarrow> u16 option" where
  "be16 p offset = do { a \<leftarrow> get_at p offset; b \<leftarrow> get_at p (offset + 1); Some (be16_of a b) }"

definition ipv4 :: "bytes \<Rightarrow> bytes option option" where
  "ipv4 packet =
     (case get_from packet 14 of
        None \<Rightarrow> Some None
      | Some p \<Rightarrow>
          if length p < 20 then Some None
          else do {
            b0 \<leftarrow> get_at p 0;
            fragment \<leftarrow> be16 p 6;
            if drop_bit 4 b0 \<noteq> 4 \<or> b0 AND 15 < 5 \<or> fragment AND 0x3fff \<noteq> 0 then Some None
            else do {
              size \<leftarrow> be16 p 2;
              if unat size < unat (b0 AND 15) * 4 \<or> unat size > length p then Some None
              else Some (Some (take (unat size) p))
            }
          })"

section \<open>Internet checksum\<close>

fun word_sum :: "bytes \<Rightarrow> u32" where
  "word_sum [] = 0"
| "word_sum [a] = ucast (be16_of a 0)"
| "word_sum (a # b # p) = ucast (be16_of a b) + word_sum p"

lemma unat_fold_step:
  fixes s :: u32
  shows "unat ((s AND 65535) + drop_bit 16 s) = unat s mod 65536 + unat s div 65536"
proof -
  have "s AND 65535 = take_bit 16 s" by (simp add: take_bit_eq_mask mask_eq_exp_minus_1)
  then have "unat (s AND 65535) = take_bit 16 (unat s)" by (simp add: unsigned_take_bit_eq)
  then have m: "unat (s AND 65535) = unat s mod 65536" by (simp add: take_bit_eq_mod)
  have d: "unat (drop_bit 16 s) = unat s div 65536"
    using drop_bit_eq_div [of 16 "unat s"] by (simp add: unat_drop_bit_eq)
  have "unat s < 2 ^ 32" using unsigned_less [of s] by simp
  then have "unat s mod 65536 + unat s div 65536 < 2 ^ 32"
    using mod_less_divisor [of 65536 "unat s"] div_le_mono [of "unat s" "2 ^ 32 - 1" 65536]
    by simp
  with m d show ?thesis by (simp add: unat_word_ariths)
qed

lemma fold_carry_decreases:
  fixes s :: u32
  assumes "drop_bit 16 s \<noteq> 0"
  shows "unat ((s AND 65535) + drop_bit 16 s) < unat s"
proof -
  have "unat (drop_bit 16 s) = unat s div 65536"
    using drop_bit_eq_div [of 16 "unat s"] by (simp add: unat_drop_bit_eq)
  moreover have "unat (drop_bit 16 s) \<noteq> 0" using assms by (simp add: unat_eq_0)
  ultimately have "0 < unat s div 65536" by simp
  moreover have "unat s = unat s div 65536 * 65536 + unat s mod 65536" by simp
  ultimately show ?thesis unfolding unat_fold_step by linarith
qed

function fold_carry :: "u32 \<Rightarrow> u32" where
  "fold_carry s = (if drop_bit 16 s \<noteq> 0 then fold_carry ((s AND 65535) + drop_bit 16 s) else s)"
  by pat_completeness auto
termination
  by (relation "measure unat") (auto intro: fold_carry_decreases)

declare fold_carry.simps [simp del]

definition checksum :: "bytes \<Rightarrow> u16" where
  "checksum p = NOT (ucast (fold_carry (word_sum p)))"

section \<open>DHCP\<close>

text \<open>
  The option loop: \<open>None\<close> is the early \<open>return None\<close>, otherwise the result is the message
  type seen last. Its two unchecked reads are guarded by the loop condition and by the
  length of the option, so no panic can come from here.
\<close>

function dhcp_options :: "bytes \<Rightarrow> bytes \<Rightarrow> nat \<Rightarrow> u8 \<Rightarrow> u8 option" where
  "dhcp_options request ip pos message =
     (if pos < length request then
        (let tag = request ! pos; pos = pos + 1 in
         if tag = 255 then Some message
         else if tag = 0 then dhcp_options request ip pos message
         else (case get_at request pos of
           None \<Rightarrow> None
         | Some l \<Rightarrow>
             (let len = unat l; pos = pos + 1 in
              case get_range request pos (pos + len) of
                None \<Rightarrow> None
              | Some value \<Rightarrow>
                  (let pos = pos + len;
                       message = (if tag = 53 \<and> len = 1 then value ! 0 else message)
                   in if tag = 54 \<and> value \<noteq> service_ip then None
                      else if tag = 50 \<and> value \<noteq> ip then None
                      else dhcp_options request ip pos message))))
      else Some message)"
  by pat_completeness auto
termination
  by (relation "measure (\<lambda>(request, ip, pos, message). length request - pos)") auto

declare dhcp_options.simps [simp del]

definition dhcp_bootp :: "bytes \<Rightarrow> u8 \<Rightarrow> bytes \<Rightarrow> bytes \<Rightarrow> bytes" where
  "dhcp_bootp request message ip mac =
     (let b = replicate 240 0;
          b = copy_into b 0 [2, 1, 6];
          b = copy_into b 4 (subslice request 4 8);
          b = copy_into b 10 (subslice request 10 12);
          b = copy_into b 16 ip;
          b = copy_into b 20 service_ip;
          b = copy_into b 28 mac;
          b = copy_into b 236 [99, 130, 83, 99]
      in b @ [53, 1, if message = 1 then 2 else 5, 54, 4, 10, 192, 0, 1, 1, 4, 255, 224, 0, 0,
              51, 4, 0, 1, 81, 128, 255])"

definition be_bytes :: "u16 \<Rightarrow> bytes" where
  "be_bytes v = [ucast (drop_bit 8 v), ucast v]"

definition dhcp_header :: "nat \<Rightarrow> bytes" where
  "dhcp_header bootp_len =
     (let size = 20 + 8 + bootp_len;
          r = replicate (14 + 28) 0;
          r = copy_into r 0 (replicate 6 255);
          r = copy_into r 6 service_mac;
          r = copy_into r 12 [8, 0];
          r = r[14 := 0x45];
          r = copy_into r 16 (be_bytes (of_nat size));
          r = r[22 := 64];
          r = r[23 := 17];
          r = copy_into r 26 service_ip;
          r = copy_into r 30 (replicate 4 255);
          r = copy_into r 24 (be_bytes (checksum (subslice r 14 34)));
          r = copy_into r 34 (be_bytes 67);
          r = copy_into r 36 (be_bytes 68)
      in copy_into r 38 (be_bytes (of_nat (8 + bootp_len))))"

definition dhcp_reply :: "bytes \<Rightarrow> bytes" where
  "dhcp_reply bootp = dhcp_header (length bootp) @ bootp"

definition dhcp :: "bytes \<Rightarrow> bytes \<Rightarrow> bytes \<Rightarrow> bytes option option" where
  "dhcp packet ip mac = do {
     ether_type \<leftarrow> be16 packet 12;
     if ether_type \<noteq> 0x0800 then Some None
     else do {
       header \<leftarrow> ipv4 packet;
       (case header of
          None \<Rightarrow> Some None
        | Some p \<Rightarrow> do {
            b0 \<leftarrow> get_at p 0;
            protocol \<leftarrow> get_at p 9;
            if protocol \<noteq> 17 then Some None
            else (case get_from p (unat (b0 AND 15) * 4) of
              None \<Rightarrow> Some None
            | Some udp \<Rightarrow>
                if length udp < 248 then Some None
                else do {
                  sport \<leftarrow> be16 udp 0;
                  dport \<leftarrow> be16 udp 2;
                  if sport \<noteq> 68 \<or> dport \<noteq> 67 then Some None
                  else do {
                    request \<leftarrow> get_from udp 8;
                    op \<leftarrow> get_range request 0 3;
                    chaddr \<leftarrow> get_range request 28 34;
                    magic \<leftarrow> get_range request 236 240;
                    if op \<noteq> [1, 1, 6] \<or> chaddr \<noteq> mac \<or> magic \<noteq> [99, 130, 83, 99] then Some None
                    else (case dhcp_options request ip 240 0 of
                      None \<Rightarrow> Some None
                    | Some message \<Rightarrow>
                        if message \<noteq> 1 \<and> message \<noteq> 3 then Some None
                        else Some (Some (dhcp_reply (dhcp_bootp request message ip mac))))
                  }
                })
          })
     }
   }"

section \<open>Frames\<close>

text \<open>
  What a frame asks for: the target address, the conversation it belongs to (\<open>None\<close> for
  ARP) and whether it may open one.
\<close>

record frame =
  fr_target_ip :: bytes
  fr_flow :: "(u8 \<times> u16 \<times> u16) option"
  fr_new :: bool

definition classify_arp :: "bytes \<Rightarrow> bytes \<Rightarrow> bytes \<Rightarrow> frame option option" where
  "classify_arp source_ip source_mac packet =
     (if length packet < 42 then Some None
      else do {
        fixed \<leftarrow> get_range packet 14 20;
        op_high \<leftarrow> get_at packet 20;
        op_low \<leftarrow> get_at packet 21;
        sender_mac \<leftarrow> get_range packet 22 28;
        sender_ip \<leftarrow> get_range packet 28 32;
        target \<leftarrow> get_range packet 38 42;
        if fixed \<noteq> [0, 1, 8, 0, 6, 4] \<or> op_low \<notin> {1, 2} \<or> op_high \<noteq> 0
           \<or> sender_mac \<noteq> source_mac \<or> sender_ip \<noteq> source_ip
        then Some None
        else Some (Some \<lparr>fr_target_ip = target, fr_flow = None, fr_new = False\<rparr>)
      })"

definition classify_ports :: "u8 \<Rightarrow> bytes \<Rightarrow> (u16 \<times> u16 \<times> bool) option option" where
  "classify_ports protocol payload =
     (if protocol = 6 \<and> length payload \<ge> 20 \<and> drop_bit 4 (payload ! 12) \<ge> 5
         \<and> unat (drop_bit 4 (payload ! 12)) * 4 \<le> length payload then do {
        s \<leftarrow> be16 payload 0; d \<leftarrow> be16 payload 2; flags \<leftarrow> get_at payload 13;
        Some (Some (s, d, flags AND 0x17 = 2)) }
      else if protocol = 17 \<and> length payload \<ge> 8 then do {
        s \<leftarrow> be16 payload 0; d \<leftarrow> be16 payload 2; Some (Some (s, d, True)) }
      else if protocol = 1 \<and> length payload \<ge> 8 \<and> payload ! 0 \<in> {0, 8} then do {
        i \<leftarrow> be16 payload 4; Some (Some (i, i, payload ! 0 = 8)) }
      else Some None)"

definition classify_ipv4 :: "bytes \<Rightarrow> bytes \<Rightarrow> frame option option" where
  "classify_ipv4 source_ip packet = do {
     header \<leftarrow> ipv4 packet;
     (case header of
        None \<Rightarrow> Some None
      | Some ip \<Rightarrow> do {
          sender \<leftarrow> get_range ip 12 16;
          if sender \<noteq> source_ip then Some None
          else do {
            b0 \<leftarrow> get_at ip 0;
            payload \<leftarrow> get_from ip (unat (b0 AND 15) * 4);
            protocol \<leftarrow> get_at ip 9;
            target \<leftarrow> get_range ip 16 20;
            ports \<leftarrow> classify_ports protocol payload;
            (case ports of
               None \<Rightarrow> Some None
             | Some (sport, dport, initial) \<Rightarrow>
                 Some (Some \<lparr>fr_target_ip = target, fr_flow = Some (protocol, sport, dport),
                   fr_new = initial\<rparr>))
          }
        })
   }"

definition classify :: "bytes \<Rightarrow> bytes \<Rightarrow> bytes \<Rightarrow> frame option option" where
  "classify source_ip source_mac packet = do {
     ether_type \<leftarrow> be16 packet 12;
     if ether_type = 0x0806 then classify_arp source_ip source_mac packet
     else if ether_type = 0x0800 then classify_ipv4 source_ip packet
     else Some None
   }"

section \<open>Bounds: no frame makes the fabric panic\<close>

lemma be16_Some [simp]:
  "(be16 p k = Some v) = (k + 1 < length p \<and> v = be16_of (p ! k) (p ! (k + 1)))"
  by (auto simp: be16_def bind_eq_Some_conv)

lemma be16_total: "k + 1 < length p \<Longrightarrow> be16 p k = Some (be16_of (p ! k) (p ! (k + 1)))"
  by simp

lemma get_at_total: "k < length p \<Longrightarrow> get_at p k = Some (p ! k)"
  by simp

lemma get_range_total: "a \<le> b \<Longrightarrow> b \<le> length p \<Longrightarrow> get_range p a b = Some (subslice p a b)"
  by simp

lemmas reads_total = be16_total get_at_total get_range_total

lemma ipv4_no_panic: "ipv4 packet \<noteq> None"
  by (auto simp: ipv4_def reads_total get_from_def)

lemma ipv4_header:
  assumes "ipv4 packet = Some (Some ip)"
  shows "20 \<le> length ip" and "unat (ip ! 0 AND 15) * 4 \<le> length ip"
    and "ip = subslice packet 14 (14 + length ip)" and "14 + length ip \<le> length packet"
    and "ip \<noteq> []"
proof -
  from assms obtain n where n: "length packet \<ge> 34" "ip = take n (drop 14 packet)"
    "n \<le> length packet - 14" "unat (packet ! 14 AND 15) * 4 \<le> n" "\<not> (packet ! 14 AND 15 < 5)"
    by (auto simp: ipv4_def reads_total get_from_def split: if_splits)
  then have "5 \<le> unat (packet ! 14 AND 15)" by (simp add: word_le_nat_alt not_less)
  with n show len: "20 \<le> length ip" "14 + length ip \<le> length packet" by simp_all
  then show "ip \<noteq> []" by auto
  from n len show "unat (ip ! 0 AND 15) * 4 \<le> length ip" by simp
  from n show "ip = subslice packet 14 (14 + length ip)" by (simp add: subslice_def)
qed

lemma classify_ports_no_panic: "classify_ports protocol payload \<noteq> None"
  by (auto simp: classify_ports_def reads_total)

lemma classify_no_panic:
  assumes "14 \<le> length packet"
  shows "classify source_ip source_mac packet \<noteq> None"
proof -
  have "classify_arp source_ip source_mac packet \<noteq> None"
    by (simp add: classify_arp_def reads_total)
  moreover have "classify_ipv4 source_ip packet \<noteq> None"
  proof (cases "ipv4 packet")
    case None
    then show ?thesis using ipv4_no_panic by blast
  next
    case (Some h)
    show ?thesis
    proof (cases h)
      case None
      then show ?thesis using Some by (simp add: classify_ipv4_def)
    next
      case (Some ip)
      obtain y where "classify_ports (ip ! 9) (drop (unat (ip ! 0 AND 15) * 4) ip) = Some y"
        using classify_ports_no_panic by blast
      then show ?thesis using Some \<open>ipv4 packet = Some h\<close> ipv4_header [of packet ip]
        by (simp add: classify_ipv4_def reads_total get_from_def split: option.splits)
    qed
  qed
  ultimately show ?thesis using assms by (simp add: classify_def be16_total)
qed

lemma dhcp_no_panic:
  assumes "14 \<le> length packet"
  shows "dhcp packet ip mac \<noteq> None"
proof (cases "ipv4 packet")
  case None
  then show ?thesis using ipv4_no_panic by blast
next
  case (Some h)
  with assms show ?thesis
    using ipv4_header [of packet]
    by (cases h) (auto simp: dhcp_def reads_total get_from_def split: option.splits)
qed

lemma classify_ipv4_SomeE:
  assumes "classify_ipv4 sip packet = Some (Some fr)"
  obtains ip s d i where "ipv4 packet = Some (Some ip)" "subslice ip 12 16 = sip"
    "classify_ports (ip ! 9) (drop (unat (ip ! 0 AND 15) * 4) ip) = Some (Some (s, d, i))"
    "fr = \<lparr>fr_target_ip = subslice ip 16 20, fr_flow = Some (ip ! 9, s, d), fr_new = i\<rparr>"
proof -
  obtain h where h: "ipv4 packet = Some h" using ipv4_no_panic by blast
  with assms obtain ip where ip: "h = Some ip" by (cases h) (simp_all add: classify_ipv4_def)
  obtain r where r: "classify_ports (ip ! 9) (drop (unat (ip ! 0 AND 15) * 4) ip) = Some r"
    using classify_ports_no_panic by blast
  from assms h ip r show thesis
    by (cases r) (auto simp: classify_ipv4_def bind_eq_Some_conv split: if_splits intro: that)
qed

lemma classify_flow_ipv4:
  assumes "classify sip smac packet = Some (Some fr)" and "fr_flow fr = Some k"
  shows "be16_of (packet ! 12) (packet ! 13) = 0x0800 \<and> subslice packet 26 30 = sip
    \<and> fr_target_ip fr = subslice packet 30 34"
proof -
  from assms(1) have et: "be16_of (packet ! 12) (packet ! 13) = 0x0800
      \<or> classify_arp sip smac packet = Some (Some fr)" "13 < length packet"
    by (auto simp: classify_def bind_eq_Some_conv split: if_splits)
  moreover have "classify_arp sip smac packet \<noteq> Some (Some fr)"
    using assms(2) by (auto simp: classify_arp_def bind_eq_Some_conv split: if_splits)
  ultimately have e: "be16_of (packet ! 12) (packet ! 13) = 0x0800" by blast
  with assms(1) have "classify_ipv4 sip packet = Some (Some fr)"
    by (simp add: classify_def et(2) be16_total)
  then obtain ip where ip: "ipv4 packet = Some (Some ip)" "subslice ip 12 16 = sip"
    "fr_target_ip fr = subslice ip 16 20" by (rule classify_ipv4_SomeE) simp
  obtain n where n: "ip = subslice packet 14 (14 + n)" "20 \<le> n"
    using ipv4_header [OF ip(1)] by blast
  have "subslice ip 12 16 = subslice packet 26 30" "subslice ip 16 20 = subslice packet 30 34"
    using n(2) by (simp_all add: n(1) subslice_subslice)
  with e ip show ?thesis by simp
qed


section \<open>Internet checksum\<close>

lemma mod_div_fold: "(n mod 65536 + n div 65536) mod 65535 = n mod (65535::nat)"
proof -
  have "n = n div 65536 * 65535 + (n mod 65536 + n div 65536)"
    using div_mult_mod_eq [of n 65536] by linarith
  then show ?thesis by (metis mod_mult_self3)
qed

lemma fold_carry_spec: "unat (fold_carry s) < 65536 \<and> unat (fold_carry s) mod 65535 = unat s mod 65535"
proof (induction s rule: fold_carry.induct)
  case (1 s)
  show ?case
  proof (cases "drop_bit 16 s = 0")
    case True
    then have "unat s div 65536 = 0"
      using unat_drop_bit_eq [of 16 s] drop_bit_eq_div [of 16 "unat s"] by simp
    then have "unat s < 65536" by (simp add: div_eq_0_iff)
    with True show ?thesis by (simp add: fold_carry.simps [of s])
  next
    case False
    with "1" show ?thesis by (simp add: fold_carry.simps [of s] unat_fold_step mod_div_fold)
  qed
qed

section \<open>The DHCP answer\<close>

lemma dhcp_header_eval:
  "dhcp_header 262 = [255, 255, 255, 255, 255, 255, 82, 84, 79, 192, 0, 1, 8, 0, 69, 0, 1, 34,
     0, 0, 0, 0, 64, 17, 111, 11, 10, 192, 0, 1, 255, 255, 255, 255, 0, 67, 0, 68, 1, 14, 0, 0]"
  by code_simp

lemma dhcp_header_verifies: "checksum (subslice (dhcp_header 262) 14 34) = 0"
  by code_simp

lemma length_bootp:
  assumes "length ip = 4" and "length mac = 6" and "240 \<le> length request"
  shows "length (dhcp_bootp request m ip mac) = 262"
  using assms by (simp add: dhcp_bootp_def Let_def service_ip_def)

lemma bootp_fields:
  assumes "length ip = 4" and "length mac = 6" and "240 \<le> length request"
  shows "subslice (dhcp_bootp request m ip mac) 4 8 = subslice request 4 8"
    and "subslice (dhcp_bootp request m ip mac) 16 20 = ip"
    and "subslice (dhcp_bootp request m ip mac) 28 34 = mac"
    and "drop 240 (dhcp_bootp request m ip mac) = [53, 1, if m = 1 then 2 else 5, 54, 4, 10, 192,
      0, 1, 1, 4, 255, 224, 0, 0, 51, 4, 0, 1, 81, 128, 255]"
proof -
  have same: "subslice (copy_into b 4 (subslice request 4 8)) 4 8 = subslice request 4 8"
    "subslice (copy_into b 16 ip) 16 20 = ip" "subslice (copy_into b 28 mac) 28 34 = mac"
    if "length b = 240" for b :: bytes
    using that assms subslice_copy_same [of 4 "subslice request 4 8" b]
      subslice_copy_same [of 16 ip b] subslice_copy_same [of 28 mac b] by simp_all
  note simps = dhcp_bootp_def Let_def service_ip_def subslice_append_left subslice_copy_disjoint same
  show "subslice (dhcp_bootp request m ip mac) 4 8 = subslice request 4 8"
    "subslice (dhcp_bootp request m ip mac) 16 20 = ip"
    "subslice (dhcp_bootp request m ip mac) 28 34 = mac"
    using assms by (simp_all add: simps)
  show "drop 240 (dhcp_bootp request m ip mac) = [53, 1, if m = 1 then 2 else 5, 54, 4, 10, 192,
      0, 1, 1, 4, 255, 224, 0, 0, 51, 4, 0, 1, 81, 128, 255]"
    using assms by (simp add: dhcp_bootp_def Let_def service_ip_def)
qed

lemma dhcp_SomeE:
  assumes "dhcp packet ip mac = Some (Some r)"
  obtains request m where "240 \<le> length request" "m \<in> {1, 3}" "subslice request 28 34 = mac"
    "r = dhcp_reply (dhcp_bootp request m ip mac)"
proof -
  obtain h where h: "ipv4 packet = Some h" using ipv4_no_panic by blast
  with assms obtain p where p: "h = Some p"
    by (cases h) (auto simp: dhcp_def bind_eq_Some_conv split: if_splits)
  let ?udp = "drop (unat (p ! 0 AND 15) * 4) p"
  let ?req = "drop 8 ?udp"
  have len: "unat (p ! 0 AND 15) * 4 \<le> length p" "p \<noteq> []"
    using ipv4_header h p by blast+
  have lu: "\<not> length ?udp < 248"
    using assms h p len by (auto simp: dhcp_def bind_eq_Some_conv get_from_def split: if_splits)
  then obtain m where m: "dhcp_options ?req ip 240 0 = Some m"
    using assms h p len
    by (cases "dhcp_options ?req ip 240 0")
      (auto simp: dhcp_def bind_eq_Some_conv get_from_def add.commute split: if_splits)
  have res: "m \<in> {1, 3}" "subslice ?req 28 34 = mac" "r = dhcp_reply (dhcp_bootp ?req m ip mac)"
    using assms h p len lu m
    by (auto simp: dhcp_def bind_eq_Some_conv get_from_def add.commute split: if_splits)
  from lu have "240 \<le> length ?req" by simp
  from that [OF this res] show thesis .
qed


text \<open>
  The DHCP answer: whenever the responder answers a guest, the frame is 304 bytes long,
  its IPv4 header checksum verifies, it offers the guest's own address to the guest's own
  hardware address, and its options are exactly message type, server identifier, subnet
  mask and lease time. In particular it never sets a router or a DNS server, so it cannot
  replace the guest's Internet gateway.
\<close>

theorem dhcp_answer:
  assumes "dhcp packet ip mac = Some (Some r)" and "length ip = 4" and "length mac = 6"
  shows "length r = 304 \<and> checksum (subslice r 14 34) = 0
    \<and> subslice r 58 62 = ip \<and> subslice r 70 76 = mac
    \<and> (\<exists>t \<in> {2, 5}. drop 282 r = [53, 1, t, 54, 4, 10, 192, 0, 1, 1, 4, 255, 224, 0, 0,
         51, 4, 0, 1, 81, 128, 255])"
proof -
  obtain req m where q: "240 \<le> length req" "m \<in> {1, 3}"
    and r: "r = dhcp_reply (dhcp_bootp req m ip mac)"
    using assms(1) by (rule dhcp_SomeE)
  let ?b = "dhcp_bootp req m ip mac"
  have lb: "length ?b = 262" using length_bootp assms(2,3) q(1) by blast
  have lh: "length (dhcp_header 262) = 42" by (simp add: dhcp_header_eval)
  have r': "r = dhcp_header 262 @ ?b" by (simp add: r dhcp_reply_def lb)
  have "checksum (subslice r 14 34) = 0"
    using dhcp_header_verifies lh by (simp add: r' subslice_append_left)
  moreover have "subslice r 58 62 = ip" "subslice r 70 76 = mac"
    using bootp_fields [OF assms(2,3) q(1), of m] lh by (simp_all add: r' subslice_append_right)
  moreover have "drop 282 r = drop 240 ?b" using lh by (simp add: r')
  ultimately show ?thesis
    using bootp_fields(4) [OF assms(2,3) q(1), of m] lb lh by (simp add: r')
qed

text \<open>A discover packet of the guest whose address is 10.200.1.2.\<close>

definition example_ip :: bytes where
  "example_ip = [10, 200, 1, 2]"

definition example_mac :: bytes where
  "example_mac = [0x52, 0x54, 0x4f, 200, 1, 2]"

definition example_discover :: bytes where
  "example_discover = replicate 6 255 @ example_mac @ [8, 0]
     @ [0x45, 0, 1, 16, 0, 0, 0, 0, 64, 17, 0, 0, 0, 0, 0, 0, 255, 255, 255, 255]
     @ [0, 68, 0, 67, 0, 252, 0, 0]
     @ [1, 1, 6, 0, 9, 9, 9, 9, 0, 0, 128, 0] @ replicate 16 0 @ example_mac @ replicate 202 0
     @ [99, 130, 83, 99, 53, 1, 1, 255]"

lemma example_discover_answered:
  "dhcp example_discover example_ip example_mac =
     Some (Some (dhcp_reply (dhcp_bootp (drop 42 example_discover) 1 example_ip example_mac)))"
  by code_simp

theorem dhcp_answer_witness:
  "length (dhcp_reply (dhcp_bootp (drop 42 example_discover) 1 example_ip example_mac)) = 304"
  using dhcp_answer [OF example_discover_answered] by (simp add: example_ip_def example_mac_def)

section \<open>Addresses\<close>

lemma length_address: "length (fst (address digest i)) = 4" "length (snd (address digest i)) = 6"
  by (simp_all add: address_def Let_def)

lemma mac_of_ip: "address digest i = (ip, mac) \<Longrightarrow> mac = [0x52, 0x54, 0x4f, ip ! 1, ip ! 2, ip ! 3]"
  by (auto simp: address_def Let_def)

text \<open>
  Every environment's address lies in 10.192.0.0/11 with a last byte between 2 and 253:
  it is never a network, broadcast or service address, whatever the hash.
\<close>

theorem address_range:
  "\<exists>b c d. fst (address digest i) = [10, b, c, d] \<and> 192 \<le> b \<and> b \<le> 223 \<and> 2 \<le> d \<and> d \<le> 253
     \<and> fst (address digest i) \<noteq> service_ip"
proof -
  obtain b d where bd: "b = 192 + digest i ! 0 mod 32" "d = 2 + digest i ! 2 mod 252" by blast
  have b: "192 \<le> b" "b \<le> 223" and d: "2 \<le> d" "d \<le> 253"
    by (simp_all add: bd word_le_nat_alt unat_word_ariths unat_mod_distrib)
  have a: "fst (address digest i) = [10, b, digest i ! 1, d]"
    by (simp add: address_def Let_def bd)
  have "\<not> (2 \<le> (1 :: u8))" by code_simp
  then have "d \<noteq> 1" using d(1) by blast
  with a b d show ?thesis by (auto simp: service_ip_def)
qed

end
