(* ===== verification/Rust_Text.thy ===== *)
theory Rust_Text
  imports Float64 Yougori_Prelude "HOL-Library.Sublist"
begin

text \<open>
  The functions of Rust's \<open>str\<close> that the program uses, on the UTF-8 bytes of a string:
  trimming and splitting at white space, splitting at a character, number parsing and
  decimal printing.
\<close>

section \<open>White space\<close>

text \<open>The UTF-8 encodings of the characters with the Unicode property \<open>White_Space\<close>.\<close>

definition whitespace :: "string list" where
  "whitespace =
     [[CHR 0x09], [CHR 0x0A], [CHR 0x0B], [CHR 0x0C],
      [CHR 0x0D], [CHR 0x20], [CHR 0xC2, CHR 0x85], [CHR 0xC2, CHR 0xA0],
      [CHR 0xE1, CHR 0x9A, CHR 0x80], [CHR 0xE2, CHR 0x80, CHR 0x80], [CHR 0xE2, CHR 0x80, CHR 0x81], [CHR 0xE2, CHR 0x80, CHR 0x82],
      [CHR 0xE2, CHR 0x80, CHR 0x83], [CHR 0xE2, CHR 0x80, CHR 0x84], [CHR 0xE2, CHR 0x80, CHR 0x85], [CHR 0xE2, CHR 0x80, CHR 0x86],
      [CHR 0xE2, CHR 0x80, CHR 0x87], [CHR 0xE2, CHR 0x80, CHR 0x88], [CHR 0xE2, CHR 0x80, CHR 0x89], [CHR 0xE2, CHR 0x80, CHR 0x8A],
      [CHR 0xE2, CHR 0x80, CHR 0xA8], [CHR 0xE2, CHR 0x80, CHR 0xA9], [CHR 0xE2, CHR 0x80, CHR 0xAF], [CHR 0xE2, CHR 0x81, CHR 0x9F],
      [CHR 0xE3, CHR 0x80, CHR 0x80]]"

lemma whitespace_nonempty: "w \<in> set whitespace \<Longrightarrow> w \<noteq> []"
  by (auto simp: whitespace_def)

fun starts_with :: "string \<Rightarrow> string \<Rightarrow> bool" where
  "starts_with [] s = True"
| "starts_with (c # p) [] = False"
| "starts_with (c # p) (d # s) = (c = d \<and> starts_with p s)"

lemma starts_with_prefix: "starts_with p s = prefix p s"
  by (induction p s rule: starts_with.induct) auto

definition ends_with :: "string \<Rightarrow> string \<Rightarrow> bool" where
  "ends_with p s = starts_with (rev p) (rev s)"

lemma starts_with_length: "starts_with p s \<Longrightarrow> length p \<le> length s"
  by (simp add: starts_with_prefix prefix_length_le)

definition white_prefix :: "string \<Rightarrow> string option" where
  "white_prefix s = List.find (\<lambda>w. starts_with w s) whitespace"

text \<open>Most characters are told apart by their first byte.\<close>

lemma white_prefix_code [code]:
  "white_prefix s = (case s of [] \<Rightarrow> None
     | c # t \<Rightarrow>
         if c = CHR 0x20 then Some [CHR 0x20]
         else if c = CHR 0x09 \<or> c = CHR 0x0A \<or> c = CHR 0x0B \<or> c = CHR 0x0C \<or> c = CHR 0x0D then Some [c]
         else if c = CHR 0xC2 \<or> c = CHR 0xE1 \<or> c = CHR 0xE2 \<or> c = CHR 0xE3
         then List.find (\<lambda>w. starts_with w s) whitespace
         else None)"
  by (cases s) (simp_all add: white_prefix_def whitespace_def)

lemma white_prefix_shorter:
  assumes "white_prefix s = Some w"
  shows "length (drop (length w) s) < length s"
proof -
  have "w \<in> set whitespace" "starts_with w s"
    using assms by (auto simp: white_prefix_def find_Some_iff)
  then show ?thesis using whitespace_nonempty [of w] starts_with_length [of w s] by (cases s) auto
qed

function trim_start :: "string \<Rightarrow> string" where
  "trim_start s = (case white_prefix s of None \<Rightarrow> s | Some w \<Rightarrow> trim_start (drop (length w) s))"
  by pat_completeness auto
termination
  by (relation "measure length") (use white_prefix_shorter in auto)

declare trim_start.simps [simp del]

definition white_suffix :: "string \<Rightarrow> string option" where
  "white_suffix s = List.find (\<lambda>w. ends_with w s) whitespace"

lemma white_suffix_shorter:
  assumes "white_suffix s = Some w"
  shows "length (take (length s - length w) s) < length s"
proof -
  have "w \<in> set whitespace" "starts_with (rev w) (rev s)"
    using assms by (auto simp: white_suffix_def find_Some_iff ends_with_def)
  then have "0 < length w" "length w \<le> length s"
    using whitespace_nonempty [of w] starts_with_length [of "rev w" "rev s"] by simp_all
  then have "length s - length w < length s" by linarith
  then show ?thesis by simp
qed

function trim_end :: "string \<Rightarrow> string" where
  "trim_end s = (case white_suffix s of None \<Rightarrow> s | Some w \<Rightarrow> trim_end (take (length s - length w) s))"
  by pat_completeness auto
termination
  by (relation "measure length") (use white_suffix_shorter in auto)

declare trim_end.simps [simp del]

definition trim :: "string \<Rightarrow> string" where
  "trim s = trim_end (trim_start s)"

text \<open>\<open>split_whitespace\<close>: \<open>word\<close> is the word being read, in reverse.\<close>

function split_white :: "string \<Rightarrow> string \<Rightarrow> string list" where
  "split_white word s =
     (let flush = (if word = [] then [] else [rev word]) in
      case white_prefix s of
        Some w \<Rightarrow> flush @ split_white [] (drop (length w) s)
      | None \<Rightarrow> (case s of [] \<Rightarrow> flush | c # t \<Rightarrow> split_white (c # word) t))"
  by pat_completeness auto
termination
  by (relation "measure (length \<circ> snd)") (use white_prefix_shorter in auto)

declare split_white.simps [simp del]

definition split_whitespace :: "string \<Rightarrow> string list" where
  "split_whitespace s = split_white [] s"

section \<open>Splitting at a character\<close>

fun split_char :: "char \<Rightarrow> string \<Rightarrow> string list" where
  "split_char c [] = [[]]"
| "split_char c (d # s) =
     (if d = c then [] # split_char c s
      else (case split_char c s of [] \<Rightarrow> [[d]] | w # ws \<Rightarrow> (d # w) # ws))"

fun split_once :: "char \<Rightarrow> string \<Rightarrow> (string \<times> string) option" where
  "split_once c [] = None"
| "split_once c (d # s) =
     (if d = c then Some ([], s)
      else (case split_once c s of None \<Rightarrow> None | Some (a, b) \<Rightarrow> Some (d # a, b)))"

definition strip_prefix :: "string \<Rightarrow> string \<Rightarrow> string option" where
  "strip_prefix p s = (if starts_with p s then Some (drop (length p) s) else None)"

definition trim_end_matches :: "char \<Rightarrow> string \<Rightarrow> string" where
  "trim_end_matches c s = rev (dropWhile (\<lambda>d. d = c) (rev s))"

lemma split_once_Some: "split_once c s = Some (a, b) \<longleftrightarrow> s = a @ c # b \<and> c \<notin> set a"
proof (induction s arbitrary: a)
  case (Cons d s)
  show ?case
  proof (cases "d = c")
    case True
    then show ?thesis by (cases a) auto
  next
    case False
    show ?thesis
    proof
      assume "split_once c (d # s) = Some (a, b)"
      then obtain a' where "split_once c s = Some (a', b)" "a = d # a'"
        using False by (auto split: option.splits)
      with Cons.IH [of a'] False show "d # s = a @ c # b \<and> c \<notin> set a" by simp
    next
      assume "d # s = a @ c # b \<and> c \<notin> set a"
      then obtain a' where "a = d # a'" "s = a' @ c # b \<and> c \<notin> set a'"
        using False by (cases a) simp_all
      with Cons.IH [of a'] False show "split_once c (d # s) = Some (a, b)" by simp
    qed
  qed
qed simp

lemma split_char_join: "concat (map (\<lambda>w. w @ [c]) (split_char c s)) = s @ [c]"
proof (induction s)
  case (Cons d s)
  then show ?case by (cases "split_char c s") auto
qed simp

lemma split_char_no_sep: "w \<in> set (split_char c s) \<Longrightarrow> c \<notin> set w"
proof (induction s arbitrary: w)
  case (Cons d s)
  show ?case
  proof (cases "split_char c s")
    case Nil
    then show ?thesis using Cons.prems by (auto split: if_splits)
  next
    case (Cons v ws)
    then show ?thesis using Cons.IH Cons.prems by (auto split: if_splits)
  qed
qed simp

section \<open>Numbers\<close>

definition is_digit :: "char \<Rightarrow> bool" where
  "is_digit c \<longleftrightarrow> (let n = of_char c :: nat in 48 \<le> n \<and> n \<le> 57)"

definition digit_value :: "char \<Rightarrow> nat" where
  "digit_value c = of_char c - 48"

definition digits_value :: "string \<Rightarrow> nat" where
  "digits_value s = foldl (\<lambda>n c. 10 * n + digit_value c) 0 s"

definition to_ascii_uppercase :: "char \<Rightarrow> char" where
  "to_ascii_uppercase c = (let n = of_char c :: nat in if 97 \<le> n \<and> n \<le> 122 then char_of (n - 32) else c)"

definition to_ascii_lowercase :: "char \<Rightarrow> char" where
  "to_ascii_lowercase c = (let n = of_char c :: nat in if 65 \<le> n \<and> n \<le> 90 then char_of (n + 32) else c)"

text \<open>\<open>str::parse::<u64>\<close>: an optional plus sign, then digits whose value fits.\<close>

definition parse_u64 :: "string \<Rightarrow> nat option" where
  "parse_u64 s =
     (let d = (case s of c # t \<Rightarrow> if c = CHR ''+'' then t else s | [] \<Rightarrow> []) in
      if d = [] \<or> \<not> list_all is_digit d \<or> digits_value d \<ge> 2 ^ 64 then None else Some (digits_value d))"

text \<open>\<open>str::parse::<f64>\<close>: sign, then infinity, not-a-number or a decimal with exponent.\<close>

definition parse_exponent :: "string \<Rightarrow> int option" where
  "parse_exponent s =
     (let (neg, d) = (case s of c # t \<Rightarrow> if c = CHR ''-'' then (True, t)
                        else if c = CHR ''+'' then (False, t) else (False, s) | [] \<Rightarrow> (False, []))
      in if d = [] \<or> \<not> list_all is_digit d then None
         else Some (if neg then - int (digits_value d) else int (digits_value d)))"

definition parse_decimal :: "string \<Rightarrow> rat option" where
  "parse_decimal s =
     (let whole = takeWhile is_digit s; rest = dropWhile is_digit s;
          (frac, rest) = (case rest of c # t \<Rightarrow> if c = CHR ''.'' then (takeWhile is_digit t, dropWhile is_digit t)
                            else ([], rest) | [] \<Rightarrow> ([], []));
          mantissa = of_nat (digits_value (whole @ frac)) :: rat
      in if whole @ frac = [] then None
         else (case rest of
           [] \<Rightarrow> Some (mantissa * 10 powi (- int (length frac)))
         | c # t \<Rightarrow>
             if c = CHR ''e'' \<or> c = CHR ''E'' then
               map_option (\<lambda>e. mantissa * 10 powi (e - int (length frac))) (parse_exponent t)
             else None))"

definition parse_f64 :: "string \<Rightarrow> f64 option" where
  "parse_f64 s =
     (let (neg, d) = (case s of c # t \<Rightarrow> if c = CHR ''-'' then (True, t)
                        else if c = CHR ''+'' then (False, t) else (False, s) | [] \<Rightarrow> (False, []));
          l = map to_ascii_lowercase d;
          v = (if l = ''inf'' \<or> l = ''infinity'' then Some PInf
               else if l = ''nan'' then Some NaN
               else map_option rnd (parse_decimal d))
      in if neg then map_option f_neg v else v)"

text \<open>Decimal printing.\<close>

fun show_nat :: "nat \<Rightarrow> string" where
  "show_nat n = (if n < 10 then [char_of (48 + n)] else show_nat (n div 10) @ [char_of (48 + n mod 10)])"

declare show_nat.simps [simp del]

definition is_upper :: "char \<Rightarrow> bool" where
  "is_upper c \<longleftrightarrow> CHR ''A'' \<le> c \<and> c \<le> CHR ''Z''"

definition is_alphanumeric :: "char \<Rightarrow> bool" where
  "is_alphanumeric c \<longleftrightarrow> is_digit c \<or> is_upper c \<or> CHR ''a'' \<le> c \<and> c \<le> CHR ''z''"

text \<open>\<open>chars().count()\<close> of a text in UTF-8.\<close>

definition char_count :: "string \<Rightarrow> nat" where
  "char_count s = length (filter (\<lambda>c. (of_char c :: nat) div 64 \<noteq> 2) s)"

fun join :: "string \<Rightarrow> string list \<Rightarrow> string" where
  "join sep [] = []"
| "join sep [x] = x"
| "join sep (x # xs) = x @ sep @ join sep xs"

lemma of_char_digit: "n < 10 \<Longrightarrow> (of_char (char_of (48 + n)) :: nat) = 48 + n"
  by simp

lemma show_nat_digits: "list_all is_digit (show_nat n) \<and> show_nat n \<noteq> []"
proof (induction n rule: show_nat.induct)
  case (1 n)
  have "n mod 10 \<le> 9" using mod_less_divisor [of 10 n] by linarith
  with "1" show ?case by (auto simp: show_nat.simps [of n] is_digit_def of_char_digit)
qed

lemma digits_value_show_nat: "digits_value (show_nat n) = n"
proof (induction n rule: show_nat.induct)
  case (1 n)
  then show ?case
    by (cases "n < 10") (simp_all add: show_nat.simps [of n] digits_value_def digit_value_def of_char_digit)
qed

lemma parse_show_u64: "n < 2 ^ 64 \<Longrightarrow> parse_u64 (show_nat n) = Some n"
proof -
  assume n: "n < 2 ^ 64"
  obtain c t where s: "show_nat n = c # t" using show_nat_digits [of n] by (cases "show_nat n") auto
  have "is_digit c" using show_nat_digits [of n] s by simp
  then have "c \<noteq> CHR ''+''" by (auto simp: is_digit_def)
  then show ?thesis
    using n show_nat_digits [of n] digits_value_show_nat [of n] s by (simp add: parse_u64_def)
qed

fun str_contains :: "string \<Rightarrow> string \<Rightarrow> bool" where
  "str_contains p [] = (p = [])"
| "str_contains p (c # s) = (starts_with p (c # s) \<or> str_contains p s)"

section \<open>Printing with a fixed number of decimals\<close>

text \<open>\<open>format!("{:.d$}", x)\<close>: the exact value rounded to \<open>d\<close> decimals, ties to even (\<open>d\<close> positive).\<close>

fun format_fixed :: "nat \<Rightarrow> f64 \<Rightarrow> string" where
  "format_fixed d (Fin x) =
     (let n = nat (round_half_even (\<bar>x\<bar> * 10 ^ d)); frac = show_nat (n mod 10 ^ d)
      in (if x < 0 then ''-'' else []) @ show_nat (n div 10 ^ d) @ ''.'' @ replicate (d - length frac) (CHR ''0'') @ frac)"
| "format_fixed d PInf = ''inf''"
| "format_fixed d NInf = ''-inf''"
| "format_fixed d NaN = ''NaN''"

end
