(* ===== verification/Fabric.thy ===== *)
theory Fabric
  imports Packet Models Rust_Text "HOL-Library.AList"
begin

unbundle bit_operations_syntax

text \<open>
  The private Ethernet switch of \<open>src-tauri/src/runtime/fabric.rs\<close>: the peers with their
  bounded queues, the connection rules with their conversation tables, \<open>attach\<close>, \<open>apply\<close>,
  \<open>remove\<close>, \<open>enable_files\<close>, the cleanup of a peer's task, and \<open>route\<close>, the firewall itself.
  A \<open>HashMap\<close> is an association list with distinct keys, iterated in list order; every
  theorem holds for all such lists and so for every iteration order. Instants are
  nanoseconds, and \<open>duration_since\<close> is truncated subtraction, as in the standard library.
  \<open>'f\<close> is the type of the shared file service's handle.
\<close>

section \<open>State\<close>

record flow =
  flow_source :: string
  flow_target :: string
  flow_protocol :: u8
  flow_source_port :: u16
  flow_target_port :: u16

definition reverse :: "flow \<Rightarrow> flow" where
  "reverse f = \<lparr>flow_source = flow_target f, flow_target = flow_source f,
     flow_protocol = flow_protocol f, flow_source_port = flow_target_port f,
     flow_target_port = flow_source_port f\<rparr>"

record rule =
  rule_last_sweep :: nat
  rule_source :: string
  rule_target :: string
  rule_both :: bool
  rule_network :: bool
  rule_ports :: "u16 list"
  rule_flows :: "(flow \<times> nat) list"

text \<open>A \<open>tokio::sync::mpsc\<close> channel of capacity 128; it is closed when its receiver is dropped.\<close>

record mailbox =
  mb_queue :: "bytes list"
  mb_closed :: bool

record 'f peer =
  peer_file_context :: "'f option"
  peer_files :: "mailbox option"
  peer_identity :: "bytes \<times> bytes"
  peer_generation :: string
  peer_tx :: mailbox

record 'f fabric =
  fab_peers :: "(string \<times> 'f peer) list"
  fab_rules :: "(string \<times> rule) list"

definition empty_fabric :: "'f fabric" where
  "empty_fabric = \<lparr>fab_peers = [], fab_rules = []\<rparr>"

definition new_mailbox :: mailbox where
  "new_mailbox = \<lparr>mb_queue = [], mb_closed = False\<rparr>"

definition try_send :: "bytes \<Rightarrow> mailbox \<Rightarrow> mailbox" where
  "try_send p m =
     (if mb_closed m \<or> 128 \<le> length (mb_queue m) then m else m\<lparr>mb_queue := mb_queue m @ [p]\<rparr>)"

definition secs :: "nat \<Rightarrow> nat" where
  "secs n = n * 1000000000"

definition update_peer :: "string \<Rightarrow> ('f peer \<Rightarrow> 'f peer) \<Rightarrow> 'f fabric \<Rightarrow> 'f fabric" where
  "update_peer i f st =
     (case map_of (fab_peers st) i of
        None \<Rightarrow> st
      | Some p \<Rightarrow> st\<lparr>fab_peers := AList.update i (f p) (fab_peers st)\<rparr>)"

definition send_tx :: "string \<Rightarrow> bytes \<Rightarrow> 'f fabric \<Rightarrow> 'f fabric" where
  "send_tx i packet = update_peer i (\<lambda>p. p\<lparr>peer_tx := try_send packet (peer_tx p)\<rparr>)"

definition send_files :: "string \<Rightarrow> bytes \<Rightarrow> 'f fabric \<Rightarrow> 'f fabric" where
  "send_files i packet =
     update_peer i (\<lambda>p. p\<lparr>peer_files := map_option (try_send packet) (peer_files p)\<rparr>)"

section \<open>Control operations\<close>

text \<open>\<open>ip_text\<close> prints the four bytes of an address in decimal, joined by dots.\<close>

definition ip_text :: "(string \<Rightarrow> bytes) \<Rightarrow> string \<Rightarrow> string" where
  "ip_text digest i = join ''.'' (map (\<lambda>b. show_nat (unat b)) (fst (address digest i)))"

definition hex_digit :: "nat \<Rightarrow> char" where
  "hex_digit n = (if n < 10 then char_of (48 + n) else char_of (87 + n))"

definition mac_text :: "(string \<Rightarrow> bytes) \<Rightarrow> string \<Rightarrow> string" where
  "mac_text digest i =
     join '':'' (map (\<lambda>b. [hex_digit (unat b div 16), hex_digit (unat b mod 16)])
       (snd (address digest i)))"

definition qemu_args :: "(string \<Rightarrow> bytes) \<Rightarrow> string \<Rightarrow> u16 \<Rightarrow> bool \<Rightarrow> string list" where
  "qemu_args digest i port micro =
     [''-netdev'', ''socket,id=odprivate,listen=127.0.0.1:'' @ show_nat (unat port), ''-device'',
      (if micro then ''virtio-net-device'' else ''e1000e'') @ '',netdev=odprivate,mac='' @ mac_text digest i]"

definition allows_tcp :: "(string \<Rightarrow> bytes) \<Rightarrow> string \<Rightarrow> string \<Rightarrow> u16 \<Rightarrow> 'f fabric \<Rightarrow> bool" where
  "allows_tcp digest source addr port st =
     (case List.find (\<lambda>(i, p). ip_text digest i = addr \<and> \<not> mb_closed (peer_tx p)) (fab_peers st) of
        None \<Rightarrow> False
      | Some (target, _) \<Rightarrow>
          list_ex (\<lambda>(_, r).
            (rule_source r = source \<and> rule_target r = target
             \<or> rule_both r \<and> rule_target r = source \<and> rule_source r = target)
            \<and> (rule_network r \<or> port \<in> set (rule_ports r))) (fab_rules st))"

definition enable_files :: "string \<Rightarrow> 'f \<Rightarrow> 'f fabric \<Rightarrow> 'f fabric" where
  "enable_files i files =
     update_peer i (\<lambda>p. if peer_files p = None
       then p\<lparr>peer_file_context := Some files, peer_files := Some new_mailbox\<rparr> else p)"

definition connected :: "string \<Rightarrow> 'f fabric \<Rightarrow> bool" where
  "connected i st =
     (case map_of (fab_peers st) i of None \<Rightarrow> False | Some p \<Rightarrow> \<not> mb_closed (peer_tx p))"

definition remove_rule :: "string \<Rightarrow> 'f fabric \<Rightarrow> 'f fabric" where
  "remove_rule i st = st\<lparr>fab_rules := AList.delete i (fab_rules st)\<rparr>"

definition apply_rule :: "nat \<Rightarrow> string \<Rightarrow> string \<Rightarrow> string \<Rightarrow> ConnectionDirection \<Rightarrow> PermissionKind list
    \<Rightarrow> u16 list \<Rightarrow> 'f fabric \<Rightarrow> ('f fabric \<times> string, string) result" where
  "apply_rule now i source target direction permissions ports st =
     (if \<not> list_all (\<lambda>j. connected j st) [source, target]
      then Err ''Private network adapter is not connected. Stop and start both environments to load the updated runtime, then retry the connection.''
      else
        (let both = (direction = Bidirectional);
             network = (Network \<in> set permissions);
             same = (case map_of (fab_rules st) i of
                       None \<Rightarrow> False
                     | Some r \<Rightarrow> rule_source r = source \<and> rule_target r = target
                         \<and> rule_both r = both \<and> rule_network r = network \<and> rule_ports r = ports);
             fresh = \<lparr>rule_last_sweep = now, rule_source = source, rule_target = target,
               rule_both = both, rule_network = network, rule_ports = ports, rule_flows = []\<rparr>
         in Ok ((if same then st else st\<lparr>fab_rules := AList.update i fresh (fab_rules st)\<rparr>),
                ''private:'' @ i)))"

text \<open>\<open>generation\<close> is the fresh UUID of the new task.\<close>

definition attach :: "(string \<Rightarrow> bytes) \<Rightarrow> string \<Rightarrow> string \<Rightarrow> 'f fabric \<Rightarrow> ('f fabric, string) result" where
  "attach digest generation i st =
     (if list_ex (\<lambda>(other, _). other \<noteq> i \<and> fst (address digest other) = fst (address digest i))
           (fab_peers st)
      then Err ''Private network address collision. Create a new environment with a different identifier; no existing connection was changed.''
      else Ok (st\<lparr>fab_peers := AList.update i
        \<lparr>peer_file_context = None, peer_files = None, peer_identity = address digest i,
         peer_generation = generation, peer_tx = new_mailbox\<rparr> (fab_peers st)\<rparr>))"

definition current_generation :: "string \<Rightarrow> string \<Rightarrow> 'f fabric \<Rightarrow> bool" where
  "current_generation i generation st =
     (case map_of (fab_peers st) i of None \<Rightarrow> False | Some p \<Rightarrow> peer_generation p = generation)"

text \<open>
  The end of a peer's task. The second component is the file service whose
  \<open>remove_environment\<close> is called, if there is one.
\<close>

definition cleanup :: "string \<Rightarrow> string \<Rightarrow> 'f fabric \<Rightarrow> 'f fabric \<times> 'f option" where
  "cleanup i generation st =
     (let (st, released) =
        (if current_generation i generation st
         then (st\<lparr>fab_peers := AList.delete i (fab_peers st)\<rparr>,
               Option.bind (map_of (fab_peers st) i) peer_file_context)
         else (st, None))
      in (st\<lparr>fab_rules := map (\<lambda>(k, r). (k, r\<lparr>rule_flows :=
            filter (\<lambda>(f, _). flow_source f \<noteq> i \<and> flow_target f \<noteq> i) (rule_flows r)\<rparr>))
            (fab_rules st)\<rparr>, released))"

section \<open>Routing\<close>

text \<open>One rule's verdict on a frame, with the rule as it is afterwards.\<close>

definition sweep :: "nat \<Rightarrow> rule \<Rightarrow> rule" where
  "sweep now r =
     (if now - rule_last_sweep r \<ge> secs 30
      then r\<lparr>rule_flows := filter (\<lambda>(_, t). now - t < secs 300) (rule_flows r),
             rule_last_sweep := now\<rparr>
      else r)"

definition live :: "nat \<Rightarrow> rule \<Rightarrow> flow \<Rightarrow> bool" where
  "live now r key =
     (case map_of (rule_flows r) key of None \<Rightarrow> False | Some t \<Rightarrow> now - t < secs 300)"

definition touch :: "nat \<Rightarrow> flow \<Rightarrow> rule \<Rightarrow> rule" where
  "touch now key r = r\<lparr>rule_flows := AList.update key now (rule_flows r)\<rparr>"

definition admit :: "nat \<Rightarrow> string \<Rightarrow> string \<Rightarrow> frame \<Rightarrow> rule \<Rightarrow> bool \<times> rule" where
  "admit now source target fr r =
     (let forward = (rule_source r = source \<and> rule_target r = target);
          backward = (rule_target r = source \<and> rule_source r = target)
      in if \<not> forward \<and> \<not> backward then (False, r)
         else (case fr_flow fr of
           None \<Rightarrow> (True, r)
         | Some (protocol, source_port, target_port) \<Rightarrow>
             if protocol = 6 \<and> fr_new fr \<and> \<not> (forward \<or> rule_both r \<and> backward) then (False, r)
             else
               (let r = sweep now r;
                    key = \<lparr>flow_source = source, flow_target = target, flow_protocol = protocol,
                      flow_source_port = source_port, flow_target_port = target_port\<rparr>
                in if live now r key then (True, touch now key r)
                   else if live now r (reverse key) then (True, touch now (reverse key) r)
                   else if \<not> fr_new fr \<or> \<not> (forward \<or> rule_both r \<and> backward)
                        \<or> \<not> (rule_network r \<or> protocol = 6 \<and> target_port \<in> set (rule_ports r))
                        \<or> 4096 \<le> length (rule_flows r)
                   then (False, r)
                   else (True, touch now key r))))"

text \<open>\<open>values_mut().any(..)\<close>: the rules after the first one that permits are not visited.\<close>

fun admit_any :: "nat \<Rightarrow> string \<Rightarrow> string \<Rightarrow> frame \<Rightarrow> (string \<times> rule) list \<Rightarrow> bool \<times> (string \<times> rule) list" where
  "admit_any now source target fr [] = (False, [])"
| "admit_any now source target fr ((i, r) # rules) =
     (let (ok, r') = admit now source target fr r
      in if ok then (True, (i, r') # rules)
         else (let (ok', rules') = admit_any now source target fr rules in (ok', (i, r') # rules')))"

definition deliver :: "nat \<Rightarrow> string \<Rightarrow> bytes \<Rightarrow> frame \<Rightarrow> 'f fabric \<Rightarrow> 'f fabric option" where
  "deliver now source packet fr st = do {
     ether_type \<leftarrow> be16 packet 12;
     destination \<leftarrow> get_range packet 0 6;
     if fr_target_ip fr = service_ip then
       Some (if ether_type = 0x0806 \<or> destination = service_mac then send_files source packet st else st)
     else
       (case List.find (\<lambda>(_, p). fst (peer_identity p) = fr_target_ip fr) (fab_peers st) of
          None \<Rightarrow> Some st
        | Some (target, _) \<Rightarrow>
            if source = target then Some st
            else do {
              peer \<leftarrow> map_of (fab_peers st) target;
              if ether_type = 0x0800 \<and> destination \<noteq> snd (peer_identity peer) then Some st
              else
                (let (permitted, rules) = admit_any now source target fr (fab_rules st);
                     st = st\<lparr>fab_rules := rules\<rparr>
                 in Some (if permitted then send_tx target packet st else st))
            })
   }"

definition route :: "nat \<Rightarrow> string \<Rightarrow> bytes \<Rightarrow> 'f fabric \<Rightarrow> 'f fabric option" where
  "route now source packet st =
     (case map_of (fab_peers st) source of
        None \<Rightarrow> Some st
      | Some peer \<Rightarrow>
          (let (source_ip, source_mac) = peer_identity peer in
           if length packet < 14 \<or> subslice packet 6 12 \<noteq> source_mac then Some st
           else do {
             reply \<leftarrow> dhcp packet source_ip source_mac;
             (case reply of
                Some r \<Rightarrow> Some (send_tx source r st)
              | None \<Rightarrow> do {
                  frame \<leftarrow> classify source_ip source_mac packet;
                  (case frame of None \<Rightarrow> Some st | Some fr \<Rightarrow> deliver now source packet fr st)
                })
           }))"

text \<open>The reader's loop body: a frame read by the task \<open>generation\<close> of environment \<open>i\<close>.\<close>

definition receive :: "nat \<Rightarrow> string \<Rightarrow> string \<Rightarrow> bytes \<Rightarrow> 'f fabric \<Rightarrow> 'f fabric option" where
  "receive now i generation packet st =
     (if \<not> (14 \<le> length packet \<and> length packet \<le> 65536) then Some st
      else if \<not> current_generation i generation st then Some st
      else route now i packet st)"

section \<open>What a rule permits\<close>

text \<open>
  The policy a rule states, without its conversation table: which peers it joins, and which
  conversations may be opened under it.
\<close>

definition joins :: "rule \<Rightarrow> string \<Rightarrow> string \<Rightarrow> bool" where
  "joins r s t \<longleftrightarrow> rule_source r = s \<and> rule_target r = t \<or> rule_target r = s \<and> rule_source r = t"

definition opens :: "rule \<Rightarrow> string \<Rightarrow> string \<Rightarrow> bool" where
  "opens r s t \<longleftrightarrow> rule_source r = s \<and> rule_target r = t
     \<or> rule_both r \<and> rule_target r = s \<and> rule_source r = t"

definition may_open :: "rule \<Rightarrow> flow \<Rightarrow> bool" where
  "may_open r k \<longleftrightarrow> opens r (flow_source k) (flow_target k)
     \<and> (rule_network r \<or> flow_protocol k = 6 \<and> flow_target_port k \<in> set (rule_ports r))"

definition flow_of :: "string \<Rightarrow> string \<Rightarrow> u8 \<times> u16 \<times> u16 \<Rightarrow> flow" where
  "flow_of s t c = \<lparr>flow_source = s, flow_target = t, flow_protocol = fst c,
     flow_source_port = fst (snd c), flow_target_port = snd (snd c)\<rparr>"

definition policy_allows :: "rule \<Rightarrow> string \<Rightarrow> string \<Rightarrow> frame \<Rightarrow> bool" where
  "policy_allows r s t fr \<longleftrightarrow> joins r s t \<and>
     (case fr_flow fr of
        None \<Rightarrow> True
      | Some c \<Rightarrow> (may_open r (flow_of s t c) \<or> may_open r (reverse (flow_of s t c)))
          \<and> (fst c = 6 \<and> fr_new fr \<longrightarrow> opens r s t))"

definition rule_ok :: "rule \<Rightarrow> bool" where
  "rule_ok r \<longleftrightarrow> distinct (map fst (rule_flows r)) \<and> length (rule_flows r) \<le> 4096
     \<and> (\<forall>(k, _) \<in> set (rule_flows r). may_open r k)"

definition same_policy :: "rule \<Rightarrow> rule \<Rightarrow> bool" where
  "same_policy r r' \<longleftrightarrow> rule_source r' = rule_source r \<and> rule_target r' = rule_target r
     \<and> rule_both r' = rule_both r \<and> rule_network r' = rule_network r \<and> rule_ports r' = rule_ports r"

lemma same_policyD:
  assumes "same_policy r r'"
  shows "joins r' = joins r" "opens r' = opens r" "may_open r' = may_open r"
    "policy_allows r' = policy_allows r"
  using assms
  by (auto simp: same_policy_def joins_def opens_def may_open_def policy_allows_def fun_eq_iff
      split: option.splits)

lemma same_policy_refl [simp]: "same_policy r r"
  by (simp add: same_policy_def)

lemma same_policy_sweep [simp]: "same_policy r (sweep now r)"
  by (simp add: sweep_def same_policy_def)

lemma same_policy_touch [simp]: "same_policy r (touch now k r') = same_policy r r'"
  by (simp add: touch_def same_policy_def)

lemma distinct_map_filter: "distinct (map f xs) \<Longrightarrow> distinct (map f (filter P xs))"
  by (induction xs) auto

lemma rule_ok_filter:
  "rule_ok r \<Longrightarrow> rule_ok (r\<lparr>rule_flows := filter P (rule_flows r)\<rparr>)"
  using same_policyD(3) [of r "r\<lparr>rule_flows := filter P (rule_flows r)\<rparr>"]
  by (auto simp: rule_ok_def distinct_map_filter same_policy_def intro: le_trans [OF length_filter_le])

lemma rule_ok_sweep: "rule_ok r \<Longrightarrow> rule_ok (sweep now r)"
  using rule_ok_filter [of r "\<lambda>(_, t). now - t < secs 300"]
    same_policyD(3) [of r "sweep now r"]
  by (auto simp: sweep_def rule_ok_def may_open_def opens_def)

lemma length_update: "length (AList.update k v m) = (if k \<in> fst ` set m then length m else Suc (length m))"
  by (induction m) auto

lemma set_update: "set (AList.update k v m) \<subseteq> insert (k, v) (set m)"
  by (induction m) auto

lemma rule_ok_touch:
  assumes "rule_ok r" and "may_open r k" and "k \<in> fst ` set (rule_flows r) \<or> length (rule_flows r) < 4096"
  shows "rule_ok (touch now k r)"
proof -
  have m: "may_open (touch now k r) = may_open r" by (rule same_policyD) simp
  have "\<forall>(k', _) \<in> set (rule_flows (touch now k r)). may_open r k'"
    using assms set_update [of k now "rule_flows r"] by (fastforce simp: rule_ok_def touch_def)
  with assms m show ?thesis
    by (auto simp: rule_ok_def length_update distinct_update touch_def)
qed

lemma live_mem: "live now r k \<Longrightarrow> k \<in> fst ` set (rule_flows r)"
  by (auto simp: live_def split: option.splits dest: map_of_SomeD intro: rev_image_eqI)

lemma reverse_reverse [simp]: "reverse (reverse k) = k"
  by (simp add: reverse_def)

text \<open>A rule's answer to a packet of a conversation, in terms of its policy.\<close>

lemma admit_conversation:
  assumes "fr_flow fr = Some c"
  shows "admit now s t fr r =
     (if \<not> joins r s t then (False, r)
      else if fst c = 6 \<and> fr_new fr \<and> \<not> opens r s t then (False, r)
      else if live now (sweep now r) (flow_of s t c) then (True, touch now (flow_of s t c) (sweep now r))
      else if live now (sweep now r) (reverse (flow_of s t c))
        then (True, touch now (reverse (flow_of s t c)) (sweep now r))
      else if \<not> fr_new fr \<or> \<not> may_open r (flow_of s t c) \<or> 4096 \<le> length (rule_flows (sweep now r))
        then (False, sweep now r)
      else (True, touch now (flow_of s t c) (sweep now r)))"
proof -
  obtain p sp tp where c: "c = (p, sp, tp)" by (cases c)
  have sw: "rule_both (sweep now r) = rule_both r" "rule_network (sweep now r) = rule_network r"
    "rule_ports (sweep now r) = rule_ports r" using same_policy_sweep [of r now]
    by (simp_all add: same_policy_def)
  have key: "\<lparr>flow_source = s, flow_target = t, flow_protocol = p, flow_source_port = sp,
    flow_target_port = tp\<rparr> = flow_of s t (p, sp, tp)" by (simp add: flow_of_def)
  have m: "may_open r (flow_of s t (p, sp, tp)) \<longleftrightarrow>
      opens r s t \<and> (rule_network r \<or> p = 6 \<and> tp \<in> set (rule_ports r))"
    by (simp add: may_open_def flow_of_def)
  show ?thesis
    unfolding admit_def Let_def assms c option.case prod.case sw key m opens_def joins_def fst_conv
    by auto
qed

text \<open>The only ways a rule answers.\<close>

lemma admit_cases:
  assumes "admit now s t fr r = (ok, r')"
  obtains (unrelated) "\<not> ok" "r' = r"
  | (arp) "ok" "r' = r" "joins r s t" "fr_flow fr = None"
  | (refused) c where "\<not> ok" "r' = sweep now r" "joins r s t" "fr_flow fr = Some c"
  | (known) c k where "ok" "r' = touch now k (sweep now r)" "joins r s t" "fr_flow fr = Some c"
      "k = flow_of s t c \<or> k = reverse (flow_of s t c)" "live now (sweep now r) k"
      "fst c = 6 \<Longrightarrow> fr_new fr \<Longrightarrow> opens r s t"
  | (opened) c where "ok" "r' = touch now (flow_of s t c) (sweep now r)" "joins r s t"
      "fr_flow fr = Some c" "fr_new fr" "may_open r (flow_of s t c)"
      "length (rule_flows (sweep now r)) < 4096" "opens r s t"
proof (cases "fr_flow fr")
  case None
  then show ?thesis using assms that(1,2)
    by (auto simp: admit_def Let_def joins_def split: if_splits)
next
  case (Some c)
  have op: "may_open r (flow_of s t c) \<Longrightarrow> opens r s t" by (simp add: may_open_def flow_of_def)
  show ?thesis
    using assms unfolding admit_conversation [OF Some]
    by (auto split: if_splits simp: Some not_le dest: op intro: that)
qed

lemma admit_sound:
  assumes "rule_ok r" and "admit now s t fr r = (ok, r')"
  shows "rule_ok r'" and "same_policy r r'" and "ok \<Longrightarrow> policy_allows r s t fr"
proof -
  have sw: "rule_ok (sweep now r)" "may_open (sweep now r) = may_open r"
    using assms(1) rule_ok_sweep same_policyD(3) [OF same_policy_sweep] by auto
  have mem: "may_open r k" if "live now (sweep now r) k" for k
    using live_mem [OF that] sw by (auto simp: rule_ok_def)
  from assms(2) have "rule_ok r' \<and> same_policy r r' \<and> (ok \<longrightarrow> policy_allows r s t fr)"
  proof (cases rule: admit_cases)
    case (known c k)
    then show ?thesis using sw mem [of k] live_mem [of now "sweep now r" k]
      by (auto simp: policy_allows_def rule_ok_touch)
  next
    case (opened c)
    then show ?thesis using sw by (auto simp: policy_allows_def rule_ok_touch)
  qed (use assms(1) sw in \<open>auto simp: policy_allows_def\<close>)
  then show "rule_ok r'" "same_policy r r'" "ok \<Longrightarrow> policy_allows r s t fr" by auto
qed

lemma admit_any_sound:
  assumes "\<forall>(_, r) \<in> set rules. rule_ok r" and "admit_any now s t fr rules = (ok, rules')"
  shows "(\<forall>(_, r) \<in> set rules'. rule_ok r) \<and> map fst rules' = map fst rules
    \<and> list_all2 (\<lambda>(_, r) (_, r'). same_policy r r') rules rules'
    \<and> (ok \<longrightarrow> (\<exists>(_, r) \<in> set rules. policy_allows r s t fr))"
  using assms
proof (induction rules arbitrary: rules' ok)
  case (Cons x rules)
  obtain i r where x: "x = (i, r)" by (cases x)
  obtain b r' where a: "admit now s t fr r = (b, r')" by (cases "admit now s t fr r")
  have r: "rule_ok r" using Cons.prems(1) x by simp
  note s = admit_sound [OF r a]
  show ?case
  proof (cases b)
    case True
    then show ?thesis using Cons.prems x a s
      by (auto simp: list_all2_conv_all_nth nth_Cons split: nat.splits prod.splits)
  next
    case False
    obtain b2 rs where a2: "admit_any now s t fr rules = (b2, rs)"
      by (cases "admit_any now s t fr rules")
    have "\<forall>(_, r) \<in> set rules. rule_ok r" using Cons.prems(1) by simp
    from Cons.IH [OF this a2] show ?thesis
      using False Cons.prems x a s a2 by auto
  qed
qed simp

section \<open>Invariant of the switch\<close>

definition peer_ok :: "(string \<Rightarrow> bytes) \<Rightarrow> string \<Rightarrow> 'f peer \<Rightarrow> bool" where
  "peer_ok digest i p \<longleftrightarrow> peer_identity p = address digest i \<and> length (mb_queue (peer_tx p)) \<le> 128
     \<and> (case peer_files p of None \<Rightarrow> True | Some m \<Rightarrow> length (mb_queue m) \<le> 128)"

definition fabric_ok :: "(string \<Rightarrow> bytes) \<Rightarrow> 'f fabric \<Rightarrow> bool" where
  "fabric_ok digest st \<longleftrightarrow> distinct (map fst (fab_peers st)) \<and> distinct (map fst (fab_rules st))
     \<and> (\<forall>(i, p) \<in> set (fab_peers st). peer_ok digest i p)
     \<and> distinct (map (\<lambda>(i, _). fst (address digest i)) (fab_peers st))
     \<and> (\<forall>(_, r) \<in> set (fab_rules st). rule_ok r)"

text \<open>
  The steps: every operation of the module, each peer's output task taking a frame, the
  file service taking one and answering, and a receiver being dropped.
\<close>

inductive fabric_step :: "(string \<Rightarrow> bytes) \<Rightarrow> 'f fabric \<Rightarrow> 'f fabric \<Rightarrow> bool"
  for digest :: "string \<Rightarrow> bytes" where
  step_attach: "attach digest generation i st = Ok st' \<Longrightarrow> fabric_step digest st st'"
| step_apply: "apply_rule now i s t direction permissions ports st = Ok (st', name)
    \<Longrightarrow> fabric_step digest st st'"
| step_remove: "fabric_step digest st (remove_rule i st)"
| step_enable: "fabric_step digest st (enable_files i files st)"
| step_receive: "receive now i generation packet st = Some st' \<Longrightarrow> fabric_step digest st st'"
| step_cleanup: "fabric_step digest st (fst (cleanup i generation st))"
| step_output: "fabric_step digest st
    (update_peer i (\<lambda>p. p\<lparr>peer_tx := (peer_tx p)\<lparr>mb_queue := tl (mb_queue (peer_tx p))\<rparr>\<rparr>) st)"
| step_serve: "fabric_step digest st
    (update_peer i (\<lambda>p. p\<lparr>peer_files := map_option (\<lambda>m. m\<lparr>mb_queue := tl (mb_queue m)\<rparr>) (peer_files p)\<rparr>) st)"
| step_service_reply: "fabric_step digest st (send_tx i packet st)"
| step_close: "fabric_step digest st
    (update_peer i (\<lambda>p. p\<lparr>peer_tx := (peer_tx p)\<lparr>mb_closed := True\<rparr>\<rparr>) st)"

lemma keys_update: "fst ` set (AList.update k v m) = insert k (fst ` set m)"
  by (induction m) auto

lemma map_fst_update: "map fst (AList.update k v m) = (if k \<in> fst ` set m then map fst m else map fst m @ [k])"
  by (induction m) auto

lemma update_peer_rules [simp]: "fab_rules (update_peer i f st) = fab_rules st"
  by (simp add: update_peer_def split: option.splits)

lemma send_rules [simp]:
  "fab_rules (send_tx i packet st) = fab_rules st" "fab_rules (send_files i packet st) = fab_rules st"
  by (simp_all add: send_tx_def send_files_def)

lemma fabric_ok_distinct_ip:
  "distinct (map (\<lambda>(i, _). fst (address digest i)) ps) =
     distinct (map (\<lambda>i. fst (address digest i)) (map fst ps))"
  by (simp add: case_prod_beta' comp_def)

lemma fabric_ok_update_peer:
  assumes "fabric_ok digest st" and "\<And>p. peer_ok digest i p \<Longrightarrow> peer_ok digest i (f p)"
  shows "fabric_ok digest (update_peer i f st)"
proof (cases "map_of (fab_peers st) i")
  case (Some p)
  then have m: "(i, p) \<in> set (fab_peers st)" "i \<in> fst ` set (fab_peers st)"
    by (auto dest: map_of_SomeD intro: rev_image_eqI)
  with assms have "peer_ok digest i (f p)" by (auto simp: fabric_ok_def)
  then have "\<forall>(j, q) \<in> set (AList.update i (f p) (fab_peers st)). peer_ok digest j q"
    using assms(1) set_update [of i "f p" "fab_peers st"] by (fastforce simp: fabric_ok_def)
  with assms(1) m Some show ?thesis
    by (simp add: fabric_ok_def update_peer_def fabric_ok_distinct_ip map_fst_update)
qed (simp add: update_peer_def assms)

lemma peer_ok_updates:
  "peer_ok digest i p \<Longrightarrow> peer_ok digest i (p\<lparr>peer_tx := try_send packet (peer_tx p)\<rparr>)"
  "peer_ok digest i p \<Longrightarrow> peer_ok digest i (p\<lparr>peer_files := map_option (try_send packet) (peer_files p)\<rparr>)"
  "peer_ok digest i p \<Longrightarrow> peer_ok digest i (p\<lparr>peer_tx := (peer_tx p)\<lparr>mb_closed := True\<rparr>\<rparr>)"
  "peer_ok digest i p \<Longrightarrow>
     peer_ok digest i (p\<lparr>peer_tx := (peer_tx p)\<lparr>mb_queue := tl (mb_queue (peer_tx p))\<rparr>\<rparr>)"
  "peer_ok digest i p \<Longrightarrow> peer_ok digest i
     (p\<lparr>peer_files := map_option (\<lambda>m. m\<lparr>mb_queue := tl (mb_queue m)\<rparr>) (peer_files p)\<rparr>)"
  by (auto simp: peer_ok_def try_send_def split: option.splits)

lemma fabric_ok_send:
  "fabric_ok digest st \<Longrightarrow> fabric_ok digest (send_tx i packet st)"
  "fabric_ok digest st \<Longrightarrow> fabric_ok digest (send_files i packet st)"
  by (auto simp: send_tx_def send_files_def intro!: fabric_ok_update_peer peer_ok_updates)

lemma fabric_ok_rules:
  assumes "fabric_ok digest st" and "distinct (map fst rules)" and "\<forall>(_, r) \<in> set rules. rule_ok r"
  shows "fabric_ok digest (st\<lparr>fab_rules := rules\<rparr>)"
  using assms by (simp add: fabric_ok_def)

lemma fabric_ok_attach:
  assumes "fabric_ok digest st" and "attach digest generation i st = Ok st'"
  shows "fabric_ok digest st'"
proof -
  let ?p = "\<lparr>peer_file_context = None, peer_files = None, peer_identity = address digest i,
         peer_generation = generation, peer_tx = new_mailbox\<rparr>"
  have st': "st' = st\<lparr>fab_peers := AList.update i ?p (fab_peers st)\<rparr>"
    and free: "\<And>j q. (j, q) \<in> set (fab_peers st) \<Longrightarrow> j \<noteq> i \<Longrightarrow> fst (address digest j) \<noteq> fst (address digest i)"
    using assms(2) by (auto simp: attach_def list_ex_iff split: if_splits)
  have "peer_ok digest i ?p" by (simp add: peer_ok_def new_mailbox_def)
  then have "\<forall>(j, q) \<in> set (AList.update i ?p (fab_peers st)). peer_ok digest j q"
    using assms(1) set_update [of i ?p "fab_peers st"] by (fastforce simp: fabric_ok_def)
  moreover have "distinct (map (\<lambda>i. fst (address digest i)) (map fst (AList.update i ?p (fab_peers st))))"
    using assms(1) free
    by (auto simp: fabric_ok_def fabric_ok_distinct_ip map_fst_update) (metis fst_conv image_eqI)
  ultimately show ?thesis
    using assms(1) unfolding st'
    by (simp add: fabric_ok_def fabric_ok_distinct_ip distinct_update)
qed

lemma fabric_ok_apply:
  assumes "fabric_ok digest st"
    and "apply_rule now i s t direction permissions ports st = Ok (st', name)"
  shows "fabric_ok digest st'"
proof -
  let ?r = "\<lparr>rule_last_sweep = now, rule_source = s, rule_target = t,
    rule_both = (direction = Bidirectional), rule_network = (Network \<in> set permissions),
    rule_ports = ports, rule_flows = []\<rparr>"
  have "st' = st \<or> st' = st\<lparr>fab_rules := AList.update i ?r (fab_rules st)\<rparr>"
    using assms(2) unfolding apply_rule_def Let_def by (auto split: if_splits)
  moreover have "rule_ok ?r" by (simp add: rule_ok_def)
  then have "\<forall>(j, r) \<in> set (AList.update i ?r (fab_rules st)). rule_ok r"
    using assms(1) set_update [of i ?r "fab_rules st"] by (fastforce simp: fabric_ok_def)
  ultimately show ?thesis using assms(1)
    by (auto simp: fabric_ok_def distinct_update)
qed

lemma set_delete: "set (AList.delete k m) \<subseteq> set m"
  by (auto simp: AList.delete_eq)

lemma distinct_map_delete: "distinct (map f m) \<Longrightarrow> distinct (map f (AList.delete k m))"
  by (simp add: AList.delete_eq distinct_map_filter)

lemma fabric_ok_cleanup:
  assumes "fabric_ok digest st"
  shows "fabric_ok digest (fst (cleanup i generation st))"
proof -
  have "fabric_ok digest (st\<lparr>fab_peers := AList.delete i (fab_peers st)\<rparr>)"
    using assms set_delete [of i "fab_peers st"]
    by (fastforce simp: fabric_ok_def distinct_map_delete)
  then show ?thesis
    using assms rule_ok_filter
    by (fastforce simp: cleanup_def Let_def fabric_ok_def comp_def case_prod_beta')
qed


section \<open>The ways a frame is routed\<close>

lemma find_peer: "List.find P ps = Some x \<Longrightarrow> x \<in> set ps \<and> P x"
  by (auto simp: find_Some_iff)

lemma route_cases:
  assumes "route now s packet st = Some st'"
  obtains (dropped) "st' = st"
  | (answered) p r where "map_of (fab_peers st) s = Some p"
      "dhcp packet (fst (peer_identity p)) (snd (peer_identity p)) = Some (Some r)" "st' = send_tx s r st"
  | (service) "st' = send_files s packet st"
  | (switched) p fr t q ok rules where "map_of (fab_peers st) s = Some p"
      "14 \<le> length packet" "subslice packet 6 12 = snd (peer_identity p)"
      "classify (fst (peer_identity p)) (snd (peer_identity p)) packet = Some (Some fr)"
      "(t, q) \<in> set (fab_peers st)" "fst (peer_identity q) = fr_target_ip fr" "s \<noteq> t"
      "admit_any now s t fr (fab_rules st) = (ok, rules)"
      "st' = (if ok then send_tx t packet (st\<lparr>fab_rules := rules\<rparr>) else st\<lparr>fab_rules := rules\<rparr>)"
proof (cases "map_of (fab_peers st) s")
  case None
  with assms that(1) show ?thesis by (simp add: route_def)
next
  case (Some p)
  obtain ip mac where id: "peer_identity p = (ip, mac)" by (cases "peer_identity p")
  show ?thesis
  proof (cases "length packet < 14 \<or> subslice packet 6 12 \<noteq> mac")
    case True
    with assms that(1) Some id show ?thesis by (auto simp: route_def)
  next
    case False
    with assms Some id obtain reply where reply: "dhcp packet ip mac = Some reply"
      and rest: "(case reply of Some r \<Rightarrow> Some (send_tx s r st)
        | None \<Rightarrow> do { frame \<leftarrow> classify ip mac packet;
             (case frame of None \<Rightarrow> Some st | Some fr \<Rightarrow> deliver now s packet fr st) }) = Some st'"
      by (auto simp: route_def bind_eq_Some_conv)
    show ?thesis
    proof (cases reply)
      case (Some r)
      with rest reply that(2) \<open>map_of (fab_peers st) s = Some p\<close> id show ?thesis by simp
    next
      case None
      with rest obtain frame where cl: "classify ip mac packet = Some frame"
        and d: "(case frame of None \<Rightarrow> Some st | Some fr \<Rightarrow> deliver now s packet fr st) = Some st'"
        by (auto simp: bind_eq_Some_conv)
      show ?thesis
      proof (cases frame)
        case None
        with d that(1) show ?thesis by simp
      next
        case (Some fr)
        with d have d: "deliver now s packet fr st = Some st'" by simp
        show ?thesis
        proof (cases "fr_target_ip fr = service_ip")
          case True
          with d that(1,3) show ?thesis
            by (auto simp: deliver_def bind_eq_Some_conv split: if_splits)
        next
          case nonservice: False
          show ?thesis
          proof (cases "List.find (\<lambda>(_, q). fst (peer_identity q) = fr_target_ip fr) (fab_peers st)")
            case None
            with d nonservice that(1) show ?thesis by (auto simp: deliver_def bind_eq_Some_conv)
          next
            case found: (Some x)
            obtain t q where x: "x = (t, q)" by (cases x)
            have tq: "(t, q) \<in> set (fab_peers st)" "fst (peer_identity q) = fr_target_ip fr"
              using find_peer [OF found] x by auto
            obtain ok rules where a: "admit_any now s t fr (fab_rules st) = (ok, rules)"
              by (cases "admit_any now s t fr (fab_rules st)")
            from d nonservice found x a
            have "st' = st \<or> s \<noteq> t \<and> st' = (if ok then send_tx t packet (st\<lparr>fab_rules := rules\<rparr>)
                else st\<lparr>fab_rules := rules\<rparr>)"
              by (auto simp: deliver_def bind_eq_Some_conv split: if_splits)
            then show ?thesis
            proof
              assume "st' = st" then show ?thesis by (rule that(1))
            next
              assume "s \<noteq> t \<and> st' = (if ok then send_tx t packet (st\<lparr>fab_rules := rules\<rparr>)
                else st\<lparr>fab_rules := rules\<rparr>)"
              with \<open>map_of (fab_peers st) s = Some p\<close> False cl Some tq a id show ?thesis
                by (intro that(4) [of p fr t q ok rules]) simp_all
            qed
          qed
        qed
      qed
    qed
  qed
qed

lemma fabric_ok_route:
  assumes "fabric_ok digest st" and "route now s packet st = Some st'"
  shows "fabric_ok digest st'"
  using assms(2)
proof (cases rule: route_cases)
  case (switched p fr t q ok rules)
  have "fabric_ok digest (st\<lparr>fab_rules := rules\<rparr>)"
    using assms(1) admit_any_sound [OF _ switched(8)]
    by (intro fabric_ok_rules) (auto simp: fabric_ok_def)
  with switched(9) show ?thesis by (simp add: fabric_ok_send)
qed (use assms(1) in \<open>simp_all add: fabric_ok_send\<close>)

lemma fabric_ok_step:
  assumes "fabric_ok digest st" and "fabric_step digest st st'"
  shows "fabric_ok digest st'"
  using assms(2,1)
proof (cases rule: fabric_step.cases)
  case (step_attach generation i)
  then show ?thesis using assms(1) fabric_ok_attach by blast
next
  case (step_apply now i s t direction permissions ports name)
  then show ?thesis using assms(1) fabric_ok_apply by blast
next
  case (step_remove i)
  then show ?thesis using assms(1) set_delete [of i "fab_rules st"]
    by (fastforce simp: remove_rule_def distinct_map_delete fabric_ok_def)
next
  case (step_enable i files)
  then show ?thesis using assms(1)
    by (auto simp: enable_files_def peer_ok_def new_mailbox_def intro!: fabric_ok_update_peer)
next
  case (step_receive now i generation packet)
  then show ?thesis using assms(1) fabric_ok_route by (auto simp: receive_def split: if_splits)
qed (use assms(1) in \<open>auto intro!: fabric_ok_update_peer fabric_ok_cleanup fabric_ok_send
      intro: peer_ok_updates\<close>)

lemma fabric_ok_empty: "fabric_ok digest empty_fabric"
  by (simp add: empty_fabric_def fabric_ok_def)

interpretation switch: safety "\<lambda>st. st = empty_fabric" "fabric_step digest" "fabric_ok digest" for digest
  by unfold_locales (simp_all add: fabric_ok_empty, rule fabric_ok_step)

abbreviation fabric_reachable :: "(string \<Rightarrow> bytes) \<Rightarrow> 'f fabric \<Rightarrow> bool" where
  "fabric_reachable digest \<equiv> reach (\<lambda>st. st = empty_fabric) (fabric_step digest)"

definition inbox :: "'f fabric \<Rightarrow> string \<Rightarrow> bytes list" where
  "inbox st i = (case map_of (fab_peers st) i of None \<Rightarrow> [] | Some p \<Rightarrow> mb_queue (peer_tx p))"

lemma inbox_rules [simp]: "inbox (st\<lparr>fab_rules := rules\<rparr>) i = inbox st i"
  by (simp add: inbox_def)

lemma inbox_send_files [simp]: "inbox (send_files j packet st) i = inbox st i"
  by (auto simp: inbox_def send_files_def update_peer_def update_conv split: option.splits)

lemma inbox_send_tx:
  "inbox (send_tx j packet st) i = (if i = j \<and> inbox (send_tx j packet st) i \<noteq> inbox st i
     then inbox st i @ [packet] else inbox st i)"
  by (auto simp: inbox_def send_tx_def update_peer_def update_conv try_send_def split: option.splits)

lemma inbox_send_tx_cases:
  "inbox (send_tx j packet st) i = inbox st i \<or>
   i = j \<and> inbox (send_tx j packet st) i = inbox st i @ [packet]"
  using inbox_send_tx [of j packet st i] by metis

lemma peer_identity_ok:
  assumes "fabric_ok digest st"
  shows "(i, p) \<in> set (fab_peers st) \<Longrightarrow> peer_identity p = address digest i"
    and "map_of (fab_peers st) i = Some p \<Longrightarrow> peer_identity p = address digest i"
  using assms by (auto simp: fabric_ok_def peer_ok_def dest: map_of_SomeD)

text \<open>Whatever enters another peer's queue was the frame itself, from its true sender, and a rule's
  policy allows it.\<close>

lemma route_delivery:
  assumes "fabric_ok digest st" and "route now s packet st = Some st'" and "s \<noteq> t"
    and "inbox st' t \<noteq> inbox st t"
  obtains fr i r where "inbox st' t = inbox st t @ [packet]"
    "subslice packet 6 12 = snd (address digest s)"
    "classify (fst (address digest s)) (snd (address digest s)) packet = Some (Some fr)"
    "fr_target_ip fr = fst (address digest t)"
    "(i, r) \<in> set (fab_rules st)" "policy_allows r s t fr"
  using assms(2)
proof (cases rule: route_cases)
  case (answered p r)
  then show ?thesis using assms(3,4) inbox_send_tx_cases [of s r st t] by auto
next
  case (switched p fr t' q ok rules)
  have id: "peer_identity p = address digest s" "peer_identity q = address digest t'"
    using peer_identity_ok [OF assms(1)] switched by auto
  have "ok" and t: "t' = t" and "inbox st' t = inbox st t @ [packet]"
    using switched(9) assms(4) inbox_send_tx_cases [of t' packet "st\<lparr>fab_rules := rules\<rparr>" t]
    by (auto split: if_splits)
  moreover obtain i r where "(i, r) \<in> set (fab_rules st)" "policy_allows r s t fr"
    using admit_any_sound [OF _ switched(8)] assms(1) \<open>ok\<close> t by (auto simp: fabric_ok_def)
  ultimately show ?thesis
    using that [of fr i r] switched(3,4,6) id t by simp
qed (use assms(4) in simp_all)

lemma route_total: "\<exists>st'. route now i packet st = Some st'"
proof (cases "map_of (fab_peers st) i")
  case (Some p)
  obtain ip mac where id: "peer_identity p = (ip, mac)" by (cases "peer_identity p")
  show ?thesis
  proof (cases "14 \<le> length packet")
    case long: True
    obtain reply where reply: "dhcp packet ip mac = Some reply"
      using dhcp_no_panic [OF long] by blast
    obtain frame where cl: "classify ip mac packet = Some frame"
      using classify_no_panic [OF long] by blast
    have "\<exists>st'. deliver now i packet fr st = Some st'" for fr
    proof (cases "List.find (\<lambda>(_, q). fst (peer_identity q) = fr_target_ip fr) (fab_peers st)")
      case None
      with long show ?thesis by (simp add: deliver_def reads_total)
    next
      case found: (Some x)
      obtain t q where x: "x = (t, q)" by (cases x)
      from find_peer [OF found] x obtain q' where "map_of (fab_peers st) t = Some q'"
        by (metis weak_map_of_SomeI)
      with long found x show ?thesis
        by (simp add: deliver_def reads_total Let_def split: prod.splits)
    qed
    with Some id reply cl show ?thesis by (auto simp: route_def split: option.splits)
  qed (use Some id in \<open>simp add: route_def\<close>)
qed (simp add: route_def)

section \<open>A network of two environments\<close>

text \<open>Environment a may open TCP port 80 of environment b.\<close>

definition example_digest :: "string \<Rightarrow> bytes" where
  "example_digest i = (if i = ''a'' then [0, 0, 0] else [0, 0, 1])"

definition example_connections :: "unit fabric" where
  "example_connections =
     (case attach example_digest ''g1'' ''a'' empty_fabric of Ok st1 \<Rightarrow>
       (case attach example_digest ''g2'' ''b'' st1 of Ok st2 \<Rightarrow>
         (case apply_rule 0 ''r'' ''a'' ''b'' OneWay [Ports] [80] st2 of Ok (st3, _) \<Rightarrow> st3 | Err _ \<Rightarrow> st2)
       | Err _ \<Rightarrow> st1)
     | Err _ \<Rightarrow> empty_fabric)"

definition example_syn :: "string \<Rightarrow> string \<Rightarrow> bytes" where
  "example_syn s t = snd (address example_digest t) @ snd (address example_digest s) @ [8, 0]
     @ [0x45, 0, 0, 40, 0, 0, 0, 0, 64, 6, 0, 0] @ fst (address example_digest s) @ fst (address example_digest t)
     @ [0, 99, 0, 80, 0, 0, 0, 0, 0, 0, 0, 0, 0x50, 2, 0, 0, 0, 0, 0, 0]"

lemma example_connections_reachable: "fabric_reachable example_digest example_connections"
proof -
  obtain st1 where 1: "attach example_digest ''g1'' ''a'' (empty_fabric :: unit fabric) = Ok st1"
    by (simp add: attach_def empty_fabric_def)
  have "list_ex (\<lambda>(other, _). other \<noteq> ''b'' \<and> fst (address example_digest other)
      = fst (address example_digest ''b'')) (fab_peers st1) = False"
    using 1 by (auto simp: attach_def empty_fabric_def address_def example_digest_def)
  then obtain st2 where 2: "attach example_digest ''g2'' ''b'' st1 = Ok st2"
    by (simp add: attach_def)
  have "connected ''a'' st2" "connected ''b'' st2"
    using 1 2 by (auto simp: attach_def empty_fabric_def connected_def new_mailbox_def split: if_splits)
  then obtain st3 n where 3: "apply_rule 0 ''r'' ''a'' ''b'' OneWay [Ports] [80] st2 = Ok (st3, n)"
    by (simp add: apply_rule_def Let_def)
  have "example_connections = st3" by (simp add: example_connections_def 1 2 3)
  moreover have "fabric_reachable example_digest st1"
    by (rule reach_move [OF reach_start]) (auto intro: step_attach [OF 1])
  then have "fabric_reachable example_digest st2" by (rule reach_move) (rule step_attach [OF 2])
  then have "fabric_reachable example_digest st3" by (rule reach_move) (rule step_apply [OF 3])
  ultimately show ?thesis by simp
qed

definition example_rule :: rule where
  "example_rule = \<lparr>rule_last_sweep = 0, rule_source = ''a'', rule_target = ''b'', rule_both = False,
     rule_network = False, rule_ports = [80], rule_flows = []\<rparr>"

definition example_peer :: "string \<Rightarrow> string \<Rightarrow> unit peer" where
  "example_peer generation i = \<lparr>peer_file_context = None, peer_files = None,
     peer_identity = address example_digest i, peer_generation = generation, peer_tx = new_mailbox\<rparr>"

lemma example_connections_eval:
  "example_connections = \<lparr>fab_peers = [(''a'', example_peer ''g1'' ''a''), (''b'', example_peer ''g2'' ''b'')],
     fab_rules = [(''r'', example_rule)]\<rparr>"
  by (simp add: example_connections_def attach_def apply_rule_def empty_fabric_def address_def
      example_digest_def connected_def new_mailbox_def example_peer_def example_rule_def Let_def)

lemma example_syn_ab:
  "route 5 ''a'' (example_syn ''a'' ''b'') example_connections
     = deliver 5 ''a'' (example_syn ''a'' ''b'') \<lparr>fr_target_ip = fst (address example_digest ''b''),
         fr_flow = Some (6, 99, 80), fr_new = True\<rparr> example_connections"
proof -
  have "dhcp (example_syn ''a'' ''b'') (fst (address example_digest ''a'')) (snd (address example_digest ''a'')) = Some None"
    by code_simp
  moreover have "classify (fst (address example_digest ''a'')) (snd (address example_digest ''a''))
      (example_syn ''a'' ''b'') = Some (Some \<lparr>fr_target_ip = fst (address example_digest ''b''),
        fr_flow = Some (6, 99, 80), fr_new = True\<rparr>)"
    by code_simp
  moreover have "14 \<le> length (example_syn s t)" "subslice (example_syn s t) 6 12 = snd (address example_digest s)" for s t
    by (simp_all add: example_syn_def address_def example_digest_def subslice_def)
  ultimately show ?thesis
    by (simp add: route_def example_connections_eval example_peer_def case_prod_beta' Let_def not_less [symmetric])
qed

lemma example_delivered:
  "map_option (\<lambda>st. inbox st ''b'') (route 5 ''a'' (example_syn ''a'' ''b'') example_connections)
     = Some [example_syn ''a'' ''b'']"
proof -
  have r: "be16 (example_syn ''a'' ''b'') 12 = Some 0x800"
    "get_range (example_syn ''a'' ''b'') 0 6 = Some (snd (address example_digest ''b''))" by code_simp+
  have ip: "fst (address example_digest ''b'') \<noteq> service_ip"
    "fst (address example_digest ''a'') \<noteq> fst (address example_digest ''b'')" by code_simp+
  show ?thesis
    unfolding example_syn_ab
    by (simp del: be16_Some get_range_Some add: deliver_def r ip example_connections_eval
        example_peer_def example_rule_def new_mailbox_def admit_def sweep_def secs_def live_def touch_def
        reverse_def inbox_def send_tx_def update_peer_def try_send_def)
qed

lemma example_empty: "inbox example_connections i = []"
  by (simp add: inbox_def example_connections_eval example_peer_def new_mailbox_def)

section \<open>Properties\<close>

text \<open>
  C2. Firewall soundness: in every reachable state, a frame that enters another
  environment's queue is unchanged, carries the sender's own hardware and protocol address,
  is addressed to the receiver, and some installed rule joins the two environments and
  allows the conversation, in one of its two orientations, by its network or port
  permission; a TCP connection request moreover goes in a direction the rule opens.
\<close>

theorem firewall_sound:
  assumes "fabric_reachable digest st" and "route now s packet st = Some st'" and "s \<noteq> t"
    and "inbox st' t \<noteq> inbox st t"
  shows "\<exists>fr i r. inbox st' t = inbox st t @ [packet]
    \<and> subslice packet 6 12 = snd (address digest s)
    \<and> classify (fst (address digest s)) (snd (address digest s)) packet = Some (Some fr)
    \<and> fr_target_ip fr = fst (address digest t)
    \<and> (i, r) \<in> set (fab_rules st) \<and> policy_allows r s t fr"
  using route_delivery [OF switch.inv_reach [OF assms(1)] assms(2,3,4)] by metis

text \<open>
  C4. Default deny: without a rule that joins two environments, no frame of the one ever
  reaches the other, whatever bytes it consists of.
\<close>

theorem unconnected_isolated:
  assumes "fabric_reachable digest st" and "route now s packet st = Some st'" and "s \<noteq> t"
    and "\<forall>(_, r) \<in> set (fab_rules st). \<not> joins r s t"
  shows "inbox st' t = inbox st t"
proof (rule ccontr)
  assume "inbox st' t \<noteq> inbox st t"
  from route_delivery [OF switch.inv_reach [OF assms(1)] assms(2,3) this]
  obtain i r where "(i, r) \<in> set (fab_rules st)" "joins r s t"
    by (metis policy_allows_def)
  with assms(4) show False by auto
qed

theorem unconnected_isolated_witness:
  "\<exists>st'. route 5 ''a'' (example_syn ''a'' ''b'') (remove_rule ''r'' example_connections) = Some st'
     \<and> inbox st' ''b'' = inbox (remove_rule ''r'' example_connections) ''b''"
proof -
  have "fabric_reachable example_digest (remove_rule ''r'' example_connections)"
    using example_connections_reachable by (rule reach_move) (rule step_remove)
  moreover obtain st' where "route 5 ''a'' (example_syn ''a'' ''b'') (remove_rule ''r'' example_connections) = Some st'"
    using route_total by blast
  moreover have "fab_rules (remove_rule ''r'' example_connections) = []"
    by (simp add: remove_rule_def example_connections_eval)
  ultimately show ?thesis using unconnected_isolated [of example_digest _ 5 "''a''" _ st' "''b''"] by simp
qed

theorem firewall_sound_witness:
  "\<exists>r. r \<in> snd ` set (fab_rules example_connections)
     \<and> policy_allows r ''a'' ''b'' \<lparr>fr_target_ip = fst (address example_digest ''b''),
         fr_flow = Some (6, 99, 80), fr_new = True\<rparr>"
proof -
  obtain st' where st': "route 5 ''a'' (example_syn ''a'' ''b'') example_connections = Some st'"
    "inbox st' ''b'' = [example_syn ''a'' ''b'']"
    using example_delivered by (cases "route 5 ''a'' (example_syn ''a'' ''b'') example_connections") auto
  then have "inbox st' ''b'' \<noteq> inbox example_connections ''b''" by (simp add: example_empty)
  moreover have "classify (fst (address example_digest ''a'')) (snd (address example_digest ''a''))
      (example_syn ''a'' ''b'') = Some (Some \<lparr>fr_target_ip = fst (address example_digest ''b''),
        fr_flow = Some (6, 99, 80), fr_new = True\<rparr>)"
    by code_simp
  ultimately show ?thesis
    using firewall_sound [OF example_connections_reachable st'(1), of "''b''"] by force
qed

text \<open>
  C6. A one-way connection stays one way: a TCP connection request is not delivered unless
  some rule opens connections in that very direction.
\<close>

theorem one_way_tcp:
  assumes "fabric_reachable digest st" and "route now s packet st = Some st'" and "s \<noteq> t"
    and "classify (fst (address digest s)) (snd (address digest s)) packet = Some (Some fr)"
    and "fr_flow fr = Some (6, sp, tp)" and "fr_new fr"
    and "\<forall>(_, r) \<in> set (fab_rules st). \<not> opens r s t"
  shows "inbox st' t = inbox st t"
proof (rule ccontr)
  assume "inbox st' t \<noteq> inbox st t"
  from route_delivery [OF switch.inv_reach [OF assms(1)] assms(2,3) this]
  obtain i r where "(i, r) \<in> set (fab_rules st)" "policy_allows r s t fr"
    by (metis assms(4) option.inject)
  with assms(5-7) show False by (auto simp: policy_allows_def)
qed

theorem one_way_tcp_witness:
  "\<exists>st'. route 5 ''b'' (example_syn ''b'' ''a'') example_connections = Some st'
     \<and> inbox st' ''a'' = inbox example_connections ''a''"
proof -
  obtain st' where st': "route 5 ''b'' (example_syn ''b'' ''a'') example_connections = Some st'"
    using route_total by blast
  moreover have "classify (fst (address example_digest ''b'')) (snd (address example_digest ''b''))
      (example_syn ''b'' ''a'') = Some (Some
        \<lparr>fr_target_ip = fst (address example_digest ''a''), fr_flow = Some (6, 99, 80), fr_new = True\<rparr>)"
    by code_simp
  moreover have "\<forall>(_, r) \<in> set (fab_rules example_connections). \<not> opens r ''b'' ''a''"
    by (simp add: example_connections_eval example_rule_def opens_def)
  ultimately show ?thesis using one_way_tcp [OF example_connections_reachable st', of "''a''"] by force
qed

text \<open>
  C11. The switch's invariant over every sequence of operations: addresses are unique, each
  peer has the identity of its identifier, the queues hold at most 128 frames, and every
  rule remembers at most 4096 conversations, each of which it could have opened itself.
\<close>

theorem fabric_invariant:
  assumes "fabric_reachable digest st"
  shows "distinct (map (\<lambda>(i, p). fst (peer_identity p)) (fab_peers st))
    \<and> (\<forall>(i, p) \<in> set (fab_peers st). peer_identity p = address digest i \<and> length (mb_queue (peer_tx p)) \<le> 128)
    \<and> (\<forall>(i, r) \<in> set (fab_rules st). length (rule_flows r) \<le> 4096
          \<and> (\<forall>(k, _) \<in> set (rule_flows r). may_open r k))"
proof -
  have ok: "fabric_ok digest st" using assms by (rule switch.inv_reach)
  then have "map (\<lambda>(i, p). fst (peer_identity p)) (fab_peers st)
      = map (\<lambda>(i, _). fst (address digest i)) (fab_peers st)"
    by (auto simp: fabric_ok_def peer_ok_def)
  then have "distinct (map (\<lambda>(i, p). fst (peer_identity p)) (fab_peers st))"
    using ok by (simp only: fabric_ok_def)
  with ok show ?thesis by (auto simp: fabric_ok_def peer_ok_def rule_ok_def)
qed

theorem fabric_invariant_witness:
  "distinct (map (\<lambda>(i, p). fst (peer_identity p)) (fab_peers example_connections))"
  using fabric_invariant [OF example_connections_reachable] by blast

text \<open>
  C14. No frame makes the switch panic: the reader's step returns on every byte sequence, in
  every state.
\<close>

theorem receive_total: "\<exists>st'. receive now i generation packet st = Some st'"
  using route_total by (auto simp: receive_def)

text \<open>
  Packets that arrive one after the other at the switch, each with its time, its sender and the peer it is for, and what
  the rules answer.
\<close>

type_synonym arrival = "nat \<times> string \<times> string \<times> frame"

fun admit_all :: "arrival list \<Rightarrow> (string \<times> rule) list \<Rightarrow> bool list" where
  "admit_all [] rules = []"
| "admit_all ((now, s, t, fr) # later) rules =
     (let (ok, rules') = admit_any now s t fr rules in ok # admit_all later rules')"

text \<open>A packet of a conversation, in either direction, that does not try to open a TCP connection.\<close>

definition carries :: "flow \<Rightarrow> arrival \<Rightarrow> bool" where
  "carries k = (\<lambda>(now, s, t, fr). case fr_flow fr of
     None \<Rightarrow> False
   | Some c \<Rightarrow> (flow_of s t c = k \<or> reverse (flow_of s t c) = k) \<and> \<not> (fst c = 6 \<and> fr_new fr))"

text \<open>Each packet of the conversation comes less than 300 seconds after the one before.\<close>

fun lively :: "flow \<Rightarrow> nat \<Rightarrow> arrival list \<Rightarrow> bool" where
  "lively k latest [] \<longleftrightarrow> True"
| "lively k latest (a # later) \<longleftrightarrow>
     (if carries k a then fst a - latest < secs 300 \<and> lively k (fst a) later else lively k latest later)"

definition held :: "flow \<Rightarrow> nat \<Rightarrow> nat \<Rightarrow> (string \<times> rule) list \<Rightarrow> bool" where
  "held k latest clock rules \<longleftrightarrow> latest \<le> clock \<and> (clock - latest < secs 300 \<longrightarrow>
     (\<exists>(i, r) \<in> set rules. joins r (flow_source k) (flow_target k)
        \<and> (\<exists>k' \<in> {k, reverse k}. \<exists>u. map_of (rule_flows r) k' = Some u \<and> latest \<le> u)))"

lemma joins_sym: "joins r s t = joins r t s"
  by (auto simp: joins_def)

lemma sweep_keeps:
  assumes "map_of (rule_flows r) k = Some u" "now - u < secs 300"
  shows "map_of (rule_flows (sweep now r)) k = Some u"
proof -
  have "map_of fs k = Some u \<Longrightarrow> map_of (filter (\<lambda>(_, t). now - t < secs 300) fs) k = Some u" for fs
    using assms(2) by (induction fs) auto
  then show ?thesis using assms(1) by (simp add: sweep_def)
qed

lemma admit_snd: "snd (admit now s t fr r) \<in> {r, sweep now r} \<union> range (\<lambda>k. touch now k (sweep now r))"
  by (cases "fr_flow fr") (auto simp: admit_conversation, auto simp: admit_def Let_def)

lemma admit_keeps:
  assumes "map_of (rule_flows r) k = Some u" "latest \<le> u" "latest \<le> now" "now - latest < secs 300"
  shows "\<exists>u. map_of (rule_flows (snd (admit now s t fr r))) k = Some u \<and> latest \<le> u"
proof -
  have "map_of (rule_flows (sweep now r)) k = Some u" by (rule sweep_keeps [OF assms(1)]) (use assms in linarith)
  then show ?thesis using admit_snd [of now s t fr r] assms by (auto simp: touch_def update_conv)
qed

lemma admit_joins: "joins (snd (admit now s t fr r)) = joins r"
  using admit_snd [of now s t fr r] same_policyD(1) [of r "sweep now r"] same_policyD(1) [of r "touch now _ (sweep now r)"] by fastforce

lemma admit_any_set:
  assumes "admit_any now s t fr rules = (ok, rules')" "(i, r) \<in> set rules"
  shows "(i, r) \<in> set rules' \<or> (i, snd (admit now s t fr r)) \<in> set rules'"
  using assms by (induction rules arbitrary: rules' ok) (auto simp: Let_def split: prod.splits if_splits)

lemma admit_any_ok:
  assumes "admit_any now s t fr rules = (ok, rules')"
  shows "(i, r) \<in> set rules \<Longrightarrow> fst (admit now s t fr r) \<Longrightarrow> ok"
    and "ok \<Longrightarrow> \<exists>i r. (i, r) \<in> set rules \<and> fst (admit now s t fr r) \<and> (i, snd (admit now s t fr r)) \<in> set rules'"
  using assms
proof (induction rules arbitrary: rules' ok)
  case (Cons x rules)
  obtain j q where x: "x = (j, q)" by (cases x)
  obtain y q' where a: "admit now s t fr q = (y, q')" by force
  obtain ok2 rules2 where b: "admit_any now s t fr rules = (ok2, rules2)" by force
  { case 1
    then show ?case using Cons.IH(1) [OF _ _ b] x a b by (auto split: if_splits) }
  { case 2
    then show ?case using Cons.IH(2) [OF _ b] x a b by (cases y) fastforce+ }
qed simp_all

lemma held_later:
  assumes "held k latest clock rules" "admit_any now s t fr rules = (ok, rules')" "clock \<le> now"
  shows "held k latest now rules'"
proof (cases "now - latest < secs 300")
  case True
  with assms(1,3) obtain i r k' u where r: "(i, r) \<in> set rules" "joins r (flow_source k) (flow_target k)"
    "k' \<in> {k, reverse k}" "map_of (rule_flows r) k' = Some u" "latest \<le> u" "latest \<le> now"
    unfolding held_def by (auto simp: less_diff_conv2)
  show ?thesis using admit_any_set [OF assms(2) r(1)]
  proof
    assume "(i, r) \<in> set rules'"
    with r show ?thesis unfolding held_def by blast
  next
    assume "(i, snd (admit now s t fr r)) \<in> set rules'"
    moreover obtain u' where "map_of (rule_flows (snd (admit now s t fr r))) k' = Some u'" "latest \<le> u'"
      using admit_keeps [OF r(4-6) True] by blast
    ultimately show ?thesis using r(2,3,6) unfolding held_def by (intro conjI impI bexI [of _ "(i, snd (admit now s t fr r))"]) (auto simp: admit_joins)
  qed
qed (use assms in \<open>auto simp: held_def\<close>)

lemma flow_of_ends: "flow_source (flow_of s t c) = s" "flow_target (flow_of s t c) = t"
  "flow_source (reverse (flow_of s t c)) = t" "flow_target (reverse (flow_of s t c)) = s"
  by (simp_all add: flow_of_def reverse_def)

lemma held_carried:
  assumes "held k latest clock rules" "admit_any now s t fr rules = (ok, rules')" "clock \<le> now"
    and "carries k (now, s, t, fr)" "now - latest < secs 300"
  shows "ok \<and> held k now now rules'"
proof -
  from assms(4) obtain c where c: "fr_flow fr = Some c" "flow_of s t c = k \<or> reverse (flow_of s t c) = k" "\<not> (fst c = 6 \<and> fr_new fr)"
    by (auto simp: carries_def split: option.splits)
  let ?f = "flow_of s t c"
  have k: "{k, reverse k} = {?f, reverse ?f}" using c(2) by auto
  have j: "joins r (flow_source k) (flow_target k) = joins r s t" for r
    using c(2) flow_of_ends [of s t c] joins_sym [of r s t] by auto
  from assms(1,3,5) have "clock - latest < secs 300" by linarith
  with assms(1) obtain i r k' u where r: "(i, r) \<in> set rules" "joins r s t"
    "k' \<in> {?f, reverse ?f}" "map_of (rule_flows r) k' = Some u" "latest \<le> u"
    unfolding held_def k j by auto
  have "live now (sweep now r) k'" using sweep_keeps [OF r(4), of now] assms(5) r(5) by (simp add: live_def)
  then have "fst (admit now s t fr r)" using r(2,3) c by (auto simp: admit_conversation)
  then have ok: ok using admit_any_ok(1) [OF assms(2) r(1)] by blast
  from admit_any_ok(2) [OF assms(2) ok] obtain i' r' where r': "fst (admit now s t fr r')" "(i', snd (admit now s t fr r')) \<in> set rules'"
    by blast
  from r'(1) have "joins r' s t" "\<exists>k' \<in> {?f, reverse ?f}. snd (admit now s t fr r') = touch now k' (sweep now r')"
    using c(1) by (auto simp: admit_conversation split: if_splits)
  then have "joins (snd (admit now s t fr r')) s t" "\<exists>k' \<in> {?f, reverse ?f}. map_of (rule_flows (snd (admit now s t fr r'))) k' = Some now"
    by (auto simp: admit_joins touch_def update_conv)
  then show ?thesis using ok r'(2) unfolding held_def k j by fastforce
qed

lemma lively_admitted:
  assumes "held k latest clock rules" "lively k latest as" "sorted (clock # map fst as)" "n < length as" "carries k (as ! n)"
  shows "admit_all as rules ! n"
  using assms
proof (induction as arbitrary: latest clock rules n)
  case (Cons a as)
  obtain now s t fr where a: "a = (now, s, t, fr)" by (cases a)
  obtain ok rules' where r: "admit_any now s t fr rules = (ok, rules')" by force
  have later: "sorted (now # map fst as)" "clock \<le> now" using Cons.prems(3) a by auto
  show ?case
  proof (cases "carries k a")
    case True
    with Cons.prems(2) a have l: "now - latest < secs 300" "lively k now as" by auto
    from held_carried [OF Cons.prems(1) r later(2) _ l(1)] True a have h: ok "held k now now rules'" by auto
    show ?thesis using Cons.IH [OF h(2) l(2) later(1)] Cons.prems(4,5) h(1) by (cases n) (simp_all add: a r)
  next
    case False
    with Cons.prems(2) have "lively k latest as" by simp
    from Cons.IH [OF held_later [OF Cons.prems(1) r later(2)] this later(1)] Cons.prems(4,5) False show ?thesis
      by (cases n) (simp_all add: a r)
  qed
qed simp

text \<open>
  C9. A permitted conversation works in both directions, whatever other traffic passes the switch: when a rule may open it
  and has room in its table of 4096 conversations, its first packet is admitted; and then every packet of it, TCP or UDP,
  from either side and also where the rule is one-way, is admitted that does not itself open a TCP connection and comes
  less than 300 seconds after the one before, with any other packets in between and under any further rules.
\<close>

theorem permitted_conversation:
  assumes "(i, r) \<in> set rules" and "may_open r (flow_of s t c)" and "length (rule_flows r) < 4096"
    and "fr_flow fr = Some c" and "fr_new fr" and "admit_any now s t fr rules = (ok, rules')"
    and "sorted (now # map fst later)" and "lively (flow_of s t c) now later"
  shows "ok \<and> (\<forall>n < length later. carries (flow_of s t c) (later ! n) \<longrightarrow> admit_all later rules' ! n)"
proof -
  let ?f = "flow_of s t c"
  have o: "opens r s t" "joins r s t" using assms(2) by (auto simp: may_open_def flow_of_def opens_def joins_def)
  have room: "length (rule_flows (sweep now r)) < 4096"
    using assms(3) by (auto simp: sweep_def intro: le_less_trans [OF length_filter_le])
  have "fst (admit now s t fr r)" using assms(2,5) o room by (simp add: admit_conversation [OF assms(4)])
  then have ok: ok using admit_any_ok(1) [OF assms(6,1)] by blast
  from admit_any_ok(2) [OF assms(6) ok] obtain i' r' where r': "fst (admit now s t fr r')" "(i', snd (admit now s t fr r')) \<in> set rules'"
    by blast
  from r'(1) have "joins r' s t" "\<exists>k' \<in> {?f, reverse ?f}. snd (admit now s t fr r') = touch now k' (sweep now r')"
    using assms(4) by (auto simp: admit_conversation split: if_splits)
  then have "joins (snd (admit now s t fr r')) s t" "\<exists>k' \<in> {?f, reverse ?f}. map_of (rule_flows (snd (admit now s t fr r'))) k' = Some now"
    by (auto simp: admit_joins touch_def update_conv)
  then have "held ?f now now rules'" using r'(2) unfolding held_def flow_of_ends by fastforce
  then show ?thesis using ok lively_admitted [OF _ assms(8,7)] by blast
qed

theorem permitted_conversation_witness:
  "admit_any 0 ''a'' ''b'' \<lparr>fr_target_ip = [], fr_flow = Some (6, 99, 80), fr_new = True\<rparr> [(''r'', example_rule)]
     = (True, snd (admit_any 0 ''a'' ''b'' \<lparr>fr_target_ip = [], fr_flow = Some (6, 99, 80), fr_new = True\<rparr> [(''r'', example_rule)]))
   \<and> admit_all [(secs 200, ''b'', ''a'', \<lparr>fr_target_ip = [], fr_flow = Some (6, 80, 99), fr_new = False\<rparr>),
       (secs 499, ''a'', ''b'', \<lparr>fr_target_ip = [], fr_flow = Some (6, 99, 80), fr_new = False\<rparr>)]
     (snd (admit_any 0 ''a'' ''b'' \<lparr>fr_target_ip = [], fr_flow = Some (6, 99, 80), fr_new = True\<rparr> [(''r'', example_rule)])) ! 1"
proof -
  let ?fr = "\<lparr>fr_target_ip = [], fr_flow = Some (6, 99, 80), fr_new = True\<rparr>"
  let ?later = "[(secs 200, ''b'', ''a'', \<lparr>fr_target_ip = [], fr_flow = Some (6, 80, 99), fr_new = False\<rparr>),
       (secs 499, ''a'', ''b'', \<lparr>fr_target_ip = [], fr_flow = Some (6, 99, 80), fr_new = False\<rparr>)]"
  obtain ok rules' where a: "admit_any 0 ''a'' ''b'' ?fr [(''r'', example_rule)] = (ok, rules')" by force
  have c: "carries (flow_of ''a'' ''b'' (6, 99, 80)) (?later ! 0)" "carries (flow_of ''a'' ''b'' (6, 99, 80)) (?later ! 1)"
    by (simp_all add: carries_def flow_of_def reverse_def)
  have "may_open example_rule (flow_of ''a'' ''b'' (6, 99, 80))" by code_simp
  moreover have "length (rule_flows example_rule) < 4096" by (simp add: example_rule_def)
  moreover have "lively (flow_of ''a'' ''b'' (6, 99, 80)) 0 ?later" using c by (simp add: secs_def)
  moreover have "sorted (0 # map fst ?later)" by (simp add: secs_def)
  ultimately have "ok \<and> (\<forall>n < length ?later. carries (flow_of ''a'' ''b'' (6, 99, 80)) (?later ! n) \<longrightarrow> admit_all ?later rules' ! n)"
    by (intro permitted_conversation [OF _ _ _ _ _ a]) simp_all
  then have "ok" "admit_all ?later rules' ! 1" using c(2) by auto
  then show ?thesis unfolding a by simp
qed

text \<open>
  A replaced task is harmless: when an environment has been attached again, a frame
  still read by the old task changes nothing and the old task's cleanup keeps the new peer
  and the file service.
\<close>

theorem stale_task_harmless:
  assumes "attach digest generation i st = Ok st'" and "old \<noteq> generation"
  shows "receive now i old packet st' = Some st' \<and> fab_peers (fst (cleanup i old st')) = fab_peers st'
    \<and> snd (cleanup i old st') = None"
proof -
  have "\<not> current_generation i old st'"
    using assms by (auto simp: attach_def current_generation_def update_conv split: if_splits)
  then show ?thesis by (simp add: receive_def cleanup_def)
qed

theorem stale_task_harmless_witness:
  "\<exists>st'. attach example_digest ''g3'' ''a'' example_connections = Ok st' \<and> receive 0 ''a'' ''g1'' [] st' = Some st'"
proof -
  have "is_ok (attach example_digest ''g3'' ''a'' example_connections)"
    by (simp add: attach_def example_connections_eval address_def example_digest_def)
  then obtain st' where "attach example_digest ''g3'' ''a'' example_connections = Ok st'"
    by (cases "attach example_digest ''g3'' ''a'' example_connections") auto
  with stale_task_harmless [OF this, of "''g1''" 0 "[]"] show ?thesis by simp
qed

text \<open>
  Reconciliation keeps live connections: installing a rule a second time, at any later
  time, with the same parameters changes nothing, so its conversation table survives.
\<close>

theorem apply_again_keeps_flows:
  assumes "apply_rule now i s t direction permissions ports st = Ok (st', name)"
  shows "apply_rule now' i s t direction permissions ports st' = Ok (st', name)"
proof -
  have c: "connected j (st\<lparr>fab_rules := rules\<rparr>) = connected j st" for j rules
    by (simp add: connected_def)
  show ?thesis
    using assms unfolding apply_rule_def Let_def
    by (auto simp: c update_conv split: if_splits option.splits)
qed

theorem apply_again_keeps_flows_witness:
  "\<exists>st' name. apply_rule 0 ''r'' ''a'' ''b'' OneWay [Ports] [81] example_connections = Ok (st', name)
     \<and> apply_rule 9 ''r'' ''a'' ''b'' OneWay [Ports] [81] st' = Ok (st', name)"
proof -
  have "is_ok (apply_rule 0 ''r'' ''a'' ''b'' OneWay [Ports] [81] example_connections)"
    by (simp add: apply_rule_def Let_def connected_def example_connections_eval example_peer_def new_mailbox_def)
  then obtain st' name where "apply_rule 0 ''r'' ''a'' ''b'' OneWay [Ports] [81] example_connections = Ok (st', name)"
    by (cases "apply_rule 0 ''r'' ''a'' ''b'' OneWay [Ports] [81] example_connections") auto
  with apply_again_keeps_flows [OF this, of 9] show ?thesis by blast
qed

end
