(* ===== verification/Scheduler.thy ===== *)
theory Scheduler
  imports Models "HOL-Library.Monad_Syntax"
begin

text \<open>
  The resource scheduler (\<open>src-tauri/src/scheduler.rs\<close>) and the validation of resource
  policies (\<open>src-tauri/src/commands.rs\<close>) in IEEE double arithmetic. \<open>f64::clamp\<close> panics
  when its bounds are not ordered; the outer \<open>option\<close> of the functions is that panic.
\<close>

section \<open>Policies\<close>

text \<open>The less-or-equal sign of a message, in UTF-8.\<close>

definition le_sign :: string where
  "le_sign = [char_of (226 :: nat), char_of (137 :: nat), char_of (164 :: nat)]"

definition validate_range :: "string \<Rightarrow> CreateResourceRange \<Rightarrow> (unit, string) result" where
  "validate_range label r =
     (if \<not> is_finite (crr_min r) \<or> \<not> is_finite (crr_preferred r) \<or> \<not> is_finite (crr_max r)
         \<or> f_le (crr_min r) (Fin 0)
      then Err (label @ '' values must be finite and greater than zero'')
      else if f_lt (crr_preferred r) (crr_min r) \<or> f_lt (crr_max r) (crr_preferred r)
      then Err (label @ '' values must satisfy minimum '' @ le_sign @ '' preferred '' @ le_sign @ '' maximum'')
      else Ok ())"

definition validate_policy :: "ResourcePolicy \<Rightarrow> (unit, string) result" where
  "validate_policy p =
     result_bind
       (validate_range ''CPU'' \<lparr>crr_min = rr_min (rp_cpu p), crr_preferred = rr_preferred (rp_cpu p),
          crr_max = rr_max (rp_cpu p)\<rparr>)
       (\<lambda>_. validate_range ''Memory'' \<lparr>crr_min = rr_min (rp_memory_gb p),
          crr_preferred = rr_preferred (rp_memory_gb p), crr_max = rr_max (rp_memory_gb p)\<rparr>)"

definition validate_container_policy_capacity :: "ResourcePolicy \<Rightarrow> HostMetrics \<Rightarrow> (unit, string) result" where
  "validate_container_policy_capacity p h =
     result_bind (validate_policy p) (\<lambda>_.
       if f_lt (f_of_nat (host_total_cpu h)) (rr_max (rp_cpu p)) \<or> f_lt (f_lit 255) (rr_max (rp_cpu p))
       then Err ''Container CPU maximum exceeds this computer's supported CPU count''
       else if f_lt (host_total_memory_gb h) (rr_max (rp_memory_gb p))
            \<or> f_lt (f_lit 1024) (rr_max (rp_memory_gb p))
       then Err ''Container memory maximum exceeds this computer's RAM''
       else Ok ())"

section \<open>Capacity and targets\<close>

definition APPLIANCE_OVERHEAD_GB :: f64 where
  "APPLIANCE_OVERHEAD_GB = f_lit (3 / 8)"

definition container_capacity :: "HostMetrics \<Rightarrow> f64 \<times> f64" where
  "container_capacity h =
     (let reserve = f_max (f_mul (host_total_memory_gb h) (f_lit (1 / 10))) (Fin 1)
      in (f_of_nat (min (host_total_cpu h) 255),
          f_div (f_floor (f_mul (f_max (f_sub (f_sub (host_total_memory_gb h) reserve)
            APPLIANCE_OVERHEAD_GB) (Fin 0)) (Fin 8))) (Fin 8)))"

definition is_container :: "Environment \<Rightarrow> bool" where
  "is_container e \<longleftrightarrow>
     (case env_provider e of Some p \<Rightarrow> provider_is_container p | None \<Rightarrow> env_kind e = Container)"

definition fixed_guest_resources :: "Environment \<Rightarrow> bool \<Rightarrow> bool" where
  "fixed_guest_resources e macos \<longleftrightarrow> macos \<and> env_kind e \<in> {FullVm, MicroVm}"

fun priority_weight :: "Priority \<Rightarrow> f64" where
  "priority_weight PrioLow = f_lit (7 / 10)"
| "priority_weight PrioNormal = f_lit 1"
| "priority_weight PrioHigh = f_lit (135 / 100)"
| "priority_weight PrioCritical = f_lit (18 / 10)"

fun allocate_target :: "ResourceRange \<Rightarrow> f64 \<Rightarrow> HostPressure \<Rightarrow> f64 option" where
  "allocate_target r weight PressureLow = Some (f_mul (rr_preferred r) (f_min weight (f_lit (125 / 100))))"
| "allocate_target r weight PressureModerate =
     map_option (f_mul (rr_preferred r))
       (f_clamp (f_mul (f_lit (85 / 100)) weight) (f_lit (8 / 10)) (f_lit (11 / 10)))"
| "allocate_target r weight PressureHigh =
     Some (f_add (rr_min r) (f_mul (f_mul (f_sub (rr_preferred r) (rr_min r)) (f_lit (1 / 4)))
       (f_min weight (Fin 1))))"

definition allocate :: "ResourceRange \<Rightarrow> f64 \<Rightarrow> HostPressure \<Rightarrow> f64 option" where
  "allocate r weight pr = do {
     target \<leftarrow> allocate_target r weight pr;
     f_clamp target (rr_min r) (rr_max r)
   }"

definition quantize_down :: "f64 \<Rightarrow> f64 \<Rightarrow> ResourceRange \<Rightarrow> f64 option" where
  "quantize_down v step r =
     f_clamp (f_div (f_round (f_mul (f_mul (f_floor (f_add (f_div v step) (f_lit (1 / 1000000000)))) step)
       (f_lit 1000000000))) (f_lit 1000000000)) (rr_min r) (rr_max r)"

section \<open>Updating an environment\<close>

abbreviation env_cpu :: "Environment \<Rightarrow> ResourceRange" where
  "env_cpu e \<equiv> rp_cpu (env_resource_policy e)"

abbreviation env_memory :: "Environment \<Rightarrow> ResourceRange" where
  "env_memory e \<equiv> rp_memory_gb (env_resource_policy e)"

definition set_cpu :: "f64 \<Rightarrow> Environment \<Rightarrow> Environment" where
  "set_cpu v e = e\<lparr>env_resource_policy := (env_resource_policy e)\<lparr>rp_cpu := (env_cpu e)\<lparr>rr_current := v\<rparr>\<rparr>\<rparr>"

definition set_memory :: "f64 \<Rightarrow> Environment \<Rightarrow> Environment" where
  "set_memory v e = e\<lparr>env_resource_policy := (env_resource_policy e)\<lparr>rp_memory_gb := (env_memory e)\<lparr>rr_current := v\<rparr>\<rparr>\<rparr>"

section \<open>The CUDA pool\<close>

datatype sched_error = CudaBudget f64 f64

definition cuda_running :: "Environment list \<Rightarrow> nat list" where
  "cuda_running es = filter (\<lambda>i. env_provider (es ! i) = Some OpenDockCuda \<and> env_status (es ! i) = Running)
     [0..<length es]"

definition cuda_floors :: "Environment list \<Rightarrow> f64 \<times> f64" where
  "cuda_floors es = foldl (\<lambda>(c, m) e.
     if env_provider e \<noteq> Some OpenDockCuda then (c, m)
     else if env_status e = Running then (f_add c (rr_min (env_cpu e)), f_add m (rr_min (env_memory e)))
     else if env_status e = Paused
     then (c, f_add m (f_max (rr_current (env_memory e)) (rr_preferred (env_memory e))))
     else (c, m)) (Fin 0, Fin 0) es"

text \<open>\<open>sort_by\<close> is stable; both schedulers sort by descending priority.\<close>

definition by_priority :: "Environment list \<Rightarrow> nat list \<Rightarrow> nat list" where
  "by_priority es = sort_key (\<lambda>i. - int (priority_rank (rp_priority (env_resource_policy (es ! i)))))"

fun cuda_assign :: "nat list \<Rightarrow> f64 \<Rightarrow> f64 \<Rightarrow> Environment list \<Rightarrow> Environment list option" where
  "cuda_assign [] cpu_left memory_left es = Some es"
| "cuda_assign (i # is) cpu_left memory_left es = do {
     let e = es ! i;
     let c = env_cpu e;
     let m = env_memory e;
     next_cpu \<leftarrow> quantize_down (f_add (rr_min c)
       (f_min cpu_left (f_max (f_sub (rr_current c) (rr_min c)) (Fin 0)))) (f_lit (1 / 20)) c;
     next_memory \<leftarrow> quantize_down (f_add (rr_min m)
       (f_min memory_left (f_max (f_sub (rr_current m) (rr_min m)) (Fin 0)))) (f_lit (1 / 8)) m;
     cuda_assign is (f_max (f_sub cpu_left (f_sub next_cpu (rr_min c))) (Fin 0))
       (f_max (f_sub memory_left (f_sub next_memory (rr_min m))) (Fin 0))
       (es[i := set_memory next_memory (set_cpu next_cpu e)])
   }"

definition limit_cuda_pool :: "PlatformState \<Rightarrow> f64 \<Rightarrow> f64 \<Rightarrow> (PlatformState, sched_error) result option" where
  "limit_cuda_pool st cpu memory =
     (let es = environments st;
          (cpu_floor, memory_floor) = cuda_floors es
      in if \<not> is_finite cpu \<or> \<not> is_finite memory
            \<or> f_lt (f_add cpu (f_lit (1 / 1000000000))) cpu_floor
            \<or> f_lt (f_add memory (f_lit (1 / 1000000000))) memory_floor
         then Some (Err (CudaBudget cpu memory))
         else do {
           es' \<leftarrow> cuda_assign (by_priority es (cuda_running es))
             (f_max (f_sub cpu cpu_floor) (Fin 0)) (f_max (f_sub memory memory_floor) (Fin 0)) es;
           Some (Ok (st\<lparr>environments := es'\<rparr>))
         })"

section \<open>The host scheduler\<close>

definition reset_env :: "bool \<Rightarrow> Environment \<Rightarrow> Environment" where
  "reset_env macos e0 =
     (let e = e0\<lparr>env_resource_policy := (env_resource_policy e0)\<lparr>rp_dynamic := True\<rparr>\<rparr> in
      if env_kind e = Cloud then set_memory (Fin 0) (set_cpu (Fin 0) e)
      else if env_status e = Paused then
        (let e = (if fixed_guest_resources e macos then e else set_cpu (Fin 0) e)
         in if f_le (rr_current (env_memory e)) (Fin 0) then set_memory (rr_preferred (env_memory e)) e else e)
      else if env_status e \<noteq> Running then set_memory (Fin 0) (set_cpu (Fin 0) e)
      else if fixed_guest_resources e macos then
        (let e = (if f_le (rr_current (env_cpu e)) (Fin 0)
                  then set_cpu (f_max (f_round (rr_preferred (env_cpu e))) (Fin 1)) e else e)
         in if f_le (rr_current (env_memory e)) (Fin 0) then set_memory (rr_preferred (env_memory e)) e else e)
      else
        (let e = set_cpu (rr_min (env_cpu e)) e
         in if env_kind e \<noteq> MicroVm then set_memory (rr_min (env_memory e)) e
            else if f_le (rr_current (env_memory e)) (Fin 0) then set_memory (rr_preferred (env_memory e)) e
            else e))"

record budget =
  cpu_remaining :: f64
  memory_remaining :: f64
  container_cpu_remaining :: f64
  container_memory_remaining :: f64

definition running_indices :: "Environment list \<Rightarrow> nat list" where
  "running_indices es = by_priority es
     (filter (\<lambda>i. env_status (es ! i) = Running \<and> env_kind (es ! i) \<noteq> Cloud) [0..<length es])"

definition holds_memory :: "Environment \<Rightarrow> bool" where
  "holds_memory e \<longleftrightarrow> env_status e \<in> {Running, Paused}"

fun pressure_factor :: "HostPressure \<Rightarrow> f64" where
  "pressure_factor PressureLow = f_lit (9 / 10)"
| "pressure_factor PressureModerate = f_lit (78 / 100)"
| "pressure_factor PressureHigh = f_lit (62 / 100)"

definition budgets :: "HostMetrics \<Rightarrow> nat list \<Rightarrow> Environment list \<Rightarrow> budget" where
  "budgets h is es =
     (let cpu_floor = f_sum (map (\<lambda>i. rr_current (env_cpu (es ! i))) is);
          memory_floor = f_sum (map (\<lambda>e. rr_current (env_memory e)) (filter holds_memory es));
          container_cpu_floor =
            f_sum (map (\<lambda>i. rr_current (env_cpu (es ! i))) (filter (\<lambda>i. is_container (es ! i)) is));
          container_memory_floor = f_sum (map (\<lambda>e. rr_current (env_memory e))
            (filter (\<lambda>e. is_container e \<and> holds_memory e) es));
          factor = pressure_factor (host_pressure h);
          (container_cpu_capacity, container_memory_capacity) = container_capacity h;
          other_memory_floor = f_sum (map (\<lambda>e. f_max (rr_current (env_memory e)) (rr_preferred (env_memory e)))
            (filter (\<lambda>e. env_kind e \<noteq> Cloud \<and> \<not> is_container e \<and> holds_memory e) es))
      in \<lparr>cpu_remaining =
            f_max (f_sub (f_max (f_mul (f_of_nat (host_total_cpu h)) factor) cpu_floor) cpu_floor) (Fin 0),
          memory_remaining =
            f_max (f_sub (f_max (f_mul (host_total_memory_gb h) factor) memory_floor) memory_floor) (Fin 0),
          container_cpu_remaining = f_max (f_sub container_cpu_capacity container_cpu_floor) (Fin 0),
          container_memory_remaining = f_max (f_sub (f_sub container_memory_capacity other_memory_floor)
            container_memory_floor) (Fin 0)\<rparr>)"

definition assign_env :: "bool \<Rightarrow> HostPressure \<Rightarrow> budget \<Rightarrow> Environment \<Rightarrow> (budget \<times> Environment) option" where
  "assign_env macos pr b e =
     (if fixed_guest_resources e macos then Some (b, e)
      else do {
        let weight = priority_weight (rp_priority (env_resource_policy e));
        cpu_target \<leftarrow> allocate (env_cpu e) weight pr;
        memory_target \<leftarrow> allocate (env_memory e) weight pr;
        let previous_cpu = rr_current (env_cpu e);
        let previous_memory = rr_current (env_memory e);
        let cpu_extra = f_min (cpu_remaining b) (f_max (f_sub cpu_target previous_cpu) (Fin 0));
        let memory_extra = (if env_kind e = MicroVm then Fin 0
          else f_min (memory_remaining b) (f_max (f_sub memory_target previous_memory) (Fin 0)));
        let cpu_extra = (if is_container e then f_min cpu_extra (container_cpu_remaining b) else cpu_extra);
        let memory_extra =
          (if is_container e then f_min memory_extra (container_memory_remaining b) else memory_extra);
        cpu \<leftarrow> quantize_down (f_add previous_cpu cpu_extra) (f_lit (1 / 20)) (env_cpu e);
        memory \<leftarrow> (if env_kind e \<noteq> MicroVm
          then quantize_down (f_add previous_memory memory_extra) (f_lit (1 / 8)) (env_memory e)
          else Some previous_memory);
        let assigned_cpu = f_max (f_sub cpu previous_cpu) (Fin 0);
        let assigned_memory = f_max (f_sub memory previous_memory) (Fin 0);
        Some (\<lparr>cpu_remaining = f_max (f_sub (cpu_remaining b) assigned_cpu) (Fin 0),
               memory_remaining = f_max (f_sub (memory_remaining b) assigned_memory) (Fin 0),
               container_cpu_remaining = (if is_container e
                 then f_max (f_sub (container_cpu_remaining b) assigned_cpu) (Fin 0)
                 else container_cpu_remaining b),
               container_memory_remaining = (if is_container e
                 then f_max (f_sub (container_memory_remaining b) assigned_memory) (Fin 0)
                 else container_memory_remaining b)\<rparr>,
              set_memory memory (set_cpu cpu e))
      })"

fun assign_all :: "bool \<Rightarrow> HostPressure \<Rightarrow> nat list \<Rightarrow> budget \<Rightarrow> Environment list \<Rightarrow> Environment list option" where
  "assign_all macos pr [] b es = Some es"
| "assign_all macos pr (i # is) b es = do {
     (b', e) \<leftarrow> assign_env macos pr b (es ! i);
     assign_all macos pr is b' (es[i := e])
   }"

definition schedule_for_host :: "PlatformState \<Rightarrow> bool \<Rightarrow> PlatformState option" where
  "schedule_for_host st macos = do {
     let is = running_indices (environments st);
     let es = map (reset_env macos) (environments st);
     es' \<leftarrow> assign_all macos (host_pressure (host st)) is (budgets (host st) is es) es;
     Some (st\<lparr>environments := es'\<rparr>)
   }"

definition pressure :: "f64 \<Rightarrow> f64 \<Rightarrow> HostPressure" where
  "pressure cpu_percent memory_percent =
     (if f_lt (f_lit 82) cpu_percent \<or> f_lt (f_lit 88) memory_percent then PressureHigh
      else if f_lt (f_lit 68) cpu_percent \<or> f_lt (f_lit 76) memory_percent then PressureModerate
      else PressureLow)"

definition update_metrics :: "PlatformState \<Rightarrow> HostMetrics \<Rightarrow> bool \<Rightarrow> PlatformState option" where
  "update_metrics st metrics macos = schedule_for_host (st\<lparr>host := metrics\<rparr>) macos"

section \<open>Valid ranges\<close>

definition valid_range :: "ResourceRange \<Rightarrow> bool" where
  "valid_range r \<longleftrightarrow> (\<exists>lo p hi. rr_min r = Fin lo \<and> rr_preferred r = Fin p \<and> rr_max r = Fin hi
     \<and> 0 < lo \<and> lo \<le> p \<and> p \<le> hi)"

definition in_range :: "ResourceRange \<Rightarrow> bool" where
  "in_range r \<longleftrightarrow> f_le (rr_min r) (rr_current r) \<and> f_le (rr_current r) (rr_max r)"

lemma is_finite_Fin: "is_finite a \<longleftrightarrow> (\<exists>x. a = Fin x)"
  by (cases a) auto

lemma validate_range_Ok:
  "validate_range label r = Ok () \<longleftrightarrow> (\<exists>lo p hi. crr_min r = Fin lo \<and> crr_preferred r = Fin p
     \<and> crr_max r = Fin hi \<and> 0 < lo \<and> lo \<le> p \<and> p \<le> hi)"
  by (auto simp: validate_range_def is_finite_Fin)

lemma validate_policy_Ok:
  "validate_policy p = Ok () \<longleftrightarrow> valid_range (rp_cpu p) \<and> valid_range (rp_memory_gb p)"
  by (simp add: validate_policy_def validate_range_Ok valid_range_def)

section \<open>Values that are not NaN\<close>

definition nonneg :: "f64 \<Rightarrow> bool" where
  "nonneg a \<longleftrightarrow> f_le (Fin 0) a"

lemma nonneg_max [simp]: "nonneg (f_max a (Fin 0))"
  by (cases a) (auto simp: nonneg_def f_max_def f_le_def)

lemma nonneg_min: "nonneg a \<Longrightarrow> nonneg b \<Longrightarrow> nonneg (f_min a b)"
  by (simp add: nonneg_def f_min_def)

lemma nonneg_0 [simp]: "nonneg (Fin 0)"
  by (simp add: nonneg_def)

lemma nonneg_not_NaN: "nonneg a \<Longrightarrow> a \<noteq> NaN"
  using f_le_not_NaN by (auto simp: nonneg_def)

lemma add_not_NaN: "a \<noteq> NaN \<Longrightarrow> f_add a (Fin x) \<noteq> NaN" "a \<noteq> NaN \<Longrightarrow> f_add (Fin x) a \<noteq> NaN"
  by (cases a; simp)+

lemma mul_not_NaN: "a \<noteq> NaN \<Longrightarrow> 0 < y \<Longrightarrow> f_mul a (Fin y) \<noteq> NaN"
  by (cases a) (auto simp: f_inf_def)

lemma div_not_NaN: "a \<noteq> NaN \<Longrightarrow> 0 < y \<Longrightarrow> f_div a (Fin y) \<noteq> NaN"
  by (cases a) (auto simp: f_inf_def)

lemma floor_round_not_NaN: "a \<noteq> NaN \<Longrightarrow> f_floor a \<noteq> NaN" "a \<noteq> NaN \<Longrightarrow> f_round a \<noteq> NaN"
  by (cases a; simp)+

lemma rnd_between:
  assumes "lo \<le> x" and "x \<le> hi" and "rnd lo = Fin lo" and "rnd hi = Fin hi"
  shows "\<exists>y. rnd x = Fin y \<and> lo \<le> y \<and> y \<le> hi"
  using rnd_mono [OF assms(1)] rnd_mono [OF assms(2)] assms(3,4)
  by (cases "rnd x") (auto simp: f_le_def)

lemma step_literals:
  obtains c m g e where "f_lit (1 / 20) = Fin c" "0 < c" "f_lit (1 / 8) = Fin m" "0 < m"
    "f_lit 1000000000 = Fin g" "0 < g" "f_lit (1 / 1000000000) = Fin e"
proof -
  obtain c where "rnd (1 / 20) = Fin c" "0 < c"
    using rnd_between [of "1 / 32" "5 / 100" 1] rnd_dyadic [of "1 / 32" 5 1] by auto
  moreover have "rnd (1 / 8) = Fin (1 / 8)" by (rule rnd_dyadic [of _ 3 1]) simp_all
  moreover have "rnd 1000000000 = Fin 1000000000" using rnd_numeral by simp
  moreover obtain e where "rnd (1 / 1000000000) = Fin e"
    using rnd_between [of 0 "1 / 1000000000" 1] by auto
  ultimately show thesis using that [of c "1 / 8" "1000000000" e] by simp
qed

section \<open>Allocation and rounding stay in the range\<close>

lemma quantize_down_in_range:
  assumes "valid_range r" and "v \<noteq> NaN" and "step = f_lit (1 / 20) \<or> step = f_lit (1 / 8)"
  shows "\<exists>y. quantize_down v step r = Some y \<and> f_le (rr_min r) y \<and> f_le y (rr_max r)"
proof -
  obtain c m g e where lits: "f_lit (1 / 20) = Fin c" "0 < c" "f_lit (1 / 8) = Fin m" "0 < m"
    "f_lit 1000000000 = Fin g" "0 < g" "f_lit (1 / 1000000000) = Fin e" by (rule step_literals)
  obtain s where s: "step = Fin s" "0 < s" using assms(3) lits by auto
  let ?w = "f_div (f_round (f_mul (f_mul (f_floor (f_add (f_div v step) (Fin e))) step) (Fin g))) (Fin g)"
  have "?w \<noteq> NaN"
    unfolding s using assms(2) s(2) lits(6)
    by (intro div_not_NaN floor_round_not_NaN mul_not_NaN add_not_NaN)
  moreover have "f_le (rr_min r) (rr_max r)" using assms(1) by (auto simp: valid_range_def)
  then obtain y where "f_clamp ?w (rr_min r) (rr_max r) = Some y" using f_clamp_Some_iff by blast
  ultimately show ?thesis
    using f_clamp_bounds [of ?w "rr_min r" "rr_max r" y] by (simp add: quantize_down_def lits)
qed

lemma allocate_total:
  assumes "valid_range r"
  shows "\<exists>y. allocate r w pr = Some y"
proof -
  have "f_le (f_lit (8 / 10)) (f_lit (11 / 10))" by (rule rnd_mono) simp
  then obtain z where "f_clamp (f_mul (f_lit (85 / 100)) w) (f_lit (8 / 10)) (f_lit (11 / 10)) = Some z"
    using f_clamp_Some_iff by blast
  then obtain t where "allocate_target r w pr = Some t" by (cases pr) auto
  moreover have "f_le (rr_min r) (rr_max r)" using assms by (auto simp: valid_range_def)
  ultimately show ?thesis using f_clamp_Some_iff by (auto simp: allocate_def)
qed

section \<open>One environment\<close>

text \<open>Everything of an environment but its current allocation and the dynamic flag.\<close>

definition fixed_part :: "Environment \<Rightarrow> Environment" where
  "fixed_part e = (let e = set_memory (Fin 0) (set_cpu (Fin 0) e)
     in e\<lparr>env_resource_policy := (env_resource_policy e)\<lparr>rp_dynamic := True\<rparr>\<rparr>)"

lemma set_current_simps [simp]:
  "rr_current (env_cpu (set_cpu v e)) = v" "env_memory (set_cpu v e) = env_memory e"
  "rr_current (env_memory (set_memory v e)) = v" "env_cpu (set_memory v e) = env_cpu e"
  "rr_min (env_cpu (set_cpu v e)) = rr_min (env_cpu e)" "rr_max (env_cpu (set_cpu v e)) = rr_max (env_cpu e)"
  "rr_min (env_memory (set_memory v e)) = rr_min (env_memory e)"
  "rr_max (env_memory (set_memory v e)) = rr_max (env_memory e)"
  "env_kind (set_cpu v e) = env_kind e" "env_kind (set_memory v e) = env_kind e"
  "env_status (set_cpu v e) = env_status e" "env_status (set_memory v e) = env_status e"
  "env_provider (set_cpu v e) = env_provider e" "env_provider (set_memory v e) = env_provider e"
  by (simp_all add: set_cpu_def set_memory_def)

lemma fixed_part_set [simp]:
  "fixed_part (set_cpu v e) = fixed_part e" "fixed_part (set_memory v e) = fixed_part e"
  "fixed_part (e\<lparr>env_resource_policy := (env_resource_policy e)\<lparr>rp_dynamic := d\<rparr>\<rparr>) = fixed_part e"
  by (simp_all add: fixed_part_def set_cpu_def set_memory_def)

lemma fixed_part_reset [simp]: "fixed_part (reset_env macos e) = fixed_part e"
  by (simp add: reset_env_def Let_def)

lemma fixed_partD:
  assumes "fixed_part e' = fixed_part e"
  shows "env_kind e' = env_kind e" "env_status e' = env_status e" "env_provider e' = env_provider e"
    "rr_min (env_cpu e') = rr_min (env_cpu e)" "rr_max (env_cpu e') = rr_max (env_cpu e)"
    "rr_preferred (env_cpu e') = rr_preferred (env_cpu e)"
    "rr_min (env_memory e') = rr_min (env_memory e)" "rr_max (env_memory e') = rr_max (env_memory e)"
    "rr_preferred (env_memory e') = rr_preferred (env_memory e)"
  using arg_cong [OF assms, of env_kind] arg_cong [OF assms, of env_status]
    arg_cong [OF assms, of env_provider] arg_cong [OF assms, of "\<lambda>e. rr_min (env_cpu e)"]
    arg_cong [OF assms, of "\<lambda>e. rr_max (env_cpu e)"] arg_cong [OF assms, of "\<lambda>e. rr_preferred (env_cpu e)"]
    arg_cong [OF assms, of "\<lambda>e. rr_min (env_memory e)"] arg_cong [OF assms, of "\<lambda>e. rr_max (env_memory e)"]
    arg_cong [OF assms, of "\<lambda>e. rr_preferred (env_memory e)"]
  by (simp_all add: fixed_part_def Let_def set_cpu_def set_memory_def)

lemma valid_fixed_part:
  "fixed_part e' = fixed_part e \<Longrightarrow> valid_range (env_cpu e') = valid_range (env_cpu e)"
  "fixed_part e' = fixed_part e \<Longrightarrow> valid_range (env_memory e') = valid_range (env_memory e)"
  using fixed_partD [of e' e] by (simp_all add: valid_range_def)

definition budget_ok :: "budget \<Rightarrow> bool" where
  "budget_ok b \<longleftrightarrow> nonneg (cpu_remaining b) \<and> nonneg (memory_remaining b)
     \<and> nonneg (container_cpu_remaining b) \<and> nonneg (container_memory_remaining b)"

lemma budget_ok_budgets: "budget_ok (budgets h is es)"
  by (simp add: budget_ok_def budgets_def Let_def case_prod_beta)

text \<open>An environment whose allocation starts at its minimum, as \<open>reset_env\<close> leaves it.\<close>

definition prepared :: "Environment \<Rightarrow> bool" where
  "prepared e \<longleftrightarrow> valid_range (env_cpu e) \<and> valid_range (env_memory e)
     \<and> rr_current (env_cpu e) = rr_min (env_cpu e)
     \<and> (env_kind e \<noteq> MicroVm \<longrightarrow> rr_current (env_memory e) = rr_min (env_memory e))"

definition assigned :: "Environment \<Rightarrow> Environment \<Rightarrow> bool" where
  "assigned e e' \<longleftrightarrow> fixed_part e' = fixed_part e \<and> in_range (env_cpu e')
     \<and> (if env_kind e = MicroVm then rr_current (env_memory e') = rr_current (env_memory e)
        else in_range (env_memory e'))"

lemma assign_env_fixed: "fixed_guest_resources e macos \<Longrightarrow> assign_env macos pr b e = Some (b, e)"
  by (simp add: assign_env_def)

lemma min_add_not_NaN: "valid_range r \<Longrightarrow> nonneg x \<Longrightarrow> f_add (rr_min r) x \<noteq> NaN"
  using add_not_NaN(2) [OF nonneg_not_NaN] by (auto simp: valid_range_def)

lemma assign_env_ok:
  assumes "budget_ok b" and "prepared e" and "\<not> fixed_guest_resources e macos"
  shows "\<exists>b' e'. assign_env macos pr b e = Some (b', e') \<and> budget_ok b' \<and> assigned e e'"
proof -
  let ?c = "env_cpu e" and ?m = "env_memory e"
  have v: "valid_range ?c" "valid_range ?m" "rr_current ?c = rr_min ?c"
    using assms(2) by (auto simp: prepared_def)
  obtain ct mt where t: "allocate ?c (priority_weight (rp_priority (env_resource_policy e))) pr = Some ct"
    "allocate ?m (priority_weight (rp_priority (env_resource_policy e))) pr = Some mt"
    using allocate_total v by blast
  have q: "\<exists>y. quantize_down (f_add (rr_min r) x) step r = Some y \<and> f_le (rr_min r) y \<and> f_le y (rr_max r)"
    if "valid_range r" "nonneg x" "step = f_lit (1 / 20) \<or> step = f_lit (1 / 8)" for r x step
    using quantize_down_in_range [OF that(1) min_add_not_NaN [OF that(1,2)] that(3)] .
  define cx where "cx = f_min (cpu_remaining b) (f_max (f_sub ct (rr_min ?c)) (Fin 0))"
  define mx where "mx = f_min (memory_remaining b) (f_max (f_sub mt (rr_min ?m)) (Fin 0))"
  have nn: "nonneg (if is_container e then f_min cx (container_cpu_remaining b) else cx)"
    "nonneg (if is_container e then f_min mx (container_memory_remaining b) else mx)"
    using assms(1) by (simp_all add: cx_def mx_def budget_ok_def nonneg_min)
  obtain c1 where c1: "quantize_down (f_add (rr_min ?c)
      (if is_container e then f_min cx (container_cpu_remaining b) else cx)) (f_lit (1 / 20)) ?c = Some c1"
    "f_le (rr_min ?c) c1" "f_le c1 (rr_max ?c)"
    using q [OF v(1) nn(1) disjI1 [OF refl]] by blast
  obtain m1 where m1: "quantize_down (f_add (rr_min ?m)
      (if is_container e then f_min mx (container_memory_remaining b) else mx)) (f_lit (1 / 8)) ?m = Some m1"
    "f_le (rr_min ?m) m1" "f_le m1 (rr_max ?m)"
    using q [OF v(2) nn(2) disjI2 [OF refl]] by blast
  show ?thesis
  proof (cases "env_kind e = MicroVm")
    case True
    then show ?thesis using assms t v c1
      by (cases "is_container e") (simp_all add: assign_env_def Let_def cx_def [symmetric] budget_ok_def assigned_def in_range_def)
  next
    case False
    then have "rr_current ?m = rr_min ?m" using assms(2) by (simp add: prepared_def)
    then show ?thesis using assms t v c1 m1 False
      by (cases "is_container e") (simp_all add: assign_env_def Let_def cx_def [symmetric] mx_def [symmetric] budget_ok_def
          assigned_def in_range_def)
  qed
qed


section \<open>All environments\<close>

lemma prepared_reset:
  assumes "valid_range (env_cpu e)" and "valid_range (env_memory e)" and "env_status e = Running"
    and "env_kind e \<noteq> Cloud" and "\<not> fixed_guest_resources e macos"
  shows "prepared (reset_env macos e)"
proof -
  have v: "valid_range (env_cpu (reset_env macos e))" "valid_range (env_memory (reset_env macos e))"
    using assms(1,2) valid_fixed_part [of "reset_env macos e" e] by simp_all
  with assms(3-5) show ?thesis
    by (auto simp: prepared_def reset_env_def Let_def fixed_guest_resources_def)
qed

lemma set_by_priority [simp]: "set (by_priority es is) = set is"
  by (simp add: by_priority_def)

lemma distinct_by_priority [simp]: "distinct (by_priority es is) = distinct is"
  by (simp add: by_priority_def)

lemma set_running_indices:
  "set (running_indices es) = {i. i < length es \<and> env_status (es ! i) = Running \<and> env_kind (es ! i) \<noteq> Cloud}"
  "distinct (running_indices es)"
  by (auto simp: running_indices_def)

lemma assign_all_ok:
  assumes "distinct is" and "budget_ok b" and "\<forall>i \<in> set is. i < length es"
    and "\<forall>i \<in> set is. prepared (es ! i) \<or> fixed_guest_resources (es ! i) macos"
  shows "\<exists>es'. assign_all macos pr is b es = Some es' \<and> length es' = length es
    \<and> (\<forall>i < length es. if i \<in> set is \<and> \<not> fixed_guest_resources (es ! i) macos
          then assigned (es ! i) (es' ! i) else es' ! i = es ! i)"
  using assms
proof (induction "is" arbitrary: b es)
  case (Cons i "is")
  have i: "i < length es" "i \<notin> set is" using Cons.prems by auto
  obtain b' e' where a: "assign_env macos pr b (es ! i) = Some (b', e')" "budget_ok b'"
    and e': "if fixed_guest_resources (es ! i) macos then e' = es ! i else assigned (es ! i) e'"
  proof (cases "fixed_guest_resources (es ! i) macos")
    case True
    then show ?thesis using that [of b "es ! i"] Cons.prems(2) by (simp add: assign_env_fixed)
  next
    case False
    then show ?thesis using assign_env_ok [OF Cons.prems(2) _ False] Cons.prems(4) that by auto
  qed
  have "\<exists>es'. assign_all macos pr is b' (es[i := e']) = Some es' \<and> length es' = length (es[i := e'])
    \<and> (\<forall>j < length (es[i := e']). if j \<in> set is \<and> \<not> fixed_guest_resources (es[i := e'] ! j) macos
          then assigned (es[i := e'] ! j) (es' ! j) else es' ! j = es[i := e'] ! j)"
  proof (rule Cons.IH)
    show "\<forall>j \<in> set is. prepared (es[i := e'] ! j) \<or> fixed_guest_resources (es[i := e'] ! j) macos"
      using Cons.prems i(2) by (metis list.set_intros(2) nth_list_update_neq)
  qed (use Cons.prems a in auto)
  then obtain es' where es': "assign_all macos pr is b' (es[i := e']) = Some es'" "length es' = length es"
    "\<And>j. j < length es \<Longrightarrow> if j \<in> set is \<and> \<not> fixed_guest_resources (es[i := e'] ! j) macos
          then assigned (es[i := e'] ! j) (es' ! j) else es' ! j = es[i := e'] ! j" by auto
  have "if j \<in> set (i # is) \<and> \<not> fixed_guest_resources (es ! j) macos
      then assigned (es ! j) (es' ! j) else es' ! j = es ! j" if "j < length es" for j
    using es'(3) [OF that] i e' by (cases "j = i") (auto split: if_splits)
  with es' a show ?case by (intro exI [of _ es']) simp
qed simp

lemma assign_all_frame:
  "assign_all macos pr is b es = Some es' \<Longrightarrow> map fixed_part es' = map fixed_part es"
proof (induction "is" arbitrary: b es)
  case (Cons i "is")
  then obtain b' e where a: "assign_env macos pr b (es ! i) = Some (b', e)"
    "assign_all macos pr is b' (es[i := e]) = Some es'" by (auto simp: bind_eq_Some_conv)
  have "fixed_part e = fixed_part (es ! i)"
    using a(1) by (auto simp: assign_env_def Let_def bind_eq_Some_conv split: if_splits)
  then have "map fixed_part (es[i := e]) = map fixed_part es"
    by (cases "i < length es") (simp_all add: map_update list_update_same_conv list_update_beyond)
  with Cons.IH [OF a(2)] show ?case by simp
qed simp

lemma schedule_per_environment:
  assumes "\<forall>e \<in> set (environments st). validate_policy (env_resource_policy e) = Ok ()"
  shows "\<exists>es'. schedule_for_host st macos = Some (st\<lparr>environments := es'\<rparr>)
    \<and> length es' = length (environments st)
    \<and> (\<forall>i < length es'. let e = environments st ! i; e0 = reset_env macos e in
         if env_status e = Running \<and> env_kind e \<noteq> Cloud \<and> \<not> fixed_guest_resources e macos
         then assigned e0 (es' ! i) else es' ! i = e0)"
proof -
  let ?es = "map (reset_env macos) (environments st)" and ?is = "running_indices (environments st)"
  have f: "fixed_guest_resources (reset_env macos e) macos = fixed_guest_resources e macos" for e
    using fixed_partD(1) [of "reset_env macos e" e] by (simp add: fixed_guest_resources_def)
  have "prepared (?es ! i) \<or> fixed_guest_resources (?es ! i) macos" if "i \<in> set ?is" for i
    using that assms prepared_reset [of "environments st ! i" macos]
    by (auto simp: set_running_indices validate_policy_Ok f)
  moreover have "\<forall>i \<in> set ?is. i < length ?es" by (auto simp: set_running_indices)
  ultimately obtain es' where es': "assign_all macos (host_pressure (host st)) ?is
      (budgets (host st) ?is ?es) ?es = Some es'" "length es' = length ?es"
    "\<forall>i < length ?es. if i \<in> set ?is \<and> \<not> fixed_guest_resources (?es ! i) macos
          then assigned (?es ! i) (es' ! i) else es' ! i = ?es ! i"
    using assign_all_ok [OF set_running_indices(2) budget_ok_budgets, of "environments st" ?es macos
        "host_pressure (host st)" "host st" ?is ?es] by blast
  then show ?thesis
    by (intro exI [of _ es']) (auto simp: schedule_for_host_def Let_def set_running_indices f)
qed


section \<open>The CUDA pool\<close>

lemma cuda_assign_ok:
  assumes "distinct is" and "\<forall>i \<in> set is. i < length es" and "nonneg cl" and "nonneg ml"
    and "\<forall>i \<in> set is. valid_range (env_cpu (es ! i)) \<and> valid_range (env_memory (es ! i))"
  shows "\<exists>es'. cuda_assign is cl ml es = Some es' \<and> length es' = length es
    \<and> (\<forall>j < length es. fixed_part (es' ! j) = fixed_part (es ! j)
       \<and> (if j \<in> set is then in_range (env_cpu (es' ! j)) \<and> in_range (env_memory (es' ! j))
          else es' ! j = es ! j))"
  using assms
proof (induction "is" arbitrary: cl ml es)
  case (Cons i "is")
  let ?e = "es ! i"
  have i: "i < length es" "i \<notin> set is" and v: "valid_range (env_cpu ?e)" "valid_range (env_memory ?e)"
    using Cons.prems by auto
  have nn: "nonneg (f_min cl (f_max x (Fin 0)))" "nonneg (f_min ml (f_max x (Fin 0)))" for x
    using Cons.prems(3,4) by (simp_all add: nonneg_min)
  obtain c where c: "quantize_down (f_add (rr_min (env_cpu ?e))
       (f_min cl (f_max (f_sub (rr_current (env_cpu ?e)) (rr_min (env_cpu ?e))) (Fin 0)))) (f_lit (1 / 20)) (env_cpu ?e) = Some c"
    "f_le (rr_min (env_cpu ?e)) c" "f_le c (rr_max (env_cpu ?e))"
    using quantize_down_in_range [OF v(1) min_add_not_NaN [OF v(1) nn(1)] disjI1 [OF refl]] by blast
  obtain m where m: "quantize_down (f_add (rr_min (env_memory ?e))
       (f_min ml (f_max (f_sub (rr_current (env_memory ?e)) (rr_min (env_memory ?e))) (Fin 0)))) (f_lit (1 / 8)) (env_memory ?e) = Some m"
    "f_le (rr_min (env_memory ?e)) m" "f_le m (rr_max (env_memory ?e))"
    using quantize_down_in_range [OF v(2) min_add_not_NaN [OF v(2) nn(2)] disjI2 [OF refl]] by blast
  let ?cl = "f_max (f_sub cl (f_sub c (rr_min (env_cpu ?e)))) (Fin 0)"
  let ?ml = "f_max (f_sub ml (f_sub m (rr_min (env_memory ?e)))) (Fin 0)"
  let ?e' = "set_memory m (set_cpu c ?e)"
  have "\<exists>es'. cuda_assign is ?cl ?ml (es[i := ?e']) = Some es' \<and> length es' = length (es[i := ?e'])
    \<and> (\<forall>j < length (es[i := ?e']). fixed_part (es' ! j) = fixed_part (es[i := ?e'] ! j)
       \<and> (if j \<in> set is then in_range (env_cpu (es' ! j)) \<and> in_range (env_memory (es' ! j))
          else es' ! j = es[i := ?e'] ! j))"
    by (rule Cons.IH) (use Cons.prems i(2) in \<open>auto simp: nth_list_update\<close>)
  then obtain es' where es': "cuda_assign is ?cl ?ml (es[i := ?e']) = Some es'" "length es' = length es"
    "\<And>j. j < length es \<Longrightarrow> fixed_part (es' ! j) = fixed_part (es[i := ?e'] ! j)
       \<and> (if j \<in> set is then in_range (env_cpu (es' ! j)) \<and> in_range (env_memory (es' ! j))
          else es' ! j = es[i := ?e'] ! j)" by auto
  have "fixed_part (es' ! j) = fixed_part (es ! j)
       \<and> (if j \<in> set (i # is) then in_range (env_cpu (es' ! j)) \<and> in_range (env_memory (es' ! j))
          else es' ! j = es ! j)" if "j < length es" for j
    using es'(3) [OF that] i c m by (cases "j = i") (auto simp: in_range_def split: if_splits)
  with es' c(1) m(1) show ?case by (intro exI [of _ es']) (simp add: Let_def)
qed simp

section \<open>Properties\<close>

lemma example_valid:
  "\<forall>e \<in> set (environments (example_state v [example_env i k s])). validate_policy (env_resource_policy e) = Ok ()"
  by (simp add: example_defs validate_policy_Ok valid_range_def)

text \<open>
  C21. With policies that passed validation the scheduler never panics, on any host, and
  every running local environment that is not fixed to its boot resources ends with
  minimum \<le> current \<le> maximum for CPU and, unless it is a microVM, for memory.
\<close>

theorem schedule_in_range:
  assumes "\<forall>e \<in> set (environments st). validate_policy (env_resource_policy e) = Ok ()"
  shows "\<exists>st'. schedule_for_host st macos = Some st' \<and> length (environments st') = length (environments st)
    \<and> (\<forall>i < length (environments st). let e = environments st ! i; e' = environments st' ! i in
        env_status e = Running \<and> env_kind e \<noteq> Cloud \<and> \<not> fixed_guest_resources e macos \<longrightarrow>
        in_range (env_cpu e') \<and> (env_kind e \<noteq> MicroVm \<longrightarrow> in_range (env_memory e')))"
proof -
  obtain es' where es': "schedule_for_host st macos = Some (st\<lparr>environments := es'\<rparr>)"
    "length es' = length (environments st)"
    "\<forall>i < length es'. let e = environments st ! i; e0 = reset_env macos e in
         if env_status e = Running \<and> env_kind e \<noteq> Cloud \<and> \<not> fixed_guest_resources e macos
         then assigned e0 (es' ! i) else es' ! i = e0"
    using schedule_per_environment [OF assms] by blast
  moreover have "env_kind (reset_env macos e) = env_kind e" for e
    using fixed_partD(1) [of "reset_env macos e" e] by simp
  ultimately show ?thesis by (auto simp: Let_def assigned_def)
qed

theorem schedule_in_range_witness:
  "\<exists>st'. schedule_for_host (example_state 9 [example_env ''e'' Container Running]) False = Some st'
     \<and> in_range (env_cpu (environments st' ! 0)) \<and> in_range (env_memory (environments st' ! 0))"
proof -
  from schedule_in_range [OF example_valid, of 9 "''e''" Container Running False] show ?thesis
    by (auto simp: example_defs Let_def fixed_guest_resources_def)
qed

lemma schedule_keeps:
  assumes "schedule_for_host st macos = Some st'"
  shows "st' = st\<lparr>environments := environments st'\<rparr>
    \<and> map fixed_part (environments st') = map fixed_part (environments st)"
  using assms assign_all_frame
  by (auto simp: schedule_for_host_def Let_def bind_eq_Some_conv comp_def)

text \<open>
  The scheduler writes nothing but current allocations and the dynamic flag: policies,
  statuses, identifiers and everything outside the environments stay as they were.
\<close>

theorem schedule_frame:
  assumes "schedule_for_host st macos = Some st'"
  shows "st' = st\<lparr>environments := environments st'\<rparr>
    \<and> map fixed_part (environments st') = map fixed_part (environments st)"
  using assms by (rule schedule_keeps)

theorem schedule_frame_witness:
  "\<exists>st'. schedule_for_host (example_state 9 [example_env ''e'' Container Stopped]) False = Some st'
     \<and> map fixed_part (environments st') = [fixed_part (example_env ''e'' Container Stopped)]"
proof -
  obtain st' where "schedule_for_host (example_state 9 [example_env ''e'' Container Stopped]) False = Some st'"
    by (simp add: schedule_for_host_def running_indices_def by_priority_def example_defs)
  with schedule_frame [OF this] show ?thesis by (simp add: example_defs)
qed

text \<open>
  Environments that do not run locally hold nothing, and boot allocations survive: a
  cloud environment, or one that is neither running nor paused, ends with zero CPU and
  memory; a running or paused local microVM, or any virtual machine where guests cannot be
  resized, keeps its positive boot memory; a paused environment frees its CPU elsewhere.
\<close>

theorem schedule_idle_and_boot:
  assumes "\<forall>e \<in> set (environments st). validate_policy (env_resource_policy e) = Ok ()"
    and "schedule_for_host st macos = Some st'" and "i < length (environments st)"
    and "e = environments st ! i" and "e' = environments st' ! i"
  shows "(env_kind e = Cloud \<or> env_status e \<notin> {Running, Paused} \<longrightarrow>
      rr_current (env_cpu e') = Fin 0 \<and> rr_current (env_memory e') = Fin 0)
    \<and> (env_kind e \<noteq> Cloud \<and> env_status e \<in> {Running, Paused} \<and> f_lt (Fin 0) (rr_current (env_memory e))
        \<and> (env_kind e = MicroVm \<or> fixed_guest_resources e macos \<or> env_status e = Paused) \<longrightarrow>
      rr_current (env_memory e') = rr_current (env_memory e))
    \<and> (env_kind e \<noteq> Cloud \<and> env_status e = Paused \<and> \<not> fixed_guest_resources e macos \<longrightarrow>
      rr_current (env_cpu e') = Fin 0)"
proof -
  have p: "if env_status e = Running \<and> env_kind e \<noteq> Cloud \<and> \<not> fixed_guest_resources e macos
         then assigned (reset_env macos e) e' else e' = reset_env macos e"
    using schedule_per_environment [OF assms(1), of macos] assms(2-5) by (auto simp: Let_def)
  have k: "env_kind (reset_env macos e) = env_kind e"
    using fixed_partD(1) [of "reset_env macos e" e] by simp
  have f: "fixed_guest_resources (set_cpu v e) macos = fixed_guest_resources e macos"
    "fixed_guest_resources (e\<lparr>env_resource_policy := q\<rparr>) macos = fixed_guest_resources e macos" for v q e
    by (simp_all add: fixed_guest_resources_def)
  have 1: "rr_current (env_cpu e') = Fin 0 \<and> rr_current (env_memory e') = Fin 0"
    if "env_kind e = Cloud \<or> env_status e \<notin> {Running, Paused}"
  proof -
    have "e' = reset_env macos e" using p that by (auto split: if_splits)
    then show ?thesis using that by (auto simp: reset_env_def Let_def)
  qed
  have 2: "rr_current (env_memory (reset_env macos e)) = rr_current (env_memory e)"
    if "env_kind e \<noteq> Cloud" "env_status e \<in> {Running, Paused}" "f_lt (Fin 0) (rr_current (env_memory e))"
      "env_kind e = MicroVm \<or> fixed_guest_resources e macos \<or> env_status e = Paused"
    using that f_lt_not_le [OF that(3)] by (auto simp: reset_env_def Let_def f)
  have 3: "rr_current (env_cpu e') = Fin 0"
    if "env_kind e \<noteq> Cloud" "env_status e = Paused" "\<not> fixed_guest_resources e macos"
  proof -
    have "e' = reset_env macos e" using p that by (auto split: if_splits)
    then show ?thesis using that by (auto simp: reset_env_def Let_def f)
  qed
  have 4: "rr_current (env_memory e') = rr_current (env_memory (reset_env macos e))"
    if "env_kind e = MicroVm \<or> fixed_guest_resources e macos \<or> env_status e = Paused"
    using p k that by (auto simp: assigned_def split: if_splits)
  show ?thesis using 1 2 3 4 by auto
qed

theorem schedule_idle_and_boot_witness:
  "\<exists>st'. schedule_for_host (example_state 9 [example_env ''e'' Container Stopped]) False = Some st'
     \<and> rr_current (env_cpu (environments st' ! 0)) = Fin 0"
proof -
  obtain st' where s: "schedule_for_host (example_state 9 [example_env ''e'' Container Stopped]) False = Some st'"
    by (simp add: schedule_for_host_def running_indices_def by_priority_def example_defs)
  have "0 < length (environments (example_state 9 [example_env ''e'' Container Stopped]))"
    by (simp add: example_state_def)
  from schedule_idle_and_boot [OF example_valid s this refl refl]
  have "rr_current (env_cpu (environments st' ! 0)) = Fin 0" by (simp add: example_defs)
  with s show ?thesis by blast
qed

text \<open>
  Limiting the CUDA pool never panics on valid policies; it either refuses, exactly when
  the budget is not a finite number or the reserved floors exceed it, or returns a state in
  which only CUDA environments that run have a new allocation, within their own range.
\<close>

theorem limit_cuda_pool_ok:
  assumes "\<forall>e \<in> set (environments st). validate_policy (env_resource_policy e) = Ok ()"
  shows "\<exists>r. limit_cuda_pool st cpu memory = Some r \<and> (case r of
      Err e \<Rightarrow> \<not> is_finite cpu \<or> \<not> is_finite memory
        \<or> f_lt (f_add cpu (f_lit (1 / 1000000000))) (fst (cuda_floors (environments st)))
        \<or> f_lt (f_add memory (f_lit (1 / 1000000000))) (snd (cuda_floors (environments st)))
    | Ok st' \<Rightarrow> st' = st\<lparr>environments := environments st'\<rparr>
        \<and> map fixed_part (environments st') = map fixed_part (environments st)
        \<and> (\<forall>i < length (environments st). let e = environments st ! i; e' = environments st' ! i in
            if env_provider e = Some OpenDockCuda \<and> env_status e = Running
            then in_range (env_cpu e') \<and> in_range (env_memory e') else e' = e))"
proof -
  let ?es = "environments st"
  obtain cf mf where fl: "cuda_floors ?es = (cf, mf)" by (cases "cuda_floors ?es")
  let ?is = "by_priority ?es (cuda_running ?es)"
  have run: "set ?is = {i. i < length ?es \<and> env_provider (?es ! i) = Some OpenDockCuda \<and> env_status (?es ! i) = Running}"
    "distinct ?is" by (auto simp: cuda_running_def)
  obtain es' where es': "cuda_assign ?is (f_max (f_sub cpu cf) (Fin 0)) (f_max (f_sub memory mf) (Fin 0)) ?es = Some es'"
    "length es' = length ?es"
    "\<forall>j < length ?es. fixed_part (es' ! j) = fixed_part (?es ! j)
       \<and> (if j \<in> set ?is then in_range (env_cpu (es' ! j)) \<and> in_range (env_memory (es' ! j)) else es' ! j = ?es ! j)"
    using cuda_assign_ok [OF run(2), of ?es "f_max (f_sub cpu cf) (Fin 0)" "f_max (f_sub memory mf) (Fin 0)"] assms run(1)
    by (auto simp: validate_policy_Ok)
  then have "map fixed_part es' = map fixed_part ?es" by (auto intro: nth_equalityI)
  with es' run(1) show ?thesis by (auto simp: limit_cuda_pool_def fl Let_def)
qed

theorem limit_cuda_pool_ok_witness:
  "\<exists>r. limit_cuda_pool (example_state 9 [example_env ''e'' Container Running]) (Fin 4) (Fin 8) = Some r"
  using limit_cuda_pool_ok [OF example_valid] by blast

end
