(* ===== verification/Json_Value.thy ===== *)
theory Json_Value
  imports Rust_Text
begin

text \<open>
  The JSON values of \<open>serde_json\<close> as data. An object is a \<open>Map\<close> ordered by key (the
  crate's default, a \<open>BTreeMap\<close>), here the sorted association list of the prelude. A number
  is a non-negative or negative integer or a finite double. Parsing and printing belong to
  the crate and are parameters where the program uses them.
\<close>

datatype number = PosInt u64 | NegInt int | Float f64

datatype json =
    JNull
  | JBool bool
  | JNum number
  | JStr string
  | JArr "json list"
  | JObj "(string \<times> json) list"

type_synonym json_map = "(string \<times> json) list"

definition json_obj :: "(string \<times> json) list \<Rightarrow> json" where
  "json_obj kvs = JObj (fold (\<lambda>(k, v). map_insert k v) kvs [])"

definition json_int :: "u64 \<Rightarrow> json" where
  "json_int n = JNum (PosInt n)"

text \<open>\<open>Value::from(f64)\<close>, which is null for a value that is not finite.\<close>

definition json_f64 :: "f64 \<Rightarrow> json" where
  "json_f64 x = (if is_finite x then JNum (Float x) else JNull)"

fun as_object :: "json \<Rightarrow> json_map option" where
  "as_object (JObj m) = Some m"
| "as_object _ = None"

fun as_array :: "json \<Rightarrow> json list option" where
  "as_array (JArr xs) = Some xs"
| "as_array _ = None"

fun as_str :: "json \<Rightarrow> string option" where
  "as_str (JStr s) = Some s"
| "as_str _ = None"

fun as_bool :: "json \<Rightarrow> bool option" where
  "as_bool (JBool b) = Some b"
| "as_bool _ = None"

fun as_u64 :: "json \<Rightarrow> u64 option" where
  "as_u64 (JNum (PosInt n)) = Some n"
| "as_u64 _ = None"

fun as_f64 :: "json \<Rightarrow> f64 option" where
  "as_f64 (JNum (PosInt n)) = Some (f_of_nat (unat n))"
| "as_f64 (JNum (NegInt i)) = Some (rnd (of_int i))"
| "as_f64 (JNum (Float x)) = Some x"
| "as_f64 _ = None"

text \<open>Indexing with a string: the entry of an object, null otherwise.\<close>

definition json_get :: "json \<Rightarrow> string \<Rightarrow> json" where
  "json_get v k =
     (case v of JObj m \<Rightarrow> (case map_of m k of None \<Rightarrow> JNull | Some w \<Rightarrow> w) | _ \<Rightarrow> JNull)"

text \<open>Assigning to an index: null becomes an object, another value panics (\<open>None\<close>).\<close>

definition json_set :: "string \<Rightarrow> json \<Rightarrow> json \<Rightarrow> json option" where
  "json_set k w v =
     (case v of JObj m \<Rightarrow> Some (JObj (map_insert k w m)) | JNull \<Rightarrow> Some (JObj [(k, w)]) | _ \<Rightarrow> None)"

lemma json_get_obj [simp]: "json_get (JObj m) k = (case map_of m k of None \<Rightarrow> JNull | Some w \<Rightarrow> w)"
  by (simp add: json_get_def)

lemma as_object_Some [simp]: "(as_object v = Some m) = (v = JObj m)"
  by (cases v) auto

lemma as_str_Some [simp]: "(as_str v = Some s) = (v = JStr s)"
  by (cases v) auto

lemma as_array_Some [simp]: "(as_array v = Some xs) = (v = JArr xs)"
  by (cases v) auto

lemma as_bool_Some [simp]: "(as_bool v = Some b) = (v = JBool b)"
  by (cases v) auto

lemma as_u64_Some [simp]: "(as_u64 v = Some n) = (v = JNum (PosInt n))"
  by (cases v rule: as_u64.cases) auto

lemma json_get_set: "json_set k w v = Some v' \<Longrightarrow> json_get v' k' = (if k' = k then w else json_get v k')"
  by (cases v) (auto simp: json_set_def json_get_def btree.lookup_insert)

section \<open>Finite numbers\<close>

lemma rnd_u64_finite:
  assumes "n < 2 ^ 64"
  shows "is_finite (rnd (of_nat n))"
proof (cases "n = 0")
  case False
  let ?x = "of_nat n :: rat" and ?e = "max (ilog2 (of_nat n)) (- 1022)"
  have x: "0 < ?x" "?x < 2 powi 64" using False assms of_nat_less_iff [of n "2 ^ 64", where 'a = rat]
    by simp_all
  from ilog2_bounds [OF x(1)] have b: "2 powi ilog2 ?x \<le> ?x" "?x < 2 powi (ilog2 ?x + 1)" by auto
  then have "2 powi ilog2 ?x < (2 powi 64 :: rat)" using x(2) by (rule_tac le_less_trans)
  then have e: "?e + 1 \<le> 64" by (simp only: powi_less_iff)
  have "2 powi (ilog2 ?x + 1) \<le> (2 powi (?e + 1) :: rat)" by (intro power_int_increasing) simp_all
  then have "rnd_value ?x \<le> 2 powi (?e + 1)"
    using b(2) by (intro rnd_value_upper [OF x(1)]) simp_all
  also have "\<dots> \<le> 2 powi 64" using e by (intro power_int_increasing) simp_all
  finally have "rnd_value ?x \<le> 2 ^ 64" by simp
  moreover have "(2 ^ 64 :: rat) < 2 ^ 1024" by simp
  moreover have "0 \<le> rnd_value ?x" by (simp add: rnd_value_nonneg)
  ultimately show ?thesis by (simp add: rnd_def Let_def)
qed simp

definition finite_number :: "json \<Rightarrow> bool" where
  "finite_number v = (case as_f64 v of None \<Rightarrow> False | Some x \<Rightarrow> is_finite x)"

lemma finite_number_code [code]:
  "finite_number v = (case v of
     JNum (PosInt _) \<Rightarrow> True
   | JNum (NegInt i) \<Rightarrow> is_finite (rnd (of_int i))
   | JNum (Float x) \<Rightarrow> is_finite x
   | _ \<Rightarrow> False)"
proof -
  have "is_finite (rnd (of_nat (unat n)))" for n :: u64
    using unsigned_less [of n, where 'a = nat] by (intro rnd_u64_finite) simp
  then show ?thesis
    by (auto simp: finite_number_def f_of_nat_def split: json.splits number.splits)
qed

end
