(* ===== verification/Catalog.thy ===== *)
theory Catalog
  imports Json_Value
begin

text \<open>
  The method catalog of the command line (\<open>cli/src/catalog.rs\<close>): the table of backend
  methods with their parameter contracts, the lookup, the validation of parameters against
  a contract and the confirmations. The table is transcribed entry by entry. The
  \<open>unwrap\<close> of a malformed contract panics: the outer \<open>option\<close> of \<open>validate\<close>.
\<close>

section \<open>Methods\<close>

record Method =
  method_name :: string
  method_summary :: string
  method_parameters :: string
  method_example :: json
  method_mutating :: bool
  method_confirmation :: "string option"

definition new_method :: "string \<Rightarrow> string \<Rightarrow> string \<Rightarrow> json \<Rightarrow> bool \<Rightarrow> string option \<Rightarrow> Method" where
  "new_method n s p e w c = \<lparr>method_name = n, method_summary = s, method_parameters = p,
     method_example = e, method_mutating = w, method_confirmation = c\<rparr>"

definition example_environment :: json where
  "example_environment = json_obj [(''environmentId'', JStr ''env-ID'')]"

definition example_policy_json :: json where
  "example_policy_json = json_obj [(''cpu'', json_obj [(''min'', json_f64 (Fin (1 / 2))), (''preferred'', json_int 2), (''max'', json_int 4), (''current'', json_int 0)]), (''memoryGb'', json_obj [(''min'', json_f64 (Fin (1 / 2))), (''preferred'', json_int 2), (''max'', json_int 4), (''current'', json_int 0)]), (''priority'', JStr ''normal''), (''dynamic'', JBool True)]"

definition methods_1 :: "Method list" where
  "methods_1 = [
     new_method ''scan_cloud_host''
       ''Read candidate SSH host keys. Verify the fingerprint with the user/server administrator before trusting one; this does not authenticate or trust the server.''
       ''host:string port:port''
       (json_obj [(''host'', JStr ''server.example.com''), (''port'', json_int 22)]) False None,
     new_method ''add_cloud_environment''
       ''Add an EXISTING Linux SSH server. No provisioning or power changes. Requires OpenSSH locally, Python 3 remotely and a verified host key. Connect/disconnect using set_environment_status running/stopped; never paused or restart.''
       ''request:object''
       (json_obj [(''request'', json_obj [(''name'', JStr ''Cloud database''), (''vendor'', JStr ''aws''), (''host'', JStr ''server.example.com''), (''port'', json_int 22), (''username'', JStr ''ubuntu''), (''identityFile'', JStr ''C:/Keys/server.pem''), (''hostKey'', JStr ''ssh-ed25519 VERIFIED_BASE64_HOST_KEY'')])]) True (Some ''Adds the existing cloud server and trusts the host key explicitly verified by the user.''),
     new_method ''get_cloud_connection''
       ''Get cloud SSH connection settings and connected private SOCKS/shared-files endpoints. Endpoint loopback addresses are inside the cloud server, not on this PC.''
       ''environmentId:string''
       example_environment False None,
     new_method ''get_host_terminal_info''
       ''Inspect host shell, bundled CLI, agent skill setup and this client's host terminal sessions. This is host access, not a guest.''
       []
       (json_obj []) False None,
     new_method ''set_up_agent_access''
       ''Install/update only the unmodified Yougori-managed Codex skill for this user; preserve custom edits.''
       []
       (json_obj []) True (Some ''Installs Yougori agent instructions in this user's Codex skills directory.''),
     new_method ''host_terminal_action''
       ''HOST computer terminal, not an isolated guest. request={sessionId:host-UNIQUE,action:create|read|write|resize|close,data?:base64,offset?:integer,cols?:integer,rows?:integer,cwd?:absolutePath}. Host shells refuse administrator elevation.''
       ''request:object''
       (json_obj [(''request'', json_obj [(''sessionId'', JStr ''host-cli-unique''), (''action'', JStr ''create''), (''cols'', json_int 100), (''rows'', json_int 24)])]) True None,
     new_method ''get_platform_state''
       ''List environments, connections, snapshots, settings and host/provider state.''
       []
       (json_obj []) False None,
     new_method ''get_connection_skills''
       ''Live agent instructions for the node's saved connections and My PC shares.''
       ''environmentId:string''
       example_environment False None,
     new_method ''create_environment''
       ''Create Container, GPU (container/openDockCuda), VM (fullVm), or microVM (microVm). GPU needs compatible hardware/runtime. VM creation waits for disk preparation, not OS installation.''
       ''request:object''
       (json_obj [(''request'', json_obj [(''name'', JStr ''web''), (''kind'', JStr ''container''), (''provider'', JStr ''openDockOci''), (''runtime'', JStr ''docker.io/library/node:24''), (''description'', JStr []), (''networkAccess'', JBool False), (''gpuAccess'', JBool False), (''resourcePolicy'', example_policy_json)])]) True None,
     new_method ''set_environment_status''
       ''Start, stop or pause using the same recovery and lifecycle checks as the desktop.''
       ''environmentId:string status:running|stopped|paused''
       (json_obj [(''environmentId'', JStr ''env-ID''), (''status'', JStr ''running'')]) True None,
     new_method ''restart_environment''
       ''Stop and start this environment using normal runtime checks. This is a runtime restart, not guest OS installation progress.''
       ''environmentId:string''
       example_environment True None,
     new_method ''recover_environment_runtime''
       ''Choose the correct abandoned-runtime recovery for the node's saved provider; never format its disk.''
       ''environmentId:string confirmed:bool''
       (json_obj [(''environmentId'', JStr ''env-ID''), (''confirmed'', JBool True)]) True (Some ''Stops/recover the affected runtime, which may serve multiple containers.''),
     new_method ''delete_environment''
       ''Delete this environment and its managed data; source images/backups follow the desktop's retention rules.''
       ''environmentId:string recoverRuntime?:bool''
       example_environment True (Some ''Permanently deletes this environment's data.''),
     new_method ''factory_reset_environment''
       ''Erase guest data, retain source image. confirmation must be the exact environment name.''
       ''environmentId:string confirmation:string''
       (json_obj [(''environmentId'', JStr ''env-ID''), (''confirmation'', JStr ''EXACT_NAME'')]) True (Some ''Erases guest data. Back up anything needed first.'')]"

definition methods_2 :: "Method list" where
  "methods_2 = [
     new_method ''recover_container_runtime''
       ''Recover only this Yougori runtime when no other live owner exists.''
       ''environmentId:string confirmed:bool''
       (json_obj [(''environmentId'', JStr ''env-ID''), (''confirmed'', JBool True)]) True (Some ''Stops the affected runtime; may affect its other environments.''),
     new_method ''recover_vm_runtime''
       ''Recover a failed VM runtime without formatting its disk.''
       ''environmentId:string confirmed:bool''
       (json_obj [(''environmentId'', JStr ''env-ID''), (''confirmed'', JBool True)]) True (Some ''Stops/recover the affected VM runtime.''),
     new_method ''rename_environment''
       ''Change only the environment's display name; keeps runtime IDs, disks and connections unchanged.''
       ''environmentId:string name:string''
       (json_obj [(''environmentId'', JStr ''env-ID''), (''name'', JStr ''Work VM'')]) True None,
     new_method ''update_container_startup_command''
       ''Change a stopped local container's startup command while preserving its files and data volumes. Runs on next start; empty command restores the original image default. Includes CUDA containers.''
       ''environmentId:string command:string''
       (json_obj [(''environmentId'', JStr ''env-ID''), (''command'', JStr ''cd /project && exec npm start'')]) True None,
     new_method ''update_resource_policy''
       ''Set CPU cores and memory GB min/preferred/max. Dynamic allocation remains enabled.''
       ''environmentId:string resourcePolicy:object''
       (json_obj [(''environmentId'', JStr ''env-ID''), (''resourcePolicy'', example_policy_json)]) True None,
     new_method ''configure_resource_limits''
       ''Change only the supplied CPU/memory ranges or priority; preserve the other saved limits. CPU cores, memory GB. Each range accepts min/preferred/max.''
       ''environmentId:string cpu?:object memoryGb?:object priority?:low|normal|high|critical''
       (json_obj [(''environmentId'', JStr ''env-ID''), (''memoryGb'', json_obj [(''preferred'', json_int 4), (''max'', json_int 8)])]) True None,
     new_method ''reclaim_storage''
       ''Return unused container disk blocks to the host; compact only idle runtime storage. Keeps containers, snapshots, cached container images and exported backups. Reports deferred cleanup and measured disk reduction.''
       []
       (json_obj []) True (Some ''Reclaim unused storage; no running workloads are stopped.''),
     new_method ''get_storage_allocation''
       ''Inspect this node's storage capacity, usage and available maximum. Containers also report whether their independent writable limit is enforced.''
       ''environmentId?:string newVm?:bool''
       example_environment False None,
     new_method ''expand_environment_storage''
       ''Adjust this container's storage limit from 6 GB to available capacity, above current usage. Enabled limits increase or decrease online; legacy containers must stop once. VM disks only grow and require stopping the VM.''
       ''environmentId:string capacityGb:number''
       (json_obj [(''environmentId'', JStr ''env-ID''), (''capacityGb'', json_int 100)]) True None]"

definition methods_3 :: "Method list" where
  "methods_3 = [
     new_method ''update_container_network''
       ''Plug/unplug Internet for a container, microVM or VM. Private node links are separate.''
       ''environmentId:string enabled:bool''
       (json_obj [(''environmentId'', JStr ''env-ID''), (''enabled'', JBool True)]) True None,
     new_method ''update_environment_gpu''
       ''Change existing GPU access, subject to provider support and stopped-state requirements.''
       ''environmentId:string enabled:bool''
       (json_obj [(''environmentId'', JStr ''env-ID''), (''enabled'', JBool True)]) True None,
     new_method ''create_connection''
       ''Grant private node-to-node permissions across providers. Files is a designated folder, not a peer's entire disk.''
       ''request:object''
       (json_obj [(''request'', json_obj [(''sourceId'', JStr ''env-A''), (''targetId'', JStr ''env-B''), (''direction'', JStr ''bidirectional''), (''permissions'', JArr [JStr ''files'', JStr ''ports'']), (''ports'', JArr [JStr ''5432''])])]) True None,
     new_method ''set_connection_active''
       ''Enable/disable a saved node connection.''
       ''connectionId:string active:bool''
       (json_obj [(''connectionId'', JStr ''conn-ID''), (''active'', JBool False)]) True None,
     new_method ''delete_connection''
       ''Remove a node connection and revoke access; retained shared data is not erased.''
       ''connectionId:string''
       (json_obj [(''connectionId'', JStr ''conn-ID'')]) True None,
     new_method ''attach_host_folder''
       ''Share one explicitly chosen host folder. Inspect returned readOnly and mountPath/guestUrl for actual access.''
       ''environmentId:string path:string readOnly:bool''
       (json_obj [(''environmentId'', JStr ''env-ID''), (''path'', JStr ''C:/Projects/site''), (''readOnly'', JBool True)]) True (Some ''Grants the environment access to this host folder.''),
     new_method ''copy_files_to_environment''
       ''Copy selected absolute host paths into a running local environment. Originals are only read. Full VMs receive an independent imported-files drive; other guests receive a unique directory. No live host share or automatic execution.''
       ''environmentId:string paths:string[]''
       (json_obj [(''environmentId'', JStr ''env-ID''), (''paths'', JArr [JStr ''C:/Projects/site''])]) True (Some ''Copies only the selected host files into this environment; originals stay unchanged.''),
     new_method ''list_imported_drives''
       ''List a full VM's connected and saved imported-files drives.''
       ''environmentId:string''
       example_environment False None,
     new_method ''set_imported_drive_attached''
       ''Connect or disconnect an imported-files drive while its VM is shut down. Disconnected images and guest edits remain saved.''
       ''environmentId:string transferId:string attached:bool''
       (json_obj [(''environmentId'', JStr ''env-ID''), (''transferId'', JStr ''0123456789abcdef0123456789abcdef''), (''attached'', JBool False)]) True None,
     new_method ''detach_host_folder''
       ''Revoke one My PC folder share.''
       ''shareId:string''
       (json_obj [(''shareId'', JStr ''share-ID'')]) True None,
     new_method ''list_environment_services''
       ''Discover guest TCP services and list live publications and My PC shares.''
       ''environmentId:string''
       example_environment False None]"

definition methods_4 :: "Method list" where
  "methods_4 = [
     new_method ''get_manual_service_ports''
       ''List persisted graph service-port declarations, including stopped nodes.''
       []
       (json_obj []) False None,
     new_method ''set_manual_service_port''
       ''Add/remove a port on the graph. This does not start a service, publish a port, or grant access.''
       ''environmentId:string port:port present:bool''
       (json_obj [(''environmentId'', JStr ''env-ID''), (''port'', json_int 3000), (''present'', JBool True)]) True None,
     new_method ''publish_environment_service''
       ''Publish a TCP service to local LAN or Cloudflare HTTPS. Optional account credentials: cloudflare={hostname,token?,remember,routesReviewed}, plus fixed hostPort. No credentials means Quick Tunnel.''
       ''environmentId:string port:port kind:local|cloudflare hostPort?:port cloudflare?:object''
       (json_obj [(''environmentId'', JStr ''env-ID''), (''port'', json_int 3000), (''kind'', JStr ''cloudflare'')]) True (Some ''Exposes a guest service outside its private node network. Cloudflare URLs are public.''),
     new_method ''unpublish_environment_service''
       ''Close a service publication/tunnel.''
       ''publicationId:string''
       (json_obj [(''publicationId'', JStr ''pub-ID'')]) True None,
     new_method ''saved_cloudflare_account''
       ''Inspect saved hostname/port; never returns the stored token.''
       ''environmentId:string port:port''
       (json_obj [(''environmentId'', JStr ''env-ID''), (''port'', json_int 3000)]) False None,
     new_method ''forget_cloudflare_account''
       ''Remove saved Cloudflare credentials for this service from the OS vault.''
       ''environmentId:string port:port''
       (json_obj [(''environmentId'', JStr ''env-ID''), (''port'', json_int 3000)]) True (Some ''Removes the saved tunnel credential, not the Cloudflare account.''),
     new_method ''create_snapshot''
       ''Create a local environment snapshot.''
       ''environmentId:string name:string''
       (json_obj [(''environmentId'', JStr ''env-ID''), (''name'', JStr ''before-change'')]) True None,
     new_method ''delete_snapshot''
       ''Delete a saved snapshot.''
       ''snapshotId:string''
       (json_obj [(''snapshotId'', JStr ''snap-ID'')]) True (Some ''Permanently deletes this snapshot.'')]"

definition methods_5 :: "Method list" where
  "methods_5 = [
     new_method ''restore_snapshot''
       ''Restore a snapshot, replacing the environment's current state.''
       ''snapshotId:string''
       (json_obj [(''snapshotId'', JStr ''snap-ID'')]) True (Some ''Replaces current guest data with the snapshot.''),
     new_method ''export_local_backup''
       ''Save a local backup into an existing host folder.''
       ''environmentId:string folder:string''
       (json_obj [(''environmentId'', JStr ''env-ID''), (''folder'', JStr ''C:/Backups'')]) True None,
     new_method ''import_local_backup''
       ''Import a backup as a new environment. Optional targetProvider supports explicit CUDA migration. Restored external permissions remain revoked.''
       ''path:string targetProvider?:openDockOci|openDockCuda|qemu''
       (json_obj [(''path'', JStr ''C:/Backups/example.opendock-backup'')]) True None,
     new_method ''add_backup_destination''
       ''Add/verify a cloud backup destination. Supply credentials via stdin/private JSON file, not command arguments.''
       ''request:object''
       (json_obj [(''request'', json_obj [(''name'', JStr ''backup''), (''provider'', JStr ''awsS3''), (''location'', JStr ''s3://bucket/prefix''), (''accessKey'', JStr ''REDACTED''), (''secretKey'', JStr ''REDACTED'')])]) True (Some ''Stores credentials in the OS vault and contacts this backup provider.''),
     new_method ''delete_backup_destination''
       ''Remove a saved backup destination.''
       ''destinationId:string''
       (json_obj [(''destinationId'', JStr ''dest-ID'')]) True (Some ''Removes this destination and its local backup history.''),
     new_method ''run_backup''
       ''Create/encrypt/upload a backup to a saved destination.''
       ''environmentId:string destinationId:string''
       (json_obj [(''environmentId'', JStr ''env-ID''), (''destinationId'', JStr ''dest-ID'')]) True (Some ''Uploads environment data to the selected destination.''),
     new_method ''restore_backup''
       ''Restore a completed cloud backup.''
       ''backupId:string''
       (json_obj [(''backupId'', JStr ''backup-ID'')]) True (Some ''Restores backup data over the existing environment.''),
     new_method ''update_settings''
       ''Save the complete settings object from get_platform_state, modifying only intended fields.''
       ''settings:object''
       (json_obj [(''settings'', json_obj [(''theme'', JStr ''system''), (''launchAtStartup'', JBool False), (''minimizeToTray'', JBool False), (''pauseOnBattery'', JBool False), (''telemetryEnabled'', JBool False), (''dataDirectory'', JStr []), (''snapshotRetention'', json_int 20), (''bandwidthLimitMbps'', json_int 0)])]) True None,
     new_method ''refresh_host_metrics''
       ''Refresh host usage and enforce dynamic resource limits.''
       []
       (json_obj []) False None]"

definition methods_6 :: "Method list" where
  "methods_6 = [
     new_method ''reset_platform_state''
       ''Reset all managed platform state using the desktop's safety checks.''
       []
       (json_obj []) True (Some ''Resets the whole platform; do not use for an individual node.''),
     new_method ''get_cuda_runtime_status''
       ''Read actual NVIDIA/WSL compatibility and installation checks.''
       []
       (json_obj []) False None,
     new_method ''install_cuda_runtime''
       ''Install/update Yougori's dedicated CUDA runtime, not the user's other WSL distributions.''
       []
       (json_obj []) True (Some ''Installs/updates the dedicated WSL CUDA runtime.''),
     new_method ''verify_environment_cuda''
       ''Execute a small real CUDA kernel inside this GPU container.''
       ''environmentId:string''
       example_environment False None,
     new_method ''get_shared_gpu_settings''
       ''Inspect legacy QEMU graphics adapter settings; this is not CUDA passthrough.''
       []
       (json_obj []) False None,
     new_method ''set_shared_gpu_selection''
       ''Change the legacy graphics adapter selection with the same stopped-runtime checks as the desktop.''
       ''selectedId?:string''
       (json_obj [(''selectedId'', JNull)]) True None,
     new_method ''execute_environment_command''
       ''Execute a shell command inside an agent-equipped container/microVM. Full VMs need user-configured SSH or the desktop console.''
       ''request:object''
       (json_obj [(''request'', json_obj [(''environmentId'', JStr ''env-ID''), (''command'', JStr ''uname -a'')])]) True (Some ''Runs the supplied command inside the guest.''),
     new_method ''read_environment_console''
       ''Read the guest serial console.''
       ''environmentId:string''
       example_environment False None,
     new_method ''get_guest_session''
       ''Get console connection details. Output may include a private console credential: do not publish it.''
       ''environmentId:string''
       example_environment False None,
     new_method ''terminal_action''
       ''Create/read/write/resize/close CLI-owned terminal sessions. data is base64; use returned offset when reading.''
       ''environmentId:string sessionId:string action:create|read|write|resize|close data?:string offset?:integer cols?:integer rows?:integer''
       (json_obj [(''environmentId'', JStr ''env-ID''), (''sessionId'', JStr ''term-cli-unique''), (''action'', JStr ''create''), (''cols'', json_int 100), (''rows'', json_int 30)]) True None,
     new_method ''prepare_terminal_installer''
       ''Stage a supported tool in a CLI-owned terminal; returns its short launcher command, without executing it.''
       ''environmentId:string sessionId:string tool:codex|claude|gemini|ollama|opencode|kilo|openclaw''
       (json_obj [(''environmentId'', JStr ''env-ID''), (''sessionId'', JStr ''term-cli-unique''), (''tool'', JStr ''ollama'')]) True (Some ''Stages a coding-tool installer inside this container.''),
     new_method ''install_terminal_tool''
       ''Stage and immediately start the supported tool installer in a CLI-owned terminal. Read terminal output for progress/result.''
       ''environmentId:string sessionId:string tool:codex|claude|gemini|ollama|opencode|kilo|openclaw''
       (json_obj [(''environmentId'', JStr ''env-ID''), (''sessionId'', JStr ''term-cli-unique''), (''tool'', JStr ''ollama'')]) True (Some ''Downloads/installs this tool inside the container.''),
     new_method ''micro_vm_apps''
       ''Manage built-in microVM guest app sessions. The runtime validates action/package/command.''
       ''environmentId:string action:status|install|launch|stop|view sessionId?:string name?:string command?:string package?:string''
       (json_obj [(''environmentId'', JStr ''env-ID''), (''action'', JStr ''status'')]) True None]"

definition methods_7 :: "Method list" where
  "methods_7 = [
     new_method ''open_environment_window''
       ''Open another graphical guest window (not an extra physical/virtual monitor).''
       ''environmentId:string''
       example_environment True None,
     new_method ''open_micro_vm_app_window''
       ''Open a built-in microVM application session window.''
       ''environmentId:string sessionId:string''
       (json_obj [(''environmentId'', JStr ''env-ID''), (''sessionId'', JStr ''app-ID'')]) True None,
     new_method ''close_environment_window''
       ''Close the specified guest window without stopping its environment.''
       ''label:string''
       (json_obj [(''label'', JStr ''environment-env-ID-WINDOW'')]) True None,
     new_method ''list_environment_windows''
       ''List currently open guest windows.''
       []
       (json_obj []) False None,
     new_method ''focus_environment_window''
       ''Focus a guest window.''
       ''label:string''
       (json_obj [(''label'', JStr ''environment-env-ID-WINDOW'')]) True None,
     new_method ''title_environment_window''
       ''Refresh a specified guest window's title from its environment.''
       ''environmentId:string label:string''
       (json_obj [(''environmentId'', JStr ''env-ID''), (''label'', JStr ''environment-env-ID-WINDOW'')]) True None,
     new_method ''set_guest_keyboard_capture''
       ''Set/release guest keyboard capture for a specific window using the existing capture token and viewport bounds.''
       ''label:string token:string bounds?:object''
       (json_obj [(''label'', JStr ''environment-env-ID-WINDOW''), (''token'', JStr ''TOKEN''), (''bounds'', JNull)]) True None]"

definition methods_8 :: "Method list" where
  "methods_8 = [
     new_method ''open_workspace_url''
       ''Open an HTTP(S) URL in the host browser.''
       ''url:string''
       (json_obj [(''url'', JStr ''http://127.0.0.1:13000'')]) True None,
     new_method ''app_status''
       ''Check the running engine, version, local control endpoint and background mode.''
       []
       (json_obj []) False None,
     new_method ''app_show''
       ''Open/focus the dashboard, including an engine started headlessly.''
       []
       (json_obj []) True None,
     new_method ''app_quit''
       ''Gracefully stop the engine and all of its workloads/publications.''
       []
       (json_obj []) True (Some ''Stops all Yougori workloads and closes the desktop engine.''),
     new_method ''jobs_list''
       ''List operation metadata (never request payloads/secrets). Results expire 30 minutes after completion.''
       []
       (json_obj []) False None,
     new_method ''jobs_get''
       ''Get one operation's status and result. A running job is not completed work.''
       ''jobId:string''
       (json_obj [(''jobId'', JStr ''job-ID'')]) False None]"

definition methods :: "Method list" where
  "methods = methods_1 @ methods_2 @ methods_3 @ methods_4 @ methods_5 @ methods_6 @ methods_7 @ methods_8"

definition find_method :: "string \<Rightarrow> (Method, string) result" where
  "find_method name = ok_or (List.find (\<lambda>m. method_name m = name) methods)
     (''Unknown method '' @ [CHR 0x27] @ name @ [CHR 0x27] @ ''. Run yougori-cli schema.'')"

section \<open>Validation\<close>

definition definitions :: "Method \<Rightarrow> (string \<times> string) list option" where
  "definitions m = those (map (split_once (CHR '':'')) (split_whitespace (method_parameters m)))"

definition bare :: "string \<Rightarrow> string" where
  "bare name = trim_end_matches (CHR ''?'') name"

definition quoted :: "string \<Rightarrow> string" where
  "quoted s = [CHR 0x27] @ s @ [CHR 0x27]"

definition valid_kind :: "string \<Rightarrow> json \<Rightarrow> bool" where
  "valid_kind kind value =
     (if kind = ''string'' then as_str value \<noteq> None
      else if kind = ''string[]'' then
        (case as_array value of None \<Rightarrow> False | Some items \<Rightarrow>
           items \<noteq> [] \<and> length items \<le> 256
           \<and> list_all (\<lambda>item. case as_str item of None \<Rightarrow> False | Some s \<Rightarrow> s \<noteq> []) items)
      else if kind = ''bool'' then as_bool value \<noteq> None
      else if kind = ''object'' then as_object value \<noteq> None
      else if kind = ''number'' then finite_number value
      else if kind = ''integer'' then as_u64 value \<noteq> None
      else if kind = ''port'' then (case as_u64 value of None \<Rightarrow> False | Some v \<Rightarrow> 1 \<le> v \<and> v \<le> 65535)
      else (case as_str value of None \<Rightarrow> False | Some v \<Rightarrow> v \<in> set (split_char (CHR ''|'') kind)))"

fun check_known :: "string \<Rightarrow> (string \<times> string) list \<Rightarrow> string list \<Rightarrow> (unit, string) result" where
  "check_known name defs [] = Ok ()"
| "check_known name defs (key # keys) =
     (if list_ex (\<lambda>(n, _). bare n = key) defs then check_known name defs keys
      else Err (''Unknown parameter '' @ quoted key @ '' for '' @ name))"

fun check_required :: "string \<Rightarrow> json_map \<Rightarrow> (string \<times> string) list \<Rightarrow> (unit, string) result" where
  "check_required name entries [] = Ok ()"
| "check_required name entries ((n, kind) # defs) =
     (let optional = ends_with ''?'' n; key = bare n in
      case map_of entries key of
        None \<Rightarrow> if optional then check_required name entries defs
                else Err (''Missing parameter '' @ quoted key @ '' for '' @ name)
      | Some value \<Rightarrow>
          if value = JNull then
            (if optional then check_required name entries defs
             else Err (''Missing parameter '' @ quoted key @ '' for '' @ name))
          else if valid_kind kind value then check_required name entries defs
          else Err (''Parameter '' @ quoted key @ '' must be '' @ kind))"

definition validate :: "Method \<Rightarrow> json \<Rightarrow> (unit, string) result option" where
  "validate m params =
     (case as_object params of
        None \<Rightarrow> Some (Err ''Parameters must be a JSON object'')
      | Some entries \<Rightarrow>
          (case definitions m of
             None \<Rightarrow> None
           | Some defs \<Rightarrow>
               Some (result_bind (check_known (method_name m) defs (map fst entries))
                 (\<lambda>_. check_required (method_name m) entries defs))))"

section \<open>Confirmations\<close>

definition confirmation_for :: "Method \<Rightarrow> json \<Rightarrow> string option" where
  "confirmation_for m params =
     (if method_name m = ''host_terminal_action''
         \<and> as_str (json_get (json_get params ''request'') ''action'') \<notin> {Some ''read'', Some ''resize''}
      then Some ''Starts, controls, or ends a shell on the HOST computer, outside guest isolation.''
      else if method_name m = ''terminal_action'' \<and> json_get params ''action'' = JStr ''write''
      then Some ''Sends input/commands to the guest terminal.''
      else if method_name m = ''micro_vm_apps'' \<and> json_get params ''action'' \<noteq> JStr ''status''
      then Some ''Changes or runs applications inside the microVM.''
      else method_confirmation m)"

section \<open>The table\<close>

definition contract_ok :: "Method \<Rightarrow> bool" where
  "contract_ok m \<longleftrightarrow> definitions m \<noteq> None \<and> validate m (method_example m) = Some (Ok ())
     \<and> (method_confirmation m \<noteq> None \<longrightarrow> method_mutating m)"

text \<open>The long texts play no role in the contracts.\<close>

lemma validate_new: "validate (new_method n s p e w c) = validate (new_method n [] p e' w' None)"
  by (rule ext) (simp add: validate_def definitions_def new_method_def cong: option.case_cong)

lemma contract_ok_new:
  "contract_ok (new_method n s p e w c) \<longleftrightarrow> (c \<noteq> None \<longrightarrow> w) \<and> those (map (split_once (CHR '':'')) (split_whitespace p)) \<noteq> None
     \<and> validate (new_method n [] p JNull True None) e = Some (Ok ())"
  using validate_new [of n s p e w c JNull True]
  by (auto simp: contract_ok_def definitions_def new_method_def)

lemma contracts_1: "list_all contract_ok methods_1"
  unfolding methods_1_def list.pred_inject contract_ok_new option.distinct simp_thms
  by (intro conjI TrueI; code_simp)

lemma contracts_2: "list_all contract_ok methods_2"
  unfolding methods_2_def list.pred_inject contract_ok_new option.distinct simp_thms
  by (intro conjI TrueI; code_simp)

lemma contracts_3: "list_all contract_ok methods_3"
  unfolding methods_3_def list.pred_inject contract_ok_new option.distinct simp_thms
  by (intro conjI TrueI; code_simp)

lemma contracts_4: "list_all contract_ok methods_4"
  unfolding methods_4_def list.pred_inject contract_ok_new option.distinct simp_thms
  by (intro conjI TrueI; code_simp)

lemma contracts_5: "list_all contract_ok methods_5"
  unfolding methods_5_def list.pred_inject contract_ok_new option.distinct simp_thms
  by (intro conjI TrueI; code_simp)

lemma contracts_6: "list_all contract_ok methods_6"
  unfolding methods_6_def list.pred_inject contract_ok_new option.distinct simp_thms
  by (intro conjI TrueI; code_simp)

lemma contracts_7: "list_all contract_ok methods_7"
  unfolding methods_7_def list.pred_inject contract_ok_new option.distinct simp_thms
  by (intro conjI TrueI; code_simp)

lemma contracts_8: "list_all contract_ok methods_8"
  unfolding methods_8_def list.pred_inject contract_ok_new option.distinct simp_thms
  by (intro conjI TrueI; code_simp)

lemmas table_defs = methods_def methods_1_def methods_2_def methods_3_def methods_4_def methods_5_def
  methods_6_def methods_7_def methods_8_def

lemma names_distinct: "distinct (map method_name methods)"
  unfolding table_defs map_append append_Cons append_Nil list.map new_method_def Method.select_convs
  by code_simp

lemma all_contracts: "list_all contract_ok methods"
  unfolding methods_def list_all_append
  using contracts_1 contracts_2 contracts_3 contracts_4 contracts_5 contracts_6 contracts_7 contracts_8
  by blast

section \<open>What validation accepts\<close>

text \<open>
  The contract as a relation: an object all of whose keys are declared, in which every
  declared parameter has a value of its kind or is optional and absent or null.
\<close>

definition conforms :: "Method \<Rightarrow> json \<Rightarrow> bool" where
  "conforms m params \<longleftrightarrow> (\<exists>entries defs. params = JObj entries \<and> definitions m = Some defs
     \<and> (\<forall>k \<in> fst ` set entries. \<exists>(n, _) \<in> set defs. bare n = k)
     \<and> (\<forall>(n, kind) \<in> set defs. case json_get params (bare n) of
           JNull \<Rightarrow> ends_with ''?'' n
         | v \<Rightarrow> valid_kind kind v))"

lemma check_known_Ok:
  "check_known name defs keys = Ok () \<longleftrightarrow> (\<forall>k \<in> set keys. \<exists>(n, _) \<in> set defs. bare n = k)"
  by (induction keys) (auto simp: list_ex_iff)

lemma check_required_Ok:
  "check_required name entries defs = Ok () \<longleftrightarrow> (\<forall>(n, kind) \<in> set defs.
     case json_get (JObj entries) (bare n) of JNull \<Rightarrow> ends_with ''?'' n | v \<Rightarrow> valid_kind kind v)"
proof (induction defs)
  case (Cons d defs)
  obtain n kind where d: "d = (n, kind)" by (cases d)
  show ?case
  proof (cases "map_of entries (bare n)")
    case None
    then show ?thesis using Cons d by (auto simp: Let_def)
  next
    case (Some v)
    then show ?thesis using Cons d by (cases v) (auto simp: Let_def)
  qed
qed simp

lemma find_method_mem: "find_method name = Ok m \<Longrightarrow> m \<in> set methods \<and> method_name m = name"
  by (auto simp: find_method_def find_Some_iff)

lemma found_contract: "find_method name = Ok m \<Longrightarrow> contract_ok m"
  using find_method_mem all_contracts by (auto simp: list_all_iff)

lemma validate_total: "find_method name = Ok m \<Longrightarrow> validate m params \<noteq> None"
  using found_contract [of name m] by (auto simp: contract_ok_def validate_def split: option.splits)

lemma validate_conforms: "validate m params = Some (Ok ()) \<longleftrightarrow> conforms m params"
proof (cases "as_object params")
  case None
  then show ?thesis by (auto simp: validate_def conforms_def)
next
  case (Some entries)
  then show ?thesis
    by (auto simp: validate_def conforms_def check_known_Ok check_required_Ok split: option.splits)
qed

text \<open>
  Validation decides exactly the contract of a method: it accepts a value if and only if
  it is an object that conforms, and in particular rejects unknown parameters instead of
  ignoring them.
\<close>

theorem validate_iff_conforms: "validate m params = Some (Ok ()) \<longleftrightarrow> conforms m params"
  by (rule validate_conforms)

text \<open>
  The catalog is consistent: names are unique, every contract is well formed, every
  example satisfies the contract of its method and only methods that change something ask
  for confirmation.
\<close>

theorem catalog_consistent: "distinct (map method_name methods) \<and> list_all contract_ok methods"
  using names_distinct all_contracts by blast

text \<open>
  A method found in the catalog never makes validation panic, and if it does not change
  anything it never asks for confirmation.
\<close>

theorem found_method_safe:
  assumes "find_method name = Ok m"
  shows "validate m params \<noteq> None \<and> (\<not> method_mutating m \<longrightarrow> confirmation_for m params = None)"
proof -
  have m: "m \<in> set methods" using find_method_mem [OF assms] by blast
  have c: "contract_ok m" using assms by (rule found_contract)
  have "list_all (\<lambda>m. method_name m \<in> {''host_terminal_action'', ''terminal_action'', ''micro_vm_apps''}
      \<longrightarrow> method_mutating m) methods"
    unfolding table_defs append_Cons append_Nil list.pred_inject new_method_def Method.select_convs
    by (intro conjI TrueI; code_simp)
  with m have "method_name m \<in> {''host_terminal_action'', ''terminal_action'', ''micro_vm_apps''}
      \<longrightarrow> method_mutating m" by (simp add: list_all_iff)
  with c validate_total [OF assms] show ?thesis
    by (auto simp: contract_ok_def confirmation_for_def)
qed

theorem found_method_safe_witness:
  "\<exists>m. find_method ''scan_cloud_host'' = Ok m \<and> confirmation_for m JNull = None"
proof -
  obtain m where m: "find_method ''scan_cloud_host'' = Ok m" "\<not> method_mutating m"
    by (simp add: find_method_def methods_def methods_1_def new_method_def)
  with found_method_safe [OF m(1), of JNull] show ?thesis by blast
qed

end
