(* ===== verification/Wire.thy ===== *)
theory Wire
  imports Json_Value
begin

unbundle bit_operations_syntax

text \<open>
  The local control protocol (\<open>cli/src/wire.rs\<close>): requests and responses, and the
  length-prefixed frames they travel in. A stream is the list of bytes still to be read;
  writing to it appends. The operating system's part (endpoints, ownership of the pipe or
  socket) is not modelled.
\<close>

section \<open>Messages\<close>

definition VERSION :: u32 where
  "VERSION = 1"

definition MAX_REQUEST :: nat where
  "MAX_REQUEST = 1024 * 1024"

definition MAX_RESPONSE :: nat where
  "MAX_RESPONSE = 32 * 1024 * 1024"

record Request =
  req_version :: u32
  req_method :: string
  req_params :: json
  req_confirmed :: bool
  req_dry_run :: bool

record Response =
  resp_version :: u32
  resp_ok :: bool
  resp_result :: "json option"
  resp_error :: "string option"

definition response_success :: "json \<Rightarrow> Response" where
  "response_success v = \<lparr>resp_version = VERSION, resp_ok = True, resp_result = Some v, resp_error = None\<rparr>"

definition response_failure :: "string \<Rightarrow> Response" where
  "response_failure e = \<lparr>resp_version = VERSION, resp_ok = False, resp_result = None, resp_error = Some e\<rparr>"

text \<open>What the client makes of a decoded reply (\<open>client::call_at\<close>).\<close>

definition reply_value :: "Response \<Rightarrow> (json, string) result" where
  "reply_value r =
     (if resp_version r \<noteq> VERSION
      then Err ''CLI/engine protocol mismatch. Update both Yougori and its CLI.''
      else if resp_ok r then Ok (case resp_result r of None \<Rightarrow> JNull | Some v \<Rightarrow> v)
      else Err (case resp_error r of None \<Rightarrow> ''Yougori operation failed'' | Some e \<Rightarrow> e))"

section \<open>Frames\<close>

datatype io_error = UnexpectedEof | InvalidData

definition u32_be :: "u32 \<Rightarrow> bytes" where
  "u32_be n = [ucast (drop_bit 24 n), ucast (drop_bit 16 n), ucast (drop_bit 8 n), ucast n]"

definition u32_of_be :: "bytes \<Rightarrow> u32" where
  "u32_of_be b = push_bit 24 (ucast (b ! 0)) OR push_bit 16 (ucast (b ! 1))
     OR push_bit 8 (ucast (b ! 2)) OR ucast (b ! 3)"

definition read_frame :: "nat \<Rightarrow> bytes \<Rightarrow> (bytes \<times> bytes, io_error) result" where
  "read_frame limit stream =
     (if length stream < 4 then Err UnexpectedEof
      else
        (let size = unat (u32_of_be (take 4 stream)); rest = drop 4 stream in
         if size = 0 \<or> limit < size then Err InvalidData
         else if length rest < size then Err UnexpectedEof
         else Ok (take size rest, drop size rest)))"

definition write_frame :: "nat \<Rightarrow> bytes \<Rightarrow> (bytes, io_error) result" where
  "write_frame limit bs =
     (if bs = [] \<or> limit < length bs then Err InvalidData
      else Ok (u32_be (of_nat (length bs)) @ bs))"

lemma u32_roundtrip: "u32_of_be (u32_be n) = n"
proof (rule bit_word_eqI)
  fix i assume "i < LENGTH(32)"
  then show "bit (u32_of_be (u32_be n)) i = bit n i"
  proof -
    assume i: "i < LENGTH(32)"
    consider "i < 8" | "8 \<le> i" "i < 16" | "16 \<le> i" "i < 24" | "24 \<le> i" by linarith
    then show ?thesis
      using i by cases (auto simp: u32_of_be_def u32_be_def bit_simps)
  qed
qed

section \<open>Codecs\<close>

text \<open>
  The interface of a message format on a byte stream: what is written in front of other
  bytes is read back and leaves exactly those bytes.
\<close>

locale codec =
  fixes put :: "'a \<Rightarrow> (bytes, 'e) result"
    and get :: "bytes \<Rightarrow> ('a \<times> bytes, 'e) result"
  assumes get_put: "put x = Ok bs \<Longrightarrow> get (bs @ rest) = Ok (x, rest)"
begin

fun put_all :: "'a list \<Rightarrow> (bytes, 'e) result" where
  "put_all [] = Ok []"
| "put_all (x # xs) = result_bind (put x) (\<lambda>b. result_bind (put_all xs) (\<lambda>bs. Ok (b @ bs)))"

fun get_many :: "nat \<Rightarrow> bytes \<Rightarrow> ('a list \<times> bytes, 'e) result" where
  "get_many 0 bs = Ok ([], bs)"
| "get_many (Suc n) bs =
     result_bind (get bs) (\<lambda>(x, r). result_bind (get_many n r) (\<lambda>(xs, r). Ok (x # xs, r)))"

lemma get_many_put_all: "put_all xs = Ok bs \<Longrightarrow> get_many (length xs) (bs @ rest) = Ok (xs, rest)"
proof (induction xs arbitrary: bs)
  case (Cons x xs)
  then obtain b bs' where b: "put x = Ok b" "put_all xs = Ok bs'" "bs = b @ bs'" by auto
  then show ?case using Cons.IH [OF b(2)] get_put [OF b(1), of "bs' @ rest"] by simp
qed simp

lemma put_injective: "put x = Ok bs \<Longrightarrow> put y = Ok bs \<Longrightarrow> x = y"
  using get_put [of x bs "[]"] get_put [of y bs "[]"] by simp

end

lemma read_write_frame:
  assumes "limit < 2 ^ 32" and "write_frame limit bs = Ok out"
  shows "read_frame limit (out @ rest) = Ok (bs, rest)"
proof -
  have b: "bs \<noteq> []" "length bs \<le> limit" "out = u32_be (of_nat (length bs)) @ bs"
    using assms(2) by (auto simp: write_frame_def split: if_splits)
  have "unat (of_nat (length bs) :: u32) = length bs"
    using b(2) assms(1) by (simp add: unsigned_of_nat take_bit_nat_eq_self)
  moreover have "take 4 (out @ rest) = u32_be (of_nat (length bs))" "drop 4 (out @ rest) = bs @ rest"
    "4 \<le> length (out @ rest)"
    by (simp_all add: b(3) u32_be_def)
  ultimately show ?thesis using b(1,2) by (simp add: read_frame_def u32_roundtrip)
qed

interpretation request_frames: codec "write_frame MAX_REQUEST" "read_frame MAX_REQUEST"
  by unfold_locales (rule read_write_frame, simp_all add: MAX_REQUEST_def)

interpretation response_frames: codec "write_frame MAX_RESPONSE" "read_frame MAX_RESPONSE"
  by unfold_locales (rule read_write_frame, simp_all add: MAX_RESPONSE_def)

section \<open>Properties\<close>

text \<open>
  Frames round-trip for both protocol limits: a frame that was written is read back
  whole and the rest of the stream is left for the next read.
\<close>

theorem frame_roundtrip:
  assumes "limit \<in> {MAX_REQUEST, MAX_RESPONSE}" and "write_frame limit bs = Ok out"
  shows "read_frame limit (out @ rest) = Ok (bs, rest)"
  using assms request_frames.get_put response_frames.get_put by auto

theorem frame_roundtrip_witness: "read_frame MAX_REQUEST ([0, 0, 0, 2, 7, 8] @ [9]) = Ok ([7, 8], [9])"
proof (rule frame_roundtrip)
  show "write_frame MAX_REQUEST [7, 8] = Ok [0, 0, 0, 2, 7, 8]"
    by (simp add: write_frame_def MAX_REQUEST_def u32_be_def)
qed simp

text \<open>
  Reading is bounded: a frame that is accepted is not empty and not longer than the
  limit, whatever bytes the peer sends, and every longer announcement is refused before its
  payload is read.
\<close>

theorem read_frame_bounded:
  assumes "read_frame limit stream = r"
  shows "(\<forall>bs rest. r = Ok (bs, rest) \<longrightarrow> bs \<noteq> [] \<and> length bs \<le> limit
      \<and> stream = take 4 stream @ bs @ rest)
    \<and> (4 \<le> length stream \<and> limit < unat (u32_of_be (take 4 stream)) \<longrightarrow> r = Err InvalidData)"
proof -
  have "take 4 stream @ take n (drop 4 stream) @ drop n (drop 4 stream) = stream" for n
    by (simp only: append_take_drop_id)
  then show ?thesis using assms by (auto simp: read_frame_def Let_def split: if_splits)
qed

theorem read_frame_bounded_witness: "read_frame 2 [0, 0, 0, 3, 1, 2, 3] = Err InvalidData"
proof -
  have "unat (u32_of_be (take 4 [0, 0, 0, 3, 1, 2, 3 :: u8])) = 3" by code_simp
  with read_frame_bounded [of 2 "[0, 0, 0, 3, 1, 2, 3]", OF refl] show ?thesis by simp
qed

text \<open>
  The client inverts the server's response constructors: a success arrives as its value,
  a failure as its error.
\<close>

theorem reply_of_response:
  "reply_value (response_success v) = Ok v \<and> reply_value (response_failure e) = Err e"
  by (simp add: reply_value_def response_success_def response_failure_def)

end
