(* ===== verification/Cli_Parse.thy ===== *)
theory Cli_Parse
  imports Catalog Wire
begin

text \<open>
  The command line parser (\<open>cli/src/parse.rs\<close>). \<open>flags\<close> is the \<open>BTreeMap\<close> of options and
  every helper returns it without the options it consumed. Three things come from outside:
  \<open>from_str\<close> (JSON parsing by \<open>serde_json\<close>), \<open>read_json\<close> (the caller's reader of
  \<open>--file\<close>) and \<open>absolute\<close> (a path made absolute in the caller's working directory).
\<close>

type_synonym flags = "(string \<times> string) list"

section \<open>Invocations\<close>

record Invocation =
  inv_request :: Request
  inv_no_wait :: bool
  inv_timeout :: nat
  inv_select :: "(string \<times> string option) option"
  inv_markdown :: bool

fun camel_from :: "bool \<Rightarrow> string \<Rightarrow> string" where
  "camel_from upper [] = []"
| "camel_from upper (c # cs) =
     (if c = CHR ''-'' then camel_from True cs
      else if upper then to_ascii_uppercase c # camel_from False cs
      else c # camel_from False cs)"

definition camel :: "string \<Rightarrow> string" where
  "camel name = camel_from False name"

definition take_number :: "flags \<Rightarrow> string \<Rightarrow> f64 \<Rightarrow> (f64 \<times> flags, string) result" where
  "take_number flags name fallback =
     (case (case map_of flags name of
              None \<Rightarrow> Ok fallback
            | Some v \<Rightarrow> ok_or (parse_f64 v) (''--'' @ name @ '' must be a number'')) of
        Err e \<Rightarrow> Err e
      | Ok v \<Rightarrow>
          if \<not> is_finite v \<or> f_le v (Fin 0) then Err (''--'' @ name @ '' must be a positive finite number'')
          else Ok (v, map_remove name flags))"

definition resource_range :: "f64 \<Rightarrow> f64 \<Rightarrow> f64 \<Rightarrow> (json, string) result" where
  "resource_range lo preferred hi =
     (if f_lt preferred lo \<or> f_lt hi preferred
      then Err ''Resource ranges must satisfy min <= preferred <= max''
      else Ok (json_obj [(''min'', json_f64 lo), (''preferred'', json_f64 preferred),
        (''max'', json_f64 hi), (''current'', json_int 0)]))"

definition policy :: "flags \<Rightarrow> f64 \<Rightarrow> f64 \<Rightarrow> (json \<times> flags, string) result" where
  "policy flags least default_memory =
     result_bind (take_number flags ''cpu'' (Fin 2)) (\<lambda>(cpu, flags).
     result_bind (take_number flags ''memory'' default_memory) (\<lambda>(memory, flags).
     result_bind (take_number flags ''cpu-min'' (f_min least cpu)) (\<lambda>(cpu_min, flags).
     result_bind (take_number flags ''cpu-max'' cpu) (\<lambda>(cpu_max, flags).
     result_bind (resource_range cpu_min cpu cpu_max) (\<lambda>cpu_range.
     result_bind (take_number flags ''memory-min'' (f_min least memory)) (\<lambda>(memory_min, flags).
     result_bind (take_number flags ''memory-max'' memory) (\<lambda>(memory_max, flags).
     result_bind (resource_range memory_min memory memory_max) (\<lambda>memory_range.
       Ok (json_obj [(''cpu'', cpu_range), (''memoryGb'', memory_range),
             (''priority'', JStr (case map_of flags ''priority'' of None \<Rightarrow> ''normal'' | Some p \<Rightarrow> p)),
             (''dynamic'', JBool True)],
           map_remove ''priority'' flags)))))))))"

definition required :: "flags \<Rightarrow> string \<Rightarrow> (string \<times> flags, string) result" where
  "required flags name =
     (case map_of flags name of
        None \<Rightarrow> Err (''--'' @ name @ '' is required'')
      | Some s \<Rightarrow> if trim s = [] then Err (''--'' @ name @ '' is required'')
                  else Ok (s, map_remove name flags))"

definition toggle :: "flags \<Rightarrow> string \<Rightarrow> (bool \<times> flags, string) result" where
  "toggle flags name =
     (case map_of flags name of
        None \<Rightarrow> Ok (False, flags)
      | Some v \<Rightarrow>
          if v = ''false'' then Ok (False, map_remove name flags)
          else if v = ''true'' then Ok (True, map_remove name flags)
          else Err (''--'' @ name @ '' must be true or false''))"

definition set_explicit :: "json_map \<Rightarrow> string \<Rightarrow> json \<Rightarrow> (json_map, string) result" where
  "set_explicit params key v =
     (if (case map_of params key of None \<Rightarrow> False | Some previous \<Rightarrow> previous \<noteq> v)
      then Err (''Conflicting values for '' @ quoted key @ ''; use one explicit target/action'')
      else Ok (map_insert key v params))"

definition comma :: "string \<Rightarrow> json" where
  "comma v = JArr (map JStr (filter (\<lambda>s. s \<noteq> []) (map trim (split_char (CHR '','') v))))"

section \<open>Words and options\<close>

fun scan_args :: "string list \<Rightarrow> string list \<Rightarrow> flags \<Rightarrow> string set \<Rightarrow> (string list \<times> flags, string) result" where
  "scan_args [] words flags keys = Ok (words, flags)"
| "scan_args (a # args) words flags keys =
     (case strip_prefix ''--'' a of
           None \<Rightarrow> scan_args args (words @ [a]) flags keys
         | Some name \<Rightarrow>
             (case split_once (CHR ''='') name of
                Some (n, v) \<Rightarrow>
                  if camel n \<in> keys \<or> map_of flags n \<noteq> None
                  then Err (''--'' @ n @ '' was specified twice'')
                  else scan_args args words (map_insert n v flags) (insert (camel n) keys)
              | None \<Rightarrow>
                  if name \<in> {''yes'', ''dry-run'', ''no-wait''} then
                    (if camel name \<in> keys \<or> map_of flags name \<noteq> None
                     then Err (''--'' @ name @ '' was specified twice'')
                     else scan_args args words (map_insert name ''true'' flags) (insert (camel name) keys))
                  else
                    (case args of
                       [] \<Rightarrow> Err (''--'' @ name @ '' needs a value'')
                     | v # args' \<Rightarrow>
                         if camel name \<in> keys \<or> map_of flags name \<noteq> None
                         then Err (''--'' @ name @ '' was specified twice'')
                         else scan_args args' words (map_insert name v flags) (insert (camel name) keys))))"

definition take_timeout :: "flags \<Rightarrow> (nat \<times> flags, string) result" where
  "take_timeout flags =
     (case (case map_of flags ''timeout'' of
              None \<Rightarrow> Ok 3600
            | Some v \<Rightarrow> ok_or (parse_u64 v) ''--timeout must be seconds'') of
        Err e \<Rightarrow> Err e
      | Ok t \<Rightarrow>
          if \<not> (1 \<le> t \<and> t \<le> 86400) then Err ''--timeout must be between 1 and 86400 seconds''
          else Ok (t, map_remove ''timeout'' flags))"

definition take_input :: "(string \<Rightarrow> (json, string) result) \<Rightarrow> (string \<Rightarrow> (json, string) result) \<Rightarrow> flags
    \<Rightarrow> (json_map \<times> flags, string) result" where
  "take_input from_str read_json flags =
     (let rest = map_remove ''file'' (map_remove ''json'' flags);
          input = (case (map_of flags ''json'', map_of flags ''file'') of
              (Some _, Some _) \<Rightarrow> Err ''Use either --json or --file, not both''
            | (Some text, None) \<Rightarrow>
                (case from_str text of Err e \<Rightarrow> Err (''Invalid JSON: '' @ e) | Ok v \<Rightarrow> Ok v)
            | (None, Some path) \<Rightarrow> read_json path
            | (None, None) \<Rightarrow> Ok (json_obj []))
      in result_bind input (\<lambda>v.
           result_bind (ok_or (as_object v) ''Parameters must be a JSON object'') (\<lambda>params. Ok (params, rest))))"

section \<open>Commands\<close>

record command =
  cmd_method :: string
  cmd_positional :: "string option"
  cmd_select :: "(string \<times> string option) option"
  cmd_markdown :: bool
  cmd_params :: json_map
  cmd_flags :: flags

definition plain :: "json_map \<Rightarrow> flags \<Rightarrow> string \<Rightarrow> command" where
  "plain params flags m = \<lparr>cmd_method = m, cmd_positional = None, cmd_select = None,
     cmd_markdown = False, cmd_params = params, cmd_flags = flags\<rparr>"

definition targeted :: "json_map \<Rightarrow> flags \<Rightarrow> string \<Rightarrow> string \<Rightarrow> command" where
  "targeted params flags key m = (plain params flags m)\<lparr>cmd_positional := Some key\<rparr>"

definition selecting :: "json_map \<Rightarrow> flags \<Rightarrow> string \<Rightarrow> command" where
  "selecting params flags key = (plain params flags ''get_platform_state'')\<lparr>cmd_select := Some (key, None)\<rparr>"

text \<open>Each group of commands: \<open>None\<close> where none of its arms matches.\<close>

definition app_command :: "string \<Rightarrow> string \<Rightarrow> json_map \<Rightarrow> flags \<Rightarrow> (command, string) result option" where
  "app_command grp action params flags =
     (if grp = ''call'' \<and> action \<noteq> [] then Some (Ok (plain params flags action))
      else if (grp, action) = (''app'', ''status'') then Some (Ok (plain params flags ''app_status''))
      else if (grp, action) = (''app'', ''show'') then Some (Ok (plain params flags ''app_show''))
      else if (grp, action) = (''app'', ''quit'') then Some (Ok (plain params flags ''app_quit''))
      else None)"

definition create_kind :: "string \<Rightarrow> (string \<times> string \<times> f64 \<times> f64, string) result" where
  "create_kind kind =
     (if kind = ''container'' then Ok (''container'', ''openDockOci'', f_lit (1 / 2), Fin 2)
      else if kind = ''gpu'' then Ok (''container'', ''openDockCuda'', f_lit (1 / 2), Fin 4)
      else if kind = ''vm'' \<or> kind = ''fullVm'' then Ok (''fullVm'', ''qemu'', Fin 1, Fin 4)
      else if kind = ''microvm'' \<or> kind = ''microVm'' then Ok (''microVm'', ''qemu'', Fin 1, Fin 2)
      else Err ''--kind must be container, gpu, vm, or microvm'')"

definition create_runtime :: "string \<Rightarrow> flags \<Rightarrow> (string \<times> flags, string) result" where
  "create_runtime kind flags =
     (let source = map_of flags ''source''; image = map_of flags ''image'';
          rest = map_remove ''image'' (map_remove ''source'' flags);
          fallback = (if kind = ''gpu'' then Some ''docker.io/library/ubuntu:24.04''
                      else if kind = ''container'' then Some ''docker.io/library/alpine:3.24''
                      else if kind = ''microvm'' \<or> kind = ''microVm'' then Some ''builtin:alpine''
                      else None)
      in if source \<noteq> None \<and> image \<noteq> None then Err ''Use --source or --image, not both''
         else result_bind (ok_or (case source of Some s \<Rightarrow> Some s | None \<Rightarrow> (case image of Some i \<Rightarrow> Some i | None \<Rightarrow> fallback))
                ''VM creation requires --source PATH_TO_ISO_OR_DISK'') (\<lambda>r. Ok (r, rest)))"

definition create_internet :: "flags \<Rightarrow> json_map \<Rightarrow> (json_map \<times> flags, string) result" where
  "create_internet flags request =
     (case map_of flags ''internet'' of
        None \<Rightarrow> Ok (request, flags)
      | Some v \<Rightarrow>
          if v = ''true'' then Ok (map_insert ''networkAccess'' (JBool True) request, map_remove ''internet'' flags)
          else if v = ''false'' then Ok (map_insert ''networkAccess'' (JBool False) request, map_remove ''internet'' flags)
          else Err ''--internet must be true or false'')"

definition create_storage :: "flags \<Rightarrow> json_map \<Rightarrow> (json_map \<times> flags, string) result" where
  "create_storage flags request =
     (if map_of flags ''storage'' \<noteq> None
      then result_bind (take_number flags ''storage'' (Fin 64))
             (\<lambda>(v, flags). Ok (map_insert ''storageGb'' (json_f64 v) request, flags))
      else Ok (request, flags))"

definition create_startup :: "string \<Rightarrow> flags \<Rightarrow> json_map \<Rightarrow> (json_map \<times> flags, string) result" where
  "create_startup backend_kind flags request =
     (let startup = map_of flags ''startup''; cmd = map_of flags ''command'';
          rest = map_remove ''command'' (map_remove ''startup'' flags)
      in if backend_kind \<noteq> ''container'' \<and> (startup \<noteq> None \<or> cmd \<noteq> None)
         then Err ''--startup and --command configure containers; VMs boot their source media''
         else if startup = Some ''image'' \<and> cmd = None
         then Ok (map_insert ''containerCommand'' (JStr []) request, rest)
         else if startup = None \<or> startup = Some ''keep-alive''
         then Ok ((case cmd of None \<Rightarrow> request | Some c \<Rightarrow> map_insert ''containerCommand'' (JStr c) request), rest)
         else Err ''Use --startup image to run the image's default service, or --command for a custom startup command'')"

definition create_request :: "flags \<Rightarrow> (json_map \<times> flags, string) result" where
  "create_request flags =
     (let kind = (case map_of flags ''kind'' of None \<Rightarrow> ''container'' | Some k \<Rightarrow> k);
          flags = map_remove ''kind'' flags
      in result_bind (create_kind kind) (\<lambda>(backend_kind, provider, least, memory).
         result_bind (create_runtime kind flags) (\<lambda>(runtime, flags).
         result_bind (required flags ''name'') (\<lambda>(name, flags).
           (let description = (case map_of flags ''description'' of None \<Rightarrow> [] | Some d \<Rightarrow> d);
                flags = map_remove ''description'' flags
            in result_bind (policy flags least memory) (\<lambda>(resource_policy, flags).
                 (let request = fold (\<lambda>(k, v). map_insert k v)
                        [(''name'', JStr name), (''kind'', JStr backend_kind), (''provider'', JStr provider),
                         (''runtime'', JStr runtime), (''description'', JStr description),
                         (''networkAccess'', JBool False), (''gpuAccess'', JBool (kind = ''gpu'')),
                         (''resourcePolicy'', resource_policy)] []
                  in result_bind (create_internet flags request) (\<lambda>(request, flags).
                     result_bind (create_storage flags request) (\<lambda>(request, flags).
                       create_startup backend_kind flags request)))))))))"

definition env_create :: "json_map \<Rightarrow> flags \<Rightarrow> (command, string) result" where
  "env_create params flags =
     (if params = [] then
        result_bind (create_request flags) (\<lambda>(request, flags).
          Ok (plain (map_insert ''request'' (JObj request) params) flags ''create_environment''))
      else Ok (plain params flags ''create_environment''))"

text \<open>Only the supplied fields of a resource range are sent.\<close>

fun resource_fields :: "string \<Rightarrow> (string \<times> string) list \<Rightarrow> flags \<Rightarrow> json_map \<Rightarrow> (json_map \<times> flags, string) result" where
  "resource_fields opt [] flags rng = Ok (rng, flags)"
| "resource_fields opt ((ending, fld) # others) flags rng =
     (if map_of flags (opt @ ending) \<noteq> None then
        result_bind (take_number flags (opt @ ending) (Fin 1)) (\<lambda>(v, flags).
          resource_fields opt others flags (map_insert fld (json_f64 v) rng))
      else resource_fields opt others flags rng)"

fun resource_ranges :: "(string \<times> string) list \<Rightarrow> json_map \<Rightarrow> flags \<Rightarrow> (json_map \<times> flags, string) result" where
  "resource_ranges [] params flags = Ok (params, flags)"
| "resource_ranges ((opt, key) # others) params flags =
     result_bind (resource_fields opt [(''-min'', ''min''), ([], ''preferred''), (''-max'', ''max'')] flags [])
       (\<lambda>(rng, flags). resource_ranges others
          (if rng \<noteq> [] then map_insert key (JObj rng) params else params) flags)"

definition env_resources :: "json_map \<Rightarrow> flags \<Rightarrow> (command, string) result" where
  "env_resources params flags =
     (if map_of params ''resourcePolicy'' \<noteq> None
      then Ok (targeted params flags ''environmentId'' ''update_resource_policy'')
      else result_bind (resource_ranges [(''cpu'', ''cpu''), (''memory'', ''memoryGb'')] params flags)
             (\<lambda>(params, flags). Ok (targeted params flags ''environmentId'' ''configure_resource_limits'')))"

definition env_storage :: "json_map \<Rightarrow> flags \<Rightarrow> command" where
  "env_storage params flags =
     (case map_of flags ''capacity'' of
        Some v \<Rightarrow> targeted params (map_insert ''capacity-gb'' v (map_remove ''capacity'' flags))
                    ''environmentId'' ''expand_environment_storage''
      | None \<Rightarrow> targeted params flags ''environmentId'' ''get_storage_allocation'')"

definition env_exec :: "string list \<Rightarrow> json_map \<Rightarrow> flags \<Rightarrow> (command, string) result" where
  "env_exec words params flags =
     result_bind
       (if params = [] then
          result_bind (ok_or (get_at words 2) ''An environment ID is required'') (\<lambda>i.
          result_bind (required flags ''command'') (\<lambda>(c, flags).
            Ok (map_insert ''request'' (json_obj [(''environmentId'', JStr i), (''command'', JStr c)]) params, flags)))
        else Ok (params, flags))
       (\<lambda>(params, flags).
          case get_at words 2 of
            None \<Rightarrow> Ok (plain params flags ''execute_environment_command'')
          | Some i \<Rightarrow>
              result_bind (ok_or (Option.bind (map_of params ''request'') as_object) ''Command request must be an object'')
                (\<lambda>request. result_bind (set_explicit request ''environmentId'' (JStr i)) (\<lambda>request.
                   Ok (plain (map_insert ''request'' (JObj request) params) flags ''execute_environment_command''))))"

definition env_command :: "string \<Rightarrow> bool \<Rightarrow> string list \<Rightarrow> json_map \<Rightarrow> flags \<Rightarrow> (command, string) result option" where
  "env_command action confirmed words params flags =
     (let target = (\<lambda>m. Some (Ok (targeted params flags ''environmentId'' m))) in
      if action = ''list'' then Some (Ok (selecting params flags ''environments''))
      else if action = ''show'' then
        Some (result_bind (ok_or (get_at words 2) ''An environment ID is required'') (\<lambda>i.
          Ok ((selecting params flags ''environments'')\<lparr>cmd_select := Some (''environments'', Some i)\<rparr>)))
      else if action = ''create'' then Some (env_create params flags)
      else if action \<in> {''start'', ''stop'', ''pause''} then
        Some (result_bind (set_explicit params ''status'' (JStr (if action = ''start'' then ''running''
            else if action = ''stop'' then ''stopped'' else ''paused'')))
          (\<lambda>params. Ok (targeted params flags ''environmentId'' ''set_environment_status'')))
      else if action = ''open'' then target ''open_environment_window''
      else if action = ''restart'' then target ''restart_environment''
      else if action = ''delete'' then target ''delete_environment''
      else if action = ''reset'' then target ''factory_reset_environment''
      else if action = ''recover'' then
        Some (Ok (targeted (map_insert ''confirmed'' (JBool confirmed) params) flags ''environmentId''
          ''recover_environment_runtime''))
      else if action = ''resources'' then Some (env_resources params flags)
      else if action = ''storage'' then Some (Ok (env_storage params flags))
      else if action = ''internet'' then target ''update_container_network''
      else if action = ''gpu'' then target ''update_environment_gpu''
      else if action = ''exec'' then Some (env_exec words params flags)
      else if action = ''console'' then target ''read_environment_console''
      else if action = ''skills'' then
        Some (Ok ((targeted params flags ''environmentId'' ''get_connection_skills'')\<lparr>cmd_markdown := True\<rparr>))
      else None)"

definition connection_create :: "json_map \<Rightarrow> flags \<Rightarrow> (command, string) result" where
  "connection_create params flags =
     (if params = [] then
        result_bind (required flags ''source'') (\<lambda>(source, flags).
        result_bind (required flags ''target'') (\<lambda>(target, flags).
          Ok (plain (map_insert ''request'' (json_obj
                [(''sourceId'', JStr source), (''targetId'', JStr target),
                 (''direction'', JStr (case map_of flags ''direction'' of None \<Rightarrow> ''bidirectional'' | Some d \<Rightarrow> d)),
                 (''permissions'', comma (case map_of flags ''permissions'' of None \<Rightarrow> ''files'' | Some p \<Rightarrow> p)),
                 (''ports'', comma (case map_of flags ''ports'' of None \<Rightarrow> [] | Some p \<Rightarrow> p)),
                 (''volume'', (case map_of flags ''volume'' of None \<Rightarrow> JNull | Some v \<Rightarrow> JStr v))]) params)
              (map_remove ''volume'' (map_remove ''ports'' (map_remove ''permissions'' (map_remove ''direction'' flags))))
              ''create_connection'')))
      else Ok (plain params flags ''create_connection''))"

definition connection_command :: "string \<Rightarrow> json_map \<Rightarrow> flags \<Rightarrow> (command, string) result option" where
  "connection_command action params flags =
     (if action = ''list'' then Some (Ok (selecting params flags ''connections''))
      else if action = ''create'' then Some (connection_create params flags)
      else if action \<in> {''enable'', ''disable''} then
        Some (result_bind (set_explicit params ''active'' (JBool (action = ''enable'')))
          (\<lambda>params. Ok (targeted params flags ''connectionId'' ''set_connection_active'')))
      else if action = ''delete'' then Some (Ok (targeted params flags ''connectionId'' ''delete_connection''))
      else None)"

definition sharing_command :: "string \<Rightarrow> string \<Rightarrow> json_map \<Rightarrow> flags \<Rightarrow> (command, string) result option" where
  "sharing_command grp action params flags =
     (if (grp, action) = (''share'', ''list'') then
        Some (Ok ((targeted params flags ''environmentId'' ''list_environment_services'')
          \<lparr>cmd_select := Some (''shares'', None)\<rparr>))
      else if (grp, action) = (''share'', ''add'') then
        Some (Ok (targeted (if map_of params ''readOnly'' = None then map_insert ''readOnly'' (JBool True) params else params)
          flags ''environmentId'' ''attach_host_folder''))
      else if (grp, action) = (''share'', ''remove'') then Some (Ok (targeted params flags ''shareId'' ''detach_host_folder''))
      else if (grp, action) = (''ports'', ''list'') then
        Some (Ok (targeted params flags ''environmentId'' ''list_environment_services''))
      else if grp = ''ports'' \<and> action \<in> {''add'', ''remove''} then
        Some (result_bind (set_explicit params ''present'' (JBool (action = ''add'')))
          (\<lambda>params. Ok (targeted params flags ''environmentId'' ''set_manual_service_port'')))
      else if (grp, action) = (''ports'', ''publish'') then
        Some (Ok (targeted params flags ''environmentId'' ''publish_environment_service''))
      else if (grp, action) = (''ports'', ''unpublish'') then
        Some (Ok (targeted params flags ''publicationId'' ''unpublish_environment_service''))
      else None)"

definition saving_command :: "string \<Rightarrow> string \<Rightarrow> json_map \<Rightarrow> flags \<Rightarrow> (command, string) result option" where
  "saving_command grp action params flags =
     (let target = (\<lambda>key m. Some (Ok (targeted params flags key m))) in
      if (grp, action) = (''snapshot'', ''list'') then Some (Ok (selecting params flags ''snapshots''))
      else if (grp, action) = (''snapshot'', ''create'') then target ''environmentId'' ''create_snapshot''
      else if (grp, action) = (''snapshot'', ''restore'') then target ''snapshotId'' ''restore_snapshot''
      else if (grp, action) = (''snapshot'', ''delete'') then target ''snapshotId'' ''delete_snapshot''
      else if (grp, action) = (''backup'', ''list'') then Some (Ok (selecting params flags ''backupRuns''))
      else if (grp, action) = (''backup'', ''destinations'') then Some (Ok (selecting params flags ''destinations''))
      else if (grp, action) = (''backup'', ''add-destination'') then Some (Ok (plain params flags ''add_backup_destination''))
      else if (grp, action) = (''backup'', ''delete-destination'') then target ''destinationId'' ''delete_backup_destination''
      else if (grp, action) = (''backup'', ''run'') then target ''environmentId'' ''run_backup''
      else if (grp, action) = (''backup'', ''restore'') then target ''backupId'' ''restore_backup''
      else if (grp, action) = (''backup'', ''export'') then target ''environmentId'' ''export_local_backup''
      else if (grp, action) = (''backup'', ''import'') then target ''path'' ''import_local_backup''
      else if (grp, action) = (''settings'', ''get'') then Some (Ok (selecting params flags ''settings''))
      else if (grp, action) = (''settings'', ''set'') then Some (Ok (plain params flags ''update_settings''))
      else None)"

definition guest_command :: "string \<Rightarrow> string \<Rightarrow> json_map \<Rightarrow> flags \<Rightarrow> (command, string) result option" where
  "guest_command grp action params flags =
     (let target = (\<lambda>key m. Some (Ok (targeted params flags key m))) in
      if (grp, action) = (''gpu'', ''status'') then Some (Ok (plain params flags ''get_cuda_runtime_status''))
      else if (grp, action) = (''gpu'', ''setup'') then Some (Ok (plain params flags ''install_cuda_runtime''))
      else if (grp, action) = (''gpu'', ''test'') then target ''environmentId'' ''verify_environment_cuda''
      else if grp = ''terminal'' \<and> action \<in> {''create'', ''read'', ''write'', ''resize'', ''close''} then
        Some (result_bind (set_explicit params ''action'' (JStr action))
          (\<lambda>params. Ok (targeted params flags ''environmentId'' ''terminal_action'')))
      else if (grp, action) = (''terminal'', ''install'') then target ''environmentId'' ''install_terminal_tool''
      else if (grp, action) = (''microvm'', ''apps'') then target ''environmentId'' ''micro_vm_apps''
      else if (grp, action) = (''microvm'', ''open'') then target ''environmentId'' ''open_micro_vm_app_window''
      else if (grp, action) = (''window'', ''list'') then Some (Ok (plain params flags ''list_environment_windows''))
      else if (grp, action) = (''window'', ''focus'') then target ''label'' ''focus_environment_window''
      else if (grp, action) = (''window'', ''close'') then target ''label'' ''close_environment_window''
      else if (grp, action) = (''window'', ''title'') then target ''label'' ''title_environment_window''
      else if (grp, action) = (''window'', ''capture'') then target ''label'' ''set_guest_keyboard_capture''
      else if (grp, action) = (''jobs'', ''list'') then Some (Ok (plain params flags ''jobs_list''))
      else if grp = ''jobs'' \<and> action \<in> {''get'', ''wait''} then target ''jobId'' ''jobs_get''
      else None)"

fun first_some :: "'a option list \<Rightarrow> 'a option" where
  "first_some [] = None"
| "first_some (Some x # xs) = Some x"
| "first_some (None # xs) = first_some xs"

definition command_for :: "string \<Rightarrow> string \<Rightarrow> bool \<Rightarrow> string list \<Rightarrow> json_map \<Rightarrow> flags \<Rightarrow> (command, string) result" where
  "command_for grp action confirmed words params flags =
     (case first_some
        [app_command grp action params flags,
         (if grp \<in> {''env'', ''environment''} then env_command action confirmed words params flags else None),
         (if grp = ''connection'' then connection_command action params flags else None),
         sharing_command grp action params flags,
         saving_command grp action params flags,
         guest_command grp action params flags] of
        Some r \<Rightarrow> r
      | None \<Rightarrow> Err (''Unknown command '' @ quoted (grp @ '' '' @ action) @ ''. Run yougori-cli help.''))"

section \<open>Options into parameters\<close>

text \<open>An explicit verb or positional target cannot be redirected by an option.\<close>

definition protected_key :: "string \<Rightarrow> string \<Rightarrow> string option \<Rightarrow> string list \<Rightarrow> string \<Rightarrow> bool" where
  "protected_key grp action positional words key \<longleftrightarrow>
     positional = Some key \<and> 2 < length words
     \<or> grp \<in> {''env'', ''environment''} \<and> action \<in> {''start'', ''stop'', ''pause''} \<and> key = ''status''
     \<or> grp = ''connection'' \<and> action \<in> {''enable'', ''disable''} \<and> key = ''active''
     \<or> grp = ''ports'' \<and> action \<in> {''add'', ''remove''} \<and> key = ''present''
     \<or> grp = ''terminal'' \<and> action \<in> {''create'', ''read'', ''write'', ''resize'', ''close''} \<and> key = ''action''"

definition kind_of :: "Method \<Rightarrow> string \<Rightarrow> string option" where
  "kind_of m key = first_some (map (\<lambda>spec. case split_once (CHR '':'') spec of
       None \<Rightarrow> None
     | Some (name, kind) \<Rightarrow> if bare name = key then Some kind else None)
     (split_whitespace (method_parameters m)))"

definition flag_value :: "(string \<Rightarrow> (json, string) result) \<Rightarrow> string \<Rightarrow> string \<Rightarrow> string \<Rightarrow> (json, string) result" where
  "flag_value from_str key kind v =
     (if kind = ''string'' \<or> CHR ''|'' \<in> set kind then Ok (JStr v)
      else (case from_str v of Ok j \<Rightarrow> Ok j | Err _ \<Rightarrow> Err (key @ '' must be '' @ kind)))"

fun insert_flags :: "(string \<Rightarrow> (json, string) result) \<Rightarrow> Method \<Rightarrow> (string \<Rightarrow> bool) \<Rightarrow> flags \<Rightarrow> json_map
    \<Rightarrow> (json_map, string) result" where
  "insert_flags from_str m protect [] params = Ok params"
| "insert_flags from_str m protect ((name, v) # flags) params =
     (let key = camel name in
      result_bind (ok_or (kind_of m key) (''Unknown option for '' @ method_name m @ '': '' @ key)) (\<lambda>kind.
      result_bind (flag_value from_str key kind v) (\<lambda>j.
      result_bind (if protect key then set_explicit params key j else Ok (map_insert key j params)) (\<lambda>params.
        insert_flags from_str m protect flags params))))"

section \<open>Paths\<close>

definition path_key :: "string \<Rightarrow> string option" where
  "path_key m =
     (if m \<in> {''attach_host_folder'', ''import_local_backup''} then Some ''path''
      else if m = ''export_local_backup'' then Some ''folder''
      else None)"

definition absolute_path :: "(string \<Rightarrow> (string, string) result) \<Rightarrow> string \<Rightarrow> json_map \<Rightarrow> (json_map, string) result" where
  "absolute_path absolute m params =
     (case path_key m of
        None \<Rightarrow> Ok params
      | Some key \<Rightarrow>
          (case as_str (json_get (JObj params) key) of
             None \<Rightarrow> Ok params
           | Some v \<Rightarrow> result_bind (absolute v) (\<lambda>p. Ok (map_insert key (JStr p) params))))"

definition absolute_runtime :: "(string \<Rightarrow> (string, string) result) \<Rightarrow> string \<Rightarrow> json_map \<Rightarrow> (json_map, string) result" where
  "absolute_runtime absolute m params =
     (let request = json_get (JObj params) ''request'' in
      if m = ''create_environment'' \<and> json_get request ''provider'' = JStr ''qemu'' then
        (case as_str (json_get request ''runtime'') of
           None \<Rightarrow> Ok params
         | Some v \<Rightarrow>
             if starts_with ''builtin:'' v then Ok params
             else result_bind (absolute v) (\<lambda>p.
               (case json_set ''runtime'' (JStr p) request of
                  None \<Rightarrow> Ok params
                | Some r \<Rightarrow> Ok (map_insert ''request'' r params))))
      else Ok params)"

section \<open>The parser\<close>

definition finish :: "(string \<Rightarrow> (json, string) result) \<Rightarrow> (string \<Rightarrow> (string, string) result)
    \<Rightarrow> string \<Rightarrow> string \<Rightarrow> string list \<Rightarrow> command \<Rightarrow> (Method \<times> json_map, string) result" where
  "finish from_str absolute grp action words c =
     (let positional = cmd_positional c in
      result_bind
        (case positional of
           None \<Rightarrow> Ok (cmd_params c)
         | Some key \<Rightarrow>
             (case get_at words 2 of
                None \<Rightarrow> Ok (cmd_params c)
              | Some w \<Rightarrow> set_explicit (cmd_params c) key (JStr w)))
        (\<lambda>params.
          (let consumes_third = (positional \<noteq> None
                 \<or> grp \<in> {''env'', ''environment''} \<and> action \<in> {''show'', ''exec''})
           in if (if consumes_third then 3 else 2) < length words
              then Err ''Unexpected positional arguments; quote values containing spaces''
              else
                result_bind (find_method (cmd_method c)) (\<lambda>m.
                result_bind (insert_flags from_str m (protected_key grp action positional words)
                    (cmd_flags c) params) (\<lambda>params.
                result_bind (absolute_path absolute (cmd_method c) params) (\<lambda>params.
                result_bind (absolute_runtime absolute (cmd_method c) params) (\<lambda>params. Ok (m, params))))))))"

definition prepare :: "string list \<Rightarrow> (string \<Rightarrow> (json, string) result) \<Rightarrow> (string \<Rightarrow> (json, string) result)
    \<Rightarrow> (string \<Rightarrow> (string, string) result)
    \<Rightarrow> (Method \<times> json_map \<times> command \<times> bool \<times> bool \<times> bool \<times> nat, string) result" where
  "prepare args from_str read_json absolute =
     result_bind (scan_args args [] [] {}) (\<lambda>(words, flags).
     result_bind (toggle flags ''yes'') (\<lambda>(confirmed, flags).
     result_bind (toggle flags ''dry-run'') (\<lambda>(dry_run, flags).
     result_bind (toggle flags ''no-wait'') (\<lambda>(no_wait, flags).
     result_bind (take_timeout flags) (\<lambda>(timeout, flags).
     result_bind (take_input from_str read_json flags) (\<lambda>(params, flags).
       (let grp = (case get_at words 0 of None \<Rightarrow> [] | Some w \<Rightarrow> w);
            action = (case get_at words 1 of None \<Rightarrow> [] | Some w \<Rightarrow> w)
        in result_bind (command_for grp action confirmed words params flags) (\<lambda>c.
           result_bind (finish from_str absolute grp action words c) (\<lambda>(m, params).
             Ok (m, params, c, confirmed, dry_run, no_wait, timeout))))))))))"

definition parse :: "string list \<Rightarrow> (string \<Rightarrow> (json, string) result) \<Rightarrow> (string \<Rightarrow> (json, string) result)
    \<Rightarrow> (string \<Rightarrow> (string, string) result) \<Rightarrow> (Invocation, string) result option" where
  "parse args from_str read_json absolute =
     (case prepare args from_str read_json absolute of
        Err e \<Rightarrow> Some (Err e)
      | Ok (m, params, c, confirmed, dry_run, no_wait, timeout) \<Rightarrow>
          (case validate m (JObj params) of
             None \<Rightarrow> None
           | Some (Err e) \<Rightarrow> Some (Err e)
           | Some (Ok _) \<Rightarrow>
               Some (case (if \<not> confirmed \<and> \<not> dry_run then confirmation_for m (JObj params) else None) of
                  Some reason \<Rightarrow> Err (reason @ '' Repeat with --yes only if this is intended.'')
                | None \<Rightarrow> Ok \<lparr>inv_request = \<lparr>req_version = VERSION, req_method = cmd_method c,
                      req_params = JObj params, req_confirmed = confirmed, req_dry_run = dry_run\<rparr>,
                    inv_no_wait = no_wait, inv_timeout = timeout, inv_select = cmd_select c,
                    inv_markdown = cmd_markdown c\<rparr>)))"

definition project :: "json \<Rightarrow> (string \<times> string option) option \<Rightarrow> (json, string) result" where
  "project v select =
     (case select of
        None \<Rightarrow> Ok v
      | Some (key, i) \<Rightarrow>
          result_bind (ok_or (Option.bind (as_object v) (\<lambda>m. map_of m key)) (''Missing '' @ key @ '' in server response''))
            (\<lambda>values.
               case i of
                 None \<Rightarrow> Ok values
               | Some j \<Rightarrow> ok_or (Option.bind (as_array values) (List.find (\<lambda>x. json_get x ''id'' = JStr j)))
                   (''Environment '' @ quoted j @ '' not found'')))"

section \<open>Confirmation\<close>

lemma starts_dashes: "strip_prefix ''--'' a = Some name \<longleftrightarrow> a = ''--'' @ name"
  by (auto simp: strip_prefix_def starts_with_prefix prefix_def)

text \<open>A toggle that reads true was written on the command line.\<close>

lemma scan_args_yes:
  assumes "scan_args args words flags keys = Ok (words', flags')"
    and "map_of flags' ''yes'' = Some ''true''"
  shows "map_of flags ''yes'' = Some ''true'' \<or> ''--yes'' \<in> set args \<or> ''--yes=true'' \<in> set args"
  using assms
proof (induction "length args" arbitrary: args words flags keys rule: less_induct)
  case less
  note IH = less.hyps [OF _ _ less.prems(2)]
  show ?case
  proof (cases args)
    case Nil
    with less.prems show ?thesis by simp
  next
    case (Cons a rest)
    show ?thesis
    proof (cases "strip_prefix ''--'' a")
      case None
      with less.prems(1) Cons IH [of rest] show ?thesis by auto
    next
      case (Some name)
      then have a: "a = ''--'' @ name" by (simp add: starts_dashes)
      show ?thesis
      proof (cases "split_once (CHR ''='') name")
        case split: (Some nv)
        obtain n v where nv: "nv = (n, v)" by (cases nv)
        have ok: "scan_args rest words (map_insert n v flags) (insert (camel n) keys) = Ok (words', flags')"
          using less.prems(1) Cons Some split nv by (auto split: if_splits)
        have "name = n @ CHR ''='' # v" using split nv by (simp add: split_once_Some)
        then show ?thesis using IH [OF _ ok] Cons a by (auto simp: btree.lookup_insert split: if_splits)
      next
        case split: None
        show ?thesis
        proof (cases "name \<in> {''yes'', ''dry-run'', ''no-wait''}")
          case True
          then have "scan_args rest words (map_insert name ''true'' flags) (insert (camel name) keys) = Ok (words', flags')"
            using less.prems(1) Cons Some split by (auto split: if_splits)
          from IH [OF _ this] show ?thesis using Cons a True by (auto simp: btree.lookup_insert split: if_splits)
        next
          case False
          then obtain v rest' where r: "rest = v # rest'"
            "scan_args rest' words (map_insert name v flags) (insert (camel name) keys) = Ok (words', flags')"
            using less.prems(1) Cons Some split by (cases rest) (auto split: if_splits)
          from IH [OF _ r(2)] show ?thesis using Cons r(1) False
            by (auto simp: btree.lookup_insert split: if_splits)
        qed
      qed
    qed
  qed
qed

lemma toggle_Ok:
  "toggle flags name = Ok (b, flags') \<Longrightarrow> b \<longleftrightarrow> map_of flags name = Some ''true''"
  by (auto simp: toggle_def split: option.splits if_splits)

lemma take_timeout_Ok: "take_timeout flags = Ok (t, flags') \<Longrightarrow> 1 \<le> t \<and> t \<le> 86400"
  unfolding take_timeout_def
  by (cases "case map_of flags ''timeout'' of None \<Rightarrow> Ok 3600
      | Some v \<Rightarrow> ok_or (parse_u64 v) ''--timeout must be seconds''") (simp_all split: if_split_asm)

lemma finish_method:
  "finish from_str absolute grp action words c = Ok (m, params) \<Longrightarrow> find_method (cmd_method c) = Ok m"
  unfolding finish_def Let_def by (auto split: if_splits)

lemma prepareE:
  assumes "prepare args from_str read_json absolute = Ok (m, params, c, confirmed, dry_run, no_wait, timeout)"
  obtains words flags flags1 params0 flags2 where "scan_args args [] [] {} = Ok (words, flags)"
    "confirmed \<longleftrightarrow> map_of flags ''yes'' = Some ''true''" "1 \<le> timeout \<and> timeout \<le> 86400"
    "command_for (case get_at words 0 of None \<Rightarrow> [] | Some w \<Rightarrow> w)
       (case get_at words 1 of None \<Rightarrow> [] | Some w \<Rightarrow> w) confirmed words params0 flags2 = Ok c"
    "finish from_str absolute (case get_at words 0 of None \<Rightarrow> [] | Some w \<Rightarrow> w)
       (case get_at words 1 of None \<Rightarrow> [] | Some w \<Rightarrow> w) words c = Ok (m, params)"
    "find_method (cmd_method c) = Ok m"
proof -
  from assms obtain words flags f1 d f2 n f3 t f4 p0 f5 where
    s: "scan_args args [] [] {} = Ok (words, flags)" "toggle flags ''yes'' = Ok (confirmed, f1)"
    "toggle f1 ''dry-run'' = Ok (dry_run, f2)" "toggle f2 ''no-wait'' = Ok (no_wait, f3)"
    "take_timeout f3 = Ok (timeout, f4)" "take_input from_str read_json f4 = Ok (p0, f5)"
    "command_for (case get_at words 0 of None \<Rightarrow> [] | Some w \<Rightarrow> w)
       (case get_at words 1 of None \<Rightarrow> [] | Some w \<Rightarrow> w) confirmed words p0 f5 = Ok c"
    "finish from_str absolute (case get_at words 0 of None \<Rightarrow> [] | Some w \<Rightarrow> w)
       (case get_at words 1 of None \<Rightarrow> [] | Some w \<Rightarrow> w) words c = Ok (m, params)"
    unfolding prepare_def Let_def by (auto simp only: result_bind_Ok split_paired_all prod.case prod.inject result.inject) 
  show thesis
    by (rule that [OF s(1) toggle_Ok [OF s(2)] take_timeout_Ok [OF s(5)] s(7,8) finish_method [OF s(8)]])
qed

lemma parse_OkE:
  assumes "parse args from_str read_json absolute = Some (Ok call)"
  obtains m params c confirmed dry_run no_wait timeout where
    "prepare args from_str read_json absolute = Ok (m, params, c, confirmed, dry_run, no_wait, timeout)"
    "validate m (JObj params) = Some (Ok ())"
    "confirmed \<or> dry_run \<or> confirmation_for m (JObj params) = None"
    "inv_request call = \<lparr>req_version = VERSION, req_method = cmd_method c, req_params = JObj params,
       req_confirmed = confirmed, req_dry_run = dry_run\<rparr>"
    "inv_timeout call = timeout"
  using assms unfolding parse_def
  by (auto split: result.splits prod.splits option.splits if_splits)


section \<open>Targets and verbs\<close>

lemma set_explicit_Ok:
  "set_explicit params key v = Ok params' \<longleftrightarrow>
     params' = map_insert key v params \<and> (\<forall>w. map_of params key = Some w \<longrightarrow> w = v)"
  by (auto simp: set_explicit_def split: option.splits)

lemma insert_flags_protected:
  assumes "insert_flags from_str m protect flags params = Ok params'" and "protect key"
    and "map_of params key = Some v"
  shows "map_of params' key = Some v"
  using assms
proof (induction from_str m protect flags params rule: insert_flags.induct)
  case (2 from_str m protect name w flags params)
  from "2.prems"(1) obtain kind j params1 where
    s: "kind_of m (camel name) = Some kind" "flag_value from_str (camel name) kind w = Ok j"
    "(if protect (camel name) then set_explicit params (camel name) j else Ok (map_insert (camel name) j params)) = Ok params1"
    "insert_flags from_str m protect flags params1 = Ok params'"
    by (auto simp: Let_def)
  have "map_of params1 key = Some v"
    using s(3) "2.prems"(2,3) by (cases "camel name = key")
      (auto simp: set_explicit_Ok btree.lookup_insert split: if_splits)
  from "2.IH" [OF refl s(4) "2.prems"(2) this] show ?case .
qed simp

lemma absolute_keeps:
  assumes "absolute_path absolute m params = Ok params1" and "absolute_runtime absolute m params1 = Ok params2"
    and "path_key m \<noteq> Some key" and "key \<noteq> ''request''"
  shows "map_of params2 key = map_of params key"
proof -
  have "map_of params1 key = map_of params key"
    using assms(1,3) by (auto simp: absolute_path_def btree.lookup_insert split: option.splits)
  moreover have "map_of params2 key = map_of params1 key"
    using assms(2,4) unfolding absolute_runtime_def Let_def
    by (auto simp: btree.lookup_insert split: option.splits if_splits)
  ultimately show ?thesis by simp
qed

text \<open>A parameter that the verb fixed, or the positional target, is in the final parameters.\<close>

lemma finish_keeps:
  assumes "finish from_str absolute grp action words c = Ok (m, params)"
    and "protected_key grp action (cmd_positional c) words key"
    and "cmd_positional c = Some key \<and> v = JStr (words ! 2) \<or>
         cmd_positional c \<noteq> Some key \<and> map_of (cmd_params c) key = Some v"
    and "2 < length words" and "path_key (cmd_method c) \<noteq> Some key" and "key \<noteq> ''request''"
  shows "json_get (JObj params) key = v"
proof -
  from assms(1) obtain p1 p2 p3 where
    s: "(case cmd_positional c of None \<Rightarrow> Ok (cmd_params c)
         | Some key \<Rightarrow> (case get_at words 2 of None \<Rightarrow> Ok (cmd_params c)
              | Some w \<Rightarrow> set_explicit (cmd_params c) key (JStr w))) = Ok p1"
    "insert_flags from_str m (protected_key grp action (cmd_positional c) words) (cmd_flags c) p1 = Ok p2"
    "absolute_path absolute (cmd_method c) p2 = Ok p3" "absolute_runtime absolute (cmd_method c) p3 = Ok params"
    unfolding finish_def Let_def by (auto split: if_splits)
  have "map_of p1 key = Some v"
    using s(1) assms(3,4)
    by (auto simp: get_at_def set_explicit_Ok btree.lookup_insert split: option.splits)
  then have "map_of p2 key = Some v" by (rule insert_flags_protected [OF s(2) assms(2)])
  then show ?thesis using absolute_keeps [OF s(3,4) assms(5,6)] by simp
qed


section \<open>A command line\<close>

abbreviation no_json :: "string \<Rightarrow> (json, string) result" where
  "no_json \<equiv> \<lambda>_. Err []"

definition example_args :: "string list" where
  "example_args = [''env'', ''start'', ''e1'', ''--yes'']"

lemma example_scan: "scan_args example_args [] [] {} = Ok ([''env'', ''start'', ''e1''], [(''yes'', ''true'')])"
  by (simp add: example_args_def strip_prefix_def camel_def)

lemma example_found:
  obtains m where "find_method ''set_environment_status'' = Ok m"
    "method_parameters m = ''environmentId:string status:running|stopped|paused''"
    "method_confirmation m = None" "method_name m = ''set_environment_status''"
  by (simp add: find_method_def methods_def methods_1_def new_method_def)

lemma example_parse:
  "\<exists>call. parse example_args no_json no_json Ok = Some (Ok call) \<and> req_confirmed (inv_request call)"
proof -
  obtain m where m: "find_method ''set_environment_status'' = Ok m"
    "method_parameters m = ''environmentId:string status:running|stopped|paused''"
    "method_confirmation m = None" "method_name m = ''set_environment_status''" by (rule example_found)
  define ps where "ps = [(''environmentId'', JStr ''e1''), (''status'', JStr ''running'')]"
  have p: "prepare example_args no_json no_json Ok = Ok (m, ps,
      targeted [(''status'', JStr ''running'')] [] ''environmentId'' ''set_environment_status'', True, False, False, 3600)"
    by (simp add: prepare_def example_scan toggle_def take_timeout_def take_input_def json_obj_def get_at_def
        command_for_def app_command_def env_command_def set_explicit_def finish_def targeted_def plain_def
        m absolute_path_def absolute_runtime_def path_key_def ps_def Let_def)
  have d: "definitions m = Some [(''environmentId'', ''string''), (''status'', ''running|stopped|paused'')]"
    unfolding definitions_def m(2) by code_simp
  have "validate m (JObj ps) = Some (Ok ())"
    by (simp add: validate_def d m ps_def bare_def trim_end_matches_def valid_kind_def Let_def)
  then show ?thesis using m p by (simp add: parse_def)
qed

section \<open>Properties\<close>

text \<open>
  What the parser accepts is what the backend documents: the method exists, its
  parameters conform to the contract, the time limit is between a second and a day, and a
  request whose method asks for confirmation is either confirmed or a dry run.
\<close>

theorem parse_guarded:
  assumes "parse args from_str read_json absolute = Some (Ok call)"
  shows "\<exists>m. find_method (req_method (inv_request call)) = Ok m
    \<and> conforms m (req_params (inv_request call))
    \<and> (req_confirmed (inv_request call) \<or> req_dry_run (inv_request call)
        \<or> confirmation_for m (req_params (inv_request call)) = None)
    \<and> 1 \<le> inv_timeout call \<and> inv_timeout call \<le> 86400"
proof -
  from assms obtain m params c confirmed dry_run no_wait timeout where
    p: "prepare args from_str read_json absolute = Ok (m, params, c, confirmed, dry_run, no_wait, timeout)"
    "validate m (JObj params) = Some (Ok ())" "confirmed \<or> dry_run \<or> confirmation_for m (JObj params) = None"
    "inv_request call = \<lparr>req_version = VERSION, req_method = cmd_method c, req_params = JObj params,
       req_confirmed = confirmed, req_dry_run = dry_run\<rparr>" "inv_timeout call = timeout"
    by (rule parse_OkE)
  have "find_method (cmd_method c) = Ok m" "1 \<le> timeout \<and> timeout \<le> 86400"
    using p(1) by (auto elim: prepareE)
  with p show ?thesis by (auto simp: validate_conforms)
qed

theorem parse_guarded_witness:
  "\<exists>call m. parse example_args no_json no_json Ok = Some (Ok call)
     \<and> find_method (req_method (inv_request call)) = Ok m \<and> conforms m (req_params (inv_request call))"
  using example_parse parse_guarded by blast

lemma parse_confirmed:
  assumes "parse args from_str read_json absolute = Some (Ok call)" and "req_confirmed (inv_request call)"
  shows "''--yes'' \<in> set args \<or> ''--yes=true'' \<in> set args"
proof -
  from assms(1) obtain m params c confirmed dry_run no_wait timeout where
    p: "prepare args from_str read_json absolute = Ok (m, params, c, confirmed, dry_run, no_wait, timeout)"
    "inv_request call = \<lparr>req_version = VERSION, req_method = cmd_method c, req_params = JObj params,
       req_confirmed = confirmed, req_dry_run = dry_run\<rparr>"
    by (rule parse_OkE)
  from p(1) obtain words flags where "scan_args args [] [] {} = Ok (words, flags)"
    "confirmed \<longleftrightarrow> map_of flags ''yes'' = Some ''true''" by (rule prepareE)
  with p(2) assms(2) show ?thesis using scan_args_yes [of args "[]" "[]" "{}" words flags] by simp
qed

text \<open>The parser returns on every command line: no input reaches the panic of a malformed contract.\<close>

lemma parse_total: "\<exists>r. parse args from_str read_json absolute = Some r"
proof (cases "prepare args from_str read_json absolute")
  case (Ok t)
  obtain m params c b1 b2 b3 n where t: "t = (m, params, c, b1, b2, b3, n)" by (cases t)
  have "find_method (cmd_method c) = Ok m" using Ok t by (auto elim: prepareE)
  then obtain r where "validate m (JObj params) = Some r" using validate_total by blast
  with Ok t show ?thesis by (cases r) (simp_all add: parse_def)
qed (simp add: parse_def)

definition verb_method :: "string \<Rightarrow> string option" where
  "verb_method = map_of [(''start'', ''set_environment_status''), (''stop'', ''set_environment_status''),
     (''pause'', ''set_environment_status''), (''restart'', ''restart_environment''),
     (''delete'', ''delete_environment''), (''reset'', ''factory_reset_environment''),
     (''open'', ''open_environment_window''), (''internet'', ''update_container_network'')]"

definition verb_status :: "string \<Rightarrow> string option" where
  "verb_status = map_of [(''start'', ''running''), (''stop'', ''stopped''), (''pause'', ''paused'')]"

lemma command_for_env:
  "env_command action confirmed words params flags = Some r \<Longrightarrow>
   command_for ''env'' action confirmed words params flags = r"
  by (simp add: command_for_def app_command_def)

lemma env_verb:
  assumes "verb_method verb = Some method" and "command_for ''env'' verb confirmed words params flags = Ok c"
  shows "cmd_method c = method \<and> cmd_positional c = Some ''environmentId'' \<and> path_key method = None
    \<and> (\<forall>status. verb_status verb = Some status \<longrightarrow> map_of (cmd_params c) ''status'' = Some (JStr status)
         \<and> verb \<in> {''start'', ''stop'', ''pause''})"
proof -
  consider "verb \<in> {''start'', ''stop'', ''pause''}" "method = ''set_environment_status''"
    | "verb = ''restart''" "method = ''restart_environment''" | "verb = ''delete''" "method = ''delete_environment''"
    | "verb = ''reset''" "method = ''factory_reset_environment''" | "verb = ''open''" "method = ''open_environment_window''"
    | "verb = ''internet''" "method = ''update_container_network''"
    using assms(1) by (auto simp: verb_method_def split: if_splits)
  then show ?thesis
  proof cases
    case 1
    then obtain st where st: "verb_status verb = Some st" "env_command verb confirmed words params flags =
        Some (result_bind (set_explicit params ''status'' (JStr st))
          (\<lambda>params. Ok (targeted params flags ''environmentId'' ''set_environment_status'')))"
      by (auto simp: env_command_def verb_status_def)
    have "result_bind (set_explicit params ''status'' (JStr st))
        (\<lambda>params. Ok (targeted params flags ''environmentId'' ''set_environment_status'')) = Ok c"
      using command_for_env [OF st(2)] assms(2) by simp
    then have "c = targeted (map_insert ''status'' (JStr st) params) flags ''environmentId'' ''set_environment_status''"
      by (auto simp: set_explicit_Ok)
    with "1" st(1) show ?thesis by (simp add: targeted_def plain_def btree.lookup_insert path_key_def)
  qed (use assms(2) in \<open>simp_all add: command_for_env env_command_def targeted_def plain_def path_key_def
        verb_status_def, auto\<close>)
qed

text \<open>
  A verb and its target cannot be redirected: with the words \<open>env VERB ID\<close> the request
  is the verb's method for that very environment, and a start, stop or pause asks for that
  very status, whatever options and JSON parameters are added.
\<close>

theorem explicit_target:
  assumes "parse args from_str read_json absolute = Some (Ok call)"
    and "scan_args args [] [] {} = Ok ([''env'', verb, i], flags)" and "verb_method verb = Some method"
  shows "req_method (inv_request call) = method
    \<and> json_get (req_params (inv_request call)) ''environmentId'' = JStr i
    \<and> (\<forall>status. verb_status verb = Some status \<longrightarrow>
        json_get (req_params (inv_request call)) ''status'' = JStr status)"
proof -
  from assms(1) obtain m params c confirmed dry_run no_wait timeout where
    p: "prepare args from_str read_json absolute = Ok (m, params, c, confirmed, dry_run, no_wait, timeout)"
    "inv_request call = \<lparr>req_version = VERSION, req_method = cmd_method c, req_params = JObj params,
       req_confirmed = confirmed, req_dry_run = dry_run\<rparr>"
    by (rule parse_OkE)
  from p(1) obtain p0 f2 where
    c: "command_for ''env'' verb confirmed [''env'', verb, i] p0 f2 = Ok c"
    and f: "finish from_str absolute ''env'' verb [''env'', verb, i] c = Ok (m, params)"
    by (rule prepareE) (use assms(2) in \<open>auto simp: get_at_def\<close>)
  have c': "cmd_method c = method" "cmd_positional c = Some ''environmentId''" "path_key (cmd_method c) = None"
    using env_verb [OF assms(3) c] by auto
  have "json_get (JObj params) ''environmentId'' = JStr i"
    by (rule finish_keeps [OF f]) (simp_all add: protected_key_def c'(2,3))
  moreover have "json_get (JObj params) ''status'' = JStr status" if "verb_status verb = Some status" for status
  proof (rule finish_keeps [OF f])
    show "protected_key ''env'' verb (cmd_positional c) [''env'', verb, i] ''status''"
      using that env_verb [OF assms(3) c] by (auto simp: protected_key_def)
  qed (use that c'(2,3) env_verb [OF assms(3) c] in simp_all)
  ultimately show ?thesis using p(2) c'(1) by simp
qed

theorem explicit_target_witness:
  "\<exists>call. parse example_args no_json no_json Ok = Some (Ok call)
     \<and> json_get (req_params (inv_request call)) ''status'' = JStr ''running''"
proof -
  obtain call where "parse example_args no_json no_json Ok = Some (Ok call)" using example_parse by blast
  with explicit_target [OF this example_scan, of "''set_environment_status''"] show ?thesis
    by (simp add: verb_method_def verb_status_def)
qed

end
