(* ===== verification/Cli_Client.thy ===== *)
theory Cli_Client
  imports Cli_Parse Wire
begin

text \<open>
  The rest of the command line: the coloured output (\<open>cli/src/output.rs\<close>), waiting for a job
  (\<open>cli/src/client.rs\<close>) and the program itself with its exit code (\<open>cli/src/main.rs\<close>). Texts
  are their UTF-8 bytes. The JSON printer of \<open>serde_json\<close>, the terminal, the engine's answers and
  the clock are arguments.
\<close>

section \<open>Coloured output\<close>

definition ESC :: char where
  "ESC = CHR 0x1B"

definition sgr :: "string \<Rightarrow> string" where
  "sgr code = ESC # CHR ''['' # code @ ''m''"

definition enabled :: "bool \<Rightarrow> string option \<Rightarrow> string option \<Rightarrow> bool" where
  "enabled terminal no_color term_name \<longleftrightarrow> terminal
     \<and> \<not> (case no_color of None \<Rightarrow> False | Some v \<Rightarrow> v \<noteq> [])
     \<and> term_name \<notin> {Some ''dumb'', Some ''xterm-mono''}"

definition paint :: "string \<Rightarrow> string \<Rightarrow> string" where
  "paint text color = color @ text @ sgr ''0''"

text \<open>
  The end of a string literal after its opening quote: the rest of the literal and what follows.
  An escape at the very end moves the index past the text, and taking the slice panics.
\<close>

fun string_end :: "string \<Rightarrow> (string \<times> string) option" where
  "string_end [] = Some ([], [])"
| "string_end (c # cs) =
     (if c = CHR 0x5C then
        (case cs of [] \<Rightarrow> None
         | d # ds \<Rightarrow> map_option (\<lambda>(t, r). (c # d # t, r)) (string_end ds))
      else if c = CHR 0x22 then Some ([c], cs)
      else map_option (\<lambda>(t, r). (c # t, r)) (string_end cs))"

lemma string_end_append: "string_end s = Some (t, r) \<Longrightarrow> t @ r = s"
  by (induction s arbitrary: t r rule: string_end.induct) (auto split: if_splits list.splits)

definition token_end :: "char \<Rightarrow> bool" where
  "token_end c \<longleftrightarrow> c \<in> {CHR '','', CHR '']'', CHR ''}'', CHR '' '', CHR 0x0D, CHR 0x0A}"

definition token_start :: "char \<Rightarrow> bool" where
  "token_start c \<longleftrightarrow> c \<in> {CHR ''-'', CHR ''t'', CHR ''f'', CHR ''n''} \<or> is_digit c"

definition token_color :: "string \<Rightarrow> string" where
  "token_color token =
     sgr (if token = ''true'' then ''92'' else if token = ''false'' then ''91''
          else if token = ''null'' then ''90'' else ''93'')"

text \<open>\<open>push (byte as char)\<close>: a byte of 128 and more is a character of two bytes.\<close>

definition push_byte :: "char \<Rightarrow> string" where
  "push_byte c = (let n = of_char c :: nat in
     if n < 128 then [c] else [char_of (192 + n div 64), char_of (128 + n mod 64)])"

function color_from :: "string \<Rightarrow> string option" where
  "color_from [] = Some []"
| "color_from (c # cs) =
     (if c = CHR 0x22 then
        (case string_end cs of
           None \<Rightarrow> None
         | Some (t, r) \<Rightarrow>
             map_option (\<lambda>out. paint (c # t) (sgr (if starts_with '':'' (trim_start r) then ''96'' else ''92'')) @ out)
               (color_from r))
      else if token_start c then
        (let t = takeWhile (\<lambda>d. \<not> token_end d) cs in
         map_option (\<lambda>out. paint (c # t) (token_color (c # t)) @ out) (color_from (drop (length t) cs)))
      else map_option (\<lambda>out. push_byte c @ out) (color_from cs))"
  by pat_completeness auto
termination
  by (relation "measure length") (auto dest!: string_end_append)

definition json_text :: "(json \<Rightarrow> string) \<Rightarrow> json \<Rightarrow> bool \<Rightarrow> string option" where
  "json_text pretty v color = (if \<not> color then Some (pretty v) else color_from (pretty v))"

text \<open>Help texts, line by line.\<close>

fun split_inclusive :: "string \<Rightarrow> string list" where
  "split_inclusive [] = []"
| "split_inclusive (c # cs) =
     (if c = CHR 0x0A then [c] # split_inclusive cs
      else (case split_inclusive cs of [] \<Rightarrow> [[c]] | w # ws \<Rightarrow> (c # w) # ws))"

fun split_spaces :: "string \<Rightarrow> (string \<times> string) option" where
  "split_spaces [] = None"
| "split_spaces (c # cs) =
     (if starts_with ''  '' (c # cs) then Some ([], tl cs)
      else map_option (\<lambda>(a, b). (c # a, b)) (split_spaces cs))"

definition help_words :: "string list" where
  "help_words = [''app'', ''env'', ''connection'', ''share'', ''ports'', ''snapshot'', ''backup'', ''gpu'',
     ''terminal'', ''microvm'', ''window'', ''settings'', ''jobs'', ''skills'', ''schema'', ''call'']"

definition help_command :: "string \<Rightarrow> string option" where
  "help_command content =
     (case strip_prefix ''  '' content of
        None \<Rightarrow> None
      | Some line \<Rightarrow>
          (case split_whitespace line of
             [] \<Rightarrow> None
           | w # _ \<Rightarrow> if w \<in> set help_words then Some line else None))"

definition strip_newline :: "string \<Rightarrow> string" where
  "strip_newline line = (if ends_with [CHR 0x0A] line then butlast line else line)"

definition help_line :: "string \<Rightarrow> string" where
  "help_line line =
     (let content = strip_newline line in
      (if starts_with ''Yougori CLI'' content \<or> ends_with '':'' content then paint content (sgr ''1;96'')
       else
         (case help_command content of
            Some cmd \<Rightarrow>
              (let (usage, description) = (case split_spaces cmd of None \<Rightarrow> (cmd, []) | Some p \<Rightarrow> p) in
               ''  '' @ paint usage (sgr ''93'') @ (if description \<noteq> [] then ''  '' @ description else []))
          | None \<Rightarrow> content))
      @ (if ends_with [CHR 0x0A] line then [CHR 0x0A] else []))"

definition help_text :: "string \<Rightarrow> bool \<Rightarrow> string" where
  "help_text text color = (if \<not> color then text else concat (map help_line (split_inclusive text)))"

text \<open>A text without its colour sequences.\<close>

function without_sgr :: "string \<Rightarrow> string" where
  "without_sgr [] = []"
| "without_sgr (c # cs) =
     (if c = ESC then without_sgr (tl (dropWhile (\<lambda>d. d \<noteq> CHR ''m'') cs)) else c # without_sgr cs)"
  by pat_completeness auto
termination
proof (relation "measure length")
  fix cs :: string
  have "length (tl (dropWhile (\<lambda>d. d \<noteq> CHR ''m'') cs)) \<le> length cs"
    using length_dropWhile_le [of "\<lambda>d. d \<noteq> CHR ''m''" cs] by simp
  then show "(tl (dropWhile (\<lambda>d. d \<noteq> CHR ''m'') cs), c # cs) \<in> measure length" for c by simp
qed simp_all

lemma without_sgr_plain [simp]: "ESC \<notin> set s \<Longrightarrow> without_sgr (s @ r) = s @ without_sgr r"
  by (induction s) auto

lemma without_sgr_id [simp]: "ESC \<notin> set s \<Longrightarrow> without_sgr s = s"
  using without_sgr_plain [of s "[]"] by simp

lemma without_sgr_code [simp]: "CHR ''m'' \<notin> set code \<Longrightarrow> without_sgr (sgr code @ r) = without_sgr r"
  by (induction code) (auto simp: sgr_def)

lemma without_sgr_paint:
  "CHR ''m'' \<notin> set code \<Longrightarrow> ESC \<notin> set text \<Longrightarrow> without_sgr (paint text (sgr code) @ r) = text @ without_sgr r"
  by (simp add: paint_def)

text \<open>The tokens a JSON printer writes: string literals, words, punctuation and white space.\<close>

fun string_body :: "string \<Rightarrow> bool" where
  "string_body [] = True"
| "string_body (c # cs) =
     (if c = CHR 0x5C then (case cs of [] \<Rightarrow> False | d # ds \<Rightarrow> string_body ds)
      else c \<noteq> CHR 0x22 \<and> string_body cs)"

inductive json_tokens :: "string \<Rightarrow> bool" where
  tokens_end: "json_tokens []"
| tokens_string: "string_body b \<Longrightarrow> json_tokens r \<Longrightarrow> json_tokens (CHR 0x22 # b @ CHR 0x22 # r)"
| tokens_word: "token_start c \<Longrightarrow> list_all (\<lambda>d. \<not> token_end d) w \<Longrightarrow> r = [] \<or> token_end (hd r) \<Longrightarrow> json_tokens r
    \<Longrightarrow> json_tokens (c # w @ r)"
| tokens_punct: "c \<in> {CHR ''{'', CHR ''}'', CHR ''['', CHR '']'', CHR '','', CHR '':'', CHR '' '', CHR 0x0A}
    \<Longrightarrow> json_tokens r \<Longrightarrow> json_tokens (c # r)"

lemma string_end_body: "string_body b \<Longrightarrow> string_end (b @ CHR 0x22 # r) = Some (b @ [CHR 0x22], r)"
  by (induction b rule: string_body.induct) (auto split: list.splits if_splits)

lemma takeWhile_word:
  "list_all (\<lambda>d. \<not> token_end d) w \<Longrightarrow> r = [] \<or> token_end (hd r) \<Longrightarrow> takeWhile (\<lambda>d. \<not> token_end d) (w @ r) = w"
  by (induction w) (auto simp: takeWhile_eq_Nil_iff)

lemma push_byte_ascii [simp]: "(of_char c :: nat) < 128 \<Longrightarrow> push_byte c = [c]"
  by (simp add: push_byte_def)

lemma color_tokens:
  "json_tokens s \<Longrightarrow> ESC \<notin> set s \<Longrightarrow> \<exists>out. color_from s = Some out \<and> without_sgr out = s"
proof (induction rule: json_tokens.induct)
  case (tokens_string b r)
  then obtain out where out: "color_from r = Some out" "without_sgr out = r" by auto
  let ?code = "if starts_with '':'' (trim_start r) then ''96'' else ''92''"
  have "color_from (CHR 0x22 # b @ CHR 0x22 # r) = Some (paint (CHR 0x22 # b @ [CHR 0x22]) (sgr ?code) @ out)"
    using string_end_body [OF tokens_string(1), of r] out by simp
  moreover have "without_sgr (paint (CHR 0x22 # b @ [CHR 0x22]) (sgr ?code) @ out) = (CHR 0x22 # b @ [CHR 0x22]) @ without_sgr out"
    using tokens_string.prems by (intro without_sgr_paint) (auto simp: ESC_def)
  ultimately show ?case using out by simp
next
  case (tokens_word c w r)
  then obtain out where out: "color_from r = Some out" "without_sgr out = r" by auto
  have q: "c \<noteq> CHR 0x22" using tokens_word(1) by (auto simp: token_start_def is_digit_def)
  obtain code where code: "token_color (c # w) = sgr code" "CHR ''m'' \<notin> set code" by (simp add: token_color_def)
  have "color_from (c # w @ r) = Some (paint (c # w) (sgr code) @ out)"
    using takeWhile_word [OF tokens_word(2,3)] q tokens_word(1) out code by (simp add: Let_def)
  moreover have "without_sgr (paint (c # w) (sgr code) @ out) = (c # w) @ without_sgr out"
    using tokens_word.prems code(2) by (intro without_sgr_paint) auto
  ultimately show ?case using out by simp
next
  case (tokens_punct c r)
  then obtain out where out: "color_from r = Some out" "without_sgr out = r" by auto
  have c: "c \<noteq> CHR 0x22" "\<not> token_start c" "push_byte c = [c]"
    using tokens_punct(1) by (auto simp: token_start_def is_digit_def push_byte_def)
  have "color_from (c # r) = Some (c # out)" using c out by simp
  then show ?case using out tokens_punct.prems by auto
qed simp

text \<open>
  Colours never change the output: for every text a JSON printer can write, the coloured
  text exists, and removing the colour sequences gives the plain text back byte for byte.
\<close>

theorem coloured_json_plain:
  assumes "json_tokens (pretty v)" and "ESC \<notin> set (pretty v)"
  shows "\<exists>out. json_text pretty v True = Some out \<and> without_sgr out = pretty v
    \<and> json_text pretty v False = Some (pretty v)"
  using color_tokens [OF assms] by (auto simp: json_text_def)

theorem coloured_json_plain_witness:
  "\<exists>out. json_text (\<lambda>_. [CHR ''{'', CHR 0x22, CHR ''a'', CHR 0x22, CHR '':'', CHR '' '', CHR ''7'', CHR ''}'']) JNull True = Some out
     \<and> out \<noteq> [] \<and> without_sgr out = [CHR ''{'', CHR 0x22, CHR ''a'', CHR 0x22, CHR '':'', CHR '' '', CHR ''7'', CHR ''}'']"
proof -
  let ?r = "[CHR '':'', CHR '' '', CHR ''7'', CHR ''}'']"
  have "json_tokens [CHR ''}'']" by (rule tokens_punct) (auto intro: tokens_end)
  then have "json_tokens (CHR ''7'' # [] @ [CHR ''}''])"
    by (rule tokens_word [rotated 3]) (simp_all add: token_start_def token_end_def is_digit_def)
  then have "json_tokens ?r" by (auto intro: tokens_punct)
  then have "json_tokens (CHR 0x22 # ''a'' @ CHR 0x22 # ?r)" by (rule tokens_string [rotated]) simp
  then have t: "json_tokens (CHR ''{'' # CHR 0x22 # ''a'' @ CHR 0x22 # ?r)" by (rule tokens_punct [rotated]) simp
  from coloured_json_plain [of "\<lambda>_. CHR ''{'' # CHR 0x22 # ''a'' @ CHR 0x22 # ?r" JNull] t show ?thesis
    by (auto simp: ESC_def)
qed

section \<open>Help texts keep every character\<close>

lemma concat_split_inclusive: "concat (split_inclusive s) = s"
  by (induction s) (auto split: list.splits)

lemma split_spaces_append: "split_spaces s = Some (a, b) \<Longrightarrow> s = a @ ''  '' @ b"
proof (induction s arbitrary: a b)
  case (Cons c cs)
  show ?case
  proof (cases "starts_with ''  '' (c # cs)")
    case True
    with Cons.prems show ?thesis by (cases cs) auto
  next
    case False
    with Cons show ?thesis by (auto simp del: starts_with.simps)
  qed
qed simp

lemma strip_prefix_append: "strip_prefix p s = Some r \<Longrightarrow> s = p @ r"
  by (auto simp: strip_prefix_def starts_with_prefix prefix_def split: if_splits)

lemma ends_with_append [simp]: "ends_with p (s @ p)"
  by (simp add: ends_with_def starts_with_prefix)

lemma newline_parts: "strip_newline line @ (if ends_with [CHR 0x0A] line then [CHR 0x0A] else []) = line"
  by (cases line rule: rev_cases) (auto simp: strip_newline_def ends_with_def)

lemma help_line_plain:
  assumes "ESC \<notin> set line" and "\<not> ends_with ''  '' (strip_newline line)"
  shows "without_sgr (help_line line @ r) = line @ without_sgr r"
proof -
  let ?c = "strip_newline line" and ?n = "if ends_with [CHR 0x0A] line then [CHR 0x0A] else []"
  have e: "ESC \<notin> set ?c" "ESC \<notin> set ?n" using assms(1) newline_parts [of line]
    by (auto simp: ESC_def dest: in_set_butlastD simp: strip_newline_def)
  have k: "without_sgr (body @ ?n @ r) = line @ without_sgr r" if "without_sgr (body @ ?n @ r) = ?c @ without_sgr (?n @ r)" for body
    using that e(2) newline_parts [of line] by (metis append_assoc without_sgr_plain)
  consider (bold) "starts_with ''Yougori CLI'' ?c \<or> ends_with '':'' ?c"
    | (command) cmd where "\<not> (starts_with ''Yougori CLI'' ?c \<or> ends_with '':'' ?c)" "help_command ?c = Some cmd"
    | (plain) "\<not> (starts_with ''Yougori CLI'' ?c \<or> ends_with '':'' ?c)" "help_command ?c = None" by blast
  then show ?thesis
  proof cases
    case bold
    then have h: "help_line line = paint ?c (sgr ''1;96'') @ ?n" by (simp add: help_line_def Let_def)
    show ?thesis unfolding h append_assoc by (rule k) (rule without_sgr_paint [OF _ e(1)], simp)
  next
    case plain
    then have h: "help_line line = ?c @ ?n" by (simp add: help_line_def Let_def)
    show ?thesis unfolding h append_assoc by (rule k) (rule without_sgr_plain [OF e(1)])
  next
    case (command cmd)
    then have c: "?c = ''  '' @ cmd"
      by (auto simp: help_command_def dest: strip_prefix_append split: option.splits list.splits if_splits)
    have ec: "ESC \<notin> set cmd" using e(1) c by simp
    show ?thesis
    proof (cases "split_spaces cmd")
      case None
      with command have h: "help_line line = ''  '' @ paint cmd (sgr ''93'') @ ?n" by (simp add: help_line_def Let_def)
      have "without_sgr (''  '' @ paint cmd (sgr ''93'') @ ?n @ r) = ''  '' @ cmd @ without_sgr (?n @ r)"
        using without_sgr_paint [OF _ ec, of "''93''" "?n @ r"] by (simp add: ESC_def)
      then show ?thesis unfolding h append_assoc using k [of "''  '' @ paint cmd (sgr ''93'')"] c by simp
    next
      case (Some p)
      obtain u d where p: "p = (u, d)" by (cases p)
      have cmd: "cmd = u @ ''  '' @ d" using Some p split_spaces_append by blast
      have "d \<noteq> []"
      proof
        assume "d = []"
        then have "?c = (''  '' @ u) @ ''  ''" using c cmd by simp
        then show False using assms(2) ends_with_append by metis
      qed
      with command Some p have h: "help_line line = (''  '' @ paint u (sgr ''93'') @ ''  '' @ d) @ ?n"
        by (simp add: help_line_def Let_def)
      have ed: "ESC \<notin> set (''  '' @ d)" "ESC \<notin> set u" using ec cmd by (auto simp: ESC_def)
      have "without_sgr (paint u (sgr ''93'') @ (''  '' @ d) @ ?n @ r) = u @ (''  '' @ d) @ without_sgr (?n @ r)"
        unfolding without_sgr_plain [OF ed(1), symmetric] by (rule without_sgr_paint [OF _ ed(2)]) simp
      then show ?thesis unfolding h append_assoc using k [of "''  '' @ paint u (sgr ''93'') @ ''  '' @ d"] c cmd
        by (simp add: ESC_def)
    qed
  qed
qed

lemma help_lines_plain:
  "list_all (\<lambda>l. ESC \<notin> set l \<and> \<not> ends_with ''  '' (strip_newline l)) ls \<Longrightarrow>
   without_sgr (concat (map help_line ls)) = concat ls"
  by (induction ls) (auto simp: help_line_plain)

lemma coloured_help_plain:
  assumes "ESC \<notin> set msg" and "list_all (\<lambda>l. \<not> ends_with ''  '' (strip_newline l)) (split_inclusive msg)"
  shows "without_sgr (help_text msg color) = msg"
proof -
  have "ESC \<notin> set (concat (split_inclusive msg))" using assms(1) by (simp only: concat_split_inclusive not_False_eq_True)
  then have "list_all (\<lambda>l. ESC \<notin> set l \<and> \<not> ends_with ''  '' (strip_newline l)) (split_inclusive msg)"
    using assms(2) by (simp add: list_all_iff)
  from help_lines_plain [OF this] show ?thesis using assms(1) by (simp add: help_text_def concat_split_inclusive)
qed

section \<open>Waiting for a job\<close>

text \<open>
  One turn of the loop of \<open>wait_job_at\<close>: the answer to \<open>jobs_get\<close> and the milliseconds since the
  start; \<open>None\<close> asks again. The progress lines on standard error are left out.
\<close>

definition job_turn :: "string \<Rightarrow> nat \<Rightarrow> (json, string) result \<Rightarrow> nat \<Rightarrow> (json, string) result option" where
  "job_turn i seconds reply elapsed =
     (case reply of
        Err e \<Rightarrow> Some (Err (e @ '' Accepted job: '' @ i @ ''.''))
      | Ok job \<Rightarrow>
          (case as_str (json_get job ''status'') of
             Some s \<Rightarrow>
               if s = ''complete'' then Some (Ok (json_get job ''result''))
               else if s = ''failed'' then
                 Some (Err ((case as_str (json_get job ''method'') of None \<Rightarrow> ''Operation'' | Some m \<Rightarrow> m) @ '': ''
                   @ (case as_str (json_get job ''error'') of None \<Rightarrow> ''Operation failed'' | Some e \<Rightarrow> e)
                   @ '' (job '' @ i @ '')''))
               else if s = ''running'' \<or> s = ''queued'' then
                 (if seconds * 1000 \<le> elapsed
                  then Some (Err (''Still running: '' @ i @ ''. The operation was NOT cancelled. Check 'yougori-cli jobs get '' @ i
                         @ [CHR 0x27] @ '' before retrying.''))
                  else None)
               else Some (Err ''Invalid job status from Yougori'')
           | None \<Rightarrow> Some (Err ''Invalid job status from Yougori'')))"

primrec wait_job :: "(nat \<Rightarrow> (json, string) result) \<Rightarrow> (nat \<Rightarrow> nat) \<Rightarrow> string \<Rightarrow> nat \<Rightarrow> nat \<Rightarrow> nat
    \<Rightarrow> (json, string) result option" where
  "wait_job reply clock i seconds 0 n = None"
| "wait_job reply clock i seconds (Suc fuel) n =
     (case job_turn i seconds (reply n) (clock n) of
        Some r \<Rightarrow> Some r
      | None \<Rightarrow> wait_job reply clock i seconds fuel (Suc n))"

lemma wait_job_finds:
  "job_turn i seconds (reply (n + k)) (clock (n + k)) = Some r \<Longrightarrow> \<forall>j < k. job_turn i seconds (reply (n + j)) (clock (n + j)) = None
   \<Longrightarrow> k < fuel \<Longrightarrow> wait_job reply clock i seconds fuel n = Some r"
proof (induction fuel arbitrary: n k)
  case (Suc fuel)
  show ?case
  proof (cases k)
    case 0
    with Suc.prems show ?thesis by simp
  next
    case (Suc k')
    have "job_turn i seconds (reply n) (clock n) = None" using Suc.prems(2) Suc by (metis add_0_right zero_less_Suc)
    moreover have "wait_job reply clock i seconds fuel (Suc n) = Some r"
      using Suc.prems Suc by (intro Suc.IH [of "Suc n" k']) (auto simp: less_Suc_eq_0_disj)
    ultimately show ?thesis by simp
  qed
qed simp

lemma job_turn_deadline: "seconds * 1000 \<le> elapsed \<Longrightarrow> job_turn i seconds reply elapsed \<noteq> None"
  by (auto simp: job_turn_def split: result.split option.split)

text \<open>
  C36. Waiting ends: as each turn sleeps half a second, after at most twice the timeout in
  seconds (and one more) questions the loop returns, with what the first answer that was not
  "queued" or "running", or the deadline, gives.
\<close>

theorem wait_job_returns:
  assumes "\<forall>n. 500 * n \<le> clock n"
  shows "\<exists>k \<le> 2 * seconds. \<exists>r. wait_job reply clock i seconds (2 * seconds + 1) 0 = Some r
    \<and> job_turn i seconds (reply k) (clock k) = Some r \<and> (\<forall>j < k. job_turn i seconds (reply j) (clock j) = None)"
proof -
  let ?P = "\<lambda>k. job_turn i seconds (reply k) (clock k) \<noteq> None"
  have "seconds * 1000 \<le> clock (2 * seconds)" using assms [rule_format, of "2 * seconds"] by simp
  then have d: "?P (2 * seconds)" by (rule job_turn_deadline)
  define k where "k = (LEAST k. ?P k)"
  have k: "?P k" "k \<le> 2 * seconds" "\<forall>j < k. \<not> ?P j"
    unfolding k_def using d by (auto intro: LeastI Least_le dest: not_less_Least)
  then obtain r where r: "job_turn i seconds (reply k) (clock k) = Some r" by blast
  then have "wait_job reply clock i seconds (2 * seconds + 1) 0 = Some r"
    using k by (intro wait_job_finds [of _ _ _ _ k]) auto
  with k r show ?thesis by blast
qed

theorem wait_job_returns_witness:
  "\<exists>r. wait_job (\<lambda>_. Ok (json_obj [(''status'', JStr ''running'')])) (\<lambda>n. 600 * n) ''job-1'' 10 21 0 = Some r"
proof -
  have "\<forall>n. 500 * n \<le> (\<lambda>n. 600 * n) (n :: nat)" by simp
  from wait_job_returns [OF this, of 10 "\<lambda>_. Ok (json_obj [(''status'', JStr ''running'')])" "''job-1''"]
  show ?thesis by auto
qed

section \<open>The program\<close>

fun as_i64 :: "json \<Rightarrow> int option" where
  "as_i64 (JNum (PosInt n)) = (if unat n < 2 ^ 63 then Some (int (unat n)) else None)"
| "as_i64 (JNum (NegInt i)) = Some i"
| "as_i64 _ = None"

definition exit_code :: "json \<Rightarrow> int" where
  "exit_code v =
     (case as_i64 (json_get v ''exitCode'') of
        None \<Rightarrow> 0
      | Some n \<Rightarrow> if n = 0 then 0 else max 1 (min 255 n))"

text \<open>\<open>input\<close>: a JSON file or standard input, at most \<open>MAX_REQUEST\<close> bytes, with or without a byte order mark.\<close>

definition input :: "(string, string) result \<Rightarrow> (string \<Rightarrow> ((string, string) result, string) result)
    \<Rightarrow> (string \<Rightarrow> (json, string) result) \<Rightarrow> string \<Rightarrow> (json, string) result" where
  "input stdin open_file from_slice path =
     result_bind
       (if path = ''-'' then Ok stdin
        else (case open_file path of Err e \<Rightarrow> Err (''Cannot read JSON file: '' @ e) | Ok file \<Rightarrow> Ok file)) (\<lambda>source.
     result_bind source (\<lambda>all_bytes.
       let bs = take (MAX_REQUEST + 1) all_bytes in
       if MAX_REQUEST < length bs then Err ''JSON input exceeds 1 MB''
       else
         (case from_slice (case strip_prefix [CHR 0xEF, CHR 0xBB, CHR 0xBF] bs of None \<Rightarrow> bs | Some r \<Rightarrow> r) of
            Err e \<Rightarrow> Err (''Invalid JSON input: '' @ e)
          | Ok v \<Rightarrow> Ok v)))"

fun install_path :: "string option \<Rightarrow> string list \<Rightarrow> (string option, string) result" where
  "install_path path [] = Ok path"
| "install_path path (a # rest) =
     (if a = ''--path'' \<and> path = None then
        (case rest of
           [] \<Rightarrow> Err ''--path requires a skill directory''
         | p # rest' \<Rightarrow> install_path (Some p) rest')
      else Err ''Usage: skills install [--path SKILL_DIRECTORY]. Existing skills are never overwritten.'')"


text \<open>
  What the program finds around it: the terminal and the JSON printer, the texts compiled in,
  the files, the engine and the skill directory.
\<close>

record shell =
  sh_color :: bool
  sh_pretty :: "json \<Rightarrow> string"
  sh_version :: string
  sh_help :: string
  sh_skill :: string
  sh_guide :: string
  sh_stdin :: "(string, string) result"
  sh_open :: "string \<Rightarrow> ((string, string) result, string) result"
  sh_from_slice :: "string \<Rightarrow> (json, string) result"
  sh_absolute :: "string \<Rightarrow> (string, string) result"
  sh_call :: "Request \<Rightarrow> (json, string) result"
  sh_wait :: "string \<Rightarrow> nat \<Rightarrow> (json, string) result"
  sh_start :: "string option \<Rightarrow> (json, string) result"
  sh_skill_directory :: "(string, string) result"
  sh_exists :: "string \<Rightarrow> bool"
  sh_install_at :: "string \<Rightarrow> (unit, string) result"

definition install_skill :: "shell \<Rightarrow> string list \<Rightarrow> (json, string) result" where
  "install_skill sh args =
     result_bind (install_path None args) (\<lambda>p.
     result_bind (case p of Some path \<Rightarrow> Ok path | None \<Rightarrow> sh_skill_directory sh) (\<lambda>path.
     if sh_exists sh path
     then Err (path @ '' already exists; choose a new --path or update it explicitly. No files were changed.'')
     else
       result_bind (sh_install_at sh path) (\<lambda>_.
       Ok (json_obj [(''path'', JStr path),
         (''message'', JStr ''Installed Yougori skill. Start a new agent session to discover it. This skill does not grant additional system permissions.'')]))))"

definition response_json :: "Response \<Rightarrow> json" where
  "response_json r =
     json_obj ([(''version'', json_int (ucast (resp_version r))), (''ok'', JBool (resp_ok r))]
       @ (case resp_result r of None \<Rightarrow> [] | Some v \<Rightarrow> [(''result'', v)])
       @ (case resp_error r of None \<Rightarrow> [] | Some e \<Rightarrow> [(''error'', JStr e)]))"

definition wire_json :: "shell \<Rightarrow> json \<Rightarrow> string option" where
  "wire_json sh v = json_text (sh_pretty sh) (response_json (response_success v)) (sh_color sh)"

definition method_json :: "Method \<Rightarrow> json" where
  "method_json m = json_obj [(''name'', JStr (method_name m)), (''summary'', JStr (method_summary m)),
     (''parameters'', JStr (method_parameters m)), (''example'', method_example m), (''mutating'', JBool (method_mutating m)),
     (''confirmation'', case method_confirmation m of None \<Rightarrow> JNull | Some c \<Rightarrow> JStr c)]"

definition say :: "string option \<Rightarrow> (string \<times> int, string) result option" where
  "say msg = map_option (\<lambda>t. Ok (t @ [CHR 0x0A], 0)) msg"

definition wants_help :: "string list \<Rightarrow> bool" where
  "wants_help args \<longleftrightarrow> args = [] \<or> hd args \<in> {''help'', ''--help'', ''-h''}
     \<or> length args \<le> 4 \<and> last args \<in> {''--help'', ''-h''}"

text \<open>A request to the engine: parse, call, wait for the job, project, print.\<close>

definition follow :: "shell \<Rightarrow> string list \<Rightarrow> Invocation \<Rightarrow> json \<Rightarrow> (json, string) result" where
  "follow sh args call v =
     (if \<not> inv_no_wait call \<and> (json_get v ''accepted'' = JBool True \<or> take 2 args = [''jobs'', ''wait''])
      then
        (case (case as_str (json_get v ''jobId'') of
                 Some j \<Rightarrow> Some j | None \<Rightarrow> as_str (json_get (req_params (inv_request call)) ''jobId'')) of
           None \<Rightarrow> Err ''Missing job ID''
         | Some j \<Rightarrow> sh_wait sh j (inv_timeout call))
      else Ok v)"

definition run_request :: "shell \<Rightarrow> string list \<Rightarrow> (string \<times> int, string) result option" where
  "run_request sh args =
     (case parse args (sh_from_slice sh) (input (sh_stdin sh) (sh_open sh) (sh_from_slice sh)) (sh_absolute sh) of
        None \<Rightarrow> None
      | Some (Err e) \<Rightarrow> Some (Err e)
      | Some (Ok call) \<Rightarrow>
          (case result_bind (sh_call sh (inv_request call)) (\<lambda>v.
                  result_bind (follow sh args call v) (\<lambda>v.
                  if \<not> inv_no_wait call \<and> \<not> req_dry_run (inv_request call)
                  then project v (inv_select call) else Ok v)) of
             Err e \<Rightarrow> Some (Err e)
           | Ok v \<Rightarrow>
               map_option (\<lambda>t. Ok (t @ [CHR 0x0A], exit_code v))
                 (case (if inv_markdown call then as_str v else None) of
                    Some t \<Rightarrow> Some t
                  | None \<Rightarrow> wire_json sh v)))"

definition run_schema :: "shell \<Rightarrow> string list \<Rightarrow> (string \<times> int, string) result option" where
  "run_schema sh args =
     (if 2 < length args then Some (Err ''Usage: schema [METHOD]'')
      else
        (case get_at args 1 of
           Some name \<Rightarrow>
             (case find_method name of
                Err e \<Rightarrow> Some (Err e)
              | Ok m \<Rightarrow> say (json_text (sh_pretty sh) (method_json m) (sh_color sh)))
         | None \<Rightarrow>
             say (json_text (sh_pretty sh) (json_obj [(''protocolVersion'', json_int (ucast VERSION)),
                 (''methods'', JArr (map method_json methods))]) (sh_color sh))))"

definition run_skills :: "shell \<Rightarrow> string list \<Rightarrow> (string \<times> int, string) result option" where
  "run_skills sh args =
     (if get_at args 1 = Some ''print'' \<and> length args = 2
      then say (Some (sh_skill sh @ [CHR 0x0A] @ sh_guide sh))
      else if get_at args 1 = Some ''install'' then
        (case install_skill sh (drop 2 args) of Err e \<Rightarrow> Some (Err e) | Ok v \<Rightarrow> say (wire_json sh v))
      else Some (Err ''Usage: skills print | skills install [--path SKILL_DIRECTORY]''))"

definition run_start :: "shell \<Rightarrow> string list \<Rightarrow> (string \<times> int, string) result option" where
  "run_start sh args =
     (let go = (\<lambda>path. case sh_start sh path of Err e \<Rightarrow> Some (Err e) | Ok v \<Rightarrow> say (wire_json sh v)) in
      case drop 2 args of
        [] \<Rightarrow> go None
      | [flag, path] \<Rightarrow>
          if flag = ''--app'' then go (Some path)
          else Some (Err ''Usage: app start [--app ABSOLUTE_EXECUTABLE_PATH]'')
      | _ \<Rightarrow> Some (Err ''Usage: app start [--app ABSOLUTE_EXECUTABLE_PATH]''))"

definition run :: "shell \<Rightarrow> string list \<Rightarrow> (string \<times> int, string) result option" where
  "run sh args =
     (if wants_help args then Some (Ok (help_text (sh_help sh) (sh_color sh), 0))
      else if hd args = ''--version''
      then say (Some (''yougori-cli '' @ sh_version sh @ '' (protocol '' @ show_nat (unat VERSION) @ '')''))
      else if hd args = ''schema'' then run_schema sh args
      else if hd args = ''skills'' then run_skills sh args
      else if take 2 args = [''app'', ''start''] then run_start sh args
      else run_request sh args)"

text \<open>Standard output and the exit status; \<open>None\<close> is a panic.\<close>

definition main :: "shell \<Rightarrow> string list \<Rightarrow> (string \<times> int) option" where
  "main sh args =
     (case run sh args of
        None \<Rightarrow> None
      | Some (Ok p) \<Rightarrow> Some p
      | Some (Err e) \<Rightarrow>
          map_option (\<lambda>t. (t @ [CHR 0x0A], 1)) (json_text (sh_pretty sh) (response_json (response_failure e)) (sh_color sh)))"


lemma exit_code_range: "0 \<le> exit_code v \<and> exit_code v \<le> 255"
  by (auto simp: exit_code_def max_def min_def split: option.split)

lemma say_Some [simp]: "say msg = Some r \<longleftrightarrow> (\<exists>t. msg = Some t \<and> r = Ok (t @ [CHR 0x0A], 0))"
  by (auto simp: say_def)

lemma say_None [simp]: "say msg = None \<longleftrightarrow> msg = None"
  by (simp add: say_def)

lemma json_text_total:
  "\<forall>v. json_tokens (pretty v) \<and> ESC \<notin> set (pretty v) \<Longrightarrow> json_text pretty v color \<noteq> None"
  using color_tokens [of "pretty v"] by (auto simp: json_text_def)

lemma run_code: "run sh args = Some (Ok (out, code)) \<Longrightarrow> 0 \<le> code \<and> code \<le> 255"
  unfolding run_def run_schema_def run_skills_def run_start_def run_request_def
  by (auto simp: exit_code_range Let_def split: if_splits option.splits result.splits list.splits)

lemma run_total:
  assumes "\<forall>v. json_tokens (sh_pretty sh v) \<and> ESC \<notin> set (sh_pretty sh v)"
  shows "run sh args \<noteq> None"
proof -
  have t: "json_text (sh_pretty sh) v color \<noteq> None" for v color using assms by (rule json_text_total)
  have w: "wire_json sh v \<noteq> None" for v unfolding wire_json_def by (rule t)
  have p: "parse args from_str read_json absolute \<noteq> None" for from_str read_json absolute
    using parse_total by blast
  have "run_request sh args \<noteq> None"
  proof (cases "parse args (sh_from_slice sh) (input (sh_stdin sh) (sh_open sh) (sh_from_slice sh)) (sh_absolute sh)")
    case (Some r)
    then show ?thesis using w by (cases r) (simp_all add: run_request_def split: result.split option.split)
  qed (use p in simp)
  moreover have "run_schema sh args \<noteq> None"
    using t by (simp add: run_schema_def split: option.split result.split)
  moreover have "run_skills sh args \<noteq> None"
    using w by (simp add: run_skills_def split: result.split)
  moreover have "run_start sh args \<noteq> None"
    using w by (simp add: run_start_def Let_def split: list.split result.split)
  ultimately show ?thesis by (simp add: run_def)
qed

text \<open>
  On every command line the program ends without a panic, prints something and exits with
  a status of 0 to 255; every error is printed as a failed response with status 1, and the
  status 0 after an answer means that it carries no exit code or the exit code 0.
\<close>

theorem main_exits:
  assumes "\<forall>v. json_tokens (sh_pretty sh v) \<and> ESC \<notin> set (sh_pretty sh v)"
  shows "\<exists>out code. main sh args = Some (out, code) \<and> 0 \<le> code \<and> code \<le> 255
    \<and> (case run sh args of Some (Err e) \<Rightarrow> code = 1
            \<and> json_text (sh_pretty sh) (response_json (response_failure e)) (sh_color sh) = Some (butlast out)
        | Some (Ok p) \<Rightarrow> p = (out, code)
        | None \<Rightarrow> False)
    \<and> (\<forall>v. exit_code v = 0 \<longleftrightarrow> as_i64 (json_get v ''exitCode'') \<in> {None, Some 0})"
proof -
  obtain r where r: "run sh args = Some r" using run_total [OF assms] by blast
  have c: "\<forall>v. exit_code v = 0 \<longleftrightarrow> as_i64 (json_get v ''exitCode'') \<in> {None, Some 0}"
    by (auto simp: exit_code_def split: option.split)
  show ?thesis
  proof (cases r)
    case (Ok p)
    with r run_code [of sh args "fst p" "snd p"] c show ?thesis by (cases p) (auto simp: main_def)
  next
    case (Err e)
    obtain t where "json_text (sh_pretty sh) (response_json (response_failure e)) (sh_color sh) = Some t"
      using json_text_total [OF assms] by blast
    with r Err c show ?thesis by (auto simp: main_def)
  qed
qed

definition example_shell :: shell where
  "example_shell = \<lparr>sh_color = True, sh_pretty = (\<lambda>_. ''{}''), sh_version = ''1'', sh_help = ''Yougori CLI'', sh_skill = [], sh_guide = [],
     sh_stdin = Err [], sh_open = (\<lambda>_. Err []), sh_from_slice = (\<lambda>_. Err []), sh_absolute = Ok,
     sh_call = (\<lambda>_. Ok (json_obj [(''exitCode'', json_int 300)])), sh_wait = (\<lambda>_ _. Ok JNull), sh_start = (\<lambda>_. Ok JNull),
     sh_skill_directory = Err [], sh_exists = (\<lambda>_. False), sh_install_at = (\<lambda>_. Ok ())\<rparr>"

theorem main_exits_witness:
  "\<exists>out code. main example_shell [''env'', ''start''] = Some (out, code) \<and> 0 \<le> code \<and> code \<le> 255"
proof -
  have "json_tokens ''{}''" by (intro tokens_punct tokens_end) auto
  then have "\<forall>v. json_tokens (sh_pretty example_shell v) \<and> ESC \<notin> set (sh_pretty example_shell v)"
    by (simp add: example_shell_def ESC_def)
  from main_exits [OF this] show ?thesis by blast
qed

end
