(* ===== verification/Job_Control.thy ===== *)
theory Job_Control
  imports Catalog Wire
begin

text \<open>
  The automation server of the desktop engine (\<open>src-tauri/src/automation/mod.rs\<close>): the
  history of jobs with its pruning, the admission of requests, and the tasks that run them
  under eight permits and one write lock. Time is in seconds since the engine started.
  Outside this component stay the operations themselves (\<open>dispatch\<close>), the encoded size of a
  result and the status report. The server is modelled for any check of nested request types
  (\<open>native_check\<close>); the program's is \<open>native_validate\<close>, over the decoding that serde derives.
\<close>

section \<open>Jobs\<close>

definition HISTORY :: nat where
  "HISTORY = 64"

definition RESULT_BUDGET :: nat where
  "RESULT_BUDGET = 64 * 1024 * 1024"

definition RESULT_LIMIT :: nat where
  "RESULT_LIMIT = 8 * 1024 * 1024"

record Job =
  job_id :: string
  job_method :: string
  job_status :: string
  job_created :: string
  job_completed :: "nat option"
  job_completed_at :: "string option"
  job_result :: "json option"
  job_error :: "string option"
  job_bytes :: nat

definition opt_json :: "('a \<Rightarrow> json) \<Rightarrow> 'a option \<Rightarrow> json" where
  "opt_json f x = (case x of None \<Rightarrow> JNull | Some v \<Rightarrow> f v)"

definition job_value :: "Job \<Rightarrow> bool \<Rightarrow> json" where
  "job_value j with_result =
     json_obj ([(''jobId'', JStr (job_id j)), (''method'', JStr (job_method j)),
       (''status'', JStr (job_status j)), (''createdAt'', JStr (job_created j)),
       (''completedAt'', opt_json JStr (job_completed_at j))]
      @ (if with_result then [(''result'', opt_json (\<lambda>v. v) (job_result j)),
           (''error'', opt_json JStr (job_error j))] else []))"

text \<open>\<open>retain\<close>, then the loop that drops the first completed job while there are too many.\<close>

definition fresh_job :: "nat \<Rightarrow> Job \<Rightarrow> bool" where
  "fresh_job now j = (case job_completed j of None \<Rightarrow> True | Some t \<Rightarrow> now - t < 1800)"

definition too_many :: "Job list \<Rightarrow> bool" where
  "too_many js \<longleftrightarrow> HISTORY \<le> length js \<or> RESULT_BUDGET < sum_list (map job_bytes js)"

fun drop_completed :: "Job list \<Rightarrow> Job list option" where
  "drop_completed [] = None"
| "drop_completed (j # js) =
     (if job_completed j \<noteq> None then Some js else map_option (\<lambda>r. j # r) (drop_completed js))"

lemma drop_completed_length: "drop_completed js = Some r \<Longrightarrow> length js = Suc (length r)"
  by (induction js arbitrary: r) (auto split: if_splits)

function shrink :: "Job list \<Rightarrow> Job list" where
  "shrink js =
     (if too_many js then (case drop_completed js of None \<Rightarrow> js | Some r \<Rightarrow> shrink r) else js)"
  by pat_completeness auto
termination
  by (relation "measure length") (auto dest: drop_completed_length)

declare shrink.simps [simp del]

definition prune :: "nat \<Rightarrow> Job list \<Rightarrow> Job list" where
  "prune now js = shrink (filter (fresh_job now) js)"

section \<open>Control state\<close>

record task =
  tk_id :: string
  tk_method :: Method
  tk_params :: json
  tk_running :: bool

record control =
  ctl_jobs :: "Job list"
  ctl_permits :: nat
  ctl_writer :: "string option"
  ctl_tasks :: "task list"

definition start_control :: control where
  "start_control = \<lparr>ctl_jobs = [], ctl_permits = 8, ctl_writer = None, ctl_tasks = []\<rparr>"

text \<open>
  What \<open>submit\<close> does with a request: it refuses, answers at once, calls a read-only operation
  directly, or accepts a job.
\<close>

datatype outcome =
    Refused string
  | Answered json
  | Direct string json
  | Accepted string json

text \<open>
  \<open>dispatch::validate\<close>: parameters that have a type of their own are decoded before the request is admitted. What serde
  derives for these types is a parameter (\<open>decode\<close>, by the name of the type; \<open>decode_host\<close> for the requests of the host
  terminal, which are checked further).
\<close>

record HostRequest =
  hr_session_id :: string
  hr_action :: string
  hr_data :: "string option"
  hr_offset :: "u64 option"
  hr_cols :: "u16 option"
  hr_rows :: "u16 option"
  hr_cwd :: "string option"

definition terminal_size :: "HostRequest \<Rightarrow> (u16 \<times> u16, string) result" where
  "terminal_size r =
     (let cols = (case hr_cols r of Some n \<Rightarrow> n | None \<Rightarrow> 100); rows = (case hr_rows r of Some n \<Rightarrow> n | None \<Rightarrow> 24)
      in if \<not> (2 \<le> cols \<and> cols \<le> 500) \<or> \<not> (2 \<le> rows \<and> rows \<le> 250)
         then Err ''Terminal dimensions are outside the supported range'' else Ok (cols, rows))"

definition validate_request :: "HostRequest \<Rightarrow> (unit, string) result" where
  "validate_request r =
     (if \<not> starts_with ''host-'' (hr_session_id r) \<or> 80 < length (hr_session_id r)
         \<or> \<not> list_all (\<lambda>c. is_alphanumeric c \<or> c = CHR ''-'') (hr_session_id r)
      then Err ''Invalid host terminal session ID''
      else if hr_action r \<notin> {''create'', ''read'', ''write'', ''resize'', ''close''} then Err ''Unsupported host terminal action''
      else if (case hr_data r of Some d \<Rightarrow> 48 * 1024 < length d | None \<Rightarrow> False) then Err ''Terminal input is too large''
      else result_bind (if hr_action r = ''create'' \<or> hr_action r = ''resize''
            then result_bind (terminal_size r) (\<lambda>_. Ok ()) else Ok ()) (\<lambda>_.
          if hr_action r \<noteq> ''create'' \<and> hr_cwd r \<noteq> None
          then Err ''A working folder can only be chosen for a new terminal'' else Ok ()))"

definition arg :: "(json \<Rightarrow> ('a, string) result) \<Rightarrow> json \<Rightarrow> string \<Rightarrow> ('a, string) result" where
  "arg decode params key =
     (case decode (json_get params key) of Ok x \<Rightarrow> Ok x | Err e \<Rightarrow> Err (''Invalid '' @ key @ '': '' @ e))"

definition nested_arguments :: "(string \<times> string \<times> string) list" where
  "nested_arguments =
     [(''add_cloud_environment'', ''request'', ''Profile''),
      (''create_environment'', ''request'', ''CreateEnvironmentRequest''),
      (''create_connection'', ''request'', ''CreateConnectionRequest''),
      (''update_resource_policy'', ''resourcePolicy'', ''ResourcePolicy''),
      (''add_backup_destination'', ''request'', ''AddDestinationRequest''),
      (''execute_environment_command'', ''request'', ''ExecuteCommandRequest''),
      (''update_settings'', ''settings'', ''AppSettings''),
      (''publish_environment_service'', ''cloudflare'', ''Option<AccountOptions>''),
      (''set_guest_keyboard_capture'', ''bounds'', ''Option<CaptureBounds>'')]"

definition native_validate :: "(string \<Rightarrow> json \<Rightarrow> (unit, string) result) \<Rightarrow> (json \<Rightarrow> (HostRequest, string) result)
    \<Rightarrow> string \<Rightarrow> json \<Rightarrow> (unit, string) result" where
  "native_validate decode decode_host method p =
     (if method = ''host_terminal_action'' then result_bind (arg decode_host p ''request'') validate_request
      else (case map_of nested_arguments method of
              Some (key, type) \<Rightarrow> arg (decode type) p key
            | None \<Rightarrow> Ok ()))"

definition admission :: "(string \<Rightarrow> json \<Rightarrow> (unit, string) result) \<Rightarrow> Request \<Rightarrow> (Method, string) result option" where
  "admission native_check request =
     (if req_version request \<noteq> VERSION
      then Some (Err ''CLI/engine protocol mismatch. Update both components.'')
      else
        (case find_method (req_method request) of
           Err e \<Rightarrow> Some (Err e)
         | Ok m \<Rightarrow>
             (case validate m (req_params request) of
                None \<Rightarrow> None
              | Some (Err e) \<Rightarrow> Some (Err e)
              | Some (Ok _) \<Rightarrow>
                  Some (case native_check (req_method request) (req_params request) of
                     Err e \<Rightarrow> Err e
                   | Ok _ \<Rightarrow> Ok m))))"

definition dry_run_report :: "Method \<Rightarrow> json \<Rightarrow> json" where
  "dry_run_report m params =
     json_obj [(''dryRun'', JBool True), (''method'', JStr (method_name m)), (''validSyntax'', JBool True),
       (''confirmationRequired'', opt_json JStr (confirmation_for m params)), (''runtimeChecked'', JBool False)]"

definition enqueue :: "nat \<Rightarrow> string \<Rightarrow> string \<Rightarrow> Method \<Rightarrow> Request \<Rightarrow> control \<Rightarrow> control" where
  "enqueue now new_id created m request ctl =
     ctl\<lparr>ctl_permits := ctl_permits ctl - 1,
         ctl_jobs := prune now (ctl_jobs ctl) @
           [\<lparr>job_id = new_id, job_method = req_method request, job_status = ''queued'',
             job_created = created, job_completed = None, job_completed_at = None,
             job_result = None, job_error = None, job_bytes = 0\<rparr>],
         ctl_tasks := ctl_tasks ctl @
           [\<lparr>tk_id = new_id, tk_method = m, tk_params = req_params request, tk_running = False\<rparr>]\<rparr>"

definition submit :: "(string \<Rightarrow> json \<Rightarrow> (unit, string) result) \<Rightarrow> json \<Rightarrow> nat \<Rightarrow> string \<Rightarrow> string
    \<Rightarrow> Request \<Rightarrow> control \<Rightarrow> (outcome \<times> control) option" where
  "submit native_check status_report now new_id created request ctl =
     (case admission native_check request of
        None \<Rightarrow> None
      | Some (Err e) \<Rightarrow> Some (Refused e, ctl)
      | Some (Ok m) \<Rightarrow>
          Some
            (if req_dry_run request then (Answered (dry_run_report m (req_params request)), ctl)
             else
               (case (if req_confirmed request then None else confirmation_for m (req_params request)) of
                  Some reason \<Rightarrow> (Refused (reason @ '' Explicit --yes confirmation is required.''), ctl)
                | None \<Rightarrow>
                    if method_name m = ''app_status'' then (Answered status_report, ctl)
                    else if method_name m = ''jobs_list'' then
                      (let js = prune now (ctl_jobs ctl)
                       in (Answered (JArr (map (\<lambda>j. job_value j False) js)), ctl\<lparr>ctl_jobs := js\<rparr>))
                    else if method_name m = ''jobs_get'' then
                      (let js = prune now (ctl_jobs ctl)
                       in ((case List.find (\<lambda>j. as_str (json_get (req_params request) ''jobId'') = Some (job_id j)) js of
                              Some j \<Rightarrow> Answered (job_value j True)
                            | None \<Rightarrow> Refused ''Job not found (completed jobs expire after 30 minutes or an engine restart). Inspect persisted state before retrying.''),
                           ctl\<lparr>ctl_jobs := js\<rparr>))
                    else if method_name m \<in> {''get_platform_state'', ''list_environment_windows''}
                    then (Direct (method_name m) (req_params request), ctl)
                    else if ctl_permits ctl = 0
                    then (Refused ''Eight CLI operations are already pending. Inspect jobs and wait before submitting more.'', ctl)
                    else (Accepted new_id (json_obj [(''accepted'', JBool True), (''jobId'', JStr new_id),
                            (''status'', JStr ''queued'')]), enqueue now new_id created m request ctl))))"

section \<open>Tasks\<close>

text \<open>
  A task first takes the write lock if its method changes something (it cannot while another
  holds it: \<open>None\<close>), then marks its job as running.
\<close>

definition update_job :: "string \<Rightarrow> (Job \<Rightarrow> Job) \<Rightarrow> Job list \<Rightarrow> Job list" where
  "update_job i f js =
     (case List.find (\<lambda>j. job_id j = i) js of
        None \<Rightarrow> js
      | Some _ \<Rightarrow> (let n = length (takeWhile (\<lambda>j. job_id j \<noteq> i) js) in js[n := f (js ! n)]))"

definition begin_task :: "string \<Rightarrow> control \<Rightarrow> control option" where
  "begin_task i ctl =
     (case List.find (\<lambda>t. tk_id t = i) (ctl_tasks ctl) of
        None \<Rightarrow> None
      | Some t \<Rightarrow>
          if tk_running t \<or> method_mutating (tk_method t) \<and> ctl_writer ctl \<noteq> None then None
          else Some (ctl\<lparr>ctl_writer := (if method_mutating (tk_method t) then Some i else ctl_writer ctl),
            ctl_jobs := update_job i (\<lambda>j. j\<lparr>job_status := ''running''\<rparr>) (ctl_jobs ctl),
            ctl_tasks := map (\<lambda>t. if tk_id t = i then t\<lparr>tk_running := True\<rparr> else t) (ctl_tasks ctl)\<rparr>))"

definition complete_job :: "(json \<Rightarrow> nat) \<Rightarrow> nat \<Rightarrow> string \<Rightarrow> (json, string) result \<Rightarrow> Job \<Rightarrow> Job" where
  "complete_job bytes_of now stamp r j =
     (let j = (case r of
            Ok v \<Rightarrow> if bytes_of v \<le> RESULT_LIMIT
                    then j\<lparr>job_result := Some v, job_bytes := bytes_of v, job_status := ''complete''\<rparr>
                    else j\<lparr>job_error := Some ''Operation completed, but its result exceeded 8 MB. Inspect state/console in smaller chunks; do not repeat the operation.'',
                           job_status := ''failed''\<rparr>
          | Err e \<Rightarrow> j\<lparr>job_error := Some e, job_status := ''failed''\<rparr>)
      in j\<lparr>job_completed := Some now, job_completed_at := Some stamp\<rparr>)"

definition finish_task :: "(json \<Rightarrow> nat) \<Rightarrow> nat \<Rightarrow> string \<Rightarrow> string \<Rightarrow> (json, string) result \<Rightarrow> control \<Rightarrow> control option" where
  "finish_task bytes_of now stamp i r ctl =
     (case List.find (\<lambda>t. tk_id t = i) (ctl_tasks ctl) of
        None \<Rightarrow> None
      | Some t \<Rightarrow>
          if \<not> tk_running t then None
          else Some (ctl\<lparr>ctl_jobs := prune now (update_job i (complete_job bytes_of now stamp r) (ctl_jobs ctl)),
            ctl_permits := ctl_permits ctl + 1,
            ctl_writer := (if ctl_writer ctl = Some i then None else ctl_writer ctl),
            ctl_tasks := filter (\<lambda>t. tk_id t \<noteq> i) (ctl_tasks ctl)\<rparr>))"

text \<open>Steps of the server; identifiers of jobs are fresh (version 4 UUIDs).\<close>

inductive control_step :: "(string \<Rightarrow> json \<Rightarrow> (unit, string) result) \<Rightarrow> (json \<Rightarrow> nat) \<Rightarrow> control \<Rightarrow> control \<Rightarrow> bool"
  for native_check :: "string \<Rightarrow> json \<Rightarrow> (unit, string) result" and bytes_of :: "json \<Rightarrow> nat" where
  step_submit: "submit native_check status_report now new_id created request ctl = Some (out, ctl')
    \<Longrightarrow> new_id \<notin> job_id ` set (ctl_jobs ctl) \<Longrightarrow> control_step native_check bytes_of ctl ctl'"
| step_begin: "begin_task i ctl = Some ctl' \<Longrightarrow> control_step native_check bytes_of ctl ctl'"
| step_finish: "finish_task bytes_of now stamp i r ctl = Some ctl' \<Longrightarrow> control_step native_check bytes_of ctl ctl'"

section \<open>Pruning\<close>

definition pending :: "Job \<Rightarrow> bool" where
  "pending j \<longleftrightarrow> job_completed j = None"

lemma drop_completed_None: "drop_completed js = None \<longleftrightarrow> list_all pending js"
  by (induction js) (auto simp: pending_def)

lemma drop_completed_Some:
  "drop_completed js = Some r \<Longrightarrow> filter pending r = filter pending js \<and> set r \<subseteq> set js
     \<and> (distinct (map job_id js) \<longrightarrow> distinct (map job_id r))"
  by (induction js arbitrary: r) (fastforce simp: pending_def split: if_splits)+

lemma shrink_spec:
  "filter pending (shrink js) = filter pending js \<and> set (shrink js) \<subseteq> set js
   \<and> (distinct (map job_id js) \<longrightarrow> distinct (map job_id (shrink js)))
   \<and> (too_many (shrink js) \<longrightarrow> list_all pending (shrink js))"
proof (induction js rule: shrink.induct)
  case (1 js)
  show ?case
  proof (cases "too_many js")
    case True
    show ?thesis
    proof (cases "drop_completed js")
      case None
      then have "shrink js = js" by (simp add: shrink.simps [of js])
      with None show ?thesis by (simp add: drop_completed_None)
    next
      case (Some r)
      with 1 True drop_completed_Some [OF Some] show ?thesis
        by (simp add: shrink.simps [of js]) blast
    qed
  qed (simp add: shrink.simps [of js])
qed

lemma prune_spec:
  "filter pending (prune now js) = filter pending js" "set (prune now js) \<subseteq> set js"
  "distinct (map job_id js) \<Longrightarrow> distinct (map job_id (prune now js))"
  "too_many (prune now js) \<Longrightarrow> list_all pending (prune now js)"
proof -
  let ?k = "filter (fresh_job now) js"
  have p: "filter pending ?k = filter pending js"
    by (induction js) (auto simp: pending_def fresh_job_def)
  have d: "distinct (map job_id js) \<Longrightarrow> distinct (map job_id ?k)" by (simp add: distinct_map inj_on_def)
  show "filter pending (prune now js) = filter pending js" "set (prune now js) \<subseteq> set js"
    "distinct (map job_id js) \<Longrightarrow> distinct (map job_id (prune now js))"
    "too_many (prune now js) \<Longrightarrow> list_all pending (prune now js)"
    using shrink_spec [of ?k] p d by (auto simp: prune_def)
qed

section \<open>Invariant\<close>

lemma update_job_map:
  "distinct (map job_id js) \<Longrightarrow> update_job i f js = map (\<lambda>j. if job_id j = i then f j else j) js"
proof (induction js)
  case (Cons a js)
  show ?case
  proof (cases "job_id a = i")
    case True
    with Cons.prems have "\<forall>j \<in> set js. job_id j \<noteq> i" by (auto simp: image_iff)
    then have "map (\<lambda>j. if job_id j = i then f j else j) js = js" by (simp add: map_idI)
    with True show ?thesis by (simp add: update_job_def)
  next
    case False
    with Cons show ?thesis by (auto simp: update_job_def Let_def split: option.splits)
  qed
qed (simp add: update_job_def)

definition control_ok :: "control \<Rightarrow> bool" where
  "control_ok ctl \<longleftrightarrow> ctl_permits ctl + length (ctl_tasks ctl) = 8
     \<and> distinct (map tk_id (ctl_tasks ctl)) \<and> distinct (map job_id (ctl_jobs ctl))
     \<and> job_id ` set (filter pending (ctl_jobs ctl)) = tk_id ` set (ctl_tasks ctl)
     \<and> (\<forall>j \<in> set (ctl_jobs ctl). pending j \<longrightarrow> job_bytes j = 0)
     \<and> length (ctl_jobs ctl) \<le> HISTORY \<and> sum_list (map job_bytes (ctl_jobs ctl)) \<le> RESULT_BUDGET
     \<and> (\<forall>t \<in> set (ctl_tasks ctl). tk_running t \<and> method_mutating (tk_method t) \<longleftrightarrow> ctl_writer ctl = Some (tk_id t))
     \<and> (\<forall>w. ctl_writer ctl = Some w \<longrightarrow> w \<in> tk_id ` set (ctl_tasks ctl))"

lemma pending_count:
  assumes "control_ok ctl"
  shows "length (filter pending (ctl_jobs ctl)) \<le> 8"
proof -
  have "distinct (map job_id (filter pending (ctl_jobs ctl)))"
    using assms by (simp add: control_ok_def distinct_map inj_on_def)
  then have "length (filter pending (ctl_jobs ctl)) = card (job_id ` set (filter pending (ctl_jobs ctl)))"
    using distinct_card by fastforce
  also have "\<dots> = card (tk_id ` set (ctl_tasks ctl))" using assms by (simp add: control_ok_def)
  also have "\<dots> \<le> length (ctl_tasks ctl)" using card_image_le [of "set (ctl_tasks ctl)" tk_id]
    card_length [of "ctl_tasks ctl"] by simp
  finally show ?thesis using assms by (simp add: control_ok_def)
qed

text \<open>With at most eight pending jobs, pruning always gets below both bounds.\<close>

lemma prune_small:
  assumes "length (filter pending js) \<le> 8" and "\<forall>j \<in> set js. pending j \<longrightarrow> job_bytes j = 0"
  shows "length (prune now js) < HISTORY \<and> sum_list (map job_bytes (prune now js)) \<le> RESULT_BUDGET"
proof (rule ccontr)
  assume "\<not> ?thesis"
  then have m: "too_many (prune now js)" by (auto simp: too_many_def)
  then have all: "list_all pending (prune now js)" by (rule prune_spec(4))
  then have "filter pending (prune now js) = prune now js" by (simp add: list_all_iff)
  then have len: "length (prune now js) \<le> 8" using assms(1) prune_spec(1) [of now js] by simp
  have "\<forall>j \<in> set (prune now js). job_bytes j = 0"
    using all assms(2) prune_spec(2) [of now js] by (auto simp: list_all_iff)
  then have "sum_list (map job_bytes (prune now js)) = 0" by (simp add: sum_list_eq_0_iff)
  with m len show False by (simp add: too_many_def HISTORY_def)
qed

lemma control_ok_prune:
  assumes "control_ok ctl"
  shows "control_ok (ctl\<lparr>ctl_jobs := prune now (ctl_jobs ctl)\<rparr>)"
    and "length (prune now (ctl_jobs ctl)) < HISTORY"
proof -
  have s: "length (prune now (ctl_jobs ctl)) < HISTORY \<and> sum_list (map job_bytes (prune now (ctl_jobs ctl))) \<le> RESULT_BUDGET"
    using assms by (intro prune_small pending_count) (auto simp: control_ok_def)
  then show "length (prune now (ctl_jobs ctl)) < HISTORY" by blast
  show "control_ok (ctl\<lparr>ctl_jobs := prune now (ctl_jobs ctl)\<rparr>)"
    using assms s prune_spec(1,2) [of now "ctl_jobs ctl"] prune_spec(3) [of "ctl_jobs ctl" now]
    unfolding control_ok_def by auto
qed

lemma control_ok_enqueue:
  assumes "control_ok ctl" and "ctl_permits ctl \<noteq> 0" and "new_id \<notin> job_id ` set (ctl_jobs ctl)"
  shows "control_ok (enqueue now new_id created m request ctl)"
proof -
  let ?c = "ctl\<lparr>ctl_jobs := prune now (ctl_jobs ctl)\<rparr>"
  have c: "control_ok ?c" "length (prune now (ctl_jobs ctl)) < HISTORY"
    using control_ok_prune [OF assms(1)] by auto
  have ids: "new_id \<notin> job_id ` set (prune now (ctl_jobs ctl))" using assms(3) prune_spec(2) [of now "ctl_jobs ctl"] by auto
  have "tk_id ` set (ctl_tasks ctl) \<subseteq> job_id ` set (ctl_jobs ctl)"
    using assms(1) by (auto simp: control_ok_def)
  with assms(3) have t: "new_id \<notin> tk_id ` set (ctl_tasks ctl)" by blast
  have w: "ctl_writer ctl \<noteq> Some new_id"
    using assms(1) t by (auto simp: control_ok_def)
  show ?thesis using c ids t assms(2) w
    by (auto simp: control_ok_def enqueue_def pending_def)
qed


lemma control_ok_submit:
  assumes "control_ok ctl" and "submit native_check report now new_id created request ctl = Some (out, ctl')"
    and "new_id \<notin> job_id ` set (ctl_jobs ctl)"
  shows "control_ok ctl'"
proof -
  have "ctl' = ctl \<or> ctl' = ctl\<lparr>ctl_jobs := prune now (ctl_jobs ctl)\<rparr>
     \<or> ctl_permits ctl \<noteq> 0 \<and> (\<exists>m. ctl' = enqueue now new_id created m request ctl)"
    using assms(2) unfolding submit_def Let_def
    by (auto split: option.splits result.splits if_splits)
  then show ?thesis
    using assms(1,3) control_ok_prune(1) control_ok_enqueue by blast
qed

lemma find_task: "List.find (\<lambda>t. tk_id t = i) ts = Some t \<Longrightarrow> t \<in> set ts \<and> tk_id t = i"
  by (auto simp: find_Some_iff)

lemma control_ok_begin:
  assumes "control_ok ctl" and "begin_task i ctl = Some ctl'"
  shows "control_ok ctl'"
proof -
  from assms(2) obtain t where t: "t \<in> set (ctl_tasks ctl)" "tk_id t = i" "\<not> tk_running t"
    "method_mutating (tk_method t) \<longrightarrow> ctl_writer ctl = None"
    and c: "ctl' = ctl\<lparr>ctl_writer := (if method_mutating (tk_method t) then Some i else ctl_writer ctl),
            ctl_jobs := update_job i (\<lambda>j. j\<lparr>job_status := ''running''\<rparr>) (ctl_jobs ctl),
            ctl_tasks := map (\<lambda>t. if tk_id t = i then t\<lparr>tk_running := True\<rparr> else t) (ctl_tasks ctl)\<rparr>"
    by (auto simp: begin_task_def dest: find_task split: option.splits if_splits)
  let ?f = "\<lambda>j. if job_id j = i then j\<lparr>job_status := ''running''\<rparr> else j"
  let ?g = "\<lambda>t. if tk_id t = i then t\<lparr>tk_running := True\<rparr> else t"
  have u: "update_job i (\<lambda>j. j\<lparr>job_status := ''running''\<rparr>) (ctl_jobs ctl) = map ?f (ctl_jobs ctl)"
    using assms(1) by (intro update_job_map) (simp add: control_ok_def)
  have f: "job_id (?f j) = job_id j" "job_bytes (?f j) = job_bytes j" "pending (?f j) = pending j" for j
    by (simp_all add: pending_def)
  have g: "tk_id (?g t) = tk_id t" "tk_method (?g t) = tk_method t" for t :: task by simp_all
  have jobs: "map job_id (map ?f js) = map job_id js" "map job_bytes (map ?f js) = map job_bytes js"
    "job_id ` set (filter pending (map ?f js)) = job_id ` set (filter pending js)" for js
    using f by (simp_all only: map_map comp_def filter_map set_map image_image)
  have tasks: "map tk_id (map ?g ts) = map tk_id ts" "tk_id ` set (map ?g ts) = tk_id ` set ts" for ts :: "task list"
    by (simp_all only: g map_map comp_def set_map image_image)
  have uniq: "t' = t" if "t' \<in> set (ctl_tasks ctl)" "tk_id t' = i" for t'
    using assms(1) t that by (auto simp: control_ok_def distinct_map inj_on_def)
  have w: "tk_running t' \<and> method_mutating (tk_method t') \<longleftrightarrow>
      (if method_mutating (tk_method t) then Some i else ctl_writer ctl) = Some (tk_id t')"
    if "t' \<in> set (map ?g (ctl_tasks ctl))" for t'
  proof -
    obtain t0 where t0: "t0 \<in> set (ctl_tasks ctl)" "t' = ?g t0" using \<open>t' \<in> _\<close> by auto
    show ?thesis
    proof (cases "tk_id t0 = i")
      case True
      with uniq t0(1) have "t0 = t" by blast
      with t0 t assms(1) show ?thesis by (auto simp: control_ok_def)
    next
      case False
      with t0 t assms(1) show ?thesis by (auto simp: control_ok_def)
    qed
  qed
  have b: "\<forall>j \<in> set (map ?f (ctl_jobs ctl)). pending j \<longrightarrow> job_bytes j = 0"
    using assms(1) by (auto simp: control_ok_def pending_def)
  have v: "\<forall>w. (if method_mutating (tk_method t) then Some i else ctl_writer ctl) = Some w
      \<longrightarrow> w \<in> tk_id ` set (ctl_tasks ctl)"
    using assms(1) t(1,2) by (auto simp: control_ok_def)
  have s: "ctl_permits ctl' = ctl_permits ctl" "ctl_jobs ctl' = map ?f (ctl_jobs ctl)"
    "ctl_tasks ctl' = map ?g (ctl_tasks ctl)"
    "ctl_writer ctl' = (if method_mutating (tk_method t) then Some i else ctl_writer ctl)"
    unfolding c u by simp_all
  show ?thesis
    using assms(1) w b v unfolding control_ok_def s jobs tasks length_map by blast
qed

lemma complete_job_simps [simp]:
  "job_id (complete_job bytes_of now stamp r j) = job_id j"
  "job_completed (complete_job bytes_of now stamp r j) = Some now"
  by (simp_all add: complete_job_def Let_def split: result.splits)

lemma length_without_key:
  "distinct (map f xs) \<Longrightarrow> x \<in> set xs \<Longrightarrow> Suc (length (filter (\<lambda>y. f y \<noteq> f x) xs)) = length xs"
proof (induction xs)
  case (Cons a xs)
  show ?case
  proof (cases "f a = f x")
    case True
    with Cons.prems have "filter (\<lambda>y. f y \<noteq> f x) xs = xs" by (auto simp: filter_id_conv image_iff)
    with True show ?thesis by simp
  next
    case False
    with Cons show ?thesis by auto
  qed
qed simp

lemma control_ok_finish:
  assumes "control_ok ctl" and "finish_task bytes_of now stamp i r ctl = Some ctl'"
  shows "control_ok ctl'"
proof -
  let ?f = "\<lambda>j. if job_id j = i then complete_job bytes_of now stamp r j else j"
  let ?js = "map ?f (ctl_jobs ctl)"
  from assms(2) obtain t where t: "t \<in> set (ctl_tasks ctl)" "tk_id t = i" "tk_running t"
    and c0: "ctl' = ctl\<lparr>ctl_jobs := prune now (update_job i (complete_job bytes_of now stamp r) (ctl_jobs ctl)),
            ctl_permits := ctl_permits ctl + 1,
            ctl_writer := (if ctl_writer ctl = Some i then None else ctl_writer ctl),
            ctl_tasks := filter (\<lambda>t. tk_id t \<noteq> i) (ctl_tasks ctl)\<rparr>"
    by (auto simp: finish_task_def dest: find_task split: option.splits if_splits)
  have u: "update_job i (complete_job bytes_of now stamp r) (ctl_jobs ctl) = ?js"
    using assms(1) by (intro update_job_map) (simp add: control_ok_def)
  have s: "ctl_permits ctl' = ctl_permits ctl + 1" "ctl_jobs ctl' = prune now ?js"
    "ctl_tasks ctl' = filter (\<lambda>t. tk_id t \<noteq> i) (ctl_tasks ctl)"
    "ctl_writer ctl' = (if ctl_writer ctl = Some i then None else ctl_writer ctl)"
    unfolding c0 u by simp_all
  have ids: "map job_id ?js = map job_id (ctl_jobs ctl)" by (simp add: comp_def)
  have p: "filter pending (map ?f js) = filter (\<lambda>j. job_id j \<noteq> i) (filter pending js)" for js :: "Job list"
    by (induction js) (simp_all add: pending_def)
  have b: "\<forall>j \<in> set ?js. pending j \<longrightarrow> job_bytes j = 0"
    using assms(1) by (auto simp: control_ok_def pending_def)
  have "length (filter pending ?js) \<le> 8"
    using pending_count [OF assms(1)] unfolding p by (rule le_trans [OF length_filter_le])
  then have small: "length (prune now ?js) < HISTORY \<and> sum_list (map job_bytes (prune now ?js)) \<le> RESULT_BUDGET"
    using b by (rule prune_small)
  have tasks: "job_id ` set (filter pending (prune now ?js)) = tk_id ` set (filter (\<lambda>t. tk_id t \<noteq> i) (ctl_tasks ctl))"
  proof -
    have "job_id ` set (filter pending (prune now ?js)) = job_id ` set (filter pending (ctl_jobs ctl)) - {i}"
      unfolding prune_spec(1) p by auto
    also have "\<dots> = tk_id ` set (ctl_tasks ctl) - {i}" using assms(1) by (simp add: control_ok_def)
    finally show ?thesis by auto
  qed
  have len: "Suc (length (filter (\<lambda>t. tk_id t \<noteq> i) (ctl_tasks ctl))) = length (ctl_tasks ctl)"
    using length_without_key [OF _ t(1), of tk_id] assms(1) t(2) by (simp add: control_ok_def)
  have w: "tk_running t' \<and> method_mutating (tk_method t') \<longleftrightarrow>
      (if ctl_writer ctl = Some i then None else ctl_writer ctl) = Some (tk_id t')"
    if "t' \<in> set (filter (\<lambda>t. tk_id t \<noteq> i) (ctl_tasks ctl))" for t'
    using that assms(1) by (auto simp: control_ok_def)
  have v: "\<forall>w. (if ctl_writer ctl = Some i then None else ctl_writer ctl) = Some w
      \<longrightarrow> w \<in> tk_id ` set (filter (\<lambda>t. tk_id t \<noteq> i) (ctl_tasks ctl))"
    using assms(1) by (auto simp: control_ok_def)
  have d: "distinct (map job_id (prune now ?js))"
    using assms(1) by (intro prune_spec(3)) (simp only: ids control_ok_def)
  have b': "\<forall>j \<in> set (prune now ?js). pending j \<longrightarrow> job_bytes j = 0"
    using b prune_spec(2) [of now ?js] by blast
  have dt: "distinct (map tk_id (filter (\<lambda>t. tk_id t \<noteq> i) (ctl_tasks ctl)))"
    using assms(1) by (simp add: control_ok_def distinct_map inj_on_def)
  have n: "ctl_permits ctl + 1 + length (filter (\<lambda>t. tk_id t \<noteq> i) (ctl_tasks ctl)) = 8"
    using len assms(1) by (simp add: control_ok_def)
  show ?thesis
    using small tasks w v d b' dt n unfolding control_ok_def s by (blast intro: less_imp_le)
qed

interpretation jobs: safety "\<lambda>ctl. ctl = start_control" "control_step native_check bytes_of" control_ok
  for native_check bytes_of
proof
  fix s t assume "control_ok s" and "control_step native_check bytes_of s t"
  from this(2,1) show "control_ok t"
    by (cases rule: control_step.cases) (blast intro: control_ok_submit control_ok_begin control_ok_finish)+
qed (simp add: start_control_def control_ok_def)

section \<open>Properties\<close>

lemma submit_cases:
  assumes "submit native_check report now new_id created request ctl = Some (out, ctl')"
  shows "ctl_tasks ctl' = ctl_tasks ctl \<or>
    (\<exists>m. admission native_check request = Some (Ok m) \<and> \<not> req_dry_run request
      \<and> (req_confirmed request \<or> confirmation_for m (req_params request) = None)
      \<and> ctl_permits ctl \<noteq> 0 \<and> ctl' = enqueue now new_id created m request ctl)"
proof (cases "admission native_check request")
  case (Some r)
  show ?thesis
  proof (cases r)
    case (Ok m)
    show ?thesis
    proof (cases "req_dry_run request \<or> \<not> req_confirmed request \<and> confirmation_for m (req_params request) \<noteq> None")
      case True
      then show ?thesis using assms Some Ok by (auto simp: submit_def split: if_splits)
    next
      case False
      then have "\<not> req_dry_run request"
        "(if req_confirmed request then None else confirmation_for m (req_params request)) = None" by auto
      then show ?thesis using assms Some Ok False
        by (auto simp: submit_def Let_def simp del: if_split split: if_split_asm)
    qed
  qed (use assms Some in \<open>simp add: submit_def\<close>)
qed (use assms in \<open>simp add: submit_def\<close>)

lemma admission_Ok:
  assumes "admission native_check request = Some (Ok m)"
  shows "req_version request = VERSION" "find_method (req_method request) = Ok m"
    "conforms m (req_params request)" "native_check (req_method request) (req_params request) = Ok ()"
  using assms unfolding admission_def
  by (auto split: option.splits result.splits if_splits simp: validate_conforms [symmetric])

text \<open>
  The engine starts an operation only for a request of its own protocol version, that
  names a method of the catalog and conforms to its contract, that is not a dry run, that
  is confirmed if the method asks for it, and only when fewer than eight operations are
  pending; every other request leaves the running operations as they were.
\<close>

theorem submit_guarded:
  assumes "submit native_check report now new_id created request ctl = Some (out, ctl')"
  shows "ctl_tasks ctl' = ctl_tasks ctl
    \<or> req_version request = VERSION \<and> ctl_permits ctl \<noteq> 0 \<and> \<not> req_dry_run request
      \<and> (\<exists>m. find_method (req_method request) = Ok m \<and> conforms m (req_params request)
           \<and> (req_confirmed request \<or> confirmation_for m (req_params request) = None)
           \<and> ctl_tasks ctl' = ctl_tasks ctl @
               [\<lparr>tk_id = new_id, tk_method = m, tk_params = req_params request, tk_running = False\<rparr>])"
  using submit_cases [OF assms]
proof
  assume "\<exists>m. admission native_check request = Some (Ok m) \<and> \<not> req_dry_run request
      \<and> (req_confirmed request \<or> confirmation_for m (req_params request) = None)
      \<and> ctl_permits ctl \<noteq> 0 \<and> ctl' = enqueue now new_id created m request ctl"
  then obtain m where m: "admission native_check request = Some (Ok m)"
    and g: "\<not> req_dry_run request" "req_confirmed request \<or> confirmation_for m (req_params request) = None"
      "ctl_permits ctl \<noteq> 0" "ctl' = enqueue now new_id created m request ctl" by blast
  have "ctl_tasks ctl' = ctl_tasks ctl @
       [\<lparr>tk_id = new_id, tk_method = m, tk_params = req_params request, tk_running = False\<rparr>]"
    unfolding g(4) enqueue_def by simp
  with admission_Ok [OF m] g show ?thesis by blast
qed simp

definition example_request :: Request where
  "example_request = \<lparr>req_version = VERSION, req_method = ''scan_cloud_host'',
     req_params = json_obj [(''host'', JStr ''server.example.com''), (''port'', json_int 22)],
     req_confirmed = False, req_dry_run = False\<rparr>"

definition no_check :: "string \<Rightarrow> json \<Rightarrow> (unit, string) result" where
  "no_check method params = Ok ()"

lemma example_admitted: "\<exists>m. admission no_check example_request = Some (Ok m) \<and> method_name m = ''scan_cloud_host''
    \<and> \<not> method_mutating m \<and> confirmation_for m (req_params example_request) = None"
proof -
  obtain m where m: "find_method ''scan_cloud_host'' = Ok m" "\<not> method_mutating m"
    "method_name m = ''scan_cloud_host''" "method_example m = req_params example_request" "method_confirmation m = None"
    by (simp add: find_method_def methods_def methods_1_def new_method_def example_request_def)
  moreover have "validate m (req_params example_request) = Some (Ok ())"
    using found_contract [OF m(1)] m(4) by (simp add: contract_ok_def)
  ultimately show ?thesis
    by (simp add: admission_def example_request_def no_check_def confirmation_for_def)
qed

lemma start_control_permits: "ctl_permits start_control \<noteq> 0"
  by (simp add: start_control_def)

definition accepts_example :: "Method \<Rightarrow> bool" where
  "accepts_example m \<longleftrightarrow> \<not> method_mutating m \<and> (\<forall>now i created. \<exists>v. \<forall>ctl. ctl_permits ctl \<noteq> 0 \<longrightarrow>
     submit no_check JNull now i created example_request ctl
       = Some (Accepted i v, enqueue now i created m example_request ctl))"

lemma accepts_exampleD:
  assumes "accepts_example m" and "ctl_permits ctl \<noteq> 0"
  obtains v where "submit no_check JNull now i created example_request ctl
    = Some (Accepted i v, enqueue now i created m example_request ctl)"
  using assms unfolding accepts_example_def by blast

lemma example_submit: "\<exists>m. accepts_example m"
proof -
  obtain m where m: "admission no_check example_request = Some (Ok m)" "method_name m = ''scan_cloud_host''"
    "\<not> method_mutating m" "confirmation_for m (req_params example_request) = None"
    using example_admitted by blast
  have "\<forall>ctl. ctl_permits ctl \<noteq> 0 \<longrightarrow> submit no_check JNull now i created example_request ctl
      = Some (Accepted i (json_obj [(''accepted'', JBool True), (''jobId'', JStr i), (''status'', JStr ''queued'')]),
          enqueue now i created m example_request ctl)" for now i created
    using m by (simp add: submit_def) (simp add: example_request_def)
  with m(3) show ?thesis unfolding accepts_example_def by blast
qed

theorem submit_guarded_witness:
  "\<exists>ctl m. submit no_check JNull 0 ''a'' ''now'' example_request start_control = Some (Accepted ''a'' m, ctl)
     \<and> ctl_tasks ctl \<noteq> [] \<and> (\<exists>m. find_method ''scan_cloud_host'' = Ok m \<and> conforms m (req_params example_request))"
proof -
  obtain m v where s: "submit no_check JNull 0 ''a'' ''now'' example_request start_control
     = Some (Accepted ''a'' v, enqueue 0 ''a'' ''now'' m example_request start_control)"
    using example_submit accepts_exampleD [OF _ start_control_permits] by metis
  have "ctl_tasks (enqueue 0 ''a'' ''now'' m example_request start_control) \<noteq> []"
    by (simp add: enqueue_def)
  with submit_guarded [OF s] s show ?thesis
    by (auto simp: start_control_def) (simp_all add: example_request_def)
qed

text \<open>
  C26. At every moment at most eight operations are pending, the history holds at most 64
  jobs and 64 MiB of results, the job of a pending operation is still in it, and at most one
  operation that changes something runs.
\<close>

theorem control_invariant:
  assumes "reach (\<lambda>ctl. ctl = start_control) (control_step native_check bytes_of) ctl"
  shows "length (ctl_tasks ctl) \<le> 8 \<and> length (ctl_jobs ctl) \<le> HISTORY
    \<and> sum_list (map job_bytes (ctl_jobs ctl)) \<le> RESULT_BUDGET
    \<and> (\<forall>t \<in> set (ctl_tasks ctl). \<exists>j \<in> set (ctl_jobs ctl). job_id j = tk_id t \<and> job_completed j = None)
    \<and> length (filter (\<lambda>t. tk_running t \<and> method_mutating (tk_method t)) (ctl_tasks ctl)) \<le> 1"
proof -
  have ok: "control_ok ctl" using assms by (rule jobs.inv_reach)
  have "\<exists>j \<in> set (ctl_jobs ctl). job_id j = tk_id t \<and> job_completed j = None" if "t \<in> set (ctl_tasks ctl)" for t
  proof -
    have "tk_id t \<in> job_id ` set (filter pending (ctl_jobs ctl))" using ok that by (simp add: control_ok_def)
    then show ?thesis by (auto simp: pending_def)
  qed
  moreover have "length (filter (\<lambda>t. tk_running t \<and> method_mutating (tk_method t)) (ctl_tasks ctl)) \<le> 1"
  proof -
    let ?ts = "filter (\<lambda>t. tk_running t \<and> method_mutating (tk_method t)) (ctl_tasks ctl)"
    have "distinct (map tk_id ?ts)" using ok by (simp add: control_ok_def distinct_map inj_on_def)
    then have "length ?ts = card (tk_id ` set ?ts)" using distinct_card by fastforce
    also have "\<dots> \<le> card (set_option (ctl_writer ctl))"
      using ok by (intro card_mono) (auto simp: control_ok_def)
    also have "\<dots> \<le> 1" by (cases "ctl_writer ctl") auto
    finally show ?thesis .
  qed
  ultimately show ?thesis using ok by (auto simp: control_ok_def)
qed

theorem control_invariant_witness:
  "\<exists>ctl. reach (\<lambda>ctl. ctl = start_control) (control_step no_check (\<lambda>_. 0)) ctl
     \<and> length (ctl_tasks ctl) = 1 \<and> length (ctl_jobs ctl) \<le> HISTORY"
proof -
  obtain m v where s: "submit no_check JNull 0 ''a'' ''now'' example_request start_control
     = Some (Accepted ''a'' v, enqueue 0 ''a'' ''now'' m example_request start_control)"
    using example_submit accepts_exampleD [OF _ start_control_permits] by metis
  have r: "reach (\<lambda>ctl. ctl = start_control) (control_step no_check (\<lambda>_. 0))
      (enqueue 0 ''a'' ''now'' m example_request start_control)"
    by (rule reach_move [of _ _ start_control], rule reach_start, rule refl, rule step_submit [OF s])
      (simp add: start_control_def)
  show ?thesis
    using r control_invariant [OF r] by (auto simp: enqueue_def start_control_def)
qed

text \<open>
  C37. A job that finishes as the oldest of a full history is forgotten at once: the pruning
  after its completion drops it, result and all, and \<open>jobs_get\<close> no longer finds it.
\<close>

theorem finished_job_lost:
  assumes "reach (\<lambda>ctl. ctl = start_control) (control_step native_check bytes_of) ctl"
    and "ctl_jobs ctl = j # rest" and "length rest = 63" and "list_all (fresh_job now) rest"
    and "finish_task bytes_of now stamp (job_id j) r ctl = Some ctl'"
  shows "job_id j \<notin> job_id ` set (ctl_jobs ctl')"
proof -
  have ok: "control_ok ctl" using assms(1) by (rule jobs.inv_reach)
  let ?j = "complete_job bytes_of now stamp r j"
  have c: "ctl_jobs ctl' = prune now (?j # rest)"
    using assms(2,5) by (auto simp: finish_task_def update_job_def split: option.splits if_splits)
  have "fresh_job now ?j" by (simp add: fresh_job_def)
  with assms(4) have f: "filter (fresh_job now) (?j # rest) = ?j # rest" by (simp add: list_all_iff)
  have "too_many (?j # rest)" using assms(3) by (simp add: too_many_def HISTORY_def)
  then have "prune now (?j # rest) = shrink rest"
    unfolding prune_def f by (subst shrink.simps) simp
  moreover have "set (shrink rest) \<subseteq> set rest" using shrink_spec by blast
  moreover have "job_id j \<notin> job_id ` set rest" using ok assms(2) by (simp add: control_ok_def)
  ultimately show ?thesis using c by auto
qed

text \<open>Such a history: a first long operation, then 62 that fail, then one more.\<close>

lemma prune_id:
  "list_all (\<lambda>j. fresh_job now j \<and> job_bytes j = 0) js \<Longrightarrow> length js < HISTORY \<Longrightarrow> prune now js = js"
  unfolding prune_def by (subst shrink.simps) (auto simp: list_all_iff too_many_def cong: map_cong)

definition old_job :: Job where
  "old_job = \<lparr>job_id = [], job_method = ''scan_cloud_host'', job_status = ''running'', job_created = ''now'',
     job_completed = None, job_completed_at = None, job_result = None, job_error = None, job_bytes = 0\<rparr>"

definition with_history :: "Method \<Rightarrow> Job list \<Rightarrow> control" where
  "with_history m js = \<lparr>ctl_jobs = old_job # js, ctl_permits = 7, ctl_writer = None,
     ctl_tasks = [\<lparr>tk_id = [], tk_method = m, tk_params = req_params example_request, tk_running = True\<rparr>]\<rparr>"

definition past_job :: "nat \<Rightarrow> Job \<Rightarrow> bool" where
  "past_job n j \<longleftrightarrow> job_completed j = Some 0 \<and> job_bytes j = 0
     \<and> (\<exists>k < n. job_id j = CHR ''x'' # replicate k (CHR ''x''))"

lemma past_job_facts:
  assumes "list_all (past_job n) js" and "length js < 63"
  shows "prune 0 (old_job # js) = old_job # js" and "CHR ''x'' # replicate n (CHR ''x'') \<notin> job_id ` set (old_job # js)"
proof -
  show "prune 0 (old_job # js) = old_job # js"
    using assms by (intro prune_id) (auto simp: list_all_iff past_job_def fresh_job_def HISTORY_def old_job_def)
  have "job_id j \<noteq> CHR ''x'' # replicate n (CHR ''x'')" if j: "j \<in> set js" for j
  proof -
    obtain k where k: "k < n" "job_id j = CHR ''x'' # replicate k (CHR ''x'')"
      using assms(1) j by (auto simp: list_all_iff past_job_def)
    then have "length (job_id j) \<noteq> length (CHR ''x'' # replicate n (CHR ''x''))" by simp
    then show ?thesis by metis
  qed
  moreover have "job_id old_job \<noteq> CHR ''x'' # replicate n (CHR ''x'')" by (simp add: old_job_def)
  ultimately show "CHR ''x'' # replicate n (CHR ''x'') \<notin> job_id ` set (old_job # js)"
    unfolding image_iff set_simps by (metis insert_iff)
qed

lemma history_permits: "ctl_permits (with_history m js) \<noteq> 0"
  by (simp add: with_history_def)

lemma update_last:
  "i \<notin> job_id ` set js \<Longrightarrow> job_id j = i \<Longrightarrow> update_job i f (js @ [j]) = js @ [f j]"
  by (induction js) (auto simp: update_job_def Let_def split: option.splits)

lemma history_step:
  fixes n :: nat
  defines "i \<equiv> CHR ''x'' # replicate n (CHR ''x'')"
  assumes "list_all (past_job n) js" and "length js < 62"
    and "accepts_example m"
  shows "\<exists>j. past_job (Suc n) j \<and> (control_step no_check (\<lambda>_. 0))\<^sup>*\<^sup>* (with_history m js) (with_history m (js @ [j]))"
proof -
  let ?q = "enqueue 0 i ''now'' m example_request (with_history m js)"
  have p: "prune 0 (old_job # js) = old_job # js" "i \<notin> job_id ` set (old_job # js)"
    using past_job_facts [OF assms(2)] assms(3) by (simp_all add: i_def)
  obtain v where "submit no_check JNull 0 i ''now'' example_request (with_history m js) = Some (Accepted i v, ?q)"
    using accepts_exampleD [OF assms(4) history_permits] .
  then have a: "control_step no_check (\<lambda>_. 0) (with_history m js) ?q"
    by (rule step_submit) (use p(2) in \<open>simp add: with_history_def\<close>)
  have m: "\<not> method_mutating m" using assms(4) by (simp add: accepts_example_def)
  have i: "i \<noteq> []" by (simp add: i_def)
  define q where "q = last (ctl_jobs ?q)"
  have q: "job_id q = i" "job_completed q = None" "job_bytes q = 0" and
    e: "?q = \<lparr>ctl_jobs = (old_job # js) @ [q], ctl_permits = 6, ctl_writer = None,
     ctl_tasks = [\<lparr>tk_id = [], tk_method = m, tk_params = req_params example_request, tk_running = True\<rparr>,
       \<lparr>tk_id = i, tk_method = m, tk_params = req_params example_request, tk_running = False\<rparr>]\<rparr>"
    using p(1) by (simp_all add: q_def enqueue_def with_history_def)
  let ?r = "q\<lparr>job_status := ''running''\<rparr>"
  let ?b = "\<lparr>ctl_jobs = (old_job # js) @ [?r], ctl_permits = 6, ctl_writer = None,
     ctl_tasks = [\<lparr>tk_id = [], tk_method = m, tk_params = req_params example_request, tk_running = True\<rparr>,
       \<lparr>tk_id = i, tk_method = m, tk_params = req_params example_request, tk_running = True\<rparr>]\<rparr>"
  have b: "control_step no_check (\<lambda>_. 0) ?q ?b"
    by (rule step_begin [of i]) (use m i update_last [OF p(2) q(1)] in \<open>simp add: begin_task_def e\<close>)
  let ?d = "complete_job (\<lambda>_. 0) 0 ''now'' (Err ''failed'') ?r"
  have past: "past_job (Suc n) ?d"
    using q by (auto simp: past_job_def complete_job_def i_def)
  have "prune 0 ((old_job # js) @ [?d]) = (old_job # js) @ [?d]"
    using assms(2,3) past
    by (intro prune_id) (auto simp: list_all_iff past_job_def fresh_job_def HISTORY_def old_job_def)
  then have "finish_task (\<lambda>_. 0) 0 ''now'' i (Err ''failed'') ?b = Some (with_history m (js @ [?d]))"
    using i update_last [OF p(2), of ?r] q(1) by (simp add: finish_task_def with_history_def)
  then have c: "control_step no_check (\<lambda>_. 0) ?b (with_history m (js @ [?d]))" by (rule step_finish)
  show ?thesis using past a b c by (meson converse_rtranclp_into_rtranclp rtranclp.rtrancl_refl)
qed

lemma history_start:
  assumes "accepts_example m"
  shows "reach (\<lambda>ctl. ctl = start_control) (control_step no_check (\<lambda>_. 0)) (with_history m [])"
proof -
  obtain v where s: "submit no_check JNull 0 [] ''now'' example_request start_control
     = Some (Accepted [] v, enqueue 0 [] ''now'' m example_request start_control)"
    using accepts_exampleD [OF assms start_control_permits] .
  have a: "control_step no_check (\<lambda>_. 0) start_control (enqueue 0 [] ''now'' m example_request start_control)"
    by (rule step_submit [OF s]) (simp add: start_control_def)
  have idle: "\<not> method_mutating m" using assms by (simp add: accepts_example_def)
  have "prune 0 [] = []" by (simp add: prune_id HISTORY_def)
  then have "begin_task [] (enqueue 0 [] ''now'' m example_request start_control) = Some (with_history m [])"
    using idle by (simp add: begin_task_def enqueue_def start_control_def with_history_def update_job_def
        old_job_def example_request_def)
  then have b: "control_step no_check (\<lambda>_. 0) (enqueue 0 [] ''now'' m example_request start_control) (with_history m [])"
    by (rule step_begin)
  have "(control_step no_check (\<lambda>_. 0))\<^sup>*\<^sup>* start_control (with_history m [])"
    using a b by (blast intro: rtranclp.intros)
  then show ?thesis by (rule reach_run) (rule reach_start, rule refl)
qed

lemma history_reach:
  assumes "accepts_example m"
  shows "n \<le> 62 \<Longrightarrow> \<exists>js. length js = n \<and> list_all (past_job n) js
    \<and> reach (\<lambda>ctl. ctl = start_control) (control_step no_check (\<lambda>_. 0)) (with_history m js)"
proof (induction n)
  case 0
  show ?case using history_start [OF assms] by (intro exI [of _ "[]"]) simp
next
  case (Suc n)
  from Suc.prems have "n \<le> 62" by simp
  from Suc.IH [OF this] obtain js where js: "length js = n" "list_all (past_job n) js"
    "reach (\<lambda>ctl. ctl = start_control) (control_step no_check (\<lambda>_. 0)) (with_history m js)" by blast
  from Suc.prems js(1) have "length js < 62" by simp
  from history_step [OF js(2) this assms] obtain j where j: "past_job (Suc n) j"
    "(control_step no_check (\<lambda>_. 0))\<^sup>*\<^sup>* (with_history m js) (with_history m (js @ [j]))" by blast
  have "reach (\<lambda>ctl. ctl = start_control) (control_step no_check (\<lambda>_. 0)) (with_history m (js @ [j]))"
    by (rule reach_run [OF j(2) js(3)])
  moreover have "list_all (past_job (Suc n)) (js @ [j])"
    using js(2) j(1) by (auto simp: list_all_iff past_job_def less_SucI)
  ultimately show ?case using js(1) by (intro exI [of _ "js @ [j]"]) simp
qed

theorem finished_job_lost_witness:
  "\<exists>ctl ctl'. reach (\<lambda>ctl. ctl = start_control) (control_step no_check (\<lambda>_. 0)) ctl
     \<and> [] \<in> job_id ` set (ctl_jobs ctl)
     \<and> finish_task (\<lambda>_. 0) 0 ''now'' [] (Ok (JStr ''keys'')) ctl = Some ctl'
     \<and> [] \<notin> job_id ` set (ctl_jobs ctl')"
proof -
  let ?reach = "reach (\<lambda>ctl. ctl = start_control) (control_step no_check (\<lambda>_. 0))"
  obtain m where m: "accepts_example m" using example_submit by blast
  obtain js where js: "length js = 62" "list_all (past_job 62) js" "?reach (with_history m js)"
    using history_reach [OF m, of 62] by auto
  define i where "i = CHR ''x'' # replicate 62 (CHR ''x'')"
  let ?q = "enqueue 0 i ''now'' m example_request (with_history m js)"
  have p: "prune 0 (old_job # js) = old_job # js" "i \<notin> job_id ` set (old_job # js)"
    using past_job_facts [OF js(2)] js(1) by (simp_all add: i_def)
  obtain v where "submit no_check JNull 0 i ''now'' example_request (with_history m js) = Some (Accepted i v, ?q)"
    using accepts_exampleD [OF m history_permits] .
  then have "control_step no_check (\<lambda>_. 0) (with_history m js) ?q"
    by (rule step_submit) (use p(2) in \<open>simp add: with_history_def\<close>)
  with js(3) have r: "?reach ?q" by (rule reach_move)
  obtain k where k: "ctl_jobs ?q = old_job # js @ [k]" "job_completed k = None"
    using p(1) by (simp add: enqueue_def with_history_def)
  obtain c where f: "finish_task (\<lambda>_. 0) 0 ''now'' (job_id old_job) (Ok (JStr ''keys'')) ?q = Some c"
    by (simp add: finish_task_def enqueue_def with_history_def old_job_def)
  have "list_all (fresh_job 0) (js @ [k])"
    using js(2) k(2) by (auto simp: list_all_iff past_job_def fresh_job_def)
  then have "job_id old_job \<notin> job_id ` set (ctl_jobs c)"
    using finished_job_lost [OF r k(1) _ _ f] js(1) by simp
  then show ?thesis using r f k(1) by (intro exI [of _ ?q] exI [of _ c]) (simp add: old_job_def)
qed

end
