(* ===== verification/Guest_Keyboard.thy ===== *)
theory Guest_Keyboard
  imports Float64 Rust_Text
begin

text \<open>
  Capture of the Windows keys for a guest display (\<open>src-tauri/src/guest_keyboard.rs\<close>): the
  bounds of the display, the command that arms and disarms the capture, the low-level
  keyboard hook and the release of a closed window. What Windows answers (the foreground
  window, the pointer, whether the hook can be installed) is an argument of the operations;
  the mutex is taken by one operation at a time (no critical section can panic, so it is
  never poisoned), and the hook passes the key on when it finds it taken.
\<close>

section \<open>Bounds of a display\<close>

record CaptureBounds =
  b_left :: f64
  b_top :: f64
  b_right :: f64
  b_bottom :: f64

definition valid_bounds :: "CaptureBounds \<Rightarrow> bool" where
  "valid_bounds r \<longleftrightarrow>
     list_all (\<lambda>n. is_finite n \<and> f_le (Fin 0) n \<and> f_le n (Fin 100000)) [b_left r, b_top r, b_right r, b_bottom r]
     \<and> f_lt (b_left r) (b_right r) \<and> f_lt (b_top r) (b_bottom r)"

definition bounds_contain :: "CaptureBounds \<Rightarrow> int \<Rightarrow> int \<Rightarrow> bool" where
  "bounds_contain r x y \<longleftrightarrow> f_le (b_left r) (Fin (of_int x)) \<and> f_lt (Fin (of_int x)) (b_right r)
     \<and> f_le (b_top r) (Fin (of_int y)) \<and> f_lt (Fin (of_int y)) (b_bottom r)"

section \<open>State\<close>

record Target =
  tg_window :: string
  tg_hwnd :: nat
  tg_token :: string
  tg_bounds :: CaptureBounds

record Key =
  key_token :: string
  key_code :: string
  key_keysym :: u32
  key_down :: bool

record Capture =
  cap_target :: "Target option"
  cap_pressed :: "Target option list"

text \<open>
  \<open>kb_events\<close> is \<open>Some\<close> once the channel \<open>EVENTS\<close> exists, with what was sent on it;
  \<open>kb_started\<close> is the remembered outcome \<open>STARTED\<close>.
\<close>

record keyboard =
  kb_capture :: Capture
  kb_events :: "(string \<times> Key) list option"
  kb_started :: "(unit, string) result option"

definition initial_keyboard :: keyboard where
  "initial_keyboard = \<lparr>kb_capture = \<lparr>cap_target = None, cap_pressed = [None, None]\<rparr>,
     kb_events = None, kb_started = None\<rparr>"

definition emit :: "Target \<Rightarrow> nat \<Rightarrow> bool \<Rightarrow> keyboard \<Rightarrow> keyboard" where
  "emit target index down kb =
     (case kb_events kb of
        None \<Rightarrow> kb
      | Some sent \<Rightarrow> kb\<lparr>kb_events := Some (sent @
          [(tg_window target, \<lparr>key_token = tg_token target,
             key_code = (if index = 0 then ''MetaLeft'' else ''MetaRight''),
             key_keysym = (if index = 0 then 0xffeb else 0xffec), key_down = down\<rparr>)])\<rparr>)"

section \<open>The hook\<close>

text \<open>The desktop as the hook sees it: the foreground window and the pointer inside a window.\<close>

record desktop =
  foreground :: nat
  pointer_in :: "nat \<Rightarrow> (int \<times> int) option"

definition WM_KEYDOWN :: u32 where "WM_KEYDOWN = 0x100"
definition WM_KEYUP :: u32 where "WM_KEYUP = 0x101"
definition WM_SYSKEYDOWN :: u32 where "WM_SYSKEYDOWN = 0x104"
definition WM_SYSKEYUP :: u32 where "WM_SYSKEYUP = 0x105"

definition key_index :: "u32 \<Rightarrow> nat option" where
  "key_index vk = (if vk = 0x5b then Some 0 else if vk = 0x5c then Some 1 else None)"

text \<open>The result says whether the hook swallows the key (\<open>return 1\<close>) or passes it to the host.\<close>

definition hook_key :: "desktop \<Rightarrow> nat \<Rightarrow> bool \<Rightarrow> keyboard \<Rightarrow> bool \<times> keyboard" where
  "hook_key desk index down kb =
     (let cap = kb_capture kb in
      if \<not> down then
        (case cap_pressed cap ! index of
           Some target \<Rightarrow>
             (True, emit target index False (kb\<lparr>kb_capture := cap\<lparr>cap_pressed := (cap_pressed cap)[index := None]\<rparr>\<rparr>))
         | None \<Rightarrow> (False, kb))
      else if cap_pressed cap ! index \<noteq> None then (True, kb)
      else
        (case cap_target cap of
           None \<Rightarrow> (False, kb)
         | Some target \<Rightarrow>
             if foreground desk = tg_hwnd target
                \<and> (case pointer_in desk (tg_hwnd target) of None \<Rightarrow> False | Some (x, y) \<Rightarrow> bounds_contain (tg_bounds target) x y)
             then (True, (emit target index True kb)\<lparr>kb_capture := cap\<lparr>cap_pressed := (cap_pressed cap)[index := Some target]\<rparr>\<rparr>)
             else (False, kb)))"

definition hook :: "bool \<Rightarrow> desktop \<Rightarrow> int \<Rightarrow> u32 \<Rightarrow> u32 \<Rightarrow> keyboard \<Rightarrow> bool \<times> keyboard" where
  "hook locked desk code message vk kb =
     (if code \<ge> 0 \<and> message \<in> {WM_KEYDOWN, WM_SYSKEYDOWN, WM_KEYUP, WM_SYSKEYUP}
      then
        (case key_index vk of
           None \<Rightarrow> (False, kb)
         | Some index \<Rightarrow>
             if locked then (False, kb)
             else hook_key desk index (message \<in> {WM_KEYDOWN, WM_SYSKEYDOWN}) kb)
      else (False, kb))"

section \<open>Arming, disarming and release\<close>

definition start :: "(unit, string) result \<Rightarrow> keyboard \<Rightarrow> (unit, string) result \<times> keyboard" where
  "start installed kb =
     (case kb_started kb of
        Some r \<Rightarrow> (r, kb)
      | None \<Rightarrow> (installed, kb\<lparr>kb_events := Some [], kb_started := Some installed\<rparr>))"

definition set_capture :: "(unit, string) result \<Rightarrow> (nat, string) result \<Rightarrow> nat \<Rightarrow> string \<Rightarrow> string \<Rightarrow> CaptureBounds option
    \<Rightarrow> keyboard \<Rightarrow> (unit, string) result \<times> keyboard" where
  "set_capture installed hwnd foreground_window window token bounds kb =
     (case bounds of
        Some r \<Rightarrow>
          (case start installed kb of
             (Err e, kb) \<Rightarrow> (Err e, kb)
           | (Ok _, kb) \<Rightarrow>
               (case hwnd of
                  Err e \<Rightarrow> (Err e, kb)
                | Ok h \<Rightarrow>
                    if foreground_window \<noteq> h then (Ok (), kb)
                    else (Ok (), kb\<lparr>kb_capture := (kb_capture kb)\<lparr>cap_target :=
                            Some \<lparr>tg_window = window, tg_hwnd = h, tg_token = token, tg_bounds = r\<rparr>\<rparr>\<rparr>)))
      | None \<Rightarrow>
          (Ok (),
           case cap_target (kb_capture kb) of
             Some t \<Rightarrow> if tg_window t = window \<and> tg_token t = token
                       then kb\<lparr>kb_capture := (kb_capture kb)\<lparr>cap_target := None\<rparr>\<rparr> else kb
           | None \<Rightarrow> kb))"

definition set_guest_keyboard_capture :: "(unit, string) result \<Rightarrow> (nat, string) result \<Rightarrow> nat \<Rightarrow> string \<Rightarrow> string
    \<Rightarrow> CaptureBounds option \<Rightarrow> keyboard \<Rightarrow> (unit, string) result \<times> keyboard" where
  "set_guest_keyboard_capture installed hwnd foreground_window window token bounds kb =
     (if \<not> starts_with ''environment-env-'' window \<or> token = [] \<or> length token > 100
      then (Err ''Keyboard capture is only available in a guest window'', kb)
      else if (case bounds of None \<Rightarrow> False | Some r \<Rightarrow> \<not> valid_bounds r)
      then (Err ''Invalid guest display bounds'', kb)
      else set_capture installed hwnd foreground_window window token bounds kb)"

definition release_key :: "string \<Rightarrow> keyboard \<Rightarrow> nat \<Rightarrow> keyboard" where
  "release_key label kb index =
     (case cap_pressed (kb_capture kb) ! index of
        Some t \<Rightarrow> if tg_window t = label then emit t index False kb else kb
      | None \<Rightarrow> kb)"

definition release :: "string \<Rightarrow> keyboard \<Rightarrow> keyboard" where
  "release label kb =
     (let kb = (case cap_target (kb_capture kb) of
                  Some t \<Rightarrow> if tg_window t = label
                            then kb\<lparr>kb_capture := (kb_capture kb)\<lparr>cap_target := None\<rparr>\<rparr> else kb
                | None \<Rightarrow> kb)
      in foldl (release_key label) kb [0 ..< length (cap_pressed (kb_capture kb))])"

section \<open>Steps\<close>

inductive keyboard_step :: "keyboard \<Rightarrow> keyboard \<Rightarrow> bool" where
  step_hook: "kb_started kb = Some (Ok ()) \<Longrightarrow> hook locked desk code message vk kb = (swallowed, kb')
    \<Longrightarrow> keyboard_step kb kb'"
| step_set: "set_guest_keyboard_capture installed hwnd fg window token bounds kb = (r, kb') \<Longrightarrow> keyboard_step kb kb'"
| step_release: "keyboard_step kb (release label kb)"

text \<open>The last event of a key for one window and token was its press.\<close>

definition about_key :: "string \<Rightarrow> string \<Rightarrow> nat \<Rightarrow> string \<times> Key \<Rightarrow> bool" where
  "about_key window token index e \<longleftrightarrow> fst e = window \<and> key_token (snd e) = token
     \<and> key_code (snd e) = (if index = 0 then ''MetaLeft'' else ''MetaRight'')"

definition held :: "string \<Rightarrow> string \<Rightarrow> nat \<Rightarrow> (string \<times> Key) list \<Rightarrow> bool" where
  "held window token index sent \<longleftrightarrow>
     (case filter (about_key window token index) (rev sent) of [] \<Rightarrow> False | e # _ \<Rightarrow> key_down (snd e))"

definition guest_target :: "Target \<Rightarrow> bool" where
  "guest_target t \<longleftrightarrow> starts_with ''environment-env-'' (tg_window t) \<and> tg_token t \<noteq> [] \<and> length (tg_token t) \<le> 100
     \<and> valid_bounds (tg_bounds t)"

definition owned :: "Target option list \<Rightarrow> (string \<times> Key) list \<Rightarrow> bool" where
  "owned pressed sent \<longleftrightarrow> (\<forall>window token. \<forall>index < 2. held window token index sent \<longrightarrow>
     (\<exists>t. pressed ! index = Some t \<and> tg_window t = window \<and> tg_token t = token))"

definition keyboard_ok :: "keyboard \<Rightarrow> bool" where
  "keyboard_ok kb \<longleftrightarrow>
     (let cap = kb_capture kb in
        length (cap_pressed cap) = 2
        \<and> (\<forall>t. cap_target cap = Some t \<or> Some t \<in> set (cap_pressed cap) \<longrightarrow> guest_target t \<and> kb_events kb \<noteq> None)
        \<and> (kb_started kb = None \<longleftrightarrow> kb_events kb = None)
        \<and> (\<forall>sent. kb_events kb = Some sent \<longrightarrow> owned (cap_pressed cap) sent
             \<and> (\<forall>e \<in> set sent. starts_with ''environment-env-'' (fst e)
                  \<and> (key_code (snd e), key_keysym (snd e)) \<in> {(''MetaLeft'', 0xffeb), (''MetaRight'', 0xffec)})))"

lemma held_snoc [simp]:
  "held window token index (sent @ [e]) =
     (if about_key window token index e then key_down (snd e) else held window token index sent)"
  by (simp add: held_def)

lemma held_Nil [simp]: "\<not> held window token index []"
  by (simp add: held_def)

lemma ownedD:
  "owned pressed sent \<Longrightarrow> index < 2 \<Longrightarrow> held window token index sent \<Longrightarrow>
   \<exists>t. pressed ! index = Some t \<and> tg_window t = window \<and> tg_token t = token"
  by (simp add: owned_def)

lemma keyboard_ok_initial: "keyboard_ok initial_keyboard"
  by (simp add: keyboard_ok_def initial_keyboard_def)


lemma emit_simps [simp]:
  "kb_capture (emit t i d kb) = kb_capture kb" "kb_started (emit t i d kb) = kb_started kb"
  "kb_events (emit t i d kb) = None \<longleftrightarrow> kb_events kb = None"
  by (simp_all add: emit_def split: option.split)

lemma guest_event:
  "guest_target t \<Longrightarrow> kb_events kb = Some sent \<Longrightarrow>
   \<exists>e. kb_events (emit t i d kb) = Some (sent @ [e]) \<and> starts_with ''environment-env-'' (fst e)
     \<and> (key_code (snd e), key_keysym (snd e)) \<in> {(''MetaLeft'', 0xffeb), (''MetaRight'', 0xffec)}
     \<and> key_down (snd e) = d
     \<and> (\<forall>window token j. j < 2 \<longrightarrow> i < 2 \<longrightarrow> about_key window token j e \<longleftrightarrow> window = tg_window t \<and> token = tg_token t \<and> j = i)"
  by (auto simp: emit_def guest_target_def about_key_def)

lemma emit_up_ok:
  assumes "keyboard_ok kb" and "guest_target t" and "i < 2"
  shows "keyboard_ok (emit t i False kb)"
proof (cases "kb_events kb")
  case None
  with assms(1) show ?thesis by (simp add: emit_def)
next
  case (Some sent)
  from guest_event [OF assms(2) Some, of i False] obtain e where
    e: "kb_events (emit t i False kb) = Some (sent @ [e])" "starts_with ''environment-env-'' (fst e)"
      "(key_code (snd e), key_keysym (snd e)) \<in> {(''MetaLeft'', 0xffeb), (''MetaRight'', 0xffec)}" "\<not> key_down (snd e)"
    by blast
  have "owned (cap_pressed (kb_capture kb)) (sent @ [e])"
    using assms(1) Some e(4) by (auto simp: keyboard_ok_def Let_def owned_def)
  then show ?thesis using assms(1) Some e by (auto simp: keyboard_ok_def Let_def)
qed

lemma up_ok:
  assumes "keyboard_ok kb" and "i < 2" and "cap_pressed (kb_capture kb) ! i = Some t"
  shows "keyboard_ok (emit t i False (kb\<lparr>kb_capture := (kb_capture kb)\<lparr>cap_pressed := (cap_pressed (kb_capture kb))[i := None]\<rparr>\<rparr>))"
proof -
  let ?p = "cap_pressed (kb_capture kb)"
  let ?kb = "kb\<lparr>kb_capture := (kb_capture kb)\<lparr>cap_pressed := ?p[i := None]\<rparr>\<rparr>"
  have len: "length ?p = 2" using assms(1) by (simp add: keyboard_ok_def Let_def)
  then have "Some t \<in> set ?p" using assms(2,3) nth_mem by metis
  then have t: "guest_target t" "kb_events kb \<noteq> None" using assms(1) by (auto simp: keyboard_ok_def Let_def)
  then obtain sent where sent: "kb_events ?kb = Some sent" by auto
  from guest_event [OF t(1) sent, of i False] assms(2) obtain e where
    e: "kb_events (emit t i False ?kb) = Some (sent @ [e])" "starts_with ''environment-env-'' (fst e)"
      "(key_code (snd e), key_keysym (snd e)) \<in> {(''MetaLeft'', 0xffeb), (''MetaRight'', 0xffec)}" "\<not> key_down (snd e)"
      "\<forall>window token j. j < 2 \<longrightarrow> about_key window token j e \<longleftrightarrow> window = tg_window t \<and> token = tg_token t \<and> j = i"
    by blast
  have o: "owned ?p sent" using assms(1) sent by (simp add: keyboard_ok_def Let_def)
  have "owned (?p[i := None]) (sent @ [e])"
    unfolding owned_def
  proof (intro allI impI)
    fix window token j assume j: "j < 2" "held window token j (sent @ [e])"
    then have h: "held window token j sent" "\<not> about_key window token j e" using e(4) by (auto split: if_splits)
    then obtain t' where t': "?p ! j = Some t'" "tg_window t' = window" "tg_token t' = token"
      using ownedD [OF o j(1)] by blast
    have "j \<noteq> i" using h(2) e(5) j(1) t' assms(3) by auto
    then show "\<exists>t. ?p[i := None] ! j = Some t \<and> tg_window t = window \<and> tg_token t = token" using t' by auto
  qed
  moreover have "Some t' \<in> set ?p" if "Some t' \<in> set (?p[i := None])" for t'
    using that set_update_subset_insert [of ?p i None] by auto
  ultimately show ?thesis using assms(1) sent e(1,2,3) by (auto simp: keyboard_ok_def Let_def)
qed

lemma down_ok:
  assumes "keyboard_ok kb" and "i < 2" and "cap_pressed (kb_capture kb) ! i = None"
    and "cap_target (kb_capture kb) = Some t"
  shows "keyboard_ok ((emit t i True kb)\<lparr>kb_capture := (kb_capture kb)\<lparr>cap_pressed := (cap_pressed (kb_capture kb))[i := Some t]\<rparr>\<rparr>)"
proof -
  let ?p = "cap_pressed (kb_capture kb)"
  have len: "length ?p = 2" using assms(1) by (simp add: keyboard_ok_def Let_def)
  have t: "guest_target t" "kb_events kb \<noteq> None" using assms(1,4) by (auto simp: keyboard_ok_def Let_def)
  then obtain sent where sent: "kb_events kb = Some sent" by auto
  from guest_event [OF t(1) sent, of i True] assms(2) obtain e where
    e: "kb_events (emit t i True kb) = Some (sent @ [e])" "starts_with ''environment-env-'' (fst e)"
      "(key_code (snd e), key_keysym (snd e)) \<in> {(''MetaLeft'', 0xffeb), (''MetaRight'', 0xffec)}"
      "\<forall>window token j. j < 2 \<longrightarrow> about_key window token j e \<longleftrightarrow> window = tg_window t \<and> token = tg_token t \<and> j = i"
    by blast
  have o: "owned ?p sent" using assms(1) sent by (simp add: keyboard_ok_def Let_def)
  have "owned (?p[i := Some t]) (sent @ [e])"
    unfolding owned_def
  proof (intro allI impI)
    fix window token j assume j: "j < 2" "held window token j (sent @ [e])"
    show "\<exists>t'. ?p[i := Some t] ! j = Some t' \<and> tg_window t' = window \<and> tg_token t' = token"
    proof (cases "about_key window token j e")
      case True
      with e(4) j(1) len show ?thesis by auto
    next
      case False
      then have "held window token j sent" using j(2) by simp
      then obtain t' where t': "?p ! j = Some t'" "tg_window t' = window" "tg_token t' = token"
        using ownedD [OF o j(1)] by blast
      then have "j \<noteq> i" using assms(3) by auto
      with t' show ?thesis by auto
    qed
  qed
  moreover have "guest_target t'" if "Some t' \<in> set (?p[i := Some t])" for t'
    using that set_update_subset_insert [of ?p i "Some t"] t(1) assms(1) by (auto simp: keyboard_ok_def Let_def)
  ultimately show ?thesis using assms(1,4) t sent e(1,2,3) len by (auto simp: keyboard_ok_def Let_def)
qed


lemma hook_ok:
  assumes "keyboard_ok kb" and "hook locked desk code message vk kb = (swallowed, kb')"
  shows "keyboard_ok kb'"
proof -
  have i: "i < 2" if "key_index vk = Some i" for i using that by (auto simp: key_index_def split: if_splits)
  consider "kb' = kb" | i down where "key_index vk = Some i" "hook_key desk i down kb = (swallowed, kb')"
    using assms(2) by (auto simp: hook_def split: if_splits option.splits)
  then show ?thesis
  proof cases
    case 2
    then have "kb' = kb
      \<or> (\<exists>t. cap_pressed (kb_capture kb) ! i = Some t
           \<and> kb' = emit t i False (kb\<lparr>kb_capture := (kb_capture kb)\<lparr>cap_pressed := (cap_pressed (kb_capture kb))[i := None]\<rparr>\<rparr>))
      \<or> (\<exists>t. cap_pressed (kb_capture kb) ! i = None \<and> cap_target (kb_capture kb) = Some t
           \<and> kb' = (emit t i True kb)\<lparr>kb_capture := (kb_capture kb)\<lparr>cap_pressed := (cap_pressed (kb_capture kb))[i := Some t]\<rparr>\<rparr>)"
      by (auto simp: hook_key_def Let_def split: if_splits option.splits)
    with assms(1) i [OF 2(1)] show ?thesis by (blast intro: up_ok down_ok)
  qed (use assms(1) in simp)
qed

lemma disarm_ok: "keyboard_ok kb \<Longrightarrow> keyboard_ok (kb\<lparr>kb_capture := (kb_capture kb)\<lparr>cap_target := None\<rparr>\<rparr>)"
  by (auto simp: keyboard_ok_def Let_def)

lemma start_ok: "keyboard_ok kb \<Longrightarrow> start installed kb = (r, kb') \<Longrightarrow> keyboard_ok kb' \<and> kb_events kb' \<noteq> None"
  by (auto simp: keyboard_ok_def Let_def start_def owned_def split: option.splits)

lemma arm_ok:
  "keyboard_ok kb \<Longrightarrow> kb_events kb \<noteq> None \<Longrightarrow> guest_target t
   \<Longrightarrow> keyboard_ok (kb\<lparr>kb_capture := (kb_capture kb)\<lparr>cap_target := Some t\<rparr>\<rparr>)"
  by (auto simp: keyboard_ok_def Let_def)

lemma set_ok:
  assumes "keyboard_ok kb" and "set_guest_keyboard_capture installed hwnd fg window token bounds kb = (r, kb')"
  shows "keyboard_ok kb'"
proof (cases bounds)
  case None
  with assms show ?thesis
    by (auto simp: set_guest_keyboard_capture_def set_capture_def intro: disarm_ok split: if_splits option.splits)
next
  case (Some b)
  obtain r1 kb1 where st: "start installed kb = (r1, kb1)" by fastforce
  have ok: "keyboard_ok kb1" "kb_events kb1 \<noteq> None" using start_ok [OF assms(1) st] by auto
  let ?t = "\<lparr>tg_window = window, tg_hwnd = fg, tg_token = token, tg_bounds = b\<rparr>"
  have "kb' = kb \<or> kb' = kb1 \<or>
      (guest_target ?t \<and> kb' = kb1\<lparr>kb_capture := (kb_capture kb1)\<lparr>cap_target := Some ?t\<rparr>\<rparr>)"
    using assms(2) Some st unfolding set_guest_keyboard_capture_def set_capture_def
    by (auto simp: guest_target_def split: if_splits result.splits)
  with ok assms(1) show ?thesis by (blast intro: arm_ok)
qed

lemma release_key_ok:
  assumes "keyboard_ok kb" and "i < 2"
  shows "keyboard_ok (release_key label kb i)" and "kb_capture (release_key label kb i) = kb_capture kb"
proof -
  show "kb_capture (release_key label kb i) = kb_capture kb"
    by (simp add: release_key_def split: option.split)
  have "guest_target t" if "cap_pressed (kb_capture kb) ! i = Some t" for t
    using assms that nth_mem [of i "cap_pressed (kb_capture kb)"] by (auto simp: keyboard_ok_def Let_def)
  then show "keyboard_ok (release_key label kb i)"
    using assms by (auto simp: release_key_def intro: emit_up_ok split: option.split)
qed

lemma release_keys_ok:
  "keyboard_ok kb \<Longrightarrow> \<forall>i \<in> set is. i < 2 \<Longrightarrow>
   keyboard_ok (foldl (release_key label) kb is) \<and> kb_capture (foldl (release_key label) kb is) = kb_capture kb"
  by (induction "is" arbitrary: kb) (auto simp: release_key_ok)

lemma release_ok:
  assumes ok: "keyboard_ok kb"
  shows "keyboard_ok (release label kb)" and "cap_pressed (kb_capture (release label kb)) = cap_pressed (kb_capture kb)"
proof -
  define kb1 where "kb1 = (case cap_target (kb_capture kb) of
                  Some t \<Rightarrow> if tg_window t = label
                            then kb\<lparr>kb_capture := (kb_capture kb)\<lparr>cap_target := None\<rparr>\<rparr> else kb
                | None \<Rightarrow> kb)"
  have k: "keyboard_ok kb1" "cap_pressed (kb_capture kb1) = cap_pressed (kb_capture kb)"
    using ok by (auto simp: kb1_def intro: disarm_ok split: option.split)
  then have "length (cap_pressed (kb_capture kb1)) = 2" by (simp add: keyboard_ok_def Let_def)
  then show "keyboard_ok (release label kb)" and "cap_pressed (kb_capture (release label kb)) = cap_pressed (kb_capture kb)"
    using k release_keys_ok [of kb1] unfolding release_def kb1_def [symmetric] Let_def by simp_all
qed

interpretation keys: safety "\<lambda>kb. kb = initial_keyboard" keyboard_step keyboard_ok
proof
  fix s t assume "keyboard_ok s" and "keyboard_step s t"
  from this(2,1) show "keyboard_ok t"
    by (cases rule: keyboard_step.cases) (blast intro: hook_ok set_ok release_ok(1))+
qed (simp add: keyboard_ok_initial)

text \<open>
  C32. No guest is left with a held Windows key: in every reachable state, when the last event
  sent to a window for a key was its press, the physical key is still down and owned by that
  window, so its release will be sent there too. Only the two Windows keys are ever sent, and
  only to guest windows.
\<close>

theorem no_stuck_key:
  assumes "reach (\<lambda>kb. kb = initial_keyboard) keyboard_step kb" and "kb_events kb = Some sent"
  shows "(\<forall>window token. \<forall>index < 2. held window token index sent \<longrightarrow>
      (\<exists>t. cap_pressed (kb_capture kb) ! index = Some t \<and> tg_window t = window \<and> tg_token t = token))
    \<and> (\<forall>e \<in> set sent. starts_with ''environment-env-'' (fst e) \<and> key_code (snd e) \<in> {''MetaLeft'', ''MetaRight''})"
  using keys.inv_reach [OF assms(1)] assms(2) by (auto simp: keyboard_ok_def Let_def owned_def)


definition example_bounds :: CaptureBounds where
  "example_bounds = \<lparr>b_left = Fin 0, b_top = Fin 80, b_right = Fin 1200, b_bottom = Fin 760\<rparr>"

definition example_desktop :: desktop where
  "example_desktop = \<lparr>foreground = 7, pointer_in = (\<lambda>_. Some (600, 400))\<rparr>"

definition armed_keyboard :: keyboard where
  "armed_keyboard = snd (set_guest_keyboard_capture (Ok ()) (Ok 7) 7 ''environment-env-1'' ''t'' (Some example_bounds) initial_keyboard)"

definition pressed_keyboard :: keyboard where
  "pressed_keyboard = snd (hook False example_desktop 0 WM_KEYDOWN 0x5b armed_keyboard)"

lemmas example_keyboard_defs = armed_keyboard_def pressed_keyboard_def example_bounds_def example_desktop_def
  set_guest_keyboard_capture_def set_capture_def start_def hook_def hook_key_def key_index_def initial_keyboard_def
  bounds_contain_def valid_bounds_def emit_def WM_KEYDOWN_def WM_KEYUP_def WM_SYSKEYDOWN_def WM_SYSKEYUP_def

lemma armed_keyboard: "armed_keyboard =
    \<lparr>kb_capture = \<lparr>cap_target = Some \<lparr>tg_window = ''environment-env-1'', tg_hwnd = 7, tg_token = ''t'', tg_bounds = example_bounds\<rparr>,
       cap_pressed = [None, None]\<rparr>, kb_events = Some [], kb_started = Some (Ok ())\<rparr>"
  by (simp add: example_keyboard_defs)

lemma pressed_keyboard: "hook False example_desktop 0 WM_KEYDOWN 0x5b armed_keyboard = (True, pressed_keyboard)"
  "kb_events pressed_keyboard = Some [(''environment-env-1'', \<lparr>key_token = ''t'', key_code = ''MetaLeft'',
     key_keysym = 0xffeb, key_down = True\<rparr>)]"
  "cap_pressed (kb_capture pressed_keyboard) ! 0 = Some \<lparr>tg_window = ''environment-env-1'', tg_hwnd = 7, tg_token = ''t'', tg_bounds = example_bounds\<rparr>"
  by (simp_all add: example_keyboard_defs)

lemma reach_pressed: "reach (\<lambda>kb. kb = initial_keyboard) keyboard_step pressed_keyboard"
proof -
  have a: "keyboard_step initial_keyboard armed_keyboard"
    unfolding armed_keyboard_def by (rule step_set) (rule prod.collapse [symmetric])
  have b: "keyboard_step armed_keyboard pressed_keyboard"
    by (rule step_hook [OF _ pressed_keyboard(1)]) (simp add: armed_keyboard)
  have "keyboard_step\<^sup>*\<^sup>* initial_keyboard pressed_keyboard" using a b by (blast intro: rtranclp.intros)
  then show ?thesis by (rule reach_run) (rule reach_start, rule refl)
qed

theorem no_stuck_key_witness:
  "\<exists>sent t. kb_events pressed_keyboard = Some sent \<and> held ''environment-env-1'' ''t'' 0 sent
     \<and> cap_pressed (kb_capture pressed_keyboard) ! 0 = Some t \<and> tg_window t = ''environment-env-1'' \<and> tg_token t = ''t''"
proof -
  have "held ''environment-env-1'' ''t'' 0 [(''environment-env-1'', \<lparr>key_token = ''t'', key_code = ''MetaLeft'',
     key_keysym = 0xffeb, key_down = True\<rparr>)]" by (simp add: held_def about_key_def)
  with no_stuck_key [OF reach_pressed pressed_keyboard(2)] show ?thesis using pressed_keyboard(2)
    by (metis zero_less_numeral)
qed

text \<open>Everything that may happen while a key is physically down: no release of that key.\<close>

inductive quiet_step :: "nat \<Rightarrow> keyboard \<Rightarrow> keyboard \<Rightarrow> bool" for index :: nat where
  quiet_hook: "kb_started kb = Some (Ok ()) \<Longrightarrow> hook locked desk code message vk kb = (swallowed, kb')
    \<Longrightarrow> \<not> (message \<in> {WM_KEYUP, WM_SYSKEYUP} \<and> key_index vk = Some index) \<Longrightarrow> quiet_step index kb kb'"
| quiet_set: "set_guest_keyboard_capture installed hwnd fg window token bounds kb = (r, kb') \<Longrightarrow> quiet_step index kb kb'"
| quiet_release: "quiet_step index kb (release label kb)"

lemma quiet_is_step: "quiet_step index kb kb' \<Longrightarrow> keyboard_step kb kb'"
  by (induction rule: quiet_step.induct) (auto intro: keyboard_step.intros)

lemma quiet_keeps_owner:
  assumes "quiet_step i kb kb'" and "keyboard_ok kb" and "i < 2" and "cap_pressed (kb_capture kb) ! i = Some t"
  shows "cap_pressed (kb_capture kb') ! i = Some t"
  using assms(1)
proof cases
  case (quiet_hook locked desk code message vk swallowed)
  have m: "message \<in> {WM_KEYDOWN, WM_SYSKEYDOWN}"
    if "key_index vk = Some i" "message \<in> {WM_KEYDOWN, WM_SYSKEYDOWN, WM_KEYUP, WM_SYSKEYUP}"
    using that quiet_hook(3) by blast
  show ?thesis
  proof (cases "key_index vk = Some i")
    case True
    with m have "kb' = kb" using quiet_hook(2) assms(4)
      by (auto simp: hook_def hook_key_def Let_def split: if_splits option.splits)
    with assms(4) show ?thesis by simp
  next
    case False
    then show ?thesis using quiet_hook(2) assms(4)
      by (auto simp: hook_def hook_key_def Let_def split: if_splits option.splits)
  qed
next
  case quiet_set
  then show ?thesis using assms(4)
    by (auto simp: set_guest_keyboard_capture_def set_capture_def start_def split: if_splits option.splits result.splits)
next
  case quiet_release
  then show ?thesis using assms(2,4) by (simp add: release_ok)
qed

text \<open>
  A captured press is always followed by its release to the same place: once the hook has
  captured a key for a window, whatever happens before the key goes up (repeats, other keys,
  another window arming, disarming, the window closing), the release is hidden from the host
  and sent to the same window with the same token.
\<close>

theorem captured_key_released:
  assumes "reach (\<lambda>kb. kb = initial_keyboard) keyboard_step kb"
    and "key_index vk = Some i" and "cap_pressed (kb_capture kb) ! i = Some t"
    and "(quiet_step i)\<^sup>*\<^sup>* kb kb'" and "code \<ge> 0" and "message \<in> {WM_KEYUP, WM_SYSKEYUP}"
  shows "\<exists>sent kb'' e. kb_events kb' = Some sent \<and> hook False desk code message vk kb' = (True, kb'')
    \<and> kb_events kb'' = Some (sent @ [e]) \<and> fst e = tg_window t \<and> key_token (snd e) = tg_token t \<and> \<not> key_down (snd e)"
proof -
  have i: "i < 2" using assms(2) by (auto simp: key_index_def split: if_splits)
  from assms(4) have s: "keyboard_ok kb' \<and> cap_pressed (kb_capture kb') ! i = Some t"
  proof (induction rule: rtranclp_induct)
    case base
    show ?case using keys.inv_reach [OF assms(1)] assms(3) by simp
  next
    case (step y z)
    then show ?case using quiet_keeps_owner i keys.inv_move quiet_is_step by blast
  qed
  then have "Some t \<in> set (cap_pressed (kb_capture kb'))" using i nth_mem [of i "cap_pressed (kb_capture kb')"]
    by (simp add: keyboard_ok_def Let_def)
  with s obtain sent where sent: "kb_events kb' = Some sent" by (auto simp: keyboard_ok_def Let_def)
  have m: "message \<notin> {WM_KEYDOWN, WM_SYSKEYDOWN}"
    using assms(6) by (auto simp: WM_KEYDOWN_def WM_KEYUP_def WM_SYSKEYDOWN_def WM_SYSKEYUP_def)
  show ?thesis using s sent m assms(2,5,6) by (auto simp: hook_def hook_key_def Let_def emit_def)
qed

theorem captured_key_released_witness:
  "\<exists>sent kb'' e. kb_events (release ''environment-env-1'' pressed_keyboard) = Some sent
    \<and> hook False example_desktop 0 WM_KEYUP 0x5b (release ''environment-env-1'' pressed_keyboard) = (True, kb'')
    \<and> kb_events kb'' = Some (sent @ [e]) \<and> fst e = ''environment-env-1'' \<and> \<not> key_down (snd e)"
proof -
  have k: "key_index 0x5b = Some 0" by (simp add: key_index_def)
  have q: "(quiet_step 0)\<^sup>*\<^sup>* pressed_keyboard (release ''environment-env-1'' pressed_keyboard)"
    by (rule r_into_rtranclp) (rule quiet_release)
  from captured_key_released [OF reach_pressed k pressed_keyboard(3) q, of 0 WM_KEYUP example_desktop]
  show ?thesis by fastforce
qed

end
