(* ===== verification/Connections.thy ===== *)
theory Connections
  imports Models Rust_Text
begin

text \<open>
  Connections between environments, as the desktop commands manage them
  (\<open>src-tauri/src/commands.rs\<close>): creation with its checks, switching on and off, deletion, and
  the reconciliation that applies the stored connections to the runtime. The store is a
  transaction on the platform state (\<open>State_Store\<close>): an update that is refused or cannot be
  saved leaves the state as it was. What the runtime answers is an argument; the calls made to
  it are kept in order.
\<close>

section \<open>The engine\<close>

datatype operation =
    CloudConnect | CloudDisconnect
  | ContainerAction string
  | VmAction string | StartVm | StartMicroVm
  | StartSandbox | StopSandbox

datatype call =
    ApplyConnection string string string ConnectionDirection "PermissionKind list" "nat list"
  | RemoveConnection string string string bool
  | Operate operation string
  | PrepareContainer string
  | RollbackAllocations
  | DeleteSnapshot string string
  | DeleteArtifact string
  | DeleteRuntime string

record engine =
  eng_state :: PlatformState
  eng_calls :: "call list"

record runtime =
  rt_apply :: "string \<Rightarrow> (string, string) result"
  rt_remove :: "string \<Rightarrow> (unit, string) result"
  rt_saved :: "PlatformState \<Rightarrow> (unit, string) result"
  rt_now :: string
  rt_operate :: "operation \<Rightarrow> ((string option \<times> string option) option, string) result"
  rt_prepare :: "(unit, string) result"
  rt_rollback_allocations :: "(unit, string) result"
  rt_delete_snapshot :: "string \<Rightarrow> (unit, string) result"
  rt_delete_artifact :: "string \<Rightarrow> (unit, string) result"
  rt_delete_runtime :: "(unit, string) result"

definition mutate :: "runtime \<Rightarrow> (PlatformState \<Rightarrow> (PlatformState, string) result) \<Rightarrow> engine
    \<Rightarrow> (PlatformState, string) result \<times> engine" where
  "mutate rt operation eng =
     (case operation (eng_state eng) of
        Err e \<Rightarrow> (Err e, eng)
      | Ok candidate \<Rightarrow>
          (case rt_saved rt candidate of
             Err e \<Rightarrow> (Err e, eng)
           | Ok _ \<Rightarrow> (Ok candidate, eng\<lparr>eng_state := candidate\<rparr>)))"

definition called :: "call \<Rightarrow> engine \<Rightarrow> engine" where
  "called c eng = eng\<lparr>eng_calls := eng_calls eng @ [c]\<rparr>"

lemma called_simps [simp]: "eng_state (called c eng) = eng_state eng" "eng_calls (called c eng) = eng_calls eng @ [c]"
  by (simp_all add: called_def)

section \<open>Environments and their providers\<close>

definition find_env :: "PlatformState \<Rightarrow> string \<Rightarrow> Environment option" where
  "find_env st i = List.find (\<lambda>e. env_id e = i) (environments st)"

definition provider :: "Environment \<Rightarrow> RuntimeProviderKind" where
  "provider e =
     (if env_kind e = Cloud then CloudSsh
      else if env_kind e = ComputerBranch then NativeSandbox
      else
        (case env_provider e of
           Some p \<Rightarrow> p
         | None \<Rightarrow> (case env_kind e of Container \<Rightarrow> OpenDockOci | ComputerBranch \<Rightarrow> NativeSandbox | _ \<Rightarrow> Qemu)))"

definition runtime_id :: "Environment \<Rightarrow> string" where
  "runtime_id e = (case env_runtime_id e of Some i \<Rightarrow> i | None \<Rightarrow> env_id e)"

definition container_connection :: "PlatformState \<Rightarrow> string \<Rightarrow> string \<Rightarrow> bool" where
  "container_connection st source target =
     (case (List.find (\<lambda>e. env_id e = source \<and> env_kind e = Container) (environments st),
            List.find (\<lambda>e. env_id e = target \<and> env_kind e = Container) (environments st)) of
        (Some a, Some b) \<Rightarrow> provider a = provider b
      | _ \<Rightarrow> False)"

definition connection_runtime_id :: "PlatformState \<Rightarrow> string \<Rightarrow> string" where
  "connection_runtime_id st i = (case find_env st i of Some e \<Rightarrow> runtime_id e | None \<Rightarrow> i)"

section \<open>Creating a connection\<close>

definition parse_u16 :: "string \<Rightarrow> nat option" where
  "parse_u16 s = (case parse_u64 s of Some n \<Rightarrow> if n < 2 ^ 16 then Some n else None | None \<Rightarrow> None)"

fun check_ports :: "string list \<Rightarrow> (nat list, string) result" where
  "check_ports [] = Ok []"
| "check_ports (p # ps) =
     (case parse_u16 p of
        Some n \<Rightarrow>
          if n > 0 then result_bind (check_ports ps) (\<lambda>ns. Ok (n # ns))
          else Err ''Ports must be valid values between 1 and 65535''
      | None \<Rightarrow> Err ''Ports must be valid values between 1 and 65535'')"

definition volume_char :: "char \<Rightarrow> bool" where
  "volume_char c \<longleftrightarrow> (let n = of_char c :: nat in
     48 \<le> n \<and> n \<le> 57 \<or> 65 \<le> n \<and> n \<le> 90 \<or> 97 \<le> n \<and> n \<le> 122) \<or> c \<in> {CHR ''-'', CHR ''_'', CHR ''.''}"

definition check_volume :: "string option \<Rightarrow> (unit, string) result" where
  "check_volume v =
     (case v of
        None \<Rightarrow> Ok ()
      | Some v \<Rightarrow>
          if 80 < length (trim v) \<or> \<not> list_all volume_char (trim v)
          then Err ''Shared volume names may use up to 80 letters, numbers, dots, dashes, or underscores''
          else Ok ())"

definition check_request :: "CreateConnectionRequest \<Rightarrow> (nat list, string) result" where
  "check_request r =
     (if ccr_source_id r = ccr_target_id r then Err ''An environment cannot connect to itself''
      else if ccr_permissions r = [] then Err ''Select at least one permission''
      else
        result_bind (check_ports (ccr_ports r)) (\<lambda>ports.
        if Ports \<in> set (ccr_permissions r) \<and> ports = [] \<and> Network \<notin> set (ccr_permissions r)
        then Err ''Enter at least one TCP port, or grant full network access''
        else if Ports \<notin> set (ccr_permissions r) \<and> ports \<noteq> []
        then Err ''TCP ports were supplied without the Ports permission''
        else if card (set ports) \<noteq> length ports then Err ''Each allowed TCP port may only be listed once''
        else result_bind (check_volume (ccr_volume r)) (\<lambda>_. Ok ports)))"

definition connectable :: "Environment \<Rightarrow> bool" where
  "connectable e \<longleftrightarrow> env_kind e \<in> {Container, MicroVm, FullVm, Cloud}"

definition check_endpoints :: "PlatformState \<Rightarrow> CreateConnectionRequest \<Rightarrow> (Environment \<times> Environment, string) result" where
  "check_endpoints st r =
     result_bind (ok_or (find_env st (ccr_source_id r)) ''Source environment not found'') (\<lambda>source.
     result_bind (ok_or (find_env st (ccr_target_id r)) ''Target environment not found'') (\<lambda>target.
     if \<not> (connectable source \<and> connectable target) then Err ''Connections require containers, MicroVMs or VMs''
     else if \<not> container_connection st (ccr_source_id r) (ccr_target_id r) \<and> Secrets \<in> set (ccr_permissions r)
     then Err ''Secret-directory sharing requires two containers on the same engine. Use Files or Data for a cross-engine or VM connection folder.''
     else if list_ex (\<lambda>c. conn_source_id c = ccr_source_id r \<and> conn_target_id c = ccr_target_id r) (connections st)
     then Err ''This connection already exists''
     else Ok (source, target)))"

definition new_connection :: "string \<Rightarrow> string \<Rightarrow> CreateConnectionRequest \<Rightarrow> string option \<Rightarrow> Connection" where
  "new_connection i now r rule =
     \<lparr>conn_id = i, conn_source_id = ccr_source_id r, conn_target_id = ccr_target_id r,
      conn_direction = ccr_direction r, conn_permissions = ccr_permissions r, conn_ports = ccr_ports r,
      conn_volume = (case ccr_volume r of Some v \<Rightarrow> if trim v = [] then None else Some v | None \<Rightarrow> None),
      conn_active = True, conn_created_at = now,
      conn_enforcement_status = Some (if rule \<noteq> None then Enforced else Pending),
      conn_provider_rule_ids = (case rule of Some x \<Rightarrow> [x] | None \<Rightarrow> []), conn_last_error = None\<rparr>"

definition has_env :: "PlatformState \<Rightarrow> string \<Rightarrow> bool" where
  "has_env st i \<longleftrightarrow> list_ex (\<lambda>e. env_id e = i) (environments st)"

text \<open>
  \<open>seen\<close> is the state at the start of the command, \<open>eng\<close> the engine when the runtime has
  answered: commands that do not take the connection lock may run in between.
\<close>

definition commit_connection :: "runtime \<Rightarrow> string \<Rightarrow> CreateConnectionRequest \<Rightarrow> PlatformState \<Rightarrow> string option \<Rightarrow> engine
    \<Rightarrow> (PlatformState, string) result \<times> engine" where
  "commit_connection rt i r seen rule eng =
     (let (persisted, eng) =
        mutate rt (\<lambda>st.
          if \<not> (has_env st (ccr_source_id r) \<and> has_env st (ccr_target_id r))
          then Err ''A selected environment was deleted while connecting''
          else Ok (st\<lparr>connections := connections st @ [new_connection i (rt_now rt) r rule]\<rparr>)) eng
      in (persisted,
          if \<not> is_ok persisted \<and> rule \<noteq> None
          then called (RemoveConnection i (connection_runtime_id seen (ccr_source_id r))
                 (connection_runtime_id seen (ccr_target_id r))
                 (container_connection seen (ccr_source_id r) (ccr_target_id r))) eng
          else eng))"

definition create_connection :: "runtime \<Rightarrow> string \<Rightarrow> CreateConnectionRequest \<Rightarrow> PlatformState \<Rightarrow> engine
    \<Rightarrow> (PlatformState, string) result \<times> engine" where
  "create_connection rt i r seen eng =
     (case check_request r of
        Err e \<Rightarrow> (Err e, eng)
      | Ok ports \<Rightarrow>
          (case check_endpoints seen r of
             Err e \<Rightarrow> (Err e, eng)
           | Ok (source, target) \<Rightarrow>
               if env_status source = Running \<and> env_status target = Running then
                 (let eng = called (ApplyConnection i (env_id source) (env_id target) (ccr_direction r)
                              (ccr_permissions r) ports) eng
                  in case rt_apply rt i of
                       Err e \<Rightarrow> (Err e, eng)
                     | Ok rule \<Rightarrow> commit_connection rt i r seen (Some rule) eng)
               else commit_connection rt i r seen None eng))"

section \<open>Reconciliation\<close>

definition set_conn :: "string \<Rightarrow> (Connection \<Rightarrow> Connection) \<Rightarrow> PlatformState \<Rightarrow> PlatformState" where
  "set_conn i f st =
     (let n = length (takeWhile (\<lambda>c. conn_id c \<noteq> i) (connections st)) in
      if n < length (connections st) then st\<lparr>connections := (connections st)[n := f (connections st ! n)]\<rparr> else st)"

definition enforced :: "(string, string) result \<Rightarrow> Connection \<Rightarrow> Connection" where
  "enforced outcome c =
     (case outcome of
        Ok rule \<Rightarrow> c\<lparr>conn_enforcement_status := Some Enforced, conn_provider_rule_ids := [rule], conn_last_error := None\<rparr>
      | Err e \<Rightarrow> c\<lparr>conn_enforcement_status := Some EnforcementError, conn_provider_rule_ids := [], conn_last_error := Some e\<rparr>)"

definition reconcile_one :: "runtime \<Rightarrow> PlatformState \<Rightarrow> Connection \<Rightarrow> engine \<Rightarrow> (unit, string) result \<times> engine" where
  "reconcile_one rt seen c eng =
     (if \<not> conn_active c then (Ok (), eng)
      else
        (case (find_env seen (conn_source_id c), find_env seen (conn_target_id c)) of
           (Some source, Some target) \<Rightarrow>
             if env_status source \<noteq> Running \<or> env_status target \<noteq> Running then (Ok (), eng)
             else
               (let eng = called (ApplyConnection (conn_id c) (env_id source) (env_id target) (conn_direction c)
                            (conn_permissions c) (List.map_filter parse_u16 (conn_ports c))) eng;
                    outcome = rt_apply rt (conn_id c)
                in case mutate rt (\<lambda>st. Ok (set_conn (conn_id c) (enforced outcome) st)) eng of
                     (Err e, eng) \<Rightarrow> (Err e, eng)
                   | (Ok _, eng) \<Rightarrow> (case outcome of Err e \<Rightarrow> (Err e, eng) | Ok _ \<Rightarrow> (Ok (), eng)))
         | _ \<Rightarrow> (Ok (), eng)))"

fun reconcile_each :: "runtime \<Rightarrow> PlatformState \<Rightarrow> Connection list \<Rightarrow> engine \<Rightarrow> (unit, string) result \<times> engine" where
  "reconcile_each rt seen [] eng = (Ok (), eng)"
| "reconcile_each rt seen (c # cs) eng =
     (case reconcile_one rt seen c eng of
        (Err e, eng) \<Rightarrow> (Err e, eng)
      | (Ok _, eng) \<Rightarrow> reconcile_each rt seen cs eng)"

definition reconcile_connections :: "runtime \<Rightarrow> engine \<Rightarrow> (unit, string) result \<times> engine" where
  "reconcile_connections rt eng = reconcile_each rt (eng_state eng) (connections (eng_state eng)) eng"

section \<open>Switching and deleting\<close>

definition find_conn :: "PlatformState \<Rightarrow> string \<Rightarrow> Connection option" where
  "find_conn st i = List.find (\<lambda>c. conn_id c = i) (connections st)"

definition remove_call :: "PlatformState \<Rightarrow> Connection \<Rightarrow> call" where
  "remove_call st c = RemoveConnection (conn_id c) (connection_runtime_id st (conn_source_id c))
     (connection_runtime_id st (conn_target_id c)) (container_connection st (conn_source_id c) (conn_target_id c))"

text \<open>After a rule was removed but the change could not be saved, the rules are restored.\<close>

definition restore_rules :: "runtime \<Rightarrow> string \<Rightarrow> engine \<Rightarrow> (PlatformState, string) result \<times> engine" where
  "restore_rules rt e eng =
     (case reconcile_connections rt eng of
        (Ok _, eng) \<Rightarrow> (Err e, eng)
      | (Err e', eng) \<Rightarrow> (Err (e @ ''; restoring the removed connection rule failed: '' @ e'), eng))"

definition set_connection_active :: "runtime \<Rightarrow> string \<Rightarrow> bool \<Rightarrow> engine \<Rightarrow> (PlatformState, string) result \<times> engine" where
  "set_connection_active rt i active eng =
     (case find_conn (eng_state eng) i of
        None \<Rightarrow> (Err ''Connection not found'', eng)
      | Some c \<Rightarrow>
          (let (removed, eng) =
             (if active then (Ok (), eng) else (rt_remove rt i, called (remove_call (eng_state eng) c) eng))
           in case removed of
                Err e \<Rightarrow> (Err e, eng)
              | Ok _ \<Rightarrow>
                  (case mutate rt (\<lambda>st.
                          if find_conn st i = None then Err ''Connection not found''
                          else Ok (set_conn i (\<lambda>c. c\<lparr>conn_active := active, conn_enforcement_status := Some Pending,
                                 conn_provider_rule_ids := [], conn_last_error := None\<rparr>) st)) eng of
                     (Err e, eng) \<Rightarrow> if active then (Err e, eng) else restore_rules rt e eng
                   | (Ok _, eng) \<Rightarrow>
                       if active then
                         (case reconcile_connections rt eng of
                            (Err e, eng) \<Rightarrow> (Err e, eng)
                          | (Ok _, eng) \<Rightarrow> (Ok (eng_state eng), eng))
                       else (Ok (eng_state eng), eng))))"

definition delete_connection :: "runtime \<Rightarrow> string \<Rightarrow> engine \<Rightarrow> (PlatformState, string) result \<times> engine" where
  "delete_connection rt i eng =
     (case find_conn (eng_state eng) i of
        None \<Rightarrow> (Err ''Connection not found'', eng)
      | Some c \<Rightarrow>
          (let eng = called (remove_call (eng_state eng) c) eng in
           case rt_remove rt i of
             Err e \<Rightarrow> (Err e, eng)
           | Ok _ \<Rightarrow>
               (case mutate rt (\<lambda>st. Ok (st\<lparr>connections := filter (\<lambda>c. conn_id c \<noteq> i) (connections st)\<rparr>)) eng of
                  (Err e, eng) \<Rightarrow> restore_rules rt e eng
                | (Ok st, eng) \<Rightarrow> (Ok st, eng))))"


section \<open>Well-formed connections\<close>

definition ends :: "Connection \<Rightarrow> string \<times> string" where
  "ends c = (conn_source_id c, conn_target_id c)"

definition valid_ports :: "PermissionKind list \<Rightarrow> string list \<Rightarrow> bool" where
  "valid_ports perms ports \<longleftrightarrow> (\<exists>ns. map parse_u16 ports = map Some ns \<and> distinct ns \<and> 0 \<notin> set ns)
     \<and> (ports \<noteq> [] \<longrightarrow> Ports \<in> set perms) \<and> (Ports \<in> set perms \<and> ports = [] \<longrightarrow> Network \<in> set perms)"

definition valid_connection :: "Connection \<Rightarrow> bool" where
  "valid_connection c \<longleftrightarrow> conn_source_id c \<noteq> conn_target_id c \<and> conn_permissions c \<noteq> []
     \<and> valid_ports (conn_permissions c) (conn_ports c)"

definition connections_ok :: "PlatformState \<Rightarrow> bool" where
  "connections_ok st \<longleftrightarrow> distinct (map ends (connections st))
     \<and> (\<forall>c \<in> set (connections st). valid_connection c \<and> has_env st (conn_source_id c) \<and> has_env st (conn_target_id c))"

lemma check_ports_Ok: "check_ports ps = Ok ns \<Longrightarrow> map parse_u16 ps = map Some ns \<and> 0 \<notin> set ns"
  by (induction ps arbitrary: ns) (auto split: option.splits if_splits)

lemma check_request_Ok:
  assumes "check_request r = Ok ports"
  shows "ccr_source_id r \<noteq> ccr_target_id r" "ccr_permissions r \<noteq> []" "valid_ports (ccr_permissions r) (ccr_ports r)"
    "map parse_u16 (ccr_ports r) = map Some ports"
proof -
  from assms have p: "check_ports (ccr_ports r) = Ok ports" "card (set ports) = length ports"
    and g: "Ports \<in> set (ccr_permissions r) \<and> ports = [] \<longrightarrow> Network \<in> set (ccr_permissions r)"
      "ports \<noteq> [] \<longrightarrow> Ports \<in> set (ccr_permissions r)"
    by (auto simp: check_request_def split: if_splits)
  have m: "map parse_u16 (ccr_ports r) = map Some ports" "0 \<notin> set ports" using check_ports_Ok [OF p(1)] by auto
  moreover have "distinct ports" using p(2) by (rule card_distinct)
  moreover have "ccr_ports r = [] \<longleftrightarrow> ports = []" using m(1) by (metis map_is_Nil_conv)
  ultimately show "valid_ports (ccr_permissions r) (ccr_ports r)" using g by (auto simp: valid_ports_def)
  show "map parse_u16 (ccr_ports r) = map Some ports" by (rule m(1))
  show "ccr_source_id r \<noteq> ccr_target_id r" "ccr_permissions r \<noteq> []"
    using assms by (auto simp: check_request_def split: if_splits)
qed

lemma check_endpoints_Ok:
  assumes "check_endpoints st r = Ok (source, target)"
  shows "(ccr_source_id r, ccr_target_id r) \<notin> set (map ends (connections st))"
    "find_env st (ccr_source_id r) = Some source" "find_env st (ccr_target_id r) = Some target"
    "Secrets \<in> set (ccr_permissions r) \<longrightarrow> container_connection st (ccr_source_id r) (ccr_target_id r)"
  using assms by (auto simp: check_endpoints_def list_ex_iff ends_def split: if_splits)

lemma mutate_Err [simp]: "mutate rt op eng = (Err e, eng') \<Longrightarrow> eng' = eng"
  by (auto simp: mutate_def split: result.splits)

lemma mutate_state:
  assumes "mutate rt op eng = (r, eng')"
  shows "eng' = eng \<or> (\<exists>st. op (eng_state eng) = Ok st \<and> r = Ok st \<and> eng' = eng\<lparr>eng_state := st\<rparr>)"
proof (cases "op (eng_state eng)")
  case (Ok st)
  show ?thesis
  proof (cases "rt_saved rt st")
    case saved: (Ok x)
    then have "r = Ok st" "eng' = eng\<lparr>eng_state := st\<rparr>" using assms Ok by (simp_all add: mutate_def)
    with Ok show ?thesis by blast
  qed (use assms Ok in \<open>simp add: mutate_def\<close>)
qed (use assms in \<open>simp add: mutate_def\<close>)

lemma new_connection_simps [simp]:
  "ends (new_connection i now r rule) = (ccr_source_id r, ccr_target_id r)"
  "conn_source_id (new_connection i now r rule) = ccr_source_id r"
  "conn_target_id (new_connection i now r rule) = ccr_target_id r"
  by (simp_all add: new_connection_def ends_def)

lemma valid_new_connection:
  "check_request r = Ok ports \<Longrightarrow> valid_connection (new_connection i now r rule)"
  using check_request_Ok [of r ports] by (simp add: valid_connection_def new_connection_def)

lemma commit_connection_ok:
  assumes "connections_ok (eng_state eng)" and "check_request r = Ok ports"
    and "(ccr_source_id r, ccr_target_id r) \<notin> set (map ends (connections (eng_state eng)))"
    and "commit_connection rt i r seen rule eng = (res, eng')"
  shows "connections_ok (eng_state eng')"
proof -
  let ?op = "\<lambda>st. if \<not> (has_env st (ccr_source_id r) \<and> has_env st (ccr_target_id r))
          then Err ''A selected environment was deleted while connecting''
          else Ok (st\<lparr>connections := connections st @ [new_connection i (rt_now rt) r rule]\<rparr>)"
  obtain p e where m: "mutate rt ?op eng = (p, e)" by fastforce
  have "eng_state eng' = eng_state e" using assms(4) m by (auto simp: commit_connection_def split: if_splits)
  moreover have "connections_ok (eng_state e)"
    using mutate_state [OF m] assms(1-3) valid_new_connection [OF assms(2), of i "rt_now rt" rule]
    by (auto simp: connections_ok_def has_env_def split: if_splits)
  ultimately show ?thesis by simp
qed

lemma create_connection_ok:
  assumes "connections_ok (eng_state eng)"
    and "set (map ends (connections (eng_state eng))) \<subseteq> set (map ends (connections seen))"
    and "create_connection rt i r seen eng = (res, eng')"
  shows "connections_ok (eng_state eng')"
proof (cases "check_request r")
  case (Err e)
  then show ?thesis using assms by (simp add: create_connection_def)
next
  case (Ok ports)
  show ?thesis
  proof (cases "check_endpoints seen r")
    case (Err e)
    then show ?thesis using assms Ok by (simp add: create_connection_def)
  next
    case e: (Ok p)
    obtain source target where p: "p = (source, target)" by (cases p)
    have n: "(ccr_source_id r, ccr_target_id r) \<notin> set (map ends (connections (eng_state eng)))"
      using check_endpoints_Ok(1) [OF e [unfolded p]] assms(2) by blast
    have "eng_state eng' = eng_state eng
      \<or> (\<exists>rule eng1. eng_state eng1 = eng_state eng \<and> commit_connection rt i r seen rule eng1 = (res, eng'))"
      using assms(3) Ok e p by (auto simp: create_connection_def Let_def split: if_splits result.splits)
    then show ?thesis using assms(1) n commit_connection_ok [OF _ Ok] by metis
  qed
qed

lemma set_conn_ends:
  assumes "\<And>c. ends (f c) = ends c" and "\<And>c. valid_connection (f c) = valid_connection c"
  shows "connections_ok st \<Longrightarrow> connections_ok (set_conn i f st)"
    and "map ends (connections (set_conn i f st)) = map ends (connections st)"
    and "environments (set_conn i f st) = environments st"
proof -
  show env: "environments (set_conn i f st) = environments st" by (simp add: set_conn_def Let_def)
  have e: "conn_source_id (f c) = conn_source_id c" "conn_target_id (f c) = conn_target_id c" for c
    using assms(1) [of c] by (simp_all add: ends_def)
  show m: "map ends (connections (set_conn i f st)) = map ends (connections st)"
    by (simp add: set_conn_def Let_def map_update assms(1) list_update_same_conv)
  have "connections (set_conn i f st) = connections st
    \<or> (\<exists>n < length (connections st). connections (set_conn i f st) = (connections st)[n := f (connections st ! n)])"
    by (auto simp: set_conn_def Let_def)
  then have s: "\<exists>c0 \<in> set (connections st). c = c0 \<or> c = f c0" if c: "c \<in> set (connections (set_conn i f st))" for c
  proof
    assume "\<exists>n < length (connections st). connections (set_conn i f st) = (connections st)[n := f (connections st ! n)]"
    then obtain n where n: "n < length (connections st)" "c \<in> set ((connections st)[n := f (connections st ! n)])" using c by auto
    then have "c = f (connections st ! n) \<or> c \<in> set (connections st)" using set_update_subset_insert by fastforce
    then show ?thesis using nth_mem [OF n(1)] by blast
  qed (use c in auto)
  show "connections_ok st \<Longrightarrow> connections_ok (set_conn i f st)"
  proof -
    assume ok: "connections_ok st"
    have "valid_connection c \<and> has_env (set_conn i f st) (conn_source_id c) \<and> has_env (set_conn i f st) (conn_target_id c)"
      if c: "c \<in> set (connections (set_conn i f st))" for c
    proof -
      obtain c0 where "c0 \<in> set (connections st)" "c = c0 \<or> c = f c0" using s [OF c] by blast
      with ok show ?thesis by (auto simp: connections_ok_def has_env_def env assms(2) e)
    qed
    then show ?thesis using ok m by (simp add: connections_ok_def)
  qed
qed


lemma enforced_ends [simp]: "ends (enforced outcome c) = ends c" "valid_connection (enforced outcome c) = valid_connection c"
  by (simp_all add: enforced_def ends_def valid_connection_def split: result.splits)

text \<open>Updates that keep the ends of every connection and the environments.\<close>

definition same_ends :: "PlatformState \<Rightarrow> PlatformState \<Rightarrow> bool" where
  "same_ends st st' \<longleftrightarrow> map ends (connections st') = map ends (connections st) \<and> environments st' = environments st
     \<and> (connections_ok st \<longrightarrow> connections_ok st')"

lemma same_ends_refl [simp]: "same_ends st st"
  by (simp add: same_ends_def)

lemma same_ends_trans: "same_ends a b \<Longrightarrow> same_ends b c \<Longrightarrow> same_ends a c"
  by (auto simp: same_ends_def)

lemma same_ends_set_conn:
  "(\<And>c. ends (f c) = ends c) \<Longrightarrow> (\<And>c. valid_connection (f c) = valid_connection c) \<Longrightarrow> same_ends st (set_conn i f st)"
  unfolding same_ends_def by (intro conjI impI set_conn_ends)

lemma mutate_same_ends:
  assumes "mutate rt op eng = (r, eng')" and "\<And>st st'. op st = Ok st' \<Longrightarrow> same_ends st st'"
  shows "same_ends (eng_state eng) (eng_state eng')"
  using mutate_state [OF assms(1)] assms(2) [of "eng_state eng"] by auto

lemma reconcile_one_same_ends:
  assumes "reconcile_one rt seen c eng = (r, eng')"
  shows "same_ends (eng_state eng) (eng_state eng')"
proof -
  let ?op = "\<lambda>st. Ok (set_conn (conn_id c) (enforced (rt_apply rt (conn_id c))) st) :: (PlatformState, string) result"
  have op: "same_ends (eng_state e) (eng_state eng')" if "mutate rt ?op e = (p, eng')" for e p
    using that by (rule mutate_same_ends) (auto intro: same_ends_set_conn)
  show ?thesis
  proof (cases "conn_active c \<and> eng' \<noteq> eng")
    case True
    then obtain call p where "mutate rt ?op (called call eng) = (p, eng')"
      using assms by (simp add: reconcile_one_def Let_def split: if_splits option.splits prod.splits result.splits)
    from op [OF this] show ?thesis by simp
  qed (use assms in \<open>auto simp: reconcile_one_def\<close>)
qed

lemma reconcile_same_ends: "reconcile_each rt seen cs eng = (r, eng') \<Longrightarrow> same_ends (eng_state eng) (eng_state eng')"
proof (induction cs arbitrary: eng)
  case (Cons c cs)
  obtain p eng1 where o: "reconcile_one rt seen c eng = (p, eng1)" by fastforce
  note s = reconcile_one_same_ends [OF o]
  show ?case
  proof (cases p)
    case (Ok x)
    with Cons o have "same_ends (eng_state eng1) (eng_state eng')" by simp
    with s show ?thesis by (rule same_ends_trans)
  qed (use Cons.prems o s in simp)
qed simp


lemma reconcile_connections_same_ends:
  "reconcile_connections rt eng = (r, eng') \<Longrightarrow> same_ends (eng_state eng) (eng_state eng')"
  unfolding reconcile_connections_def by (rule reconcile_same_ends)

lemma restore_rules_same_ends: "restore_rules rt e eng = (r, eng') \<Longrightarrow> same_ends (eng_state eng) (eng_state eng')"
  using reconcile_connections_same_ends
  by (fastforce simp: restore_rules_def split: prod.splits result.splits)

lemma set_connection_active_same_ends:
  assumes "set_connection_active rt i active eng = (r, eng')"
  shows "same_ends (eng_state eng) (eng_state eng')"
proof (cases "find_conn (eng_state eng) i")
  case None
  then show ?thesis using assms by (simp add: set_connection_active_def)
next
  case (Some c)
  let ?op = "\<lambda>st. if find_conn st i = None then Err ''Connection not found''
      else Ok (set_conn i (\<lambda>c. c\<lparr>conn_active := active, conn_enforcement_status := Some Pending,
             conn_provider_rule_ids := [], conn_last_error := None\<rparr>) st)"
  let ?pre = "if active then (Ok (), eng) else (rt_remove rt i, called (remove_call (eng_state eng) c) eng)"
  obtain r1 eng1 where pre: "?pre = (r1, eng1)" by fastforce
  have e1: "eng_state eng1 = eng_state eng" using pre by (auto split: if_splits)
  obtain p eng2 where m: "mutate rt ?op eng1 = (p, eng2)" by fastforce
  have "same_ends st st'" if "?op st = Ok st'" for st st'
    using that by (auto split: if_splits intro!: same_ends_set_conn simp: ends_def valid_connection_def)
  from mutate_same_ends [OF m this] have s2: "same_ends (eng_state eng) (eng_state eng2)" by (simp add: e1)
  have "eng' = eng1 \<or> eng' = eng2 \<or> (\<exists>x. reconcile_connections rt eng2 = (x, eng')) \<or> (\<exists>e x. restore_rules rt e eng2 = (x, eng'))"
    using assms Some pre m unfolding set_connection_active_def
    by (cases r1; cases p; cases active) (auto split: prod.splits result.splits)
  then show ?thesis
    using s2 e1 same_ends_trans [OF s2] reconcile_connections_same_ends restore_rules_same_ends by (metis same_ends_refl)
qed

lemma filter_connections_ok: "connections_ok st \<Longrightarrow> connections_ok (st\<lparr>connections := filter P (connections st)\<rparr>)"
  by (auto simp: connections_ok_def has_env_def distinct_map_filter)

lemma delete_connection_ok:
  assumes "connections_ok (eng_state eng)" and "delete_connection rt i eng = (r, eng')"
  shows "connections_ok (eng_state eng')"
proof (cases "find_conn (eng_state eng) i")
  case None
  then show ?thesis using assms by (simp add: delete_connection_def)
next
  case (Some c)
  let ?op = "\<lambda>st. Ok (st\<lparr>connections := filter (\<lambda>c. conn_id c \<noteq> i) (connections st)\<rparr>) :: (PlatformState, string) result"
  define eng1 where "eng1 = called (remove_call (eng_state eng) c) eng"
  have e1: "eng_state eng1 = eng_state eng" by (simp add: eng1_def)
  obtain p eng2 where m: "mutate rt ?op eng1 = (p, eng2)" by fastforce
  have s2: "connections_ok (eng_state eng2)"
    using mutate_state [OF m] e1 assms(1) by (auto simp: filter_connections_ok)
  have "eng' = eng1 \<or> eng' = eng2 \<or> (\<exists>e x. restore_rules rt e eng2 = (x, eng'))"
    using assms(2) Some m unfolding delete_connection_def eng1_def Let_def
    by (cases "rt_remove rt i"; cases p) auto
  then show ?thesis using s2 e1 assms(1) restore_rules_same_ends by (metis same_ends_def)
qed

section \<open>Creation is all or nothing\<close>

lemma mutate_Ok:
  assumes "mutate rt op eng = (Ok st, eng')"
  shows "op (eng_state eng) = Ok st" and "eng' = eng\<lparr>eng_state := st\<rparr>"
proof -
  from assms obtain c where c: "op (eng_state eng) = Ok c" by (cases "op (eng_state eng)") (simp_all add: mutate_def)
  with assms have "c = st \<and> eng' = eng\<lparr>eng_state := st\<rparr>"
    by (cases "rt_saved rt c") (auto simp: mutate_def)
  with c show "op (eng_state eng) = Ok st" and "eng' = eng\<lparr>eng_state := st\<rparr>" by simp_all
qed

lemma commit_connection_effect:
  assumes "commit_connection rt i r seen rule eng = (res, eng')"
  shows "if is_ok res
    then connections (eng_state eng') = connections (eng_state eng) @ [new_connection i (rt_now rt) r rule]
      \<and> has_env (eng_state eng) (ccr_source_id r) \<and> has_env (eng_state eng) (ccr_target_id r)
      \<and> eng_calls eng' = eng_calls eng
    else eng_state eng' = eng_state eng
      \<and> eng_calls eng' = eng_calls eng @ (if rule = None then []
          else [RemoveConnection i (connection_runtime_id seen (ccr_source_id r))
                 (connection_runtime_id seen (ccr_target_id r))
                 (container_connection seen (ccr_source_id r) (ccr_target_id r))])"
proof -
  let ?op = "\<lambda>st. if \<not> (has_env st (ccr_source_id r) \<and> has_env st (ccr_target_id r))
          then Err ''A selected environment was deleted while connecting''
          else Ok (st\<lparr>connections := connections st @ [new_connection i (rt_now rt) r rule]\<rparr>)"
  obtain p e where m: "mutate rt ?op eng = (p, e)" by fastforce
  have res: "res = p" "eng' = (if \<not> is_ok p \<and> rule \<noteq> None
          then called (RemoveConnection i (connection_runtime_id seen (ccr_source_id r))
                 (connection_runtime_id seen (ccr_target_id r))
                 (container_connection seen (ccr_source_id r) (ccr_target_id r))) e
          else e)"
    using assms m by (auto simp: commit_connection_def)
  show ?thesis
  proof (cases p)
    case (Err x)
    then have "e = eng" using m by simp
    with Err res show ?thesis by simp
  next
    case (Ok st)
    then have "?op (eng_state eng) = Ok st" and e: "e = eng\<lparr>eng_state := st\<rparr>" using mutate_Ok m by blast+
    then have "has_env (eng_state eng) (ccr_source_id r) \<and> has_env (eng_state eng) (ccr_target_id r)"
      "st = (eng_state eng)\<lparr>connections := connections (eng_state eng) @ [new_connection i (rt_now rt) r rule]\<rparr>"
      by (simp_all split: if_splits)
    with Ok res e show ?thesis by simp
  qed
qed

lemma create_connection_effect:
  assumes "create_connection rt i r seen eng = (res, eng')"
  shows "if is_ok res
    then \<exists>rule. connections (eng_state eng') = connections (eng_state eng) @ [new_connection i (rt_now rt) r rule]
      \<and> has_env (eng_state eng) (ccr_source_id r) \<and> has_env (eng_state eng) (ccr_target_id r)
      \<and> (\<exists>source target. find_env seen (ccr_source_id r) = Some source \<and> find_env seen (ccr_target_id r) = Some target
           \<and> (rule \<noteq> None \<longleftrightarrow> env_status source = Running \<and> env_status target = Running)
           \<and> (\<forall>x. rule = Some x \<longrightarrow> rt_apply rt i = Ok x))
    else eng_state eng' = eng_state eng
      \<and> (eng_calls eng' \<noteq> eng_calls eng \<and> is_ok (rt_apply rt i) \<longrightarrow>
           (\<exists>a b d. last (eng_calls eng') = RemoveConnection i a b d))"
proof (cases "check_request r")
  case (Err e)
  then show ?thesis using assms by (auto simp: create_connection_def)
next
  case (Ok ports)
  show ?thesis
  proof (cases "check_endpoints seen r")
    case (Err e)
    then show ?thesis using assms Ok by (auto simp: create_connection_def)
  next
    case e: (Ok p)
    obtain source target where p: "p = (source, target)" by (cases p)
    note f = check_endpoints_Ok(2,3) [OF e [unfolded p]]
    let ?c = "called (ApplyConnection i (env_id source) (env_id target) (ccr_direction r) (ccr_permissions r) ports) eng"
    show ?thesis
    proof (cases "env_status source = Running \<and> env_status target = Running")
      case True
      show ?thesis
      proof (cases "rt_apply rt i")
        case (Err x)
        then show ?thesis using assms Ok e p True by (auto simp: create_connection_def)
      next
        case a: (Ok rule)
        then have "commit_connection rt i r seen (Some rule) ?c = (res, eng')"
          using assms Ok e p True by (simp add: create_connection_def)
        from commit_connection_effect [OF this] show ?thesis using f True a by (auto split: if_splits)
      qed
    next
      case False
      then have "commit_connection rt i r seen None eng = (res, eng')"
        using assms Ok e p by (auto simp: create_connection_def)
      from commit_connection_effect [OF this] show ?thesis using f False by (auto split: if_splits)
    qed
  qed
qed

lemma create_connection_grows:
  "create_connection rt i r seen eng = (Ok st, eng') \<Longrightarrow>
   length (connections (eng_state eng')) = Suc (length (connections (eng_state eng)))"
  using create_connection_effect [of rt i r seen eng "Ok st" eng'] by auto

text \<open>
  C15. Creating a connection is all or nothing: on success the stored connections grow by
  exactly this one, its ends exist, and it counts as enforced only if the runtime applied it
  between running environments; on failure the stored state is unchanged, and a rule that the
  runtime had already applied is taken back.
\<close>

theorem create_connection_atomic:
  assumes "create_connection rt i r seen eng = (res, eng')"
  shows "if is_ok res
    then \<exists>rule. connections (eng_state eng') = connections (eng_state eng) @ [new_connection i (rt_now rt) r rule]
      \<and> has_env (eng_state eng) (ccr_source_id r) \<and> has_env (eng_state eng) (ccr_target_id r)
      \<and> (\<exists>source target. find_env seen (ccr_source_id r) = Some source \<and> find_env seen (ccr_target_id r) = Some target
           \<and> (rule \<noteq> None \<longleftrightarrow> env_status source = Running \<and> env_status target = Running)
           \<and> (\<forall>x. rule = Some x \<longrightarrow> rt_apply rt i = Ok x))
    else eng_state eng' = eng_state eng
      \<and> (eng_calls eng' \<noteq> eng_calls eng \<and> is_ok (rt_apply rt i) \<longrightarrow>
           (\<exists>a b d. last (eng_calls eng') = RemoveConnection i a b d))"
  using assms by (rule create_connection_effect)

definition example_runtime :: runtime where
  "example_runtime = \<lparr>rt_apply = (\<lambda>_. Ok ''rule''), rt_remove = (\<lambda>_. Ok ()), rt_saved = (\<lambda>_. Ok ()), rt_now = ''now'',
     rt_operate = (\<lambda>_. Ok None), rt_prepare = Ok (), rt_rollback_allocations = Ok (),
     rt_delete_snapshot = (\<lambda>_. Ok ()), rt_delete_artifact = (\<lambda>_. Ok ()), rt_delete_runtime = Ok ()\<rparr>"

definition example_connect :: CreateConnectionRequest where
  "example_connect = \<lparr>ccr_source_id = ''a'', ccr_target_id = ''b'', ccr_direction = OneWay,
     ccr_permissions = [Ports], ccr_ports = [''80''], ccr_volume = None\<rparr>"

definition example_engine :: engine where
  "example_engine = \<lparr>eng_state = example_state 9 [example_env ''a'' Container Running, example_env ''b'' Container Running], eng_calls = []\<rparr>"

lemma example_has_env: "has_env (eng_state example_engine) ''a''" "has_env (eng_state example_engine) ''b''"
  by (simp_all add: has_env_def example_engine_def example_state_def example_env_def)

lemma example_create:
  assumes "has_env (eng_state eng) ''a''" and "has_env (eng_state eng) ''b''"
  shows "\<exists>st eng'. create_connection example_runtime ''c'' example_connect (eng_state example_engine) eng = (Ok st, eng')"
proof -
  have p: "check_ports [''80''] = Ok [80]"
    by (simp add: parse_u16_def parse_u64_def is_digit_def digits_value_def digit_value_def)
  then have r: "check_request example_connect = Ok [80]"
    by (simp add: check_request_def check_volume_def example_connect_def)
  have e: "find_env (eng_state example_engine) ''a'' = Some (example_env ''a'' Container Running)"
    "find_env (eng_state example_engine) ''b'' = Some (example_env ''b'' Container Running)"
    by (simp_all add: find_env_def example_engine_def example_state_def example_env_def)
  have c: "connections (eng_state example_engine) = []" by (simp add: example_engine_def example_state_def)
  have k: "connectable (example_env i Container Running)" "env_status (example_env i Container Running) = Running" for i
    by (simp_all add: connectable_def example_env_def)
  have x: "check_endpoints (eng_state example_engine) example_connect
      = Ok (example_env ''a'' Container Running, example_env ''b'' Container Running)"
    using e c k by (simp add: check_endpoints_def example_connect_def)
  show ?thesis unfolding create_connection_def r x using k assms
    by (simp add: example_runtime_def commit_connection_def mutate_def example_connect_def Let_def)
qed

lemma example_created:
  "\<exists>st eng'. create_connection example_runtime ''c'' example_connect (eng_state example_engine) example_engine = (Ok st, eng')
     \<and> length (connections (eng_state eng')) = 1"
proof -
  obtain st eng' where c: "create_connection example_runtime ''c'' example_connect (eng_state example_engine) example_engine = (Ok st, eng')"
    using example_create [OF example_has_env] by blast
  then show ?thesis using create_connection_grows [OF c] by (auto simp: example_engine_def example_state_def)
qed

theorem create_connection_atomic_witness:
  "\<exists>st eng' rule. create_connection example_runtime ''c'' example_connect (eng_state example_engine) example_engine = (Ok st, eng')
     \<and> connections (eng_state eng') = [new_connection ''c'' ''now'' example_connect rule]"
proof -
  obtain st eng' where c: "create_connection example_runtime ''c'' example_connect (eng_state example_engine) example_engine = (Ok st, eng')"
    using example_create [OF example_has_env] by blast
  from create_connection_atomic [OF c] obtain rule where
    "connections (eng_state eng') = connections (eng_state example_engine) @ [new_connection ''c'' ''now'' example_connect rule]"
    by (auto simp: example_runtime_def)
  with c show ?thesis by (auto simp: example_engine_def example_state_def)
qed

end
