(* ===== verification/Lifecycle.thy ===== *)
theory Lifecycle
  imports Connections Scheduler
begin

text \<open>
  The power state of environments and their deletion, as the desktop commands manage them
  (\<open>src-tauri/src/commands.rs\<close>): which runtime operation a requested status needs, the update of
  the stored state, the rollback when it cannot be saved, deletion, renaming, and the update
  with which a snapshot is restored.
\<close>

section \<open>From a requested status to an operation\<close>

text \<open>
  A request may be refused outright, fail (and be recorded as a failure), need nothing, or need
  an operation of the runtime.
\<close>

datatype decision = Refuse string | Fail string | Keep | Perform operation

definition container_decision :: "EnvironmentStatus \<Rightarrow> EnvironmentStatus \<Rightarrow> decision" where
  "container_decision old new =
     (if old = new \<and> new \<in> {Running, Stopped, Paused} then Keep
      else if old = Paused \<and> new = Running then Perform (ContainerAction ''resume'')
      else if new = Running then Perform (ContainerAction ''start'')
      else if new = Stopped then Perform (ContainerAction ''stop'')
      else if old = Running \<and> new = Paused then Perform (ContainerAction ''pause'')
      else Refuse ''invalid container lifecycle transition'')"

definition vm_start :: "Environment \<Rightarrow> decision" where
  "vm_start e =
     (if env_runtime_path e = None then Fail ''virtual machine disk metadata is missing''
      else Perform (if env_kind e = MicroVm then StartMicroVm else StartVm))"

definition vm_decision :: "Environment \<Rightarrow> EnvironmentStatus \<Rightarrow> decision" where
  "vm_decision e new =
     (let old = env_status e in
      if old = new \<and> new \<in> {Running, Paused} then Keep
      else if old = Paused \<and> new = Running then Perform (VmAction ''resume'')
      else if new = Running then vm_start e
      else if new = Stopped then Perform (VmAction ''stop'')
      else if old = Running \<and> new = Paused then Perform (VmAction ''pause'')
      else Fail ''invalid virtual machine lifecycle transition'')"

definition sandbox_start :: "Environment \<Rightarrow> decision" where
  "sandbox_start e =
     (if env_runtime_path e = None then Refuse ''native branch workspace metadata is missing; recreate this branch''
      else if env_sandbox_policy e = None
      then Refuse ''this legacy branch used a VM; create a new Computer Branch and select an application''
      else Perform StartSandbox)"

definition sandbox_decision :: "Environment \<Rightarrow> EnvironmentStatus \<Rightarrow> decision" where
  "sandbox_decision e new =
     (let old = env_status e in
      if old = new \<and> new \<in> {Running, Stopped} then Keep
      else if new = Running then sandbox_start e
      else if new = Stopped then Perform StopSandbox
      else if new = Paused then Fail ''Native application branches cannot be paused; stop the branch instead''
      else Fail ''invalid native application branch lifecycle transition'')"

definition cloud_decision :: "EnvironmentStatus \<Rightarrow> decision" where
  "cloud_decision new =
     (if new = Running then Perform CloudConnect
      else if new = Stopped then Perform CloudDisconnect
      else Fail ''Cloud nodes support Connect and Disconnect only. The server's power is not managed by Yougori.'')"

definition lifecycle_decision :: "Environment \<Rightarrow> EnvironmentStatus \<Rightarrow> decision" where
  "lifecycle_decision e new =
     (case provider e of
        CloudSsh \<Rightarrow> cloud_decision new
      | OpenDockOci \<Rightarrow> container_decision (env_status e) new
      | OpenDockCuda \<Rightarrow> container_decision (env_status e) new
      | Qemu \<Rightarrow> vm_decision e new
      | NativeSandbox \<Rightarrow> sandbox_decision e new)"

text \<open>The checks before anything is done.\<close>

definition check_status_request :: "PlatformState \<Rightarrow> string \<Rightarrow> EnvironmentStatus \<Rightarrow> (Environment, string) result" where
  "check_status_request st i new =
     (if new \<in> {Provisioning, StatusError} then Err ''Provisioning and error states are controlled by the runtime''
      else if new = Running \<and> list_ex (\<lambda>p. env_id (frc_environment p) = i) (pending_factory_resets st)
      then Err ''Finish the pending Factory reset before starting this environment''
      else
        result_bind (ok_or (find_env st i) ''Environment not found'') (\<lambda>e.
        if env_kind e = ComputerBranch \<and> new = Running then Err ''Computer Branch is temporarily unavailable''
        else if env_status e = Provisioning
        then Err ''Wait for this environment to finish creating before changing its power state''
        else Ok e))"

text \<open>The runtime knows a cloud node by the identifier of its environment, everything else by its runtime identifier.\<close>

definition target_id :: "Environment \<Rightarrow> string" where
  "target_id e = (if provider e = CloudSsh then env_id e else runtime_id e)"

section \<open>Updates of the stored state\<close>

definition set_env :: "string \<Rightarrow> (Environment \<Rightarrow> Environment) \<Rightarrow> PlatformState \<Rightarrow> PlatformState" where
  "set_env i f st =
     (let n = length (takeWhile (\<lambda>e. env_id e \<noteq> i) (environments st)) in
      if n < length (environments st) then st\<lparr>environments := (environments st)[n := f (environments st ! n)]\<rparr> else st)"

definition failed_env :: "string \<Rightarrow> Environment \<Rightarrow> Environment" where
  "failed_env e env = env\<lparr>env_status := StatusError, env_last_error := Some e\<rparr>"

definition run_env :: "bool \<Rightarrow> bool \<Rightarrow> string \<Rightarrow> Environment \<Rightarrow> Environment" where
  "run_env macos keep now e =
     (let e = e\<lparr>env_last_opened_at := Some now\<rparr> in
      if keep then e
      else
        (let e = set_cpu (if fixed_guest_resources e macos then f_max (f_round (rr_preferred (env_cpu e))) (Fin 1)
                          else rr_preferred (env_cpu e)) e
         in set_memory (rr_preferred (env_memory e)) e))"

definition stop_env :: "Environment \<Rightarrow> Environment" where
  "stop_env e =
     (let e = set_memory (Fin 0) (set_cpu (Fin 0) (e\<lparr>env_cpu_usage := Fin 0, env_memory_usage_gb := Fin 0,
                env_network_rx_mbps := Fin 0, env_console_endpoint := None\<rparr>))
      in if env_kind e = Cloud then e\<lparr>env_control_endpoint := None\<rparr> else e)"

definition status_env :: "bool \<Rightarrow> bool \<Rightarrow> string \<Rightarrow> EnvironmentStatus \<Rightarrow> (string option \<times> string option) option
    \<Rightarrow> Environment \<Rightarrow> Environment" where
  "status_env macos keep now new console e =
     (let e = e\<lparr>env_status := new, env_last_error := None\<rparr>;
          e = (case console of
                 Some (display, control) \<Rightarrow> e\<lparr>env_console_endpoint := display, env_control_endpoint := control\<rparr>
               | None \<Rightarrow> e)
      in if new = Running then run_env macos keep now e else if new = Stopped then stop_env e else e)"

definition touches :: "string \<Rightarrow> Connection \<Rightarrow> bool" where
  "touches i c \<longleftrightarrow> conn_source_id c = i \<or> conn_target_id c = i"

definition unenforce :: "string \<Rightarrow> Connection \<Rightarrow> Connection" where
  "unenforce i c =
     (if touches i c then c\<lparr>conn_enforcement_status := Some Pending, conn_provider_rule_ids := []\<rparr> else c)"

text \<open>The scheduler returns for every state whose policies are valid; elsewhere it may panic, which leaves the state.\<close>

definition scheduled :: "bool \<Rightarrow> PlatformState \<Rightarrow> (PlatformState, string) result" where
  "scheduled macos st = ok_or (schedule_for_host st macos) ''panic''"

definition status_update :: "bool \<Rightarrow> bool \<Rightarrow> string \<Rightarrow> string \<Rightarrow> EnvironmentStatus \<Rightarrow> (string option \<times> string option) option
    \<Rightarrow> PlatformState \<Rightarrow> (PlatformState, string) result" where
  "status_update macos keep now i new console st =
     (if find_env st i = None then Err ''Environment not found''
      else
        (let st = set_env i (status_env macos keep now new console) st
         in scheduled macos (st\<lparr>connections := map (unenforce i) (connections st)\<rparr>)))"

section \<open>Rollback of a transition that could not be saved\<close>

definition restart_operations :: "Environment \<Rightarrow> (operation list, string) result" where
  "restart_operations e =
     (if env_runtime_path e = None then Err ''virtual machine disk metadata is missing''
      else Ok ([if env_kind e = MicroVm then StartMicroVm else StartVm]
        @ (if env_status e = Paused then [VmAction ''pause''] else [])))"

definition sandbox_restart :: "Environment \<Rightarrow> (operation list, string) result" where
  "sandbox_restart e = (case sandbox_start e of Perform p \<Rightarrow> Ok [p] | Refuse x \<Rightarrow> Err x | _ \<Rightarrow> Ok [])"

definition rollback_operations :: "Environment \<Rightarrow> EnvironmentStatus \<Rightarrow> (operation list, string) result" where
  "rollback_operations e attempted =
     (let old = env_status e in
      if old = attempted then Ok []
      else
        (case provider e of
           CloudSsh \<Rightarrow> Ok [CloudDisconnect]
         | Qemu \<Rightarrow>
             if attempted = Running \<and> old = Paused then Ok [VmAction ''pause'']
             else if attempted = Running then Ok [VmAction ''stop'']
             else if attempted = Paused \<and> old = Running then Ok [VmAction ''resume'']
             else if attempted = Stopped then restart_operations e
             else Ok []
         | NativeSandbox \<Rightarrow>
             if attempted = Running then Ok [StopSandbox]
             else if attempted = Stopped \<and> old = Running then sandbox_restart e
             else Ok []
         | _ \<Rightarrow>
             Ok (if attempted = Running \<and> old = Paused then [ContainerAction ''pause'']
                 else if attempted = Running then [ContainerAction ''stop'']
                 else if attempted = Paused \<and> old = Running then [ContainerAction ''resume'']
                 else if attempted = Stopped \<and> old = Running then [ContainerAction ''start'']
                 else if attempted = Stopped \<and> old = Paused then [ContainerAction ''start'', ContainerAction ''pause'']
                 else [])))"

fun operate_all :: "runtime \<Rightarrow> string \<Rightarrow> operation list \<Rightarrow> engine \<Rightarrow> (unit, string) result \<times> engine" where
  "operate_all rt rid [] eng = (Ok (), eng)"
| "operate_all rt rid (p # ops) eng =
     (case rt_operate rt p of
        Err e \<Rightarrow> (Err e, called (Operate p rid) eng)
      | Ok _ \<Rightarrow> operate_all rt rid ops (called (Operate p rid) eng))"

section \<open>Changing the status\<close>

definition roll_back_allocations :: "runtime \<Rightarrow> bool \<Rightarrow> engine \<Rightarrow> (unit, string) result \<times> engine" where
  "roll_back_allocations rt prepared_start eng =
     (if prepared_start then (rt_rollback_allocations rt, called RollbackAllocations eng) else (Ok (), eng))"

definition note_error :: "string \<Rightarrow> (unit, string) result \<Rightarrow> string list" where
  "note_error label r = (case r of Ok _ \<Rightarrow> [] | Err e \<Rightarrow> [label @ e])"

definition undo_status :: "runtime \<Rightarrow> Environment \<Rightarrow> EnvironmentStatus \<Rightarrow> bool \<Rightarrow> string \<Rightarrow> engine
    \<Rightarrow> (PlatformState, string) result \<times> engine" where
  "undo_status rt e new prepared_start error eng =
     (let (r1, eng) = (case rollback_operations e new of
             Err x \<Rightarrow> (Err x, eng)
           | Ok ops \<Rightarrow> operate_all rt (target_id e) ops eng);
          (r2, eng) = roll_back_allocations rt prepared_start eng;
          (r3, eng) = (if env_status e = Running then reconcile_connections rt eng else (Ok (), eng))
      in (Err (join ''; '' ([error] @ note_error ''restoring the previous runtime state failed: '' r1 @ note_error [] r2
            @ note_error ''restoring environment connections failed: '' r3)), eng))"

definition fail_status :: "runtime \<Rightarrow> string \<Rightarrow> bool \<Rightarrow> string \<Rightarrow> engine \<Rightarrow> (PlatformState, string) result \<times> engine" where
  "fail_status rt i prepared_start error eng =
     (let (rolled, eng) = roll_back_allocations rt prepared_start eng;
          (_, eng) = mutate rt (\<lambda>st. Ok (set_env i (failed_env error) st)) eng
      in (Err (case rolled of Ok _ \<Rightarrow> error | Err e \<Rightarrow> error @ ''; '' @ e), eng))"

definition commit_status :: "runtime \<Rightarrow> bool \<Rightarrow> Environment \<Rightarrow> EnvironmentStatus \<Rightarrow> bool
    \<Rightarrow> (string option \<times> string option) option \<Rightarrow> engine \<Rightarrow> (PlatformState, string) result \<times> engine" where
  "commit_status rt macos e new prepared_start console eng =
     (let keep = fixed_guest_resources e macos \<and> env_status e \<in> {Running, Paused}
      in case mutate rt (status_update macos keep (rt_now rt) (env_id e) new console) eng of
           (Err error, eng) \<Rightarrow> undo_status rt e new prepared_start error eng
         | (Ok st, eng) \<Rightarrow>
             if new = Running then
               (case reconcile_connections rt eng of
                  (Err error, eng) \<Rightarrow> (Err error, eng)
                | (Ok _, eng) \<Rightarrow> (Ok (eng_state eng), eng))
             else (Ok st, eng))"

definition set_environment_status :: "runtime \<Rightarrow> bool \<Rightarrow> string \<Rightarrow> EnvironmentStatus \<Rightarrow> PlatformState \<Rightarrow> engine
    \<Rightarrow> (PlatformState, string) result \<times> engine" where
  "set_environment_status rt macos i new seen eng =
     (case check_status_request seen i new of
        Err e \<Rightarrow> (Err e, eng)
      | Ok e \<Rightarrow>
          (let prepared_start = provider_is_container (provider e) \<and> new = Running \<and> env_status e \<noteq> Running;
               eng = (if prepared_start then called (PrepareContainer (runtime_id e)) eng else eng)
           in case (if prepared_start then rt_prepare rt else Ok ()) of
                Err error \<Rightarrow> (Err error, eng)
              | Ok _ \<Rightarrow>
                  (case lifecycle_decision e new of
                     Refuse error \<Rightarrow> (Err error, eng)
                   | Fail error \<Rightarrow> fail_status rt i prepared_start error eng
                   | Keep \<Rightarrow> commit_status rt macos e new prepared_start None eng
                   | Perform p \<Rightarrow>
                       (let eng = called (Operate p (target_id e)) eng
                        in case rt_operate rt p of
                             Err error \<Rightarrow> fail_status rt i prepared_start error eng
                           | Ok console \<Rightarrow> commit_status rt macos e new prepared_start console eng))))"


section \<open>Deleting and renaming\<close>

fun delete_snapshots :: "runtime \<Rightarrow> Environment \<Rightarrow> Snapshot list \<Rightarrow> engine \<Rightarrow> (unit, string) result \<times> engine" where
  "delete_snapshots rt e [] eng = (Ok (), eng)"
| "delete_snapshots rt e (s # ss) eng =
     (if snap_environment_id s \<noteq> env_id e then delete_snapshots rt e ss eng
      else if provider_is_container (provider e) then
        (let eng = called (DeleteSnapshot (runtime_id e) (snap_id s)) eng
         in case rt_delete_snapshot rt (snap_id s) of
              Err x \<Rightarrow> (Err (''Snapshot cleanup did not finish; the environment was kept so deletion can be retried. '' @ x), eng)
            | Ok _ \<Rightarrow> delete_snapshots rt e ss eng)
      else
        (case snap_artifact_path s of
           None \<Rightarrow> delete_snapshots rt e ss eng
         | Some path \<Rightarrow>
             (let eng = called (DeleteArtifact path) eng
              in case rt_delete_artifact rt path of
                   Err x \<Rightarrow> (Err x, eng)
                 | Ok _ \<Rightarrow> delete_snapshots rt e ss eng)))"

definition delete_runtime :: "runtime \<Rightarrow> PlatformState \<Rightarrow> Environment \<Rightarrow> engine \<Rightarrow> (unit, string) result \<times> engine" where
  "delete_runtime rt seen e eng =
     (if provider e = CloudSsh then (Ok (), called (Operate CloudDisconnect (env_id e)) eng)
      else
        (let (r, eng) = (if provider e = NativeSandbox then (Ok (), eng) else delete_snapshots rt e (snapshots seen) eng)
         in case r of
              Err x \<Rightarrow> (Err x, eng)
            | Ok _ \<Rightarrow> (rt_delete_runtime rt, called (DeleteRuntime (runtime_id e)) eng)))"

definition forget_environment :: "string \<Rightarrow> PlatformState \<Rightarrow> PlatformState" where
  "forget_environment i st =
     st\<lparr>environments := filter (\<lambda>e. env_id e \<noteq> i) (environments st),
        manual_service_ports := filter (\<lambda>p. fst p \<noteq> i) (manual_service_ports st),
        connections := filter (\<lambda>c. conn_source_id c \<noteq> i \<and> conn_target_id c \<noteq> i) (connections st),
        snapshots := filter (\<lambda>s. snap_environment_id s \<noteq> i) (snapshots st)\<rparr>"

definition delete_environment :: "runtime \<Rightarrow> (unit, string) result option \<Rightarrow> string \<Rightarrow> PlatformState \<Rightarrow> engine
    \<Rightarrow> (PlatformState, string) result \<times> engine" where
  "delete_environment rt recovery i seen eng =
     (case find_env seen i of
        None \<Rightarrow> (Err ''Environment not found'', eng)
      | Some e \<Rightarrow>
          if env_status e = Provisioning then (Err ''Wait for this environment to finish creating before deleting it'', eng)
          else
            (case (case recovery of
                     None \<Rightarrow> Ok ()
                   | Some r \<Rightarrow> if provider_is_container (provider e) then r
                               else Err ''Runtime recovery is only available for managed containers'') of
               Err x \<Rightarrow> (Err x, eng)
             | Ok _ \<Rightarrow>
                 (let eng = foldl (\<lambda>eng c. called (remove_call seen c) eng) eng (filter (touches i) (connections seen))
                  in case delete_runtime rt seen e eng of
                       (Err x, eng) \<Rightarrow> (Err x, eng)
                     | (Ok _, eng) \<Rightarrow> mutate rt (\<lambda>st. Ok (forget_environment i st)) eng)))"

definition rename_update :: "string \<Rightarrow> string \<Rightarrow> PlatformState \<Rightarrow> (PlatformState, string) result" where
  "rename_update i name st =
     (if find_env st i = None then Err ''Environment not found''
      else Ok (set_env i (\<lambda>e. e\<lparr>env_name := name\<rparr>) st))"

text \<open>The control characters of a text (U+0000 to U+001F and U+007F to U+009F), from its UTF-8 bytes.\<close>

fun has_control :: "string \<Rightarrow> bool" where
  "has_control [] = False"
| "has_control (c # s) =
     ((of_char c :: nat) < 32 \<or> (of_char c :: nat) = 127
      \<or> (of_char c :: nat) = 194 \<and> (case s of d # _ \<Rightarrow> (of_char d :: nat) < 160 | [] \<Rightarrow> False)
      \<or> has_control s)"

definition rename_environment :: "runtime \<Rightarrow> string \<Rightarrow> string \<Rightarrow> engine \<Rightarrow> (PlatformState, string) result \<times> engine" where
  "rename_environment rt i name eng =
     (let name = trim name in
      if char_count name < 2 \<or> 80 < char_count name \<or> has_control name
      then (Err (''Name must contain 2'' @ [CHR 0xE2, CHR 0x80, CHR 0x93] @ ''80 characters and no control characters''), eng)
      else mutate rt (rename_update i name) eng)"

section \<open>Restoring a snapshot\<close>

definition restore_env :: "Snapshot \<Rightarrow> Environment \<Rightarrow> Environment" where
  "restore_env s e =
     (let e = (if provider_is_container (provider e)
               then e\<lparr>env_status := Stopped, env_cpu_usage := Fin 0, env_memory_usage_gb := Fin 0\<rparr> else e);
          e = e\<lparr>env_storage_delta_gb := snap_delta_gb s\<rparr>
      in case snap_environment_state s of
           None \<Rightarrow> e
         | Some x \<Rightarrow> e\<lparr>env_runtime := ses_runtime x, env_provider := ses_provider x, env_runtime_path := ses_runtime_path x,
             env_container_command := ses_container_command x, env_network_access := ses_network_access x,
             env_gpu_access := ses_gpu_access x, env_description := ses_description x, env_branch_type := ses_branch_type x,
             env_resource_policy := ses_resource_policy x, env_sandbox_policy := ses_sandbox_policy x\<rparr>)"

definition restore_connections :: "Snapshot \<Rightarrow> PlatformState \<Rightarrow> PlatformState" where
  "restore_connections s st =
     (case snap_connections s of
        None \<Rightarrow> st
      | Some cs \<Rightarrow>
          st\<lparr>connections := filter (\<lambda>c. conn_source_id c \<noteq> snap_environment_id s \<and> conn_target_id c \<noteq> snap_environment_id s) (connections st)
              @ filter (\<lambda>c. has_env st (conn_source_id c) \<and> has_env st (conn_target_id c)) cs\<rparr>)"

definition restore_update :: "bool \<Rightarrow> Snapshot \<Rightarrow> string option \<Rightarrow> PlatformState \<Rightarrow> (PlatformState, string) result" where
  "restore_update macos s pending st =
     (if find_env st (snap_environment_id s) = None then Err ''Environment not found''
      else
        (let st = restore_connections s (set_env (snap_environment_id s) (restore_env s) st);
             st = (case pending of None \<Rightarrow> st
                   | Some rid \<Rightarrow> st\<lparr>pending_vm_restores := filter (\<lambda>x. x \<noteq> rid) (pending_vm_restores st)\<rparr>)
         in scheduled macos st))"


section \<open>Connections survive\<close>

definition shape :: "Connection \<Rightarrow> string \<times> string \<times> PermissionKind list \<times> string list" where
  "shape c = (conn_source_id c, conn_target_id c, conn_permissions c, conn_ports c)"

lemma has_env_ids: "has_env st i \<longleftrightarrow> i \<in> set (map env_id (environments st))"
  by (auto simp: has_env_def list_ex_iff)

lemma connections_ok_shape:
  assumes "map shape (connections st') = map shape (connections st)" and "map env_id (environments st') = map env_id (environments st)"
    and "connections_ok st"
  shows "connections_ok st'"
proof -
  define valid where "valid = (\<lambda>(s, t, p, q). s \<noteq> t \<and> p \<noteq> [] \<and> valid_ports p q
    \<and> s \<in> set (map env_id (environments st)) \<and> t \<in> set (map env_id (environments st)))"
  have v: "valid (shape c) \<longleftrightarrow> valid_connection c \<and> has_env st (conn_source_id c) \<and> has_env st (conn_target_id c)" for c
    by (auto simp: valid_def shape_def valid_connection_def has_env_ids)
  have h: "has_env st' = has_env st" using assms(2) by (simp add: fun_eq_iff has_env_ids)
  have e: "map ends cs = map (\<lambda>(s, t, p, q). (s, t)) (map shape cs)" for cs
    by (induction cs) (auto simp: ends_def shape_def)
  have "\<forall>x \<in> set (map shape (connections st)). valid x" using assms(3) by (auto simp: connections_ok_def v)
  then have "\<forall>c \<in> set (connections st'). valid (shape c)" unfolding assms(1) [symmetric] by auto
  then show ?thesis using assms(3) unfolding connections_ok_def h e [of "connections st'"] assms(1) e [symmetric] v by blast
qed

lemma shape_unenforce [simp]: "shape (unenforce i c) = shape c"
  by (simp add: unenforce_def shape_def)

lemma set_env_frame [simp]:
  assumes "\<And>e. env_id (f e) = env_id e"
  shows "map env_id (environments (set_env i f st)) = map env_id (environments st)"
    and "connections (set_env i f st) = connections st"
  by (simp_all add: set_env_def Let_def map_update assms list_update_same_conv)

lemma scheduled_frame:
  assumes "scheduled macos st = Ok st'"
  shows "connections st' = connections st" and "map env_id (environments st') = map env_id (environments st)"
    and "map env_status (environments st') = map env_status (environments st)"
proof -
  from assms have "schedule_for_host st macos = Some st'" by (simp add: scheduled_def)
  from schedule_keeps [OF this] have s: "st' = st\<lparr>environments := environments st'\<rparr>"
    and m: "map fixed_part (environments st') = map fixed_part (environments st)" by auto
  show "connections st' = connections st" by (subst s) simp
  have f: "map g (environments st') = map g (environments st)" if "\<And>e. g (fixed_part e) = g e" for g
    using arg_cong [OF m, of "map g"] that by (simp add: comp_def)
  show "map env_id (environments st') = map env_id (environments st)"
    "map env_status (environments st') = map env_status (environments st)"
    by (rule f, simp add: fixed_part_def set_cpu_def set_memory_def)+
qed

lemma status_env_id [simp]: "env_id (status_env macos keep now new console e) = env_id e"
  by (simp add: status_env_def run_env_def stop_env_def set_cpu_def set_memory_def Let_def split: option.split prod.split)

lemma status_update_frame:
  assumes "status_update macos keep now i new console st = Ok st'"
  shows "map shape (connections st') = map shape (connections st)" and "map env_id (environments st') = map env_id (environments st)"
    and "connections st' = map (unenforce i) (connections st)"
proof -
  let ?s = "set_env i (status_env macos keep now new console) st"
  have c: "scheduled macos (?s\<lparr>connections := map (unenforce i) (connections ?s)\<rparr>) = Ok st'"
    using assms by (simp add: status_update_def Let_def split: if_splits)
  note f = scheduled_frame [OF c]
  show "connections st' = map (unenforce i) (connections st)" using f(1) by simp
  then show "map shape (connections st') = map shape (connections st)" by (simp add: comp_def)
  show "map env_id (environments st') = map env_id (environments st)" using f(2) by simp
qed


text \<open>Updates that add no connection and keep the connections well formed.\<close>

definition shrinks :: "PlatformState \<Rightarrow> PlatformState \<Rightarrow> bool" where
  "shrinks st st' \<longleftrightarrow> (connections_ok st \<longrightarrow> connections_ok st')
     \<and> set (map ends (connections st')) \<subseteq> set (map ends (connections st))"

lemma shrinks_refl [simp]: "shrinks st st"
  by (simp add: shrinks_def)

lemma shrinks_trans: "shrinks a b \<Longrightarrow> shrinks b c \<Longrightarrow> shrinks a c"
  unfolding shrinks_def by blast

lemma same_ends_shrinks: "same_ends st st' \<Longrightarrow> shrinks st st'"
  by (auto simp: shrinks_def same_ends_def simp del: set_map)

lemma shape_shrinks:
  assumes "map shape (connections st') = map shape (connections st)" and "map env_id (environments st') = map env_id (environments st)"
  shows "shrinks st st'"
proof -
  have "map ends cs = map (\<lambda>(s, t, p, q). (s, t)) (map shape cs)" for cs
    by (induction cs) (auto simp: ends_def shape_def)
  then have "map ends (connections st') = map ends (connections st)" using assms(1) by metis
  then show ?thesis using connections_ok_shape [OF assms] by (simp add: shrinks_def del: set_map)
qed

lemma mutate_shrinks:
  assumes "mutate rt op eng = (r, eng')" and "\<And>st st'. op st = Ok st' \<Longrightarrow> shrinks st st'"
  shows "shrinks (eng_state eng) (eng_state eng')"
  using mutate_state [OF assms(1)] assms(2) [of "eng_state eng"] by auto

lemma operate_all_state: "operate_all rt rid ops eng = (r, eng') \<Longrightarrow> eng_state eng' = eng_state eng"
  by (induction ops arbitrary: eng) (auto split: result.splits)

lemma allocations_state: "roll_back_allocations rt p eng = (r, eng') \<Longrightarrow> eng_state eng' = eng_state eng"
  by (auto simp: roll_back_allocations_def split: if_splits)

lemma undo_status_shrinks:
  assumes "undo_status rt e new p error eng = (r, eng')"
  shows "shrinks (eng_state eng) (eng_state eng')"
proof -
  obtain r1 eng1 where 1: "(case rollback_operations e new of Err x \<Rightarrow> (Err x, eng)
           | Ok ops \<Rightarrow> operate_all rt (target_id e) ops eng) = (r1, eng1)" by fastforce
  obtain r2 eng2 where 2: "roll_back_allocations rt p eng1 = (r2, eng2)" by fastforce
  obtain r3 eng3 where 3: "(if env_status e = Running then reconcile_connections rt eng2 else (Ok (), eng2)) = (r3, eng3)" by fastforce
  have e: "eng' = eng3" using assms unfolding undo_status_def 1 Let_def prod.case 2 3 by simp
  have "eng_state eng1 = eng_state eng" using 1 by (auto split: result.splits dest: operate_all_state)
  moreover have "eng_state eng2 = eng_state eng1" using 2 by (rule allocations_state)
  moreover have "shrinks (eng_state eng2) (eng_state eng3)"
    using 3 by (auto split: if_splits intro: same_ends_shrinks reconcile_connections_same_ends)
  ultimately show ?thesis using e by simp
qed

lemma set_env_shrinks: "(\<And>e. env_id (f e) = env_id e) \<Longrightarrow> shrinks st (set_env i f st)"
  by (rule shape_shrinks) simp_all

lemma fail_status_shrinks:
  assumes "fail_status rt i p error eng = (r, eng')"
  shows "shrinks (eng_state eng) (eng_state eng')"
proof -
  obtain r1 eng1 where 1: "roll_back_allocations rt p eng = (r1, eng1)" by fastforce
  obtain r2 eng2 where 2: "mutate rt (\<lambda>st. Ok (set_env i (failed_env error) st)) eng1 = (r2, eng2)" by fastforce
  have "eng' = eng2" using assms unfolding fail_status_def 1 Let_def prod.case 2 by simp
  moreover have "shrinks (eng_state eng1) (eng_state eng2)"
    using 2 by (rule mutate_shrinks) (auto intro: set_env_shrinks simp: failed_env_def)
  ultimately show ?thesis using allocations_state [OF 1] by simp
qed

lemma commit_status_shrinks:
  assumes "commit_status rt macos e new p console eng = (r, eng')"
  shows "shrinks (eng_state eng) (eng_state eng')"
proof -
  let ?keep = "fixed_guest_resources e macos \<and> env_status e \<in> {Running, Paused}"
  obtain q eng1 where m: "mutate rt (status_update macos ?keep (rt_now rt) (env_id e) new console) eng = (q, eng1)" by fastforce
  have s: "shrinks (eng_state eng) (eng_state eng1)"
    using m by (rule mutate_shrinks) (auto intro: shape_shrinks dest: status_update_frame)
  show ?thesis
  proof (cases q)
    case (Err x)
    then have "undo_status rt e new p x eng1 = (r, eng')" using assms m by (simp add: commit_status_def Let_def)
    then show ?thesis using s undo_status_shrinks shrinks_trans by blast
  next
    case (Ok st)
    then have "eng' = eng1 \<or> (\<exists>x. reconcile_connections rt eng1 = (x, eng'))"
      using assms m by (auto simp: commit_status_def Let_def split: if_splits prod.splits result.splits)
    then show ?thesis using s same_ends_shrinks reconcile_connections_same_ends shrinks_trans by blast
  qed
qed

lemma set_environment_status_shrinks:
  assumes "set_environment_status rt macos i new seen eng = (r, eng')"
  shows "shrinks (eng_state eng) (eng_state eng')"
proof -
  have "eng_state eng' = eng_state eng
    \<or> (\<exists>p error eng1. eng_state eng1 = eng_state eng \<and> fail_status rt i p error eng1 = (r, eng'))
    \<or> (\<exists>e p console eng1. eng_state eng1 = eng_state eng \<and> commit_status rt macos e new p console eng1 = (r, eng'))"
  proof (cases "check_status_request seen i new")
    case (Err x)
    then show ?thesis using assms by (simp add: set_environment_status_def)
  next
    case (Ok e)
    let ?p = "provider_is_container (provider e) \<and> new = Running \<and> env_status e \<noteq> Running"
    let ?e = "if ?p then called (PrepareContainer (runtime_id e)) eng else eng"
    have s: "eng_state ?e = eng_state eng" by simp
    show ?thesis
    proof (cases "if ?p then rt_prepare rt else Ok ()")
      case (Err x)
      then have "eng' = ?e" using assms Ok unfolding set_environment_status_def Let_def by simp
      then show ?thesis using s by simp
    next
      case prep: (Ok u)
      note a = assms [unfolded set_environment_status_def Ok result.case Let_def prep]
      show ?thesis
      proof (cases "lifecycle_decision e new")
        case (Refuse x)
        then have "eng' = ?e" using a by simp
        then show ?thesis using s by simp
      next
        case (Fail x)
        then have "fail_status rt i ?p x ?e = (r, eng')" using a by simp
        then show ?thesis using s by blast
      next
        case Keep
        then have "commit_status rt macos e new ?p None ?e = (r, eng')" using a by simp
        then show ?thesis using s by blast
      next
        case (Perform q)
        have s': "eng_state (called (Operate q (target_id e)) ?e) = eng_state eng" by simp
        from Perform a have "(\<exists>x. fail_status rt i ?p x (called (Operate q (target_id e)) ?e) = (r, eng'))
          \<or> (\<exists>c. commit_status rt macos e new ?p c (called (Operate q (target_id e)) ?e) = (r, eng'))"
          by (cases "rt_operate rt q") auto
        then show ?thesis using s' by blast
      qed
    qed
  qed
  then show ?thesis using fail_status_shrinks commit_status_shrinks by (metis shrinks_refl)
qed


lemma delete_snapshots_state: "delete_snapshots rt e ss eng = (r, eng') \<Longrightarrow> eng_state eng' = eng_state eng"
  by (induction ss arbitrary: eng) (auto simp: Let_def split: if_splits result.splits option.splits)

lemma delete_runtime_state:
  assumes "delete_runtime rt seen e eng = (r, eng')"
  shows "eng_state eng' = eng_state eng"
proof -
  obtain r1 eng1 where 1: "delete_snapshots rt e (snapshots seen) eng = (r1, eng1)" by fastforce
  then show ?thesis using assms delete_snapshots_state [OF 1]
    by (auto simp: delete_runtime_def split: if_splits result.splits)
qed

lemma foldl_called_state [simp]: "eng_state (foldl (\<lambda>eng c. called (g c) eng) eng cs) = eng_state eng"
  by (induction cs arbitrary: eng) auto

lemma forget_shrinks: "shrinks st (forget_environment i st)"
proof -
  let ?st = "forget_environment i st"
  have "connections_ok ?st" if ok: "connections_ok st"
    unfolding connections_ok_def
  proof (intro conjI ballI)
    show "distinct (map ends (connections ?st))"
      using ok by (simp add: forget_environment_def connections_ok_def distinct_map_filter)
    fix c assume "c \<in> set (connections ?st)"
    then have c: "c \<in> set (connections st)" "conn_source_id c \<noteq> i" "conn_target_id c \<noteq> i" by (simp_all add: forget_environment_def)
    with ok have "valid_connection c" "has_env st (conn_source_id c)" "has_env st (conn_target_id c)" by (simp_all add: connections_ok_def)
    with c(2,3) show "valid_connection c" "has_env ?st (conn_source_id c)" "has_env ?st (conn_target_id c)"
      by (auto simp: has_env_def list_ex_iff forget_environment_def)
  qed
  moreover have "set (map ends (connections ?st)) \<subseteq> set (map ends (connections st))" by (auto simp: forget_environment_def)
  ultimately show ?thesis by (simp add: shrinks_def del: set_map)
qed

lemma delete_environment_cases:
  assumes "delete_environment rt recovery i seen eng = (r, eng')"
  shows "eng_state eng' = eng_state eng \<and> \<not> is_ok r
    \<or> (\<exists>eng1. eng_state eng1 = eng_state eng \<and> mutate rt (\<lambda>st. Ok (forget_environment i st)) eng1 = (r, eng'))"
proof (cases "find_env seen i")
  case None
  then show ?thesis using assms by (auto simp: delete_environment_def)
next
  case (Some e)
  let ?eng = "foldl (\<lambda>eng c. called (remove_call seen c) eng) eng (filter (touches i) (connections seen))"
  obtain q eng1 where d: "delete_runtime rt seen e ?eng = (q, eng1)" by fastforce
  have s: "eng_state eng1 = eng_state eng" using delete_runtime_state [OF d] by simp
  let ?rec = "case recovery of None \<Rightarrow> Ok () | Some r \<Rightarrow> if provider_is_container (provider e) then r
      else Err ''Runtime recovery is only available for managed containers''"
  show ?thesis
  proof (cases "env_status e = Provisioning")
    case True
    then show ?thesis using assms Some by (auto simp: delete_environment_def)
  next
    case False
    note a = assms [unfolded delete_environment_def Some option.case if_not_P [OF False] Let_def d prod.case]
    show ?thesis
    proof (cases ?rec)
      case (Err x)
      then show ?thesis using a by auto
    next
      case (Ok u)
      show ?thesis
      proof (cases q)
        case (Err x)
        then show ?thesis using a s by (auto simp: Ok)
      next
        case q: (Ok v)
        then have "mutate rt (\<lambda>st. Ok (forget_environment i st)) eng1 = (r, eng')" using a by (simp add: Ok)
        then show ?thesis using s by blast
      qed
    qed
  qed
qed

lemma delete_environment_shrinks:
  assumes "delete_environment rt recovery i seen eng = (r, eng')"
  shows "shrinks (eng_state eng) (eng_state eng')"
  using delete_environment_cases [OF assms]
proof
  assume "\<exists>eng1. eng_state eng1 = eng_state eng \<and> mutate rt (\<lambda>st. Ok (forget_environment i st)) eng1 = (r, eng')"
  then obtain eng1 where e: "eng_state eng1 = eng_state eng" "mutate rt (\<lambda>st. Ok (forget_environment i st)) eng1 = (r, eng')" by blast
  have "shrinks (eng_state eng1) (eng_state eng')" using e(2) by (rule mutate_shrinks) (auto intro: forget_shrinks)
  then show ?thesis using e(1) by simp
qed simp

lemma rename_shrinks:
  assumes "rename_environment rt i name eng = (r, eng')"
  shows "shrinks (eng_state eng) (eng_state eng')"
proof (cases "mutate rt (rename_update i (trim name)) eng = (r, eng')")
  case True
  then show ?thesis by (rule mutate_shrinks) (auto simp: rename_update_def intro!: set_env_shrinks split: if_splits)
next
  case False
  then show ?thesis using assms by (auto simp: rename_environment_def Let_def split: if_splits)
qed

section \<open>Steps of the desktop\<close>

text \<open>
  Commands that do not hold the connection lock while they update the state; \<open>seen\<close> is whatever
  earlier state they started from.
\<close>

inductive unlocked_step :: "bool \<Rightarrow> engine \<Rightarrow> engine \<Rightarrow> bool" for macos :: bool where
  step_status: "set_environment_status rt macos i new seen eng = (r, eng') \<Longrightarrow> unlocked_step macos eng eng'"
| step_delete: "delete_environment rt recovery i seen eng = (r, eng') \<Longrightarrow> unlocked_step macos eng eng'"
| step_rename: "rename_environment rt i name eng = (r, eng') \<Longrightarrow> unlocked_step macos eng eng'"

text \<open>
  The commands on connections hold the lock; while one waits for the runtime (from the state
  \<open>eng0\<close> it has seen on), only unlocked commands change the state.
\<close>

inductive desktop_step :: "bool \<Rightarrow> engine \<Rightarrow> engine \<Rightarrow> bool" for macos :: bool where
  step_unlocked: "unlocked_step macos eng eng' \<Longrightarrow> desktop_step macos eng eng'"
| step_create: "(unlocked_step macos)\<^sup>*\<^sup>* eng0 eng \<Longrightarrow> create_connection rt i r (eng_state eng0) eng = (res, eng')
    \<Longrightarrow> desktop_step macos eng eng'"
| step_active: "set_connection_active rt i active eng = (res, eng') \<Longrightarrow> desktop_step macos eng eng'"
| step_remove: "delete_connection rt i eng = (res, eng') \<Longrightarrow> desktop_step macos eng eng'"
| step_reconcile: "reconcile_connections rt eng = (res', eng') \<Longrightarrow> desktop_step macos eng eng'"

lemma unlocked_shrinks: "unlocked_step macos eng eng' \<Longrightarrow> shrinks (eng_state eng) (eng_state eng')"
  by (induction rule: unlocked_step.induct)
    (blast intro: set_environment_status_shrinks delete_environment_shrinks rename_shrinks)+

lemma unlocked_run_shrinks: "(unlocked_step macos)\<^sup>*\<^sup>* eng eng' \<Longrightarrow> shrinks (eng_state eng) (eng_state eng')"
  by (induction rule: rtranclp_induct) (auto intro: shrinks_trans unlocked_shrinks)

interpretation wiring: safety "\<lambda>eng. connections (eng_state eng) = []" "desktop_step macos" "\<lambda>eng. connections_ok (eng_state eng)"
  for macos
proof
  fix s t assume ok: "connections_ok (eng_state s)" and "desktop_step macos s t"
  from this(2) show "connections_ok (eng_state t)"
  proof (cases rule: desktop_step.cases)
    case step_unlocked
    then show ?thesis using ok unlocked_shrinks by (auto simp: shrinks_def)
  next
    case (step_create eng0 rt i r res)
    then show ?thesis using ok unlocked_run_shrinks [OF step_create(1)] create_connection_ok
      unfolding shrinks_def by blast
  next
    case step_active
    then show ?thesis using ok set_connection_active_same_ends by (auto simp: same_ends_def)
  next
    case step_remove
    then show ?thesis using ok delete_connection_ok by blast
  next
    case step_reconcile
    then show ?thesis using ok reconcile_connections_same_ends by (auto simp: same_ends_def)
  qed
qed (simp add: connections_ok_def)

section \<open>Rollback\<close>

text \<open>
  The drivers are not part of the model. What is relied on is what their operations are for: \<open>leads\<close> gives the power state
  that an operation leaves behind, and \<open>None\<close> where the driver refuses; \<open>power_laws\<close> says that starting leads from stopped
  to running, pausing from running to paused, resuming back, and that stopping always ends in stopped.
\<close>

definition power_laws :: "(operation \<Rightarrow> EnvironmentStatus \<Rightarrow> EnvironmentStatus option) \<Rightarrow> bool" where
  "power_laws leads \<longleftrightarrow>
     (\<forall>p \<in> {StartVm, StartMicroVm, StartSandbox, ContainerAction ''start''}. leads p Stopped = Some Running)
     \<and> (\<forall>p \<in> {VmAction ''pause'', ContainerAction ''pause''}. leads p Running = Some Paused)
     \<and> (\<forall>p \<in> {VmAction ''resume'', ContainerAction ''resume''}. leads p Paused = Some Running)
     \<and> (\<forall>p \<in> {StopSandbox, VmAction ''stop'', ContainerAction ''stop''}. \<forall>s. leads p s = Some Stopped)"

fun powers :: "(operation \<Rightarrow> EnvironmentStatus \<Rightarrow> EnvironmentStatus option) \<Rightarrow> operation list \<Rightarrow> EnvironmentStatus \<Rightarrow> EnvironmentStatus option" where
  "powers leads [] s = Some s"
| "powers leads (p # ps) s = Option.bind (leads p s) (powers leads ps)"

text \<open>
  C27. A status change of a container, a virtual machine or a native branch that could not be saved is undone: whatever the
  drivers, as long as their operations do what they are for, the operation leads from the stored status to the requested
  one, and the rollback operations lead from there back to the status that is still stored. Both are among running, stopped
  and paused, and a native branch is not paused. (For a cloud node the rollback does not do this.)
\<close>

theorem rollback_restores:
  assumes "power_laws leads" and "lifecycle_decision e new = Perform p" and "rollback_operations e new = Ok ops"
    and "env_status e \<in> {Running, Stopped, Paused}" and "new \<in> {Running, Stopped, Paused}"
    and "provider e \<noteq> CloudSsh" and "provider e = NativeSandbox \<longrightarrow> env_status e \<noteq> Paused"
    and "env_status e \<noteq> new"
  shows "leads p (env_status e) = Some new \<and> powers leads ops new = Some (env_status e)"
  using assms
  by (cases "provider e"; cases "env_status e"; cases new)
    (auto simp: power_laws_def lifecycle_decision_def rollback_operations_def container_decision_def vm_decision_def vm_start_def
      sandbox_decision_def sandbox_start_def sandbox_restart_def restart_operations_def split: if_splits)

fun example_power :: "operation \<Rightarrow> EnvironmentStatus \<Rightarrow> EnvironmentStatus option" where
  "example_power CloudConnect s = Some Running"
| "example_power CloudDisconnect s = Some Stopped"
| "example_power StartVm s = (if s = Stopped then Some Running else None)"
| "example_power StartMicroVm s = (if s = Stopped then Some Running else None)"
| "example_power StartSandbox s = (if s = Stopped then Some Running else None)"
| "example_power StopSandbox s = Some Stopped"
| "example_power (VmAction a) s =
     (if a = ''resume'' \<and> s = Paused then Some Running
      else if a = ''pause'' \<and> s = Running then Some Paused
      else if a = ''stop'' then Some Stopped else None)"
| "example_power (ContainerAction a) s =
     (if a = ''start'' \<and> s = Stopped then Some Running
      else if a = ''resume'' \<and> s = Paused then Some Running
      else if a = ''pause'' \<and> s = Running then Some Paused
      else if a = ''stop'' then Some Stopped else None)"

theorem rollback_restores_witness:
  "\<exists>ops. rollback_operations (example_env ''a'' Container Paused) Stopped = Ok ops
     \<and> powers example_power ops Stopped = Some Paused"
proof -
  have laws: "power_laws example_power" by (simp add: power_laws_def)
  let ?e = "example_env ''a'' Container Paused"
  have p: "provider ?e = OpenDockOci" "env_status ?e = Paused" by (simp_all add: provider_def example_env_def)
  have d: "lifecycle_decision ?e Stopped = Perform (ContainerAction ''stop'')"
    by (simp add: lifecycle_decision_def p container_decision_def)
  obtain ops where o: "rollback_operations ?e Stopped = Ok ops" by (simp add: rollback_operations_def p)
  from rollback_restores [OF laws d o] o show ?thesis by (simp add: p)
qed

section \<open>Effect of a status change\<close>

lemma find_env_map:
  assumes "map (\<lambda>e. (env_id e, g e)) es' = map (\<lambda>e. (env_id e, g e)) es"
  shows "map_option g (List.find (\<lambda>e. env_id e = i) es') = map_option g (List.find (\<lambda>e. env_id e = i) es)"
proof -
  have "map_option g (List.find (\<lambda>e. env_id e = i) xs) = map_of (map (\<lambda>e. (env_id e, g e)) xs) i" for xs
    by (induction xs) simp_all
  with assms show ?thesis by simp
qed

lemma find_status:
  assumes "map env_id (environments st') = map env_id (environments st)"
    and "map env_status (environments st') = map env_status (environments st)"
  shows "map_option env_status (find_env st' i) = map_option env_status (find_env st i)"
proof -
  have "map (\<lambda>e. (env_id e, env_status e)) es = zip (map env_id es) (map env_status es)" for es :: "Environment list"
    by (induction es) simp_all
  then show ?thesis using assms unfolding find_env_def by (intro find_env_map) simp
qed

lemma scheduled_total:
  "\<forall>e \<in> set (environments st). validate_policy (env_resource_policy e) = Ok () \<Longrightarrow> \<exists>st'. scheduled macos st = Ok st'"
  using schedule_per_environment [of st macos] by (auto simp: scheduled_def)

lemma find_update_step:
  assumes "\<And>e. env_id (f e) = env_id e" "env_id x = i" "List.find (\<lambda>e. env_id e = i) (x # xs) = Some e"
  shows "List.find (\<lambda>e. env_id e = i) ((x # xs)[0 := f x]) = Some (f e)"
  using assms(2,3) by (simp add: assms(1))

lemma find_update:
  assumes f: "\<And>e. env_id (f e) = env_id e"
  shows "List.find (\<lambda>e. env_id e = i) es = Some e \<Longrightarrow> n = length (takeWhile (\<lambda>e. env_id e \<noteq> i) es) \<Longrightarrow>
    n < length es \<and> List.find (\<lambda>e. env_id e = i) (es[n := f (es ! n)]) = Some (f e)"
proof (induction es arbitrary: n)
  case (Cons x xs)
  show ?case
  proof (cases "env_id x = i")
    case True
    with Cons.prems(2) have n: "n = 0" by simp
    show ?thesis unfolding n using find_update_step [OF f True Cons.prems(1)] by simp
  next
    case False
    from False Cons.prems(1) have p: "List.find (\<lambda>e. env_id e = i) xs = Some e" by simp
    from False Cons.prems(2) have n: "n = Suc (length (takeWhile (\<lambda>e. env_id e \<noteq> i) xs))" by simp
    show ?thesis unfolding n using Cons.IH [OF p refl] False by simp
  qed
qed simp
lemma find_set_env:
  assumes "\<And>e. env_id (f e) = env_id e" and "find_env st i = Some e"
  shows "find_env (set_env i f st) i = Some (f e)"
  using find_update [of f i "environments st" e, OF assms(1) _ refl] assms(2) by (simp add: find_env_def set_env_def Let_def)

lemma status_update_status:
  assumes "status_update macos keep now i new console st = Ok st'"
  shows "map_option env_status (find_env st' i) = Some new"
proof -
  let ?f = "status_env macos keep now new console"
  let ?s = "set_env i ?f st"
  from assms obtain e where e: "find_env st i = Some e"
    and c: "scheduled macos (?s\<lparr>connections := map (unenforce i) (connections ?s)\<rparr>) = Ok st'"
    by (auto simp: status_update_def Let_def split: if_splits)
  have "map_option env_status (find_env st' i) = map_option env_status (find_env ?s i)"
    by (rule find_status) (use scheduled_frame(2,3) [OF c] in \<open>simp_all del: set_env_frame\<close>)
  moreover have "env_status (?f e) = new"
    by (simp add: status_env_def run_env_def stop_env_def set_cpu_def set_memory_def Let_def split: option.split prod.split)
  moreover have "find_env ?s i = Some (?f e)" by (rule find_set_env [OF status_env_id e])
  ultimately show ?thesis by simp
qed

lemma unenforce_pending:
  assumes "c \<in> set (map (unenforce i) cs)" and "touches i c"
  shows "conn_enforcement_status c = Some Pending \<and> conn_provider_rule_ids c = []"
proof -
  obtain x where x: "c = unenforce i x" using assms(1) by auto
  then have "touches i x" using assms(2) by (simp add: unenforce_def touches_def split: if_splits)
  with x show ?thesis by (simp add: unenforce_def)
qed

lemma commit_status_Ok:
  assumes "commit_status rt macos e new p console eng = (Ok st, eng')"
  shows "st = eng_state eng' \<and> map_option env_status (find_env st (env_id e)) = Some new
    \<and> (new \<noteq> Running \<longrightarrow> (\<forall>c \<in> set (connections st). touches (env_id e) c \<longrightarrow>
         conn_enforcement_status c = Some Pending \<and> conn_provider_rule_ids c = []))"
proof -
  let ?keep = "fixed_guest_resources e macos \<and> env_status e \<in> {Running, Paused}"
  obtain q eng1 where m: "mutate rt (status_update macos ?keep (rt_now rt) (env_id e) new console) eng = (q, eng1)" by fastforce
  note a = assms [unfolded commit_status_def Let_def m prod.case]
  have "is_ok q"
  proof (cases q)
    case (Err x)
    then show ?thesis using a by (auto simp: undo_status_def Let_def split: prod.splits)
  qed simp
  then obtain st1 where q: "q = Ok st1" by (cases q) auto
  have u: "status_update macos ?keep (rt_now rt) (env_id e) new console (eng_state eng) = Ok st1" "eng_state eng1 = st1"
    using mutate_Ok [OF m [unfolded q]] by simp_all
  show ?thesis
  proof (cases "new = Running")
    case True
    obtain r3 eng3 where r: "reconcile_connections rt eng1 = (r3, eng3)" by fastforce
    then have "st = eng_state eng3" "eng' = eng3" using a True q by (auto split: result.splits)
    moreover have "environments (eng_state eng3) = environments st1"
      using reconcile_connections_same_ends [OF r] u(2) by (simp add: same_ends_def)
    ultimately show ?thesis using status_update_status [OF u(1)] True by (simp add: find_env_def)
  next
    case False
    then have "st = st1" "eng' = eng1" using a q by simp_all
    then show ?thesis using status_update_status [OF u(1)] status_update_frame(3) [OF u(1)] u(2) unenforce_pending by auto
  qed
qed

lemma fail_status_Err: "fail_status rt i p error eng \<noteq> (Ok st, eng')"
  by (auto simp: fail_status_def Let_def split: prod.splits)

lemma check_status_Ok: "check_status_request seen i new = Ok e \<Longrightarrow> find_env seen i = Some e \<and> env_id e = i"
  by (auto simp: check_status_request_def find_env_def find_Some_iff split: if_splits)

text \<open>
  C18. When a status change succeeds, the stored environment has the requested status, and as
  long as it does not run, no connection that touches it counts as enforced; a request for a
  status only the runtime may set, for an environment that is still being created, or for one
  with a pending factory reset changes nothing.
\<close>

theorem status_change_effect:
  assumes "set_environment_status rt macos i new seen eng = (res, eng')"
  shows "(\<forall>st. res = Ok st \<longrightarrow> st = eng_state eng' \<and> map_option env_status (find_env st i) = Some new
      \<and> (new \<noteq> Running \<longrightarrow> (\<forall>c \<in> set (connections st). touches i c \<longrightarrow>
           conn_enforcement_status c = Some Pending \<and> conn_provider_rule_ids c = [])))
    \<and> (new \<in> {Provisioning, StatusError} \<or> find_env seen i = None
        \<or> map_option env_status (find_env seen i) = Some Provisioning
        \<or> new = Running \<and> list_ex (\<lambda>p. env_id (frc_environment p) = i) (pending_factory_resets seen) \<longrightarrow>
       \<not> is_ok res \<and> eng' = eng)"
proof (cases "check_status_request seen i new")
  case (Err x)
  then have "res = Err x" "eng' = eng" using assms by (simp_all add: set_environment_status_def)
  then show ?thesis by simp
next
  case (Ok e)
  have k: "find_env seen i = Some e" "env_id e = i" using check_status_Ok [OF Ok] by simp_all
  have g: "\<not> (new \<in> {Provisioning, StatusError} \<or> find_env seen i = None
        \<or> map_option env_status (find_env seen i) = Some Provisioning
        \<or> new = Running \<and> list_ex (\<lambda>p. env_id (frc_environment p) = i) (pending_factory_resets seen))"
    using Ok k by (auto simp: check_status_request_def split: if_splits)
  have "\<exists>p console eng1. commit_status rt macos e new p console eng1 = (Ok st, eng')" if "res = Ok st" for st
    using assms Ok that unfolding set_environment_status_def Let_def
    by (auto simp: fail_status_Err split: result.splits decision.splits if_splits)
  then show ?thesis using g commit_status_Ok k(2) by metis
qed


theorem status_change_effect_witness:
  "\<exists>st eng'. set_environment_status example_runtime False ''a'' Stopped (eng_state example_engine) example_engine = (Ok st, eng')
     \<and> map_option env_status (find_env st ''a'') = Some Stopped"
proof -
  let ?e = "example_env ''a'' Container Running"
  have f: "find_env (eng_state example_engine) ''a'' = Some ?e"
    by (simp add: find_env_def example_engine_def example_state_def example_env_def)
  have c: "check_status_request (eng_state example_engine) ''a'' Stopped = Ok ?e"
    unfolding check_status_request_def f by (simp add: example_env_def)
  have p: "provider ?e = OpenDockOci" "env_status ?e = Running" "env_id ?e = ''a''" by (simp_all add: provider_def example_env_def)
  let ?s = "set_env ''a'' (status_env False False ''now'' Stopped None) (eng_state example_engine)"
  have "\<forall>x \<in> set (environments (?s\<lparr>connections := []\<rparr>)). validate_policy (env_resource_policy x) = Ok ()"
    by (auto simp: set_env_def example_engine_def example_state_def example_env_def status_env_def stop_env_def Let_def
        set_cpu_def set_memory_def validate_policy_Ok valid_range_def example_policy_def example_range_def)
  from scheduled_total [OF this, of False] obtain st where "scheduled False (?s\<lparr>connections := []\<rparr>) = Ok st" by blast
  moreover have "connections ?s = []" by (simp add: example_engine_def example_state_def)
  ultimately have u: "status_update False False ''now'' ''a'' Stopped None (eng_state example_engine) = Ok st"
    using f by (simp add: status_update_def Let_def)
  have "\<exists>eng'. commit_status example_runtime False ?e Stopped False None eng = (Ok st, eng')"
    if "eng_state eng = eng_state example_engine" for eng
    using u that by (simp add: commit_status_def p fixed_guest_resources_def mutate_def) (simp add: example_runtime_def u)
  then obtain eng' where s: "set_environment_status example_runtime False ''a'' Stopped (eng_state example_engine) example_engine = (Ok st, eng')"
    unfolding set_environment_status_def c
    by (simp add: p lifecycle_decision_def container_decision_def) (simp add: example_runtime_def; metis called_simps(1))
  with status_change_effect [OF s] show ?thesis by blast
qed

section \<open>Requests that a provider does not support\<close>

text \<open>
  A power request that the provider does not support, such as pausing a native branch or
  a cloud connection, is recorded as a failure of the environment: no runtime operation is
  performed, yet the stored status becomes an error (a container keeps its status instead).
\<close>

theorem unsupported_request_marks_error:
  assumes "check_status_request (eng_state eng) i new = Ok e" and "lifecycle_decision e new = Fail error"
    and "\<And>st. rt_saved rt st = Ok ()" and "new \<noteq> Running"
  shows "\<exists>eng'. set_environment_status rt macos i new (eng_state eng) eng = (Err error, eng')
    \<and> eng_calls eng' = eng_calls eng \<and> map_option env_status (find_env (eng_state eng') i) = Some StatusError"
proof -
  have f: "find_env (eng_state eng) i = Some e" using check_status_Ok [OF assms(1)] by simp
  have "find_env (set_env i (failed_env error) (eng_state eng)) i = Some (failed_env error e)"
    by (rule find_set_env [OF _ f]) (simp add: failed_env_def)
  then show ?thesis using assms(2-4) f
    by (simp add: set_environment_status_def assms(1) fail_status_def roll_back_allocations_def mutate_def failed_env_def)
qed

theorem unsupported_request_marks_error_witness:
  "\<exists>eng'. set_environment_status example_runtime False ''a'' Paused
      (example_state 9 [example_env ''a'' Cloud Running]) \<lparr>eng_state = example_state 9 [example_env ''a'' Cloud Running], eng_calls = []\<rparr>
      = (Err ''Cloud nodes support Connect and Disconnect only. The server's power is not managed by Yougori.'', eng')
    \<and> eng_calls eng' = [] \<and> map_option env_status (find_env (eng_state eng') ''a'') = Some StatusError"
proof -
  let ?e = "example_env ''a'' Cloud Running"
  let ?eng = "\<lparr>eng_state = example_state 9 [?e], eng_calls = []\<rparr>"
  have c: "check_status_request (eng_state ?eng) ''a'' Paused = Ok ?e"
    by (simp add: check_status_request_def find_env_def example_state_def example_env_def)
  have d: "lifecycle_decision ?e Paused = Fail ''Cloud nodes support Connect and Disconnect only. The server's power is not managed by Yougori.''"
    by (simp add: lifecycle_decision_def provider_def cloud_decision_def) (simp add: example_env_def)
  have s: "rt_saved example_runtime st = Ok ()" for st by (simp add: example_runtime_def)
  from unsupported_request_marks_error [OF c d s, of False] show ?thesis by simp
qed

section \<open>Restored connections\<close>

text \<open>
  C39. Restoring a snapshot brings back the enforcement state that its connections had when it
  was taken: a container is stored as stopped while a connection of it still counts as enforced
  by an old rule, and reconciliation passes over it.
\<close>

theorem restored_connection_stale:
  assumes "restore_update macos s pending st = Ok st'" and "snap_connections s = Some cs" and "c \<in> set cs"
    and "conn_source_id c = snap_environment_id s" and "has_env st (conn_source_id c)" and "has_env st (conn_target_id c)"
    and "find_env st (snap_environment_id s) = Some e" and "provider_is_container (provider e)"
  shows "c \<in> set (connections st') \<and> map_option env_status (find_env st' (snap_environment_id s)) = Some Stopped
    \<and> reconcile_one rt st' c eng = (Ok (), eng)"
proof -
  let ?i = "snap_environment_id s"
  let ?s = "set_env ?i (restore_env s) st"
  let ?r = "restore_connections s ?s"
  let ?p = "case pending of None \<Rightarrow> ?r | Some rid \<Rightarrow> ?r\<lparr>pending_vm_restores := filter (\<lambda>x. x \<noteq> rid) (pending_vm_restores ?r)\<rparr>"
  have c: "scheduled macos ?p = Ok st'" using assms(1,7) by (simp add: restore_update_def Let_def)
  have ids: "env_id (restore_env s x) = env_id x" for x by (simp add: restore_env_def Let_def split: option.split)
  have h: "has_env ?s j = has_env st j" for j using ids by (simp add: has_env_ids)
  have mem: "c \<in> set (connections ?r)" using assms(2,3,5,6) h by (simp add: restore_connections_def)
  have "connections ?p = connections ?r" "environments ?p = environments ?s"
    by (simp_all add: restore_connections_def split: option.split)
  note f = scheduled_frame [OF c, unfolded this]
  have "map_option env_status (find_env st' ?i) = map_option env_status (find_env ?s ?i)"
    by (rule find_status) (use f(2,3) in \<open>simp_all del: set_env_frame\<close>)
  moreover have "find_env ?s ?i = Some (restore_env s e)" by (rule find_set_env [OF ids assms(7)])
  moreover have "env_status (restore_env s e) = Stopped" using assms(8) by (simp add: restore_env_def Let_def split: option.split)
  ultimately have st: "map_option env_status (find_env st' ?i) = Some Stopped" by simp
  then show ?thesis using mem f(1) assms(4) by (auto simp: reconcile_one_def split: option.split)
qed


definition example_link :: Connection where
  "example_link = new_connection ''c'' ''then'' example_connect (Some ''old rule'')"

definition example_snapshot :: Snapshot where
  "example_snapshot = \<lparr>snap_id = ''s'', snap_environment_id = ''a'', snap_name = ''before'', snap_created_at = ''then'',
     snap_size_gb = Fin 1, snap_delta_gb = Fin 1, snap_encrypted = False, snap_status = SnapReady,
     snap_provider_snapshot_id = None, snap_artifact_path = None, snap_artifact_size_bytes = None, snap_checksum_sha256 = None,
     snap_environment_state = None, snap_connections = Some [example_link]\<rparr>"

lemma example_snapshot_restored: "\<exists>st'. restore_update False example_snapshot None (eng_state example_engine) = Ok st'"
proof -
  let ?st = "eng_state example_engine"
  have s: "snap_environment_id example_snapshot = ''a''" "snap_connections example_snapshot = Some [example_link]"
    by (simp_all add: example_snapshot_def)
  have f: "find_env ?st ''a'' = Some (example_env ''a'' Container Running)"
    by (simp add: find_env_def example_engine_def example_state_def example_env_def)
  have "\<forall>x \<in> set (environments (restore_connections example_snapshot (set_env ''a'' (restore_env example_snapshot) ?st))).
      validate_policy (env_resource_policy x) = Ok ()"
    by (auto simp: restore_connections_def s set_env_def example_engine_def example_state_def Let_def)
      (auto simp: restore_env_def example_snapshot_def example_env_def provider_def validate_policy_Ok valid_range_def
        example_policy_def example_range_def Let_def)
  from scheduled_total [OF this, of False] show ?thesis using f by (auto simp: restore_update_def s)
qed

theorem restored_connection_stale_witness:
  "\<exists>st'. restore_update False example_snapshot None (eng_state example_engine) = Ok st'
     \<and> example_link \<in> set (connections st') \<and> conn_enforcement_status example_link = Some Enforced
     \<and> map_option env_status (find_env st' ''a'') = Some Stopped"
proof -
  let ?st = "eng_state example_engine"
  let ?e = "example_env ''a'' Container Running"
  have f: "find_env ?st ''a'' = Some ?e"
    by (simp add: find_env_def example_engine_def example_state_def example_env_def)
  have l: "conn_source_id example_link = ''a''" "conn_target_id example_link = ''b''"
    "conn_enforcement_status example_link = Some Enforced"
    by (simp_all add: example_link_def example_connect_def new_connection_def)
  have s: "snap_environment_id example_snapshot = ''a''" "snap_connections example_snapshot = Some [example_link]"
    by (simp_all add: example_snapshot_def)
  have p: "provider_is_container (provider ?e)" by (simp add: provider_def example_env_def)
  obtain st' where r: "restore_update False example_snapshot None ?st = Ok st'" using example_snapshot_restored by blast
  from restored_connection_stale [OF r s(2), of example_link ?e] f example_has_env l s p r show ?thesis by simp
qed

end
