(* ===== verification/Capacity.thy ===== *)
theory Capacity
  imports Scheduler Json_Value
begin

text \<open>
  The memory of the runtimes. \<open>runtime/appliance_capacity.rs\<close>: the capacity the shared container
  appliance is asked for, and its growth while it runs by memory devices that the machine monitor
  attaches; \<open>runtime/vm_memory.rs\<close>: the memory a virtual machine is started with and the check before.
  What the monitor, the guest agent and the host answer is the record \<open>monitor\<close>. The wait for memory
  to come online asks every 250 milliseconds for 30 seconds, so 121 questions are enough, which
  \<open>await_online_returns\<close> shows.
\<close>

section \<open>Capacity of the shared container runtime\<close>

record ApplianceCapacity =
  cap_cpus :: nat
  cap_memory_mib :: nat

definition default_capacity :: "nat \<Rightarrow> ApplianceCapacity" where
  "default_capacity parallelism = \<lparr>cap_cpus = min parallelism 2, cap_memory_mib = 1024\<rparr>"

definition for_workloads :: "f64 \<Rightarrow> f64 \<Rightarrow> (ApplianceCapacity, string) result" where
  "for_workloads cpu memory_gb =
     (if \<not> is_finite cpu \<or> \<not> is_finite memory_gb \<or> f_le cpu (Fin 0) \<or> f_le memory_gb (Fin 0)
         \<or> f_lt (Fin 255) cpu \<or> f_lt (Fin 1024) memory_gb
      then Err ''Invalid shared container runtime capacity''
      else Ok \<lparr>cap_cpus = f_to_u64 (f_ceil cpu),
        cap_memory_mib =
          max (f_to_u64 (f_ceil (f_mul (f_add memory_gb APPLIANCE_OVERHEAD_GB) (Fin 8))) * 128) 1024\<rparr>)"

definition contains_capacity :: "ApplianceCapacity \<Rightarrow> ApplianceCapacity \<Rightarrow> bool" where
  "contains_capacity c requested \<longleftrightarrow>
     cap_cpus requested \<le> cap_cpus c \<and> cap_memory_mib requested \<le> cap_memory_mib c"

section \<open>Growing a running appliance\<close>

text \<open>Arithmetic of \<open>u64\<close> on naturals below \<open>2 ^ 64\<close>: multiplication and addition wrap.\<close>

definition wrap :: "nat \<Rightarrow> nat" where
  "wrap n = n mod 2 ^ 64"

definition div_ceil :: "nat \<Rightarrow> nat \<Rightarrow> nat" where
  "div_ceil a b = (if a mod b = 0 then a div b else a div b + 1)"

definition growth_chunk :: "nat \<Rightarrow> nat \<Rightarrow> nat" where
  "growth_chunk base maximum = wrap (max (div_ceil (maximum - base) (64 * 128)) 1 * 128)"

definition memory_growth_target :: "nat \<Rightarrow> nat \<Rightarrow> nat \<Rightarrow> nat \<Rightarrow> nat" where
  "memory_growth_target base current requested maximum =
     (let chunk = growth_chunk base maximum
      in min (wrap (current + wrap (div_ceil (requested - current) chunk * chunk))) maximum)"

fun dimm_ranges :: "json list \<Rightarrow> nat \<Rightarrow> (nat \<times> json list, string) result" where
  "dimm_ranges [] sum_bytes = Ok (sum_bytes, [])"
| "dimm_ranges (device # devices) sum_bytes =
     (if json_get device ''type'' \<noteq> JStr ''dimm'' then Err ''Unexpected runtime memory device''
      else
        (case as_u64 (json_get (json_get device ''data'') ''addr'') of
           None \<Rightarrow> Err ''Missing runtime DIMM address''
         | Some start \<Rightarrow>
             (case as_u64 (json_get (json_get device ''data'') ''size'') of
                None \<Rightarrow> Err ''Missing runtime DIMM size''
              | Some sz \<Rightarrow>
                  if sz = 0 then Err ''Missing runtime DIMM size''
                  else if 2 ^ 64 \<le> unat start + unat sz then Err ''Invalid runtime DIMM address range''
                  else if 2 ^ 64 \<le> sum_bytes + unat sz then Err ''Invalid runtime DIMM total''
                  else result_bind (dimm_ranges devices (sum_bytes + unat sz)) (\<lambda>(t, ranges).
                    Ok (t, json_obj [(''start'', json_int start), (''size'', json_int sz)] # ranges)))))"

definition hotplug_memory_ranges :: "json \<Rightarrow> nat \<Rightarrow> (json, string) result" where
  "hotplug_memory_ranges devices expected_bytes =
     (case as_array devices of
        None \<Rightarrow> Err ''Invalid runtime memory device list''
      | Some ds \<Rightarrow>
          result_bind (dimm_ranges ds 0) (\<lambda>(sum_bytes, ranges).
            if sum_bytes \<noteq> expected_bytes
            then Err ''Runtime RAM devices do not match the attached capacity; retry shortly.''
            else Ok (JArr ranges)))"

record appliance_process =
  ap_capacity :: ApplianceCapacity
  ap_max_memory_mib :: nat

text \<open>The parts of \<open>RuntimeManager\<close> that hold the appliance and the capacity it is booted with.\<close>

record pool =
  pl_appliance :: "appliance_process option"
  pl_capacity :: ApplianceCapacity
  pl_poisoned :: bool

datatype qmp_call = ObjectAdd string nat | DeviceAdd string | ObjectDel string

text \<open>
  What the machine monitor, the guest agent and the host answer while a command runs: the agent's
  first answer (to the empty list of ranges), the answers of the monitor, the free memory in bytes,
  the agent's later answers with the milliseconds since the wait began, and a fresh identifier.
\<close>

record monitor =
  mon_check :: "(json, string) result"
  mon_summary :: "(json, string) result"
  mon_available :: nat
  mon_id :: string
  mon_object_add :: "(unit, string) result"
  mon_device_add :: "(unit, string) result"
  mon_devices :: "(json, string) result"
  mon_online :: "nat \<Rightarrow> (json, string) result"
  mon_clock :: "nat \<Rightarrow> nat"

text \<open>The wait for the memory to come online, 250 milliseconds between two questions.\<close>

primrec await_online :: "monitor \<Rightarrow> nat \<Rightarrow> nat \<Rightarrow> (unit, string) result option" where
  "await_online mon 0 n = None"
| "await_online mon (Suc fuel) n =
     (case mon_online mon n of
        Err e \<Rightarrow> Some (Err e)
      | Ok v \<Rightarrow>
          if as_bool (json_get v ''memoryRangesOnline'') = Some True then Some (Ok ())
          else if 30000 \<le> mon_clock mon n
          then Some (Err ''The runtime is still bringing additional RAM online. Retry in a moment; no environments were restarted.'')
          else await_online mon fuel (Suc n))"

text \<open>\<open>format!("{:.3}", mib as f64 / 1024.0)\<close>\<close>

definition gb_text :: "nat \<Rightarrow> string" where
  "gb_text mib = format_fixed 3 (f_div (f_of_nat mib) (Fin 1024))"

definition attach_dimm :: "monitor \<Rightarrow> nat \<Rightarrow> (unit, string) result \<times> qmp_call list" where
  "attach_dimm mon added =
     (if added = 0 then (Ok (), [])
      else if mon_available mon div 1048576 < min (added + 512) (2 ^ 64 - 1)
      then (Err (''Not enough free RAM to add '' @ gb_text added @
             '' GB to the container runtime. Lower the memory allocation or close another workload.''), [])
      else
        (let i = ''yougori-memory-'' @ mon_id mon; add = ObjectAdd i (wrap (added * 1048576))
         in case mon_object_add mon of
              Err e \<Rightarrow> (Err e, [add])
            | Ok _ \<Rightarrow>
                (case mon_device_add mon of
                   Err e \<Rightarrow> (Err (''Could not add runtime RAM while containers were running: '' @ e),
                             [add, DeviceAdd i, ObjectDel i])
                 | Ok _ \<Rightarrow> (Ok (), [add, DeviceAdd i]))))"

definition base_and_reserved :: "json \<Rightarrow> (nat \<times> nat, string) result" where
  "base_and_reserved summary =
     (case as_u64 (json_get summary ''base-memory'') of
        None \<Rightarrow> Err ''Runtime base RAM size is missing''
      | Some b \<Rightarrow>
          Ok (unat b div 1048576,
              unat b div 1048576
              + (case as_u64 (json_get summary ''plugged-memory'') of None \<Rightarrow> 0 | Some p \<Rightarrow> unat p) div 1048576))"

definition grow_live_appliance :: "monitor \<Rightarrow> ApplianceCapacity \<Rightarrow> appliance_process \<Rightarrow> pool
    \<Rightarrow> ((unit, string) result \<times> qmp_call list \<times> pool) option" where
  "grow_live_appliance mon requested process pl =
     (if cap_cpus (ap_capacity process) < cap_cpus requested \<or> ap_max_memory_mib process < cap_memory_mib requested
      then Some (Err ''The requested CPU or RAM allocation exceeds this computer's container capacity. Lower that allocation.'', [], pl)
      else
        (case mon_check mon of Err e \<Rightarrow> Some (Err e, [], pl) | Ok check \<Rightarrow>
         if as_bool (json_get check ''memoryRangesOnline'') = None
         then Some (Err ''The container runtime needs its updated memory helper. Close Yougori normally and reopen the updated app, then retry. Container files were kept.'', [], pl)
         else
        (case result_bind (mon_summary mon) base_and_reserved of Err e \<Rightarrow> Some (Err e, [], pl) | Ok (base, reserved) \<Rightarrow>
         (let target = memory_growth_target base reserved (cap_memory_mib requested) (ap_max_memory_mib process)
          in
        (case attach_dimm mon (target - reserved) of (Err e, calls) \<Rightarrow> Some (Err e, calls, pl) | (Ok _, calls) \<Rightarrow>
        (case result_bind (mon_devices mon) (\<lambda>ds. hotplug_memory_ranges ds (wrap ((target - base) * 1048576))) of
           Err e \<Rightarrow> Some (Err e, calls, pl)
         | Ok _ \<Rightarrow>
        (case await_online mon 121 0 of
           None \<Rightarrow> None
         | Some (Err e) \<Rightarrow> Some (Err e, calls, pl)
         | Some (Ok _) \<Rightarrow>
             (let capacity = (ap_capacity process)\<lparr>cap_memory_mib := target\<rparr>;
                  pl = pl\<lparr>pl_appliance := Some (process\<lparr>ap_capacity := capacity\<rparr>)\<rparr>
              in if pl_poisoned pl then Some (Err ''Container capacity lock poisoned'', calls, pl)
                 else Some (Ok (), calls, pl\<lparr>pl_capacity := capacity\<rparr>)))))))))"

text \<open>
  \<open>exited\<close> is the answer of \<open>try_wait\<close> (whether the process has ended), \<open>boot\<close> is
  \<open>appliance_endpoint\<close>, which starts an appliance with the recorded capacity.
\<close>

definition ensure_container_capacity :: "monitor \<Rightarrow> (bool, string) result \<Rightarrow> nat \<Rightarrow> (pool \<Rightarrow> (unit, string) result \<times> pool)
    \<Rightarrow> f64 \<Rightarrow> f64 \<Rightarrow> pool \<Rightarrow> ((unit, string) result \<times> qmp_call list \<times> pool) option" where
  "ensure_container_capacity mon exited host_cpus boot cpu memory_gb pl =
     (case for_workloads cpu memory_gb of
        Err e \<Rightarrow> Some (Err e, [], pl)
      | Ok requested \<Rightarrow>
          (case (pl_appliance pl, exited) of
             (Some _, Err e) \<Rightarrow> Some (Err e, [], pl)
           | (Some process, Ok False) \<Rightarrow>
               if contains_capacity (ap_capacity process) requested then Some (Ok (), [], pl)
               else grow_live_appliance mon requested process pl
           | _ \<Rightarrow>
               (let pl = pl\<lparr>pl_appliance := None\<rparr>
                in if host_cpus < cap_cpus requested
                   then Some (Err (''The container runtime needs '' @ show_nat (cap_cpus requested) @
                          '' CPUs, but this computer has '' @ show_nat host_cpus), [], pl)
                   else if mon_available mon div 1048576 < cap_memory_mib requested + 512
                   then Some (Err (''Not enough free host RAM to reserve '' @ gb_text (cap_memory_mib requested) @
                          '' GB for the container runtime. Lower the resource maximum or close other workloads, then retry.''), [], pl)
                   else if pl_poisoned pl then Some (Err ''Container capacity lock poisoned'', [], pl)
                   else (case boot (pl\<lparr>pl_capacity := requested\<rparr>) of (r, pl) \<Rightarrow> Some (r, [], pl)))))"

section \<open>The capacity covers the workloads\<close>

lemma ilog2_times8:
  assumes "0 < x"
  shows "ilog2 (8 * x) = ilog2 x + 3"
proof (rule ilog2_unique)
  have p: "(2::rat) powi (ilog2 x + 3) = 8 * 2 powi ilog2 x" "(2::rat) powi (ilog2 x + 3 + 1) = 8 * 2 powi (ilog2 x + 1)"
    by (simp_all add: power_int_add)
  show "2 powi (ilog2 x + 3) \<le> 8 * x" "8 * x < 2 powi (ilog2 x + 3 + 1)"
    unfolding p using ilog2_bounds [OF assms] by simp_all
qed

lemma rnd_value_times8:
  assumes "rnd_value x = x" and "2 powi (- 1022) \<le> x"
  shows "rnd_value (8 * x) = 8 * x"
proof -
  have x: "0 < x" using assms(2) by (rule less_le_trans [rotated]) simp
  have "(2::rat) powi (- 1022) < 2 powi (ilog2 x + 1)" using assms(2) ilog2_bounds [OF x] by (blast intro: le_less_trans)
  then have e: "- 1022 \<le> ilog2 x" by (simp only: powi_less_iff)
  have u: "ulp (8 * x) = 8 * ulp x"
    using x e by (simp add: ulp_def ilog2_times8 power_int_add [symmetric] max_def)
      (simp add: power_int_diff power_int_add)
  have "x = of_int (round_half_even (x / ulp x)) * ulp x" using assms(1) x by (simp add: rnd_value_def)
  then have "x / ulp x = of_int (round_half_even (x / ulp x))" using ulp_pos [of x] by (simp add: field_simps)
  then have "(8 * x) / ulp (8 * x) = of_int (round_half_even (x / ulp x))" by (simp add: u)
  then show ?thesis by (rule rnd_value_integral)
qed

lemma overhead_Fin: "APPLIANCE_OVERHEAD_GB = Fin (3 / 8)"
  using rnd_dyadic [of "3 / 8" 3 3] by (simp add: APPLIANCE_OVERHEAD_GB_def)

lemma for_workloads_Ok:
  assumes "for_workloads cpu memory_gb = Ok cap"
  obtains c m where "cpu = Fin c" "memory_gb = Fin m" "0 < c" "c \<le> 255" "0 < m" "m \<le> 1024"
    "cap_cpus cap = f_to_u64 (f_ceil (Fin c))"
    "cap_memory_mib cap = max (f_to_u64 (f_ceil (f_mul (rnd (m + 3 / 8)) (Fin 8))) * 128) 1024"
  using assms by (cases cpu; cases memory_gb)
    (auto simp: for_workloads_def overhead_Fin f_le_def not_less split: if_splits)

lemma pool_memory:
  assumes "0 < m" and "m \<le> 1024"
  obtains y where "rnd (m + 3 / 8) = Fin y" "f_mul (Fin y) (Fin 8) = Fin (8 * y)" "3 / 8 \<le> y" "y \<le> 8195 / 8"
    "representable (Fin m) \<Longrightarrow> m \<le> y"
proof -
  define y where "y = rnd_value (m + 3 / 8)"
  have lo: "rnd_value (3 / 8) = 3 / 8" by (rule rnd_value_dyadic [of _ 3 3]) simp_all
  have hi: "rnd_value (8195 / 8) = 8195 / 8" by (rule rnd_value_dyadic [of _ 3 8195]) simp_all
  have y: "3 / 8 \<le> y" "y \<le> 8195 / 8"
    using rnd_value_mono [of "3 / 8" "m + 3 / 8"] rnd_value_mono [of "m + 3 / 8" "8195 / 8"] assms
    by (simp_all add: y_def lo hi)
  have big: "y < 2 ^ 1024" "- (2 ^ 1024) < y" "8 * y < 2 ^ 1024" "- (2 ^ 1024) < 8 * y"
  proof -
    have "(8 * (8195 / 8) :: rat) < 2 ^ 1024" by simp
    then show "y < 2 ^ 1024" "8 * y < 2 ^ 1024" using y by linarith+
    have "- (2 ^ 1024 :: rat) < 0" by simp
    then show "- (2 ^ 1024) < y" "- (2 ^ 1024) < 8 * y" using y by linarith+
  qed
  have "(2::rat) powi (- 1022) \<le> 2 powi (- 2)" by (intro power_int_increasing) simp_all
  then have small: "2 powi (- 1022) \<le> y" using y(1) by (simp add: power_int_minus)
  have e: "rnd_value (8 * y) = 8 * y"
    by (rule rnd_value_times8) (use small in \<open>simp_all add: y_def rnd_value_idem\<close>)
  show thesis
  proof (rule that [of y])
    show "rnd (m + 3 / 8) = Fin y" using big by (simp add: rnd_def y_def Let_def)
    show "f_mul (Fin y) (Fin 8) = Fin (8 * y)" using big e by (simp add: rnd_def Let_def mult.commute)
    show "representable (Fin m) \<Longrightarrow> m \<le> y"
      using rnd_value_mono [of m "m + 3 / 8"] by (simp add: representable_def rnd_def Let_def y_def split: if_splits)
  qed (use y in simp_all)
qed

lemma f_to_u64_ceil:
  assumes "0 \<le> x" and "x \<le> 10000"
  shows "int (f_to_u64 (f_ceil (Fin x))) = \<lceil>x\<rceil>"
proof -
  have "0 \<le> \<lceil>x\<rceil>" "\<lceil>x\<rceil> \<le> 10000" using assms by (simp_all add: ceiling_le_iff)
  then have "nat \<lceil>x\<rceil> \<le> 10000" by linarith
  then have "min (nat \<lceil>x\<rceil>) (2 ^ 64 - 1) = nat \<lceil>x\<rceil>" by (intro min_absorb1) (erule order_trans, simp)
  with \<open>0 \<le> \<lceil>x\<rceil>\<close> show ?thesis by simp
qed

text \<open>
  The appliance is given whole processors that cover the request, memory in steps of 128 MiB that
  covers the workloads' own, and no more than 255 processors and 1024.375 GiB.
\<close>

theorem for_workloads_covers:
  assumes "for_workloads (Fin c) (Fin m) = Ok cap" and "representable (Fin m)"
  shows "c \<le> of_nat (cap_cpus cap) \<and> 0 < cap_cpus cap \<and> cap_cpus cap \<le> 255
    \<and> 1024 * m \<le> of_nat (cap_memory_mib cap) \<and> 128 dvd cap_memory_mib cap
    \<and> 1024 \<le> cap_memory_mib cap \<and> cap_memory_mib cap \<le> 1048960"
proof -
  obtain c: "0 < c" "c \<le> 255" and m: "0 < m" "m \<le> 1024"
    and k: "cap_cpus cap = f_to_u64 (f_ceil (Fin c))"
      "cap_memory_mib cap = max (f_to_u64 (f_ceil (f_mul (rnd (m + 3 / 8)) (Fin 8))) * 128) 1024"
    using for_workloads_Ok [OF assms(1)] by blast
  obtain y where y: "rnd (m + 3 / 8) = Fin y" "f_mul (Fin y) (Fin 8) = Fin (8 * y)" "3 / 8 \<le> y" "y \<le> 8195 / 8" "m \<le> y"
    using pool_memory [OF m] assms(2) by blast
  have cpus: "int (cap_cpus cap) = \<lceil>c\<rceil>" using k(1) f_to_u64_ceil [of c] c by simp
  define q where "q = f_to_u64 (f_ceil (Fin (8 * y)))"
  have q: "int q = \<lceil>8 * y\<rceil>" unfolding q_def using y by (intro f_to_u64_ceil) simp_all
  have mem: "cap_memory_mib cap = max (q * 128) 1024" using k(2) y by (simp add: q_def)
  have "rat_of_int (int (cap_cpus cap)) \<ge> c" unfolding cpus by simp
  moreover have "0 < int (cap_cpus cap)" "int (cap_cpus cap) \<le> 255" unfolding cpus using c by (simp_all add: ceiling_le_iff)
  moreover have "int q \<le> 8195" unfolding q using y(4) by (simp add: ceiling_le_iff)
  moreover have "8 * m \<le> rat_of_int (int q)" unfolding q using y(5) by (meson le_of_int_ceiling mult_left_mono order_trans zero_le_numeral)
  moreover have "128 dvd max (q * 128) 1024" by (simp add: max_def)
  ultimately show ?thesis by (simp add: mem)
qed

theorem for_workloads_mono:
  assumes "for_workloads (Fin c) (Fin m) = Ok small" and "for_workloads (Fin c') (Fin m') = Ok large"
    and "c \<le> c'" and "m \<le> m'"
  shows "contains_capacity large small"
proof -
  obtain c: "0 < c" "c \<le> 255" and m: "0 < m" "m \<le> 1024"
    and k: "cap_cpus small = f_to_u64 (f_ceil (Fin c))"
      "cap_memory_mib small = max (f_to_u64 (f_ceil (f_mul (rnd (m + 3 / 8)) (Fin 8))) * 128) 1024"
    using for_workloads_Ok [OF assms(1)] by blast
  obtain c': "0 < c'" "c' \<le> 255" and m': "0 < m'" "m' \<le> 1024"
    and k': "cap_cpus large = f_to_u64 (f_ceil (Fin c'))"
      "cap_memory_mib large = max (f_to_u64 (f_ceil (f_mul (rnd (m' + 3 / 8)) (Fin 8))) * 128) 1024"
    using for_workloads_Ok [OF assms(2)] by blast
  obtain y where y: "rnd (m + 3 / 8) = Fin y" "f_mul (Fin y) (Fin 8) = Fin (8 * y)" "3 / 8 \<le> y" "y \<le> 8195 / 8"
    using pool_memory [OF m] by blast
  obtain y' where y': "rnd (m' + 3 / 8) = Fin y'" "f_mul (Fin y') (Fin 8) = Fin (8 * y')" "3 / 8 \<le> y'" "y' \<le> 8195 / 8"
    using pool_memory [OF m'] by blast
  have "y \<le> y'" using rnd_mono [of "m + 3 / 8" "m' + 3 / 8"] assms(4) y y' by simp
  then have "\<lceil>8 * y\<rceil> \<le> \<lceil>8 * y'\<rceil>" by (intro ceiling_mono) simp
  then have "int (f_to_u64 (f_ceil (Fin (8 * y)))) \<le> int (f_to_u64 (f_ceil (Fin (8 * y'))))"
    using y y' by (subst (1 2) f_to_u64_ceil) simp_all
  then have "f_to_u64 (f_ceil (Fin (8 * y))) * 128 \<le> f_to_u64 (f_ceil (Fin (8 * y'))) * 128" by (simp only: of_nat_le_iff mult_le_mono1)
  then have "cap_memory_mib small \<le> cap_memory_mib large" unfolding k(2) k'(2) y y' by (rule max.mono) simp
  moreover have "\<lceil>c\<rceil> \<le> \<lceil>c'\<rceil>" using assms(3) by (rule ceiling_mono)
  then have "int (cap_cpus small) \<le> int (cap_cpus large)"
    unfolding k k' using c c' by (subst (1 2) f_to_u64_ceil) simp_all
  ultimately show ?thesis by (simp add: contains_capacity_def)
qed

section \<open>Growth arithmetic\<close>

lemma div_ceil_bounds:
  assumes "0 < b"
  shows "a \<le> div_ceil a b * b \<and> div_ceil a b * b < a + b"
proof -
  define q m where "q = a div b * b" and "m = a mod b"
  have "a = q + m" "m < b" using assms by (simp_all add: q_def m_def)
  moreover have "div_ceil a b * b = (if m = 0 then q else q + b)" by (simp add: div_ceil_def q_def m_def)
  ultimately show ?thesis by (auto split: if_splits)
qed

lemma wrap_id: "n < 2 ^ 64 \<Longrightarrow> wrap n = n"
  by (simp add: wrap_def)

lemma growth_chunk_bounds:
  assumes "maximum < 2 ^ 44"
  shows "128 \<le> growth_chunk base maximum" "growth_chunk base maximum \<le> 2 ^ 44"
    "maximum - base \<le> 64 * growth_chunk base maximum"
proof -
  define q where "q = div_ceil (maximum - base) 8192"
  have q: "maximum - base \<le> q * 8192" "q * 8192 < maximum - base + 8192"
    unfolding q_def using div_ceil_bounds [of 8192 "maximum - base"] by simp_all
  then have "q * 128 \<le> 2 ^ 44" using assms by simp
  then have "max q 1 * 128 \<le> 2 ^ 44" by (simp add: max_def)
  then have c: "growth_chunk base maximum = max q 1 * 128"
    by (simp add: growth_chunk_def wrap_id q_def)
  with \<open>max q 1 * 128 \<le> 2 ^ 44\<close> show "growth_chunk base maximum \<le> 2 ^ 44" by simp
  show "128 \<le> growth_chunk base maximum" "maximum - base \<le> 64 * growth_chunk base maximum"
    using q(1) unfolding c by (simp_all add: max_def)
qed

lemma growth_target_bounds:
  assumes "maximum < 2 ^ 44" and "requested \<le> maximum" and "current \<le> maximum"
    and "target = memory_growth_target base current requested maximum"
  shows "requested \<le> target" "current \<le> target" "target \<le> maximum"
    "target = current \<or> target = maximum \<or> current + growth_chunk base maximum \<le> target"
proof -
  define chunk where "chunk = growth_chunk base maximum"
  define k where "k = div_ceil (requested - current) chunk"
  have ch: "128 \<le> chunk" "chunk \<le> 2 ^ 44" unfolding chunk_def using growth_chunk_bounds [OF assms(1)] by blast+
  have k: "requested - current \<le> k * chunk" "k * chunk < requested - current + chunk"
    unfolding k_def using ch(1) div_ceil_bounds [of chunk "requested - current"] by auto
  have "current + k * chunk < 2 ^ 64" using k(2) ch(2) assms(1-3) by simp
  then have t: "target = min (current + k * chunk) maximum"
    unfolding assms(4) memory_growth_target_def Let_def chunk_def [symmetric] k_def [symmetric] by (simp add: wrap_id)
  show "requested \<le> target" "current \<le> target" "target \<le> maximum" using k(1) assms(2,3) unfolding t by auto
  show "target = current \<or> target = maximum \<or> current + growth_chunk base maximum \<le> target"
    using t unfolding chunk_def [symmetric] by (cases k) (auto simp: min_def)
qed

section \<open>Waiting for the memory\<close>

lemma await_online_returns:
  assumes "\<And>k. mon_clock mon k + 250 \<le> mon_clock mon (Suc k)" and "30000 \<le> mon_clock mon n + 250 * (fuel - 1)" and "0 < fuel"
  shows "await_online mon fuel n \<noteq> None"
  using assms(2,3)
proof (induction fuel arbitrary: n)
  case (Suc fuel)
  show ?case
  proof (cases "fuel = 0")
    case True
    with Suc.prems show ?thesis by (auto split: result.split)
  next
    case False
    with Suc.prems assms(1) [of n] have "30000 \<le> mon_clock mon (Suc n) + 250 * (fuel - 1)" by (cases fuel) simp_all
    with False show ?thesis using Suc.IH [of "Suc n"] by (auto split: result.split)
  qed
qed simp

lemma await_online_Ok: "await_online mon fuel n = Some (Ok ()) \<Longrightarrow>
    \<exists>k v. mon_online mon k = Ok v \<and> json_get v ''memoryRangesOnline'' = JBool True"
  by (induction fuel arbitrary: n) (auto split: result.splits if_splits)

section \<open>A growth step\<close>

lemma attach_dimm_cases:
  assumes "attach_dimm mon added = (r, calls)"
  obtains "calls = []" "added = 0 \<or> r \<noteq> Ok ()"
  | "calls = [ObjectAdd (''yougori-memory-'' @ mon_id mon) (wrap (added * 1048576))]" "r \<noteq> Ok ()" "added \<noteq> 0"
  | "calls = [ObjectAdd (''yougori-memory-'' @ mon_id mon) (wrap (added * 1048576)), DeviceAdd (''yougori-memory-'' @ mon_id mon),
        ObjectDel (''yougori-memory-'' @ mon_id mon)]" "r \<noteq> Ok ()" "added \<noteq> 0"
  | "calls = [ObjectAdd (''yougori-memory-'' @ mon_id mon) (wrap (added * 1048576)), DeviceAdd (''yougori-memory-'' @ mon_id mon)]"
      "r = Ok ()" "added \<noteq> 0"
  using assms unfolding attach_dimm_def Let_def
  by (cases r; cases "mon_object_add mon"; cases "mon_device_add mon") (auto split: if_splits)

text \<open>How a growth ends: refused before or at the monitor, or carried out and recorded.\<close>

lemma grow_cases:
  assumes "grow_live_appliance mon requested process pl = Some (r, calls, pl')"
  obtains (refused) e where "r = Err e" "calls = []" "pl' = pl"
  | (reached) check summary base reserved target r' where
      "cap_cpus requested \<le> cap_cpus (ap_capacity process)" "cap_memory_mib requested \<le> ap_max_memory_mib process"
      "mon_check mon = Ok check" "as_bool (json_get check ''memoryRangesOnline'') \<noteq> None"
      "mon_summary mon = Ok summary" "base_and_reserved summary = Ok (base, reserved)"
      "target = memory_growth_target base reserved (cap_memory_mib requested) (ap_max_memory_mib process)"
      "attach_dimm mon (target - reserved) = (r', calls)"
      "(\<exists>e. r = Err e \<and> pl' = pl)
       \<or> (\<exists>ds ranges. r' = Ok () \<and> mon_devices mon = Ok ds \<and> hotplug_memory_ranges ds (wrap ((target - base) * 1048576)) = Ok ranges
            \<and> await_online mon 121 0 = Some (Ok ())
            \<and> pl_appliance pl' = Some (process\<lparr>ap_capacity := (ap_capacity process)\<lparr>cap_memory_mib := target\<rparr>\<rparr>)
            \<and> pl_poisoned pl' = pl_poisoned pl
            \<and> (r = Ok () \<and> \<not> pl_poisoned pl \<and> pl_capacity pl' = (ap_capacity process)\<lparr>cap_memory_mib := target\<rparr>
               \<or> (\<exists>e. r = Err e) \<and> pl_poisoned pl \<and> pl_capacity pl' = pl_capacity pl))"
proof -
  note d = assms [unfolded grow_live_appliance_def]
  show thesis
  proof (cases "cap_cpus (ap_capacity process) < cap_cpus requested \<or> ap_max_memory_mib process < cap_memory_mib requested")
    case True
    with d show thesis by (intro refused) auto
  next
    case g: False
    show thesis
    proof (cases "\<exists>check. mon_check mon = Ok check \<and> as_bool (json_get check ''memoryRangesOnline'') \<noteq> None")
      case False
      with d g have "\<exists>e. r = Err e \<and> calls = [] \<and> pl' = pl" by (auto split: result.splits if_splits)
      then show thesis using refused by blast
    next
      case True
      then obtain check where ck: "mon_check mon = Ok check" "as_bool (json_get check ''memoryRangesOnline'') \<noteq> None" by blast
      show thesis
      proof (cases "result_bind (mon_summary mon) base_and_reserved")
        case (Err e)
        with d g ck show thesis by (intro refused) auto
      next
        case (Ok br)
        obtain base reserved where br: "br = (base, reserved)" by (cases br)
        with Ok obtain summary where sm: "mon_summary mon = Ok summary" "base_and_reserved summary = Ok (base, reserved)" by auto
        define target where "target = memory_growth_target base reserved (cap_memory_mib requested) (ap_max_memory_mib process)"
        obtain r' calls' where at: "attach_dimm mon (target - reserved) = (r', calls')" by (cases "attach_dimm mon (target - reserved)")
        note e = d [simplified g ck(1) if_False result.case Ok br prod.case Let_def target_def [symmetric] at]
        show thesis
        proof (rule reached [OF _ _ ck sm target_def])
          show "cap_cpus requested \<le> cap_cpus (ap_capacity process)" "cap_memory_mib requested \<le> ap_max_memory_mib process"
            using g by auto
          from e ck(2) have "calls' = calls" by (auto simp: at split: result.splits option.splits if_splits)
          with at show "attach_dimm mon (target - reserved) = (r', calls)" by simp
        qed (use e ck(2) in \<open>auto simp: at split: result.splits option.splits if_splits\<close>)
      qed
    qed
  qed
qed

section \<open>The slots of the machine\<close>

text \<open>
  The machine monitor is started with 64 slots for memory devices. A machine has its base memory
  and the attached devices (in MiB); its summary reports both; \<open>device_add\<close> attaches a device of the
  size of its backend, and one whose answer is an error may have been attached or not.
\<close>

record machine =
  ma_base :: nat
  ma_max :: nat
  ma_dimms :: "nat list"

definition reserved_mib :: "machine \<Rightarrow> nat" where
  "reserved_mib m = ma_base m + sum_list (ma_dimms m)"

definition reports :: "machine \<Rightarrow> monitor \<Rightarrow> bool" where
  "reports m mon \<longleftrightarrow> (case mon_summary mon of Err _ \<Rightarrow> True | Ok summary \<Rightarrow>
     base_and_reserved summary = Ok (ma_base m, reserved_mib m))"

fun attached :: "qmp_call list \<Rightarrow> nat list \<Rightarrow> bool" where
  "attached [ObjectAdd i n, DeviceAdd j] ds \<longleftrightarrow> ds = [n div 1048576]"
| "attached [ObjectAdd i n, DeviceAdd j, ObjectDel k] ds \<longleftrightarrow> ds = [] \<or> ds = [n div 1048576]"
| "attached calls ds \<longleftrightarrow> ds = []"

inductive growth_step :: "machine \<Rightarrow> machine \<Rightarrow> bool" where
  grow: "reports m mon \<Longrightarrow> ap_max_memory_mib process = ma_max m
    \<Longrightarrow> grow_live_appliance mon requested process pl = Some (r, calls, pl') \<Longrightarrow> attached calls ds
    \<Longrightarrow> growth_step m (m\<lparr>ma_dimms := ma_dimms m @ ds\<rparr>)"

definition fresh_machine :: "machine \<Rightarrow> bool" where
  "fresh_machine m \<longleftrightarrow> ma_dimms m = [] \<and> ma_base m \<le> ma_max m \<and> ma_max m < 2 ^ 44"

definition slots_ok :: "machine \<Rightarrow> bool" where
  "slots_ok m \<longleftrightarrow> ma_max m < 2 ^ 44 \<and> reserved_mib m \<le> ma_max m
     \<and> (let n = length (ma_dimms m); chunk = growth_chunk (ma_base m) (ma_max m)
        in n * chunk + ma_base m \<le> reserved_mib m
           \<or> reserved_mib m = ma_max m \<and> n \<le> 64)"

lemma growth_attaches:
  assumes "reports m mon" and "ap_max_memory_mib process = ma_max m" and "slots_ok m"
    and "grow_live_appliance mon requested process pl = Some (r, calls, pl')" and "attached calls ds"
  obtains "ds = []" | added where "ds = [added]" "0 < added" "reserved_mib m + added \<le> ma_max m"
      "reserved_mib m + added = ma_max m \<or> growth_chunk (ma_base m) (ma_max m) \<le> added"
  using assms(4)
proof (cases rule: grow_cases)
  case refused
  with assms(5) show thesis by (intro that(1)) simp
next
  case (reached check summary base reserved target r')
  from assms(1) reached have b: "base = ma_base m" "reserved = reserved_mib m" by (auto simp: reports_def)
  have m: "ma_max m < 2 ^ 44" "reserved_mib m \<le> ma_max m" using assms(3) by (auto simp: slots_ok_def)
  note t = growth_target_bounds [OF m(1) _ m(2), of "cap_memory_mib requested" target "ma_base m"]
  have req: "cap_memory_mib requested \<le> ma_max m" using reached(2) assms(2) by simp
  have tgt: "target = memory_growth_target (ma_base m) (reserved_mib m) (cap_memory_mib requested) (ma_max m)"
    using reached b assms(2) by simp
  note t = t [OF req tgt]
  have small: "(target - reserved) * 1048576 < 2 ^ 64" using t(3) m(1) by simp
  have *: "wrap ((target - reserved) * 1048576) div 1048576 = target - reserved" using small by (simp add: wrap_id)
  from reached(8) show thesis
  proof (cases rule: attach_dimm_cases)
    case 1
    with assms(5) show thesis by (intro that(1)) simp
  next
    case 2
    with assms(5) show thesis by (intro that(1)) simp
  next
    case 3
    with assms(5) * have "ds = [] \<or> ds = [target - reserved]" by simp
    then show thesis using that t b \<open>target - reserved \<noteq> 0\<close> by force
  next
    case 4
    with assms(5) * have "ds = [target - reserved]" by simp
    then show thesis using that t b \<open>target - reserved \<noteq> 0\<close> by force
  qed
qed

lemma slots_step:
  assumes "slots_ok m" and "growth_step m m'"
  shows "slots_ok m'"
  using assms(2)
proof cases
  case (grow mon process requested pl r calls pl' ds)
  let ?c = "growth_chunk (ma_base m) (ma_max m)"
  note I = assms(1) [unfolded slots_ok_def Let_def]
  have c: "ma_max m - ma_base m \<le> 64 * ?c" "128 \<le> ?c" using I growth_chunk_bounds by blast+
  from grow(2,3) assms(1) grow(4,5) show ?thesis
  proof (cases rule: growth_attaches)
    case 1
    with assms(1) grow(1) show ?thesis by simp
  next
    case (2 added)
    have n: "length (ma_dimms m) * ?c + ma_base m \<le> reserved_mib m" using I 2 by auto
    have "length (ma_dimms m) < 64" if "reserved_mib m + added = ma_max m"
    proof -
      have "length (ma_dimms m) * ?c < 64 * ?c" using n that 2(2) c(1) by linarith
      then show ?thesis by simp
    qed
    with I 2 n show ?thesis unfolding grow(1) 2(1)
      by (auto simp: slots_ok_def reserved_mib_def)
  qed
qed

interpretation slots: safety fresh_machine growth_step slots_ok
proof
  show "slots_ok m" if "fresh_machine m" for m using that by (simp add: fresh_machine_def slots_ok_def reserved_mib_def)
  show "slots_ok t" if "slots_ok s" "growth_step s t" for s t using that by (rule slots_step)
qed

text \<open>
  Whatever sequence of requests arrives, growing the appliance never needs more than the 64 memory
  slots that its machine has, and never reserves more than the machine's maximum.
\<close>

theorem memory_slots_suffice:
  assumes "reach fresh_machine growth_step m"
  shows "length (ma_dimms m) \<le> 64 \<and> reserved_mib m \<le> ma_max m"
proof -
  have I: "slots_ok m" using assms by (rule slots.inv_reach)
  let ?c = "growth_chunk (ma_base m) (ma_max m)"
  have c: "ma_max m - ma_base m \<le> 64 * ?c" "128 \<le> ?c" using I growth_chunk_bounds by (auto simp: slots_ok_def)
  have "length (ma_dimms m) \<le> 64"
  proof (cases "length (ma_dimms m) * ?c + ma_base m \<le> reserved_mib m")
    case True
    moreover have "reserved_mib m \<le> ma_max m" using I by (simp add: slots_ok_def)
    ultimately have "length (ma_dimms m) * ?c \<le> 64 * ?c" using c(1) by linarith
    then show ?thesis using c(2) by (metis mult_le_cancel2 not_numeral_le_zero gr0I)
  next
    case False
    with I show ?thesis by (auto simp: slots_ok_def Let_def)
  qed
  with I show ?thesis by (auto simp: slots_ok_def)
qed

section \<open>A successful growth covers the request\<close>

lemma grow_returns:
  assumes "\<And>k. mon_clock mon k + 250 \<le> mon_clock mon (Suc k)"
  shows "grow_live_appliance mon requested process pl \<noteq> None"
proof -
  have "await_online mon 121 0 \<noteq> None" using assms by (rule await_online_returns) simp_all
  then show ?thesis
    by (auto simp: grow_live_appliance_def Let_def split: option.splits result.splits prod.splits)
qed

lemma grow_covers:
  assumes "grow_live_appliance mon requested process pl = Some (Ok (), calls, pl')"
    and "reports m mon" and "reserved_mib m \<le> ap_max_memory_mib process" and "ap_max_memory_mib process < 2 ^ 44"
  shows "\<exists>p. pl_appliance pl' = Some p \<and> pl_capacity pl' = ap_capacity p \<and> contains_capacity (ap_capacity p) requested
    \<and> cap_memory_mib (ap_capacity p) \<le> ap_max_memory_mib p \<and> ap_max_memory_mib p = ap_max_memory_mib process"
  using assms(1)
proof (cases rule: grow_cases)
  case (reached check summary base reserved target r')
  have "reserved = reserved_mib m" using assms(2) reached by (auto simp: reports_def)
  then have "cap_memory_mib requested \<le> target" "target \<le> ap_max_memory_mib process"
    using growth_target_bounds [OF assms(4) reached(2) _ reached(7)] assms(3) by blast+
  with reached show ?thesis by (auto simp: contains_capacity_def)
qed simp

lemma grow_error_keeps:
  assumes "grow_live_appliance mon requested process pl = Some (Err e, calls, pl')"
  shows "pl_capacity pl' = pl_capacity pl"
  using assms by (cases rule: grow_cases) auto

text \<open>
  When the appliance runs, the command always returns; if it reports success the running appliance
  has the capacity that was asked for, within the machine's maximum or unchanged, and if it reports
  an error the recorded capacity is the old one.
\<close>

theorem running_capacity_ensured:
  assumes "\<And>k. mon_clock mon k + 250 \<le> mon_clock mon (Suc k)"
    and "reports m mon" and "reserved_mib m \<le> ap_max_memory_mib process" and "ap_max_memory_mib process < 2 ^ 44"
    and "pl_appliance pl = Some process"
  shows "\<exists>r calls pl'. ensure_container_capacity mon (Ok False) host_cpus boot cpu memory_gb pl = Some (r, calls, pl')
    \<and> (case r of
         Ok _ \<Rightarrow> (\<exists>requested p. for_workloads cpu memory_gb = Ok requested \<and> pl_appliance pl' = Some p
             \<and> contains_capacity (ap_capacity p) requested
             \<and> (p = process \<or> cap_memory_mib (ap_capacity p) \<le> ap_max_memory_mib process))
       | Err _ \<Rightarrow> pl_capacity pl' = pl_capacity pl)"
proof (cases "for_workloads cpu memory_gb")
  case (Err e)
  then show ?thesis by (simp add: ensure_container_capacity_def)
next
  case (Ok requested)
  show ?thesis
  proof (cases "contains_capacity (ap_capacity process) requested")
    case True
    with Ok assms(5) show ?thesis by (simp add: ensure_container_capacity_def)
  next
    case False
    obtain r calls pl' where g: "grow_live_appliance mon requested process pl = Some (r, calls, pl')"
      using grow_returns [OF assms(1)] by (metis not_Some_eq prod_cases3)
    have "ensure_container_capacity mon (Ok False) host_cpus boot cpu memory_gb pl = Some (r, calls, pl')"
      using Ok assms(5) False g by (simp add: ensure_container_capacity_def)
    moreover have "case r of Ok _ \<Rightarrow> (\<exists>p. pl_appliance pl' = Some p \<and> contains_capacity (ap_capacity p) requested
         \<and> cap_memory_mib (ap_capacity p) \<le> ap_max_memory_mib process)
       | Err _ \<Rightarrow> pl_capacity pl' = pl_capacity pl"
      using grow_covers [OF _ assms(2-4)] grow_error_keeps g by (cases r) force+
    ultimately show ?thesis using Ok by (cases r) auto
  qed
qed

section \<open>Memory of a virtual machine\<close>

definition STARTUP_HEADROOM :: nat where
  "STARTUP_HEADROOM = 256 * 1024 * 1024"

definition startup_bytes :: "f64 \<Rightarrow> bool \<Rightarrow> nat option" where
  "startup_bytes memory_gb full_vm =
     (let minimum_mib = (if full_vm then Fin 256 else Fin 128)
      in map_option (\<lambda>mib. f_to_u64 mib * 1024 * 1024)
           (f_clamp (f_round (f_mul memory_gb (Fin 1024))) minimum_mib (Fin 1048576)))"

definition setting_hint :: "bool \<Rightarrow> string" where
  "setting_hint full_vm =
     (if full_vm
      then ''This VM reserves its maximum RAM at startup, even with dynamic allocation. Choose Adjust memory to lower its maximum RAM, or use Stop on another VM to release memory. Stop can recover a leftover VM even if its node says Stopped. Then retry Start.''
      else ''This microVM starts with its preferred RAM. Lower its preferred RAM, close other apps, or shut down another environment, then retry.'')"

definition gib_text :: "nat \<Rightarrow> string" where
  "gib_text n = format_fixed 2 (f_div (f_of_nat n) (Fin 1073741824))"

definition check_available :: "nat \<Rightarrow> nat option \<Rightarrow> bool \<Rightarrow> (unit, string) result" where
  "check_available required available full_vm =
     (case available of
        None \<Rightarrow> Ok ()
      | Some a \<Rightarrow>
          if a < min (required + STARTUP_HEADROOM) (2 ^ 64 - 1)
          then Err (''Not enough memory to start this environment. It needs '' @ gib_text required
            @ '' GB of RAM plus 0.25 GB of startup headroom, but Windows can currently allocate only '' @ gib_text a
            @ '' GB. '' @ setting_hint full_vm)
          else Ok ())"

definition allocation_failure :: "string \<Rightarrow> nat \<Rightarrow> nat option \<Rightarrow> bool \<Rightarrow> string option" where
  "allocation_failure err required available full_vm =
     (if \<not> str_contains (''cannot set up guest memory '' @ [CHR 0x27] @ ''pc.ram'' @ [CHR 0x27]) (map to_ascii_lowercase err) then None
      else
        (let explanation =
           (case check_available required available full_vm of
              Err e \<Rightarrow> e
            | Ok _ \<Rightarrow> ''Could not allocate '' @ gib_text required
                @ '' GB of RAM for this environment. Available memory may have changed during startup, or the runtime rejected the allocation. ''
                @ setting_hint full_vm)
         in Some (explanation @ '' Technical details: '' @ err)))"

text \<open>
  A virtual machine starts with a whole number of MiB between its minimum and one TiB, whatever the
  policy holds, and the preflight lets it start exactly when a quarter GiB remains.
\<close>

theorem startup_memory_checked:
  assumes "startup_bytes memory_gb full_vm = Some required" and "memory_gb \<noteq> NaN"
  shows "(if full_vm then 2 ^ 28 else 2 ^ 27) \<le> required \<and> required \<le> 2 ^ 40 \<and> 2 ^ 20 dvd required
    \<and> (check_available required available full_vm = Ok ()
       \<longleftrightarrow> (case available of None \<Rightarrow> True | Some a \<Rightarrow> required + 2 ^ 28 \<le> a))"
proof -
  define lo :: rat where "lo = (if full_vm then 256 else 128)"
  obtain mib where y: "f_clamp (f_round (f_mul memory_gb (Fin 1024))) (Fin lo) (Fin 1048576) = Some mib"
    "required = f_to_u64 mib * 1024 * 1024"
    using assms(1) by (auto simp: startup_bytes_def Let_def lo_def split: if_splits)
  have "f_round (f_mul memory_gb (Fin 1024)) \<noteq> NaN"
    using assms(2) by (cases memory_gb) (auto simp: rnd_def Let_def f_inf_def)
  from f_clamp_finite [OF y(1) this] obtain v where v: "mib = Fin v" "lo \<le> v" "v \<le> 1048576" by blast
  have f: "(if full_vm then 256 else 128) \<le> \<lfloor>v\<rfloor>" "\<lfloor>v\<rfloor> \<le> 1048576"
    using v by (auto simp: lo_def le_floor_iff floor_le_iff split: if_splits)
  define n where "n = nat \<lfloor>v\<rfloor>"
  have i: "int n = \<lfloor>v\<rfloor>" using f(1) by (simp add: n_def split: if_splits)
  have n: "(if full_vm then 256 else 128) \<le> n" "n \<le> 1048576"
    using f unfolding i [symmetric] by (cases full_vm, simp_all)
  have "\<not> v < 0" using v(2) by (auto simp: lo_def split: if_splits)
  then have r: "required = n * 1048576" using n y(2) v(1) unfolding n_def by simp
  have "required \<le> 2 ^ 40" using n(2) by (simp add: r)
  then have "min (required + STARTUP_HEADROOM) (2 ^ 64 - 1) = required + 2 ^ 28" by (simp add: STARTUP_HEADROOM_def)
  then have "check_available required available full_vm = Ok ()
       \<longleftrightarrow> (case available of None \<Rightarrow> True | Some a \<Rightarrow> required + 2 ^ 28 \<le> a)"
    by (auto simp: check_available_def not_less split: option.split)
  with n r show ?thesis by (auto split: if_splits)
qed

section \<open>An appliance that grows\<close>

definition example_monitor :: monitor where
  "example_monitor =
     \<lparr>mon_check = Ok (JObj [(''memoryRangesOnline'', JBool True)]),
      mon_summary = Ok (JObj [(''base-memory'', json_int 1073741824), (''plugged-memory'', json_int 0)]),
      mon_available = 8589934592, mon_id = ''1'', mon_object_add = Ok (), mon_device_add = Ok (),
      mon_devices = Ok (JArr [JObj [(''data'', JObj [(''addr'', json_int 4294967296), (''size'', json_int 536870912)]),
        (''type'', JStr ''dimm'')]]),
      mon_online = (\<lambda>_. Ok (JObj [(''memoryRangesOnline'', JBool True)])), mon_clock = (\<lambda>n. 250 * n)\<rparr>"

definition example_process :: appliance_process where
  "example_process = \<lparr>ap_capacity = \<lparr>cap_cpus = 8, cap_memory_mib = 1024\<rparr>, ap_max_memory_mib = 16384\<rparr>"

definition example_pool :: pool where
  "example_pool = \<lparr>pl_appliance = Some example_process, pl_capacity = ap_capacity example_process, pl_poisoned = False\<rparr>"

definition example_machine :: machine where
  "example_machine = \<lparr>ma_base = 1024, ma_max = 16384, ma_dimms = []\<rparr>"

lemma example_requested: "for_workloads (Fin 1) (Fin 1) = Ok \<lparr>cap_cpus = 1, cap_memory_mib = 1408\<rparr>"
proof -
  have "rnd (11 / 8) = Fin (11 / 8)" by (rule rnd_dyadic [of _ 3 11]) simp_all
  moreover have "rnd 11 = Fin 11" by (rule rnd_numeral) simp
  ultimately show ?thesis by (simp add: for_workloads_def overhead_Fin f_le_def)
qed

lemma example_reports: "reports example_machine example_monitor"
  by (simp add: reports_def example_monitor_def example_machine_def base_and_reserved_def reserved_mib_def json_int_def)

lemma example_grow:
  "\<exists>pl'. grow_live_appliance example_monitor \<lparr>cap_cpus = 1, cap_memory_mib = 1408\<rparr> example_process example_pool
     = Some (Ok (), [ObjectAdd ''yougori-memory-1'' 536870912, DeviceAdd ''yougori-memory-1''], pl')"
proof -
  have c: "growth_chunk 1024 16384 = 256" by (simp add: growth_chunk_def div_ceil_def wrap_def)
  have t: "memory_growth_target 1024 1024 1408 16384 = 1536" by (simp add: memory_growth_target_def c div_ceil_def wrap_def)
  have "await_online example_monitor (Suc 120) 0 = Some (Ok ())"
    by (subst await_online.simps) (simp add: example_monitor_def)
  then have a: "await_online example_monitor 121 0 = Some (Ok ())" by simp
  have d: "attach_dimm example_monitor 512 = (Ok (), [ObjectAdd ''yougori-memory-1'' 536870912, DeviceAdd ''yougori-memory-1''])"
    by (simp add: attach_dimm_def example_monitor_def wrap_def Let_def)
  have h: "\<exists>ds ranges. mon_devices example_monitor = Ok ds \<and> hotplug_memory_ranges ds (wrap 536870912) = Ok ranges"
    by (simp add: hotplug_memory_ranges_def example_monitor_def json_int_def wrap_def)
  obtain summary where s: "mon_summary example_monitor = Ok summary" "base_and_reserved summary = Ok (1024, 1024)"
    by (simp add: example_monitor_def base_and_reserved_def json_int_def)
  have k: "mon_check example_monitor = Ok (JObj [(''memoryRangesOnline'', JBool True)])" by (simp add: example_monitor_def)
  from h obtain ds ranges where "mon_devices example_monitor = Ok ds" "hotplug_memory_ranges ds (wrap 536870912) = Ok ranges" by blast
  then show ?thesis
    by (simp add: grow_live_appliance_def k s t d a example_process_def example_pool_def Let_def)
qed

theorem memory_slots_suffice_witness:
  "\<exists>m. ma_dimms m = [512] \<and> reach fresh_machine growth_step m \<and> length (ma_dimms m) \<le> 64 \<and> reserved_mib m \<le> ma_max m"
proof -
  define m where "m = example_machine\<lparr>ma_dimms := ma_dimms example_machine @ [512]\<rparr>"
  obtain pl' where g: "grow_live_appliance example_monitor \<lparr>cap_cpus = 1, cap_memory_mib = 1408\<rparr> example_process example_pool
     = Some (Ok (), [ObjectAdd ''yougori-memory-1'' 536870912, DeviceAdd ''yougori-memory-1''], pl')"
    using example_grow by blast
  have "growth_step example_machine m" unfolding m_def
    by (rule grow [OF example_reports _ g]) (simp_all add: example_process_def example_machine_def)
  moreover have "reach fresh_machine growth_step example_machine"
    by (rule reach_start) (simp add: fresh_machine_def example_machine_def)
  ultimately have r: "reach fresh_machine growth_step m" by (rule_tac reach_move)
  moreover have "ma_dimms m = [512]" by (simp add: m_def example_machine_def)
  ultimately show ?thesis using memory_slots_suffice [OF r] by blast
qed

theorem running_capacity_ensured_witness:
  "\<exists>calls pl' requested p. ensure_container_capacity example_monitor (Ok False) 8 (Pair (Ok ())) (Fin 1) (Fin 1) example_pool
      = Some (Ok (), calls, pl') \<and> for_workloads (Fin 1) (Fin 1) = Ok requested \<and> pl_appliance pl' = Some p
      \<and> contains_capacity (ap_capacity p) requested"
proof -
  obtain pl0 where g: "grow_live_appliance example_monitor \<lparr>cap_cpus = 1, cap_memory_mib = 1408\<rparr> example_process example_pool
     = Some (Ok (), [ObjectAdd ''yougori-memory-1'' 536870912, DeviceAdd ''yougori-memory-1''], pl0)"
    using example_grow by blast
  have e: "ensure_container_capacity example_monitor (Ok False) 8 (Pair (Ok ())) (Fin 1) (Fin 1) example_pool
      = Some (Ok (), [ObjectAdd ''yougori-memory-1'' 536870912, DeviceAdd ''yougori-memory-1''], pl0)"
    using g by (simp add: ensure_container_capacity_def example_requested contains_capacity_def example_pool_def example_process_def)
  have "\<exists>r calls pl'. ensure_container_capacity example_monitor (Ok False) 8 (Pair (Ok ())) (Fin 1) (Fin 1) example_pool = Some (r, calls, pl')
    \<and> (case r of
         Ok _ \<Rightarrow> (\<exists>requested p. for_workloads (Fin 1) (Fin 1) = Ok requested \<and> pl_appliance pl' = Some p
             \<and> contains_capacity (ap_capacity p) requested
             \<and> (p = example_process \<or> cap_memory_mib (ap_capacity p) \<le> ap_max_memory_mib example_process))
       | Err _ \<Rightarrow> pl_capacity pl' = pl_capacity example_pool)"
    by (rule running_capacity_ensured [OF _ example_reports])
      (simp_all add: example_monitor_def example_machine_def example_process_def example_pool_def reserved_mib_def)
  with e show ?thesis by auto
qed

end
