(* ===== verification/Host_Files.thy ===== *)
theory Host_Files
  imports Json_Value
begin

text \<open>
  \<open>host_files.rs\<close>, the folders of the host that guests may use: the check of a client's path
  (\<open>safe_path\<close>) and the file operations (\<open>operation\<close>), over a POSIX tree of directories, files and
  symbolic links whose calls may also fail. A request is one step: changes of the tree by others in
  the middle of a request are not modelled. The interface \<open>folder_service\<close> states what a client of a
  folder relies on; the theorems show that no request, whatever its paths and the links in the
  folder, reads or changes anything outside.
\<close>

section \<open>The host's file system\<close>

type_synonym location = "string list"

datatype host_node = HDir | HFile bytes | HLink bool "string list"

type_synonym tree = "(location \<times> host_node) list"

abbreviation node :: "tree \<Rightarrow> location \<Rightarrow> host_node option" where
  "node fs p \<equiv> map_of fs p"

datatype os_error = ENOENT | ENOTDIR | EISDIR | EEXIST | ENOTEMPTY | ELOOP | EINVAL

text \<open>
  Resolution of a path from a directory, as the system calls do it: \<open>links\<close> is the number of
  symbolic links that may still be followed (40 on Linux), a link is replaced by its target,
  relative to its directory or to the root.
\<close>

function resolve :: "tree \<Rightarrow> nat \<Rightarrow> location \<Rightarrow> string list \<Rightarrow> (location, os_error) result" where
  "resolve fs links cur [] = Ok cur"
| "resolve fs links cur (c # cs) =
     (if c = ''.'' then resolve fs links cur cs
      else if c = ''..'' then resolve fs links (butlast cur) cs
      else (case node fs (cur @ [c]) of
          None \<Rightarrow> Err ENOENT
        | Some HDir \<Rightarrow> resolve fs links (cur @ [c]) cs
        | Some (HFile b) \<Rightarrow> if cs = [] then Ok (cur @ [c]) else Err ENOTDIR
        | Some (HLink absolute target) \<Rightarrow>
            if links = 0 then Err ELOOP
            else resolve fs (links - 1) (if absolute then [] else cur) (target @ cs)))"
  by pat_completeness auto
termination
  by (relation "measures [\<lambda>(fs, links, cur, cs). links, \<lambda>(fs, links, cur, cs). length cs]") auto

definition canonicalize :: "tree \<Rightarrow> string list \<Rightarrow> (location, os_error) result" where
  "canonicalize fs p = resolve fs 40 [] p"

definition path_exists :: "tree \<Rightarrow> string list \<Rightarrow> bool" where
  "path_exists fs p \<longleftrightarrow> is_ok (canonicalize fs p)"

definition children :: "tree \<Rightarrow> location \<Rightarrow> string list" where
  "children fs p = map (last \<circ> fst) (filter (\<lambda>(q, _). q \<noteq> [] \<and> butlast q = p) fs)"

text \<open>
  The calls that change the tree. A location here is canonical but for its last component, which
  \<open>open\<close> with \<open>create_new\<close>, \<open>mkdir\<close>, \<open>unlink\<close> and \<open>rename\<close> do not follow.
\<close>

definition set_node :: "location \<Rightarrow> host_node \<Rightarrow> tree \<Rightarrow> tree" where
  "set_node p n fs = (if node fs p = None then fs @ [(p, n)] else map (\<lambda>(q, m). if q = p then (q, n) else (q, m)) fs)"

definition add_node :: "location \<Rightarrow> host_node \<Rightarrow> tree \<Rightarrow> (tree, os_error) result" where
  "add_node p n fs =
     (if p = [] \<or> node fs p \<noteq> None then Err EEXIST
      else (case node fs (butlast p) of
          Some HDir \<Rightarrow> Ok (set_node p n fs)
        | None \<Rightarrow> Err ENOENT
        | _ \<Rightarrow> Err ENOTDIR))"

definition remove_node :: "location \<Rightarrow> tree \<Rightarrow> (tree, os_error) result" where
  "remove_node p fs =
     (if p = [] then Err EINVAL
      else (case node fs p of
          None \<Rightarrow> Err ENOENT
        | Some n \<Rightarrow> if n = HDir \<and> children fs p \<noteq> [] then Err ENOTEMPTY
                    else Ok (filter (\<lambda>(q, _). q \<noteq> p) fs)))"

definition move :: "location \<Rightarrow> location \<Rightarrow> location \<Rightarrow> location" where
  "move p d q = (if prefix p q then d @ drop (length p) q else q)"

definition rename_node :: "location \<Rightarrow> location \<Rightarrow> tree \<Rightarrow> (tree, os_error) result" where
  "rename_node p d fs =
     (if node fs p = None then Err ENOENT
      else if prefix p d then Err EINVAL
      else if node fs (butlast d) \<noteq> Some HDir then Err ENOTDIR
      else (case node fs d of
          None \<Rightarrow> Ok (map (\<lambda>(q, n). (move p d q, n)) fs)
        | Some HDir \<Rightarrow> Err EEXIST
        | Some _ \<Rightarrow>
            if node fs p = Some HDir then Err ENOTDIR
            else Ok (map (\<lambda>(q, n). (move p d q, n)) (filter (\<lambda>(q, _). q \<noteq> d) fs))))"

text \<open>Contents: reading from an offset, writing at one (zeros fill a gap), and setting the length.\<close>

definition read_at :: "nat \<Rightarrow> nat \<Rightarrow> bytes \<Rightarrow> bytes" where
  "read_at offset n b = take n (drop offset b)"

definition set_len :: "nat \<Rightarrow> bytes \<Rightarrow> bytes" where
  "set_len n b = take n b @ replicate (n - length b) 0"

definition write_at :: "nat \<Rightarrow> bytes \<Rightarrow> bytes \<Rightarrow> bytes" where
  "write_at offset v b =
     (if v = [] then b else take offset b @ replicate (offset - length b) 0 @ v @ drop (offset + length v) b)"

section \<open>Paths that clients name\<close>

text \<open>
  What the code takes from outside: the texts of the system's errors, the attributes of a node that
  the tree does not have, and the base64 codec.
\<close>

record host =
  os_text :: "os_error \<Rightarrow> string"
  host_modified :: "location \<Rightarrow> u64"
  host_dir_len :: "location \<Rightarrow> u64"
  encode64 :: "bytes \<Rightarrow> string"
  decode64 :: "string \<Rightarrow> (bytes, string) result"

text \<open>
  \<open>Path::components\<close> of a relative path: \<open>None\<close> if one is not a \<open>Normal\<close> component (a leading
  separator or dot, or a parent). Empty components and inner dots are dropped.
\<close>

definition normal_components :: "string \<Rightarrow> string list option" where
  "normal_components relative =
     (let segments = split_char (CHR ''/'') relative
      in if starts_with ''/'' relative \<or> hd segments = ''.'' \<or> ''..'' \<in> set segments then None
         else Some (filter (\<lambda>s. s \<noteq> [] \<and> s \<noteq> ''.'') segments))"

text \<open>The components that the system sees of \<open>root.join(relative)\<close>: a final separator asks for a directory.\<close>

definition raw_components :: "string \<Rightarrow> string list" where
  "raw_components relative =
     (let segments = split_char (CHR ''/'') relative; body = filter (\<lambda>s. s \<noteq> []) segments
      in if last segments = [] then body @ [''.''] else body)"

definition safe_path :: "host \<Rightarrow> tree \<Rightarrow> location \<Rightarrow> string \<Rightarrow> bool \<Rightarrow> (location, string) result" where
  "safe_path h fs folder relative create =
     (case (if list_ex (\<lambda>c. c \<in> {CHR 0x5C, CHR '':'', CHR 0x00}) relative then None else normal_components relative) of
        None \<Rightarrow> Err ''Invalid shared path''
      | Some parts \<Rightarrow>
          (let exists = path_exists fs (folder @ raw_components relative); candidate = folder @ parts
           in if \<not> create \<and> \<not> exists then Err ''Not found''
              else
                result_bind
                  (if create \<and> \<not> exists then
                     (if candidate = [] then Err ''Invalid shared path''
                      else (case canonicalize fs (butlast candidate) of
                          Err e \<Rightarrow> Err (os_text h e)
                        | Ok parent \<Rightarrow>
                            if \<not> prefix folder parent then Err ''Path leaves the selected folder''
                            else Ok (parent @ [last candidate])))
                   else (case canonicalize fs (folder @ raw_components relative) of
                       Err e \<Rightarrow> Err (os_text h e) | Ok p \<Rightarrow> Ok p))
                  (\<lambda>resolved. if \<not> prefix folder resolved then Err ''Path leaves the selected folder'' else Ok resolved)))"

definition info :: "host \<Rightarrow> tree \<Rightarrow> location \<Rightarrow> (json, string) result" where
  "info h fs p =
     (case canonicalize fs p of
        Err e \<Rightarrow> Err (os_text h e)
      | Ok q \<Rightarrow>
          (let name = (if p = [] then [] else last p); modified = json_int (host_modified h q)
           in case node fs q of
                Some (HFile b) \<Rightarrow> Ok (json_obj [(''name'', JStr name), (''size'', json_int (of_nat (length b))),
                    (''directory'', JBool False), (''modified'', modified)])
              | _ \<Rightarrow> Ok (json_obj [(''name'', JStr name), (''size'', json_int (host_dir_len h q)),
                    (''directory'', JBool True), (''modified'', modified)])))"

section \<open>Operations on a shared folder\<close>

record FileRequest =
  rq_operation :: string
  rq_path :: string
  rq_destination :: string
  rq_offset :: u64
  rq_length :: u64
  rq_data :: string

text \<open>
  A system call of an operation may fail for a reason outside the model (no space, no permission):
  \<open>Some (n, e)\<close> fails with the text \<open>e\<close> after \<open>n\<close> bytes of a write, or after \<open>n\<close> calls that succeed.
\<close>

type_synonym os_fault = "(nat \<times> string) option"

definition os_result :: "host \<Rightarrow> tree \<Rightarrow> (tree, os_error) result \<Rightarrow> json \<Rightarrow> (json, string) result \<times> tree" where
  "os_result h fs r v = (case r of Err e \<Rightarrow> (Err (os_text h e), fs) | Ok fs' \<Rightarrow> (Ok v, fs'))"

definition op_list :: "host \<Rightarrow> tree \<Rightarrow> location \<Rightarrow> location \<Rightarrow> os_fault \<Rightarrow> (json, string) result" where
  "op_list h fs folder p fault =
     (case fault of Some (_, e) \<Rightarrow> Err e | None \<Rightarrow>
      if node fs p \<noteq> Some HDir then Err (os_text h ENOTDIR)
      else Ok (json_obj [(''entries'', JArr (concat (map (\<lambda>c.
             (case canonicalize fs (p @ [c]) of
                Ok q \<Rightarrow> if prefix folder q then (case info h fs (p @ [c]) of Ok v \<Rightarrow> [v] | Err _ \<Rightarrow> []) else []
              | Err _ \<Rightarrow> [])) (take 10000 (children fs p)))))]))"

definition op_read :: "host \<Rightarrow> tree \<Rightarrow> location \<Rightarrow> os_fault \<Rightarrow> FileRequest \<Rightarrow> (json, string) result" where
  "op_read h fs p fault rq =
     (case fault of Some (_, e) \<Rightarrow> Err e | None \<Rightarrow>
      if 2 ^ 63 \<le> unat (rq_offset rq) then Err (os_text h EINVAL)
      else (case node fs p of
          Some (HFile b) \<Rightarrow> Ok (json_obj [(''data'',
              JStr (encode64 h (read_at (unat (rq_offset rq)) (min (unat (rq_length rq)) (256 * 1024)) b)))])
        | _ \<Rightarrow> Err (os_text h EISDIR)))"

definition op_write :: "host \<Rightarrow> tree \<Rightarrow> location \<Rightarrow> os_fault \<Rightarrow> FileRequest \<Rightarrow> (json, string) result \<times> tree" where
  "op_write h fs p fault rq =
     (case decode64 h (rq_data rq) of
        Err e \<Rightarrow> (Err e, fs)
      | Ok v \<Rightarrow>
          if 256 * 1024 < length v then (Err ''Write is too large'', fs)
          else (case node fs p of
              Some (HFile b) \<Rightarrow>
                if 2 ^ 63 \<le> unat (rq_offset rq) then (Err (os_text h EINVAL), fs)
                else (case fault of
                    Some (n, e) \<Rightarrow> (Err e, set_node p (HFile (write_at (unat (rq_offset rq)) (take n v) b)) fs)
                  | None \<Rightarrow> (Ok (json_obj [(''count'', json_int (of_nat (length v)))]),
                             set_node p (HFile (write_at (unat (rq_offset rq)) v b)) fs))
            | _ \<Rightarrow> (Err (os_text h EISDIR), fs)))"

text \<open>\<open>create\<close> and \<open>mkdir\<close>: a new node, then its information.\<close>

definition op_new :: "host \<Rightarrow> tree \<Rightarrow> location \<Rightarrow> os_fault \<Rightarrow> host_node \<Rightarrow> (json, string) result \<times> tree" where
  "op_new h fs p fault n =
     (case fault of
        Some (0, e) \<Rightarrow> (Err e, fs)
      | _ \<Rightarrow>
          (case add_node p n fs of
             Err e \<Rightarrow> (Err (os_text h e), fs)
           | Ok fs' \<Rightarrow>
               ((case fault of Some (_, e) \<Rightarrow> Err e
                 | None \<Rightarrow> result_bind (info h fs' p) (\<lambda>v. Ok (json_obj [(''info'', v)]))), fs')))"

definition op_truncate :: "host \<Rightarrow> tree \<Rightarrow> location \<Rightarrow> os_fault \<Rightarrow> FileRequest \<Rightarrow> (json, string) result \<times> tree" where
  "op_truncate h fs p fault rq =
     (case fault of Some (_, e) \<Rightarrow> (Err e, fs) | None \<Rightarrow>
      (case node fs p of
         Some (HFile b) \<Rightarrow>
           if 2 ^ 63 \<le> unat (rq_length rq) then (Err (os_text h EINVAL), fs)
           else (Ok (JObj []), set_node p (HFile (set_len (unat (rq_length rq)) b)) fs)
       | _ \<Rightarrow> (Err (os_text h EISDIR), fs)))"

definition op_remove :: "host \<Rightarrow> tree \<Rightarrow> location \<Rightarrow> os_fault \<Rightarrow> (json, string) result \<times> tree" where
  "op_remove h fs p fault =
     (case fault of Some (_, e) \<Rightarrow> (Err e, fs) | None \<Rightarrow> os_result h fs (remove_node p fs) (JObj []))"

definition op_rename :: "host \<Rightarrow> tree \<Rightarrow> location \<Rightarrow> location \<Rightarrow> os_fault \<Rightarrow> FileRequest \<Rightarrow> (json, string) result \<times> tree" where
  "op_rename h fs folder p fault rq =
     (case safe_path h fs folder (rq_destination rq) True of
        Err e \<Rightarrow> (Err e, fs)
      | Ok d \<Rightarrow>
          if path_exists fs d then (Err ''Destination already exists'', fs)
          else (case fault of Some (_, e) \<Rightarrow> (Err e, fs)
            | None \<Rightarrow> os_result h fs (rename_node p d fs) (JObj [])))"

definition operation :: "host \<Rightarrow> location \<Rightarrow> bool \<Rightarrow> os_fault \<Rightarrow> FileRequest \<Rightarrow> tree \<Rightarrow> (json, string) result \<times> tree" where
  "operation h folder read_only fault rq fs =
     (let kind = rq_operation rq; write = (kind \<notin> {''stat'', ''list'', ''read''})
      in if write \<and> read_only then (Err ''This folder is read-only'', fs)
         else if write \<and> rq_path rq = [] then (Err ''Cannot modify the share root'', fs)
         else (case safe_path h fs folder (rq_path rq) (kind \<in> {''create'', ''mkdir''}) of
            Err e \<Rightarrow> (Err e, fs)
          | Ok p \<Rightarrow>
              if kind = ''stat'' then
                ((case fault of Some (_, e) \<Rightarrow> Err e
                  | None \<Rightarrow> result_bind (info h fs p) (\<lambda>v. Ok (json_obj [(''info'', v)]))), fs)
              else if kind = ''list'' then (op_list h fs folder p fault, fs)
              else if kind = ''read'' then (op_read h fs p fault rq, fs)
              else if kind = ''write'' then op_write h fs p fault rq
              else if kind = ''create'' then op_new h fs p fault (HFile [])
              else if kind = ''mkdir'' then op_new h fs p fault HDir
              else if kind = ''truncate'' then op_truncate h fs p fault rq
              else if kind = ''remove'' then op_remove h fs p fault
              else if kind = ''rename'' then op_rename h fs folder p fault rq
              else (Err ''Unsupported file operation'', fs)))"

section \<open>Well-formed trees\<close>

definition tree_ok :: "tree \<Rightarrow> bool" where
  "tree_ok fs \<longleftrightarrow> distinct (map fst fs) \<and> node fs [] = Some HDir
     \<and> list_all (\<lambda>(p, n). p = [] \<or> node fs (butlast p) = Some HDir \<and> last p \<notin> {[], ''.'', ''..''}) fs"

definition link_free :: "host_node \<Rightarrow> bool" where
  "link_free n \<longleftrightarrow> (case n of HLink _ _ \<Rightarrow> False | _ \<Rightarrow> True)"

lemma tree_ok_parent:
  assumes "tree_ok fs" and "node fs (p @ [c]) = Some n"
  shows "node fs p = Some HDir \<and> c \<notin> {[], ''.'', ''..''}"
proof -
  have "(p @ [c], n) \<in> set fs" using assms(2) by (rule map_of_SomeD)
  with assms(1) show ?thesis by (auto simp: tree_ok_def list_all_iff)
qed

lemma tree_ok_root: "tree_ok fs \<Longrightarrow> node fs [] = Some HDir"
  by (simp add: tree_ok_def)

lemma tree_ok_above:
  assumes "tree_ok fs" and "node fs (p @ q) = Some n" and "q \<noteq> []"
  shows "node fs p = Some HDir"
  using assms(2,3)
proof (induction q arbitrary: n rule: rev_induct)
  case (snoc c q)
  then have "node fs (p @ q) = Some HDir" using tree_ok_parent [OF assms(1), of "p @ q" c] by simp
  then show ?case using snoc.IH by (cases "q = []") auto
qed simp

lemma tree_ok_butlast: "tree_ok fs \<Longrightarrow> node fs p = Some HDir \<Longrightarrow> node fs (butlast p) = Some HDir"
  using tree_ok_parent [of fs "butlast p" "last p"] by (cases "p = []") auto

lemma tree_okI:
  assumes "distinct (map fst fs)" and "node fs [] = Some HDir"
    and "\<And>p c n. node fs (p @ [c]) = Some n \<Longrightarrow> node fs p = Some HDir \<and> c \<notin> {[], ''.'', ''..''}"
  shows "tree_ok fs"
proof -
  have "p = [] \<or> node fs (butlast p) = Some HDir \<and> last p \<notin> {[], ''.'', ''..''}" if "(p, n) \<in> set fs" for p n
  proof (cases p rule: rev_cases)
    case (snoc q c)
    with that assms(1) have "node fs (q @ [c]) = Some n" by (simp add: map_of_eq_Some_iff)
    from assms(3) [OF this] snoc show ?thesis by simp
  qed simp
  with assms(1,2) show ?thesis by (auto simp: tree_ok_def list_all_iff)
qed

section \<open>Resolution\<close>

text \<open>What a path resolves to is a directory or a file, never a link.\<close>

lemma resolve_link_free:
  assumes "tree_ok fs" and "node fs cur = Some HDir" and "resolve fs links cur cs = Ok q"
  shows "\<exists>n. node fs q = Some n \<and> link_free n"
  using assms
proof (induction fs links cur cs rule: resolve.induct)
  case (2 fs links cur c cs)
  show ?case
  proof (cases "c = ''.'' \<or> c = ''..''")
    case True
    then show ?thesis using 2 tree_ok_butlast [OF 2(5) 2(6)] by (cases "c = ''.''") simp_all
  next
    case False
    then show ?thesis using 2 tree_ok_root [OF 2(5)]
      by (cases "node fs (cur @ [c])"; cases "the (node fs (cur @ [c]))") (simp_all add: link_free_def split: if_splits)
  qed
qed (simp add: link_free_def)

lemma canonicalize_link_free: "tree_ok fs \<Longrightarrow> canonicalize fs cs = Ok q \<Longrightarrow> \<exists>n. node fs q = Some n \<and> link_free n"
  unfolding canonicalize_def by (rule resolve_link_free) (auto intro: tree_ok_root)

lemma resolve_below:
  assumes "tree_ok fs" and "node fs (cur @ xs) = Some HDir"
  shows "resolve fs links cur (xs @ ys) = resolve fs links (cur @ xs) ys"
  using assms(2)
proof (induction xs arbitrary: cur)
  case (Cons x xs)
  have n: "node fs ((cur @ [x]) @ xs) = Some HDir" using Cons.prems by simp
  then have "node fs (cur @ [x]) = Some HDir" using tree_ok_above [OF assms(1) n] by (cases "xs = []") auto
  moreover from this have "x \<notin> {[], ''.'', ''..''}" using tree_ok_parent [OF assms(1)] by blast
  ultimately show ?case using Cons.IH [OF n] by simp
qed simp

lemma canonicalize_below:
  "tree_ok fs \<Longrightarrow> node fs folder = Some HDir \<Longrightarrow> canonicalize fs (folder @ cs) = resolve fs 40 folder cs"
  using resolve_below [of fs "[]" folder] by (simp add: canonicalize_def)

lemma canonicalize_self: "tree_ok fs \<Longrightarrow> node fs p = Some n \<Longrightarrow> link_free n \<Longrightarrow> canonicalize fs p = Ok p"
proof (cases p rule: rev_cases)
  case Nil
  then show "canonicalize fs p = Ok p" by (simp add: canonicalize_def)
next
  case (snoc q c)
  assume a: "tree_ok fs" "node fs p = Some n" "link_free n"
  then have "node fs q = Some HDir" "c \<notin> {[], ''.'', ''..''}" using tree_ok_parent [of fs q c] snoc by simp_all
  then show "canonicalize fs p = Ok p"
    using a snoc by (auto simp: canonicalize_below link_free_def split: host_node.splits)
qed

section \<open>The calls keep the tree and stay where they are told\<close>

lemma node_set_node [simp]: "node (set_node p n fs) q = (if q = p then Some n else node fs q)"
proof -
  have "map_of (map (\<lambda>(q, m). if q = p then (q, n) else (q, m)) fs) q
      = (if q = p then map_option (\<lambda>_. n) (node fs q) else node fs q)"
    by (induction fs) auto
  then show ?thesis by (auto simp: set_node_def map_add_def split: option.splits)
qed

lemma keys_set_node: "map fst (set_node p n fs) = (if node fs p = None then map fst fs @ [p] else map fst fs)"
proof -
  have "map fst (map (\<lambda>(q, m). if q = p then (q, n) else (q, m)) fs) = map fst fs" by (induction fs) auto
  then show ?thesis by (simp add: set_node_def)
qed

lemma set_file_ok:
  assumes "tree_ok fs" and "node fs p = Some (HFile b)"
  shows "tree_ok (set_node p (HFile b') fs)"
proof (rule tree_okI)
  fix q c n
  assume "node (set_node p (HFile b') fs) (q @ [c]) = Some n"
  then obtain n' where "node fs (q @ [c]) = Some n'" using assms(2) by (auto split: if_splits)
  from tree_ok_parent [OF assms(1) this] show "node (set_node p (HFile b') fs) q = Some HDir \<and> c \<notin> {[], ''.'', ''..''}"
    using assms(2) by auto
qed (use assms in \<open>auto simp: keys_set_node tree_ok_def\<close>)

lemma add_node_Ok:
  assumes "add_node p n fs = Ok fs'" and "tree_ok fs" and "last p \<notin> {[], ''.'', ''..''}"
  shows "tree_ok fs'" "node fs' q = (if q = p then Some n else node fs q)" "node fs p = None" "p \<noteq> []"
proof -
  from assms(1) have a: "fs' = set_node p n fs" "p \<noteq> []" "node fs p = None" "node fs (butlast p) = Some HDir"
    by (auto simp: add_node_def split: if_splits option.splits host_node.splits)
  then show "node fs' q = (if q = p then Some n else node fs q)" "node fs p = None" "p \<noteq> []" by simp_all
  have "p \<notin> set (map fst fs)" using a(3) by (simp add: map_of_eq_None_iff)
  show "tree_ok fs'"
  proof (rule tree_okI)
    show "distinct (map fst fs')" using a assms(2) \<open>p \<notin> set (map fst fs)\<close> by (simp add: keys_set_node tree_ok_def)
    show "node fs' [] = Some HDir" using a tree_ok_root [OF assms(2)] by simp
    fix q c m
    assume m: "node fs' (q @ [c]) = Some m"
    show "node fs' q = Some HDir \<and> c \<notin> {[], ''.'', ''..''}"
    proof (cases "q @ [c] = p")
      case True
      with a assms(3) show ?thesis by auto
    next
      case False
      with m a have "node fs (q @ [c]) = Some m" by simp
      with tree_ok_parent [OF assms(2) this] a show ?thesis by auto
    qed
  qed
qed

lemma node_remove: "node (filter (\<lambda>(q, _). q \<noteq> p) fs) q = (if q = p then None else node fs q)"
  by (induction fs) auto

lemma no_children: "children fs p = [] \<Longrightarrow> node fs (p @ [c]) = None"
proof (rule ccontr)
  assume c: "children fs p = []" and "node fs (p @ [c]) \<noteq> None"
  then obtain n where "(p @ [c], n) \<in> set fs" by (auto dest: map_of_SomeD)
  with c show False by (auto simp: children_def filter_empty_conv)
qed

lemma distinct_filter_keys: "distinct (map fst fs) \<Longrightarrow> distinct (map fst (filter P fs))"
  by (induction fs) auto

lemma remove_node_Ok:
  assumes "remove_node p fs = Ok fs'" and "tree_ok fs"
  shows "tree_ok fs'" "node fs' q = (if q = p then None else node fs q)" "p \<noteq> []"
    "node fs p = Some HDir \<Longrightarrow> children fs p = []"
proof -
  from assms(1) have a: "fs' = filter (\<lambda>(q, _). q \<noteq> p) fs" "p \<noteq> []" "node fs p = Some HDir \<Longrightarrow> children fs p = []"
    by (auto simp: remove_node_def split: if_splits option.splits)
  then show "node fs' q = (if q = p then None else node fs q)" "p \<noteq> []"
    "node fs p = Some HDir \<Longrightarrow> children fs p = []" by (simp_all add: node_remove)
  show "tree_ok fs'"
  proof (rule tree_okI)
    show "distinct (map fst fs')" using a assms(2) by (simp add: tree_ok_def distinct_filter_keys)
    show "node fs' [] = Some HDir" using a tree_ok_root [OF assms(2)] by (simp add: node_remove)
    fix q c m
    assume "node fs' (q @ [c]) = Some m"
    then have m: "node fs (q @ [c]) = Some m" using a by (simp add: node_remove split: if_splits)
    with tree_ok_parent [OF assms(2) m] no_children [of fs p c] a show "node fs' q = Some HDir \<and> c \<notin> {[], ''.'', ''..''}"
      by (auto simp: node_remove)
  qed
qed

text \<open>Moving a subtree to a free place.\<close>

lemma move_iff:
  assumes "\<not> prefix d a"
  shows "move p d a = r \<longleftrightarrow> (if prefix d r then a = p @ drop (length d) r else \<not> prefix p r \<and> a = r)"
  using assms by (auto simp: move_def prefix_def)

lemma node_moved:
  assumes "\<And>q n. (q, n) \<in> set fs \<Longrightarrow> \<not> prefix d q"
  shows "node (map (\<lambda>(q, n). (move p d q, n)) fs) r =
    (if prefix d r then node fs (p @ drop (length d) r) else if prefix p r then None else node fs r)"
  using assms
proof (induction fs)
  case (Cons a fs)
  obtain q n where a: "a = (q, n)" by (cases a)
  have "\<not> prefix d q" using Cons.prems [of q n] a by simp
  then have m: "r = move p d q \<longleftrightarrow> (if prefix d r then q = p @ drop (length d) r else \<not> prefix p r \<and> q = r)"
    using move_iff [of d q p r] by metis
  moreover have "node (map (\<lambda>(q, n). (move p d q, n)) fs) r =
      (if prefix d r then node fs (p @ drop (length d) r) else if prefix p r then None else node fs r)"
    using Cons.prems by (intro Cons.IH) auto
  ultimately show ?case using a by (cases "prefix d r"; cases "prefix p r") auto
qed simp

lemma moved_ok:
  assumes "tree_ok fs" and "node fs d = None" and "node fs (butlast d) = Some HDir" and "\<not> prefix p d"
    and "last d \<notin> {[], ''.'', ''..''}"
  shows "tree_ok (map (\<lambda>(q, n). (move p d q, n)) fs)"
    and "\<not> prefix d r \<Longrightarrow> \<not> prefix p r \<Longrightarrow> node (map (\<lambda>(q, n). (move p d q, n)) fs) r = node fs r"
proof -
  have d: "d \<noteq> []" "p \<noteq> []" using assms(2,4) tree_ok_root [OF assms(1)] by auto
  have free: "\<not> prefix d q" if "(q, n) \<in> set fs" for q n
  proof
    assume "prefix d q"
    then obtain s where "q = d @ s" by (auto simp: prefix_def)
    moreover have "node fs q = Some n" using that assms(1) by (simp add: tree_ok_def map_of_eq_Some_iff)
    ultimately show False using tree_ok_above [OF assms(1), of d s n] assms(2) by (cases "s = []") auto
  qed
  note nm = node_moved [of fs d p, OF free]
  show "\<not> prefix d r \<Longrightarrow> \<not> prefix p r \<Longrightarrow> node (map (\<lambda>(q, n). (move p d q, n)) fs) r = node fs r"
    by (simp add: nm)
  show "tree_ok (map (\<lambda>(q, n). (move p d q, n)) fs)"
  proof (rule tree_okI)
    have "inj_on (move p d) (fst ` set fs)"
    proof (rule inj_onI)
      fix a b assume "a \<in> fst ` set fs" "b \<in> fst ` set fs" "move p d a = move p d b"
      then have "\<not> prefix d a" "\<not> prefix d b" using free by auto
      with \<open>move p d a = move p d b\<close> move_iff [of d a p "move p d b"] move_iff [of d b p "move p d b"] show "a = b"
        by (simp split: if_splits)
    qed
    moreover have "map fst (map (\<lambda>(q, n). (move p d q, n)) fs) = map (move p d) (map fst fs)"
      by (simp add: comp_def split_def)
    ultimately show "distinct (map fst (map (\<lambda>(q, n). (move p d q, n)) fs))"
      using assms(1) by (simp add: distinct_map tree_ok_def del: map_map)
    show "node (map (\<lambda>(q, n). (move p d q, n)) fs) [] = Some HDir" using d tree_ok_root [OF assms(1)] by (simp add: nm)
    fix q c n
    assume n: "node (map (\<lambda>(q, n). (move p d q, n)) fs) (q @ [c]) = Some n"
    show "node (map (\<lambda>(q, n). (move p d q, n)) fs) q = Some HDir \<and> c \<notin> {[], ''.'', ''..''}"
    proof (cases "prefix d q")
      case True
      then have "node fs ((p @ drop (length d) q) @ [c]) = Some n" using n by (auto simp: nm prefix_def)
      from tree_ok_parent [OF assms(1) this] True show ?thesis by (simp add: nm)
    next
      case False
      show ?thesis
      proof (cases "q @ [c] = d")
        case True
        have "\<not> prefix p q" using assms(4) True by (auto simp: prefix_def)
        with True False assms(3,5) show ?thesis by (auto simp: nm)
      next
        case f: False
        with False n have m: "node fs (q @ [c]) = Some n" "\<not> prefix p q" by (auto simp: nm split: if_splits)
        from tree_ok_parent [OF assms(1) m(1)] m(2) False show ?thesis by (simp add: nm)
      qed
    qed
  qed
qed

lemma rename_node_Ok:
  assumes "rename_node p d fs = Ok fs'" and "tree_ok fs" and "last d \<notin> {[], ''.'', ''..''}"
  shows "tree_ok fs'" "\<not> prefix p d" "\<not> prefix d r \<Longrightarrow> \<not> prefix p r \<Longrightarrow> node fs' r = node fs r"
proof -
  from assms(1) show np: "\<not> prefix p d" by (auto simp: rename_node_def split: if_splits)
  define fs1 where "fs1 = filter (\<lambda>(q, _). q \<noteq> d) fs"
  have a: "node fs (butlast d) = Some HDir" "node fs d \<noteq> Some HDir" and
    e: "fs' = map (\<lambda>(q, n). (move p d q, n)) (if node fs d = None then fs else fs1)"
    using assms(1) by (auto simp: rename_node_def fs1_def split: if_splits option.splits host_node.splits)
  have d: "d \<noteq> []" using a(2) tree_ok_root [OF assms(2)] by auto
  define g where "g = (if node fs d = None then fs else fs1)"
  have g: "tree_ok g" "node g q = (if q = d then None else node fs q)" for q
  proof -
    show "node g q = (if q = d then None else node fs q)" by (simp add: g_def fs1_def node_remove)
    show "tree_ok g"
    proof (cases "node fs d")
      case None
      with assms(2) show ?thesis by (simp add: g_def)
    next
      case (Some n)
      with a(2) d have "remove_node d fs = Ok fs1" by (simp add: remove_node_def fs1_def)
      with Some show ?thesis using remove_node_Ok(1) [OF _ assms(2)] by (simp add: g_def)
    qed
  qed
  have "butlast d \<noteq> d" using d by (metis append_butlast_last_id append_self_conv not_Cons_self2)
  with a have "node g d = None" "node g (butlast d) = Some HDir" by (simp_all add: g(2))
  note m = moved_ok [OF g(1) this np assms(3)]
  have f: "fs' = map (\<lambda>(q, n). (move p d q, n)) g" using e by (simp add: g_def)
  show "tree_ok fs'" unfolding f by (rule m(1))
  show "node fs' r = node fs r" if "\<not> prefix d r" "\<not> prefix p r" unfolding f
    using m(2) [OF that] that(1) by (auto simp: g(2))
qed

section \<open>A safe path is inside the folder\<close>

lemma normal_components_good:
  assumes "normal_components relative = Some parts" and "c \<in> set parts"
  shows "c \<notin> {[], ''.'', ''..''}"
  using assms by (auto simp: normal_components_def Let_def split: if_splits)

lemma safe_path_Ok:
  assumes "safe_path h fs folder relative create = Ok p" and "tree_ok fs" and "node fs folder = Some HDir"
  obtains (there) n where "prefix folder p" "node fs p = Some n" "link_free n" "canonicalize fs (folder @ raw_components relative) = Ok p"
  | (fresh) parent c where "p = parent @ [c]" "prefix folder parent" "c \<notin> {[], ''.'', ''..''}" "create"
      "\<not> path_exists fs (folder @ raw_components relative)"
proof -
  obtain parts where pt: "normal_components relative = Some parts"
    using assms(1) by (auto simp: safe_path_def split: if_splits option.splits)
  show thesis
  proof (cases "path_exists fs (folder @ raw_components relative)")
    case True
    then obtain q where q: "canonicalize fs (folder @ raw_components relative) = Ok q"
      by (cases "canonicalize fs (folder @ raw_components relative)") (auto simp: path_exists_def)
    with True assms(1) pt have "q = p" "prefix folder p"
      by (auto simp: safe_path_def Let_def split: if_splits)
    with q canonicalize_link_free [OF assms(2) q] show thesis by (auto intro: there)
  next
    case False
    with assms(1) pt obtain parent where p: "create" "folder @ parts \<noteq> []"
      "canonicalize fs (butlast (folder @ parts)) = Ok parent" "prefix folder parent" "p = parent @ [last (folder @ parts)]"
      by (auto simp: safe_path_def Let_def split: if_splits result.splits)
    have "last (folder @ parts) \<notin> {[], ''.'', ''..''}"
    proof (cases "parts = []")
      case True
      then have "node fs (butlast folder @ [last folder]) = Some HDir" using p(2) assms(3) by simp
      from tree_ok_parent [OF assms(2) this] True show ?thesis by simp
    next
      case f: False
      with normal_components_good [OF pt, of "last parts"] show ?thesis by simp
    qed
    with p False show thesis by (intro fresh) auto
  qed
qed

section \<open>Operations stay inside the folder\<close>

definition share_ok :: "tree \<Rightarrow> location \<Rightarrow> bool" where
  "share_ok fs folder \<longleftrightarrow> tree_ok fs \<and> node fs folder = Some HDir"

definition confined :: "location \<Rightarrow> tree \<Rightarrow> tree \<Rightarrow> bool" where
  "confined folder fs fs' \<longleftrightarrow> share_ok fs' folder \<and> (\<forall>q. \<not> prefix folder q \<longrightarrow> node fs' q = node fs q)"

lemma confined_refl [simp]: "share_ok fs folder \<Longrightarrow> confined folder fs fs"
  by (simp add: confined_def)

lemma set_file_confined:
  assumes "share_ok fs folder" and "prefix folder p" and "node fs p = Some (HFile b)"
  shows "confined folder fs (set_node p (HFile b') fs)"
  using assms set_file_ok [of fs p b b'] by (auto simp: confined_def share_ok_def)

lemma op_write_confined:
  assumes "share_ok fs folder" and "prefix folder p"
  shows "confined folder fs (snd (op_write h fs p fault rq))"
  using assms set_file_confined [OF assms]
  by (simp add: op_write_def split: result.split option.split host_node.split)

lemma op_truncate_confined:
  assumes "share_ok fs folder" and "prefix folder p"
  shows "confined folder fs (snd (op_truncate h fs p fault rq))"
  using assms set_file_confined [OF assms]
  by (simp add: op_truncate_def split: option.split host_node.split)

lemma op_new_confined:
  assumes "share_ok fs folder" and "safe_path h fs folder relative True = Ok p"
  shows "confined folder fs (snd (op_new h fs p fault n))"
proof (cases "add_node p n fs")
  case (Err e)
  with assms(1) show ?thesis by (auto simp: op_new_def split: option.split nat.split)
next
  case (Ok fs')
  have t: "tree_ok fs" "node fs folder = Some HDir" using assms(1) by (simp_all add: share_ok_def)
  from assms(2) t have "confined folder fs fs'"
  proof (cases rule: safe_path_Ok)
    case (there n)
    with Ok show ?thesis by (simp add: add_node_def split: if_splits)
  next
    case (fresh parent c)
    then have "last p \<notin> {[], ''.'', ''..''}" "prefix folder p" "p \<noteq> folder" by (auto simp: prefix_def)
    with add_node_Ok [OF Ok t(1)] t(2) show ?thesis by (auto simp: confined_def share_ok_def)
  qed
  with Ok assms(1) show ?thesis by (auto simp: op_new_def split: option.split nat.split)
qed

lemma raw_components_first:
  assumes "normal_components relative = Some parts" and "relative \<noteq> []"
  obtains c cs where "raw_components relative = c # cs" "c \<notin> {[], ''.'', ''..''}"
proof -
  obtain x xs where r: "relative = x # xs" "x \<noteq> CHR ''/''"
    using assms by (cases relative) (auto simp: normal_components_def Let_def split: if_splits)
  then obtain c cs where sg: "split_char (CHR ''/'') relative = c # cs" "c \<noteq> []"
    by (cases "split_char (CHR ''/'') xs") auto
  then have "c \<notin> {''.'', ''..''}" using assms(1) by (auto simp: normal_components_def Let_def split: if_splits)
  moreover have "\<exists>ds. raw_components relative = c # ds" using sg by (auto simp: raw_components_def Let_def)
  ultimately show thesis using that sg(2) by auto
qed

lemma folder_not_empty:
  assumes "share_ok fs folder" and "relative \<noteq> []" and "safe_path h fs folder relative False = Ok p"
  shows "children fs folder \<noteq> []"
proof
  assume none: "children fs folder = []"
  have t: "tree_ok fs" "node fs folder = Some HDir" using assms(1) by (simp_all add: share_ok_def)
  obtain parts where pt: "normal_components relative = Some parts"
    using assms(3) by (auto simp: safe_path_def split: if_splits option.splits)
  from raw_components_first [OF pt assms(2)] obtain c cs where c: "raw_components relative = c # cs" "c \<notin> {[], ''.'', ''..''}" .
  from assms(3) t show False
  proof (cases rule: safe_path_Ok)
    case (there n)
    with c no_children [OF none, of c] show False by (simp add: canonicalize_below [OF t])
  qed simp
qed

lemma op_remove_confined:
  assumes "share_ok fs folder" and "relative \<noteq> []" and "safe_path h fs folder relative False = Ok p"
  shows "confined folder fs (snd (op_remove h fs p fault))"
proof (cases "remove_node p fs")
  case (Err e)
  with assms(1) show ?thesis by (simp add: op_remove_def os_result_def split: option.split)
next
  case (Ok fs')
  have t: "tree_ok fs" "node fs folder = Some HDir" using assms(1) by (simp_all add: share_ok_def)
  have "prefix folder p" using assms(3) t by (cases rule: safe_path_Ok) auto
  moreover have "p \<noteq> folder" using remove_node_Ok(4) [OF Ok t(1)] folder_not_empty [OF assms] t(2) by auto
  ultimately have "confined folder fs fs'"
    using remove_node_Ok [OF Ok t(1)] t by (auto simp: confined_def share_ok_def)
  with Ok assms(1) show ?thesis by (simp add: op_remove_def os_result_def split: option.split)
qed

lemma op_rename_confined:
  assumes "share_ok fs folder" and "prefix folder p"
  shows "confined folder fs (snd (op_rename h fs folder p fault rq))"
proof (cases "safe_path h fs folder (rq_destination rq) True")
  case (Err e)
  with assms(1) show ?thesis by (simp add: op_rename_def)
next
  case (Ok d)
  have t: "tree_ok fs" "node fs folder = Some HDir" using assms(1) by (simp_all add: share_ok_def)
  show ?thesis
  proof (cases "path_exists fs d \<or> fault \<noteq> None \<or> \<not> is_ok (rename_node p d fs)")
    case True
    with Ok assms(1) show ?thesis
      by (auto simp: op_rename_def os_result_def split: option.split result.splits)
  next
    case False
    then obtain fs' where f: "rename_node p d fs = Ok fs'" by (cases "rename_node p d fs") auto
    from Ok t have "confined folder fs fs'"
    proof (cases rule: safe_path_Ok)
      case (there n)
      then have "path_exists fs d" using canonicalize_self [OF t(1), of d n] by (simp add: path_exists_def)
      with False show ?thesis by simp
    next
      case (fresh parent c)
      then have d: "last d \<notin> {[], ''.'', ''..''}" "prefix folder d" "\<not> prefix d folder"
        by (auto simp: prefix_def)
      note r = rename_node_Ok [OF f t(1) d(1)]
      have "\<not> prefix p folder" using r(2) d(2) assms(2) by (metis prefix_order.antisym)
      then have "node fs' folder = Some HDir" using r(3) d(3) t(2) by simp
      moreover have "node fs' q = node fs q" if "\<not> prefix folder q" for q
        using that d(2) assms(2) by (intro r(3)) (auto intro: prefix_order.trans)
      ultimately show ?thesis using r(1) by (simp add: confined_def share_ok_def)
    qed
    with Ok False f show ?thesis by (cases fault) (simp_all add: op_rename_def os_result_def)
  qed
qed

lemma operation_confined:
  assumes "share_ok fs folder"
  shows "confined folder fs (snd (operation h folder read_only fault rq fs))"
proof -
  have t: "tree_ok fs" "node fs folder = Some HDir" using assms by (simp_all add: share_ok_def)
  have inside: "prefix folder p" if "safe_path h fs folder (rq_path rq) create = Ok p" for create p
    using that t by (cases rule: safe_path_Ok) auto
  show ?thesis
  proof (cases "safe_path h fs folder (rq_path rq) (rq_operation rq \<in> {''create'', ''mkdir''})")
    case (Err e)
    with assms show ?thesis by (auto simp: operation_def Let_def)
  next
    case (Ok p)
    have p: "prefix folder p" using Ok by (rule inside)
    show ?thesis
    proof (cases "rq_operation rq \<in> {''create'', ''mkdir''}")
      case True
      with Ok assms op_new_confined [OF assms, of h "rq_path rq" p] show ?thesis
        by (auto simp: operation_def Let_def)
    next
      case False
      with Ok have s: "safe_path h fs folder (rq_path rq) False = Ok p" by simp
      show ?thesis using False s assms op_remove_confined [OF assms _ s] op_write_confined [OF assms p]
          op_truncate_confined [OF assms p] op_rename_confined [OF assms p]
        by (simp add: operation_def Let_def)
    qed
  qed
qed

lemma operation_read_only: "snd (operation h folder True fault rq fs) = fs"
  by (simp add: operation_def Let_def split: result.split)

section \<open>What a client reads and writes\<close>

lemma resolve_set_file:
  assumes "node fs p = Some (HFile b)"
  shows "resolve (set_node p (HFile b') fs) links cur cs = resolve fs links cur cs"
  using assms
proof (induction fs links cur cs rule: resolve.induct)
  case (2 fs links cur c cs)
  show ?case
  proof (cases "c = ''.'' \<or> c = ''..''")
    case True
    then show ?thesis using 2 by (cases "c = ''.''") simp_all
  next
    case False
    then show ?thesis using 2 by (cases "node fs (cur @ [c])"; cases "the (node fs (cur @ [c]))") auto
  qed
qed simp

lemma safe_path_set_file:
  assumes "node fs p = Some (HFile b)"
  shows "safe_path h (set_node p (HFile b') fs) folder relative create = safe_path h fs folder relative create"
proof -
  have c: "canonicalize (set_node p (HFile b') fs) = canonicalize fs"
    using assms by (intro ext) (simp add: canonicalize_def resolve_set_file)
  then have e: "path_exists (set_node p (HFile b') fs) = path_exists fs" by (intro ext) (simp add: path_exists_def)
  show ?thesis unfolding safe_path_def c e ..
qed

lemma read_write_at: "read_at offset (length v) (write_at offset v b) = v"
  by (simp add: read_at_def write_at_def min_def)

lemma write_at_frame: "read_at o' n (write_at offset v b) = read_at o' n b" if "o' + n \<le> offset" "o' + n \<le> length b"
  using that by (simp add: read_at_def write_at_def drop_take min_def)

text \<open>
  Data that a client reads is the content of a file inside the folder, from the offset and at most
  the length it asked for, and never more than 256 KiB.
\<close>

theorem read_discloses_inside:
  assumes "share_ok fs folder" and "rq_operation rq = ''read''"
    and "operation h folder read_only fault rq fs = (Ok v, fs')"
  shows "\<exists>p b. prefix folder p \<and> node fs p = Some (HFile b)
    \<and> v = json_obj [(''data'', JStr (encode64 h (read_at (unat (rq_offset rq)) (min (unat (rq_length rq)) (256 * 1024)) b)))]"
proof -
  have t: "tree_ok fs" "node fs folder = Some HDir" using assms(1) by (simp_all add: share_ok_def)
  obtain p where s: "safe_path h fs folder (rq_path rq) False = Ok p" and r: "op_read h fs p fault rq = Ok v"
    using assms(2,3) by (auto simp: operation_def Let_def split: result.splits)
  from s t have "prefix folder p" by (cases rule: safe_path_Ok) auto
  with r show ?thesis by (auto simp: op_read_def split: option.splits if_splits host_node.splits)
qed

text \<open>What was written is what is read back, through the same path.\<close>

theorem write_then_read:
  assumes "share_ok fs folder" and "rq_operation w = ''write''" and "decode64 h (rq_data w) = Ok bs"
    and "operation h folder False None w fs = (Ok v, fs')"
    and "rq_operation r = ''read''" and "rq_path r = rq_path w" and "rq_offset r = rq_offset w" and "unat (rq_length r) = length bs"
  shows "operation h folder read_only None r fs' = (Ok (json_obj [(''data'', JStr (encode64 h bs))]), fs')"
proof -
  obtain p where s: "safe_path h fs folder (rq_path w) False = Ok p" and o: "op_write h fs p None w = (Ok v, fs')"
    using assms(2,4) by (auto simp: operation_def Let_def split: result.splits if_splits)
  from o assms(3) obtain b where b: "node fs p = Some (HFile b)" "fs' = set_node p (HFile (write_at (unat (rq_offset w)) bs b)) fs"
    "length bs \<le> 256 * 1024" "\<not> 2 ^ 63 \<le> unat (rq_offset w)"
    by (auto simp: op_write_def split: option.splits if_splits host_node.splits)
  have "safe_path h fs' folder (rq_path r) False = Ok p" using s b assms(6) by (simp add: safe_path_set_file)
  moreover have "op_read h fs' p None r = Ok (json_obj [(''data'', JStr (encode64 h bs))])"
    using b assms(7,8) by (simp add: op_read_def min_absorb1 read_write_at)
  ultimately show ?thesis using assms(5) by (simp add: operation_def Let_def)
qed

section \<open>The service a shared folder gives\<close>

text \<open>
  What the clients of a folder rely on: a request keeps the folder, changes nothing outside it, and
  changes nothing at all where the folder is served read-only.
\<close>

locale folder_service =
  fixes serve :: "location \<Rightarrow> bool \<Rightarrow> 'q \<Rightarrow> 'fs \<Rightarrow> 'r \<times> 'fs"
    and view :: "'fs \<Rightarrow> location \<Rightarrow> 'n option"
    and good :: "'fs \<Rightarrow> location \<Rightarrow> bool"
  assumes serve_good: "good fs folder \<Longrightarrow> good (snd (serve folder read_only q fs)) folder"
    and serve_inside: "good fs folder \<Longrightarrow> \<not> prefix folder p \<Longrightarrow> view (snd (serve folder read_only q fs)) p = view fs p"
    and serve_read_only: "snd (serve folder True q fs) = fs"
begin

text \<open>A session is a list of requests, each over a read-only or a writable server of the folder.\<close>

lemma session_inside:
  "good fs folder \<Longrightarrow> good (fold (\<lambda>(ro, q) fs. snd (serve folder ro q fs)) rqs fs) folder
     \<and> (\<not> prefix folder p \<longrightarrow> view (fold (\<lambda>(ro, q) fs. snd (serve folder ro q fs)) rqs fs) p = view fs p)"
proof (induction rqs arbitrary: fs)
  case (Cons rq rqs)
  have "good (snd (serve folder (fst rq) (snd rq) fs)) folder" using Cons.prems by (rule serve_good)
  from Cons.IH [OF this] Cons.prems show ?case by (simp add: serve_inside split_def)
qed simp

lemma session_read_only: "list_all fst rqs \<Longrightarrow> fold (\<lambda>(ro, q) fs. snd (serve folder ro q fs)) rqs fs = fs"
  by (induction rqs arbitrary: fs) (auto simp: serve_read_only)

end

interpretation share: folder_service "\<lambda>folder read_only (fault, rq). operation h folder read_only fault rq" map_of share_ok for h
proof
  fix fs folder read_only p and q :: "os_fault \<times> FileRequest"
  obtain fault rq where q: "q = (fault, rq)" by (cases q)
  let ?serve = "\<lambda>folder read_only (fault, rq). operation h folder read_only fault rq"
  show "share_ok (snd (?serve folder read_only q fs)) folder" if "share_ok fs folder"
    using operation_confined [OF that] by (simp add: q confined_def)
  show "map_of (snd (?serve folder read_only q fs)) p = map_of fs p" if "share_ok fs folder" "\<not> prefix folder p"
    using operation_confined [OF that(1), of h read_only fault rq] that(2) by (simp add: q confined_def)
  show "snd (?serve folder True q fs) = fs" by (simp add: q operation_read_only)
qed

definition run_requests :: "host \<Rightarrow> location \<Rightarrow> (bool \<times> os_fault \<times> FileRequest) list \<Rightarrow> tree \<Rightarrow> tree" where
  "run_requests h folder rqs fs = fold (\<lambda>(read_only, fault, rq) fs. snd (operation h folder read_only fault rq fs)) rqs fs"

text \<open>
  Whatever requests a client sends to a shared folder, with any paths, links and failures of the
  system: the folder stays a directory of a well-formed tree, nothing outside it changes, and with a
  read-only server nothing changes at all.
\<close>

theorem shared_folder_confined:
  assumes "share_ok fs folder" and "fs' = run_requests h folder rqs fs"
  shows "share_ok fs' folder \<and> (\<not> prefix folder p \<longrightarrow> node fs' p = node fs p) \<and> (list_all fst rqs \<longrightarrow> fs' = fs)"
proof -
  have "run_requests h folder rqs fs = fold (\<lambda>(ro, q) fs. snd ((case q of (fault, rq) \<Rightarrow> operation h folder ro fault rq) fs)) rqs fs"
    unfolding run_requests_def by (intro arg_cong2 [of _ _ _ _ "\<lambda>f. fold f rqs"]) (auto simp: fun_eq_iff)
  then show ?thesis using share.session_inside [OF assms(1), of h rqs p] share.session_read_only [of rqs h folder fs] assms(2) by simp
qed

section \<open>A folder with a link that leaves it\<close>

definition posix_host :: host where
  "posix_host = \<lparr>os_text = (\<lambda>_. ''I/O error''), host_modified = (\<lambda>_. 0), host_dir_len = (\<lambda>_. 4096),
     encode64 = map (\<lambda>b. char_of (unat b)), decode64 = (\<lambda>s. Ok (map (\<lambda>c. of_nat (of_char c)) s))\<rparr>"

definition example_tree :: tree where
  "example_tree = [([], HDir), ([''s''], HDir), ([''s'', ''a''], HFile []), ([''s'', ''out''], HLink True [''x'']),
     ([''x''], HDir), ([''x'', ''k''], HFile [7])]"

definition example_rq :: "string \<Rightarrow> string \<Rightarrow> string \<Rightarrow> FileRequest" where
  "example_rq kind path data = \<lparr>rq_operation = kind, rq_path = path, rq_destination = [], rq_offset = 0,
     rq_length = of_nat (length data), rq_data = data\<rparr>"

lemma example_share_ok: "share_ok example_tree [''s'']"
  by (simp add: share_ok_def tree_ok_def example_tree_def)

lemma example_paths:
  "safe_path posix_host example_tree [''s''] ''a'' False = Ok [''s'', ''a'']"
  "safe_path posix_host example_tree [''s''] ''out/k'' False = Err ''Path leaves the selected folder''"
  by code_simp+

lemma example_codec:
  "decode64 posix_host ''hi'' = Ok [104, 105]" "encode64 posix_host [104, 105] = ''hi''"
  by (simp add: posix_host_def) code_simp

definition written_tree :: tree where
  "written_tree = set_node [''s'', ''a''] (HFile [104, 105]) example_tree"

lemma example_write:
  "operation posix_host [''s''] False None (example_rq ''write'' ''a'' ''hi'') example_tree
    = (Ok (json_obj [(''count'', json_int 2)]), written_tree)"
proof -
  have "node example_tree [''s'', ''a''] = Some (HFile [])" by (simp add: example_tree_def)
  then show ?thesis
    by (simp add: operation_def example_rq_def example_paths op_write_def example_codec write_at_def written_tree_def)
qed

lemma example_outside:
  "operation posix_host [''s''] False None (example_rq ''remove'' ''out/k'' []) written_tree
    = (Err ''Path leaves the selected folder'', written_tree)"
proof -
  have "safe_path posix_host written_tree [''s''] ''out/k'' False = Err ''Path leaves the selected folder''"
    unfolding written_tree_def by (subst safe_path_set_file [of _ _ "[]"]) (simp_all add: example_tree_def [symmetric] example_paths, simp add: example_tree_def)
  then show ?thesis by (simp add: operation_def example_rq_def)
qed

theorem shared_folder_confined_witness:
  "\<exists>fs'. fs' = run_requests posix_host [''s'']
       [(False, None, example_rq ''write'' ''a'' ''hi''), (False, None, example_rq ''remove'' ''out/k'' [])] example_tree
     \<and> node fs' [''s'', ''a''] = Some (HFile [104, 105]) \<and> node fs' [''x'', ''k''] = Some (HFile [7]) \<and> share_ok fs' [''s'']"
proof -
  let ?rqs = "[(False, None, example_rq ''write'' ''a'' ''hi''), (False, None, example_rq ''remove'' ''out/k'' [])]"
  have r: "written_tree = run_requests posix_host [''s''] ?rqs example_tree"
    by (simp add: run_requests_def example_write example_outside)
  have "node example_tree [''x'', ''k''] = Some (HFile [7])" by (simp add: example_tree_def)
  with shared_folder_confined [OF example_share_ok r, of "[''x'', ''k'']"]
  have "node written_tree [''x'', ''k''] = Some (HFile [7])" "share_ok written_tree [''s'']" by simp_all
  moreover have "node written_tree [''s'', ''a''] = Some (HFile [104, 105])" by (simp add: written_tree_def)
  ultimately show ?thesis using r by blast
qed

theorem write_then_read_witness:
  "operation posix_host [''s''] True None (example_rq ''read'' ''a'' ''xx'') written_tree
    = (Ok (json_obj [(''data'', JStr ''hi'')]), written_tree)"
proof -
  have "operation posix_host [''s''] True None (example_rq ''read'' ''a'' ''xx'') written_tree
      = (Ok (json_obj [(''data'', JStr (encode64 posix_host [104, 105]))]), written_tree)"
    by (rule write_then_read [OF example_share_ok _ _ example_write]) (simp_all add: example_rq_def example_codec)
  then show ?thesis by (simp add: example_codec)
qed

theorem read_discloses_inside_witness:
  "\<exists>p b v. prefix [''s''] p \<and> node written_tree p = Some (HFile b)
    \<and> operation posix_host [''s''] True None (example_rq ''read'' ''a'' ''xx'') written_tree = (Ok v, written_tree)
    \<and> v = json_obj [(''data'', JStr (encode64 posix_host (read_at 0 2 b)))]"
proof -
  have n: "node example_tree [''s'', ''a''] = Some (HFile [])" by (simp add: example_tree_def)
  then have s: "safe_path posix_host written_tree [''s''] ''a'' False = Ok [''s'', ''a'']"
    unfolding written_tree_def by (simp add: safe_path_set_file example_paths)
  have "op_read posix_host written_tree [''s'', ''a''] None (example_rq ''read'' ''a'' ''xx'')
      = Ok (json_obj [(''data'', JStr (encode64 posix_host (read_at 0 2 [104, 105])))])"
    by (simp add: op_read_def example_rq_def written_tree_def)
  then obtain v where o: "operation posix_host [''s''] True None (example_rq ''read'' ''a'' ''xx'') written_tree = (Ok v, written_tree)"
    using s by (simp add: operation_def example_rq_def Let_def)
  have "share_ok written_tree [''s'']"
    using operation_confined [OF example_share_ok, of posix_host False None "example_rq ''write'' ''a'' ''hi''"]
    by (simp add: example_write confined_def)
  from read_discloses_inside [OF this _ o] o show ?thesis by (simp add: example_rq_def)
qed

end
