(* ===== verification/Host_Server.thy ===== *)
theory Host_Server
  imports Host_Files
begin

text \<open>
  \<open>host_files.rs\<close>, the server of a shared folder: reading a request from a connection
  (\<open>read_http\<close>, \<open>http_body_length\<close>), the authenticated file API and the read-only WebDAV view
  (\<open>HostFolderServer::start\<close>). The listings that the server writes as XML or HTML are kept as the
  entries they list. The limit of 64 clients and the time limit of a request are not modelled: a
  request that hits them is closed, as after a malformed header.
\<close>

section \<open>Text of a request\<close>

abbreviation CR :: char where "CR \<equiv> CHR 0x0D"
abbreviation LF :: char where "LF \<equiv> CHR 0x0A"

definition continuation :: "nat \<Rightarrow> bool" where
  "continuation b \<longleftrightarrow> 0x80 \<le> b \<and> b \<le> 0xBF"

text \<open>\<open>std::str::from_utf8\<close>: whether the bytes are well-formed UTF-8.\<close>

definition utf8_rest :: "nat \<Rightarrow> nat list \<Rightarrow> nat option" where
  "utf8_rest b bs =
     (if b < 0x80 then Some 0
      else if 0xC2 \<le> b \<and> b \<le> 0xDF then
        (case take 1 bs of [c] \<Rightarrow> if continuation c then Some 1 else None | _ \<Rightarrow> None)
      else if 0xE0 \<le> b \<and> b \<le> 0xEF then
        (case take 2 bs of [c, d] \<Rightarrow>
             if (if b = 0xE0 then 0xA0 else 0x80) \<le> c \<and> c \<le> (if b = 0xED then 0x9F else 0xBF) \<and> continuation d
             then Some 2 else None
         | _ \<Rightarrow> None)
      else if 0xF0 \<le> b \<and> b \<le> 0xF4 then
        (case take 3 bs of [c, d, e] \<Rightarrow>
             if (if b = 0xF0 then 0x90 else 0x80) \<le> c \<and> c \<le> (if b = 0xF4 then 0x8F else 0xBF)
                \<and> continuation d \<and> continuation e
             then Some 3 else None
         | _ \<Rightarrow> None)
      else None)"

function valid_utf8 :: "nat list \<Rightarrow> bool" where
  "valid_utf8 [] = True"
| "valid_utf8 (b # bs) = (case utf8_rest b bs of None \<Rightarrow> False | Some n \<Rightarrow> valid_utf8 (drop n bs))"
  by pat_completeness auto
termination
  by (relation "measure length") auto

definition from_utf8 :: "string \<Rightarrow> bool" where
  "from_utf8 s = valid_utf8 (map of_char s)"

text \<open>\<open>split("\r\n")\<close> and \<open>lines\<close>.\<close>

fun split_crlf :: "string \<Rightarrow> string list" where
  "split_crlf [] = [[]]"
| "split_crlf [c] = [[c]]"
| "split_crlf (c # d # s) =
     (if c = CR \<and> d = LF then [] # split_crlf s
      else (case split_crlf (d # s) of [] \<Rightarrow> [[c]] | w # ws \<Rightarrow> (c # w) # ws))"

definition strip_cr :: "string \<Rightarrow> string" where
  "strip_cr l = (if l \<noteq> [] \<and> last l = CR then butlast l else l)"

definition text_lines :: "string \<Rightarrow> string list" where
  "text_lines s =
     (let ws = split_char LF s; n = length ws - 1
      in map strip_cr (take n ws) @ (if last ws = [] then [] else [last ws]))"

definition eq_ignore_case :: "string \<Rightarrow> string \<Rightarrow> bool" where
  "eq_ignore_case a b \<longleftrightarrow> map to_ascii_lowercase a = map to_ascii_lowercase b"

text \<open>\<open>line.split_once(':').is_some_and(|(k, v)| k.eq_ignore_ascii_case(name) && p(v.trim()))\<close>, for some line.\<close>

definition has_header :: "string \<Rightarrow> string \<Rightarrow> (string \<Rightarrow> bool) \<Rightarrow> bool" where
  "has_header header name ok \<longleftrightarrow>
     list_ex (\<lambda>l. case split_once (CHR '':'') l of None \<Rightarrow> False | Some (k, v) \<Rightarrow> eq_ignore_case k name \<and> ok (trim v))
       (text_lines header)"

definition is_ascii_control :: "char \<Rightarrow> bool" where
  "is_ascii_control c \<longleftrightarrow> (of_char c :: nat) < 0x20 \<or> c = CHR 0x7F"

definition token_marks :: string where
  "token_marks = ''!#$%&'' @ [CHR 0x27] @ ''*+-.^_`|~''"

section \<open>Length of the body\<close>

definition request_line_ok :: "string \<Rightarrow> bool" where
  "request_line_ok line =
     (case split_char (CHR '' '') line of
        [method, uri, version] \<Rightarrow>
          method \<noteq> [] \<and> list_all is_upper method \<and> starts_with ''/'' uri \<and> \<not> list_ex is_ascii_control uri
          \<and> version \<in> {''HTTP/1.0'', ''HTTP/1.1''}
      | _ \<Rightarrow> False)"

text \<open>A header line: \<open>seen\<close> are the names so far, \<open>len\<close> the length.\<close>

definition header_line :: "string \<Rightarrow> string list \<Rightarrow> nat option \<Rightarrow> (string list \<times> nat option, string) result" where
  "header_line line seen len =
     (case split_once (CHR '':'') line of
        None \<Rightarrow> Err ''Invalid HTTP header''
      | Some (name, v) \<Rightarrow>
          if name = [] \<or> \<not> list_all (\<lambda>b. is_alphanumeric b \<or> b \<in> set token_marks) name
             \<or> list_ex (\<lambda>b. is_ascii_control b \<and> b \<noteq> CHR 0x09) v
          then Err ''Invalid HTTP header''
          else
            (let name = map to_ascii_lowercase name; v = trim v
             in if name = ''transfer-encoding'' then Err ''Transfer-Encoding is not supported''
                else if name \<in> {''content-length'', ''host'', ''authorization''} \<and> name \<in> set seen
                then Err ''Duplicate HTTP framing or authentication header''
                else if name = ''content-length'' then
                  (if v = [] \<or> \<not> list_all is_digit v then Err ''Invalid Content-Length''
                   else (case parse_u64 v of
                       None \<Rightarrow> Err ''Invalid Content-Length''
                     | Some n \<Rightarrow> Ok (name # seen, Some n)))
                else Ok (name # seen, len)))"

primrec header_lines :: "string list \<Rightarrow> string list \<Rightarrow> nat option \<Rightarrow> (nat option, string) result" where
  "header_lines [] seen len = Ok len"
| "header_lines (line # lines) seen len =
     (if line = [] then Ok len
      else result_bind (header_line line seen len) (\<lambda>(seen, len). header_lines lines seen len))"

definition http_body_length :: "string \<Rightarrow> (nat, string) result" where
  "http_body_length header =
     (case split_crlf header of
        [] \<Rightarrow> Err ''Invalid HTTP request line''
      | first # lines \<Rightarrow>
          if \<not> request_line_ok first then Err ''Invalid HTTP request line''
          else
            (case header_lines lines [] None of
               Err e \<Rightarrow> Err e
             | Ok len \<Rightarrow>
                 (let n = (case len of None \<Rightarrow> 0 | Some n \<Rightarrow> n)
                  in if 1024 * 1024 < n then Err ''Request is too large'' else Ok n)))"

text \<open>
  \<open>read_http\<close> on the bytes that arrive until the peer closes: the header up to its empty line, then
  the body. \<open>eof\<close> and \<open>utf8\<close> are the texts of the library's errors.
\<close>

fun read_header :: "string \<Rightarrow> string \<Rightarrow> string \<Rightarrow> (string \<times> string, string) result" where
  "read_header eof header [] = Err eof"
| "read_header eof header (b # input) =
     (let header = b # header
      in if 16 * 1024 < length header then Err ''Header is too large''
         else if starts_with [LF, CR, LF, CR] header then Ok (rev header, input)
         else read_header eof header input)"

definition read_http :: "string \<Rightarrow> string \<Rightarrow> string \<Rightarrow> (string \<times> string, string) result" where
  "read_http eof utf8 input =
     result_bind (read_header eof [] input) (\<lambda>(header, rest).
       if \<not> from_utf8 header then Err utf8
       else result_bind (http_body_length header) (\<lambda>n.
         if length rest < n then Err eof else Ok (header, take n rest)))"

section \<open>Serving a folder\<close>

text \<open>
  What the server takes from libraries: the parser of JSON with the text of its error, the decoder
  of forms, and the texts of errors at the end of the input.
\<close>

record codec =
  parse_json :: "string \<Rightarrow> (json, string) result"
  serde_text :: "json \<Rightarrow> string"
  form_decode :: "string \<Rightarrow> string"
  eof_text :: string
  utf8_text :: string

text \<open>The derived \<open>Deserialize\<close> of \<open>FileRequest\<close>: the operation is required, the rest has defaults.\<close>

definition str_field :: "json_map \<Rightarrow> string \<Rightarrow> string option" where
  "str_field m k = (case map_of m k of None \<Rightarrow> Some [] | Some v \<Rightarrow> as_str v)"

definition u64_field :: "json_map \<Rightarrow> string \<Rightarrow> u64 option" where
  "u64_field m k = (case map_of m k of None \<Rightarrow> Some 0 | Some v \<Rightarrow> as_u64 v)"

definition decode_request :: "codec \<Rightarrow> json \<Rightarrow> (FileRequest, string) result" where
  "decode_request cd v =
     (case v of
        JObj m \<Rightarrow>
          (case (map_of m ''operation'', str_field m ''path'', str_field m ''destination'', u64_field m ''offset'',
                 u64_field m ''length'', str_field m ''data'') of
             (Some (JStr kind), Some path, Some destination, Some offset, Some len, Some data) \<Rightarrow>
               Ok \<lparr>rq_operation = kind, rq_path = path, rq_destination = destination, rq_offset = offset,
                   rq_length = len, rq_data = data\<rparr>
           | _ \<Rightarrow> Err (serde_text cd v))
      | _ \<Rightarrow> Err (serde_text cd v))"

datatype reply =
    Closed
  | TextReply nat string
  | JsonReply nat json
  | DavReply "location list"
  | HtmlReply "string list"
  | ContentReply nat bytes

record folder_server =
  srv_folder :: location
  srv_read_only :: bool
  srv_token :: string

definition authorized :: "folder_server \<Rightarrow> string \<Rightarrow> bool" where
  "authorized srv header = has_header header ''authorization'' (\<lambda>v. v = ''Bearer '' @ srv_token srv)"

definition files_reply :: "(json, string) result \<Rightarrow> reply" where
  "files_reply r =
     (case r of
        Ok v \<Rightarrow> JsonReply 200 v
      | Err e \<Rightarrow> JsonReply (if e = ''Not found'' then 404 else if str_contains ''already exists'' e then 409 else 403)
                  (json_obj [(''error'', JStr e)]))"

text \<open>The members of a directory that resolve inside the folder, at most the first 10000 entries.\<close>

definition members :: "tree \<Rightarrow> location \<Rightarrow> location \<Rightarrow> string list" where
  "members fs folder p =
     filter (\<lambda>c. case canonicalize fs (p @ [c]) of Ok q \<Rightarrow> prefix folder q | Err _ \<Rightarrow> False) (take 10000 (children fs p))"

definition dav_reply :: "host \<Rightarrow> folder_server \<Rightarrow> string \<Rightarrow> string \<Rightarrow> location \<Rightarrow> tree \<Rightarrow> reply" where
  "dav_reply h srv method header p fs =
     (if method = ''OPTIONS'' then TextReply 200 []
      else if method = ''PROPFIND'' then
        DavReply (p # (if node fs p = Some HDir \<and> \<not> list_ex (\<lambda>l. eq_ignore_case l ''Depth: 0'') (text_lines header)
                       then map (\<lambda>c. p @ [c]) (members fs (srv_folder srv) p) else []))
      else if method \<noteq> ''GET'' \<and> method \<noteq> ''HEAD'' then TextReply 405 ''Use the mounted share for writes''
      else (case node fs p of
          Some (HFile b) \<Rightarrow> ContentReply (length b) (if method = ''HEAD'' then [] else b)
        | _ \<Rightarrow> HtmlReply (members fs (srv_folder srv) p)))"

definition dav_path :: "codec \<Rightarrow> folder_server \<Rightarrow> string \<Rightarrow> string option" where
  "dav_path cd srv uri =
     map_option (\<lambda>relative. trim_end_matches (CHR ''/'')
         (form_decode cd (''path='' @ concat (map (\<lambda>c. if c = CHR ''+'' then ''%2B'' else [c]) relative))))
       (strip_prefix (''/'' @ srv_token srv @ ''/'') uri)"

definition serve_files :: "host \<Rightarrow> codec \<Rightarrow> folder_server \<Rightarrow> os_fault \<Rightarrow> string \<Rightarrow> string \<Rightarrow> tree \<Rightarrow> reply \<times> tree" where
  "serve_files h cd srv fault header body fs =
     (if \<not> authorized srv header then (TextReply 403 ''Forbidden'', fs)
      else (case result_bind (parse_json cd body) (decode_request cd) of
          Err e \<Rightarrow> (files_reply (Err e), fs)
        | Ok rq \<Rightarrow>
            (let (r, fs') = operation h (srv_folder srv) (srv_read_only srv) fault rq fs in (files_reply r, fs'))))"

definition serve_dav :: "host \<Rightarrow> codec \<Rightarrow> folder_server \<Rightarrow> string \<Rightarrow> string \<Rightarrow> string \<Rightarrow> tree \<Rightarrow> reply" where
  "serve_dav h cd srv method uri header fs =
     (case dav_path cd srv uri of
        None \<Rightarrow> TextReply 403 ''Forbidden''
      | Some relative \<Rightarrow>
          (case safe_path h fs (srv_folder srv) relative False of
             Err _ \<Rightarrow> TextReply 404 ''Not found''
           | Ok p \<Rightarrow> dav_reply h srv method header p fs))"

definition serve :: "host \<Rightarrow> codec \<Rightarrow> folder_server \<Rightarrow> os_fault \<Rightarrow> string \<Rightarrow> tree \<Rightarrow> reply \<times> tree" where
  "serve h cd srv fault input fs =
     (case read_http (eof_text cd) (utf8_text cd) input of
        Err _ \<Rightarrow> (Closed, fs)
      | Ok (header, body) \<Rightarrow>
          (let words = split_whitespace (case text_lines header of [] \<Rightarrow> [] | l # _ \<Rightarrow> l);
               method = (case words of [] \<Rightarrow> [] | w # _ \<Rightarrow> w);
               uri = (case words of _ # w # _ \<Rightarrow> w | _ \<Rightarrow> [])
           in if method = ''POST'' \<and> uri = ''/files'' then serve_files h cd srv fault header body fs
              else (serve_dav h cd srv method uri header fs, fs)))"

section \<open>The token\<close>

lemma suffix_trim_start: "suffix (trim_start s) s"
proof (induction s rule: trim_start.induct)
  case (1 s)
  show ?case
  proof (cases "white_prefix s")
    case (Some w)
    with 1 have "suffix (trim_start (drop (length w) s)) (drop (length w) s)" by simp
    then have "suffix (trim_start (drop (length w) s)) s" by (rule suffix_order.trans) (rule suffix_drop)
    with Some show ?thesis by (simp add: trim_start.simps [of s])
  qed (simp add: trim_start.simps [of s])
qed

lemma prefix_trim_end: "prefix (trim_end s) s"
proof (induction s rule: trim_end.induct)
  case (1 s)
  show ?case
  proof (cases "white_suffix s")
    case (Some w)
    with 1 have "prefix (trim_end (take (length s - length w) s)) (take (length s - length w) s)" by simp
    then have "prefix (trim_end (take (length s - length w) s)) s" by (rule prefix_order.trans) (rule take_is_prefix)
    with Some show ?thesis by (simp add: trim_end.simps [of s])
  qed (simp add: trim_end.simps [of s])
qed

lemma sublist_trim: "sublist (trim s) s"
  unfolding trim_def
  by (rule sublist_order.order_trans [OF prefix_imp_sublist [OF prefix_trim_end] suffix_imp_sublist [OF suffix_trim_start]])

lemma sublist_split_once: "split_once c s = Some (a, b) \<Longrightarrow> sublist b s"
  by (auto simp: split_once_Some sublist_def) (metis append_Cons append_Nil append_Nil2 append_assoc)

lemma sublist_split_char: "w \<in> set (split_char c s) \<Longrightarrow> sublist w s"
proof (induction s arbitrary: w)
  case (Cons d s)
  have ws: "split_char c s \<noteq> []" by (cases s) (auto split: list.splits)
  show ?case
  proof (cases "d = c \<or> w \<in> set (tl (split_char c s))")
    case True
    then have "w = [] \<or> w \<in> set (split_char c s)"
      using Cons.prems ws by (cases "split_char c s") (auto split: if_splits)
    with Cons.IH show ?thesis by (auto simp: sublist_Cons_right)
  next
    case False
    have "prefix (hd (split_char c s)) s" for s by (induction s) (auto split: list.splits)
    then have "prefix (d # hd (split_char c s)) (d # s)" by simp
    moreover have "w = d # hd (split_char c s)" using Cons.prems False ws by (cases "split_char c s") auto
    ultimately show ?thesis by blast
  qed
qed simp

lemma sublist_text_lines: "l \<in> set (text_lines s) \<Longrightarrow> sublist l s"
proof -
  assume l: "l \<in> set (text_lines s)"
  have ne: "split_char LF s \<noteq> []" by (cases s) (auto split: list.splits)
  from l obtain w where w: "w \<in> set (split_char LF s)" "l = w \<or> l = strip_cr w"
    using last_in_set [OF ne] by (auto simp: text_lines_def Let_def split: if_splits dest: in_set_takeD)
  have "prefix (strip_cr w) w" by (simp add: strip_cr_def prefixeq_butlast)
  with w sublist_split_char [OF w(1)] show "sublist l s" by (auto intro: sublist_order.order_trans prefix_imp_sublist)
qed

lemma sublist_split_white: "w \<in> set (split_white word s) \<Longrightarrow> sublist w (rev word @ s)"
proof (induction word s rule: split_white.induct)
  case (1 word s)
  show ?case
  proof (cases "white_prefix s")
    case (Some v)
    with 1 have "w = rev word \<or> sublist w (drop (length v) s)"
      by (auto simp: split_white.simps [of word s] split: if_splits)
    then show ?thesis
      by (auto intro: sublist_order.order_trans [OF _ suffix_imp_sublist [OF suffix_drop]] sublist_appendI prefix_imp_sublist
          simp: sublist_append)
  next
    case None
    show ?thesis
    proof (cases s)
      case Nil
      with "1.prems" None show ?thesis by (auto simp: split_white.simps [of word "[]"] split: if_splits)
    next
      case (Cons a t)
      with "1.prems" None have "w \<in> set (split_white (a # word) t)" by (simp add: split_white.simps [of word "a # t"])
      with "1.IH"(1) [OF refl None Cons] Cons show ?thesis by simp
    qed
  qed
qed

lemma read_header_Ok: "read_header eof acc input = Ok (header, rest) \<Longrightarrow> header @ rest = rev acc @ input"
  by (induction eof acc input rule: read_header.induct) (auto simp: Let_def split: if_splits)

text \<open>Where the empty line comes first at the end of what is read.\<close>

fun ends_header :: "string \<Rightarrow> string \<Rightarrow> bool" where
  "ends_header header [] = False"
| "ends_header header (b # input) =
     (if starts_with [LF, CR, LF, CR] (b # header) then input = [] else ends_header (b # header) input)"

lemma read_header_finds:
  "ends_header acc xs \<Longrightarrow> length acc + length xs \<le> 16 * 1024 \<Longrightarrow> read_header eof acc (xs @ rest) = Ok (rev acc @ xs, rest)"
  by (induction acc xs rule: ends_header.induct) (auto simp: Let_def split: if_splits)

lemma read_http_Ok:
  assumes "read_http eof utf8 input = Ok (header, body)"
  shows "prefix header input" "\<exists>rest. input = header @ rest \<and> prefix body rest"
    "\<exists>n. http_body_length header = Ok n \<and> length body = n"
proof -
  from assms obtain rest n where r: "read_header eof [] input = Ok (header, rest)" "http_body_length header = Ok n"
    "n \<le> length rest" "body = take n rest"
    by (auto simp: read_http_def split: if_splits)
  from read_header_Ok [OF r(1)] have "input = header @ rest" by simp
  with r show "prefix header input" "\<exists>rest. input = header @ rest \<and> prefix body rest"
    "\<exists>n. http_body_length header = Ok n \<and> length body = n" by (auto simp: take_is_prefix)
qed

lemma authorized_token: "authorized srv header \<Longrightarrow> sublist (srv_token srv) header"
proof -
  assume "authorized srv header"
  then obtain l k v where l: "l \<in> set (text_lines header)" "split_once (CHR '':'') l = Some (k, v)" "trim v = ''Bearer '' @ srv_token srv"
    by (auto simp: authorized_def has_header_def list_ex_iff split: option.splits)
  have "sublist (srv_token srv) (trim v)" unfolding l(3) by (intro suffix_imp_sublist) (simp add: suffix_def)
  also have "sublist (trim v) v" by (rule sublist_trim)
  also have "sublist v l" using l(2) by (rule sublist_split_once)
  also have "sublist l header" using l(1) by (rule sublist_text_lines)
  finally show ?thesis .
qed

text \<open>
  Without the token of the server nothing happens: bytes in which it does not occur get no answer or
  "Forbidden", and change nothing.
\<close>

theorem no_token_no_access:
  assumes "\<not> sublist (srv_token srv) input" and "serve h cd srv fault input fs = (r, fs')"
  shows "(r = Closed \<or> r = TextReply 403 ''Forbidden'') \<and> fs' = fs"
proof (cases "read_http (eof_text cd) (utf8_text cd) input")
  case (Err e)
  with assms(2) show ?thesis by (simp add: serve_def)
next
  case (Ok hb)
  obtain header body where hb: "hb = (header, body)" by (cases hb)
  have h: "sublist header input" using read_http_Ok(1) [of "eof_text cd" "utf8_text cd" input header body] Ok hb by (blast intro: prefix_imp_sublist)
  have na: "\<not> authorized srv header" using authorized_token h assms(1) by (blast intro: sublist_order.order_trans)
  define ws where "ws = split_whitespace (case text_lines header of [] \<Rightarrow> [] | l # _ \<Rightarrow> l)"
  have "sublist w header" if "w \<in> set ws" for w
  proof (cases "text_lines header")
    case Nil
    with that show ?thesis using sublist_split_white [of w "[]" "[]"] by (simp add: ws_def split_whitespace_def)
  next
    case (Cons l ls)
    with that have "sublist w l" using sublist_split_white [of w "[]" l] by (simp add: ws_def split_whitespace_def)
    moreover have "sublist l header" using Cons by (intro sublist_text_lines) simp
    ultimately show ?thesis by (rule sublist_order.order_trans)
  qed
  then have w: "\<not> sublist (srv_token srv) w" if "w \<in> set ws" for w
    using that h assms(1) by (blast intro: sublist_order.order_trans)
  have nt: "strip_prefix (''/'' @ srv_token srv @ ''/'') u = None" if "\<not> sublist (srv_token srv) u" for u
  proof (rule ccontr)
    assume "strip_prefix (''/'' @ srv_token srv @ ''/'') u \<noteq> None"
    then have "prefix (''/'' @ srv_token srv @ ''/'') u" by (simp add: strip_prefix_def starts_with_prefix split: if_splits)
    then obtain z where "u = ''/'' @ srv_token srv @ ''/'' @ z" by (auto simp: prefix_def)
    then have "sublist (srv_token srv) u" unfolding sublist_def by (intro exI [of _ "''/''"] exI [of _ "''/'' @ z"])
    with that show False ..
  qed
  have "\<not> sublist (srv_token srv) (case ws of _ # u # _ \<Rightarrow> u | _ \<Rightarrow> []) \<or> srv_token srv = []"
    using w by (auto split: list.splits)
  moreover have "srv_token srv \<noteq> []" using assms(1) by auto
  ultimately have "dav_path cd srv (case ws of _ # u # _ \<Rightarrow> u | _ \<Rightarrow> []) = None" using nt by (simp add: dav_path_def)
  note dav = this
  have "serve_files h cd srv fault header body fs = (TextReply 403 ''Forbidden'', fs)" using na by (simp add: serve_files_def)
  moreover have "serve_dav h cd srv m (case ws of _ # u # _ \<Rightarrow> u | _ \<Rightarrow> []) header fs = TextReply 403 ''Forbidden''" for m
    using dav by (simp add: serve_dav_def)
  ultimately show ?thesis
    using assms(2) by (simp add: serve_def Ok hb Let_def ws_def [symmetric] split: if_splits)
qed

section \<open>Requests over the network stay inside the folder\<close>

lemma serve_tree:
  "snd (serve h cd srv fault input fs) = fs
   \<or> (\<exists>rq. snd (serve h cd srv fault input fs) = snd (operation h (srv_folder srv) (srv_read_only srv) fault rq fs))"
proof (cases "read_http (eof_text cd) (utf8_text cd) input")
  case (Ok hb)
  obtain header body where hb: "hb = (header, body)" by (cases hb)
  have "snd (serve_files h cd srv fault header body fs) = fs
      \<or> (\<exists>rq. snd (serve_files h cd srv fault header body fs) = snd (operation h (srv_folder srv) (srv_read_only srv) fault rq fs))"
    by (cases "result_bind (parse_json cd body) (decode_request cd)") (auto simp: serve_files_def split_def Let_def)
  then show ?thesis by (simp add: serve_def Ok hb Let_def)
qed (simp add: serve_def)

interpretation server: folder_service
  "\<lambda>folder read_only (token, fault, input). serve h cd \<lparr>srv_folder = folder, srv_read_only = read_only, srv_token = token\<rparr> fault input"
  map_of share_ok for h cd
proof
  fix fs folder read_only p and q :: "string \<times> os_fault \<times> string"
  obtain token fault input where q: "q = (token, fault, input)" by (cases q)
  let ?fs = "\<lambda>read_only. snd ((\<lambda>(token, fault, input). serve h cd \<lparr>srv_folder = folder, srv_read_only = read_only, srv_token = token\<rparr> fault input) q fs)"
  have c: "?fs read_only = fs \<or> (\<exists>rq. ?fs read_only = snd (operation h folder read_only fault rq fs))" for read_only
    using serve_tree [of h cd "\<lparr>srv_folder = folder, srv_read_only = read_only, srv_token = token\<rparr>" fault input fs] by (simp add: q)
  have *: "confined folder fs (?fs read_only)" if "share_ok fs folder"
    using c [of read_only] confined_refl [OF that] operation_confined [OF that] by metis
  show "share_ok (?fs read_only) folder" if "share_ok fs folder" using * [OF that] by (simp add: confined_def)
  show "map_of (?fs read_only) p = map_of fs p" if "share_ok fs folder" "\<not> prefix folder p"
    using * [OF that(1)] that(2) by (simp add: confined_def)
  show "?fs True = fs" using c [of True] operation_read_only by metis
qed

text \<open>The connections that a server accepts one after the other: the bytes of each, and the faults of the system.\<close>

definition serve_all :: "host \<Rightarrow> codec \<Rightarrow> folder_server \<Rightarrow> (os_fault \<times> string) list \<Rightarrow> tree \<Rightarrow> tree" where
  "serve_all h cd srv inputs fs = fold (\<lambda>(fault, input) fs. snd (serve h cd srv fault input fs)) inputs fs"

text \<open>
  C16. Whatever bytes clients send to the server of a shared folder, with any paths, links and failures of
  the system: the folder stays a directory of a well-formed tree, nothing outside it changes, and a
  read-only server changes nothing at all.
\<close>

theorem folder_server_confined:
  assumes "share_ok fs (srv_folder srv)" and "fs' = serve_all h cd srv inputs fs"
  shows "share_ok fs' (srv_folder srv) \<and> (\<not> prefix (srv_folder srv) p \<longrightarrow> node fs' p = node fs p) \<and> (srv_read_only srv \<longrightarrow> fs' = fs)"
proof -
  have srv: "\<lparr>srv_folder = srv_folder srv, srv_read_only = srv_read_only srv, srv_token = srv_token srv\<rparr> = srv" by simp
  define rqs where "rqs = map (\<lambda>(fault, input). (srv_read_only srv, srv_token srv, fault, input)) inputs"
  have "fs' = fold (\<lambda>(ro, q) fs. snd ((case q of (token, fault, input) \<Rightarrow>
      serve h cd \<lparr>srv_folder = srv_folder srv, srv_read_only = ro, srv_token = token\<rparr> fault input) fs)) rqs fs"
    unfolding assms(2) serve_all_def rqs_def fold_map by (rule arg_cong2 [of _ _ _ _ "\<lambda>f. fold f inputs"]) (auto simp: fun_eq_iff srv)
  moreover have "list_all fst rqs" if "srv_read_only srv" using that by (simp add: rqs_def list_all_iff split_def)
  ultimately show ?thesis
    using server.session_inside [OF assms(1), of h cd rqs p] server.session_read_only [of rqs h cd "srv_folder srv" fs] by blast
qed

section \<open>The framing is unambiguous\<close>

text \<open>Name and value of a header line, and the lines of the header section.\<close>

definition line_name :: "string \<Rightarrow> string" where
  "line_name l = (case split_once (CHR '':'') l of None \<Rightarrow> [] | Some (k, _) \<Rightarrow> map to_ascii_lowercase k)"

definition line_value :: "string \<Rightarrow> string" where
  "line_value l = (case split_once (CHR '':'') l of None \<Rightarrow> [] | Some (_, v) \<Rightarrow> trim v)"

definition section_lines :: "string \<Rightarrow> string list" where
  "section_lines header = takeWhile (\<lambda>l. l \<noteq> []) (tl (split_crlf header))"

lemma header_line_Ok:
  assumes "header_line l seen len = Ok (seen', len')"
  shows "seen' = line_name l # seen" "line_name l \<noteq> ''transfer-encoding'' \<and> line_name l \<noteq> []"
    "line_name l = ''content-length'' \<Longrightarrow> ''content-length'' \<notin> set seen \<and> len' = parse_u64 (line_value l) \<and> len' \<noteq> None"
    "line_name l \<noteq> ''content-length'' \<Longrightarrow> len' = len"
proof -
  obtain k v where so: "split_once (CHR '':'') l = Some (k, v)"
    using assms by (cases "split_once (CHR '':'') l") (auto simp: header_line_def)
  define nm val where "nm = map to_ascii_lowercase k" and "val = trim v"
  have n: "line_name l = nm" "line_value l = val" by (simp_all add: line_name_def line_value_def so nm_def val_def)
  have k: "k \<noteq> []" "nm \<noteq> ''transfer-encoding''" "seen' = nm # seen"
    "if nm = ''content-length'' then nm \<notin> set seen \<and> parse_u64 val \<noteq> None \<and> len' = parse_u64 val else len' = len"
    using assms [unfolded header_line_def so option.case prod.case Let_def, folded nm_def val_def]
    by (cases "parse_u64 val"; simp split: if_splits)+
  from k(1) have "nm \<noteq> []" by (simp add: nm_def)
  with k show "seen' = line_name l # seen" "line_name l \<noteq> ''transfer-encoding'' \<and> line_name l \<noteq> []"
    "line_name l = ''content-length'' \<Longrightarrow> ''content-length'' \<notin> set seen \<and> len' = parse_u64 (line_value l) \<and> len' \<noteq> None"
    "line_name l \<noteq> ''content-length'' \<Longrightarrow> len' = len"
    unfolding n by simp_all
qed

lemma header_lines_Ok:
  assumes "header_lines lines seen len = Ok len'"
  defines "ls \<equiv> takeWhile (\<lambda>l. l \<noteq> []) lines"
  shows "list_all (\<lambda>l. line_name l \<notin> {[], ''transfer-encoding''}) ls"
    and "case filter (\<lambda>l. line_name l = ''content-length'') ls of
        [] \<Rightarrow> len' = len
      | [l] \<Rightarrow> ''content-length'' \<notin> set seen \<and> len' = parse_u64 (line_value l) \<and> len' \<noteq> None
      | _ \<Rightarrow> False"
  using assms(1) unfolding ls_def
proof (induction lines arbitrary: seen len)
  case (Cons l lines)
  { case 1
    show ?case
    proof (cases "l = []")
      case False
      with 1 obtain s n where h: "header_line l seen len = Ok (s, n)" "header_lines lines s n = Ok len'" by auto
      with Cons.IH(1) [OF h(2)] header_line_Ok(2) [OF h(1)] False show ?thesis by simp
    qed simp
  next
    case 2
    show ?case
    proof (cases "l = []")
      case True
      with 2 show ?thesis by simp
    next
      case False
      with 2 obtain s n where h: "header_line l seen len = Ok (s, n)" "header_lines lines s n = Ok len'" by auto
      note ih = Cons.IH(2) [OF h(2)] and hl = header_line_Ok [OF h(1)]
      show ?thesis
      proof (cases "line_name l = ''content-length''")
        case True
        with ih hl have "filter (\<lambda>l. line_name l = ''content-length'') (takeWhile (\<lambda>l. l \<noteq> []) lines) = []"
          by (auto split: list.splits)
        with True False ih hl show ?thesis by auto
      next
        case f: False
        with False ih hl show ?thesis by (auto split: list.splits)
      qed
    qed
  }
qed simp_all

text \<open>
  An accepted header has one meaning: no transfer encoding, every line named, at most one
  \<open>Content-Length\<close>, which is then the length of the body (absent, the body is empty), and the body
  is at most one MiB.
\<close>

theorem body_length_unambiguous:
  assumes "http_body_length header = Ok n"
  shows "n \<le> 1048576 \<and> list_all (\<lambda>l. line_name l \<notin> {[], ''transfer-encoding''}) (section_lines header)
    \<and> (case filter (\<lambda>l. line_name l = ''content-length'') (section_lines header) of
         [] \<Rightarrow> n = 0
       | [l] \<Rightarrow> parse_u64 (line_value l) = Some n
       | _ \<Rightarrow> False)"
proof -
  from assms obtain first lines len where h: "split_crlf header = first # lines" "header_lines lines [] None = Ok len"
    "n = (case len of None \<Rightarrow> 0 | Some n \<Rightarrow> n)" "n \<le> 1048576"
    by (auto simp: http_body_length_def Let_def split: list.splits if_splits result.splits)
  from header_lines_Ok [OF h(2)] h show ?thesis by (auto simp: section_lines_def split: list.splits option.splits)
qed

section \<open>A request over the network\<close>

definition example_codec_of :: codec where
  "example_codec_of = \<lparr>parse_json = (\<lambda>_. Ok (JObj [(''data'', JStr ''hi''), (''length'', json_int 2), (''operation'', JStr ''write''), (''path'', JStr ''a'')])),
     serde_text = (\<lambda>_. ''invalid''), form_decode = (\<lambda>s. s), eof_text = ''early eof'', utf8_text = ''invalid utf-8''\<rparr>"

definition example_server :: folder_server where
  "example_server = \<lparr>srv_folder = [''s''], srv_read_only = False, srv_token = ''t0''\<rparr>"

definition example_header :: string where
  "example_header = ''POST /files HTTP/1.1'' @ [CR, LF] @ ''Authorization: Bearer t0'' @ [CR, LF] @ ''Content-Length: 2'' @ [CR, LF, CR, LF]"

lemma example_split: "split_crlf example_header
    = [''POST /files HTTP/1.1'', ''Authorization: Bearer t0'', ''Content-Length: 2'', [], []]"
  by code_simp

lemma example_length: "http_body_length example_header = Ok 2"
proof -
  have "request_line_ok ''POST /files HTTP/1.1''" by code_simp
  moreover have "header_line ''Authorization: Bearer t0'' [] None = Ok ([''authorization''], None)" by code_simp
  moreover have "header_line ''Content-Length: 2'' [''authorization''] None = Ok ([''content-length'', ''authorization''], Some 2)"
  proof -
    have a: "split_once (CHR '':'') ''Content-Length: 2'' = Some (''Content-Length'', '' 2'')" "trim '' 2'' = ''2''"
      "list_all (\<lambda>b. is_alphanumeric b \<or> b \<in> set token_marks) ''Content-Length''"
      "list_ex (\<lambda>b. is_ascii_control b \<and> b \<noteq> CHR 0x09) '' 2'' = False" "list_all is_digit ''2'' = True"
      "map to_ascii_lowercase ''Content-Length'' = ''content-length''"
      by code_simp+
    have "show_nat 2 = ''2''" by code_simp
    then have "parse_u64 ''2'' = Some 2" using parse_show_u64 [of 2] by simp
    then show ?thesis
      unfolding header_line_def a(1) option.case prod.case a(6) Let_def a(2,4,5) using a(3) by simp
  qed
  ultimately show ?thesis by (simp add: http_body_length_def example_split)
qed

lemma example_auth: "authorized example_server example_header"
  by code_simp

lemma example_read:
  "read_http (eof_text example_codec_of) (utf8_text example_codec_of) (example_header @ ''{}'') = Ok (example_header, ''{}'')"
proof -
  have "ends_header [] example_header" by code_simp
  moreover have "length example_header \<le> 16 * 1024" by (simp add: example_header_def)
  ultimately have "read_header eof [] (example_header @ ''{}'') = Ok (example_header, ''{}'')" for eof
    using read_header_finds [of "[]" example_header] by simp
  moreover have "from_utf8 example_header" by code_simp
  ultimately show ?thesis by (simp add: read_http_def example_length)
qed

lemma example_words: "split_whitespace (case text_lines example_header of [] \<Rightarrow> [] | l # _ \<Rightarrow> l) = [''POST'', ''/files'', ''HTTP/1.1'']"
  by code_simp

lemma example_serve: "serve posix_host example_codec_of example_server None (example_header @ ''{}'') example_tree
    = (files_reply (Ok (json_obj [(''count'', json_int 2)])), written_tree)"
proof -
  obtain v where "parse_json example_codec_of ''{}'' = Ok v" "decode_request example_codec_of v = Ok (example_rq ''write'' ''a'' ''hi'')"
    by (simp add: example_codec_of_def decode_request_def str_field_def u64_field_def json_int_def example_rq_def)
  then have "serve_files posix_host example_codec_of example_server None example_header ''{}'' example_tree
     = (files_reply (Ok (json_obj [(''count'', json_int 2)])), written_tree)"
    using example_auth example_write by (simp add: serve_files_def) (simp add: example_server_def)
  then show ?thesis by (simp add: serve_def example_read example_words Let_def)
qed

theorem body_length_unambiguous_witness:
  "filter (\<lambda>l. line_name l = ''content-length'') (section_lines example_header) = [''Content-Length: 2'']
   \<and> parse_u64 (line_value ''Content-Length: 2'') = Some 2"
proof -
  have f: "filter (\<lambda>l. line_name l = ''content-length'') (section_lines example_header) = [''Content-Length: 2'']" by code_simp
  with body_length_unambiguous [OF example_length] show ?thesis by simp
qed

theorem folder_server_confined_witness:
  "\<exists>fs'. fs' = serve_all posix_host example_codec_of example_server [(None, example_header @ ''{}'')] example_tree
     \<and> node fs' [''s'', ''a''] = Some (HFile [104, 105]) \<and> node fs' [''x'', ''k''] = Some (HFile [7]) \<and> share_ok fs' [''s'']"
proof -
  have r: "written_tree = serve_all posix_host example_codec_of example_server [(None, example_header @ ''{}'')] example_tree"
    by (simp add: serve_all_def example_serve)
  have ok: "share_ok example_tree (srv_folder example_server)" by (simp add: example_server_def example_share_ok)
  have "node example_tree [''x'', ''k''] = Some (HFile [7])" by (simp add: example_tree_def)
  with folder_server_confined [OF ok r, of "[''x'', ''k'']"]
  have "node written_tree [''x'', ''k''] = Some (HFile [7])" "share_ok written_tree [''s'']" by (simp_all add: example_server_def)
  moreover have "node written_tree [''s'', ''a''] = Some (HFile [104, 105])" by (simp add: written_tree_def)
  ultimately show ?thesis using r by blast
qed

theorem no_token_no_access_witness:
  "serve posix_host example_codec_of (example_server\<lparr>srv_token := ''secret''\<rparr>) None (example_header @ ''{}'') example_tree
     = (TextReply 403 ''Forbidden'', example_tree)"
proof -
  let ?srv = "example_server\<lparr>srv_token := ''secret''\<rparr>"
  obtain r fs' where s: "serve posix_host example_codec_of ?srv None (example_header @ ''{}'') example_tree = (r, fs')" by fastforce
  have "\<not> sublist ''secret'' (example_header @ ''{}'')" by (simp add: example_header_def sublist_code)
  with no_token_no_access [OF _ s] have "r = Closed \<or> r = TextReply 403 ''Forbidden''" "fs' = example_tree" by simp_all
  moreover have "r \<noteq> Closed" using s
    by (auto simp: serve_def example_read example_words serve_files_def files_reply_def Let_def split: result.splits if_splits prod.splits)
  ultimately show ?thesis using s by simp
qed

end
