(* ===== verification/Shared_Files.thy ===== *)
theory Shared_Files
  imports Host_Server Models
begin

text \<open>
  \<open>runtime/connection_files.rs\<close>: the folders of connections. A connection with a storage permission
  gets a directory of its own and two servers of it (\<open>Host_Server\<close>), writable for the source and
  read-only for the target unless the connection goes both ways; guests reach them through
  \<open>handle\<close>, by the identity of their network socket. Modelled are the table of shares, applying and
  removing connections with the attach and detach calls, and the requests of guests, as steps on the
  shares and the host's tree. What runtimes and agents answer is the record \<open>share_runtime\<close>.
\<close>

section \<open>The shares\<close>

definition GUEST_URL :: string where
  "GUEST_URL = ''http://10.192.0.1:7444''"

text \<open>\<open>sha_identity\<close> tells two shares of one connection apart, as the address of the \<open>Arc\<close> does.\<close>

record Share =
  sha_identity :: nat
  sha_environments :: "Environment list"
  sha_source :: string
  sha_target :: string
  sha_label :: string
  sha_both :: bool
  sha_source_server :: folder_server
  sha_target_server :: folder_server

type_synonym shares = "(string \<times> Share) list"

definition storage_permission :: "PermissionKind list \<Rightarrow> bool" where
  "storage_permission permissions = list_ex (\<lambda>p. p \<in> {Files, Volumes, Data}) permissions"

definition safe_id :: "string \<Rightarrow> bool" where
  "safe_id i \<longleftrightarrow> i \<noteq> [] \<and> length i \<le> 128 \<and> list_all (\<lambda>b. is_alphanumeric b \<or> b = CHR ''-'' \<or> b = CHR ''_'') i"

definition share_insert :: "string \<Rightarrow> Share \<Rightarrow> shares \<Rightarrow> shares" where
  "share_insert i sh shs = (i, sh) # filter (\<lambda>(j, _). j \<noteq> i) shs"

text \<open>\<open>remove\<close> and \<open>remove_environment\<close>: the shares that stay, and the servers that are stopped.\<close>

definition share_remove :: "string \<Rightarrow> shares \<Rightarrow> shares \<times> folder_server list" where
  "share_remove i shs =
     (filter (\<lambda>(j, _). j \<noteq> i) shs,
      (case map_of shs i of None \<Rightarrow> [] | Some sh \<Rightarrow> [sha_source_server sh, sha_target_server sh]))"

definition remove_environment :: "string \<Rightarrow> shares \<Rightarrow> shares \<times> folder_server list" where
  "remove_environment e shs =
     (let gone = (\<lambda>(_, sh). sha_source sh = e \<or> sha_target sh = e)
      in (filter (Not \<circ> gone) shs,
          concat (map (\<lambda>(_, sh). [sha_source_server sh, sha_target_server sh]) (filter gone shs))))"

definition shares_available :: "string \<Rightarrow> shares \<Rightarrow> bool" where
  "shares_available e shs = list_ex (\<lambda>(_, sh). sha_source sh = e \<or> sha_target sh = e) shs"

section \<open>Requests of a guest\<close>

text \<open>
  What becomes of the call to the folder's server: it does not reach it, its answer is lost after the
  server has worked, or it is answered. \<open>size_of\<close> is the length of a value's JSON.
\<close>

datatype delivery = Unsent | Lost | Answered

datatype guest_reply = Page | ConnectionList json | FileApi nat json

definition position_end :: "string \<Rightarrow> nat option" where
  "position_end s = List.find (\<lambda>i. starts_with [CR, LF, CR, LF] (drop i s)) [0..<length s]"

definition check_guest_header :: "string \<Rightarrow> (unit, string) result" where
  "check_guest_header header =
     (if \<not> has_header header ''host'' (\<lambda>v. v = ''10.192.0.1:7444'') then Err ''Invalid file service host''
      else if has_header header ''origin'' (\<lambda>v. v \<noteq> GUEST_URL) then Err ''Cross-origin file access is blocked''
      else Ok ())"

definition connection_entries :: "string \<Rightarrow> shares \<Rightarrow> json" where
  "connection_entries e shs =
     JArr (map (\<lambda>(i, sh). json_obj [(''id'', JStr i), (''label'', JStr (sha_label sh)),
              (''writable'', JBool (sha_source sh = e \<or> sha_both sh))])
            (filter (\<lambda>(_, sh). sha_source sh = e \<or> sha_target sh = e) shs))"

definition server_for :: "string \<Rightarrow> Share \<Rightarrow> folder_server option" where
  "server_for e sh =
     (if sha_source sh = e then Some (sha_source_server sh)
      else if sha_target sh = e then Some (sha_target_server sh)
      else None)"

text \<open>The file API of a server, as \<open>serve_files\<close> answers a call with its token and this body.\<close>

definition call_server :: "host \<Rightarrow> codec \<Rightarrow> (json \<Rightarrow> nat) \<Rightarrow> delivery \<Rightarrow> os_fault \<Rightarrow> folder_server \<Rightarrow> json \<Rightarrow> tree
    \<Rightarrow> (nat \<times> json, string) result \<times> tree" where
  "call_server h cd size_of delivery fault srv body fs =
     (if delivery = Unsent \<or> 1024 * 1024 < size_of body then (Err ''Shared folder is unavailable'', fs)
      else
        (let (reply, fs') =
           (case decode_request cd body of
              Err e \<Rightarrow> (files_reply (Err e), fs)
            | Ok rq \<Rightarrow> (let (r, fs') = operation h (srv_folder srv) (srv_read_only srv) fault rq fs in (files_reply r, fs')))
         in (if delivery = Lost then Err ''Shared folder is unavailable''
             else (case reply of JsonReply status v \<Rightarrow> Ok (status, v) | _ \<Rightarrow> Err ''Shared folder is unavailable''), fs')))"

text \<open>The call for a connection; \<open>later\<close> are the shares when the server has answered.\<close>

definition file_api :: "host \<Rightarrow> codec \<Rightarrow> (json \<Rightarrow> nat) \<Rightarrow> delivery \<Rightarrow> os_fault \<Rightarrow> string \<Rightarrow> json \<Rightarrow> shares \<Rightarrow> shares \<Rightarrow> tree
    \<Rightarrow> (guest_reply, string) result \<times> tree" where
  "file_api h cd size_of delivery fault e body shs later fs =
     (case (case body of JObj m \<Rightarrow> (case map_of m ''connectionId'' of Some (JStr i) \<Rightarrow> Some (i, m) | _ \<Rightarrow> None) | _ \<Rightarrow> None) of
        None \<Rightarrow> (Err ''Choose a connection'', fs)
      | Some (i, m) \<Rightarrow>
          (case map_of shs i of
             None \<Rightarrow> (Err ''This connection is disconnected'', fs)
           | Some sh \<Rightarrow>
               (case server_for e sh of
                  None \<Rightarrow> (Err ''This environment cannot access that connection'', fs)
                | Some srv \<Rightarrow>
                    (let (r, fs') = call_server h cd size_of delivery fault srv (JObj (map_remove ''connectionId'' m)) fs
                     in (case r of
                           Err err \<Rightarrow> (Err err, fs')
                         | Ok (status, v) \<Rightarrow>
                             if map_option sha_identity (map_of later i) \<noteq> Some (sha_identity sh)
                             then (Err ''This connection was disconnected'', fs')
                             else (Ok (FileApi status v), fs'))))))"

definition handle :: "host \<Rightarrow> codec \<Rightarrow> (json \<Rightarrow> nat) \<Rightarrow> delivery \<Rightarrow> os_fault \<Rightarrow> string \<Rightarrow> string \<Rightarrow> shares \<Rightarrow> shares \<Rightarrow> tree
    \<Rightarrow> (guest_reply, string) result \<times> tree" where
  "handle h cd size_of delivery fault e request shs later fs =
     (case position_end request of
        None \<Rightarrow> (Err ''Invalid request'', fs)
      | Some split \<Rightarrow>
          (let header = take split request
           in if \<not> from_utf8 header then (Err ''Invalid headers'', fs)
              else
                (let words = split_whitespace (case text_lines header of [] \<Rightarrow> [] | l # _ \<Rightarrow> l);
                     method = (case words of [] \<Rightarrow> [] | w # _ \<Rightarrow> w);
                     uri = (case words of _ # w # _ \<Rightarrow> w | _ \<Rightarrow> [])
                 in case check_guest_header header of
                      Err err \<Rightarrow> (Err err, fs)
                    | Ok _ \<Rightarrow>
                        if method = ''GET'' \<and> uri = ''/'' then (Ok Page, fs)
                        else if method = ''GET'' \<and> uri = ''/connections'' then (Ok (ConnectionList (connection_entries e shs)), fs)
                        else if method \<noteq> ''POST'' \<or> uri \<noteq> ''/api'' \<or> \<not> has_header header ''x-opendock-files'' (\<lambda>v. v = ''1'')
                        then (Err ''Use the shared files API with X-OpenDock-Files: 1'', fs)
                        else
                          (case parse_json cd (drop (split + 4) request) of
                             Err _ \<Rightarrow> (Err ''Invalid file request'', fs)
                           | Ok body \<Rightarrow> file_api h cd size_of delivery fault e body shs later fs))))"

definition http :: "(guest_reply, string) result \<Rightarrow> nat \<times> guest_reply" where
  "http r = (case r of
      Ok Page \<Rightarrow> (200, Page)
    | Ok (ConnectionList v) \<Rightarrow> (200, ConnectionList v)
    | Ok (FileApi status v) \<Rightarrow> (status, FileApi status v)
    | Err e \<Rightarrow> (403, FileApi 403 (json_obj [(''error'', JStr e)])))"

section \<open>Applying a connection\<close>

text \<open>\<open>std::fs::create_dir_all\<close>: the missing directories of a path, from the top.\<close>

function create_dir_all :: "tree \<Rightarrow> location \<Rightarrow> (tree, os_error) result" where
  "create_dir_all fs p =
     (case canonicalize fs p of
        Ok q \<Rightarrow> if node fs q = Some HDir then Ok fs else Err EEXIST
      | Err e \<Rightarrow>
          if p = [] then Err e
          else result_bind (create_dir_all fs (butlast p)) (\<lambda>fs'.
            result_bind (canonicalize fs' (butlast p)) (\<lambda>q. add_node (q @ [last p]) HDir fs')))"
  by pat_completeness auto
termination
  by (relation "measure (length \<circ> snd)") auto

declare create_dir_all.simps [simp del]

text \<open>The folder of a connection, a real directory under \<open>connection-files\<close>.\<close>

definition connection_folder :: "host \<Rightarrow> location \<Rightarrow> string \<Rightarrow> tree \<Rightarrow> (location, string) result \<times> tree" where
  "connection_folder h data_root i fs =
     (case create_dir_all fs (data_root @ [''connection-files'']) of
        Err e \<Rightarrow> (Err (os_text h e), fs)
      | Ok fs \<Rightarrow>
          (case canonicalize fs (data_root @ [''connection-files'']) of
             Err e \<Rightarrow> (Err (os_text h e), fs)
           | Ok parent \<Rightarrow>
               (let folder = parent @ [i]
                in case (if path_exists fs folder then Ok fs else add_node folder HDir fs) of
                     Err e \<Rightarrow> (Err (os_text h e), fs)
                   | Ok fs \<Rightarrow>
                       (case node fs folder of
                          None \<Rightarrow> (Err (os_text h ENOENT), fs)
                        | Some n \<Rightarrow>
                            if n \<noteq> HDir \<or> canonicalize fs folder \<noteq> Ok folder then (Err ''Unsafe connection folder'', fs)
                            else (Ok folder, fs)))))"

text \<open>
  What the runtime answers: whether a MicroVM has an agent, the endpoint of a folder for an
  environment, the answer to an attach request, the tokens of the two new servers or an error, and
  the identity of the new share.
\<close>

record share_runtime =
  sr_agent :: "Environment \<Rightarrow> bool"
  sr_endpoint :: "Environment \<Rightarrow> (string, string) result"
  sr_attach :: "Environment \<Rightarrow> (unit, string) result"
  sr_tokens :: "(string \<times> string, string) result"
  sr_identity :: nat

datatype share_call = Attach string string string bool | Detach string string

abbreviation endpoint_id :: "Environment \<Rightarrow> string" where
  "endpoint_id e \<equiv> (case env_runtime_id e of Some r \<Rightarrow> r | None \<Rightarrow> env_id e)"

definition remove_shared_files :: "string \<Rightarrow> shares \<Rightarrow> shares \<times> share_call list" where
  "remove_shared_files i shs =
     (fst (share_remove i shs),
      (case map_of shs i of
         None \<Rightarrow> []
       | Some sh \<Rightarrow> map (\<lambda>e. Detach (endpoint_id e) i) (filter (\<lambda>e. env_kind e \<notin> {FullVm, Cloud}) (sha_environments sh))))"

text \<open>Attaching the folder in one environment: \<open>None\<close> if it is passed over.\<close>

definition attach_one :: "share_runtime \<Rightarrow> string \<Rightarrow> Environment \<Rightarrow> folder_server \<Rightarrow> bool
    \<Rightarrow> ((unit, string) result \<times> share_call list)" where
  "attach_one rt i e srv read_only =
     (if env_kind e \<in> {FullVm, Cloud} \<or> env_kind e = MicroVm \<and> \<not> sr_agent rt e then (Ok (), [])
      else (case sr_endpoint rt e of
          Err err \<Rightarrow> (Err (''Shared files: '' @ err), [])
        | Ok endpoint \<Rightarrow>
            ((case sr_attach rt e of
                Ok _ \<Rightarrow> Ok ()
              | Err err \<Rightarrow> Err (''Shared files: '' @ err @ ''. Restart older containers/MicroVMs to load the updated agent, then retry the connection.'')),
             [Attach (endpoint_id e) i endpoint read_only])))"

definition attach_both :: "share_runtime \<Rightarrow> string \<Rightarrow> Environment \<Rightarrow> Environment \<Rightarrow> Share \<Rightarrow> shares
    \<Rightarrow> (unit, string) result \<times> shares \<times> share_call list" where
  "attach_both rt i source target sh shs =
     (let (r1, calls1) = attach_one rt i source (sha_source_server sh) False
      in case r1 of
           Err e \<Rightarrow> (let (shs', calls) = remove_shared_files i shs in (Err e, shs', calls1 @ calls))
         | Ok _ \<Rightarrow>
             (let (r2, calls2) = attach_one rt i target (sha_target_server sh) (\<not> sha_both sh)
              in case r2 of
                   Err e \<Rightarrow> (let (shs', calls) = remove_shared_files i shs in (Err e, shs', calls1 @ calls2 @ calls))
                 | Ok _ \<Rightarrow> (Ok (), shs, calls1 @ calls2)))"

definition new_share :: "share_runtime \<Rightarrow> Environment \<Rightarrow> Environment \<Rightarrow> bool \<Rightarrow> location \<Rightarrow> string \<Rightarrow> string \<Rightarrow> Share" where
  "new_share rt source target both folder token1 token2 =
     \<lparr>sha_identity = sr_identity rt, sha_environments = [source, target], sha_source = endpoint_id source,
      sha_target = endpoint_id target, sha_label = env_name source @ [CHR '' '', CHR 0xE2, CHR 0x86, CHR 0x94, CHR '' ''] @ env_name target,
      sha_both = both,
      sha_source_server = \<lparr>srv_folder = folder, srv_read_only = False, srv_token = token1\<rparr>,
      sha_target_server = \<lparr>srv_folder = folder, srv_read_only = \<not> both, srv_token = token2\<rparr>\<rparr>"

definition apply_shared_files :: "host \<Rightarrow> location \<Rightarrow> share_runtime \<Rightarrow> string \<Rightarrow> Environment \<Rightarrow> Environment \<Rightarrow> ConnectionDirection
    \<Rightarrow> PermissionKind list \<Rightarrow> shares \<Rightarrow> tree \<Rightarrow> (unit, string) result \<times> shares \<times> share_call list \<times> tree" where
  "apply_shared_files h data_root rt i source target direction permissions shs fs =
     (if \<not> storage_permission permissions then
        (let (shs', calls) = remove_shared_files i shs in (Ok (), shs', calls, fs))
      else if \<not> safe_id i then (Err ''Invalid connection identifier'', shs, [], fs)
      else
        (let both = (direction = Bidirectional);
             existing = (case map_of shs i of
               Some sh \<Rightarrow> if sha_source sh = endpoint_id source \<and> sha_target sh = endpoint_id target \<and> sha_both sh = both
                          then Some sh else None
             | None \<Rightarrow> None)
         in case existing of
              Some sh \<Rightarrow>
                (let (r, shs', calls) = attach_both rt i source target sh (share_insert i sh shs) in (r, shs', calls, fs))
            | None \<Rightarrow>
                (case connection_folder h data_root i fs of
                   (Err e, fs') \<Rightarrow> (Err e, shs, [], fs')
                 | (Ok folder, fs') \<Rightarrow>
                     (let shs' = fst (share_remove i shs)
                      in case sr_tokens rt of
                           Err e \<Rightarrow> (Err e, shs', [], fs')
                         | Ok (token1, token2) \<Rightarrow>
                             (let sh = new_share rt source target both folder token1 token2;
                                  (r, shs'', calls) = attach_both rt i source target sh (share_insert i sh shs')
                              in (r, shs'', calls, fs'))))))"

section \<open>Shares are sound\<close>

definition base_folder :: "location \<Rightarrow> location" where
  "base_folder data_root = data_root @ [''connection-files'']"

definition share_sound :: "location \<Rightarrow> tree \<Rightarrow> string \<times> Share \<Rightarrow> bool" where
  "share_sound data_root fs = (\<lambda>(i, sh).
     share_ok fs (base_folder data_root @ [i])
     \<and> srv_folder (sha_source_server sh) = base_folder data_root @ [i] \<and> \<not> srv_read_only (sha_source_server sh)
     \<and> srv_folder (sha_target_server sh) = base_folder data_root @ [i] \<and> srv_read_only (sha_target_server sh) = (\<not> sha_both sh))"

definition sharing_ok :: "location \<Rightarrow> shares \<times> tree \<Rightarrow> bool" where
  "sharing_ok data_root = (\<lambda>(shs, fs).
     share_ok fs data_root \<and> node fs (base_folder data_root) \<in> {None, Some HDir} \<and> list_all (share_sound data_root fs) shs)"

text \<open>A tree that only grew.\<close>

definition grown :: "tree \<Rightarrow> tree \<Rightarrow> bool" where
  "grown fs fs' \<longleftrightarrow> tree_ok fs' \<and> (\<forall>p n. node fs p = Some n \<longrightarrow> node fs' p = Some n)"

lemma grown_share_ok: "grown fs fs' \<Longrightarrow> share_ok fs folder \<Longrightarrow> share_ok fs' folder"
  by (simp add: grown_def share_ok_def)

lemma safe_id_name: "safe_id i \<Longrightarrow> i \<notin> {[], ''.'', ''..''}"
  by (auto simp: safe_id_def is_alphanumeric_def is_digit_def is_upper_def less_eq_char_def)

lemma add_dir_grown:
  assumes "add_node p HDir fs = Ok fs'" and "tree_ok fs" and "last p \<notin> {[], ''.'', ''..''}"
  shows "grown fs fs' \<and> node fs' p = Some HDir"
  using add_node_Ok [OF assms] by (auto simp: grown_def)

lemma base_created:
  assumes "share_ok fs data_root" and "node fs (base_folder data_root) \<in> {None, Some HDir}"
    and "create_dir_all fs (base_folder data_root) = Ok fs'"
  shows "grown fs fs' \<and> node fs' (base_folder data_root) = Some HDir"
proof -
  have t: "tree_ok fs" "node fs data_root = Some HDir" using assms(1) by (simp_all add: share_ok_def)
  have c: "canonicalize fs data_root = Ok data_root" using t by (intro canonicalize_self [of _ _ HDir]) (simp_all add: link_free_def)
  show ?thesis
  proof (cases "node fs (base_folder data_root)")
    case None
    then have "\<exists>e. canonicalize fs (base_folder data_root) = Err e"
      by (simp add: base_folder_def canonicalize_below [OF t])
    then obtain e where e: "canonicalize fs (base_folder data_root) = Err e" ..
    have "create_dir_all fs data_root = Ok fs" using c t(2) by (simp add: create_dir_all.simps [of fs data_root])
    then have "add_node (base_folder data_root) HDir fs = Ok fs'"
      using assms(3) c e by (simp add: create_dir_all.simps [of fs "base_folder data_root"]) (simp add: base_folder_def)
    then show ?thesis by (rule add_dir_grown) (simp_all add: t base_folder_def)
  next
    case (Some n)
    then have n: "n = HDir" using assms(2) by simp
    have "canonicalize fs (base_folder data_root) = Ok (base_folder data_root)"
      using canonicalize_self [OF t(1) Some] by (simp add: n link_free_def)
    then have "fs' = fs" using assms(3) Some n by (simp add: create_dir_all.simps [of fs "base_folder data_root"])
    then show ?thesis using t Some n by (simp add: grown_def)
  qed
qed

lemma connection_folder_ok:
  assumes "share_ok fs data_root" and "node fs (base_folder data_root) \<in> {None, Some HDir}" and "safe_id i"
    and "connection_folder h data_root i fs = (r, fs')"
  shows "grown fs fs' \<and> node fs' (base_folder data_root) \<in> {None, Some HDir}
    \<and> (case r of Ok folder \<Rightarrow> folder = base_folder data_root @ [i] \<and> share_ok fs' folder | Err _ \<Rightarrow> True)"
proof (cases "create_dir_all fs (base_folder data_root)")
  case (Err e)
  with assms show ?thesis by (auto simp: connection_folder_def base_folder_def [symmetric] grown_def share_ok_def)
next
  case (Ok fs1)
  note b = base_created [OF assms(1,2) Ok]
  then have t: "tree_ok fs1" "node fs1 (base_folder data_root) = Some HDir" by (auto simp: grown_def)
  have c: "canonicalize fs1 (base_folder data_root) = Ok (base_folder data_root)"
    using t by (intro canonicalize_self [of _ _ HDir]) (simp_all add: link_free_def)
  let ?folder = "base_folder data_root @ [i]"
  show ?thesis
  proof (cases "if path_exists fs1 ?folder then Ok fs1 else add_node ?folder HDir fs1")
    case (Err e)
    with Ok c assms(4) b t show ?thesis by (auto simp: connection_folder_def base_folder_def [symmetric])
  next
    case f2: (Ok fs2)
    have g: "grown fs1 fs2"
    proof (cases "path_exists fs1 ?folder")
      case True
      with f2 t(1) show ?thesis by (simp add: grown_def)
    next
      case False
      with f2 add_dir_grown [of ?folder fs1 fs2] t(1) safe_id_name [OF assms(3)] show ?thesis by simp
    qed
    have e: "connection_folder h data_root i fs = (case node fs2 ?folder of
          None \<Rightarrow> (Err (os_text h ENOENT), fs2)
        | Some n \<Rightarrow> if n \<noteq> HDir \<or> canonicalize fs2 ?folder \<noteq> Ok ?folder then (Err ''Unsafe connection folder'', fs2) else (Ok ?folder, fs2))"
      using Ok c f2 by (simp add: connection_folder_def base_folder_def [symmetric] Let_def)
    have "fs' = fs2" "case r of Ok folder \<Rightarrow> folder = ?folder \<and> node fs2 ?folder = Some HDir | Err _ \<Rightarrow> True"
      using assms(4) unfolding e by (auto split: option.splits if_splits)
    with g b t show ?thesis by (auto simp: grown_def share_ok_def split: result.splits)
  qed
qed

lemma share_sound_grown: "grown fs fs' \<Longrightarrow> share_sound data_root fs x \<Longrightarrow> share_sound data_root fs' x"
  by (auto simp: share_sound_def intro: grown_share_ok)

lemma share_sound_mono: "list_all (share_sound data_root fs) shs \<Longrightarrow> set shs' \<subseteq> set shs \<Longrightarrow> list_all (share_sound data_root fs) shs'"
  by (auto simp: list_all_iff)

section \<open>Which shares a change leaves\<close>

lemma remove_shared_files_shares: "fst (remove_shared_files i shs) = filter (\<lambda>(j, _). j \<noteq> i) shs"
  by (simp add: remove_shared_files_def share_remove_def)

lemma map_of_without: "map_of (filter (\<lambda>(j, _). j \<noteq> i) shs) k = (if k = i then None else map_of shs k)"
  by (induction shs) auto

lemma map_of_share_insert [simp]: "map_of (share_insert i sh shs) k = (if k = i then Some sh else map_of shs k)"
  by (simp add: share_insert_def map_of_without)

text \<open>Attaching keeps the shares or takes the connection's away.\<close>

lemma attach_both_cases:
  assumes "attach_both rt i source target sh shs = (r, shs', calls)"
  shows "r = Ok () \<and> shs' = shs \<or> (\<exists>e. r = Err e) \<and> shs' = filter (\<lambda>(j, _). j \<noteq> i) shs"
proof -
  obtain r1 c1 where a1: "attach_one rt i source (sha_source_server sh) False = (r1, c1)" by fastforce
  obtain r2 c2 where a2: "attach_one rt i target (sha_target_server sh) (\<not> sha_both sh) = (r2, c2)" by fastforce
  obtain c3 where rm: "remove_shared_files i shs = (filter (\<lambda>(j, _). j \<noteq> i) shs, c3)"
    using remove_shared_files_shares [of i shs] by (cases "remove_shared_files i shs") simp
  show ?thesis using assms by (cases r1; cases r2) (auto simp: attach_both_def a1 a2 rm)
qed

text \<open>How an application ends.\<close>

lemma apply_cases:
  assumes "apply_shared_files h data_root rt i source target direction permissions shs fs = (r, shs', calls, fs')"
  obtains (withdrawn) "\<not> storage_permission permissions" "r = Ok ()" "shs' = filter (\<lambda>(j, _). j \<noteq> i) shs" "fs' = fs"
  | (refused) e where "r = Err e" "shs' = shs" "fs' = fs" "\<not> safe_id i"
  | (unfoldered) e where "r = Err e" "shs' = shs" "connection_folder h data_root i fs = (Err e, fs')" "safe_id i"
  | (unserved) e folder where "r = Err e" "shs' = filter (\<lambda>(j, _). j \<noteq> i) shs" "connection_folder h data_root i fs = (Ok folder, fs')" "safe_id i"
  | (kept) sh where "storage_permission permissions" "safe_id i" "map_of shs i = Some sh" "sha_source sh = endpoint_id source"
      "sha_target sh = endpoint_id target" "sha_both sh = (direction = Bidirectional)" "fs' = fs"
      "attach_both rt i source target sh (share_insert i sh shs) = (r, shs', calls)"
  | (made) folder token1 token2 sh where "storage_permission permissions" "safe_id i" "connection_folder h data_root i fs = (Ok folder, fs')"
      "sh = new_share rt source target (direction = Bidirectional) folder token1 token2"
      "attach_both rt i source target sh (share_insert i sh (filter (\<lambda>(j, _). j \<noteq> i) shs)) = (r, shs', calls)"
proof -
  obtain c3 where rm: "remove_shared_files i shs = (filter (\<lambda>(j, _). j \<noteq> i) shs, c3)"
    using remove_shared_files_shares [of i shs] by (cases "remove_shared_files i shs") simp
  let ?existing = "case map_of shs i of
      Some sh \<Rightarrow> if sha_source sh = endpoint_id source \<and> sha_target sh = endpoint_id target \<and> sha_both sh = (direction = Bidirectional)
                 then Some sh else None
    | None \<Rightarrow> None"
  note d = assms [unfolded apply_shared_files_def Let_def share_remove_def fst_conv]
  consider "\<not> storage_permission permissions" | "storage_permission permissions" "\<not> safe_id i"
    | sh where "storage_permission permissions" "safe_id i" "?existing = Some sh"
    | "storage_permission permissions" "safe_id i" "?existing = None" by fastforce
  then show thesis
  proof cases
    case 1
    with d rm show thesis by (intro withdrawn) simp_all
  next
    case 2
    with d show thesis by (intro refused) auto
  next
    case (3 sh)
    obtain q where q: "attach_both rt i source target sh (share_insert i sh shs) = q" by simp
    obtain ra sa ca where qa: "q = (ra, sa, ca)" by (cases q)
    have "ra = r" "sa = shs'" "ca = calls" "fs' = fs" using d 3 by (simp_all add: q qa)
    moreover have "map_of shs i = Some sh" "sha_source sh = endpoint_id source"
      "sha_target sh = endpoint_id target" "sha_both sh = (direction = Bidirectional)"
      using 3(3) by (simp_all split: option.splits if_splits)
    ultimately show thesis using 3 q qa by (intro kept) simp_all
  next
    case 4
    note e = d [unfolded 4(3), simplified 4(1,2)]
    obtain cr cf where cf: "connection_folder h data_root i fs = (cr, cf)" by fastforce
    show thesis
    proof (cases cr)
      case (Err e')
      with e cf 4 show thesis by (intro unfoldered) auto
    next
      case (Ok folder)
      show thesis
      proof (cases "sr_tokens rt")
        case (Err e')
        with e cf Ok 4 show thesis by (intro unserved) auto
      next
        case tk: (Ok tks)
        obtain t1 t2 where "tks = (t1, t2)" by (cases tks)
        then have g: "(case attach_both rt i source target (new_share rt source target (direction = Bidirectional) folder t1 t2)
            (share_insert i (new_share rt source target (direction = Bidirectional) folder t1 t2) (filter (\<lambda>(j, _). j \<noteq> i) shs)) of
            (r, shs'', calls) \<Rightarrow> (r, shs'', calls, cf)) = (r, shs', calls, fs')"
          using e cf Ok tk by simp
        obtain ra sa ca where qa: "attach_both rt i source target (new_share rt source target (direction = Bidirectional) folder t1 t2)
            (share_insert i (new_share rt source target (direction = Bidirectional) folder t1 t2) (filter (\<lambda>(j, _). j \<noteq> i) shs)) = (ra, sa, ca)"
          using prod_cases3 by blast
        with g have "ra = r" "sa = shs'" "ca = calls" "cf = fs'" by simp_all
        with qa cf Ok 4 show thesis by (intro made [of folder _ t1 t2]) simp_all
      qed
    qed
  qed
qed

lemma new_share_sound:
  assumes "share_ok fs (base_folder data_root @ [i])"
  shows "share_sound data_root fs (i, new_share rt source target both (base_folder data_root @ [i]) t1 t2)"
  using assms by (simp add: share_sound_def new_share_def)

lemma apply_keeps:
  assumes "sharing_ok data_root (shs, fs)"
    and "apply_shared_files h data_root rt i source target direction permissions shs fs = (r, shs', calls, fs')"
  shows "sharing_ok data_root (shs', fs')"
proof -
  have I: "share_ok fs data_root" "node fs (base_folder data_root) \<in> {None, Some HDir}" "list_all (share_sound data_root fs) shs"
    using assms(1) by (simp_all add: sharing_ok_def)
  note cf = connection_folder_ok [OF I(1,2)]
  have less: "list_all (share_sound data_root fs) (filter (\<lambda>(j, _). j \<noteq> i) shs)" using I(3) by (rule share_sound_mono) auto
  have fold: "sharing_ok data_root (zs, fs')"
    if "safe_id i" "connection_folder h data_root i fs = (q, fs')" "list_all (share_sound data_root fs') zs" for q zs
    using cf [OF that(1,2)] that(3) I(1) grown_share_ok [of fs fs' data_root] by (auto simp: sharing_ok_def)
  from assms(2) show ?thesis
  proof (cases rule: apply_cases)
    case withdrawn
    with I less show ?thesis by (simp add: sharing_ok_def)
  next
    case refused
    with I show ?thesis by (simp add: sharing_ok_def)
  next
    case (unfoldered e)
    have "grown fs fs'" using cf [OF unfoldered(4,3)] by simp
    with I(3) have "list_all (share_sound data_root fs') shs" by (auto simp: list_all_iff intro: share_sound_grown)
    with fold [OF unfoldered(4,3)] unfoldered(2) show ?thesis by simp
  next
    case (unserved e folder)
    have "grown fs fs'" using cf [OF unserved(4,3)] by simp
    with less have "list_all (share_sound data_root fs') (filter (\<lambda>(j, _). j \<noteq> i) shs)" by (auto simp: list_all_iff intro: share_sound_grown)
    with fold [OF unserved(4,3)] unserved(2) show ?thesis by simp
  next
    case (kept sh)
    have "share_sound data_root fs (i, sh)" using kept(3) I(3) by (auto simp: list_all_iff dest: map_of_SomeD)
    with less have "list_all (share_sound data_root fs) (share_insert i sh shs)" by (simp add: share_insert_def)
    moreover have "set shs' \<subseteq> set (share_insert i sh shs)" using attach_both_cases [OF kept(8)] by auto
    ultimately have "list_all (share_sound data_root fs) shs'" by (rule share_sound_mono)
    with I kept(7) show ?thesis by (simp add: sharing_ok_def)
  next
    case (made folder token1 token2 sh)
    note k = cf [OF made(2,3)]
    then have fd: "folder = base_folder data_root @ [i]" and "share_ok fs' (base_folder data_root @ [i])" by auto
    then have "share_sound data_root fs' (i, sh)" unfolding made(4) fd by (intro new_share_sound)
    moreover have "list_all (share_sound data_root fs') (filter (\<lambda>(j, _). j \<noteq> i) shs)"
      using less k by (auto simp: list_all_iff intro: share_sound_grown)
    ultimately have "list_all (share_sound data_root fs') (share_insert i sh (filter (\<lambda>(j, _). j \<noteq> i) shs))"
      by (auto simp: share_insert_def list_all_iff)
    moreover have "set shs' \<subseteq> set (share_insert i sh (filter (\<lambda>(j, _). j \<noteq> i) shs))" using attach_both_cases [OF made(5)] by auto
    ultimately have "list_all (share_sound data_root fs') shs'" by (rule share_sound_mono)
    with fold [OF made(2,3)] show ?thesis by simp
  qed
qed

section \<open>What a guest can change\<close>

lemma call_server_tree:
  "snd (call_server h cd size_of delivery fault srv body fs) = fs
   \<or> (\<exists>rq. snd (call_server h cd size_of delivery fault srv body fs) = snd (operation h (srv_folder srv) (srv_read_only srv) fault rq fs))"
  by (cases "decode_request cd body") (auto simp: call_server_def Let_def split_def)

lemma file_api_tree:
  "snd (file_api h cd size_of delivery fault e body shs later fs) = fs
   \<or> (\<exists>i sh srv rq. map_of shs i = Some sh \<and> server_for e sh = Some srv
        \<and> snd (file_api h cd size_of delivery fault e body shs later fs) = snd (operation h (srv_folder srv) (srv_read_only srv) fault rq fs))"
  (is "?same \<or> ?worked")
proof (cases "case body of JObj m \<Rightarrow> (case map_of m ''connectionId'' of Some (JStr i) \<Rightarrow> Some (i, m) | _ \<Rightarrow> None) | _ \<Rightarrow> None")
  case None
  then show ?thesis by (simp add: file_api_def)
next
  case (Some im)
  obtain i m where im: "im = (i, m)" by (cases im)
  note d = file_api_def [of h cd size_of delivery fault e body shs later fs, unfolded Some im]
  show ?thesis
  proof (cases "map_of shs i")
    case None
    with d show ?thesis by simp
  next
    case sh: (Some sh)
    show ?thesis
    proof (cases "server_for e sh")
      case None
      with d sh show ?thesis by simp
    next
      case srv: (Some srv)
      have "snd (file_api h cd size_of delivery fault e body shs later fs)
          = snd (call_server h cd size_of delivery fault srv (JObj (map_remove ''connectionId'' m)) fs)"
        unfolding d using sh srv by (simp add: Let_def split_def split: result.split)
      with call_server_tree [of h cd size_of delivery fault srv "JObj (map_remove ''connectionId'' m)" fs] sh srv show ?thesis
        by metis
    qed
  qed
qed

lemma handle_tree:
  "snd (handle h cd size_of delivery fault e request shs later fs) = fs
   \<or> (\<exists>body. snd (handle h cd size_of delivery fault e request shs later fs) = snd (file_api h cd size_of delivery fault e body shs later fs))"
proof (cases "position_end request")
  case None
  then show ?thesis by (simp add: handle_def)
next
  case (Some n)
  show ?thesis
    by (cases "parse_json cd (drop (n + 4) request)") (auto simp: handle_def Some Let_def split: result.split)
qed

lemma handle_effect:
  assumes "sharing_ok data_root (shs, fs)" and "fs' = snd (handle h cd size_of delivery fault e request shs later fs)"
  shows "fs' = fs \<or> (\<exists>i sh. map_of shs i = Some sh \<and> (sha_source sh = e \<or> sha_target sh = e \<and> sha_both sh)
    \<and> confined (base_folder data_root @ [i]) fs fs')"
proof (cases "fs' = fs")
  case False
  obtain body where "fs' = snd (file_api h cd size_of delivery fault e body shs later fs)"
    using handle_tree [of h cd size_of delivery fault e request shs later fs] False assms(2) by blast
  then obtain i sh srv rq where o: "map_of shs i = Some sh" "server_for e sh = Some srv"
    "fs' = snd (operation h (srv_folder srv) (srv_read_only srv) fault rq fs)"
    using file_api_tree [of h cd size_of delivery fault e body shs later fs] False by metis
  have w: "\<not> srv_read_only srv" using False o(3) operation_read_only [of h "srv_folder srv" fault rq fs] by auto
  have "share_sound data_root fs (i, sh)" using o(1) assms(1) by (auto simp: sharing_ok_def list_all_iff dest: map_of_SomeD)
  then have "srv_folder srv = base_folder data_root @ [i]" "share_ok fs (base_folder data_root @ [i])"
    "sha_source sh = e \<or> sha_target sh = e \<and> sha_both sh"
    using o(2) w by (auto simp: share_sound_def server_for_def split: if_splits)
  moreover from this have "confined (base_folder data_root @ [i]) fs fs'"
    using operation_confined [of fs "base_folder data_root @ [i]"] o(3) by simp
  ultimately show ?thesis using o(1) by blast
qed simp

lemma confined_keeps_sharing:
  assumes "sharing_ok data_root (shs, fs)" and "confined (base_folder data_root @ [i]) fs fs'"
  shows "sharing_ok data_root (shs, fs')"
proof -
  have same: "node fs' p = node fs p" if "\<not> prefix (base_folder data_root @ [i]) p" for p
    using assms(2) that by (simp add: confined_def)
  have t: "tree_ok fs'" "node fs' (base_folder data_root @ [i]) = Some HDir" using assms(2) by (simp_all add: confined_def share_ok_def)
  have np: "\<not> prefix (base_folder data_root @ [i]) data_root" "\<not> prefix (base_folder data_root @ [i]) (base_folder data_root)"
    by (auto simp: base_folder_def dest: prefix_length_le)
  have ok: "share_ok fs' (base_folder data_root @ [j])" if "share_ok fs (base_folder data_root @ [j])" for j
    using that t same [of "base_folder data_root @ [j]"] by (cases "j = i") (auto simp: share_ok_def)
  then have "share_sound data_root fs' x" if "share_sound data_root fs x" for x
    using that by (auto simp: share_sound_def)
  then have "list_all (share_sound data_root fs') shs" using assms(1) by (auto simp: sharing_ok_def list_all_iff)
  with assms(1) t same [OF np(1)] same [OF np(2)] show ?thesis by (auto simp: sharing_ok_def share_ok_def)
qed

section \<open>Sharing as a whole\<close>

text \<open>
  The steps: connections are applied and removed, environments go, and guests send requests. The
  shares may change while a guest's request is served (\<open>later\<close>).
\<close>

inductive sharing_step :: "location \<Rightarrow> shares \<times> tree \<Rightarrow> shares \<times> tree \<Rightarrow> bool" for data_root where
  applied: "apply_shared_files h data_root rt i source target direction permissions shs fs = (r, shs', calls, fs')
    \<Longrightarrow> sharing_step data_root (shs, fs) (shs', fs')"
| removed: "sharing_step data_root (shs, fs) (fst (remove_shared_files i shs), fs)"
| environment_removed: "sharing_step data_root (shs, fs) (fst (remove_environment e shs), fs)"
| requested: "handle h cd size_of delivery fault e request shs later fs = (r, fs') \<Longrightarrow> sharing_step data_root (shs, fs) (shs, fs')"

definition sharing_start :: "location \<Rightarrow> shares \<times> tree \<Rightarrow> bool" where
  "sharing_start data_root = (\<lambda>(shs, fs). shs = [] \<and> share_ok fs data_root \<and> node fs (base_folder data_root) \<in> {None, Some HDir})"

lemma sharing_step_ok:
  assumes "sharing_ok data_root s" and "sharing_step data_root s t"
  shows "sharing_ok data_root t"
  using assms(2,1)
proof cases
  case (applied h rt i source target direction permissions shs fs r shs' calls fs')
  with assms(1) apply_keeps show ?thesis by blast
next
  case (removed shs fs i)
  with assms(1) show ?thesis
    by (auto simp: sharing_ok_def remove_shared_files_shares list_all_iff)
next
  case (environment_removed shs fs e)
  with assms(1) show ?thesis
    by (auto simp: sharing_ok_def remove_environment_def list_all_iff Let_def)
next
  case (requested h cd size_of delivery fault e request shs later fs r fs')
  have "fs' = snd (handle h cd size_of delivery fault e request shs later fs)" using requested by simp
  from handle_effect [OF _ this] assms(1) requested confined_keeps_sharing show ?thesis by blast
qed

interpretation sharing: safety "sharing_start data_root" "sharing_step data_root" "sharing_ok data_root" for data_root
proof
  show "sharing_ok data_root s" if "sharing_start data_root s" for s
    using that by (auto simp: sharing_start_def sharing_ok_def)
  show "sharing_ok data_root t" if "sharing_ok data_root s" "sharing_step data_root s t" for s t
    using that by (rule sharing_step_ok)
qed

text \<open>
  C10. A guest changes only the folders of its own connections, and of those only the ones it may write:
  as the source, or as the target of a bidirectional connection. Everything else on the host stays as
  it was, whatever the guest sends and in whatever order connections come and go.
\<close>

theorem guest_writes_own_shares:
  assumes "reach (sharing_start data_root) (sharing_step data_root) (shs, fs)"
    and "handle h cd size_of delivery fault e request shs later fs = (r, fs')" and "node fs' p \<noteq> node fs p"
  shows "\<exists>i sh. map_of shs i = Some sh \<and> prefix (data_root @ [''connection-files'', i]) p
    \<and> (sha_source sh = e \<or> sha_target sh = e \<and> sha_both sh)"
proof -
  have I: "sharing_ok data_root (shs, fs)" using assms(1) by (rule sharing.inv_reach)
  have "fs' = snd (handle h cd size_of delivery fault e request shs later fs)" using assms(2) by simp
  from handle_effect [OF I this] assms(3) show ?thesis
    by (fastforce simp: confined_def base_folder_def)
qed

text \<open>
  Applying a connection is all or nothing: on success exactly this connection has a share, with the
  source's server writable and the target's read-only unless the connection goes both ways (or none, if
  no permission asks for storage); an error never opens a share.
\<close>

theorem apply_all_or_nothing:
  assumes "reach (sharing_start data_root) (sharing_step data_root) (shs, fs)"
    and "apply_shared_files h data_root rt i source target direction permissions shs fs = (r, shs', calls, fs')"
  shows "(\<forall>j. j \<noteq> i \<longrightarrow> map_of shs' j = map_of shs j)
    \<and> (case r of
         Err _ \<Rightarrow> map_of shs' i = None \<or> map_of shs' i = map_of shs i
       | Ok _ \<Rightarrow>
           (if storage_permission permissions
            then (\<exists>sh. map_of shs' i = Some sh \<and> sha_source sh = endpoint_id source \<and> sha_target sh = endpoint_id target
               \<and> \<not> srv_read_only (sha_source_server sh) \<and> srv_read_only (sha_target_server sh) = (direction = OneWay)
               \<and> srv_folder (sha_source_server sh) = data_root @ [''connection-files'', i]
               \<and> srv_folder (sha_target_server sh) = data_root @ [''connection-files'', i])
            else map_of shs' i = None))"
proof -
  have I: "sharing_ok data_root (shs, fs)" using assms(1) by (rule sharing.inv_reach)
  have J: "sharing_ok data_root (shs', fs')" using I assms(2) by (rule apply_keeps)
  have sound: "share_sound data_root fs' (i, sh)" if "map_of shs' i = Some sh" for sh
    using that J by (auto simp: sharing_ok_def list_all_iff dest: map_of_SomeD)
  have dir: "(\<not> (direction = Bidirectional)) = (direction = OneWay)" by (cases direction) simp_all
  have given: ?thesis if "storage_permission permissions" "map_of zs = map_of (share_insert i sh shs)"
      "attach_both rt i source target sh zs = (r, shs', calls)"
      "sha_source sh = endpoint_id source" "sha_target sh = endpoint_id target" "sha_both sh = (direction = Bidirectional)" for sh zs
    using attach_both_cases [OF that(3)]
  proof
    assume a: "r = Ok () \<and> shs' = zs"
    then have m: "map_of shs' k = (if k = i then Some sh else map_of shs k)" for k using that(2) by simp
    with sound [of sh] a that(1,4,5,6) dir show ?thesis by (auto simp: share_sound_def base_folder_def)
  next
    assume "(\<exists>e. r = Err e) \<and> shs' = filter (\<lambda>(j, _). j \<noteq> i) zs"
    with that(2) show ?thesis by (auto simp: map_of_without)
  qed
  from assms(2) show ?thesis
  proof (cases rule: apply_cases)
    case (kept sh)
    then show ?thesis by (intro given [of "share_insert i sh shs" sh]) simp_all
  next
    case (made folder token1 token2 sh)
    then show ?thesis
      by (intro given [of "share_insert i sh (filter (\<lambda>(j, _). j \<noteq> i) shs)" sh]) (auto simp: map_of_without new_share_def)
  qed (auto simp: map_of_without)
qed

section \<open>Two machines and a folder\<close>

definition example_vm :: "string \<Rightarrow> Environment" where
  "example_vm i = example_env i FullVm Running"

definition example_share_runtime :: share_runtime where
  "example_share_runtime = \<lparr>sr_agent = (\<lambda>_. False), sr_endpoint = (\<lambda>_. Ok []), sr_attach = (\<lambda>_. Ok ()),
     sr_tokens = Ok (''t1'', ''t2''), sr_identity = 1\<rparr>"

definition bare_tree :: tree where
  "bare_tree = [([], HDir), ([''d''], HDir)]"

definition shared_tree :: tree where
  "shared_tree = bare_tree @ [([''d'', ''connection-files''], HDir), ([''d'', ''connection-files'', ''c1''], HDir)]"

definition example_shares :: shares where
  "example_shares = [(''c1'', new_share example_share_runtime (example_vm ''e1'') (example_vm ''e2'') False
     [''d'', ''connection-files'', ''c1''] ''t1'' ''t2'')]"

lemma example_folder: "connection_folder posix_host [''d''] ''c1'' bare_tree = (Ok [''d'', ''connection-files'', ''c1''], shared_tree)"
proof -
  have c: "canonicalize bare_tree [''d''] = Ok [''d'']" "canonicalize bare_tree [''d'', ''connection-files''] = Err ENOENT"
    "add_node [''d'', ''connection-files''] HDir bare_tree = Ok (bare_tree @ [([''d'', ''connection-files''], HDir)])"
    by (simp_all add: canonicalize_def bare_tree_def add_node_def set_node_def)
  then have "create_dir_all bare_tree [''d'', ''connection-files''] = Ok (bare_tree @ [([''d'', ''connection-files''], HDir)])"
    by (simp add: create_dir_all.simps [of bare_tree "[''d'', ''connection-files'']"] create_dir_all.simps [of bare_tree "[''d'']"])
      (simp add: bare_tree_def)
  then show ?thesis
    by (simp add: connection_folder_def) (simp add: canonicalize_def path_exists_def bare_tree_def shared_tree_def add_node_def set_node_def Let_def)
qed

lemma example_apply:
  "apply_shared_files posix_host [''d''] example_share_runtime ''c1'' (example_vm ''e1'') (example_vm ''e2'') OneWay [Files] [] bare_tree
    = (Ok (), example_shares, [], shared_tree)"
proof -
  have "safe_id ''c1''" by (simp add: safe_id_def is_alphanumeric_def is_digit_def is_upper_def less_eq_char_def)
  moreover have "attach_both rt i (example_vm a) (example_vm b) sh shs = (Ok (), shs, [])" for rt i a b sh shs
    by (simp add: attach_both_def attach_one_def example_vm_def example_env_def)
  moreover have "sr_tokens example_share_runtime = Ok (''t1'', ''t2'')" by (simp add: example_share_runtime_def)
  ultimately show ?thesis
    by (simp add: apply_shared_files_def storage_permission_def example_folder example_shares_def share_remove_def share_insert_def Let_def)
qed

lemma example_sharing: "reach (sharing_start [''d'']) (sharing_step [''d'']) (example_shares, shared_tree)"
proof (rule reach_move)
  show "reach (sharing_start [''d'']) (sharing_step [''d'']) ([], bare_tree)"
    by (rule reach_start) (simp add: sharing_start_def share_ok_def tree_ok_def bare_tree_def base_folder_def)
  show "sharing_step [''d''] ([], bare_tree) (example_shares, shared_tree)"
    using example_apply by (rule applied)
qed

definition example_guest_request :: string where
  "example_guest_request = ''POST /api HTTP/1.1'' @ [CR, LF] @ ''Host: 10.192.0.1:7444'' @ [CR, LF] @ ''X-OpenDock-Files: 1'' @ [CR, LF, CR, LF] @ ''{}''"

definition guest_codec :: codec where
  "guest_codec = example_codec_of\<lparr>parse_json := (\<lambda>_. Ok (JObj [(''connectionId'', JStr ''c1''), (''operation'', JStr ''create''), (''path'', JStr ''a'')]))\<rparr>"

lemma example_file_created:
  "operation posix_host [''d'', ''connection-files'', ''c1''] False None
     \<lparr>rq_operation = ''create'', rq_path = ''a'', rq_destination = [], rq_offset = 0, rq_length = 0, rq_data = []\<rparr> shared_tree
   = (r, fs') \<Longrightarrow> node fs' [''d'', ''connection-files'', ''c1'', ''a''] = Some (HFile [])"
proof -
  assume o: "operation posix_host [''d'', ''connection-files'', ''c1''] False None
     \<lparr>rq_operation = ''create'', rq_path = ''a'', rq_destination = [], rq_offset = 0, rq_length = 0, rq_data = []\<rparr> shared_tree = (r, fs')"
  have "safe_path posix_host shared_tree [''d'', ''connection-files'', ''c1''] ''a'' True = Ok [''d'', ''connection-files'', ''c1'', ''a'']"
    by code_simp
  moreover have "add_node [''d'', ''connection-files'', ''c1'', ''a''] (HFile []) shared_tree
      = Ok (shared_tree @ [([''d'', ''connection-files'', ''c1'', ''a''], HFile [])])"
    by (simp add: add_node_def set_node_def shared_tree_def bare_tree_def)
  ultimately have "fs' = shared_tree @ [([''d'', ''connection-files'', ''c1'', ''a''], HFile [])]"
    using o by (simp add: operation_def op_new_def Let_def)
  then show ?thesis by (simp add: shared_tree_def bare_tree_def)
qed

lemma example_handle:
  "\<exists>r fs'. handle posix_host guest_codec (\<lambda>_. 0) Answered None ''e1'' example_guest_request example_shares example_shares shared_tree = (r, fs')
     \<and> node fs' [''d'', ''connection-files'', ''c1'', ''a''] = Some (HFile [])"
proof -
  define header where "header = ''POST /api HTTP/1.1'' @ [CR, LF] @ ''Host: 10.192.0.1:7444'' @ [CR, LF] @ ''X-OpenDock-Files: 1''"
  have p: "position_end example_guest_request = Some (length header)" unfolding header_def by code_simp
  have t: "take (length header) example_guest_request = header" by (simp add: header_def example_guest_request_def)
  have u: "from_utf8 header" unfolding header_def by code_simp
  have w: "split_whitespace (case text_lines header of [] \<Rightarrow> [] | l # _ \<Rightarrow> l) = [''POST'', ''/api'', ''HTTP/1.1'']"
    unfolding header_def by code_simp
  have c: "check_guest_header header = Ok ()" unfolding header_def by code_simp
  have x: "has_header header ''x-opendock-files'' (\<lambda>v. v = ''1'')" unfolding header_def by code_simp
  obtain r fs' where o: "operation posix_host [''d'', ''connection-files'', ''c1''] False None
     \<lparr>rq_operation = ''create'', rq_path = ''a'', rq_destination = [], rq_offset = 0, rq_length = 0, rq_data = []\<rparr> shared_tree = (r, fs')"
    by fastforce
  have sv: "server_for ''e1'' (snd (hd example_shares)) = Some \<lparr>srv_folder = [''d'', ''connection-files'', ''c1''], srv_read_only = False, srv_token = ''t1''\<rparr>"
    by (simp add: example_shares_def server_for_def new_share_def example_vm_def example_env_def)
  have m: "map_of example_shares ''c1'' = Some (snd (hd example_shares))" by (simp add: example_shares_def)
  have d: "decode_request guest_codec (JObj [(''operation'', JStr ''create''), (''path'', JStr ''a'')])
      = Ok \<lparr>rq_operation = ''create'', rq_path = ''a'', rq_destination = [], rq_offset = 0, rq_length = 0, rq_data = []\<rparr>"
    by (simp add: decode_request_def str_field_def u64_field_def)
  have "\<exists>r. file_api posix_host guest_codec (\<lambda>_. 0) Answered None ''e1''
      (JObj [(''connectionId'', JStr ''c1''), (''operation'', JStr ''create''), (''path'', JStr ''a'')]) example_shares example_shares shared_tree = (r, fs')"
    by (simp add: file_api_def m sv call_server_def d o split: result.split prod.split reply.split)
  moreover have "parse_json guest_codec b = Ok (JObj [(''connectionId'', JStr ''c1''), (''operation'', JStr ''create''), (''path'', JStr ''a'')])" for b
    by (simp add: guest_codec_def)
  ultimately have "\<exists>r. handle posix_host guest_codec (\<lambda>_. 0) Answered None ''e1'' example_guest_request example_shares example_shares shared_tree = (r, fs')"
    by (simp add: handle_def p t u w c x Let_def)
  with example_file_created [OF o] show ?thesis by blast
qed

theorem guest_writes_own_shares_witness:
  "\<exists>i sh. map_of example_shares i = Some sh \<and> prefix [''d'', ''connection-files'', i] [''d'', ''connection-files'', ''c1'', ''a'']
     \<and> (sha_source sh = ''e1'' \<or> sha_target sh = ''e1'' \<and> sha_both sh)"
proof -
  obtain r fs' where h: "handle posix_host guest_codec (\<lambda>_. 0) Answered None ''e1'' example_guest_request example_shares example_shares shared_tree = (r, fs')"
    "node fs' [''d'', ''connection-files'', ''c1'', ''a''] = Some (HFile [])"
    using example_handle by blast
  have "node shared_tree [''d'', ''connection-files'', ''c1'', ''a''] = None" by (simp add: shared_tree_def bare_tree_def)
  with guest_writes_own_shares [OF example_sharing h(1), of "[''d'', ''connection-files'', ''c1'', ''a'']"] h(2) show ?thesis by simp
qed

theorem apply_all_or_nothing_witness:
  "\<exists>sh. map_of example_shares ''c1'' = Some sh \<and> \<not> srv_read_only (sha_source_server sh) \<and> srv_read_only (sha_target_server sh)"
proof -
  have "reach (sharing_start [''d'']) (sharing_step [''d'']) ([], bare_tree)"
    by (rule reach_start) (simp add: sharing_start_def share_ok_def tree_ok_def bare_tree_def base_folder_def)
  from apply_all_or_nothing [OF this example_apply] show ?thesis by (auto simp: storage_permission_def)
qed

end
