(* ===== verification/File_Service.thy ===== *)
theory File_Service
  imports Shared_Files
begin

text \<open>
  \<open>runtime/fabric/file_service.rs\<close>: the HTTP endpoint that every guest sees on its private network.
  \<open>request_size\<close> finds the end of a request in the bytes received; a slot of the loop of \<open>start\<close> is a
  state machine over one TCP socket. The TCP stack (the crate \<open>smoltcp\<close>) is what the socket says in a
  turn.
\<close>

section \<open>The size of a request\<close>

fun size_lines :: "string list \<Rightarrow> nat option \<Rightarrow> nat option option" where
  "size_lines [] len = Some len"
| "size_lines (line # lines) len =
     (case split_once (CHR '':'') line of
        None \<Rightarrow> None
      | Some (name, v) \<Rightarrow>
          if eq_ignore_case name ''transfer-encoding'' then None
          else if eq_ignore_case name ''content-length'' then
            (if len \<noteq> None then None
             else (case parse_u64 (trim v) of None \<Rightarrow> None | Some n \<Rightarrow> size_lines lines (Some n)))
          else size_lines lines len)"

definition request_size :: "string \<Rightarrow> (nat option, unit) result" where
  "request_size bs =
     (case position_end bs of
        None \<Rightarrow> if 16384 < length bs then Err () else Ok None
      | Some end_pos \<Rightarrow>
          if 16384 < end_pos then Err ()
          else
            (let header = take end_pos bs
             in if \<not> from_utf8 header then Err ()
                else (case size_lines (drop 1 (text_lines header)) None of
                    None \<Rightarrow> Err ()
                  | Some len \<Rightarrow>
                      (let n = (case len of None \<Rightarrow> 0 | Some n \<Rightarrow> n)
                       in if 1024 * 1024 < n then Err () else Ok (Some (end_pos + 4 + n))))))"

section \<open>A slot\<close>

record slot =
  sl_request :: string
  sl_pending :: "string option"
  sl_response :: string
  sl_sent :: nat
  sl_closing :: bool

definition fresh_slot :: slot where
  "fresh_slot = \<lparr>sl_request = [], sl_pending = None, sl_response = [], sl_sent = 0, sl_closing = False\<rparr>"

text \<open>
  What the TCP socket and the task of a slot say in one turn of the loop: whether the socket is open,
  the bytes that can be received, the result of the task once it is finished (empty if it panicked), how
  many bytes can be sent, and whether the socket is active but was idle for thirty seconds.
\<close>

record socket =
  so_open :: bool
  so_recv :: "string option"
  so_done :: "string option"
  so_send :: "nat option"
  so_idle :: bool

datatype socket_call = Listen | Abort | Close

definition REQUEST_LIMIT :: nat where
  "REQUEST_LIMIT = 1024 * 1024 + 16388"

definition slot_receive :: "string \<Rightarrow> slot \<Rightarrow> slot \<times> socket_call list" where
  "slot_receive data sl =
     (let request = sl_request sl @ take (REQUEST_LIMIT - min (length (sl_request sl)) REQUEST_LIMIT) data;
          sl = sl\<lparr>sl_request := request\<rparr>
      in case request_size request of
           Err _ \<Rightarrow> (sl, [Abort])
         | Ok None \<Rightarrow> (sl, [])
         | Ok (Some n) \<Rightarrow>
             if n \<le> length request then (sl\<lparr>sl_request := [], sl_pending := Some (take n request)\<rparr>, []) else (sl, []))"

text \<open>
  The stages of one turn of the loop for one slot. A socket that was aborted in this turn neither
  sends nor is idle.
\<close>

definition slot_reopen :: "socket \<Rightarrow> slot \<Rightarrow> slot \<times> socket_call list" where
  "slot_reopen so sl = (if so_open so then (sl, []) else (fresh_slot, [Listen]))"

definition slot_read :: "socket \<Rightarrow> slot \<Rightarrow> slot \<times> socket_call list" where
  "slot_read so sl =
     (case so_recv so of
        Some data \<Rightarrow>
          if so_open so \<and> sl_pending sl = None \<and> sl_response sl = [] \<and> \<not> sl_closing sl then slot_receive data sl else (sl, [])
      | None \<Rightarrow> (sl, []))"

definition slot_poll :: "socket \<Rightarrow> slot \<Rightarrow> slot \<times> socket_call list" where
  "slot_poll so sl =
     (case (sl_pending sl, so_done so) of
        (Some _, Some response) \<Rightarrow>
          (sl\<lparr>sl_pending := None, sl_response := response\<rparr>, if response = [] then [Abort] else [])
      | _ \<Rightarrow> (sl, []))"

definition slot_write :: "socket \<Rightarrow> bool \<Rightarrow> slot \<Rightarrow> slot" where
  "slot_write so aborted sl =
     (case so_send so of
        Some n \<Rightarrow>
          if \<not> aborted \<and> sl_sent sl < length (sl_response sl)
          then sl\<lparr>sl_sent := sl_sent sl + min n (length (sl_response sl) - sl_sent sl)\<rparr> else sl
      | None \<Rightarrow> sl)"

definition slot_close :: "slot \<Rightarrow> slot \<times> socket_call list" where
  "slot_close sl =
     (if sl_response sl \<noteq> [] \<and> sl_sent sl = length (sl_response sl) \<and> \<not> sl_closing sl
      then (sl\<lparr>sl_closing := True\<rparr>, [Close]) else (sl, []))"

definition slot_turn :: "socket \<Rightarrow> slot \<Rightarrow> slot \<times> socket_call list" where
  "slot_turn so sl =
     (let (sl, calls1) = slot_reopen so sl;
          (sl, calls2) = slot_read so sl;
          (sl, calls3) = slot_poll so sl;
          aborted = (Abort \<in> set (calls2 @ calls3));
          sl = slot_write so aborted sl;
          (sl, calls4) = slot_close sl
      in (sl, calls1 @ calls2 @ calls3 @ calls4 @ (if so_idle so \<and> \<not> aborted then [Abort] else [])))"

section \<open>Invariant of a slot\<close>

definition slot_ok :: "slot \<Rightarrow> bool" where
  "slot_ok sl \<longleftrightarrow> length (sl_request sl) \<le> REQUEST_LIMIT \<and> sl_sent sl \<le> length (sl_response sl)
     \<and> (case sl_pending sl of
          Some rq \<Rightarrow> request_size rq = Ok (Some (length rq)) \<and> sl_request sl = [] \<and> sl_response sl = [] \<and> \<not> sl_closing sl
        | None \<Rightarrow> True)
     \<and> (sl_closing sl \<longrightarrow> sl_response sl \<noteq> [] \<and> sl_sent sl = length (sl_response sl))"

lemma find_upt_prefix:
  assumes "List.find P [0..<n] = Some k" and "\<And>i. i \<le> k \<Longrightarrow> Q i = P i" and "k < m"
  shows "List.find Q [0..<m] = Some k"
proof -
  have k: "P k" "k < n" "\<And>j. j < k \<Longrightarrow> \<not> P j"
    using assms(1) by (auto simp: find_Some_iff)
  show ?thesis
    unfolding find_Some_iff using assms(2,3) k by (intro exI [of _ k]) auto
qed

lemma prefix_take_drop: "i + length p \<le> n \<Longrightarrow> prefix p (drop i (take n s)) = prefix p (drop i s)"
proof
  assume le: "i + length p \<le> n"
  { assume "prefix p (drop i (take n s))"
    then show "prefix p (drop i s)" by (metis drop_take prefix_order.trans take_is_prefix) }
  { assume "prefix p (drop i s)"
    then have "take (length p) (drop i s) = p" by (auto simp: prefix_def)
    moreover have "length p \<le> n - i" using le by simp
    ultimately have "take (length p) (drop i (take n s)) = p" by (simp add: drop_take min_absorb1)
    then show "prefix p (drop i (take n s))" by (metis take_is_prefix) }
qed

lemma position_end_Some:
  assumes "position_end s = Some k"
  shows "k + 4 \<le> length s"
proof -
  have "starts_with [CR, LF, CR, LF] (drop k s)" using assms by (auto simp: position_end_def find_Some_iff)
  then show ?thesis by (auto dest!: starts_with_length)
qed

text \<open>Cutting a request off behind its size does not change its size.\<close>

lemma position_end_take:
  assumes "position_end s = Some k" and "k + 4 \<le> n"
  shows "position_end (take n s) = Some k"
  unfolding position_end_def
proof (rule find_upt_prefix)
  show "List.find (\<lambda>i. starts_with [CR, LF, CR, LF] (drop i s)) [0..<length s] = Some k" using assms(1) by (simp add: position_end_def)
  show "k < length (take n s)" using position_end_Some [OF assms(1)] assms(2) by simp
  show "starts_with [CR, LF, CR, LF] (drop i (take n s)) = starts_with [CR, LF, CR, LF] (drop i s)" if "i \<le> k" for i
    using that assms(2) prefix_take_drop [of i "[CR, LF, CR, LF]" n s] by (simp add: starts_with_prefix)
qed

lemma request_size_take:
  assumes "request_size s = Ok (Some n)" and "n \<le> length s"
  shows "request_size (take n s) = Ok (Some (length (take n s)))"
proof -
  obtain k where k: "position_end s = Some k" using assms(1) by (auto simp: request_size_def split: option.splits if_splits)
  then have "k + 4 \<le> n" using assms(1) by (auto simp: request_size_def Let_def split: option.splits if_splits)
  then have "position_end (take n s) = Some k" "take k (take n s) = take k s"
    using position_end_take [OF k] by (simp_all add: min_absorb1)
  then have "request_size (take n s) = request_size s" unfolding request_size_def k by simp
  with assms show ?thesis by simp
qed

lemma slot_receive_ok:
  assumes "slot_ok sl" and "sl_pending sl = None" and "sl_response sl = []" and "\<not> sl_closing sl"
  shows "slot_ok (fst (slot_receive data sl))"
proof -
  define rq where "rq = sl_request sl @ take (REQUEST_LIMIT - min (length (sl_request sl)) REQUEST_LIMIT) data"
  have "length (sl_request sl) \<le> REQUEST_LIMIT" using assms(1) by (simp add: slot_ok_def)
  then have len: "length rq \<le> REQUEST_LIMIT" by (simp add: rq_def)
  have "slot_ok (sl\<lparr>sl_request := rq\<rparr>)" using assms len by (simp add: slot_ok_def)
  moreover have "slot_ok (sl\<lparr>sl_request := [], sl_pending := Some (take n rq)\<rparr>)"
    if "request_size rq = Ok (Some n)" "n \<le> length rq" for n
    using assms request_size_take [OF that] by (simp add: slot_ok_def)
  ultimately show ?thesis
    by (auto simp: slot_receive_def Let_def rq_def [symmetric] split: result.split option.split)
qed

lemma slot_stages_ok:
  assumes "slot_ok sl"
  shows "slot_ok (fst (slot_reopen so sl))" "slot_ok (fst (slot_read so sl))" "slot_ok (fst (slot_poll so sl))"
    "slot_ok (slot_write so aborted sl)" "slot_ok (fst (slot_close sl))"
proof -
  have "slot_ok fresh_slot" by (simp add: fresh_slot_def slot_ok_def)
  with assms show "slot_ok (fst (slot_reopen so sl))" by (simp add: slot_reopen_def)
  show "slot_ok (fst (slot_read so sl))"
    using assms slot_receive_ok [OF assms] by (auto simp: slot_read_def split: option.split)
  show "slot_ok (fst (slot_poll so sl))"
    using assms by (auto simp: slot_poll_def slot_ok_def split: option.split)
  show "slot_ok (slot_write so aborted sl)"
    using assms by (auto simp: slot_write_def slot_ok_def split: option.split)
  show "slot_ok (fst (slot_close sl))"
    using assms by (auto simp: slot_close_def slot_ok_def split: option.split)
qed

lemma slot_turn_ok: "slot_ok sl \<Longrightarrow> slot_ok (fst (slot_turn so sl))"
  unfolding slot_turn_def Let_def split_def fst_conv by (intro slot_stages_ok)

inductive slot_step :: "slot \<Rightarrow> slot \<Rightarrow> bool" where
  turn: "slot_turn so sl = (sl', calls) \<Longrightarrow> slot_step sl sl'"

interpretation file_slots: safety "\<lambda>sl. sl = fresh_slot" slot_step slot_ok
proof
  show "slot_ok sl" if "sl = fresh_slot" for sl using that by (simp add: fresh_slot_def slot_ok_def)
  show "slot_ok t" if "slot_ok s" "slot_step s t" for s t using that(2,1) by cases (metis fst_conv slot_turn_ok)
qed

text \<open>
  Whatever a guest sends and however the network behaves, a slot of the file service buffers at most
  one MiB and the largest header, hands over only complete requests (their length is what their header
  says) and only one at a time, and never sends past its response.
\<close>

theorem slot_bounded:
  assumes "reach (\<lambda>sl. sl = fresh_slot) slot_step sl"
  shows "length (sl_request sl) \<le> 1064964 \<and> sl_sent sl \<le> length (sl_response sl)
    \<and> (case sl_pending sl of
         Some rq \<Rightarrow> request_size rq = Ok (Some (length rq)) \<and> length rq \<le> 1064964 \<and> sl_request sl = [] \<and> sl_response sl = []
       | None \<Rightarrow> True)"
proof -
  have I: "slot_ok sl" using assms by (rule file_slots.inv_reach)
  have "n \<le> 1064964" if "request_size rq = Ok (Some n)" for rq n
    using that by (auto simp: request_size_def Let_def split: option.splits if_splits)
  with I show ?thesis by (auto simp: slot_ok_def REQUEST_LIMIT_def split: option.splits)
qed

definition example_get :: string where
  "example_get = ''GET / HTTP/1.1'' @ [CR, LF, CR, LF]"

definition example_socket :: socket where
  "example_socket = \<lparr>so_open = True, so_recv = Some example_get, so_done = None, so_send = None, so_idle = False\<rparr>"

lemma example_get_size: "request_size example_get = Ok (Some 18)"
proof -
  have "position_end example_get = Some 14" by code_simp
  moreover have "take 14 example_get = ''GET / HTTP/1.1''" by (simp add: example_get_def)
  moreover have "from_utf8 ''GET / HTTP/1.1''" "size_lines (drop 1 (text_lines ''GET / HTTP/1.1'')) None = Some None" by code_simp+
  ultimately show ?thesis by (simp add: request_size_def)
qed

theorem slot_bounded_witness:
  "\<exists>sl. reach (\<lambda>sl. sl = fresh_slot) slot_step sl \<and> sl_pending sl = Some example_get \<and> request_size example_get = Ok (Some (length example_get))"
proof -
  define sl where "sl = fresh_slot\<lparr>sl_pending := Some example_get\<rparr>"
  have "length example_get = 18" by (simp add: example_get_def)
  then have "slot_receive example_get fresh_slot = (sl, [])"
    using example_get_size by (simp add: slot_receive_def fresh_slot_def REQUEST_LIMIT_def Let_def sl_def)
  then have "slot_turn example_socket fresh_slot = (sl, [])"
    by (simp add: slot_turn_def slot_reopen_def slot_read_def slot_poll_def slot_write_def slot_close_def example_socket_def fresh_slot_def sl_def)
  then have "slot_step fresh_slot sl" by (rule turn)
  moreover have "reach (\<lambda>sl. sl = fresh_slot) slot_step fresh_slot" by (rule reach_start) simp
  ultimately have "reach (\<lambda>sl. sl = fresh_slot) slot_step sl" by (rule_tac reach_move)
  with slot_bounded [OF this] show ?thesis by (auto simp: sl_def)
qed

end
