(* ===== verification/Snapshot_Disk.thy ===== *)
theory Snapshot_Disk
  imports Rust_Text
begin

text \<open>
  The disk of a branch of the computer (\<open>runtime/branch.rs\<close>): a Windows volume snapshot framed by partition
  tables that exist only in memory, and the read-only block server (NBD) that hands it to the virtual machine.
  SHA-256, CRC-32 and the reads of the snapshot's file are parameters. The reference is the disk as one list of
  bytes; reading it through partial reads, the partition tables and the server are proved against that list. A
  connection that breaks while the server writes ends the session there, with a prefix of the output shown here.
\<close>

section \<open>Byte order\<close>

text \<open>\<open>to_be_bytes\<close> and \<open>to_le_bytes\<close> of an integer of \<open>n\<close> bytes, and \<open>from_be_bytes\<close>, \<open>from_le_bytes\<close>.\<close>

fun be_digits :: "nat \<Rightarrow> nat \<Rightarrow> bytes" where
  "be_digits 0 x = []"
| "be_digits (Suc n) x = be_digits n (x div 256) @ [word_of_nat (x mod 256)]"

definition be_value :: "bytes \<Rightarrow> nat" where
  "be_value bs = foldl (\<lambda>acc b. 256 * acc + unat b) 0 bs"

definition le_digits :: "nat \<Rightarrow> nat \<Rightarrow> bytes" where
  "le_digits n x = rev (be_digits n x)"

definition le_value :: "bytes \<Rightarrow> nat" where
  "le_value bs = be_value (rev bs)"

lemma length_be_digits [simp]: "length (be_digits n x) = n"
  by (induction n arbitrary: x) simp_all

lemma length_le_digits [simp]: "length (le_digits n x) = n"
  by (simp add: le_digits_def)

lemma be_value_digits: "be_value (be_digits n x) = x mod 256 ^ n"
proof (induction n arbitrary: x)
  case 0
  then show ?case by (simp add: be_value_def)
next
  case (Suc n)
  have u: "unat (word_of_nat (x mod 256) :: u8) = x mod 256"
    by (simp add: unsigned_of_nat take_bit_nat_eq_self)
  have "be_value (be_digits (Suc n) x) = 256 * (x div 256 mod 256 ^ n) + x mod 256"
    using Suc [of "x div 256"] by (simp add: be_value_def u)
  also have "\<dots> = x mod 256 ^ Suc n" by (simp add: mod_mult2_eq)
  finally show ?case .
qed

lemma le_value_digits: "le_value (le_digits n x) = x mod 256 ^ n"
  by (simp add: le_value_def le_digits_def be_value_digits)

lemma be_value_bound: "be_value bs < 256 ^ length bs"
proof (induction bs rule: rev_induct)
  case Nil
  then show ?case by (simp add: be_value_def)
next
  case (snoc b bs)
  have "unat b < 256" using unsigned_less [of b] by simp
  with snoc show ?case by (simp add: be_value_def)
qed

section \<open>The synthetic disk\<close>

definition SECTOR_SIZE :: u64 where
  "SECTOR_SIZE = 512"

definition MIN_PARTITION_START_LBA :: u64 where
  "MIN_PARTITION_START_LBA = 2048"

definition GPT_ENTRY_COUNT :: u32 where
  "GPT_ENTRY_COUNT = 128"

definition GPT_ENTRY_SIZE :: u32 where
  "GPT_ENTRY_SIZE = 128"

definition GPT_ENTRY_SECTORS :: u64 where
  "GPT_ENTRY_SECTORS = (ucast GPT_ENTRY_COUNT * ucast GPT_ENTRY_SIZE) div SECTOR_SIZE"

text \<open>\<open>u64::checked_add\<close> and \<open>u64::checked_mul\<close>.\<close>

definition checked_add :: "u64 \<Rightarrow> u64 \<Rightarrow> u64 option" where
  "checked_add a b = (if unat a + unat b < 2 ^ 64 then Some (a + b) else None)"

definition checked_mul :: "u64 \<Rightarrow> u64 \<Rightarrow> u64 option" where
  "checked_mul a b = (if unat a * unat b < 2 ^ 64 then Some (a * b) else None)"

definition snapshot_disk_size :: "u64 \<Rightarrow> u64 \<Rightarrow> (u64, string) result" where
  "snapshot_disk_size volume_size partition_start_lba =
     (if volume_size = 0 \<or> volume_size mod SECTOR_SIZE \<noteq> 0 then Err ''Windows snapshot has an invalid block size''
      else if partition_start_lba < MIN_PARTITION_START_LBA
      then Err ''Windows system partition has an invalid starting sector''
      else
        (let volume_sectors = volume_size div SECTOR_SIZE
         in ok_or (Option.bind (Option.bind (checked_add partition_start_lba volume_sectors)
                (\<lambda>sectors. checked_add sectors (GPT_ENTRY_SECTORS + 1)))
                (\<lambda>sectors. checked_mul sectors SECTOR_SIZE))
              ''Windows snapshot is too large to expose as a virtual disk''))"

text \<open>The source file is what \<open>seek_read\<close> answers, so it is no field here.\<close>

record SnapshotDisk =
  sd_volume_size :: u64
  sd_partition_offset :: u64
  sd_disk_size :: u64
  sd_prefix :: bytes
  sd_suffix :: bytes

definition ascii :: "string \<Rightarrow> bytes" where
  "ascii s = map (\<lambda>c. word_of_nat (of_char c)) s"

definition stable_disk_id :: "(bytes \<Rightarrow> bytes) \<Rightarrow> string \<Rightarrow> string \<Rightarrow> bytes" where
  "stable_disk_id sha256 identity purpose =
     take 16 (sha256 (ascii ''OpenDock snapshot disk'' @ [0] @ ascii purpose @ [0] @ ascii identity))"

definition gpt_header :: "(bytes \<Rightarrow> u32) \<Rightarrow> u64 \<Rightarrow> u64 \<Rightarrow> u64 \<Rightarrow> bytes \<Rightarrow> u64 \<Rightarrow> u32 \<Rightarrow> bytes" where
  "gpt_header crc32 current_lba backup_lba last_usable_lba disk_id entries_lba entries_crc =
     (let header = replicate 512 0;
          header = copy_into header 0 (ascii ''EFI PART'');
          header = copy_into header 8 (le_digits 4 0x10000);
          header = copy_into header 12 (le_digits 4 92);
          header = copy_into header 24 (le_digits 8 (unat current_lba));
          header = copy_into header 32 (le_digits 8 (unat backup_lba));
          header = copy_into header 40 (le_digits 8 34);
          header = copy_into header 48 (le_digits 8 (unat last_usable_lba));
          header = copy_into header 56 disk_id;
          header = copy_into header 72 (le_digits 8 (unat entries_lba));
          header = copy_into header 80 (le_digits 4 (unat GPT_ENTRY_COUNT));
          header = copy_into header 84 (le_digits 4 (unat GPT_ENTRY_SIZE));
          header = copy_into header 88 (le_digits 4 (unat entries_crc));
          crc = crc32 (take 92 header)
      in copy_into header 16 (le_digits 4 (unat crc)))"

text \<open>The entries of the partition table: one partition of type \<^emph>\<open>Microsoft basic data\<close>, named in UTF-16.\<close>

definition BASIC_DATA :: bytes where
  "BASIC_DATA = [0xa2, 0xa0, 0xd0, 0xeb, 0xe5, 0xb9, 0x33, 0x44, 0x87, 0xc0, 0x68, 0xb6, 0xb7, 0x26, 0x99, 0xc7]"

definition gpt_entries :: "bytes \<Rightarrow> u64 \<Rightarrow> u64 \<Rightarrow> bytes" where
  "gpt_entries partition_id partition_start_lba partition_last_lba =
     (let entries = replicate (unat (GPT_ENTRY_COUNT * GPT_ENTRY_SIZE)) 0;
          entries = copy_into entries 0 BASIC_DATA;
          entries = copy_into entries 16 partition_id;
          entries = copy_into entries 32 (le_digits 8 (unat partition_start_lba));
          entries = copy_into entries 40 (le_digits 8 (unat partition_last_lba))
      in fold (\<lambda>(index, unit) entries. copy_into entries (56 + index * 2) (le_digits 2 unit))
           (enumerate 0 (map of_char ''Windows'')) entries)"

text \<open>The protective MBR.\<close>

definition protective_mbr :: "u64 \<Rightarrow> bytes \<Rightarrow> bytes" where
  "protective_mbr last_lba p =
     (let p = copy_into p (446 + 1) (replicate 3 0xff);
          p = copy_into p (446 + 4) [0xee];
          p = copy_into p (446 + 5) (replicate 3 0xff);
          p = copy_into p (446 + 8) (le_digits 4 1);
          p = copy_into p (446 + 12) (le_digits 4 (if unat last_lba < 2 ^ 32 then unat last_lba else 2 ^ 32 - 1))
      in copy_into p 510 [0x55, 0xaa])"

definition build_snapshot_disk :: "(bytes \<Rightarrow> u32) \<Rightarrow> (bytes \<Rightarrow> bytes) \<Rightarrow> u64 \<Rightarrow> u64 \<Rightarrow> string
    \<Rightarrow> (SnapshotDisk, string) result" where
  "build_snapshot_disk crc32 sha256 volume_size partition_start_lba identity =
     result_bind (snapshot_disk_size volume_size partition_start_lba) (\<lambda>disk_size.
       let volume_sectors = volume_size div SECTOR_SIZE;
           last_lba = disk_size div SECTOR_SIZE - 1;
           partition_last_lba = partition_start_lba + volume_sectors - 1;
           backup_entries_lba = last_lba - GPT_ENTRY_SECTORS;
           partition_offset = partition_start_lba * SECTOR_SIZE;
           entries = gpt_entries (stable_disk_id sha256 identity ''partition'') partition_start_lba partition_last_lba;
           entries_crc = crc32 entries;
           disk_id = stable_disk_id sha256 identity ''disk'';
           p = protective_mbr last_lba (replicate (34 * 512) 0);
           p = copy_into p 512 (gpt_header crc32 1 last_lba (backup_entries_lba - 1) disk_id 2 entries_crc);
           p = copy_into p 1024 entries;
           s = copy_into (replicate (unat ((GPT_ENTRY_SECTORS + 1) * SECTOR_SIZE)) 0) 0 entries;
           s = copy_into s (unat GPT_ENTRY_SECTORS * 512)
                 (gpt_header crc32 last_lba 1 (backup_entries_lba - 1) disk_id backup_entries_lba entries_crc)
       in Ok \<lparr>sd_volume_size = volume_size, sd_partition_offset = partition_offset, sd_disk_size = disk_size,
              sd_prefix = p, sd_suffix = s\<rparr>)"

lemma build_snapshot_disk_size:
  "snapshot_disk_size volume_size start = Ok n
    \<Longrightarrow> \<exists>disk. build_snapshot_disk crc32 sha256 volume_size start identity = Ok disk \<and> sd_disk_size disk = n"
  by (simp add: build_snapshot_disk_def Let_def)

section \<open>Reading\<close>

text \<open>
  \<open>seek offset n\<close> is the answer of \<open>File::seek_read\<close> on the snapshot with a buffer of \<open>n\<close> bytes: an error or
  the bytes it put into the buffer, which may be fewer than the buffer holds.
\<close>

type_synonym seek = "u64 \<Rightarrow> nat \<Rightarrow> (bytes, string) result"

definition seek_read :: "seek \<Rightarrow> u64 \<Rightarrow> nat \<Rightarrow> (bytes, string) result" where
  "seek_read seek offset n = result_bind (seek offset n) (\<lambda>bs. Ok (take n bs))"

lemma seek_read_length: "seek_read seek offset n = Ok bs \<Longrightarrow> length bs \<le> n"
  by (auto simp: seek_read_def)

function read_source :: "seek \<Rightarrow> u64 \<Rightarrow> nat \<Rightarrow> (bytes, string) result" where
  "read_source seek offset n =
     (if n = 0 then Ok []
      else (case seek_read seek offset n of
          Err e \<Rightarrow> Err e
        | Ok got \<Rightarrow>
            if got = [] then Err ''Windows snapshot ended before its advertised volume size''
            else result_bind (read_source seek (offset + of_nat (length got)) (n - length got))
                   (\<lambda>rest. Ok (got @ rest))))"
  by pat_completeness auto
termination
  by (relation "measure (\<lambda>(seek, offset, n). n)") (auto simp: length_greater_0_conv)

declare read_source.simps [simp del]

text \<open>A slice out of bounds is a panic, the value \<open>None\<close>.\<close>

definition copy_disk_segment :: "bytes \<Rightarrow> u64 \<Rightarrow> bytes \<Rightarrow> u64 \<Rightarrow> bytes option" where
  "copy_disk_segment output request_offset segment segment_offset =
     (let request_end = request_offset + of_nat (length output);
          segment_end = segment_offset + of_nat (length segment);
          copy_start = max request_offset segment_offset;
          copy_end = min request_end segment_end
      in if copy_start \<ge> copy_end then Some output
         else
           (let output_start = unat (copy_start - request_offset);
                output_end = unat (copy_end - request_offset);
                segment_start = unat (copy_start - segment_offset);
                segment_end = unat (copy_end - segment_offset)
            in Option.bind (get_range output output_start output_end) (\<lambda>target.
               Option.bind (get_range segment segment_start segment_end) (\<lambda>part.
                 if length part = length target then Some (copy_into output output_start part) else None))))"

definition read_snapshot_disk :: "SnapshotDisk \<Rightarrow> seek \<Rightarrow> u64 \<Rightarrow> nat \<Rightarrow> (bytes, string) result option" where
  "read_snapshot_disk disk seek offset n =
     (let output = replicate n 0
      in case checked_add offset (of_nat n) of
          None \<Rightarrow> Some (Err ''block request overflow'')
        | Some request_end \<Rightarrow>
            if request_end > sd_disk_size disk then Some (Err ''block request exceeds synthetic snapshot disk'')
            else Option.bind (copy_disk_segment output offset (sd_prefix disk) 0) (\<lambda>output.
              let volume_end = sd_partition_offset disk + sd_volume_size disk;
                  read_start = max offset (sd_partition_offset disk);
                  read_end = min request_end volume_end
              in Option.bind
                   (if read_start < read_end then
                      (let destination_start = unat (read_start - offset);
                           destination_end = unat (read_end - offset);
                           source_offset = read_start - sd_partition_offset disk
                       in Option.bind (get_range output destination_start destination_end) (\<lambda>destination.
                            Some (result_bind (read_source seek source_offset (length destination))
                              (\<lambda>data. Ok (copy_into output destination_start data)))))
                    else Some (Ok output))
                   (\<lambda>r. case r of
                       Err e \<Rightarrow> Some (Err e)
                     | Ok output \<Rightarrow> map_option Ok (copy_disk_segment output offset (sd_suffix disk) volume_end))))"


section \<open>Reads agree with the image\<close>

text \<open>
  The reference: the whole disk as one list of bytes. The server never builds it; the volume alone
  may have terabytes.
\<close>

definition disk_image :: "SnapshotDisk \<Rightarrow> bytes \<Rightarrow> bytes" where
  "disk_image disk volume =
     sd_prefix disk @ replicate (unat (sd_partition_offset disk) - length (sd_prefix disk)) 0 @ volume @ sd_suffix disk"

text \<open>What \<open>seek_read\<close> promises: bytes of the volume from that offset; and, while none of its calls fails,
  at least one byte before the end.\<close>

definition sound_source :: "bytes \<Rightarrow> seek \<Rightarrow> bool" where
  "sound_source volume seek \<longleftrightarrow> (\<forall>offset n bs. seek_read seek offset n = Ok bs \<longrightarrow> bs \<noteq> [] \<longrightarrow>
     unat offset + length bs \<le> length volume \<and> bs = subslice volume (unat offset) (unat offset + length bs))"

definition complete_source :: "bytes \<Rightarrow> seek \<Rightarrow> bool" where
  "complete_source volume seek \<longleftrightarrow> (\<forall>offset n. unat offset < length volume \<longrightarrow> 0 < n \<longrightarrow>
     (\<exists>bs. seek_read seek offset n = Ok bs \<and> bs \<noteq> []))"

definition disk_ok :: "SnapshotDisk \<Rightarrow> bytes \<Rightarrow> bool" where
  "disk_ok disk volume \<longleftrightarrow> length volume = unat (sd_volume_size disk)
     \<and> length (sd_prefix disk) \<le> unat (sd_partition_offset disk)
     \<and> unat (sd_disk_size disk) = unat (sd_partition_offset disk) + length volume + length (sd_suffix disk)"

lemma unat_add_small: "unat (a :: u64) + unat b < 2 ^ 64 \<Longrightarrow> unat (a + b) = unat a + unat b"
  by (simp add: unat_word_ariths)

lemma unat_of_small: "n < 2 ^ 64 \<Longrightarrow> unat (of_nat n :: u64) = n"
  by (simp add: unsigned_of_nat take_bit_nat_eq_self)

lemma unat_offset: "unat (a :: u64) + n < 2 ^ 64 \<Longrightarrow> unat (a + of_nat n) = unat a + n"
  by (simp add: unat_add_small unat_of_small)

lemma unat_max: "unat (max (a :: u64) b) = max (unat a) (unat b)"
  by (simp add: max_def word_le_nat_alt)

lemma unat_min: "unat (min (a :: u64) b) = min (unat a) (unat b)"
  by (simp add: min_def word_le_nat_alt)

lemma subslice_join:
  assumes "a \<le> b" "b \<le> c"
  shows "subslice xs a b @ subslice xs b c = subslice xs a c"
proof -
  have "take (b - a + (c - b)) (drop a xs) = take (b - a) (drop a xs) @ take (c - b) (drop (b - a) (drop a xs))"
    by (rule take_add)
  with assms show ?thesis by (simp add: subslice_def)
qed

lemma read_source_step:
  assumes "0 < n"
  shows "read_source seek offset n = (case seek_read seek offset n of
          Err e \<Rightarrow> Err e
        | Ok got \<Rightarrow>
            if got = [] then Err ''Windows snapshot ended before its advertised volume size''
            else result_bind (read_source seek (offset + of_nat (length got)) (n - length got))
                   (\<lambda>rest. Ok (got @ rest)))"
  using assms by (subst read_source.simps) simp

lemma read_source_sound:
  assumes "sound_source volume seek" "length volume < 2 ^ 64"
  shows "read_source seek offset n = Ok bs \<Longrightarrow> unat offset + n \<le> length volume
    \<Longrightarrow> bs = subslice volume (unat offset) (unat offset + n)"
proof (induction n arbitrary: offset bs rule: less_induct)
  case (less n)
  show ?case
  proof (cases "n = 0")
    case True
    with less.prems show ?thesis by (simp add: read_source.simps subslice_def)
  next
    case False
    then have n: "0 < n" by simp
    from less.prems(1) obtain got rest where g: "seek_read seek offset n = Ok got" "got \<noteq> []"
      and r: "read_source seek (offset + of_nat (length got)) (n - length got) = Ok rest" and bs: "bs = got @ rest"
      unfolding read_source_step [OF n] by (auto split: result.splits if_splits)
    have l: "length got \<le> n" "0 < length got" using g seek_read_length by auto
    have got: "got = subslice volume (unat offset) (unat offset + length got)"
      using assms(1) g unfolding sound_source_def by blast
    have o: "unat (offset + of_nat (length got)) = unat offset + length got"
      using less.prems(2) assms(2) l by (intro unat_offset) simp
    have "rest = subslice volume (unat offset + length got) (unat offset + n)"
      using less.IH [OF _ r] l n less.prems(2) o by simp
    with got bs l show ?thesis using subslice_join [of "unat offset" "unat offset + length got" "unat offset + n" volume]
      by simp
  qed
qed

lemma read_source_complete:
  assumes "complete_source volume seek" "length volume < 2 ^ 64"
  shows "unat offset + n \<le> length volume \<Longrightarrow> \<exists>bs. read_source seek offset n = Ok bs"
proof (induction n arbitrary: offset rule: less_induct)
  case (less n)
  show ?case
  proof (cases "n = 0")
    case True
    then show ?thesis by (simp add: read_source.simps)
  next
    case False
    then have n: "0 < n" by simp
    then have "unat offset < length volume" using less.prems by simp
    with n obtain got where g: "seek_read seek offset n = Ok got" "got \<noteq> []"
      using assms(1) unfolding complete_source_def by blast
    have l: "length got \<le> n" "0 < length got" using g seek_read_length by auto
    have o: "unat (offset + of_nat (length got)) = unat offset + length got"
      using less.prems assms(2) l by (intro unat_offset) simp
    then obtain rest where "read_source seek (offset + of_nat (length got)) (n - length got) = Ok rest"
      using less.IH [of "n - length got" "offset + of_nat (length got)"] l n less.prems by auto
    with g show ?thesis unfolding read_source_step [OF n] by simp
  qed
qed

lemma copy_disk_segment_overlay:
  assumes "unat ro + length out < 2 ^ 64" "unat so + length seg < 2 ^ 64"
  shows "\<exists>out'. copy_disk_segment out ro seg so = Some out' \<and> length out' = length out
    \<and> (\<forall>i < length out. out' ! i =
         (if unat so \<le> unat ro + i \<and> unat ro + i < unat so + length seg then seg ! (unat ro + i - unat so) else out ! i))"
proof -
  define cs ce where "cs = max ro so" and "ce = min (ro + of_nat (length out)) (so + of_nat (length seg))"
  have u: "unat cs = max (unat ro) (unat so)" "unat ce = min (unat ro + length out) (unat so + length seg)"
    using assms by (simp_all add: cs_def ce_def unat_max unat_min unat_offset)
  have d: "copy_disk_segment out ro seg so =
     (if ce \<le> cs then Some out
      else Option.bind (get_range out (unat (cs - ro)) (unat (ce - ro))) (\<lambda>target.
           Option.bind (get_range seg (unat (cs - so)) (unat (ce - so))) (\<lambda>part.
                 if length part = length target then Some (copy_into out (unat (cs - ro)) part) else None)))"
    unfolding copy_disk_segment_def Let_def cs_def ce_def ..
  show ?thesis
  proof (cases "ce \<le> cs")
    case True
    then have "min (unat ro + length out) (unat so + length seg) \<le> max (unat ro) (unat so)"
      using u by (simp add: word_le_nat_alt)
    then have "\<not> (unat so \<le> unat ro + i \<and> unat ro + i < unat so + length seg)" if "i < length out" for i
      using that by linarith
    with True d show ?thesis by auto
  next
    case False
    then have lt: "unat cs < unat ce" by (simp add: word_le_nat_alt)
    have le: "ro \<le> cs" "so \<le> cs" "ro \<le> ce" "so \<le> ce"
      using lt u by (simp_all add: word_le_nat_alt)
    have s: "unat (cs - ro) = unat cs - unat ro" "unat (ce - ro) = unat ce - unat ro"
      "unat (cs - so) = unat cs - unat so" "unat (ce - so) = unat ce - unat so"
      using le by (simp_all add: unat_sub)
    define part where "part = subslice seg (unat cs - unat so) (unat ce - unat so)"
    have p: "length part = unat ce - unat cs" using lt u by (simp add: part_def)
    have c: "copy_disk_segment out ro seg so = Some (copy_into out (unat cs - unat ro) part)"
    proof -
      have "unat cs - unat ro \<le> unat ce - unat ro" "unat ce - unat ro \<le> length out"
        "unat cs - unat so \<le> unat ce - unat so" "unat ce - unat so \<le> length seg"
        "unat ce - unat ro - (unat cs - unat ro) = unat ce - unat cs" "length out - (unat cs - unat ro) \<ge> unat ce - unat cs"
        using lt u by linarith+
      with False p show ?thesis by (simp add: d s get_range_def part_def [symmetric])
    qed
    have b: "unat cs - unat ro + length part \<le> length out" using p lt u by simp
    have "copy_into out (unat cs - unat ro) part ! i =
         (if unat so \<le> unat ro + i \<and> unat ro + i < unat so + length seg then seg ! (unat ro + i - unat so) else out ! i)"
      if i: "i < length out" for i
    proof (cases "unat so \<le> unat ro + i \<and> unat ro + i < unat so + length seg")
      case True
      then have k: "\<not> i < unat cs - unat ro" "i < unat cs - unat ro + length part" using u p i lt by linarith+
      have "part ! (i - (unat cs - unat ro)) = seg ! (unat cs - unat so + (i - (unat cs - unat ro)))"
        unfolding part_def by (rule subslice_nth) (use True u i lt in linarith)+
      also have "unat cs - unat so + (i - (unat cs - unat ro)) = unat ro + i - unat so"
        using True u k by linarith
      finally show ?thesis using True k nth_copy_into [OF b i] by simp
    next
      case False
      then have "i < unat cs - unat ro \<or> unat cs - unat ro + length part \<le> i" using u p i lt by linarith
      with False show ?thesis using nth_copy_into [OF b i] by auto
    qed
    with c b show ?thesis by auto
  qed
qed


lemma disk_image_nth:
  assumes "disk_ok disk volume" "j < unat (sd_disk_size disk)"
  shows "disk_image disk volume ! j =
    (if j < length (sd_prefix disk) then sd_prefix disk ! j
     else if j < unat (sd_partition_offset disk) then 0
     else if j < unat (sd_partition_offset disk) + length volume then volume ! (j - unat (sd_partition_offset disk))
     else sd_suffix disk ! (j - (unat (sd_partition_offset disk) + length volume)))"
  using assms by (auto simp: disk_image_def disk_ok_def nth_append)

lemma length_disk_image: "disk_ok disk volume \<Longrightarrow> length (disk_image disk volume) = unat (sd_disk_size disk)"
  by (simp add: disk_image_def disk_ok_def)

lemma disk_image_volume:
  assumes "disk_ok disk volume"
  shows "subslice (disk_image disk volume) (unat (sd_partition_offset disk)) (unat (sd_partition_offset disk) + length volume) = volume"
  using assms subslice_append_right [of "sd_prefix disk @ replicate (unat (sd_partition_offset disk) - length (sd_prefix disk)) 0"
      "unat (sd_partition_offset disk)" "volume @ sd_suffix disk" "unat (sd_partition_offset disk) + length volume"]
  by (simp add: disk_image_def disk_ok_def subslice_def)

lemma volume_overlay:
  assumes source: "sound_source volume seek" and n: "length out = n" "unat offset + n < 2 ^ 64"
    and fits: "unat po + length volume < 2 ^ 64"
    and u: "unat rs = max (unat offset) (unat po)" "unat rd = min (unat offset + n) (unat po + length volume)"
    and mid: "mid = (if rs < rd then
      Option.bind (get_range out (unat (rs - offset)) (unat (rd - offset))) (\<lambda>destination.
        Some (result_bind (read_source seek (rs - po) (length destination))
           (\<lambda>data. Ok (copy_into out (unat (rs - offset)) data))))
      else Some (Ok out))"
  shows "(\<exists>out'. mid = Some (Ok out') \<and> length out' = n \<and> (\<forall>i < n. out' ! i =
       (if unat po \<le> unat offset + i \<and> unat offset + i < unat po + length volume
        then volume ! (unat offset + i - unat po) else out ! i)))
     \<or> \<not> complete_source volume seek \<and> (\<exists>e. mid = Some (Err e))"
proof (cases "rs < rd")
  case False
  then have "unat rd \<le> unat rs" by (simp add: word_less_nat_alt)
  with u have "\<not> (unat po \<le> unat offset + i \<and> unat offset + i < unat po + length volume)" if "i < n" for i
    using that by linarith
  with False mid n show ?thesis by auto
next
  case True
  then have lt: "unat rs < unat rd" by (simp add: word_less_nat_alt)
  have le: "offset \<le> rs" "po \<le> rs" "offset \<le> rd" "po \<le> rd" using lt u by (simp_all add: word_le_nat_alt)
  define a k where "a = unat rs - unat offset" and "k = unat rd - unat rs"
  have sub: "unat (rs - offset) = a" "unat (rd - offset) = a + k" "unat (rs - po) = unat rs - unat po"
    using le lt by (simp_all add: unat_sub a_def k_def word_le_nat_alt)
  have bounds: "a + k \<le> n" "unat rs - unat po + k \<le> length volume" using u lt unfolding a_def k_def by linarith+
  have m: "mid = Some (result_bind (read_source seek (rs - po) k) (\<lambda>data. Ok (copy_into out a data)))"
    using True bounds n(1) by (simp add: mid sub get_range_def)
  show ?thesis
  proof (cases "read_source seek (rs - po) k")
    case (Err e)
    then have "\<not> complete_source volume seek"
      using read_source_complete [of volume seek "rs - po" k] sub bounds fits by auto
    with Err m show ?thesis by simp
  next
    case (Ok data)
    have data: "data = subslice volume (unat rs - unat po) (unat rs - unat po + k)"
      using read_source_sound [OF source _ Ok] sub bounds fits by simp
    then have l: "length data = k" using bounds by simp
    have b: "a + length data \<le> length out" using l bounds n by simp
    have "copy_into out a data ! i = (if unat po \<le> unat offset + i \<and> unat offset + i < unat po + length volume
        then volume ! (unat offset + i - unat po) else out ! i)" if i: "i < n" for i
    proof (cases "unat po \<le> unat offset + i \<and> unat offset + i < unat po + length volume")
      case True
      then have h: "a \<le> i" "i < a + length data" using u l i lt unfolding a_def k_def by linarith+
      have "data ! (i - a) = volume ! (unat rs - unat po + (i - a))"
        unfolding data by (rule subslice_nth) (use h l bounds in linarith)+
      also have "unat rs - unat po + (i - a) = unat offset + i - unat po"
        using True u h unfolding a_def by linarith
      finally show ?thesis using True h i n nth_copy_into [OF b, of i] by simp
    next
      case False
      then have "i < a \<or> a + length data \<le> i" using u l i lt unfolding a_def k_def by linarith
      with False show ?thesis using i n nth_copy_into [OF b, of i] by auto
    qed
    with Ok m b n show ?thesis by auto
  qed
qed

lemma read_snapshot_disk_cases:
  assumes ok: "disk_ok disk volume" and source: "sound_source volume seek" and n: "n < 2 ^ 64"
  shows "if unat offset + n \<le> unat (sd_disk_size disk)
     then read_snapshot_disk disk seek offset n
            = Some (Ok (subslice (disk_image disk volume) (unat offset) (unat offset + n)))
          \<or> \<not> complete_source volume seek \<and> (\<exists>e. read_snapshot_disk disk seek offset n = Some (Err e))
     else \<exists>e. read_snapshot_disk disk seek offset n = Some (Err e)"
proof (cases "unat offset + n \<le> unat (sd_disk_size disk)")
  case False
  then show ?thesis
  proof (cases "unat offset + n < 2 ^ 64")
    case True
    then have "unat (offset + of_nat n) = unat offset + n" by (rule unat_offset)
    with False True n show ?thesis
      by (simp add: read_snapshot_disk_def checked_add_def unat_of_small word_less_nat_alt)
  qed (use n in \<open>simp add: read_snapshot_disk_def checked_add_def unat_of_small\<close>)
next
  case True
  let ?D = "unat (sd_disk_size disk)" and ?P = "unat (sd_partition_offset disk)" and ?O = "unat offset"
  have D: "?D < 2 ^ 64" using unsigned_less [of "sd_disk_size disk"] by simp
  then have re: "unat (offset + of_nat n) = ?O + n" "?O + n < 2 ^ 64" using True by (auto intro: unat_offset)
  have dim: "length volume = unat (sd_volume_size disk)" "length (sd_prefix disk) \<le> ?P"
    "?D = ?P + length volume + length (sd_suffix disk)" using ok by (auto simp: disk_ok_def)
  have ve: "unat (sd_partition_offset disk + sd_volume_size disk) = ?P + length volume"
    using D dim by (simp add: unat_add_small)
  obtain o1 where o1: "copy_disk_segment (replicate n 0) offset (sd_prefix disk) 0 = Some o1" "length o1 = n"
    "\<And>i. i < n \<Longrightarrow> o1 ! i = (if ?O + i < length (sd_prefix disk) then sd_prefix disk ! (?O + i) else 0)"
    using copy_disk_segment_overlay [of offset "replicate n 0" 0 "sd_prefix disk"] re D dim by auto
  define rs rd where "rs = max offset (sd_partition_offset disk)"
    and "rd = min (offset + of_nat n) (sd_partition_offset disk + sd_volume_size disk)"
  have u: "unat rs = max ?O ?P" "unat rd = min (?O + n) (?P + length volume)"
    using re ve by (simp_all add: rs_def rd_def unat_max unat_min)
  define mid where "mid = (if rs < rd then
      Option.bind (get_range o1 (unat (rs - offset)) (unat (rd - offset))) (\<lambda>destination.
        Some (result_bind (read_source seek (rs - sd_partition_offset disk) (length destination))
           (\<lambda>data. Ok (copy_into o1 (unat (rs - offset)) data))))
      else Some (Ok o1))"
  have d: "read_snapshot_disk disk seek offset n = Option.bind mid (\<lambda>r. case r of Err e \<Rightarrow> Some (Err e)
      | Ok output \<Rightarrow> map_option Ok (copy_disk_segment output offset (sd_suffix disk) (sd_partition_offset disk + sd_volume_size disk)))"
    using n True re o1(1) unfolding read_snapshot_disk_def Let_def mid_def rs_def rd_def
    by (simp add: checked_add_def unat_of_small word_less_nat_alt)
  have m: "(\<exists>o2. mid = Some (Ok o2) \<and> length o2 = n \<and>
       (\<forall>i < n. o2 ! i = (if ?P \<le> ?O + i \<and> ?O + i < ?P + length volume then volume ! (?O + i - ?P) else o1 ! i)))
     \<or> \<not> complete_source volume seek \<and> (\<exists>e. mid = Some (Err e))"
    using re(2) D dim by (intro volume_overlay [OF source o1(2) _ _ u mid_def]) simp_all
  then show ?thesis
  proof
    assume "\<not> complete_source volume seek \<and> (\<exists>e. mid = Some (Err e))"
    then show ?thesis using True d by auto
  next
    assume "\<exists>o2. mid = Some (Ok o2) \<and> length o2 = n \<and>
       (\<forall>i < n. o2 ! i = (if ?P \<le> ?O + i \<and> ?O + i < ?P + length volume then volume ! (?O + i - ?P) else o1 ! i))"
    then obtain o2 where o2: "mid = Some (Ok o2)" "length o2 = n"
      "\<And>i. i < n \<Longrightarrow> o2 ! i = (if ?P \<le> ?O + i \<and> ?O + i < ?P + length volume then volume ! (?O + i - ?P) else o1 ! i)"
      by blast
    obtain o3 where o3: "copy_disk_segment o2 offset (sd_suffix disk) (sd_partition_offset disk + sd_volume_size disk) = Some o3"
      "length o3 = n" "\<And>i. i < n \<Longrightarrow> o3 ! i = (if ?P + length volume \<le> ?O + i
         \<and> ?O + i < ?P + length volume + length (sd_suffix disk) then sd_suffix disk ! (?O + i - (?P + length volume)) else o2 ! i)"
      using copy_disk_segment_overlay [of offset o2 "sd_partition_offset disk + sd_volume_size disk" "sd_suffix disk"]
        re D dim ve o2(2) by auto
    have "o3 = subslice (disk_image disk volume) ?O (?O + n)"
    proof (rule nth_equalityI)
      show "length o3 = length (subslice (disk_image disk volume) ?O (?O + n))"
        using o3(2) True length_disk_image [OF ok] by simp
      fix i assume i: "i < length o3"
      then have j: "?O + i < ?D" using o3(2) True by simp
      have "subslice (disk_image disk volume) ?O (?O + n) ! i = disk_image disk volume ! (?O + i)"
        using i o3(2) True length_disk_image [OF ok] by (intro subslice_nth) simp_all
      then show "o3 ! i = subslice (disk_image disk volume) ?O (?O + n) ! i"
        using i o3(2,3) o2(3) o1(3) j dim disk_image_nth [OF ok j] by auto
    qed
    then show ?thesis using True d o2(1) o3(1) by simp
  qed
qed


section \<open>The disk that is built\<close>

lemma snapshot_disk_size_Ok:
  assumes "snapshot_disk_size volume_size start = Ok disk_size"
  shows "0 < unat volume_size" "512 dvd unat volume_size" "2048 \<le> unat start"
    "unat disk_size = (unat start + unat volume_size div 512 + 33) * 512"
proof -
  have c: "\<not> volume_size = 0" "volume_size mod 512 = 0" "\<not> start < 2048"
    and o: "Option.bind (Option.bind (checked_add start (volume_size div 512)) (\<lambda>sectors. checked_add sectors 33))
      (\<lambda>sectors. checked_mul sectors 512) = Some disk_size"
    using assms by (auto simp: snapshot_disk_size_def SECTOR_SIZE_def MIN_PARTITION_START_LBA_def GPT_ENTRY_SECTORS_def
        GPT_ENTRY_COUNT_def GPT_ENTRY_SIZE_def Let_def split: if_splits)
  show "0 < unat volume_size" using c(1) by (simp add: unat_gt_0)
  have "unat (volume_size mod 512) = 0" using c(2) by simp
  then show "512 dvd unat volume_size" by (simp add: unat_mod_distrib dvd_eq_mod_eq_0)
  show "2048 \<le> unat start" using c(3) by (simp add: word_less_nat_alt)
  define sectors where "sectors = volume_size div 512"
  have v: "unat sectors = unat volume_size div 512" by (simp add: sectors_def unat_div_distrib)
  from o obtain a b where a: "checked_add start sectors = Some a" "checked_add a 33 = Some b" "checked_mul b 512 = Some disk_size"
    unfolding sectors_def by (auto simp: bind_eq_Some_conv)
  have "unat a = unat start + unat sectors" "unat b = unat a + 33" "unat disk_size = unat b * 512"
    using a by (auto simp: checked_add_def checked_mul_def unat_word_ariths split: if_splits)
  then show "unat disk_size = (unat start + unat volume_size div 512 + 33) * 512" using v by simp
qed

lemma unat_consts: "unat SECTOR_SIZE = 512" "unat GPT_ENTRY_SECTORS = 32" "unat GPT_ENTRY_COUNT = 128" "unat GPT_ENTRY_SIZE = 128"
  "unat (GPT_ENTRY_COUNT * GPT_ENTRY_SIZE) = 16384" "unat ((GPT_ENTRY_SECTORS + 1) * SECTOR_SIZE) = 16896"
  by (simp_all add: SECTOR_SIZE_def GPT_ENTRY_SECTORS_def GPT_ENTRY_COUNT_def GPT_ENTRY_SIZE_def)

lemma length_ascii [simp]: "length (ascii s) = length s"
  by (simp add: ascii_def)

lemma length_BASIC_DATA [simp]: "length BASIC_DATA = 16"
  by (simp add: BASIC_DATA_def)

lemma length_stable_disk_id: "length (sha256 (ascii ''OpenDock snapshot disk'' @ [0] @ ascii purpose @ [0] @ ascii identity)) = 32
    \<Longrightarrow> length (stable_disk_id sha256 identity purpose) = 16"
  by (simp add: stable_disk_id_def)

lemma subslice_written: "b = a + length v \<Longrightarrow> b \<le> length xs \<Longrightarrow> subslice (copy_into xs a v) a b = v"
  using subslice_copy_same by metis

text \<open>A sequence of writes: what a later write does not touch stays.\<close>

abbreviation write_all :: "(nat \<times> 'a list) list \<Rightarrow> 'a list \<Rightarrow> 'a list" where
  "write_all ws xs \<equiv> fold (\<lambda>(k, v) xs. copy_into xs k v) ws xs"

definition writes_fit :: "(nat \<times> 'a list) list \<Rightarrow> nat \<Rightarrow> bool" where
  "writes_fit ws n = list_all (\<lambda>(k, v). k + length v \<le> n) ws"

definition apart :: "(nat \<times> 'a list) list \<Rightarrow> nat \<Rightarrow> nat \<Rightarrow> bool" where
  "apart ws a b = list_all (\<lambda>(k, v). b \<le> k \<or> k + length v \<le> a) ws"

lemma length_write_all: "writes_fit ws (length xs) \<Longrightarrow> length (write_all ws xs) = length xs"
  by (induction ws arbitrary: xs) (auto simp: writes_fit_def)

lemma write_all_apart:
  "writes_fit ws (length xs) \<Longrightarrow> apart ws a b \<Longrightarrow> b \<le> length xs
    \<Longrightarrow> subslice (write_all ws xs) a b = subslice xs a b"
proof (induction ws arbitrary: xs)
  case (Cons w ws)
  then show ?case by (cases w) (auto simp: writes_fit_def apart_def subslice_copy_disjoint)
qed simp

lemma write_all_read:
  assumes "writes_fit ws (length xs)" "i < length ws" "ws ! i = (a, v)" "b = a + length v" "apart (drop (Suc i) ws) a b"
  shows "subslice (write_all ws xs) a b = v"
proof -
  have ws: "ws = take i ws @ (a, v) # drop (Suc i) ws" using assms(2,3) by (metis id_take_nth_drop)
  have f: "writes_fit (take i ws) (length xs)" "a + length v \<le> length xs" "writes_fit (drop (Suc i) ws) (length xs)"
    using assms(1) unfolding writes_fit_def by (subst (asm) ws, simp)+
  define ys where "ys = copy_into (write_all (take i ws) xs) a v"
  have l: "length (write_all (take i ws) xs) = length xs" using f(1) by (rule length_write_all)
  then have l: "length (write_all (take i ws) xs) = length xs" "length ys = length xs" using f(2) by (simp_all add: ys_def)
  have "write_all ws xs = write_all (drop (Suc i) ws) ys" by (subst ws) (simp add: ys_def)
  moreover have "subslice ys a b = v" using f l by (simp add: ys_def assms(4) subslice_copy_same)
  ultimately show ?thesis using write_all_apart [of "drop (Suc i) ws" ys a b] f l assms(4,5) by simp
qed

text \<open>The header before its own checksum is entered.\<close>

definition gpt_fields :: "u64 \<Rightarrow> u64 \<Rightarrow> u64 \<Rightarrow> bytes \<Rightarrow> u64 \<Rightarrow> u32 \<Rightarrow> bytes" where
  "gpt_fields current backup last_usable disk_id entries_lba entries_crc =
     fold (\<lambda>(k, v) header. copy_into header k v)
       [(0, ascii ''EFI PART''), (8, le_digits 4 0x10000), (12, le_digits 4 92), (24, le_digits 8 (unat current)),
        (32, le_digits 8 (unat backup)), (40, le_digits 8 34), (48, le_digits 8 (unat last_usable)), (56, disk_id),
        (72, le_digits 8 (unat entries_lba)), (80, le_digits 4 128), (84, le_digits 4 128), (88, le_digits 4 (unat entries_crc))]
       (replicate 512 0)"

lemma gpt_header_split:
  "gpt_header crc32 current backup last_usable disk_id entries_lba entries_crc =
     (let h = gpt_fields current backup last_usable disk_id entries_lba entries_crc
      in copy_into h 16 (le_digits 4 (unat (crc32 (take 92 h)))))"
  by (simp only: gpt_header_def gpt_fields_def Let_def fold.simps case_prod_conv o_apply id_apply unat_consts)

lemma gpt_fields_length: "length disk_id = 16 \<Longrightarrow> length (gpt_fields current backup last_usable disk_id entries_lba entries_crc) = 512"
  unfolding gpt_fields_def by (subst length_write_all) (simp_all add: writes_fit_def)

lemma gpt_fields_read:
  assumes "length disk_id = 16" and h: "h = gpt_fields current backup last_usable disk_id entries_lba entries_crc"
  shows "subslice h 0 8 = ascii ''EFI PART''" "subslice h 8 12 = le_digits 4 0x10000" "subslice h 12 16 = le_digits 4 92"
    "subslice h 16 20 = replicate 4 0"
    "subslice h 24 32 = le_digits 8 (unat current)" "subslice h 32 40 = le_digits 8 (unat backup)"
    "subslice h 40 48 = le_digits 8 34" "subslice h 48 56 = le_digits 8 (unat last_usable)"
    "subslice h 56 72 = disk_id" "subslice h 72 80 = le_digits 8 (unat entries_lba)" "subslice h 80 84 = le_digits 4 128"
    "subslice h 84 88 = le_digits 4 128" "subslice h 88 92 = le_digits 4 (unat entries_crc)"
proof -
  define ws :: "(nat \<times> bytes) list" where "ws = [(0, ascii ''EFI PART''), (8, le_digits 4 0x10000), (12, le_digits 4 92), (24, le_digits 8 (unat current)),
        (32, le_digits 8 (unat backup)), (40, le_digits 8 34), (48, le_digits 8 (unat last_usable)), (56, disk_id),
        (72, le_digits 8 (unat entries_lba)), (80, le_digits 4 128), (84, le_digits 4 128), (88, le_digits 4 (unat entries_crc))]"
  have h: "h = write_all ws (replicate 512 0)" unfolding h gpt_fields_def ws_def ..
  have f: "writes_fit ws (length (replicate 512 (0::u8)))" using assms(1) by (simp add: ws_def writes_fit_def)
  have r: "subslice h a b = v" if "i < length ws" "ws ! i = (a, v)" "b = a + length v" "apart (drop (Suc i) ws) a b" for i a b v
    unfolding h by (rule write_all_read [OF f that])
  have z: "subslice h 16 20 = subslice (replicate 512 0) 16 20"
    unfolding h by (rule write_all_apart [OF f]) (use assms(1) in \<open>simp_all add: ws_def apart_def\<close>)
  show "subslice h 16 20 = replicate 4 0" unfolding z by (simp add: subslice_def)
  show "subslice h 0 8 = ascii ''EFI PART''" by (rule r [of 0]) (simp_all add: ws_def apart_def assms(1))
  show "subslice h 8 12 = le_digits 4 0x10000" by (rule r [of 1]) (simp_all add: ws_def apart_def assms(1))
  show "subslice h 12 16 = le_digits 4 92" by (rule r [of 2]) (simp_all add: ws_def apart_def assms(1))
  show "subslice h 24 32 = le_digits 8 (unat current)" by (rule r [of 3]) (simp_all add: ws_def apart_def assms(1))
  show "subslice h 32 40 = le_digits 8 (unat backup)" by (rule r [of 4]) (simp_all add: ws_def apart_def assms(1))
  show "subslice h 40 48 = le_digits 8 34" by (rule r [of 5]) (simp_all add: ws_def apart_def assms(1))
  show "subslice h 48 56 = le_digits 8 (unat last_usable)" by (rule r [of 6]) (simp_all add: ws_def apart_def assms(1))
  show "subslice h 56 72 = disk_id" by (rule r [of 7]) (simp_all add: ws_def apart_def assms(1))
  show "subslice h 72 80 = le_digits 8 (unat entries_lba)" by (rule r [of 8]) (simp_all add: ws_def apart_def)
  show "subslice h 80 84 = le_digits 4 128" by (rule r [of 9]) (simp_all add: ws_def apart_def)
  show "subslice h 84 88 = le_digits 4 128" by (rule r [of 10]) (simp_all add: ws_def apart_def)
  show "subslice h 88 92 = le_digits 4 (unat entries_crc)" by (rule r [of 11]) (simp_all add: ws_def apart_def)
qed

lemma gpt_header_crc:
  assumes "length disk_id = 16"
    and h: "h = gpt_header crc32 current backup last_usable disk_id entries_lba entries_crc"
  shows "subslice h 16 20 = le_digits 4 (unat (crc32 (copy_into (take 92 h) 16 (replicate 4 0))))"
proof -
  define h0 c where "h0 = gpt_fields current backup last_usable disk_id entries_lba entries_crc"
    and "c = le_digits 4 (unat (crc32 (take 92 h0)))"
  have h0: "h = copy_into h0 16 c" "length h0 = 512" "subslice h0 16 20 = replicate 4 0" "length c = 4"
    using gpt_fields_length [OF assms(1)] gpt_fields_read(4) [OF assms(1)]
    by (simp_all add: h h0_def c_def gpt_header_split Let_def)
  have "take 92 h0 = copy_into (take 92 h) 16 (replicate 4 0)"
  proof (rule nth_equalityI)
    show "length (take 92 h0) = length (copy_into (take 92 h) 16 (replicate 4 0))" using h0 by simp
    fix i assume i: "i < length (take 92 h0)"
    have "h0 ! i = 0" if "16 \<le> i" "i < 20"
      using h0(2) that arg_cong [OF h0(3), of "\<lambda>xs. xs ! (i - 16)"] by (simp add: subslice_nth)
    with i h0(2,4) show "take 92 h0 ! i = copy_into (take 92 h) 16 (replicate 4 0) ! i"
      by (simp add: h0(1) nth_copy_into)
  qed
  moreover have "subslice h 16 20 = c" using h0(2,4) unfolding h0(1) by (simp add: subslice_written)
  ultimately show ?thesis by (simp add: c_def)
qed

lemma gpt_header_read:
  assumes "length disk_id = 16" "b \<le> 16 \<or> 20 \<le> a" "b \<le> 92"
  shows "subslice (gpt_header crc32 current backup last_usable disk_id entries_lba entries_crc) a b =
    subslice (gpt_fields current backup last_usable disk_id entries_lba entries_crc) a b"
  using assms gpt_fields_length [OF assms(1)] by (simp add: gpt_header_split Let_def subslice_copy_disjoint)

text \<open>The entries likewise.\<close>

lemma gpt_entries_writes:
  "gpt_entries partition_id start last_lba = write_all
     ([(0, BASIC_DATA), (16, partition_id), (32, le_digits 8 (unat start)), (40, le_digits 8 (unat last_lba))] @
      map (\<lambda>(i, c). (56 + i * 2, le_digits 2 (of_char c))) (enumerate 0 ''Windows'')) (replicate 16384 0)"
  by (simp add: gpt_entries_def Let_def unat_consts)

lemma gpt_entry_fields:
  assumes "length partition_id = 16" and e: "es = gpt_entries partition_id start last_lba"
  shows "length es = 16384"
    "subslice es 0 16 = BASIC_DATA" "subslice es 32 40 = le_digits 8 (unat start)" "subslice es 40 48 = le_digits 8 (unat last_lba)"
    "128 \<le> a \<Longrightarrow> a + 16 \<le> 16384 \<Longrightarrow> subslice es a (a + 16) = replicate 16 0"
proof -
  define ws where "ws = [(0, BASIC_DATA), (16, partition_id), (32, le_digits 8 (unat start)), (40, le_digits 8 (unat last_lba))] @
      map (\<lambda>(i, c). (56 + i * 2, le_digits 2 (of_char c))) (enumerate 0 ''Windows'')"
  have es: "es = write_all ws (replicate 16384 0)" unfolding e gpt_entries_writes ws_def ..
  have f: "writes_fit ws (length (replicate 16384 (0::u8)))" using assms(1) by (simp add: ws_def writes_fit_def)
  have r: "subslice es a b = v" if "i < length ws" "ws ! i = (a, v)" "b = a + length v" "apart (drop (Suc i) ws) a b" for i a b v
    unfolding es by (rule write_all_read [OF f that])
  show "length es = 16384" unfolding es length_write_all [OF f] by simp
  show "subslice es 0 16 = BASIC_DATA" by (rule r [of 0]) (simp_all add: ws_def apart_def assms(1))
  show "subslice es 32 40 = le_digits 8 (unat start)" by (rule r [of 2]) (simp_all add: ws_def apart_def)
  show "subslice es 40 48 = le_digits 8 (unat last_lba)" by (rule r [of 3]) (simp_all add: ws_def apart_def)
  assume a: "128 \<le> a" "a + 16 \<le> 16384"
  have "subslice es a (a + 16) = subslice (replicate 16384 0) a (a + 16)"
    unfolding es by (rule write_all_apart [OF f]) (use assms(1) a in \<open>simp_all add: ws_def apart_def\<close>)
  then show "subslice es a (a + 16) = replicate 16 0" using a by (simp add: subslice_def)
qed


section \<open>A reader of partition tables\<close>

text \<open>
  What firmware makes of a GUID partition table, after the UEFI specification: the header in sector
  \<open>lba\<close> must name itself and carry the checksums of its fields and of the entries; an entry whose type is
  zero is unused.
\<close>

record gpt_table =
  gpt_alternate :: nat
  gpt_first_usable :: nat
  gpt_last_usable :: nat
  gpt_guid :: bytes
  gpt_partitions :: "(bytes \<times> nat \<times> nat) list"

definition read_gpt :: "(bytes \<Rightarrow> u32) \<Rightarrow> bytes \<Rightarrow> nat \<Rightarrow> gpt_table option" where
  "read_gpt crc32 img lba =
     (let h = subslice img (lba * 512) (lba * 512 + 512);
          first = le_value (subslice h 72 80) * 512;
          count = le_value (subslice h 80 84);
          width = le_value (subslice h 84 88);
          entries = subslice img first (first + count * width);
          used = filter (\<lambda>i. subslice entries (i * width) (i * width + 16) \<noteq> replicate 16 0) [0..<count]
      in if subslice h 0 8 = ascii ''EFI PART'' \<and> le_value (subslice h 8 12) = 0x10000 \<and> le_value (subslice h 12 16) = 92
          \<and> le_value (subslice h 16 20) = unat (crc32 (copy_into (take 92 h) 16 (replicate 4 0)))
          \<and> le_value (subslice h 24 32) = lba \<and> le_value (subslice h 88 92) = unat (crc32 entries)
         then Some \<lparr>gpt_alternate = le_value (subslice h 32 40), gpt_first_usable = le_value (subslice h 40 48),
           gpt_last_usable = le_value (subslice h 48 56), gpt_guid = subslice h 56 72,
           gpt_partitions = map (\<lambda>i. (subslice entries (i * width) (i * width + 16),
             le_value (subslice entries (i * width + 32) (i * width + 40)),
             le_value (subslice entries (i * width + 40) (i * width + 48)))) used\<rparr>
         else None)"

lemma le_value_u64: "le_value (le_digits 8 (unat (w :: u64))) = unat w"
proof -
  have "unat w < 2 ^ 64" by (rule order_less_le_trans [OF unsigned_less]) simp
  then show ?thesis by (simp add: le_value_digits)
qed

lemma le_value_u32: "le_value (le_digits 4 (unat (w :: u32))) = unat w"
proof -
  have "unat w < 2 ^ 32" by (rule order_less_le_trans [OF unsigned_less]) simp
  then show ?thesis by (simp add: le_value_digits)
qed

lemma read_gpt_written:
  assumes ids: "length disk_id = 16" "length partition_id = 16"
    and h: "subslice img (lba * 512) (lba * 512 + 512) = gpt_header crc32 current backup last_usable disk_id entries_lba (crc32 es)"
    and es: "es = gpt_entries partition_id start last_lba"
    and e: "subslice img (unat entries_lba * 512) (unat entries_lba * 512 + 16384) = es"
    and lba: "unat current = lba"
  shows "read_gpt crc32 img lba = Some \<lparr>gpt_alternate = unat backup, gpt_first_usable = 34,
    gpt_last_usable = unat last_usable, gpt_guid = disk_id, gpt_partitions = [(BASIC_DATA, unat start, unat last_lba)]\<rparr>"
proof -
  let ?h = "gpt_header crc32 current backup last_usable disk_id entries_lba (crc32 es)"
  note crc = gpt_header_crc [OF ids(1) refl]
  note fields = gpt_fields_read [OF ids(1) refl]
  have read: "subslice ?h a b = subslice (gpt_fields current backup last_usable disk_id entries_lba (crc32 es)) a b"
    if "b \<le> 16 \<or> 20 \<le> a" "b \<le> 92" for a b using that by (rule gpt_header_read [OF ids(1)])
  note entry = gpt_entry_fields [OF ids(2) es]
  have used: "filter (\<lambda>i. subslice es (i * 128) (i * 128 + 16) \<noteq> replicate 16 0) [0..<128] = [0]"
  proof -
    have "[0..<128::nat] = 0 # [1..<128]" by (simp add: upt_rec [of 0 128])
    moreover have "filter (\<lambda>i. subslice es (i * 128) (i * 128 + 16) \<noteq> replicate 16 0) [1..<128] = []"
      using entry(5) by (auto simp: filter_empty_conv)
    moreover have "BASIC_DATA \<noteq> replicate 16 0" by (rule notI, drule arg_cong [where f = hd]) (simp add: BASIC_DATA_def)
    ultimately show ?thesis using entry(2) by simp
  qed
  have n: "le_value (le_digits 4 128) = 128" "le_value (le_digits 4 65536) = 65536" "le_value (le_digits 4 92) = 92"
    "le_value (le_digits 8 34) = 34"
    by (simp_all add: le_value_digits)
  show ?thesis
    unfolding read_gpt_def Let_def h
    by (simp add: read fields crc n le_value_u64 le_value_u32 e used entry lba [symmetric])
qed


lemma length_protective_mbr [simp]: "512 \<le> length p \<Longrightarrow> length (protective_mbr last_lba p) = length p"
  by (simp add: protective_mbr_def Let_def)

lemma build_snapshot_disk_parts:
  assumes b: "build_snapshot_disk crc32 sha256 volume_size start identity = Ok disk"
    and sha: "\<And>bs. length (sha256 bs) = 32"
  defines "es \<equiv> gpt_entries (stable_disk_id sha256 identity ''partition'') start (start + volume_size div SECTOR_SIZE - 1)"
    and "disk_id \<equiv> stable_disk_id sha256 identity ''disk''"
    and "last_lba \<equiv> sd_disk_size disk div SECTOR_SIZE - 1"
  defines "usable \<equiv> last_lba - GPT_ENTRY_SECTORS - 1"
  shows "snapshot_disk_size volume_size start = Ok (sd_disk_size disk)" "sd_volume_size disk = volume_size"
    "sd_partition_offset disk = start * SECTOR_SIZE"
    "length (sd_prefix disk) = 17408" "length (sd_suffix disk) = 16896"
    "subslice (sd_prefix disk) 512 1024 = gpt_header crc32 1 last_lba usable disk_id 2 (crc32 es)"
    "subslice (sd_prefix disk) 1024 17408 = es"
    "subslice (sd_suffix disk) 0 16384 = es"
    "subslice (sd_suffix disk) 16384 16896 =
       gpt_header crc32 last_lba 1 usable disk_id (last_lba - GPT_ENTRY_SECTORS) (crc32 es)"
proof -
  have i: "length (stable_disk_id sha256 identity p) = 16" for p using sha by (simp add: stable_disk_id_def)
  have h: "length (gpt_header crc32 c u l disk_id e x) = 512" for c u l e x
    using gpt_fields_length [OF i [of "''disk''"]] by (simp add: gpt_header_split Let_def disk_id_def)
  have e: "length es = 16384" using gpt_entry_fields(1) [OF i refl] by (simp add: es_def)
  from b obtain size where s: "snapshot_disk_size volume_size start = Ok size"
    and disk: "disk = \<lparr>sd_volume_size = volume_size, sd_partition_offset = start * SECTOR_SIZE, sd_disk_size = size,
      sd_prefix = copy_into (copy_into (protective_mbr (size div SECTOR_SIZE - 1) (replicate (34 * 512) 0)) 512
        (gpt_header crc32 1 (size div SECTOR_SIZE - 1) (size div SECTOR_SIZE - 1 - GPT_ENTRY_SECTORS - 1) disk_id 2 (crc32 es))) 1024 es,
      sd_suffix = copy_into (copy_into (replicate 16896 0) 0 es) 16384
        (gpt_header crc32 (size div SECTOR_SIZE - 1) 1 (size div SECTOR_SIZE - 1 - GPT_ENTRY_SECTORS - 1) disk_id
          (size div SECTOR_SIZE - 1 - GPT_ENTRY_SECTORS) (crc32 es))\<rparr>"
    unfolding build_snapshot_disk_def Let_def es_def disk_id_def by (auto simp: unat_consts)
  show "snapshot_disk_size volume_size start = Ok (sd_disk_size disk)" using s by (simp add: disk)
  show "sd_volume_size disk = volume_size" "sd_partition_offset disk = start * SECTOR_SIZE" by (simp_all add: disk)
  show "length (sd_prefix disk) = 17408" "length (sd_suffix disk) = 16896" by (simp_all add: disk h e)
  show "subslice (sd_prefix disk) 512 1024 = gpt_header crc32 1 last_lba usable disk_id 2 (crc32 es)"
    by (simp add: disk h e subslice_written subslice_copy_disjoint last_lba_def usable_def)
  show "subslice (sd_prefix disk) 1024 17408 = es" by (simp add: disk h e subslice_written)
  show "subslice (sd_suffix disk) 0 16384 = es" by (simp add: disk h e subslice_written subslice_copy_disjoint)
  show "subslice (sd_suffix disk) 16384 16896 =
       gpt_header crc32 last_lba 1 usable disk_id (last_lba - GPT_ENTRY_SECTORS) (crc32 es)"
    by (simp add: disk h e subslice_written last_lba_def usable_def)
qed


lemma built_disk_ok:
  assumes "build_snapshot_disk crc32 sha256 volume_size start identity = Ok disk"
    and "\<And>bs. length (sha256 bs) = 32" and "length volume = unat volume_size"
  shows "disk_ok disk volume" "unat (sd_partition_offset disk) = unat start * 512"
    "unat (sd_disk_size disk) = (unat start + length volume div 512 + 33) * 512" "2048 \<le> unat start"
    "0 < length volume" "512 dvd length volume"
proof -
  note parts = build_snapshot_disk_parts [OF assms(1,2)]
  note size = snapshot_disk_size_Ok [OF parts(1)]
  show "2048 \<le> unat start" "0 < length volume" "512 dvd length volume" using size assms(3) by simp_all
  show s: "unat (sd_disk_size disk) = (unat start + length volume div 512 + 33) * 512" using size(4) assms(3) by simp
  have "unat (sd_disk_size disk) < 2 ^ 64" by (rule order_less_le_trans [OF unsigned_less]) simp
  then show p: "unat (sd_partition_offset disk) = unat start * 512"
    using size(4) by (simp add: parts(3) SECTOR_SIZE_def unat_word_ariths)
  show "disk_ok disk volume" using s p parts(2,4,5) size(2,3) assms(3) by (auto simp: disk_ok_def elim!: dvdE)
qed

text \<open>
  C33. The disk handed to a branch of the computer is what firmware expects: both partition tables, at the start and
  at the end, are valid and agree on one partition, which lies in the usable range and whose sectors are the
  bytes of the snapshot.
\<close>

theorem snapshot_disk_boots:
  assumes "build_snapshot_disk crc32 sha256 volume_size start identity = Ok disk"
    and "\<And>bs. length (sha256 bs) = 32" and "length volume = unat volume_size"
  shows "let img = disk_image disk volume; sectors = unat (sd_disk_size disk) div 512; last_lba = unat start + length volume div 512 - 1;
      table = \<lparr>gpt_alternate = sectors - 1, gpt_first_usable = 34, gpt_last_usable = last_lba,
        gpt_guid = stable_disk_id sha256 identity ''disk'', gpt_partitions = [(BASIC_DATA, unat start, last_lba)]\<rparr>
    in length img = sectors * 512 \<and> read_gpt crc32 img 1 = Some table
      \<and> read_gpt crc32 img (sectors - 1) = Some (table\<lparr>gpt_alternate := 1\<rparr>)
      \<and> 34 \<le> unat start \<and> subslice img (unat start * 512) ((last_lba + 1) * 512) = volume"
proof -
  define sec where "sec = unat start + length volume div 512"
  note parts = build_snapshot_disk_parts [OF assms(1,2)] and built = built_disk_ok [OF assms]
  have len: "length volume = length volume div 512 * 512" using built(6) by simp
  let ?img = "disk_image disk volume" and ?gap = "replicate (unat start * 512 - 17408) (0 :: u8)"
  have img: "?img = sd_prefix disk @ ?gap @ volume @ sd_suffix disk" by (simp add: disk_image_def built(2) parts(4))
  have front: "length (sd_prefix disk @ ?gap) = unat start * 512" "length (sd_prefix disk @ ?gap @ volume) = sec * 512"
    using built(4) len by (simp_all add: parts(4) sec_def)
  have size: "unat (sd_disk_size disk) = (sec + 33) * 512" by (simp add: built(3) sec_def)
  define q where "q = sd_disk_size disk div SECTOR_SIZE - 1"
  have q: "unat q = sec + 32" "unat (q - GPT_ENTRY_SECTORS) = sec" "unat (q - GPT_ENTRY_SECTORS - 1) = sec - 1"
  proof -
    have d: "unat (sd_disk_size disk div SECTOR_SIZE) = sec + 33" by (simp add: size unat_div_distrib unat_consts)
    then show 1: "unat q = sec + 32" by (simp add: q_def unat_sub word_le_nat_alt)
    then show 2: "unat (q - GPT_ENTRY_SECTORS) = sec" by (simp add: unat_sub word_le_nat_alt unat_consts)
    have "1 \<le> sec" using built(4) by (simp add: sec_def)
    with 2 show "unat (q - GPT_ENTRY_SECTORS - 1) = sec - 1" by (simp add: unat_sub word_le_nat_alt)
  qed
  have la: "unat (start + volume_size div SECTOR_SIZE - 1) = sec - 1"
  proof -
    have "unat (volume_size div SECTOR_SIZE) = length volume div 512" by (simp add: unat_div_distrib unat_consts assms(3))
    moreover have "sec + 32 < 2 ^ 64" unfolding q(1) [symmetric] by (rule order_less_le_trans [OF unsigned_less]) simp
    ultimately have "unat (start + volume_size div SECTOR_SIZE) = sec" by (simp add: unat_add_small sec_def)
    then show ?thesis using built(4) by (simp add: unat_sub word_le_nat_alt sec_def)
  qed
  have id16: "length (stable_disk_id sha256 identity p) = 16" for p using assms(2) by (simp add: stable_disk_id_def)
  have l: "subslice ?img a b = subslice (sd_prefix disk) a b" if "b \<le> 17408" for a b
    using that by (simp add: img parts(4) subslice_append_left)
  have r: "subslice ?img (sec * 512 + a) (sec * 512 + b) = subslice (sd_suffix disk) a b" for a b
    using subslice_append_right [of "sd_prefix disk @ ?gap @ volume" "sec * 512 + a" "sd_suffix disk" "sec * 512 + b"] front(2)
    by (simp add: img)
  have u12: "unat (1 :: u64) = 1" "unat (2 :: u64) = 2" by simp_all
  have "read_gpt crc32 ?img 1 = Some \<lparr>gpt_alternate = unat q, gpt_first_usable = 34, gpt_last_usable = unat (q - GPT_ENTRY_SECTORS - 1),
      gpt_guid = stable_disk_id sha256 identity ''disk'',
      gpt_partitions = [(BASIC_DATA, unat start, unat (start + volume_size div SECTOR_SIZE - 1))]\<rparr>"
    by (rule read_gpt_written [where current = 1 and entries_lba = 2 and partition_id = "stable_disk_id sha256 identity ''partition''",
          OF id16 id16 _ refl]) (simp_all add: l parts(6,7) q_def u12)
  moreover have "read_gpt crc32 ?img (sec + 32) = Some \<lparr>gpt_alternate = unat (1 :: u64), gpt_first_usable = 34,
      gpt_last_usable = unat (q - GPT_ENTRY_SECTORS - 1), gpt_guid = stable_disk_id sha256 identity ''disk'',
      gpt_partitions = [(BASIC_DATA, unat start, unat (start + volume_size div SECTOR_SIZE - 1))]\<rparr>"
    using r [of 16384 16896] r [of 0 16384] q(2)
    by (intro read_gpt_written [where current = q and entries_lba = "q - GPT_ENTRY_SECTORS"
          and partition_id = "stable_disk_id sha256 identity ''partition''", OF id16 id16 _ refl]) (simp_all add: parts(8,9) q_def [symmetric] q(1) algebra_simps)
  moreover have "subslice ?img (unat start * 512) (sec * 512) = volume"
    using disk_image_volume [OF built(1)] len by (simp add: built(2) sec_def algebra_simps)
  moreover have "unat (sd_disk_size disk) div 512 = sec + 33" "1 \<le> sec" using built(4) by (simp_all add: size sec_def)
  moreover from this(2) have "512 + (sec - Suc 0) * 512 = sec * 512" by (cases sec) simp_all
  ultimately show ?thesis
    using length_disk_image [OF built(1)] size built(4) q la
    by (simp add: Let_def sec_def [symmetric] add.commute [of 32])
qed


section \<open>The block server\<close>

definition NBD_OPT_MAGIC :: nat where "NBD_OPT_MAGIC = 0x49484156454f5054"
definition NBD_REQUEST_MAGIC :: nat where "NBD_REQUEST_MAGIC = 0x25609513"
definition NBD_REPLY_MAGIC :: nat where "NBD_REPLY_MAGIC = 0x67446698"
definition NBD_OPT_EXPORT_NAME :: nat where "NBD_OPT_EXPORT_NAME = 1"
definition NBD_CMD_READ :: nat where "NBD_CMD_READ = 0"
definition NBD_CMD_DISC :: nat where "NBD_CMD_DISC = 2"
definition NBD_CMD_FLUSH :: nat where "NBD_CMD_FLUSH = 3"
definition NBD_EIO :: nat where "NBD_EIO = 5"
definition NBD_EINVAL :: nat where "NBD_EINVAL = 22"
definition NBD_EROFS :: nat where "NBD_EROFS = 30"
definition MAX_READ_SIZE :: nat where "MAX_READ_SIZE = 32 * 1024 * 1024"

text \<open>
  One turn of the loop on the bytes the client still sends: the session ends, or a reply is written and
  the rest of the stream remains. A panic of the reading thread is an error of the read.
\<close>

datatype nbd_turn = Finish "(unit, string) result" | Answer bytes bytes

definition nbd_read :: "SnapshotDisk \<Rightarrow> seek \<Rightarrow> u64 \<Rightarrow> nat \<Rightarrow> nat \<times> bytes" where
  "nbd_read disk seek offset len =
     (if len \<le> MAX_READ_SIZE
        \<and> (case checked_add offset (of_nat len) of None \<Rightarrow> False | Some e \<Rightarrow> e \<le> sd_disk_size disk)
      then (case read_snapshot_disk disk seek offset len of
          Some (Ok data) \<Rightarrow> (0, data)
        | _ \<Rightarrow> (NBD_EIO, []))
      else (NBD_EINVAL, []))"

definition nbd_reply :: "nat \<Rightarrow> bytes \<Rightarrow> bytes \<Rightarrow> bytes" where
  "nbd_reply error_code handle payload = be_digits 4 NBD_REPLY_MAGIC @ be_digits 4 error_code @ handle @ payload"

definition nbd_dispatch :: "SnapshotDisk \<Rightarrow> seek \<Rightarrow> nat \<Rightarrow> bytes \<Rightarrow> u64 \<Rightarrow> nat \<Rightarrow> bytes \<Rightarrow> nbd_turn" where
  "nbd_dispatch disk seek command handle offset len stream =
     (if command = NBD_CMD_DISC then Finish (Ok ())
      else if command = NBD_CMD_READ
      then (let (error_code, payload) = nbd_read disk seek offset len
            in Answer (nbd_reply error_code handle payload) stream)
      else if command \<noteq> NBD_CMD_FLUSH then
        (if command = 1 \<and> 0 < len then
           (if MAX_READ_SIZE < len then Finish (Err ''snapshot block bridge rejected an oversized write'')
            else if length stream < len then Finish (Err ''discard block bridge write'')
            else Answer (nbd_reply NBD_EROFS handle []) (drop len stream))
         else Answer (nbd_reply NBD_EROFS handle []) stream)
      else Answer (nbd_reply 0 handle []) stream)"

definition nbd_request :: "SnapshotDisk \<Rightarrow> seek \<Rightarrow> bytes \<Rightarrow> nbd_turn" where
  "nbd_request disk seek stream =
     (if length stream < 28 then Finish (Ok ())
      else
        (let request = take 28 stream; stream = drop 28 stream;
             magic = be_value (subslice request 0 4);
             command = be_value (subslice request 6 8);
             handle = subslice request 8 16;
             offset = of_nat (be_value (subslice request 16 24));
             len = be_value (subslice request 24 28)
         in if magic \<noteq> NBD_REQUEST_MAGIC then Finish (Err ''snapshot block bridge received an invalid request magic'')
            else nbd_dispatch disk seek command handle offset len stream))"

lemma nbd_request_shorter: "nbd_request disk seek stream = Answer out rest \<Longrightarrow> length rest < length stream"
  by (auto simp: nbd_request_def nbd_dispatch_def Let_def split: if_splits prod.splits)

text \<open>\<open>seeks k\<close> is the file as the \<open>k\<close>-th request finds it, so calls may fail now and succeed later.\<close>

function nbd_loop :: "SnapshotDisk \<Rightarrow> (nat \<Rightarrow> seek) \<Rightarrow> nat \<Rightarrow> bytes \<Rightarrow> bytes \<times> (unit, string) result" where
  "nbd_loop disk seeks k stream =
     (case nbd_request disk (seeks k) stream of
        Finish r \<Rightarrow> ([], r)
      | Answer out rest \<Rightarrow> (let (outs, r) = nbd_loop disk seeks (Suc k) rest in (out @ outs, r)))"
  by pat_completeness auto
termination
  by (relation "measure (\<lambda>(disk, seeks, k, stream). length stream)") (auto dest: nbd_request_shorter)

declare nbd_loop.simps [simp del]

definition nbd_greeting :: bytes where
  "nbd_greeting = ascii ''NBDMAGIC'' @ be_digits 8 NBD_OPT_MAGIC @ be_digits 2 0"

definition nbd_export :: "SnapshotDisk \<Rightarrow> bytes" where
  "nbd_export disk = be_digits 8 (unat (sd_disk_size disk)) @ be_digits 2 (1 + 2) @ replicate 124 0"

definition serve_read_only_nbd :: "SnapshotDisk \<Rightarrow> (nat \<Rightarrow> seek) \<Rightarrow> string \<Rightarrow> bytes \<Rightarrow> bytes \<times> (unit, string) result" where
  "serve_read_only_nbd disk seeks expected_export stream =
     (if length stream < 4 then (nbd_greeting, Err ''read block bridge client flags'')
      else if length stream < 12 then (nbd_greeting, Err ''read block bridge option magic'')
      else if length stream < 16 then (nbd_greeting, Err ''read block bridge option'')
      else if length stream < 20 then (nbd_greeting, Err ''read block bridge export length'')
      else
        (let option_magic = be_value (subslice stream 4 12);
             opt = be_value (subslice stream 12 16);
             export_length = be_value (subslice stream 16 20);
             stream = drop 20 stream
         in if option_magic \<noteq> NBD_OPT_MAGIC \<or> opt \<noteq> NBD_OPT_EXPORT_NAME \<or> 4096 < export_length
            then (nbd_greeting, Err ''snapshot block bridge received an invalid negotiation request'')
            else if length stream < export_length then (nbd_greeting, Err ''read block bridge export name'')
            else if take export_length stream \<noteq> ascii expected_export
            then (nbd_greeting, Err ''snapshot block bridge rejected an unknown export'')
            else
              (let (outs, r) = nbd_loop disk seeks 0 (drop export_length stream)
               in (nbd_greeting @ nbd_export disk @ outs, r))))"

section \<open>The server as a block device\<close>

text \<open>
  The abstract device: a read-only array of bytes. A client sends commands one after the other; each is
  answered once, in order, under its own handle.
\<close>

datatype nbd_command =
    Read u64 u32
  | Write u64 bytes
  | Flush
  | Command u16 u64 u32

fun command_ok :: "nbd_command \<Rightarrow> bool" where
  "command_ok (Write offset data) = (length data \<le> MAX_READ_SIZE)"
| "command_ok (Command c offset len) = (unat c \<notin> {0, 1, 2, 3})"
| "command_ok _ = True"

fun nbd_frame :: "u16 \<Rightarrow> bytes \<Rightarrow> nbd_command \<Rightarrow> bytes" where
  "nbd_frame flags handle (Read offset len) = be_digits 4 NBD_REQUEST_MAGIC @ be_digits 2 (unat flags) @ be_digits 2 NBD_CMD_READ
     @ handle @ be_digits 8 (unat offset) @ be_digits 4 (unat len)"
| "nbd_frame flags handle (Write offset data) = be_digits 4 NBD_REQUEST_MAGIC @ be_digits 2 (unat flags) @ be_digits 2 1
     @ handle @ be_digits 8 (unat offset) @ be_digits 4 (length data) @ data"
| "nbd_frame flags handle Flush = be_digits 4 NBD_REQUEST_MAGIC @ be_digits 2 (unat flags) @ be_digits 2 NBD_CMD_FLUSH
     @ handle @ be_digits 8 0 @ be_digits 4 0"
| "nbd_frame flags handle (Command c offset len) = be_digits 4 NBD_REQUEST_MAGIC @ be_digits 2 (unat flags) @ be_digits 2 (unat c)
     @ handle @ be_digits 8 (unat offset) @ be_digits 4 (unat len)"

text \<open>\<open>device_answer img healthy\<close>: the answers the device may give to a command; \<open>healthy\<close> tells that the file
  could be read.\<close>

fun device_answer :: "bytes \<Rightarrow> bool \<Rightarrow> nbd_command \<Rightarrow> nat \<times> bytes \<Rightarrow> bool" where
  "device_answer img healthy (Read offset len) (code, payload) =
     (if unat len \<le> MAX_READ_SIZE \<and> unat offset + unat len \<le> length img
      then (code = 0 \<and> payload = subslice img (unat offset) (unat offset + unat len))
         \<or> \<not> healthy \<and> code = NBD_EIO \<and> payload = []
      else code = NBD_EINVAL \<and> payload = [])"
| "device_answer img healthy Flush (code, payload) = (code = 0 \<and> payload = [])"
| "device_answer img healthy (Write offset data) (code, payload) = (code = NBD_EROFS \<and> payload = [])"
| "device_answer img healthy (Command c offset len) (code, payload) = (code = NBD_EROFS \<and> payload = [])"


lemma nbd_request_frame:
  assumes "length handle = 8" "c < 2 ^ 16" "o' < 2 ^ 64" "l < 2 ^ 32"
  shows "nbd_request disk seek (be_digits 4 NBD_REQUEST_MAGIC @ be_digits 2 f @ be_digits 2 c @ handle
      @ be_digits 8 o' @ be_digits 4 l @ rest) = nbd_dispatch disk seek c handle (of_nat o') l rest"
proof -
  define req where "req = be_digits 4 NBD_REQUEST_MAGIC @ be_digits 2 f @ be_digits 2 c @ handle @ be_digits 8 o' @ be_digits 4 l"
  have l: "length req = 28" using assms(1) by (simp add: req_def)
  have s: "subslice req 0 4 = be_digits 4 NBD_REQUEST_MAGIC" "subslice req 6 8 = be_digits 2 c" "subslice req 8 16 = handle"
    "subslice req 16 24 = be_digits 8 o'" "subslice req 24 28 = be_digits 4 l"
    using assms(1) by (simp_all add: req_def subslice_def)
  have v: "be_value (be_digits 4 NBD_REQUEST_MAGIC) = NBD_REQUEST_MAGIC" "be_value (be_digits 2 c) = c"
    "be_value (be_digits 8 o') = o'" "be_value (be_digits 4 l) = l"
    using assms by (simp_all add: be_value_digits NBD_REQUEST_MAGIC_def)
  have "nbd_request disk seek (req @ rest) = nbd_dispatch disk seek c handle (of_nat o') l rest"
    using l unfolding nbd_request_def by (simp add: s v)
  then show ?thesis by (simp add: req_def)
qed

lemma checked_end:
  assumes "n < 2 ^ 64"
  shows "(case checked_add offset (of_nat n) of None \<Rightarrow> False | Some e \<Rightarrow> e \<le> limit) = (unat offset + n \<le> unat (limit :: u64))"
proof (cases "unat offset + n < 2 ^ 64")
  case True
  then show ?thesis using assms unat_offset [OF True] by (simp add: checked_add_def unat_of_small word_le_nat_alt)
next
  case False
  moreover have "unat limit < 2 ^ 64" by (rule order_less_le_trans [OF unsigned_less]) simp
  ultimately show ?thesis using assms by (simp add: checked_add_def unat_of_small)
qed

lemma nbd_read_answer:
  assumes "disk_ok disk volume" "sound_source volume seek"
  shows "device_answer (disk_image disk volume) (complete_source volume seek) (Read offset len) (nbd_read disk seek offset (unat len))"
proof -
  have n: "unat len < 2 ^ 64" by (rule order_less_le_trans [OF unsigned_less]) simp
  have img: "length (disk_image disk volume) = unat (sd_disk_size disk)" by (rule length_disk_image [OF assms(1)])
  show ?thesis
    using read_snapshot_disk_cases [OF assms n, of offset] unfolding nbd_read_def checked_end [OF n]
    by (auto simp: img split: if_splits)
qed

lemma nbd_request_answers:
  assumes "disk_ok disk volume" "sound_source volume seek" "length handle = 8" "command_ok c"
  shows "\<exists>answer. device_answer (disk_image disk volume) (complete_source volume seek) c answer
    \<and> nbd_request disk seek (nbd_frame flags handle c @ rest) = Answer (nbd_reply (fst answer) handle (snd answer)) rest"
proof (cases c)
  case (Read offset len)
  have u: "unat offset < 2 ^ 64" "unat len < 2 ^ 32" by (rule order_less_le_trans [OF unsigned_less], simp)+
  show ?thesis
    using nbd_read_answer [OF assms(1,2), of offset len] nbd_request_frame [OF assms(3) _ u, of NBD_CMD_READ disk seek "unat flags" rest]
    by (intro exI [of _ "nbd_read disk seek offset (unat len)"])
      (simp add: Read nbd_dispatch_def NBD_CMD_READ_def NBD_CMD_DISC_def split: prod.splits)
next
  case (Write offset data)
  have u: "unat offset < 2 ^ 64" by (rule order_less_le_trans [OF unsigned_less]) simp
  have l: "length data \<le> MAX_READ_SIZE" "length data < 2 ^ 32" using assms(4) by (simp_all add: Write MAX_READ_SIZE_def)
  show ?thesis
    using l nbd_request_frame [OF assms(3) _ u l(2), of 1 disk seek "unat flags" "data @ rest"]
    by (intro exI [of _ "(NBD_EROFS, [])"])
      (simp add: Write nbd_dispatch_def NBD_CMD_READ_def NBD_CMD_DISC_def NBD_CMD_FLUSH_def)
next
  case Flush
  show ?thesis
    using nbd_request_frame [OF assms(3), of NBD_CMD_FLUSH 0 0 disk seek "unat flags" rest]
    by (intro exI [of _ "(0, [])"])
      (simp add: Flush nbd_dispatch_def NBD_CMD_READ_def NBD_CMD_DISC_def NBD_CMD_FLUSH_def)
next
  case (Command k offset len)
  have u: "unat k < 2 ^ 16" "unat offset < 2 ^ 64" "unat len < 2 ^ 32" by (rule order_less_le_trans [OF unsigned_less], simp)+
  show ?thesis
    using assms(4) nbd_request_frame [OF assms(3) u, of disk seek "unat flags" rest]
    by (intro exI [of _ "(NBD_EROFS, [])"])
      (simp add: Command nbd_dispatch_def NBD_CMD_READ_def NBD_CMD_DISC_def NBD_CMD_FLUSH_def)
qed


lemma nbd_loop_answers:
  assumes "disk_ok disk volume" "\<And>k. sound_source volume (seeks k)"
    and "nbd_request disk (seeks (k + length cs)) ending = Finish r"
    and "list_all (\<lambda>(flags, handle, c). length handle = 8 \<and> command_ok c) cs"
  shows "\<exists>answers. length answers = length cs
    \<and> (\<forall>i < length cs. device_answer (disk_image disk volume) (complete_source volume (seeks (k + i))) (snd (snd (cs ! i))) (answers ! i))
    \<and> nbd_loop disk seeks k (concat (map (\<lambda>(flags, handle, c). nbd_frame flags handle c) cs) @ ending)
      = (concat (map2 (\<lambda>(flags, handle, c) (code, payload). nbd_reply code handle payload) cs answers), r)"
  using assms(3,4)
proof (induction cs arbitrary: k)
  case Nil
  then show ?case by (subst nbd_loop.simps) simp
next
  case (Cons x cs)
  obtain flags handle c where x: "x = (flags, handle, c)" by (cases x)
  let ?rest = "concat (map (\<lambda>(flags, handle, c). nbd_frame flags handle c) cs) @ ending"
  obtain code payload where a: "device_answer (disk_image disk volume) (complete_source volume (seeks k)) c (code, payload)"
    "nbd_request disk (seeks k) (nbd_frame flags handle c @ ?rest) = Answer (nbd_reply code handle payload) ?rest"
    using nbd_request_answers [OF assms(1,2), of handle c k flags ?rest] Cons.prems(2) x by auto
  obtain answers where as: "length answers = length cs"
    "\<forall>i < length cs. device_answer (disk_image disk volume) (complete_source volume (seeks (Suc k + i))) (snd (snd (cs ! i))) (answers ! i)"
    "nbd_loop disk seeks (Suc k) ?rest
      = (concat (map2 (\<lambda>(flags, handle, c) (code, payload). nbd_reply code handle payload) cs answers), r)"
    using Cons.IH [of "Suc k"] Cons.prems by auto
  have d: "\<forall>i < length (x # cs). device_answer (disk_image disk volume) (complete_source volume (seeks (k + i)))
      (snd (snd ((x # cs) ! i))) (((code, payload) # answers) ! i)"
    using a(1) as(2) x by (auto simp: less_Suc_eq_0_disj)
  have "nbd_loop disk seeks k (nbd_frame flags handle c @ ?rest)
      = (nbd_reply code handle payload @ concat (map2 (\<lambda>(flags, handle, c) (code, payload). nbd_reply code handle payload) cs answers), r)"
    using a(2) as(3) by (subst nbd_loop.simps) simp
  with as(1) d x show ?case by (intro exI [of _ "(code, payload) # answers"]) simp
qed


definition nbd_hello :: "u32 \<Rightarrow> string \<Rightarrow> bytes" where
  "nbd_hello flags export_name = be_digits 4 (unat flags) @ be_digits 8 NBD_OPT_MAGIC @ be_digits 4 NBD_OPT_EXPORT_NAME
     @ be_digits 4 (length export_name) @ ascii export_name"

definition nbd_goodbye :: bytes where
  "nbd_goodbye = be_digits 4 NBD_REQUEST_MAGIC @ be_digits 2 0 @ be_digits 2 NBD_CMD_DISC @ replicate 8 0 @ be_digits 8 0 @ be_digits 4 0"

lemma nbd_goodbye_finishes: "nbd_request disk seek nbd_goodbye = Finish (Ok ())"
  using nbd_request_frame [of "replicate 8 0" NBD_CMD_DISC 0 0 disk seek 0 "[]"]
  by (simp add: nbd_goodbye_def nbd_dispatch_def NBD_CMD_DISC_def)

lemma serve_after_hello:
  assumes "length export_name \<le> 4096"
  shows "serve_read_only_nbd disk seeks export_name (nbd_hello flags export_name @ stream) =
    (let (outs, r) = nbd_loop disk seeks 0 stream in (nbd_greeting @ nbd_export disk @ outs, r))"
proof -
  let ?s = "nbd_hello flags export_name @ stream"
  have v: "be_value (be_digits 8 NBD_OPT_MAGIC) = NBD_OPT_MAGIC" "be_value (be_digits 4 NBD_OPT_EXPORT_NAME) = NBD_OPT_EXPORT_NAME"
    "be_value (be_digits 4 (length export_name)) = length export_name"
    using assms by (simp_all add: be_value_digits NBD_OPT_MAGIC_def NBD_OPT_EXPORT_NAME_def)
  have s: "subslice ?s 4 12 = be_digits 8 NBD_OPT_MAGIC" "subslice ?s 12 16 = be_digits 4 NBD_OPT_EXPORT_NAME"
    "subslice ?s 16 20 = be_digits 4 (length export_name)" "drop 20 ?s = ascii export_name @ stream" "20 \<le> length ?s"
    by (simp_all add: nbd_hello_def subslice_def)
  then have "\<not> length ?s < 4" "\<not> length ?s < 12" "\<not> length ?s < 16" "\<not> length ?s < 20" by linarith+
  with s(1-4) v assms show ?thesis unfolding serve_read_only_nbd_def by simp
qed

text \<open>
  C13. The block server is a read-only disk: a client that names the export and sends any well-formed commands
  has each answered once, in order and under its handle, as the abstract device answers it on the reference
  image. Reads in range return the bytes of the image although the file is read in pieces of any size; only
  a failing file makes one an input/output error. Writes are consumed and refused.
\<close>

theorem snapshot_server_refines:
  assumes "build_snapshot_disk crc32 sha256 volume_size start identity = Ok disk"
    and "\<And>bs. length (sha256 bs) = 32" and "length volume = unat volume_size"
    and "\<And>k. sound_source volume (seeks k)"
    and "length export_name \<le> 4096" and "ending = [] \<or> ending = nbd_goodbye"
    and "list_all (\<lambda>(flags, handle, c). length handle = 8 \<and> command_ok c) cs"
  shows "\<exists>answers. length answers = length cs
    \<and> (\<forall>i < length cs. device_answer (disk_image disk volume) (complete_source volume (seeks i)) (snd (snd (cs ! i))) (answers ! i))
    \<and> serve_read_only_nbd disk seeks export_name
        (nbd_hello client_flags export_name @ concat (map (\<lambda>(flags, handle, c). nbd_frame flags handle c) cs) @ ending)
      = (nbd_greeting @ nbd_export disk
           @ concat (map2 (\<lambda>(flags, handle, c) (code, payload). nbd_reply code handle payload) cs answers), Ok ())"
proof -
  have "nbd_request disk (seeks (0 + length cs)) ending = Finish (Ok ())"
    using assms(6) nbd_goodbye_finishes by (auto simp: nbd_request_def)
  from nbd_loop_answers [where seeks = seeks and k = 0, OF built_disk_ok(1) [OF assms(1-3)] assms(4) this assms(7)]
  show ?thesis by (auto simp: serve_after_hello [OF assms(5)])
qed

text \<open>
  Nothing of the disk, not even its size, is told to a client that does not name the export.
\<close>

theorem nbd_stranger_refused:
  assumes "serve_read_only_nbd disk seeks export_name stream = (out, r)" and "out \<noteq> nbd_greeting"
  shows "take (length export_name) (drop 20 stream) = ascii export_name"
proof -
  define n where "n = be_value (subslice stream 16 20)"
  have "length (drop 20 stream) \<ge> n \<and> take n (drop 20 stream) = ascii export_name"
    using assms unfolding serve_read_only_nbd_def Let_def n_def
    by (simp split: if_splits prod.splits) 
  then show ?thesis by (metis length_ascii length_take min.absorb2)
qed

definition example_volume :: bytes where
  "example_volume = replicate 512 7"

definition example_seek :: seek where
  "example_seek offset n = Ok (take 100 (drop (unat offset) example_volume))"

lemma example_seek_sound: "sound_source example_volume example_seek" "complete_source example_volume example_seek"
  by (auto simp: sound_source_def complete_source_def seek_read_def example_seek_def subslice_def min_def)

lemma example_build: "\<exists>disk. build_snapshot_disk (\<lambda>_. 0) (\<lambda>_. replicate 32 1) 512 2048 ''s'' = Ok disk"
  by (simp add: build_snapshot_disk_def snapshot_disk_size_def SECTOR_SIZE_def MIN_PARTITION_START_LBA_def GPT_ENTRY_SECTORS_def
      GPT_ENTRY_COUNT_def GPT_ENTRY_SIZE_def checked_add_def checked_mul_def Let_def)

theorem snapshot_disk_boots_witness:
  "\<exists>disk. build_snapshot_disk (\<lambda>_. 0) (\<lambda>_. replicate 32 1) 512 2048 ''s'' = Ok disk
    \<and> read_gpt (\<lambda>_. 0) (disk_image disk example_volume) 1 = Some \<lparr>gpt_alternate = 2081, gpt_first_usable = 34,
        gpt_last_usable = 2048, gpt_guid = replicate 16 1, gpt_partitions = [(BASIC_DATA, 2048, 2048)]\<rparr>
    \<and> subslice (disk_image disk example_volume) 1048576 1049088 = example_volume"
proof -
  obtain disk where d: "build_snapshot_disk (\<lambda>_. 0) (\<lambda>_. replicate 32 1) 512 2048 ''s'' = Ok disk" using example_build ..
  have l: "length example_volume = unat (512 :: u64)" by (simp add: example_volume_def)
  from built_disk_ok(3) [OF d _ l] have s: "unat (sd_disk_size disk) = 1065984" by (simp add: example_volume_def)
  from snapshot_disk_boots [OF d _ l] d show ?thesis
    by (simp add: Let_def s l stable_disk_id_def)
qed

theorem snapshot_server_refines_witness:
  "\<exists>disk. build_snapshot_disk (\<lambda>_. 0) (\<lambda>_. replicate 32 1) 512 2048 ''s'' = Ok disk
    \<and> serve_read_only_nbd disk (\<lambda>_. example_seek) ''e'' (nbd_hello 0 ''e''
        @ nbd_frame 0 (replicate 8 9) (Read 1048576 512) @ nbd_frame 0 (replicate 8 8) (Write 0 [1]))
      = (nbd_greeting @ nbd_export disk @ nbd_reply 0 (replicate 8 9) example_volume @ nbd_reply NBD_EROFS (replicate 8 8) [], Ok ())"
proof -
  obtain disk where d: "build_snapshot_disk (\<lambda>_. 0) (\<lambda>_. replicate 32 1) 512 2048 ''s'' = Ok disk" using example_build ..
  have l: "length example_volume = unat (512 :: u64)" by (simp add: example_volume_def)
  note built = built_disk_ok [OF d _ l]
  have l512: "length example_volume = 512" by (simp add: example_volume_def)
  have i: "length (disk_image disk example_volume) = 1065984"
    "subslice (disk_image disk example_volume) 1048576 1049088 = example_volume"
    using length_disk_image [OF built(1)] disk_image_volume [OF built(1)] built(2,3) by (simp_all add: l512)
  define cs :: "(u16 \<times> bytes \<times> nbd_command) list" where
    "cs = [(0, replicate 8 9, Read 1048576 512), (0, replicate 8 8, Write 0 [1])]"
  have ok: "list_all (\<lambda>(flags, handle, c). length handle = 8 \<and> command_ok c) cs" by (simp add: cs_def MAX_READ_SIZE_def)
  have "length (replicate 32 (1 :: u8)) = 32" "length ''e'' \<le> 4096" by simp_all
  from snapshot_server_refines [OF d this(1) l example_seek_sound(1) this(2) _ ok, of "[]" 0]
  obtain answers where a: "length answers = length cs"
    "\<forall>i < length cs. device_answer (disk_image disk example_volume) (complete_source example_volume example_seek) (snd (snd (cs ! i))) (answers ! i)"
    "serve_read_only_nbd disk (\<lambda>_. example_seek) ''e''
        (nbd_hello 0 ''e'' @ concat (map (\<lambda>(flags, handle, c). nbd_frame flags handle c) cs) @ [])
      = (nbd_greeting @ nbd_export disk
           @ concat (map2 (\<lambda>(flags, handle, c) (code, payload). nbd_reply code handle payload) cs answers), Ok ())"
    by blast
  obtain x y where xy: "answers = [x, y]" using a(1) by (auto simp: cs_def length_Suc_conv)
  have "device_answer (disk_image disk example_volume) True (Read 1048576 512) x"
    "device_answer (disk_image disk example_volume) True (Write 0 [1]) y"
    using a(2) xy example_seek_sound(2) by (auto simp: cs_def less_Suc_eq_0_disj)
  then have "x = (0, example_volume)" "y = (NBD_EROFS, [])"
    by (cases x; cases y; simp add: i MAX_READ_SIZE_def)+
  with a(3) xy d show ?thesis by (simp add: cs_def)
qed

theorem nbd_stranger_refused_witness:
  "\<exists>disk. build_snapshot_disk (\<lambda>_. 0) (\<lambda>_. replicate 32 1) 512 2048 ''s'' = Ok disk
    \<and> fst (serve_read_only_nbd disk (\<lambda>_. example_seek) ''e'' (nbd_hello 0 ''e'')) \<noteq> nbd_greeting
    \<and> take 1 (drop 20 (nbd_hello 0 ''e'')) = ascii ''e''"
proof -
  obtain disk where d: "build_snapshot_disk (\<lambda>_. 0) (\<lambda>_. replicate 32 1) 512 2048 ''s'' = Ok disk" using example_build ..
  obtain out r where o: "serve_read_only_nbd disk (\<lambda>_. example_seek) ''e'' (nbd_hello 0 ''e'') = (out, r)" by (meson surj_pair)
  have "out \<noteq> nbd_greeting"
    using o serve_after_hello [of "''e''" disk "\<lambda>_. example_seek" 0 "[]"] by (auto simp: nbd_export_def split: prod.splits)
  with nbd_stranger_refused [OF o] d o show ?thesis by simp
qed

end
