(* ===== verification/Computer_Branch.thy ===== *)
theory Computer_Branch
  imports Snapshot_Disk File_Model Models
begin

text \<open>
  Branches of the computer (\<open>runtime/branch.rs\<close>): creating one, the metadata beside its overlay, and the
  preparation of the overlay at every start, which moves branches of an older layout to a partitioned disk. The
  files are those of \<open>File_Model\<close>, so every call may fail or be the last one before the machine stops. The
  answers of Windows, of \<open>qemu-img\<close> and the JSON codec are parameters.
\<close>

section \<open>Metadata\<close>

definition BRANCH_METADATA_VERSION :: u32 where
  "BRANCH_METADATA_VERSION = 1"

definition MAX_BRANCH_METADATA_BYTES :: nat where
  "MAX_BRANCH_METADATA_BYTES = 64 * 1024"

record BranchMetadata =
  bm_version :: u32
  bm_shadow_id :: string
  bm_shadow_device :: string
  bm_source_volume :: string
  bm_branch_type :: BranchType
  bm_volume_size :: u64
  bm_partition_start_lba :: u64

definition io_fail :: "string \<Rightarrow> 'a io" where
  "io_fail e w = (Failed (OperationRefused e), w)"

fun io_of :: "('a, string) result \<Rightarrow> 'a io" where
  "io_of (Ok x) = io_return x"
| "io_of (Err e) = io_fail e"

text \<open>A call that only reads, with its error.\<close>

definition io_try :: "unit io" where
  "io_try = io_bind io_probe (\<lambda>ok w. if ok then (Done (), w) else (Failed IoError, w))"

definition fs_read :: "path \<Rightarrow> bytes io" where
  "fs_read p = io_then io_try (\<lambda>w. case w_files w p of Some (File bs) \<Rightarrow> (Done bs, w) | _ \<Rightarrow> (Failed IoError, w))"

text \<open>The environment's directory is a directory here, as the other calls of a start have found it.\<close>

definition read_branch_metadata :: "(bytes \<Rightarrow> BranchMetadata option) \<Rightarrow> path \<Rightarrow> BranchMetadata io" where
  "read_branch_metadata decode p =
     io_then io_try (io_then io_try (\<lambda>w.
       case w_files w p of
         None \<Rightarrow> (Failed IoError, w)
       | Some Other \<Rightarrow> io_fail ''computer branch metadata is not a safe bounded file'' w
       | Some (File bs) \<Rightarrow>
           if MAX_BRANCH_METADATA_BYTES < length bs then io_fail ''computer branch metadata is not a safe bounded file'' w
           else io_then io_try
             (case decode bs of
                None \<Rightarrow> io_fail ''decode computer branch metadata''
              | Some metadata \<Rightarrow>
                  if bm_version metadata \<noteq> BRANCH_METADATA_VERSION
                  then io_fail ''computer branch metadata version is unsupported''
                  else io_return metadata) w))"

definition qcow2_virtual_size :: "bytes \<Rightarrow> (u64, string) result" where
  "qcow2_virtual_size bs =
     (if length bs < 32 then Err ''read computer branch overlay metadata''
      else if take 4 bs \<noteq> ascii ''QFI'' @ [0xfb] then Err ''computer branch overlay is not a valid QCOW2 image''
      else
        (let size = of_nat (be_value (subslice bs 24 32))
         in if size = 0 \<or> size mod 512 \<noteq> 0 then Err ''computer branch overlay has an invalid virtual size''
            else Ok size))"

definition read_qcow2_virtual_size :: "path \<Rightarrow> u64 io" where
  "read_qcow2_virtual_size p = io_bind (fs_read p) (\<lambda>bs. io_of (qcow2_virtual_size bs))"

definition write_file_synced :: "path \<Rightarrow> bytes \<Rightarrow> unit io" where
  "write_file_synced p contents = io_then (fs_create p) (io_then (fs_write_all p contents) (fs_sync_all p))"

definition write_json_atomic :: "(BranchMetadata \<Rightarrow> bytes option) \<Rightarrow> path \<Rightarrow> BranchMetadata \<Rightarrow> unit io" where
  "write_json_atomic encode p v =
     (let temporary = with_extension p ''json.part''
      in case encode v of
           None \<Rightarrow> io_fail ''encode computer branch metadata''
         | Some contents \<Rightarrow> io_then (write_file_synced temporary contents) (fs_rename temporary p))"

text \<open>The geometry that the system reports, checked before it is used.\<close>

definition system_partition_info :: "(u64 \<times> u64, string) result \<Rightarrow> (u64 \<times> u64, string) result" where
  "system_partition_info answer =
     result_bind answer (\<lambda>(volume_size, partition_start_lba).
       if partition_start_lba < MIN_PARTITION_START_LBA \<or> volume_size = 0 \<or> volume_size mod SECTOR_SIZE \<noteq> 0
       then Err ''The Windows system partition has an invalid starting sector''
       else Ok (volume_size, partition_start_lba))"

section \<open>The overlay\<close>

text \<open>
  \<open>qemu-img\<close> is a program beside this one: \<open>create\<close> leaves a new image of the given size, \<open>rebase\<close> changes
  the header of an image; either may fail or be cut off with a partial file.
\<close>

record qemu_img =
  qemu_new :: "u64 \<Rightarrow> bytes"
  qemu_rebased :: "bytes \<Rightarrow> bytes"

definition img_create :: "qemu_img \<Rightarrow> path \<Rightarrow> u64 \<Rightarrow> unit io" where
  "img_create q p n = io_call (\<lambda>f. if f p = Some Other then None else Some (f(p \<mapsto> File (qemu_new q n)))) (torn p)"

definition img_rebase :: "qemu_img \<Rightarrow> path \<Rightarrow> unit io" where
  "img_rebase q p = io_call (\<lambda>f. case f p of Some (File bs) \<Rightarrow> Some (f(p \<mapsto> File (qemu_rebased q bs))) | _ \<Rightarrow> None) (torn p)"

definition with_file_name :: "path \<Rightarrow> string \<Rightarrow> path" where
  "with_file_name p name = rev (dropWhile (\<lambda>c. c \<noteq> CHR ''/'') (rev p)) @ name"

definition restore_overlay :: "path \<Rightarrow> path \<Rightarrow> unit io" where
  "restore_overlay legacy disk_path = io_then (io_ignore (fs_remove_file disk_path)) (io_ignore (fs_rename legacy disk_path))"

definition legacy_name :: "string \<Rightarrow> path \<Rightarrow> path io" where
  "legacy_name fresh disk_path =
     (let default_legacy = with_file_name disk_path ''system.volume-layout-v1.qcow2''
      in io_bind (fs_exists default_legacy) (\<lambda>taken. io_return
           (if taken then with_file_name disk_path (''system.volume-layout-v1-'' @ fresh @ ''.qcow2'') else default_legacy)))"

definition replace_overlay :: "qemu_img \<Rightarrow> (BranchMetadata \<Rightarrow> bytes option) \<Rightarrow> path \<Rightarrow> path \<Rightarrow> path \<Rightarrow> u64 \<Rightarrow> BranchMetadata \<Rightarrow> unit io" where
  "replace_overlay q encode metadata_path disk_path legacy expected_size metadata =
     io_then (fs_rename disk_path legacy)
    (io_then (io_on_error (img_create q disk_path expected_size) (restore_overlay legacy disk_path))
       (io_on_error (write_json_atomic encode metadata_path metadata) (restore_overlay legacy disk_path)))"

definition prepare_computer_branch_overlay :: "qemu_img \<Rightarrow> (BranchMetadata \<Rightarrow> bytes option) \<Rightarrow> (bytes \<Rightarrow> BranchMetadata option)
    \<Rightarrow> (u64 \<times> u64, string) result \<Rightarrow> string \<Rightarrow> path \<Rightarrow> path \<Rightarrow> unit io" where
  "prepare_computer_branch_overlay q encode decode system fresh metadata_path disk_path =
     io_bind (read_branch_metadata decode metadata_path) (\<lambda>metadata.
     io_bind (read_qcow2_virtual_size disk_path) (\<lambda>current_size.
       let legacy_layout = (bm_partition_start_lba metadata = 0);
           metadata = (if bm_volume_size metadata = 0 then metadata\<lparr>bm_volume_size := current_size\<rparr> else metadata)
       in io_bind
            (if legacy_layout
             then io_bind (io_of (system_partition_info system)) (\<lambda>(volume_size, partition_start_lba).
                    io_return (metadata\<lparr>bm_volume_size := volume_size, bm_partition_start_lba := partition_start_lba\<rparr>))
             else io_return metadata) (\<lambda>metadata.
          io_bind (io_of (snapshot_disk_size (bm_volume_size metadata) (bm_partition_start_lba metadata))) (\<lambda>expected_size.
            if current_size = expected_size
            then io_then (write_json_atomic encode metadata_path metadata) (img_rebase q disk_path)
            else if \<not> legacy_layout \<and> current_size \<noteq> bm_volume_size metadata
            then io_fail ''computer branch disk has an unsupported virtual size''
            else io_bind (legacy_name fresh disk_path) (\<lambda>legacy.
              replace_overlay q encode metadata_path disk_path legacy expected_size metadata)))))"


text \<open>The server of a branch, on the disk that its metadata describe.\<close>

definition start_computer_branch_block_server :: "(bytes \<Rightarrow> u32) \<Rightarrow> (bytes \<Rightarrow> bytes) \<Rightarrow> (bytes \<Rightarrow> BranchMetadata option)
    \<Rightarrow> (string \<Rightarrow> (unit, string) result) \<Rightarrow> path \<Rightarrow> SnapshotDisk io" where
  "start_computer_branch_block_server crc32 sha256 decode open_device metadata_path =
     io_bind (read_branch_metadata decode metadata_path) (\<lambda>metadata.
     io_bind (io_of (open_device (bm_shadow_device metadata))) (\<lambda>_.
       if bm_volume_size metadata = 0 \<or> bm_partition_start_lba metadata = 0
       then io_fail ''computer branch metadata has not been migrated to a partitioned disk''
       else io_of (build_snapshot_disk crc32 sha256 (bm_volume_size metadata) (bm_partition_start_lba metadata) (bm_shadow_id metadata))))"

section \<open>The old overlay survives\<close>

text \<open>The two files hold nothing else than before outside the named paths, and one of the two holds the old overlay.\<close>

definition same_elsewhere :: "path set \<Rightarrow> files \<Rightarrow> files \<Rightarrow> bool" where
  "same_elsewhere ps f g \<longleftrightarrow> (\<forall>p. p \<notin> ps \<longrightarrow> g p = f p)"

lemma same_elsewhere_upd [simp]: "p \<in> ps \<Longrightarrow> same_elsewhere ps f (g(p := v)) = same_elsewhere ps f g"
  by (auto simp: same_elsewhere_def)

lemma holds_img_create:
  assumes "\<And>f. P f \<Longrightarrow> Q () (f(p \<mapsto> File (qemu_new q n)))"
    and "\<And>f junk. P f \<Longrightarrow> E f \<and> C f \<and> E (f(p \<mapsto> File junk)) \<and> C (f(p \<mapsto> File junk))"
  shows "holds P (img_create q p n) Q E C"
  unfolding img_create_def
  by (rule holds_call) (use assms in \<open>auto simp: torn_def split: if_splits\<close>)

lemma holds_img_rebase:
  assumes "\<And>f bs. P f \<Longrightarrow> f p = Some (File bs) \<Longrightarrow> Q () (f(p \<mapsto> File (qemu_rebased q bs)))"
    and "\<And>f junk. P f \<Longrightarrow> E f \<and> C f \<and> E (f(p \<mapsto> File junk)) \<and> C (f(p \<mapsto> File junk))"
  shows "holds P (img_rebase q p) Q E C"
  unfolding img_rebase_def
  by (rule holds_call) (use assms in \<open>auto simp: torn_def split: if_splits option.splits fnode.splits\<close>)

lemma holds_fail: "(\<And>f. P f \<Longrightarrow> E f) \<Longrightarrow> holds P (io_fail e) Q E C"
  by (simp add: holds_def io_fail_def)

lemma holds_write_json:
  assumes paths: "p \<in> ps" "with_extension p ''json.part'' \<in> ps" "p \<notin> qs" "with_extension p ''json.part'' \<notin> qs"
    and keep: "\<And>f g. R f \<Longrightarrow> \<forall>x \<in> qs. g x = f x \<Longrightarrow> same_elsewhere ps f g \<Longrightarrow> R g"
  shows "holds R (write_json_atomic encode p v)
     (\<lambda>_ f. R f \<and> (\<exists>bs. encode v = Some bs \<and> f p = Some (File bs))) R R"
proof (cases "encode v")
  case None
  then show ?thesis by (auto simp: write_json_atomic_def intro: holds_fail)
next
  case (Some bs)
  let ?t = "with_extension p ''json.part''"
  have u: "R (f(?t := n))" if "R f" for f n using that by (rule keep) (use paths in \<open>auto simp: same_elsewhere_def\<close>)
  have m: "R ((f(?t := None))(p := n))" if "R f" for f n
    using that by (rule keep) (use paths in \<open>auto simp: same_elsewhere_def\<close>)
  have "holds R (write_file_synced ?t bs) (\<lambda>_ f. R f \<and> f ?t = Some (File bs)) R R"
    unfolding write_file_synced_def
    by (rule holds_then [where R = R], rule holds_create, auto intro: u,
        rule holds_then [where R = "\<lambda>f. R f \<and> f ?t = Some (File bs)"], rule holds_write_all, auto intro: u,
        rule holds_sync_all, auto intro: u)
  moreover have "holds (\<lambda>f. R f \<and> f ?t = Some (File bs)) (fs_rename ?t p)
      (\<lambda>_ f. R f \<and> (\<exists>bs. encode v = Some bs \<and> f p = Some (File bs))) R R"
    by (rule holds_rename) (auto simp: Some intro: m)
  ultimately show ?thesis unfolding write_json_atomic_def Let_def Some option.case by (rule holds_then)
qed


definition overlay_kept :: "bytes \<Rightarrow> path set \<Rightarrow> path set \<Rightarrow> files \<Rightarrow> files \<Rightarrow> bool" where
  "overlay_kept old qs ps f g \<longleftrightarrow> (\<exists>p \<in> qs. g p = Some (File old)) \<and> same_elsewhere ps f g"

lemma holds_restore_overlay:
  assumes "legacy \<noteq> disk_path" "{legacy, disk_path} \<subseteq> ps"
  shows "holds (\<lambda>f. f legacy = Some (File old) \<and> same_elsewhere ps before f) (restore_overlay legacy disk_path)
    (\<lambda>_. overlay_kept old {legacy, disk_path} ps before) E (overlay_kept old {legacy, disk_path} ps before)"
  unfolding restore_overlay_def
  by (rule holds_then [where R = "\<lambda>f. f legacy = Some (File old) \<and> same_elsewhere ps before f"];
      rule holds_ignore; (rule holds_remove_file | rule holds_rename); use assms in \<open>auto simp: overlay_kept_def\<close>)

lemma holds_replace_overlay:
  assumes d: "distinct [disk_path, legacy, meta, with_extension meta ''json.part'']"
    and ps: "ps = {disk_path, legacy, meta, with_extension meta ''json.part''}"
  shows "holds (\<lambda>f. f disk_path = Some (File old) \<and> same_elsewhere ps before f)
    (replace_overlay q encode meta disk_path legacy n md)
    (\<lambda>_ f. f legacy = Some (File old) \<and> f disk_path = Some (File (qemu_new q n))
      \<and> (\<exists>bs. encode md = Some bs \<and> f meta = Some (File bs)) \<and> same_elsewhere ps before f)
    (overlay_kept old {legacy, disk_path} ps before) (overlay_kept old {legacy, disk_path} ps before)"
proof -
  let ?E = "overlay_kept old {legacy, disk_path} ps before"
  let ?old = "\<lambda>f. f legacy = Some (File old) \<and> same_elsewhere ps before f"
  let ?new = "\<lambda>f. f legacy = Some (File old) \<and> f disk_path = Some (File (qemu_new q n)) \<and> same_elsewhere ps before f"
  have undo: "holds ?old (restore_overlay legacy disk_path) (\<lambda>_. ?E) ?E ?E"
    using d by (intro holds_restore_overlay) (auto simp: ps)
  have rename: "holds (\<lambda>f. f disk_path = Some (File old) \<and> same_elsewhere ps before f) (fs_rename disk_path legacy) (\<lambda>_. ?old) ?E ?E"
    by (rule holds_rename) (use d in \<open>auto simp: ps overlay_kept_def\<close>)
  have create: "holds ?old (io_on_error (img_create q disk_path n) (restore_overlay legacy disk_path)) (\<lambda>_. ?new) ?E ?E"
    by (rule holds_on_error [OF _ undo], rule holds_img_create) (use d in \<open>auto simp: ps overlay_kept_def\<close>)
  have "holds ?new (write_json_atomic encode meta md) (\<lambda>_ f. ?new f \<and> (\<exists>bs. encode md = Some bs \<and> f meta = Some (File bs))) ?new ?new"
    by (rule holds_write_json [where ps = ps and qs = "{disk_path, legacy}"]) (use d in \<open>auto simp: ps same_elsewhere_def\<close>)
  then have "holds ?new (write_json_atomic encode meta md) (\<lambda>_ f. ?new f \<and> (\<exists>bs. encode md = Some bs \<and> f meta = Some (File bs))) ?old ?E"
    by (rule holds_conseq) (auto simp: overlay_kept_def)
  from holds_on_error [OF this undo] have store: "holds ?new (io_on_error (write_json_atomic encode meta md) (restore_overlay legacy disk_path))
     (\<lambda>_ f. ?new f \<and> (\<exists>bs. encode md = Some bs \<and> f meta = Some (File bs))) ?E ?E" .
  show ?thesis
    unfolding replace_overlay_def
    by (rule holds_conseq [OF holds_then [OF rename holds_then [OF create store]]]) auto
qed


text \<open>Reading changes nothing.\<close>

lemma holds_try: "holds (\<lambda>f. f = before) io_try (\<lambda>_ f. f = before) (\<lambda>f. f = before) (\<lambda>f. f = before)"
  by (auto simp: holds_def io_try_def io_bind_def io_probe_def split: list.splits fault.splits)

lemma holds_files:
  assumes "holds (\<lambda>f. f = before) (m before) Q E C"
  shows "holds (\<lambda>f. f = before) (\<lambda>w. m (w_files w) w) Q E C"
  using assms by (auto simp: holds_def)

lemma holds_read_metadata:
  assumes "before p = Some (File bs)" "decode bs = Some md"
  shows "holds (\<lambda>f. f = before) (read_branch_metadata decode p) (\<lambda>m f. m = md \<and> f = before) (\<lambda>f. f = before) (\<lambda>f. f = before)"
proof -
  have fail: "holds (\<lambda>f. f = before) (io_fail e) Q (\<lambda>f. f = before) (\<lambda>f. f = before)" for e Q by (rule holds_fail)
  have ret: "holds (\<lambda>f. f = before) (io_return x) (\<lambda>m f. m = x \<and> f = before) E C" for x E C by (rule holds_return) simp
  have "holds (\<lambda>f. f = before) (if MAX_BRANCH_METADATA_BYTES < length bs then io_fail ''computer branch metadata is not a safe bounded file''
      else io_then io_try (if bm_version md \<noteq> BRANCH_METADATA_VERSION then io_fail ''computer branch metadata version is unsupported''
        else io_return md)) (\<lambda>m f. m = md \<and> f = before) (\<lambda>f. f = before) (\<lambda>f. f = before)" (is "holds _ ?m _ _ _")
    by (auto intro: fail ret holds_then [OF holds_try])
  then have "holds (\<lambda>f. f = before) (\<lambda>w. case w_files w p of
         None \<Rightarrow> (Failed IoError, w)
       | Some Other \<Rightarrow> io_fail ''computer branch metadata is not a safe bounded file'' w
       | Some (File bs) \<Rightarrow>
           (if MAX_BRANCH_METADATA_BYTES < length bs then io_fail ''computer branch metadata is not a safe bounded file'' w
           else io_then io_try
             (case decode bs of
                None \<Rightarrow> io_fail ''decode computer branch metadata''
              | Some metadata \<Rightarrow>
                  if bm_version metadata \<noteq> BRANCH_METADATA_VERSION
                  then io_fail ''computer branch metadata version is unsupported''
                  else io_return metadata) w)) (\<lambda>m f. m = md \<and> f = before) (\<lambda>f. f = before) (\<lambda>f. f = before)"
    using assms by (auto simp: holds_def)
  then show ?thesis
    unfolding read_branch_metadata_def by (rule holds_then [OF holds_try holds_then [OF holds_try]])
qed

lemma holds_read_size:
  assumes "before p = Some (File bs)" "qcow2_virtual_size bs = Ok n"
  shows "holds (\<lambda>f. f = before) (read_qcow2_virtual_size p) (\<lambda>m f. m = n \<and> f = before) (\<lambda>f. f = before) (\<lambda>f. f = before)"
proof -
  have "holds (\<lambda>f. f = before) (fs_read p) (\<lambda>m f. m = bs \<and> f = before) (\<lambda>f. f = before) (\<lambda>f. f = before)"
    unfolding fs_read_def by (rule holds_then [OF holds_try]) (simp add: holds_def assms(1))
  then show ?thesis unfolding read_qcow2_virtual_size_def
    by (rule holds_bind) (auto simp: holds_def assms(2) io_return_def)
qed

lemma branch_paths:
  "with_extension (d @ ''/branch.json'') ''json.part'' = d @ ''/branch.json.part''"
  "with_file_name (d @ ''/system.qcow2'') name = d @ ''/'' @ name"
  by (simp_all add: with_extension_def path_stem_def with_file_name_def)


lemma io_bind_return [simp]: "io_bind (io_return x) k = k x"
  by (simp add: io_bind_def io_return_def fun_eq_iff)

lemma holds_value: "(x = y \<Longrightarrow> holds P m Q E C) \<Longrightarrow> holds (\<lambda>f. x = y \<and> P f) m Q E C"
  by (auto simp: holds_def)

text \<open>
  The name that the old overlay gets: a new one, or the default one, which an earlier overlay may hold when it could not
  be inspected.
\<close>

definition kept_name :: "string \<Rightarrow> string \<Rightarrow> files \<Rightarrow> path \<Rightarrow> bool" where
  "kept_name fresh d f l \<longleftrightarrow> l = d @ ''/system.volume-layout-v1.qcow2''
     \<or> l = d @ ''/system.volume-layout-v1-'' @ fresh @ ''.qcow2'' \<and> f (d @ ''/system.volume-layout-v1.qcow2'') \<noteq> None"

lemma holds_legacy_name:
  assumes "\<And>f. P f \<Longrightarrow> C f"
  shows "holds P (legacy_name fresh (d @ ''/system.qcow2'')) (\<lambda>l f. kept_name fresh d f l \<and> P f) E C"
  unfolding legacy_name_def branch_paths Let_def
  by (rule holds_bind [OF holds_exists [of P C]]) (use assms in \<open>auto simp: holds_def io_return_def kept_name_def\<close>)

lemma kept_name_distinct:
  "kept_name fresh d f l \<Longrightarrow> distinct [d @ ''/system.qcow2'', l, d @ ''/branch.json'', with_extension (d @ ''/branch.json'') ''json.part'']"
  by (auto simp: kept_name_def branch_paths)

text \<open>
  What a migration makes of the metadata: a branch of the old layout takes the size and start of the system partition, one
  of the new layout whose overlay has the size of the volume keeps both.
\<close>

definition migrates :: "(u64 \<times> u64, string) result \<Rightarrow> u64 \<Rightarrow> BranchMetadata \<Rightarrow> BranchMetadata \<Rightarrow> u64 \<Rightarrow> bool" where
  "migrates system current md md' expected \<longleftrightarrow>
     (if bm_partition_start_lba md = 0
      then \<exists>v s. system_partition_info system = Ok (v, s) \<and> md' = md\<lparr>bm_volume_size := v, bm_partition_start_lba := s\<rparr>
      else bm_volume_size md \<in> {0, current} \<and> md' = md\<lparr>bm_volume_size := current\<rparr>)
     \<and> snapshot_disk_size (bm_volume_size md') (bm_partition_start_lba md') = Ok expected \<and> expected \<noteq> current"

definition overlay_migrated :: "qemu_img \<Rightarrow> (BranchMetadata \<Rightarrow> bytes option) \<Rightarrow> string \<Rightarrow> string \<Rightarrow> bytes \<Rightarrow> BranchMetadata \<Rightarrow> u64 \<Rightarrow> files \<Rightarrow> unit outcome \<Rightarrow> files \<Rightarrow> bool" where
  "overlay_migrated q encode fresh d old md expected before r f \<longleftrightarrow>
     (\<exists>legacy. kept_name fresh d before legacy
       \<and> (f legacy = Some (File old) \<or> f (d @ ''/system.qcow2'') = Some (File old))
       \<and> same_elsewhere {d @ ''/system.qcow2'', legacy, d @ ''/branch.json'', d @ ''/branch.json.part''} before f
       \<and> (r = Done () \<longrightarrow> f legacy = Some (File old) \<and> f (d @ ''/system.qcow2'') = Some (File (qemu_new q expected))
           \<and> (\<exists>bs. encode md = Some bs \<and> f (d @ ''/branch.json'') = Some (File bs))))"

lemma holds_prepare_overlay:
  fixes d
  defines "disk_path \<equiv> d @ ''/system.qcow2''" and "meta \<equiv> d @ ''/branch.json''"
  assumes disk: "before disk_path = Some (File old)" "qcow2_virtual_size old = Ok current"
    and md: "before meta = Some (File bs)" "decode bs = Some md" and m: "migrates system current md md' expected"
  shows "holds (\<lambda>f. f = before) (prepare_computer_branch_overlay q encode decode system fresh meta disk_path)
    (\<lambda>_. overlay_migrated q encode fresh d old md' expected before (Done ()))
    (overlay_migrated q encode fresh d old md' expected before (Failed IoError)) (overlay_migrated q encode fresh d old md' expected before Crashed)"
proof -
  let ?same = "\<lambda>f. f = before" and ?O = "overlay_migrated q encode fresh d old md' expected before"
  have same: "?same f \<Longrightarrow> r \<noteq> Done () \<Longrightarrow> ?O r f" for f r using disk(1)
    by (auto simp: overlay_migrated_def same_elsewhere_def disk_path_def kept_name_def)
  have replace: "holds (\<lambda>f. kept_name fresh d f legacy \<and> ?same f) (replace_overlay q encode meta disk_path legacy expected md')
     (\<lambda>_. ?O (Done ())) (?O (Failed IoError)) (?O Crashed)" for legacy
  proof (cases "kept_name fresh d before legacy")
    case True
    let ?ps = "{disk_path, legacy, meta, d @ ''/branch.json.part''}"
    from kept_name_distinct [OF True] have dist: "distinct [disk_path, legacy, meta, with_extension meta ''json.part'']"
      by (simp only: disk_path_def meta_def)
    have ps: "?ps = {disk_path, legacy, meta, with_extension meta ''json.part''}" by (simp add: meta_def branch_paths)
    show ?thesis
      by (rule holds_conseq [OF holds_replace_overlay [OF dist ps, of old before]])
        (use True disk(1) in \<open>auto simp: overlay_migrated_def overlay_kept_def same_elsewhere_def disk_path_def meta_def\<close>)
  qed (auto simp: holds_def)
  have meta': "holds ?same (read_branch_metadata decode meta) (\<lambda>x f. x = md \<and> ?same f) (?O (Failed IoError)) (?O Crashed)"
    by (rule holds_conseq [OF holds_read_metadata [where before = before and p = meta and decode = decode, OF md(1,2)]]) (auto intro: same)
  have size: "holds ?same (read_qcow2_virtual_size disk_path) (\<lambda>n f. n = current \<and> ?same f) (?O (Failed IoError)) (?O Crashed)"
    by (rule holds_conseq [OF holds_read_size [where before = before and p = disk_path, OF disk]]) (auto intro: same)
  have name: "holds ?same (legacy_name fresh disk_path) (\<lambda>l f. kept_name fresh d f l \<and> ?same f) (?O (Failed IoError)) (?O Crashed)"
    unfolding disk_path_def by (rule holds_legacy_name) (auto intro: same)
  note move = holds_bind [OF name replace]
  show ?thesis
    unfolding prepare_computer_branch_overlay_def
  proof (rule holds_bind [OF meta'], rule holds_value, rule holds_bind [OF size], rule holds_value, goal_cases)
    case (1 x n)
    then show ?case using move m by (auto simp: Let_def io_bind_return migrates_def split: if_splits)
  qed
qed


definition example_qcow2 :: "u64 \<Rightarrow> bytes" where
  "example_qcow2 n = ascii ''QFI'' @ [0xfb] @ replicate 20 0 @ be_digits 8 (unat n)"

definition example_metadata :: BranchMetadata where
  "example_metadata = \<lparr>bm_version = 1, bm_shadow_id = ''s'', bm_shadow_device = ''v'', bm_source_volume = ''C:'',
     bm_branch_type = ExactCopy, bm_volume_size = 512, bm_partition_start_lba = 0\<rparr>"

definition example_branch :: world where
  "example_branch = \<lparr>w_files = [''e/system.qcow2'' \<mapsto> File (example_qcow2 512), ''e/branch.json'' \<mapsto> File [1]],
     w_script = [Succeeds, Succeeds, Succeeds, Succeeds, Succeeds, Succeeds, Succeeds, Succeeds, Fails [9]]\<rparr>"


section \<open>A prepared branch can be served\<close>

definition branch_ready :: "(bytes \<Rightarrow> BranchMetadata option) \<Rightarrow> path \<Rightarrow> path \<Rightarrow> files \<Rightarrow> bool" where
  "branch_ready decode meta disk_path f \<longleftrightarrow> (\<exists>bs md old n. f meta = Some (File bs) \<and> decode bs = Some md
     \<and> bm_version md = BRANCH_METADATA_VERSION \<and> f disk_path = Some (File old) \<and> qcow2_virtual_size old = Ok n
     \<and> snapshot_disk_size (bm_volume_size md) (bm_partition_start_lba md) = Ok n)"

lemma holds_any: "holds (\<lambda>_. True) m (\<lambda>_ _. True) (\<lambda>_. True) (\<lambda>_. True)"
  by (auto simp: holds_def split: prod.splits outcome.splits)

lemma holds_weaken:
  assumes "holds P m Q E C" "\<And>x f. Q x f \<Longrightarrow> Q' x f"
  shows "holds P m Q' (\<lambda>_. True) (\<lambda>_. True)"
  using assms(1) by (rule holds_conseq) (use assms(2) in auto)

lemma holds_pointwise: "(\<And>before. P before \<Longrightarrow> holds (\<lambda>f. f = before) m Q E C) \<Longrightarrow> holds P m Q E C"
  by (auto simp: holds_def)

lemma snapshot_disk_size_sectors: "snapshot_disk_size v s = Ok n \<Longrightarrow> n \<noteq> 0 \<and> n mod 512 = 0"
proof -
  assume a: "snapshot_disk_size v s = Ok n"
  have u: "unat n = (unat s + unat v div 512 + 33) * 512" by (rule snapshot_disk_size_Ok(4) [OF a])
  then have "unat n \<noteq> 0" by simp
  moreover from u have "unat (n mod 512) = 0" by (simp add: unat_mod_distrib)
  ultimately show ?thesis by (metis unat_0 unat_eq_zero)
qed

lemma holds_read_any_size: "holds (\<lambda>_. True) (read_qcow2_virtual_size p)
    (\<lambda>n f. \<exists>bs. f p = Some (File bs) \<and> qcow2_virtual_size bs = Ok n) (\<lambda>_. True) (\<lambda>_. True)"
proof -
  have "holds (\<lambda>_. True) (fs_read p) (\<lambda>bs f. f p = Some (File bs)) (\<lambda>_. True) (\<lambda>_. True)"
    unfolding fs_read_def by (rule holds_then [OF holds_any]) (auto simp: holds_def split: option.splits fnode.splits)
  moreover have "holds (\<lambda>f. f p = Some (File bs)) (io_of (qcow2_virtual_size bs))
      (\<lambda>n f. \<exists>bs. f p = Some (File bs) \<and> qcow2_virtual_size bs = Ok n) (\<lambda>_. True) (\<lambda>_. True)" for bs
    by (cases "qcow2_virtual_size bs") (auto simp: holds_def io_return_def io_fail_def)
  ultimately show ?thesis unfolding read_qcow2_virtual_size_def by (rule holds_bind)
qed

lemma holds_io_of: "holds P (io_of r) (\<lambda>x f. r = Ok x \<and> P f) (\<lambda>_. True) (\<lambda>_. True)"
  by (cases r) (auto simp: holds_def io_return_def io_fail_def)

lemma holds_eq:
  assumes "holds (\<lambda>_. True) m Q E C" and "\<And>w. w_files w = before \<Longrightarrow> m' w = m w"
  shows "holds (\<lambda>f. f = before) m' Q E C"
  using assms by (simp add: holds_def)

lemma holds_version_check:
  "holds (\<lambda>_. True) (if big then io_fail e'' else io_then io_try (case decode bs of None \<Rightarrow> io_fail e | Some md \<Rightarrow>
      if bm_version md \<noteq> BRANCH_METADATA_VERSION then io_fail e' else io_return md))
     (\<lambda>m _. bm_version m = BRANCH_METADATA_VERSION \<and> True) (\<lambda>_. True) (\<lambda>_. True)"
proof -
  have checked: "holds (\<lambda>_. True) (case decode bs of None \<Rightarrow> io_fail e | Some md \<Rightarrow>
      if bm_version md \<noteq> BRANCH_METADATA_VERSION then io_fail e' else io_return md)
      (\<lambda>m _. bm_version m = BRANCH_METADATA_VERSION \<and> True) (\<lambda>_. True) (\<lambda>_. True)"
    by (auto simp: holds_def io_fail_def io_return_def split: option.splits)
  show ?thesis by (cases big) (simp_all only: if_True if_False holds_fail holds_then [OF holds_any checked])
qed

lemma holds_metadata_version:
  "holds (\<lambda>_. True) (read_branch_metadata decode p) (\<lambda>m _. bm_version m = BRANCH_METADATA_VERSION \<and> True) (\<lambda>_. True) (\<lambda>_. True)"
proof -
  let ?v = "\<lambda>m (_ :: files). bm_version m = BRANCH_METADATA_VERSION \<and> True"
  show ?thesis
    unfolding read_branch_metadata_def
  proof (rule holds_then [OF holds_any], rule holds_then [OF holds_any], rule holds_pointwise)
    fix before
    show "holds (\<lambda>f. f = before) (\<lambda>w. case w_files w p of
         None \<Rightarrow> (Failed IoError, w)
       | Some Other \<Rightarrow> io_fail ''computer branch metadata is not a safe bounded file'' w
       | Some (File bs) \<Rightarrow>
           if MAX_BRANCH_METADATA_BYTES < length bs then io_fail ''computer branch metadata is not a safe bounded file'' w
           else io_then io_try
             (case decode bs of
                None \<Rightarrow> io_fail ''decode computer branch metadata''
              | Some metadata \<Rightarrow>
                  if bm_version metadata \<noteq> BRANCH_METADATA_VERSION
                  then io_fail ''computer branch metadata version is unsupported''
                  else io_return metadata) w) ?v (\<lambda>_. True) (\<lambda>_. True)"
    proof (cases "before p")
      case (Some x)
      show ?thesis
      proof (cases x)
        case (File bs)
        show ?thesis
          by (rule holds_eq [OF holds_version_check [where decode = decode and bs = bs and big = "MAX_BRANCH_METADATA_BYTES < length bs" and
            e'' = "''computer branch metadata is not a safe bounded file''" and
            e = "''decode computer branch metadata''" and e' = "''computer branch metadata version is unsupported''"]])
            (simp add: Some File)
      qed (use Some in \<open>simp add: holds_def io_fail_def\<close>)
    qed (simp add: holds_def)
  qed
qed

lemma holds_prepare_ready:
  assumes disk: "disk_path = d @ ''/system.qcow2''" and meta: "meta = d @ ''/branch.json''"
    and codec: "\<And>m bs. encode m = Some bs \<Longrightarrow> decode bs = Some m"
    and qemu: "\<And>n. n \<noteq> 0 \<Longrightarrow> n mod 512 = 0 \<Longrightarrow> qcow2_virtual_size (qemu_new q n) = Ok n"
      "\<And>bs. qcow2_virtual_size (qemu_rebased q bs) = qcow2_virtual_size bs"
  shows "holds (\<lambda>_. True) (prepare_computer_branch_overlay q encode decode system fresh meta disk_path)
    (\<lambda>_. branch_ready decode meta disk_path) (\<lambda>_. True) (\<lambda>_. True)"
proof -
  let ?sized = "\<lambda>n f. \<exists>bs. f disk_path = Some (File bs) \<and> qcow2_virtual_size bs = Ok n"
  let ?size = "\<lambda>md. snapshot_disk_size (bm_volume_size md) (bm_partition_start_lba md)"
  have rebase: "holds (?sized n) (io_then (write_json_atomic encode meta md) (img_rebase q disk_path))
      (\<lambda>_. branch_ready decode meta disk_path) (\<lambda>_. True) (\<lambda>_. True)" if "?size md = Ok n" "bm_version md = BRANCH_METADATA_VERSION" for n md
  proof (rule holds_then)
    show "holds (?sized n) (write_json_atomic encode meta md)
        (\<lambda>_ f. ?sized n f \<and> (\<exists>bs. encode md = Some bs \<and> f meta = Some (File bs))) (\<lambda>_. True) (\<lambda>_. True)"
      by (rule holds_weaken [OF holds_write_json [where ps = UNIV and qs = "{disk_path}"]])
        (auto simp: disk meta branch_paths)
    show "holds (\<lambda>f. ?sized n f \<and> (\<exists>bs. encode md = Some bs \<and> f meta = Some (File bs))) (img_rebase q disk_path)
        (\<lambda>_. branch_ready decode meta disk_path) (\<lambda>_. True) (\<lambda>_. True)"
      by (rule holds_img_rebase) (use that codec qemu(2) in \<open>auto simp: branch_ready_def disk meta\<close>)
  qed
  have replace: "holds (?sized current) (io_bind (legacy_name fresh disk_path) (\<lambda>legacy. replace_overlay q encode meta disk_path legacy n md))
      (\<lambda>_. branch_ready decode meta disk_path) (\<lambda>_. True) (\<lambda>_. True)" if "?size md = Ok n" "bm_version md = BRANCH_METADATA_VERSION" for n md current
  proof (rule holds_bind)
    show "holds (?sized current) (legacy_name fresh disk_path) (\<lambda>l f. kept_name fresh d f l \<and> ?sized current f) (\<lambda>_. True) (\<lambda>_. True)"
      unfolding disk by (rule holds_legacy_name) simp
  next
    fix legacy
    show "holds (\<lambda>f. kept_name fresh d f legacy \<and> ?sized current f) (replace_overlay q encode meta disk_path legacy n md)
      (\<lambda>_. branch_ready decode meta disk_path) (\<lambda>_. True) (\<lambda>_. True)"
    proof (rule holds_pointwise, elim conjE)
      fix before assume k: "kept_name fresh d before legacy" and "?sized current before"
      then obtain old where old: "before disk_path = Some (File old)" by blast
      from kept_name_distinct [OF k] have dist: "distinct [disk_path, legacy, meta, with_extension meta ''json.part'']"
        by (simp only: disk meta)
      from snapshot_disk_size_sectors [OF that(1)] have n: "qcow2_virtual_size (qemu_new q n) = Ok n" by (simp add: qemu(1))
      show "holds (\<lambda>f. f = before) (replace_overlay q encode meta disk_path legacy n md)
          (\<lambda>_. branch_ready decode meta disk_path) (\<lambda>_. True) (\<lambda>_. True)"
        by (rule holds_conseq [OF holds_replace_overlay [OF dist refl, of old before]])
          (use old n that codec in \<open>auto simp: same_elsewhere_def branch_ready_def\<close>)
    qed
  qed
  let ?v = "\<lambda>md. bm_version md = BRANCH_METADATA_VERSION"
  have layout: "holds (?sized n) (if legacy then io_bind (io_of system') (\<lambda>(v, s). io_return (md\<lparr>bm_volume_size := v, bm_partition_start_lba := s\<rparr>))
      else io_return md) (\<lambda>m f. ?v m \<and> ?sized n f) (\<lambda>_. True) (\<lambda>_. True)" if "?v md" for n legacy system' md
    using that by (cases system') (auto simp: holds_def io_return_def io_bind_def io_fail_def split: if_splits)
  have body: "holds (\<lambda>f. ?v md \<and> ?sized n f) (io_bind (io_of (?size md)) (\<lambda>expected.
      if n = expected then io_then (write_json_atomic encode meta md) (img_rebase q disk_path)
      else if \<not> legacy \<and> n \<noteq> bm_volume_size md then io_fail ''computer branch disk has an unsupported virtual size''
      else io_bind (legacy_name fresh disk_path) (\<lambda>legacy. replace_overlay q encode meta disk_path legacy expected md)))
      (\<lambda>_. branch_ready decode meta disk_path) (\<lambda>_. True) (\<lambda>_. True)" for md n legacy
    by (rule holds_value [where y = BRANCH_METADATA_VERSION], rule holds_bind [OF holds_io_of], rule holds_value)
      (auto intro: rebase replace holds_fail)
  have read: "holds (\<lambda>_. True) (read_branch_metadata decode meta) (\<lambda>m _. ?v m \<and> True) (\<lambda>_. True) (\<lambda>_. True)"
    by (rule holds_metadata_version)
  show ?thesis
    unfolding prepare_computer_branch_overlay_def Let_def
    by (rule holds_bind [OF read], rule holds_value, rule holds_bind [OF holds_read_any_size], rule holds_bind [OF layout])
      (simp, rule body)
qed

text \<open>
  A branch that was prepared can be served: whatever its metadata said before, after a successful preparation
  the metadata describe a disk that the block server accepts, and the virtual machine's overlay has exactly the
  size of that disk.
\<close>

theorem prepared_branch_served:
  assumes "prepare_computer_branch_overlay q encode decode system fresh (d @ ''/branch.json'') (d @ ''/system.qcow2'') w = (Done (), w')"
    and "\<And>m bs. encode m = Some bs \<Longrightarrow> decode bs = Some m"
    and "\<And>n. n \<noteq> 0 \<Longrightarrow> n mod 512 = 0 \<Longrightarrow> qcow2_virtual_size (qemu_new q n) = Ok n"
    and "\<And>bs. qcow2_virtual_size (qemu_rebased q bs) = qcow2_virtual_size bs"
  shows "\<exists>bs md old disk. w_files w' (d @ ''/branch.json'') = Some (File bs) \<and> decode bs = Some md
    \<and> w_files w' (d @ ''/system.qcow2'') = Some (File old)
    \<and> build_snapshot_disk crc32 sha256 (bm_volume_size md) (bm_partition_start_lba md) (bm_shadow_id md) = Ok disk
    \<and> qcow2_virtual_size old = Ok (sd_disk_size disk)
    \<and> (length bs \<le> MAX_BRANCH_METADATA_BYTES \<longrightarrow>
        fst (start_computer_branch_block_server crc32 sha256 decode (\<lambda>_. Ok ()) (d @ ''/branch.json'') (w'\<lparr>w_script := []\<rparr>)) = Done disk)"
proof -
  have "holds (\<lambda>_. True) (prepare_computer_branch_overlay q encode decode system fresh (d @ ''/branch.json'') (d @ ''/system.qcow2''))
      (\<lambda>_. branch_ready decode (d @ ''/branch.json'') (d @ ''/system.qcow2'')) (\<lambda>_. True) (\<lambda>_. True)"
    using holds_prepare_ready [OF refl refl, of encode decode q] assms(2-4) by blast
  from holdsD [OF this _ assms(1)] have "branch_ready decode (d @ ''/branch.json'') (d @ ''/system.qcow2'') (w_files w')" by simp
  then obtain bs md old n where r: "w_files w' (d @ ''/branch.json'') = Some (File bs)" "decode bs = Some md"
    "bm_version md = BRANCH_METADATA_VERSION" "w_files w' (d @ ''/system.qcow2'') = Some (File old)" "qcow2_virtual_size old = Ok n"
    "snapshot_disk_size (bm_volume_size md) (bm_partition_start_lba md) = Ok n"
    unfolding branch_ready_def by blast
  from build_snapshot_disk_size [OF r(6)] obtain disk where d: "sd_disk_size disk = n"
    "build_snapshot_disk crc32 sha256 (bm_volume_size md) (bm_partition_start_lba md) (bm_shadow_id md) = Ok disk"
    by blast
  have z: "bm_volume_size md \<noteq> 0" "bm_partition_start_lba md \<noteq> 0" using snapshot_disk_size_Ok [OF r(6)] by auto
  have "start_computer_branch_block_server crc32 sha256 decode (\<lambda>_. Ok ()) (d @ ''/branch.json'') (w'\<lparr>w_script := []\<rparr>)
      = (Done disk, w'\<lparr>w_script := []\<rparr>)" if "length bs \<le> MAX_BRANCH_METADATA_BYTES"
    using r d z that
    by (simp add: start_computer_branch_block_server_def read_branch_metadata_def io_try_def io_then_def io_bind_def io_probe_def io_return_def)
  with r d show ?thesis by auto
qed

lemma example_qcow2_size: "n \<noteq> 0 \<Longrightarrow> n mod 512 = 0 \<Longrightarrow> qcow2_virtual_size (example_qcow2 n) = Ok n"
proof -
  assume n: "n \<noteq> 0" "n mod 512 = 0"
  have "unat n < 2 ^ 64" by (rule order_less_le_trans [OF unsigned_less]) simp
  then have "be_value (be_digits 8 (unat n)) = unat n" by (simp add: be_value_digits)
  with n show ?thesis by (simp add: qcow2_virtual_size_def example_qcow2_def ascii_def subslice_def)
qed

definition migrated_metadata :: BranchMetadata where
  "migrated_metadata = example_metadata\<lparr>bm_volume_size := 512, bm_partition_start_lba := 2048\<rparr>"

definition branch_encode :: "BranchMetadata \<Rightarrow> bytes option" where
  "branch_encode m = (if m = migrated_metadata then Some [5] else None)"

definition branch_decode :: "bytes \<Rightarrow> BranchMetadata option" where
  "branch_decode bs = (if bs = [5] then Some migrated_metadata else if bs = [1] then Some example_metadata else None)"

theorem prepared_branch_served_witness:
  "\<exists>w' (md :: BranchMetadata) disk. prepare_computer_branch_overlay \<lparr>qemu_new = example_qcow2, qemu_rebased = (\<lambda>bs. bs)\<rparr> branch_encode branch_decode
      (Ok (512, 2048)) ''x'' ''e/branch.json'' ''e/system.qcow2'' (example_branch\<lparr>w_script := []\<rparr>) = (Done (), w')
    \<and> build_snapshot_disk (\<lambda>_. 0) (\<lambda>_. replicate 32 1) (bm_volume_size md) (bm_partition_start_lba md) (bm_shadow_id md) = Ok disk
    \<and> (\<exists>old. w_files w' ''e/system.qcow2'' = Some (File old) \<and> qcow2_virtual_size old = Ok (sd_disk_size disk))"
proof -
  let ?q = "\<lparr>qemu_new = example_qcow2, qemu_rebased = (\<lambda>bs. bs)\<rparr>"
  have x: "with_extension ''e/branch.json'' ''json.part'' = ''e/branch.json.part''"
    "with_file_name ''e/system.qcow2'' name = ''e/'' @ name" for name
    using branch_paths(1) [of "''e''"] branch_paths(2) [of "''e''" name] by simp_all
  have s: "system_partition_info (Ok (512, 2048)) = Ok (512, 2048)"
    by (simp add: system_partition_info_def MIN_PARTITION_START_LBA_def SECTOR_SIZE_def)
  have e: "snapshot_disk_size 512 2048 = Ok 1065984"
    by (simp add: snapshot_disk_size_def SECTOR_SIZE_def MIN_PARTITION_START_LBA_def GPT_ENTRY_SECTORS_def
      GPT_ENTRY_COUNT_def GPT_ENTRY_SIZE_def checked_add_def checked_mul_def)
  have m: "bm_version example_metadata = BRANCH_METADATA_VERSION" "bm_partition_start_lba example_metadata = 0"
    "(if bm_volume_size example_metadata = 0 then example_metadata\<lparr>bm_volume_size := 512\<rparr> else example_metadata)
       \<lparr>bm_volume_size := 512, bm_partition_start_lba := 2048\<rparr> = migrated_metadata"
    "bm_volume_size migrated_metadata = 512" "bm_partition_start_lba migrated_metadata = 2048"
    by (simp_all add: example_metadata_def migrated_metadata_def BRANCH_METADATA_VERSION_def)
  have q: "qcow2_virtual_size (example_qcow2 512) = Ok 512" by (rule example_qcow2_size) simp_all
  have "\<exists>w'. prepare_computer_branch_overlay ?q branch_encode branch_decode (Ok (512, 2048)) ''x''
      ''e/branch.json'' ''e/system.qcow2'' (example_branch\<lparr>w_script := []\<rparr>) = (Done (), w')"
    by (simp add: prepare_computer_branch_overlay_def read_branch_metadata_def read_qcow2_virtual_size_def fs_read_def io_try_def
        io_then_def io_bind_def io_probe_def io_return_def io_fail_def example_branch_def branch_decode_def m s e q
        MAX_BRANCH_METADATA_BYTES_def replace_overlay_def legacy_name_def fs_exists_def x fs_rename_def io_call_def img_create_def io_on_error_def
        write_json_atomic_def branch_encode_def write_file_synced_def fs_create_def fs_write_all_def fs_sync_all_def Let_def)
  then obtain w' where p: "prepare_computer_branch_overlay ?q branch_encode branch_decode (Ok (512, 2048)) ''x''
      (''e'' @ ''/branch.json'') (''e'' @ ''/system.qcow2'') (example_branch\<lparr>w_script := []\<rparr>) = (Done (), w')" by auto
  have c: "branch_decode bs = Some m" if "branch_encode m = Some bs" for m bs
    using that by (metis branch_encode_def branch_decode_def option.inject option.distinct(1))
  have "\<exists>bs md old disk. w_files w' (''e'' @ ''/branch.json'') = Some (File bs) \<and> branch_decode bs = Some md
    \<and> w_files w' (''e'' @ ''/system.qcow2'') = Some (File old)
    \<and> build_snapshot_disk (\<lambda>_. 0) (\<lambda>_. replicate 32 1) (bm_volume_size md) (bm_partition_start_lba md) (bm_shadow_id md) = Ok disk
    \<and> qcow2_virtual_size old = Ok (sd_disk_size disk)
    \<and> (length bs \<le> MAX_BRANCH_METADATA_BYTES \<longrightarrow> fst (start_computer_branch_block_server (\<lambda>_. 0) (\<lambda>_. replicate 32 1)
          branch_decode (\<lambda>_. Ok ()) (''e'' @ ''/branch.json'') (w'\<lparr>w_script := []\<rparr>)) = Done disk)"
    by (rule prepared_branch_served [OF p]) (simp_all add: c example_qcow2_size)
  then obtain bs md old disk where r: "w_files w' (''e'' @ ''/system.qcow2'') = Some (File old)" "qcow2_virtual_size old = Ok (sd_disk_size disk)"
    "build_snapshot_disk (\<lambda>_. 0) (\<lambda>_. replicate 32 1) (bm_volume_size md) (bm_partition_start_lba md) (bm_shadow_id md) = Ok disk"
    "branch_decode bs = Some md"
    by blast
  show ?thesis by (rule exI [of _ w'], rule exI [of _ md], rule exI [of _ disk]) (use p r in simp)
qed

section \<open>Creating a branch\<close>

text \<open>
  What a branch leaves on the machine: the environment's directory, the volume shadow copies, and the task
  that runs once in the copy and must not stay on the computer itself. The answers of the system are
  parameters; the flags tell whether the calls that clean up succeed.
\<close>

record ShadowInfo =
  si_shadow_id :: string
  si_volume_size :: u64
  si_partition_start_lba :: u64

record branch_host =
  bh_directory :: bool
  bh_shadows :: "string list"
  bh_bootstrap :: bool

record branch_answers =
  ba_administrator :: "(unit, string) result"
  ba_orphans :: "(unit, string) result"
  ba_create_dir :: "(unit, string) result"
  ba_bootstrap :: "(unit, string) result"
  ba_shadow :: "(ShadowInfo, string) result"
  ba_cleanup :: "(unit, string) result"
  ba_disk :: "u64 \<Rightarrow> (unit, string) result"
  ba_boot :: "(unit, string) result"
  ba_firmware :: "(unit, string) result"
  ba_metadata :: "(unit, string) result"
  ba_delete_shadow :: bool
  ba_remove_dir :: bool

definition needs_bootstrap :: "BranchType \<Rightarrow> bool" where
  "needs_bootstrap t = (case t of ExactCopy \<Rightarrow> False | AppsSettings \<Rightarrow> True | AppsOnly \<Rightarrow> True | CleanOs \<Rightarrow> False)"

definition remove_branch_dir :: "branch_answers \<Rightarrow> branch_host \<Rightarrow> branch_host" where
  "remove_branch_dir a st = (if ba_remove_dir a then st\<lparr>bh_directory := False\<rparr> else st)"

definition delete_shadow_copy :: "branch_answers \<Rightarrow> string \<Rightarrow> branch_host \<Rightarrow> branch_host" where
  "delete_shadow_copy a i st = (if ba_delete_shadow a then st\<lparr>bh_shadows := remove1 i (bh_shadows st)\<rparr> else st)"

definition provision_branch_disk :: "branch_answers \<Rightarrow> ShadowInfo \<Rightarrow> (unit, string) result" where
  "provision_branch_disk a shadow =
     result_bind (snapshot_disk_size (si_volume_size shadow) (si_partition_start_lba shadow)) (\<lambda>n.
     result_bind (ba_disk a n) (\<lambda>_. result_bind (ba_boot a) (\<lambda>_. result_bind (ba_firmware a) (\<lambda>_. ba_metadata a))))"

definition provision_with_shadow :: "branch_answers \<Rightarrow> (ShadowInfo, string) result \<Rightarrow> (unit, string) result \<Rightarrow> branch_host
    \<Rightarrow> (unit, string) result \<times> branch_host" where
  "provision_with_shadow a shadow_result cleanup_result st =
     (case (shadow_result, cleanup_result) of
        (Ok shadow, Ok _) \<Rightarrow>
          (case provision_branch_disk a shadow of
             Ok _ \<Rightarrow> (Ok (), st)
           | Err e \<Rightarrow> (Err e, remove_branch_dir a (delete_shadow_copy a (si_shadow_id shadow) st)))
      | (Ok shadow, Err e) \<Rightarrow> (Err (''remove temporary host branch bootstrap: '' @ e),
           remove_branch_dir a (delete_shadow_copy a (si_shadow_id shadow) st))
      | (Err e, _) \<Rightarrow> (Err e, remove_branch_dir a st))"

definition provision_computer_branch :: "branch_answers \<Rightarrow> BranchType \<Rightarrow> branch_host \<Rightarrow> (unit, string) result \<times> branch_host" where
  "provision_computer_branch a branch_type st =
     (if branch_type = CleanOs then (Err ''Clean OS branches require Windows installation media'', st)
      else (case result_bind (ba_administrator a) (\<lambda>_. ba_orphans a) of
          Err e \<Rightarrow> (Err e, st)
        | Ok _ \<Rightarrow>
            if bh_directory st then (Err ''environment storage already exists'', st)
            else (case ba_create_dir a of
                Err e \<Rightarrow> (Err e, st)
              | Ok _ \<Rightarrow>
                  (let st = st\<lparr>bh_directory := True\<rparr>
                   in case (if needs_bootstrap branch_type then ba_bootstrap a else Ok ()) of
                        Err e \<Rightarrow> (Err e, remove_branch_dir a st)
                      | Ok _ \<Rightarrow>
                          (let st = (if needs_bootstrap branch_type then st\<lparr>bh_bootstrap := True\<rparr> else st);
                               st = (case ba_shadow a of Ok s \<Rightarrow> st\<lparr>bh_shadows := si_shadow_id s # bh_shadows st\<rparr> | Err e \<Rightarrow> st);
                               cleanup = (if needs_bootstrap branch_type then ba_cleanup a else Ok ());
                               st = (if needs_bootstrap branch_type \<and> is_ok cleanup then st\<lparr>bh_bootstrap := False\<rparr> else st)
                           in provision_with_shadow a (ba_shadow a) cleanup st)))))"

lemma provision_with_shadow_cases:
  assumes "provision_with_shadow a sr cr st = (r, st')" "ba_delete_shadow a" "ba_remove_dir a"
  shows "(\<exists>s. sr = Ok s \<and> cr = Ok () \<and> r = Ok () \<and> st' = st \<and> is_ok (snapshot_disk_size (si_volume_size s) (si_partition_start_lba s)))
    \<or> (\<exists>e. r = Err e) \<and> \<not> bh_directory st' \<and> bh_bootstrap st' = bh_bootstrap st
      \<and> bh_shadows st' = (case sr of Ok s \<Rightarrow> remove1 (si_shadow_id s) (bh_shadows st) | Err e \<Rightarrow> bh_shadows st)"
proof (cases sr)
  case (Err e)
  have "(r, st') = (Err e, remove_branch_dir a st)" using assms(1) unfolding provision_with_shadow_def Err by simp
  then have "r = Err e" "st' = remove_branch_dir a st" by (rule Pair_inject, simp)+
  then show ?thesis using assms(3) Err by (simp add: remove_branch_dir_def)
next
  case (Ok s)
  show ?thesis
  proof (cases "cr = Ok () \<and> is_ok (provision_branch_disk a s)")
    case True
    then have k: "cr = Ok ()" "provision_branch_disk a s = Ok ()" by (simp_all add: is_ok_iff)
    then have "is_ok (snapshot_disk_size (si_volume_size s) (si_partition_start_lba s))"
      unfolding provision_branch_disk_def is_ok_iff by simp blast
    moreover have "(r, st') = (Ok (), st)" using assms(1) unfolding provision_with_shadow_def Ok k by (simp add: k)
    ultimately show ?thesis using Ok k by simp
  next
    case False
    obtain e where "(r, st') = (Err e, remove_branch_dir a (delete_shadow_copy a (si_shadow_id s) st))"
    proof (cases cr)
      case (Err e)
      then show ?thesis using assms(1) that unfolding provision_with_shadow_def Ok Err by auto
    next
      case k: (Ok u)
      with False obtain e where "provision_branch_disk a s = Err e" by (cases "provision_branch_disk a s") simp_all
      then have "(r, st') = (Err e, remove_branch_dir a (delete_shadow_copy a (si_shadow_id s) st))"
        using assms(1) unfolding provision_with_shadow_def Ok k by simp
      then show ?thesis by (rule that)
    qed
    then have "r = Err e" "st' = remove_branch_dir a (delete_shadow_copy a (si_shadow_id s) st)" by (rule Pair_inject, simp)+
    then show ?thesis using assms(2,3) Ok by (simp add: remove_branch_dir_def delete_shadow_copy_def)
  qed
qed

lemma provision_cases:
  assumes p: "provision_computer_branch a branch_type st = (r, st')" and clean: "ba_remove_dir a"
    and st: "\<not> bh_directory st" "\<not> bh_bootstrap st"
  shows "(\<exists>e. r = Err e \<and> (st' = st \<or> st' = st\<lparr>bh_directory := False\<rparr>))
    \<or> (\<exists>st1 cr. provision_with_shadow a (ba_shadow a) cr st1 = (r, st') \<and> bh_directory st1
        \<and> bh_shadows st1 = (case ba_shadow a of Ok s \<Rightarrow> si_shadow_id s # bh_shadows st | Err e \<Rightarrow> bh_shadows st)
        \<and> (bh_bootstrap st1 \<longrightarrow> needs_bootstrap branch_type \<and> \<not> is_ok (ba_cleanup a) \<and> cr = ba_cleanup a))"
proof -
  let ?boot = "needs_bootstrap branch_type"
  have e: "\<exists>e. r = Err e \<and> (st' = st \<or> st' = st\<lparr>bh_directory := False\<rparr>)" if "(r, st') = (Err x, y)"
    "y = st \<or> y = st\<lparr>bh_directory := False\<rparr>" for x y using that by simp
  consider "branch_type = CleanOs" | x where "branch_type \<noteq> CleanOs" "result_bind (ba_administrator a) (\<lambda>_. ba_orphans a) = Err x"
    | x where "branch_type \<noteq> CleanOs" "result_bind (ba_administrator a) (\<lambda>_. ba_orphans a) = Ok ()" "ba_create_dir a = Err x"
    | x where "branch_type \<noteq> CleanOs" "result_bind (ba_administrator a) (\<lambda>_. ba_orphans a) = Ok ()" "ba_create_dir a = Ok ()"
        "(if ?boot then ba_bootstrap a else Ok ()) = Err x"
    | "branch_type \<noteq> CleanOs" "result_bind (ba_administrator a) (\<lambda>_. ba_orphans a) = Ok ()" "ba_create_dir a = Ok ()"
        "(if ?boot then ba_bootstrap a else Ok ()) = Ok ()"
    by (metis is_ok.cases old.unit.exhaust)
  then show ?thesis
  proof cases
    case 1
    then show ?thesis using p e [of "''Clean OS branches require Windows installation media''" st]
      unfolding provision_computer_branch_def by (intro disjI1) simp
  next
    case (2 x)
    then show ?thesis using p e [of x st] unfolding provision_computer_branch_def by (intro disjI1) simp
  next
    case (3 x)
    then show ?thesis using p st(1) e [of x st] unfolding provision_computer_branch_def by (intro disjI1) simp
  next
    case (4 x)
    have "(r, st') = (Err x, remove_branch_dir a (st\<lparr>bh_directory := True\<rparr>))"
      using p st(1) unfolding provision_computer_branch_def Let_def 4 by (simp add: 4)
    then have "r = Err x" "st' = st\<lparr>bh_directory := False\<rparr>" using clean by (simp_all add: remove_branch_dir_def)
    then show ?thesis by blast
  next
    case 5
    define s1 where "s1 = (if ?boot then st\<lparr>bh_directory := True\<rparr>\<lparr>bh_bootstrap := True\<rparr> else st\<lparr>bh_directory := True\<rparr>)"
    define s2 where "s2 = (case ba_shadow a of Ok s \<Rightarrow> s1\<lparr>bh_shadows := si_shadow_id s # bh_shadows s1\<rparr> | Err e \<Rightarrow> s1)"
    define cr where "cr = (if ?boot then ba_cleanup a else Ok ())"
    define s3 where "s3 = (if ?boot \<and> is_ok cr then s2\<lparr>bh_bootstrap := False\<rparr> else s2)"
    have "provision_computer_branch a branch_type st = provision_with_shadow a (ba_shadow a) cr s3"
      using 5 st(1) unfolding provision_computer_branch_def Let_def s3_def s2_def s1_def cr_def by simp
    moreover have "bh_directory s3" "bh_shadows s3 = (case ba_shadow a of Ok s \<Rightarrow> si_shadow_id s # bh_shadows st | Err e \<Rightarrow> bh_shadows st)"
      "bh_bootstrap s3 \<longrightarrow> ?boot \<and> \<not> is_ok (ba_cleanup a) \<and> cr = ba_cleanup a"
      using st by (simp_all add: s3_def s2_def s1_def cr_def split: result.split)
    ultimately show ?thesis using p by auto
  qed
qed

text \<open>
  Creating a branch is all or nothing: a failure leaves no directory and no shadow copy behind, whichever
  step failed, and a success leaves exactly one shadow copy more; the task for the copy is gone from the
  computer in either case unless removing it was what failed.
\<close>

theorem provision_branch_atomic:
  assumes p: "provision_computer_branch a branch_type st = (r, st')" and clean: "ba_delete_shadow a" "ba_remove_dir a"
    and st: "\<not> bh_directory st" "\<not> bh_bootstrap st"
  shows "((\<exists>e. r = Err e \<and> \<not> bh_directory st' \<and> bh_shadows st' = bh_shadows st)
      \<or> r = Ok () \<and> bh_directory st' \<and> (\<exists>s. ba_shadow a = Ok s \<and> bh_shadows st' = si_shadow_id s # bh_shadows st
          \<and> is_ok (snapshot_disk_size (si_volume_size s) (si_partition_start_lba s))))
    \<and> (bh_bootstrap st' \<longrightarrow> needs_bootstrap branch_type \<and> \<not> is_ok (ba_cleanup a) \<and> r \<noteq> Ok ())" (is "?effect \<and> ?task")
proof -
  consider (early) e where "r = Err e" "st' = st \<or> st' = st\<lparr>bh_directory := False\<rparr>"
    | (shadow) st1 cr where "provision_with_shadow a (ba_shadow a) cr st1 = (r, st')" "bh_directory st1"
        "bh_shadows st1 = (case ba_shadow a of Ok s \<Rightarrow> si_shadow_id s # bh_shadows st | Err e \<Rightarrow> bh_shadows st)"
        "bh_bootstrap st1 \<longrightarrow> needs_bootstrap branch_type \<and> \<not> is_ok (ba_cleanup a) \<and> cr = ba_cleanup a"
    using provision_cases [OF p clean(2) st] by blast
  note cases = this
  have ?effect
    using cases
  proof cases
    case early
    with st show ?thesis by auto
  next
    case shadow
    from provision_with_shadow_cases [OF this(1) clean] shadow(2,3) show ?thesis by (cases "ba_shadow a") auto
  qed
  moreover have ?task
    using cases
  proof cases
    case early
    with st show ?thesis by auto
  next
    case shadow
    from provision_with_shadow_cases [OF this(1) clean] shadow(4) show ?thesis by (metis is_ok.simps(1) result.distinct(1))
  qed
  ultimately show ?thesis ..
qed

definition example_branch_answers :: branch_answers where
  "example_branch_answers = \<lparr>ba_administrator = Ok (), ba_orphans = Ok (), ba_create_dir = Ok (), ba_bootstrap = Ok (),
     ba_shadow = Ok \<lparr>si_shadow_id = ''s'', si_volume_size = 512, si_partition_start_lba = 2048\<rparr>, ba_cleanup = Ok (),
     ba_disk = (\<lambda>_. Ok ()), ba_boot = Ok (), ba_firmware = Err ''full'', ba_metadata = Ok (),
     ba_delete_shadow = True, ba_remove_dir = True\<rparr>"

theorem provision_branch_atomic_witness:
  "\<not> bh_directory (snd (provision_computer_branch example_branch_answers AppsOnly \<lparr>bh_directory = False, bh_shadows = [''a''], bh_bootstrap = False\<rparr>))
   \<and> bh_shadows (snd (provision_computer_branch example_branch_answers AppsOnly \<lparr>bh_directory = False, bh_shadows = [''a''], bh_bootstrap = False\<rparr>)) = [''a'']"
proof -
  let ?st = "\<lparr>bh_directory = False, bh_shadows = [''a''], bh_bootstrap = False\<rparr>"
  obtain r st' where p: "provision_computer_branch example_branch_answers AppsOnly ?st = (r, st')" by (meson surj_pair)
  have "fst (provision_computer_branch example_branch_answers AppsOnly ?st) \<noteq> Ok ()"
    by (simp add: provision_computer_branch_def example_branch_answers_def needs_bootstrap_def provision_with_shadow_def
        provision_branch_disk_def result_bind_Err snapshot_disk_size_def SECTOR_SIZE_def MIN_PARTITION_START_LBA_def GPT_ENTRY_SECTORS_def
        GPT_ENTRY_COUNT_def GPT_ENTRY_SIZE_def checked_add_def checked_mul_def Let_def)
  with provision_branch_atomic [OF p] p show ?thesis by (simp add: example_branch_answers_def)
qed

end
