(* ===== verification/Vm_Security.thy ===== *)
theory Vm_Security
  imports Snapshot_Disk Json_Value
begin

text \<open>
  The identity of a secure virtual machine (\<open>runtime/vm_security.rs\<close>): the TPM state and the firmware variables
  with their checks, the boot options taken over from an older machine, the backup of an identity in the header
  of a disk image, and the preparation of a machine before it starts. SHA-256, Base64, UUIDs and JSON text belong
  to crates and are parameters (record \<open>codecs\<close>).
\<close>

section \<open>Texts\<close>

definition is_ascii_hexdigit :: "char \<Rightarrow> bool" where
  "is_ascii_hexdigit c \<longleftrightarrow> is_digit c \<or> CHR ''a'' \<le> c \<and> c \<le> CHR ''f'' \<or> CHR ''A'' \<le> c \<and> c \<le> CHR ''F''"

definition hex_nibble :: "nat \<Rightarrow> char" where
  "hex_nibble n = (if n < 10 then char_of (48 + n) else char_of (87 + n))"

definition hex_encode :: "bytes \<Rightarrow> string" where
  "hex_encode bs = concat (map (\<lambda>b. [hex_nibble (unat b div 16), hex_nibble (unat b mod 16)]) bs)"

text \<open>\<open>String::from_utf16_lossy\<close>: an unpaired surrogate becomes the replacement character; the result is UTF-8.\<close>

fun utf16_scalars :: "nat list \<Rightarrow> nat list" where
  "utf16_scalars [] = []"
| "utf16_scalars [u] = [if 0xD800 \<le> u \<and> u \<le> 0xDFFF then 0xFFFD else u]"
| "utf16_scalars (u # v # us) =
     (if u < 0xD800 \<or> 0xDFFF < u then u # utf16_scalars (v # us)
      else if u \<le> 0xDBFF \<and> 0xDC00 \<le> v \<and> v \<le> 0xDFFF
      then (0x10000 + (u - 0xD800) * 0x400 + (v - 0xDC00)) # utf16_scalars us
      else 0xFFFD # utf16_scalars (v # us))"

definition utf8_scalar :: "nat \<Rightarrow> string" where
  "utf8_scalar n =
     map char_of
       (if n < 0x80 then [n]
        else if n < 0x800 then [0xC0 + n div 64, 0x80 + n mod 64]
        else if n < 0x10000 then [0xE0 + n div 4096, 0x80 + n div 64 mod 64, 0x80 + n mod 64]
        else [0xF0 + n div 262144, 0x80 + n div 4096 mod 64, 0x80 + n div 64 mod 64, 0x80 + n mod 64])"

fun le16_units :: "bytes \<Rightarrow> nat list" where
  "le16_units (a # b # bs) = (unat a + 256 * unat b) # le16_units bs"
| "le16_units _ = []"

definition from_utf16_lossy :: "bytes \<Rightarrow> string" where
  "from_utf16_lossy bs = concat (map utf8_scalar (utf16_scalars (le16_units bs)))"

section \<open>The identity of a virtual machine\<close>

definition MAX_VARS :: nat where
  "MAX_VARS = 1024 * 1024"

definition NV_SIZE :: nat where
  "NV_SIZE = 2 * (64 + 16384)"

definition MAX_BACKUP :: nat where
  "MAX_BACKUP = 2 * 1024 * 1024"

definition BACKUP_EXTENSION :: nat where
  "BACKUP_EXTENSION = 0x4f445343"

record Backup =
  bk_version :: u32
  bk_firmware_sha256 :: string
  bk_nv :: string
  bk_variables :: string

definition valid_hash :: "string \<Rightarrow> bool" where
  "valid_hash h \<longleftrightarrow> length h = 64 \<and> list_all is_ascii_hexdigit h"

definition nv_slot_ok :: "(bytes \<Rightarrow> bytes) \<Rightarrow> bytes \<Rightarrow> bool" where
  "nv_slot_ok sha256 slot \<longleftrightarrow> take 8 slot = ascii ''ODTPM001'' \<and> le_value (subslice slot 8 16) \<noteq> 0
     \<and> le_value (subslice slot 16 24) = 16384 \<and> subslice slot 24 32 = replicate 8 0
     \<and> sha256 (take 32 slot @ drop 64 slot) = subslice slot 32 64"

definition validate_nv :: "(bytes \<Rightarrow> bytes) \<Rightarrow> bytes \<Rightarrow> (unit, string) result" where
  "validate_nv sha256 bs =
     (if length bs \<noteq> NV_SIZE then Err ''The VM's TPM state is incomplete; refusing to create a different identity''
      else if list_ex (nv_slot_ok sha256) [take (NV_SIZE div 2) bs, drop (NV_SIZE div 2) bs] then Ok ()
      else Err ''The VM's TPM state is corrupt; restore a complete backup instead of resetting it'')"

text \<open>\<open>uuid_ok\<close> is the parser of the crate \<open>uuid\<close>.\<close>

definition check_var :: "(string \<Rightarrow> bool) \<Rightarrow> json \<Rightarrow> (string \<times> string) list \<Rightarrow> ((string \<times> string) \<times> nat, string) result" where
  "check_var uuid_ok var names =
     result_bind (ok_or (as_str (json_get var ''name'')) ''Invalid firmware variable name'') (\<lambda>name.
     result_bind (ok_or (as_str (json_get var ''guid'')) ''Invalid firmware variable GUID'') (\<lambda>guid.
     result_bind (ok_or (as_str (json_get var ''data'')) ''Invalid firmware variable data'') (\<lambda>data.
       if 1024 < length name \<or> \<not> list_all (\<lambda>c. (of_char c :: nat) < 128) name \<or> CHR 0x00 \<in> set name \<or> \<not> uuid_ok guid
          \<or> (map to_ascii_lowercase guid, name) \<in> set names \<or> length data mod 2 \<noteq> 0 \<or> \<not> list_all is_ascii_hexdigit data
          \<or> \<not> (case as_u64 (json_get var ''attr'') of Some n \<Rightarrow> unat n \<le> 2 ^ 32 - 1 | None \<Rightarrow> False)
       then Err ''Invalid or duplicate VM firmware variable''
       else Ok ((map to_ascii_lowercase guid, name), length data div 2 + length name * 2 + 64))))"

fun check_vars :: "(string \<Rightarrow> bool) \<Rightarrow> json list \<Rightarrow> (string \<times> string) list \<Rightarrow> nat \<Rightarrow> (nat, string) result" where
  "check_vars uuid_ok [] names used = Ok used"
| "check_vars uuid_ok (var # vars) names used =
     result_bind (check_var uuid_ok var names) (\<lambda>(key, n). check_vars uuid_ok vars (key # names) (used + n))"

definition GLOBAL_GUID :: string where
  "GLOBAL_GUID = ''8be4df61-93ca-11d2-aa0d-00e098032b8c''"

definition SECURITY_GUID :: string where
  "SECURITY_GUID = ''d719b2cb-3d3a-4596-a3bc-dad00e67656f''"

definition required_guid :: "string \<Rightarrow> string" where
  "required_guid required = (if required \<in> {''PK'', ''KEK''} then GLOBAL_GUID else SECURITY_GUID)"

definition has_required :: "json list \<Rightarrow> string \<Rightarrow> bool" where
  "has_required vars required = list_ex (\<lambda>var. json_get var ''name'' = JStr required
     \<and> (case as_str (json_get var ''guid'') of
          Some s \<Rightarrow> map to_ascii_lowercase s = map to_ascii_lowercase (required_guid required) | None \<Rightarrow> False)
     \<and> (case as_str (json_get var ''data'') of Some s \<Rightarrow> s \<noteq> [] | None \<Rightarrow> False)) vars"

fun check_required_keys :: "json list \<Rightarrow> string list \<Rightarrow> (unit, string) result" where
  "check_required_keys vars [] = Ok ()"
| "check_required_keys vars (required # rest) =
     (if has_required vars required then check_required_keys vars rest
      else Err (''Secure Boot state is missing '' @ required @ ''; refusing an insecure fallback''))"

definition validate_vars :: "(bytes \<Rightarrow> (json, string) result) \<Rightarrow> (string \<Rightarrow> bool) \<Rightarrow> bytes \<Rightarrow> (unit, string) result" where
  "validate_vars from_slice uuid_ok bs =
     (if MAX_VARS < length bs then Err ''VM firmware state exceeds its limit''
      else result_bind (from_slice bs) (\<lambda>v.
        if as_u64 (json_get v ''version'') \<noteq> Some 2 then Err ''Unsupported VM firmware variable format''
        else result_bind (ok_or (as_array (json_get v ''variables'')) ''Missing VM firmware variables'') (\<lambda>vars.
          result_bind (check_vars uuid_ok vars [] 0) (\<lambda>used.
            if 256 * 1024 < used then Err ''VM firmware variable capacity exceeded''
            else check_required_keys vars [''PK'', ''KEK'', ''db'', ''dbx'']))))"

section \<open>Boot options of an older machine\<close>

definition AUTH_STORE :: bytes where
  "AUTH_STORE = [0x78, 0x2c, 0xf3, 0xaa, 0x7b, 0x94, 0x9a, 0x43, 0xa1, 0x80, 0x2e, 0x14, 0x4e, 0xc3, 0x77, 0x92]"

definition GLOBAL_BYTES :: bytes where
  "GLOBAL_BYTES = [0x61, 0xdf, 0xe4, 0x8b, 0xca, 0x93, 0xd2, 0x11, 0xaa, 0x0d, 0x00, 0xe0, 0x98, 0x03, 0x2b, 0x8c]"

text \<open>\<open>flash.windows(16).position(..)\<close>\<close>

fun position_window :: "bytes \<Rightarrow> bytes \<Rightarrow> nat option" where
  "position_window pat [] = None"
| "position_window pat (b # bs) =
     (if length (b # bs) < length pat then None
      else if take (length pat) (b # bs) = pat then Some 0
      else map_option Suc (position_window pat bs))"

definition boot_option :: "string \<Rightarrow> bool" where
  "boot_option name \<longleftrightarrow> name = ''BootOrder''
     \<or> length name = 8 \<and> starts_with ''Boot'' name \<and> list_all is_ascii_hexdigit (drop 4 name)"

definition boot_variable :: "string \<Rightarrow> bytes \<Rightarrow> json" where
  "boot_variable name data = json_obj [(''name'', JStr name), (''guid'', JStr GLOBAL_GUID), (''attr'', json_int 7),
     (''data'', JStr (hex_encode data))]"

definition add_boot_option :: "bytes \<Rightarrow> bytes \<Rightarrow> bytes \<Rightarrow> json list \<Rightarrow> json list" where
  "add_boot_option entry name data vars =
     (let name = trim_end_matches (CHR 0x00) (from_utf16_lossy name)
      in if entry ! 2 = 0x3f \<and> subslice entry 44 60 = GLOBAL_BYTES \<and> boot_option name
         then filter (\<lambda>v. json_get v ''name'' \<noteq> JStr name) vars @ [boot_variable name data]
         else vars)"

definition round4 :: "nat \<Rightarrow> nat" where
  "round4 n = (n + 3) div 4 * 4"

lemma round4_ge: "n \<le> round4 n"
  by (simp add: round4_def)

function boot_entries :: "bytes \<Rightarrow> nat \<Rightarrow> json list \<Rightarrow> json list" where
  "boot_entries store offset vars =
     (case get_range store offset (offset + 60) of
        None \<Rightarrow> vars
      | Some entry \<Rightarrow>
          if take 2 entry \<noteq> [0xaa, 0x55] then vars
          else
            (let name_size = le_value (subslice entry 36 40); data_size = le_value (subslice entry 40 44)
             in if 2048 < name_size \<or> name_size mod 2 \<noteq> 0 \<or> 65536 < data_size then vars
                else
                  (let data_at = round4 (offset + 60 + name_size)
                   in case get_range store (offset + 60) (offset + 60 + name_size) of
                        None \<Rightarrow> vars
                      | Some name \<Rightarrow>
                          (case get_range store data_at (data_at + data_size) of
                             None \<Rightarrow> vars
                           | Some data \<Rightarrow> boot_entries store (round4 (data_at + data_size)) (add_boot_option entry name data vars)))))"
  by pat_completeness auto
termination
proof (relation "measure (\<lambda>(store, offset, vars). length store - offset)", goal_cases)
  case (2 store offset vars entry name_size data_size data_at name data)
  have "offset + 60 + name_size \<le> data_at" "data_at + data_size \<le> round4 (data_at + data_size)"
    using 2 round4_ge by simp_all
  moreover have "offset + 60 \<le> length store" using 2 by simp
  ultimately show ?case by simp
qed simp

declare boot_entries.simps [simp del]


text \<open>
  \<open>vars["variables"]\<close> is borrowed for writing: a missing key is entered as null, null itself becomes an
  object, and another value panics (\<open>None\<close>).
\<close>

definition migrate_boot_options :: "json \<Rightarrow> bytes \<Rightarrow> json option" where
  "migrate_boot_options vars flash =
     (case position_window AUTH_STORE flash of
        None \<Rightarrow> Some vars
      | Some start \<Rightarrow>
          (case get_range flash start (start + 28) of
             None \<Rightarrow> Some vars
           | Some header \<Rightarrow>
               (case get_range flash start (start + le_value (subslice header 16 20)) of
                  None \<Rightarrow> Some vars
                | Some store \<Rightarrow>
                    (case json_get vars ''variables'' of
                       JArr xs \<Rightarrow> json_set ''variables'' (JArr (boot_entries store 28 xs)) vars
                     | v \<Rightarrow> json_set ''variables'' v vars))))"

section \<open>Backups in the header of a disk image\<close>

text \<open>Base64, the JSON of a backup and its printing belong to crates.\<close>

record codecs =
  cd_sha256 :: "bytes \<Rightarrow> bytes"
  cd_base64 :: "string \<Rightarrow> (bytes, string) result"
  cd_json :: "bytes \<Rightarrow> (json, string) result"
  cd_uuid :: "string \<Rightarrow> bool"
  cd_decode :: "bytes \<Rightarrow> (Backup, string) result"
  cd_encode :: "Backup \<Rightarrow> (bytes, string) result"

definition backup_validate :: "codecs \<Rightarrow> Backup \<Rightarrow> (bytes \<times> bytes, string) result" where
  "backup_validate cd b =
     (if bk_version b \<noteq> 1 \<or> \<not> valid_hash (bk_firmware_sha256 b) \<or> NV_SIZE * 2 < length (bk_nv b)
         \<or> MAX_VARS * 2 < length (bk_variables b)
      then Err ''Unsupported or oversized VM security backup''
      else result_bind (cd_base64 cd (bk_nv b)) (\<lambda>nv. result_bind (cd_base64 cd (bk_variables b)) (\<lambda>vars.
           result_bind (validate_nv (cd_sha256 cd) nv) (\<lambda>_. result_bind (validate_vars (cd_json cd) (cd_uuid cd) vars) (\<lambda>_.
             Ok (nv, vars))))))"

abbreviation be_word :: "bytes \<Rightarrow> nat \<Rightarrow> nat" where
  "be_word header k \<equiv> be_value (subslice header k (k + 4))"

definition external_data :: "bytes \<Rightarrow> bool" where
  "external_data header \<longleftrightarrow> be_word header 4 = 3 \<and> be_value (subslice header 72 80) div 4 mod 2 = 1"

definition round8 :: "nat \<Rightarrow> nat" where
  "round8 n = (n + 7) div 8 * 8"

function extension_loop :: "codecs \<Rightarrow> bytes \<Rightarrow> nat \<Rightarrow> Backup option \<Rightarrow> (nat \<times> Backup option, string) result" where
  "extension_loop cd bs offset found =
     (case get_range bs offset (offset + 8) of
        None \<Rightarrow> Err ''Unterminated QCOW2 extensions''
      | Some entry \<Rightarrow>
          (let kind = be_value (take 4 entry); n = be_value (drop 4 entry)
           in if kind = 0 then (if n \<noteq> 0 then Err ''Invalid QCOW2 extension terminator'' else Ok (offset, found))
              else if MAX_BACKUP < n then Err ''Oversized QCOW2 extension''
              else (case get_range bs (offset + 8) (offset + 8 + n) of
                  None \<Rightarrow> Err ''Truncated QCOW2 extension''
                | Some data \<Rightarrow>
                    if kind = BACKUP_EXTENSION then
                      (if found \<noteq> None \<or> be_value (subslice bs 8 16) \<noteq> 0 \<or> external_data bs
                       then Err ''Secure backups must contain exactly one identity and a standalone disk''
                       else result_bind (cd_decode cd data) (\<lambda>b. result_bind (backup_validate cd b) (\<lambda>_.
                              extension_loop cd bs (offset + 8 + round8 n) (Some b))))
                    else extension_loop cd bs (offset + 8 + round8 n) found)))"
  by pat_completeness auto
termination
  by (relation "measure (\<lambda>(cd, bs, offset, found). length bs - offset)") auto

declare extension_loop.simps [simp del]

text \<open>The first cluster of the image up to the name of a backing file: the bytes, where the extensions end, and the backup.\<close>

definition extension_area :: "bytes \<Rightarrow> (nat \<times> nat, string) result" where
  "extension_area header =
     (let version = be_word header 4; bits = be_word header 20; cluster = 2 ^ bits;
          offset = (if version = 2 then 72 else be_word header 100);
          backing = be_value (subslice header 8 16)
      in if take 4 header \<noteq> ascii ''QFI'' @ [0xfb] \<or> version \<notin> {2, 3} \<or> \<not> (9 \<le> bits \<and> bits \<le> 21)
         then Err ''VM backup is not a supported QCOW2 image''
         else if offset < (if version = 2 then 72 else 104) \<or> offset mod 8 \<noteq> 0 \<or> cluster - 8 < offset
         then Err ''Invalid QCOW2 extension area''
         else if backing = 0 then Ok (offset, cluster)
         else if offset \<le> backing \<and> backing \<le> cluster then Ok (offset, backing)
         else Err ''Invalid QCOW2 backing offset'')"

definition extensions :: "codecs \<Rightarrow> bytes \<Rightarrow> (bytes \<times> nat \<times> Backup option, string) result" where
  "extensions cd image_file =
     (if length image_file < 104 then Err ''Read backup header''
      else result_bind (extension_area (take 104 image_file)) (\<lambda>(offset, limit).
        if length image_file < limit then Err ''failed to fill whole buffer''
        else result_bind (extension_loop cd (take limit image_file) offset None)
               (\<lambda>(offset, found). Ok (take limit image_file, offset, found))))"

definition vm_read_backup :: "codecs \<Rightarrow> bytes \<Rightarrow> (Backup option, string) result" where
  "vm_read_backup cd image_file = result_bind (extensions cd image_file) (\<lambda>(_, _, found). Ok found)"

text \<open>The file after the identity was written into it.\<close>

definition embed_backup :: "codecs \<Rightarrow> bytes \<Rightarrow> Backup \<Rightarrow> (bytes, string) result" where
  "embed_backup cd image_file b =
     result_bind (backup_validate cd b) (\<lambda>_.
     result_bind (extensions cd image_file) (\<lambda>(header, offset, previous).
     result_bind (cd_encode cd b) (\<lambda>data.
       let len = 8 + round8 (length data) + 8
       in if previous \<noteq> None \<or> subslice header 8 20 \<noteq> replicate 12 0 \<or> MAX_BACKUP < length data
             \<or> length header < offset + len \<or> list_ex (\<lambda>n. n \<noteq> 0) (subslice header offset (offset + len))
          then Err ''Backup header has no safe space for its TPM identity''
          else
            (let entry = replicate len 0;
                 entry = copy_into entry 0 (be_digits 4 BACKUP_EXTENSION);
                 entry = copy_into entry 4 (be_digits 4 (length data));
                 entry = copy_into entry 8 data
             in Ok (copy_into image_file offset entry)))))"


section \<open>What is embedded is read back\<close>

lemma round8_ge: "n \<le> round8 n"
  by (simp add: round8_def)

lemma extension_loop_eq:
  "extension_loop cd bs offset found =
     (let kind = be_word bs offset; n = be_value (subslice bs (offset + 4) (offset + 8))
      in if length bs < offset + 8 then Err ''Unterminated QCOW2 extensions''
         else if kind = 0 then (if n \<noteq> 0 then Err ''Invalid QCOW2 extension terminator'' else Ok (offset, found))
         else if MAX_BACKUP < n then Err ''Oversized QCOW2 extension''
         else if length bs < offset + 8 + n then Err ''Truncated QCOW2 extension''
         else if kind = BACKUP_EXTENSION then
           (if found \<noteq> None \<or> be_value (subslice bs 8 16) \<noteq> 0 \<or> external_data bs
            then Err ''Secure backups must contain exactly one identity and a standalone disk''
            else result_bind (cd_decode cd (subslice bs (offset + 8) (offset + 8 + n))) (\<lambda>b. result_bind (backup_validate cd b) (\<lambda>_.
              extension_loop cd bs (offset + 8 + round8 n) (Some b))))
         else extension_loop cd bs (offset + 8 + round8 n) found)"
proof -
  have "take 4 (subslice bs offset (offset + 8)) = subslice bs offset (offset + 4)"
    "drop 4 (subslice bs offset (offset + 8)) = subslice bs (offset + 4) (offset + 8)"
    by (simp_all add: subslice_def drop_take add.commute)
  then show ?thesis by (subst extension_loop.simps) (simp add: get_range_def Let_def)
qed

lemma subslice_agree: "take k xs = take k ys \<Longrightarrow> b \<le> k \<Longrightarrow> subslice xs a b = subslice ys a b"
proof -
  assume a: "take k xs = take k ys" "b \<le> k"
  have "subslice zs a b = drop a (take b (take k zs))" for zs :: "'a list" using a(2) by (simp add: subslice_def drop_take min_def)
  with a(1) show ?thesis by metis
qed

text \<open>The extensions before the terminator, seen in other bytes that agree with these up to there.\<close>

lemma extension_loop_agree:
  assumes "extension_loop cd bs offset found = Ok (final, r)" "16 \<le> offset"
    and b: "length bs' = length bs" "take final bs' = take final bs" "external_data bs' = external_data bs"
  shows "offset \<le> final \<and> final + 8 \<le> length bs \<and> extension_loop cd bs' offset found = extension_loop cd bs' final r"
  using assms(1,2)
proof (induction "length bs - offset" arbitrary: offset found rule: less_induct)
  case less
  define kind n where "kind = be_word bs offset" and "n = be_value (subslice bs (offset + 4) (offset + 8))"
  note eq = extension_loop_eq [where bs = bs and offset = offset, folded kind_def n_def, unfolded Let_def]
  have fits: "\<not> length bs < offset + 8"
  proof
    assume "length bs < offset + 8"
    with less.prems(1) show False unfolding eq by simp
  qed
  show ?case
  proof (cases "kind = 0")
    case True
    then have "n = 0"
    proof (cases "n = 0")
      case F: False
      with True less.prems(1) fits show ?thesis unfolding eq by simp
    qed
    with True less.prems(1) fits have "final = offset" "r = found" unfolding eq by simp_all
    with fits show ?thesis by simp
  next
    case False
    have s1: "\<not> MAX_BACKUP < n"
    proof
      assume "MAX_BACKUP < n"
      with less.prems(1) fits False show False unfolding eq by simp
    qed
    have s2: "\<not> length bs < offset + 8 + n"
    proof
      assume "length bs < offset + 8 + n"
      with less.prems(1) fits False s1 show False unfolding eq by simp
    qed
    note small = s1 s2
    let ?next = "offset + 8 + round8 n"
    have agree: "subslice bs' x y = subslice bs x y" if "y \<le> final" for x y using b(2) that by (rule subslice_agree)
    have shorter: "length bs - ?next < length bs - offset" using fits by simp
    show ?thesis
    proof (cases "kind = BACKUP_EXTENSION")
      case ext: True
      with less.prems(1) fits False small obtain bk x where k: "found = None" "be_value (subslice bs 8 16) = 0" "\<not> external_data bs"
        "cd_decode cd (subslice bs (offset + 8) (offset + 8 + n)) = Ok bk" "backup_validate cd bk = Ok x"
        "extension_loop cd bs ?next (Some bk) = Ok (final, r)"
        unfolding eq by (simp split: if_split_asm) blast
      from less.hyps [OF shorter k(6)] less.prems(2) have ih: "?next \<le> final" "final + 8 \<le> length bs"
        "extension_loop cd bs' ?next (Some bk) = extension_loop cd bs' final r" by auto
      have w: "offset + 8 + n \<le> final" using ih(1) round8_ge [of n] by linarith
      have "extension_loop cd bs' offset found = extension_loop cd bs' ?next (Some bk)"
        using fits False small ext k b w less.prems(2) by (subst extension_loop_eq) (simp add: Let_def agree kind_def [symmetric] n_def [symmetric])
      with ih w show ?thesis by simp
    next
      case other: False
      with less.prems(1) fits False small have k: "extension_loop cd bs ?next found = Ok (final, r)"
        unfolding eq by simp
      from less.hyps [OF shorter k] less.prems(2) have ih: "?next \<le> final" "final + 8 \<le> length bs"
        "extension_loop cd bs' ?next found = extension_loop cd bs' final r" by auto
      have w: "offset + 8 + n \<le> final" using ih(1) round8_ge [of n] by linarith
      have "extension_loop cd bs' offset found = extension_loop cd bs' ?next found"
        using fits False small other k b w less.prems(2) by (subst extension_loop_eq) (simp add: Let_def agree kind_def [symmetric] n_def [symmetric])
      with ih w show ?thesis by simp
    qed
  qed
qed


lemma subslice_copy_inside:
  assumes "k + length v \<le> length xs" "b \<le> length v"
  shows "subslice (copy_into xs k v) (k + a) (k + b) = subslice v a b"
  using assms by (simp add: subslice_def copy_into_def)

lemma extension_area_Ok:
  assumes "extension_area header = Ok (start, limit)"
  shows "72 \<le> start" "be_word header 4 = 3 \<Longrightarrow> 104 \<le> start" "limit \<le> 2 ^ be_word header 20" "start \<le> limit"
    "be_word header 4 \<in> {2, 3}" "be_value (subslice header 8 16) = 0 \<Longrightarrow> limit = 2 ^ be_word header 20"
  using assms by (auto simp: extension_area_def Let_def split: if_splits)

lemma extension_area_agree:
  assumes "extension_area header = Ok (start, limit)" "take start header' = take start header"
  shows "extension_area header' = Ok (start, limit)"
proof -
  note ok = extension_area_Ok [OF assms(1)]
  have agree: "subslice header' x y = subslice header x y" if "y \<le> start" for x y using assms(2) that by (rule subslice_agree)
  have "take 4 header' = subslice header' 0 4" "take 4 header = subslice header 0 4" by (simp_all add: subslice_def)
  then have four: "take 4 header' = take 4 header" using agree ok(1) by simp
  have w: "be_word header' 4 = be_word header 4" "be_word header' 20 = be_word header 20"
    "be_value (subslice header' 8 16) = be_value (subslice header 8 16)" using agree ok(1) by simp_all
  have "be_word header 4 = 2 \<or> be_word header' 100 = be_word header 100" using agree ok(2,5) by auto
  then have "(if be_word header 4 = 2 then 72 else be_word header' 100) = (if be_word header 4 = 2 then 72 else be_word header 100)" by auto
  then have "extension_area header' = extension_area header" unfolding extension_area_def Let_def four w by (simp only:)
  then show ?thesis using assms(1) by simp
qed

lemma extensions_OkE:
  assumes "extensions cd file = Ok (bs, final, found)"
  obtains start limit where "extension_area (take 104 file) = Ok (start, limit)" "bs = take limit file" "limit \<le> length file"
    "104 \<le> length file" "extension_loop cd bs start None = Ok (final, found)"
  using assms by (auto simp: extensions_def split: if_splits)


lemma be_value_zeros: "be_value (replicate n 0) = 0"
  by (induction n) (simp_all add: be_value_def replicate_append_same [symmetric])

text \<open>The entry that is written, followed by a terminator.\<close>

definition backup_entry :: "bytes \<Rightarrow> bytes" where
  "backup_entry data = copy_into (copy_into (copy_into (replicate (8 + round8 (length data) + 8) 0) 0 (be_digits 4 BACKUP_EXTENSION))
     4 (be_digits 4 (length data))) 8 data"

lemma backup_entry_read:
  assumes "length data \<le> MAX_BACKUP"
  shows "length (backup_entry data) = 8 + round8 (length data) + 8"
    "be_value (subslice (backup_entry data) 0 4) = BACKUP_EXTENSION" "be_value (subslice (backup_entry data) 4 8) = length data"
    "subslice (backup_entry data) 8 (8 + length data) = data"
    "be_value (subslice (backup_entry data) (8 + round8 (length data)) (8 + round8 (length data) + 4)) = 0"
    "be_value (subslice (backup_entry data) (8 + round8 (length data) + 4) (8 + round8 (length data) + 8)) = 0"
proof -
  define ws :: "(nat \<times> bytes) list" where "ws = [(0, be_digits 4 BACKUP_EXTENSION), (4, be_digits 4 (length data)), (8, data)]"
  define n where "n = 8 + round8 (length data) + 8"
  have e: "backup_entry data = write_all ws (replicate n 0)" by (simp add: backup_entry_def ws_def n_def)
  have r: "length data \<le> round8 (length data)" by (rule round8_ge)
  have f: "writes_fit ws (length (replicate n (0 :: u8)))" using r by (simp add: ws_def writes_fit_def n_def)
  have rd: "subslice (backup_entry data) a b = v" if "i < length ws" "ws ! i = (a, v)" "b = a + length v" "apart (drop (Suc i) ws) a b" for i a b v
    unfolding e by (rule write_all_read [OF f that])
  have z: "subslice (backup_entry data) a (a + 4) = replicate 4 0" if "8 + round8 (length data) \<le> a" "a + 4 \<le> n" for a
  proof -
    have "subslice (backup_entry data) a (a + 4) = subslice (replicate n 0) a (a + 4)"
      unfolding e by (rule write_all_apart [OF f]) (use that r in \<open>simp_all add: ws_def apart_def\<close>)
    then show ?thesis using that by (simp add: subslice_def)
  qed
  show "length (backup_entry data) = 8 + round8 (length data) + 8" unfolding e length_write_all [OF f] by (simp add: n_def)
  have "subslice (backup_entry data) 0 4 = be_digits 4 BACKUP_EXTENSION" by (rule rd [of 0]) (simp_all add: ws_def apart_def)
  then show "be_value (subslice (backup_entry data) 0 4) = BACKUP_EXTENSION" by (simp add: be_value_digits BACKUP_EXTENSION_def)
  have "subslice (backup_entry data) 4 8 = be_digits 4 (length data)" by (rule rd [of 1]) (simp_all add: ws_def apart_def)
  then show "be_value (subslice (backup_entry data) 4 8) = length data" using assms by (simp add: be_value_digits MAX_BACKUP_def)
  show "subslice (backup_entry data) 8 (8 + length data) = data" by (rule rd [of 2]) (simp_all add: ws_def apart_def)
  show "be_value (subslice (backup_entry data) (8 + round8 (length data)) (8 + round8 (length data) + 4)) = 0"
    using z [of "8 + round8 (length data)"] by (simp add: n_def be_value_zeros)
  show "be_value (subslice (backup_entry data) (8 + round8 (length data) + 4) (8 + round8 (length data) + 8)) = 0"
    using z [of "8 + round8 (length data) + 4"] by (simp add: n_def be_value_zeros add.assoc)
qed

text \<open>The loop on bytes that have the entry where the extensions ended.\<close>

lemma extension_loop_entry:
  assumes "length data \<le> MAX_BACKUP" "offset + length (backup_entry data) \<le> length bs"
    and "bs' = copy_into bs offset (backup_entry data)" "16 \<le> offset"
    and "be_value (subslice bs 8 16) = 0" "\<not> external_data bs'"
    and "cd_decode cd data = Ok b" "is_ok (backup_validate cd b)"
  shows "extension_loop cd bs' offset None = Ok (offset + 8 + round8 (length data), Some b)"
proof -
  note e = backup_entry_read [OF assms(1)]
  have l: "length bs' = length bs" using assms(2,3) by simp
  have inside: "subslice bs' (offset + x) (offset + y) = subslice (backup_entry data) x y" if "y \<le> length (backup_entry data)" for x y
    unfolding assms(3) by (rule subslice_copy_inside [OF assms(2) that])
  have w: "be_word bs' offset = BACKUP_EXTENSION" "be_value (subslice bs' (offset + 4) (offset + 8)) = length data"
    "subslice bs' (offset + 8) (offset + 8 + length data) = data"
    using inside [of 4 0] inside [of 8 4] inside [of "8 + length data" 8] e round8_ge [of "length data"] by (simp_all add: add.assoc)
  let ?next = "offset + 8 + round8 (length data)"
  have t: "be_word bs' ?next = 0" "be_value (subslice bs' (?next + 4) (?next + 8)) = 0"
    using inside [of "8 + round8 (length data) + 4" "8 + round8 (length data)"]
      inside [of "8 + round8 (length data) + 8" "8 + round8 (length data) + 4"] e(1,5,6) by (simp_all add: add.assoc)
  have "extension_loop cd bs' ?next (Some b) = Ok (?next, Some b)"
    using t l assms(2) e(1) by (subst extension_loop_eq) (simp add: Let_def)
  moreover have "subslice bs' 8 16 = subslice bs 8 16"
    unfolding assms(3) using assms(2,4) by (intro subslice_copy_disjoint) simp_all
  moreover have "BACKUP_EXTENSION \<noteq> 0" by (simp add: BACKUP_EXTENSION_def)
  ultimately show ?thesis
    using assms l w e(1) round8_ge [of "length data"] by (subst extension_loop_eq) (auto simp: Let_def is_ok_iff)
qed


lemma take_copy_into:
  assumes "k + length v \<le> n" "n \<le> length xs"
  shows "take n (copy_into xs k v) = copy_into (take n xs) k v"
  using assms by (intro nth_equalityI) (simp_all add: nth_copy_into)

lemma take_before_copy: "n \<le> k \<Longrightarrow> k \<le> length xs \<Longrightarrow> take n (copy_into xs k v) = take n xs"
  by (simp add: copy_into_def min_def)

lemma external_data_agree:
  assumes "take k xs = take k ys" "8 \<le> k" "be_word ys 4 = 3 \<Longrightarrow> 80 \<le> k"
  shows "external_data xs = external_data ys"
proof -
  have "be_word xs 4 = be_word ys 4" using subslice_agree [OF assms(1), of 8 4] assms(2) by simp
  moreover have "subslice xs 72 80 = subslice ys 72 80" if "be_word ys 4 = 3" using subslice_agree [OF assms(1)] assms(3) that by simp
  ultimately show ?thesis unfolding external_data_def by auto
qed

lemma embed_backup_OkE:
  assumes "embed_backup cd file b = Ok file'"
  obtains data header offset where "is_ok (backup_validate cd b)" "extensions cd file = Ok (header, offset, None)" "cd_encode cd b = Ok data"
    "subslice header 8 20 = replicate 12 0" "length data \<le> MAX_BACKUP" "offset + length (backup_entry data) \<le> length header"
    "\<forall>x \<in> set (subslice header offset (offset + length (backup_entry data))). x = 0" "file' = copy_into file offset (backup_entry data)"
proof -
  from assms obtain nv header offset previous data where o: "backup_validate cd b = Ok nv" "extensions cd file = Ok (header, offset, previous)"
    "cd_encode cd b = Ok data"
    and k: "(if previous \<noteq> None \<or> subslice header 8 20 \<noteq> replicate 12 0 \<or> MAX_BACKUP < length data
       \<or> length header < offset + (8 + round8 (length data) + 8)
       \<or> list_ex (\<lambda>n. n \<noteq> 0) (subslice header offset (offset + (8 + round8 (length data) + 8)))
      then Err ''Backup header has no safe space for its TPM identity''
      else Ok (copy_into file offset (backup_entry data))) = Ok file'"
    unfolding embed_backup_def Let_def backup_entry_def by auto
  from k have c: "previous = None" "subslice header 8 20 = replicate 12 0" "length data \<le> MAX_BACKUP"
    "offset + (8 + round8 (length data) + 8) \<le> length header"
    "\<not> list_ex (\<lambda>n. n \<noteq> 0) (subslice header offset (offset + (8 + round8 (length data) + 8)))"
    "file' = copy_into file offset (backup_entry data)"
    by (simp_all only: split: if_split_asm) simp_all
  then show thesis using o by (intro that [of header offset data]) (auto simp: backup_entry_read(1) list_ex_iff is_ok_iff)
qed

text \<open>
  C23. The TPM and firmware identity travels with a backup: what was embedded in a disk image is read back from it,
  and embedding changes nothing but unused zero bytes of the image's first cluster, so the disk itself is
  untouched.
\<close>

theorem embedded_identity_restored:
  assumes "embed_backup cd file b = Ok file'" and "\<not> external_data file"
    and codec: "\<And>data. cd_encode cd b = Ok data \<Longrightarrow> cd_decode cd data = Ok b"
  shows "vm_read_backup cd file' = Ok (Some b) \<and> length file' = length file
    \<and> (\<forall>i < length file. file' ! i \<noteq> file ! i \<longrightarrow> file ! i = 0 \<and> 72 \<le> i \<and> i < 2 ^ be_word file 20)"
proof -
  obtain data header offset where e: "is_ok (backup_validate cd b)" "extensions cd file = Ok (header, offset, None)" "cd_encode cd b = Ok data"
    "subslice header 8 20 = replicate 12 0" "length data \<le> MAX_BACKUP" "offset + length (backup_entry data) \<le> length header"
    "\<forall>x \<in> set (subslice header offset (offset + length (backup_entry data))). x = 0" "file' = copy_into file offset (backup_entry data)"
    by (rule embed_backup_OkE [OF assms(1)])
  obtain start limit where x: "extension_area (take 104 file) = Ok (start, limit)" "header = take limit file" "limit \<le> length file"
    "104 \<le> length file" "extension_loop cd header start None = Ok (offset, None)"
    by (rule extensions_OkE [OF e(2)])
  note area = extension_area_Ok [OF x(1)]
  let ?h' = "take limit file'"
  have len: "length header = limit" using x by simp
  have fit: "offset + length (backup_entry data) \<le> length file" using e(6) len x(3) by simp
  have h': "?h' = copy_into header offset (backup_entry data)"
    unfolding e(8) x(2) using e(6) len x(3) by (intro take_copy_into) simp_all
  have l': "length file' = length file" "length ?h' = length header" using fit len x(3) by (simp_all add: e(8))
  have so: "start \<le> offset" "offset + 8 \<le> length header"
    using extension_loop_agree [OF x(5) _ refl refl refl] area(1) by simp_all
  have "take offset ?h' = take offset header" unfolding h' by (rule take_before_copy) (use so in simp_all)
  moreover have "take start file' = take start file" unfolding e(8) by (rule take_before_copy) (use so fit in simp_all)
  ultimately have keep: "take offset ?h' = take offset header" "take start file' = take start file" by simp_all
  have v: "be_word file 4 = 3 \<Longrightarrow> 104 \<le> start" using area(2) subslice_agree [of 104 "take 104 file" "file" 8 4] by simp
  have hv: "be_word header 4 = be_word file 4"
    using subslice_agree [of limit header "file" 8 4] area(1,4) x(2) by simp
  have ext: "external_data ?h' = external_data header" "external_data header = external_data file"
    by (rule external_data_agree [OF keep(1)], use so area(1) v hv in simp_all,
        rule external_data_agree [of limit], use x(2) area(1,4) v in simp_all)
  have "subslice header 8 16 = take 8 (subslice header 8 20)" by (simp add: subslice_def)
  then have zero: "be_value (subslice header 8 16) = 0" using e(4) be_value_zeros [of 8] by simp
  have "extension_loop cd ?h' start None = extension_loop cd ?h' offset None"
    using extension_loop_agree [OF x(5) _ l'(2) keep(1) ext(1)] area(1) by simp
  also have "\<dots> = Ok (offset + 8 + round8 (length data), Some b)"
    using e(5,6) h' so area(1) zero ext assms(2) codec [OF e(3)] e(1) by (intro extension_loop_entry) simp_all
  finally have loop: "extension_loop cd ?h' start None = Ok (offset + 8 + round8 (length data), Some b)" .
  have "take start (take 104 file') = take start (take 104 file)" using arg_cong [OF keep(2), of "take 104"] by (simp add: min.commute)
  from extension_area_agree [OF x(1) this] loop x(3,4) l'(1) have "vm_read_backup cd file' = Ok (Some b)"
    by (simp add: vm_read_backup_def extensions_def)
  moreover have "file ! i = 0 \<and> 72 \<le> i \<and> i < 2 ^ be_word file 20" if i: "i < length file" "file' ! i \<noteq> file ! i" for i
  proof -
    have r: "offset \<le> i" "i < offset + length (backup_entry data)"
      using i nth_copy_into [OF fit i(1)] unfolding e(8) by (auto split: if_splits)
    have "subslice header offset (offset + length (backup_entry data)) ! (i - offset) = header ! i"
      using r e(6) by (subst subslice_nth) simp_all
    moreover have "i - offset < length (subslice header offset (offset + length (backup_entry data)))" using r e(6) by simp
    ultimately have "header ! i = 0" using e(7) nth_mem by metis
    moreover have "i < limit" using r e(6) len by simp
    moreover have "be_word (take 104 file) 20 = be_word file 20" using subslice_agree [of 104 "take 104 file" "file" 24 20] by simp
    ultimately show ?thesis using r so area(1,3) by (simp add: x(2))
  qed
  ultimately show ?thesis using l'(1) by simp
qed


section \<open>Secure Boot keys\<close>

definition names_boot_option :: "json \<Rightarrow> bool" where
  "names_boot_option v = (case json_get v ''name'' of JStr n \<Rightarrow> boot_option n | _ \<Rightarrow> False)"

lemma boot_variable_name: "json_get (boot_variable name data) ''name'' = JStr name"
  by (simp add: boot_variable_def json_obj_def)

lemma add_boot_option_others:
  "filter (\<lambda>v. \<not> names_boot_option v) (add_boot_option entry name data vars) = filter (\<lambda>v. \<not> names_boot_option v) vars"
proof -
  define n where "n = trim_end_matches (CHR 0x00) (from_utf16_lossy name)"
  show ?thesis
  proof (cases "entry ! 2 = 0x3f \<and> subslice entry 44 60 = GLOBAL_BYTES \<and> boot_option n")
    case True
    have "filter (\<lambda>v. \<not> names_boot_option v) (filter (\<lambda>v. json_get v ''name'' \<noteq> JStr n) vars)
        = filter (\<lambda>v. \<not> names_boot_option v) vars"
      using True unfolding filter_filter by (intro filter_cong) (auto simp: names_boot_option_def)
    moreover have "names_boot_option (boot_variable n data)" using True by (simp add: names_boot_option_def boot_variable_name)
    ultimately show ?thesis using True by (simp add: add_boot_option_def n_def [symmetric])
  next
    case False
    show ?thesis unfolding add_boot_option_def n_def [symmetric] Let_def if_not_P [OF False] ..
  qed
qed

lemma boot_entries_others:
  "filter (\<lambda>v. \<not> names_boot_option v) (boot_entries store offset vars) = filter (\<lambda>v. \<not> names_boot_option v) vars"
proof (induction store offset vars rule: boot_entries.induct)
  case (1 store offset vars)
  show ?case
    using 1 by (subst boot_entries.simps) (auto simp: Let_def add_boot_option_others split: option.splits)
qed

lemma has_required_others:
  assumes "filter (\<lambda>v. \<not> names_boot_option v) xs = filter (\<lambda>v. \<not> names_boot_option v) ys" "\<not> boot_option k"
  shows "has_required xs k = has_required ys k"
proof -
  have "has_required zs k = has_required (filter (\<lambda>v. \<not> names_boot_option v) zs) k" for zs
    unfolding has_required_def list_ex_iff using assms(2) by (auto simp: names_boot_option_def)
  with assms(1) show ?thesis by metis
qed

text \<open>
  C30. Enabling security on an older machine carries forward its boot options only: whatever bytes its old
  firmware store holds, every variable that is not a boot option, and so each key database of Secure Boot, is
  the one that the trusted template has, and nothing else of the template changes.
\<close>

theorem boot_migration_keeps_keys:
  assumes "migrate_boot_options vars flash = Some vars'"
  shows "(\<forall>k. k \<noteq> ''variables'' \<longrightarrow> json_get vars' k = json_get vars k)
    \<and> (\<forall>xs. json_get vars ''variables'' = JArr xs \<longrightarrow> (\<exists>xs'. json_get vars' ''variables'' = JArr xs'
        \<and> filter (\<lambda>v. \<not> names_boot_option v) xs' = filter (\<lambda>v. \<not> names_boot_option v) xs
        \<and> (\<forall>key \<in> {''PK'', ''KEK'', ''db'', ''dbx''}. has_required xs' key = has_required xs key)))"
proof -
  have nb: "\<not> boot_option key" if "key \<in> {''PK'', ''KEK'', ''db'', ''dbx''}" for key
    using that by (elim insertE emptyE) (simp_all add: boot_option_def)
  have req: "has_required (boot_entries store 28 xs) key = has_required xs key" if "key \<in> {''PK'', ''KEK'', ''db'', ''dbx''}" for store xs key
    by (rule has_required_others [OF boot_entries_others nb [OF that]])
  have "vars' = vars \<or> (\<exists>store. (case json_get vars ''variables'' of
      JArr xs \<Rightarrow> json_set ''variables'' (JArr (boot_entries store 28 xs)) vars | v \<Rightarrow> json_set ''variables'' v vars) = Some vars')"
    using assms unfolding migrate_boot_options_def by (simp split: option.splits) blast
  then show ?thesis
  proof
    assume "vars' = vars"
    then show ?thesis by simp
  next
    assume "\<exists>store. (case json_get vars ''variables'' of
      JArr xs \<Rightarrow> json_set ''variables'' (JArr (boot_entries store 28 xs)) vars | v \<Rightarrow> json_set ''variables'' v vars) = Some vars'"
    then obtain store v where v: "json_set ''variables'' v vars = Some vars'"
      "\<And>xs. json_get vars ''variables'' = JArr xs \<Longrightarrow> v = JArr (boot_entries store 28 xs)"
      by (cases "json_get vars ''variables''") (simp_all, blast+)
    note get = json_get_set [OF v(1)]
    have "\<exists>xs'. json_get vars' ''variables'' = JArr xs' \<and> filter (\<lambda>v. \<not> names_boot_option v) xs' = filter (\<lambda>v. \<not> names_boot_option v) xs
        \<and> (\<forall>key \<in> {''PK'', ''KEK'', ''db'', ''dbx''}. has_required xs' key = has_required xs key)"
      if "json_get vars ''variables'' = JArr xs" for xs
      using get v(2) [OF that] boot_entries_others [of store 28 xs] req [of _ store xs] by simp
    then show ?thesis using get by simp
  qed
qed

lemma check_vars_Ok:
  assumes "check_vars uuid_ok vars names used = Ok n"
  shows "\<exists>keys. map (\<lambda>v. (case as_str (json_get v ''guid'') of Some g \<Rightarrow> map to_ascii_lowercase g | None \<Rightarrow> [],
      case as_str (json_get v ''name'') of Some m \<Rightarrow> m | None \<Rightarrow> [])) vars = keys \<and> distinct keys \<and> set keys \<inter> set names = {}
    \<and> used + 64 * length vars \<le> n
    \<and> (\<forall>v \<in> set vars. \<exists>d. json_get v ''data'' = JStr d \<and> list_all is_ascii_hexdigit d \<and> even (length d))"
  using assms
proof (induction vars arbitrary: names used)
  case Nil
  then show ?case by simp
next
  case (Cons v vars)
  from Cons.prems obtain key m where c: "check_var uuid_ok v names = Ok (key, m)" "check_vars uuid_ok vars (key # names) (used + m) = Ok n"
    by auto
  from c(1) obtain name guid data where p: "json_get v ''name'' = JStr name" "json_get v ''guid'' = JStr guid" "json_get v ''data'' = JStr data"
    "key = (map to_ascii_lowercase guid, name)" "key \<notin> set names" "m = length data div 2 + length name * 2 + 64"
    "list_all is_ascii_hexdigit data" "length data mod 2 = 0"
    unfolding check_var_def by (auto split: if_splits)
  from Cons.IH [OF c(2)] p show ?case by auto
qed


lemma check_required_keys_Ok: "check_required_keys vars ks = Ok () \<longleftrightarrow> (\<forall>k \<in> set ks. has_required vars k)"
  by (induction ks) auto

text \<open>
  A firmware state is accepted only with the four key databases of Secure Boot in it, without two variables of
  the same name and vendor, and within the size that the firmware reserves.
\<close>

theorem accepted_vars_secure:
  assumes "validate_vars from_slice uuid_ok bs = Ok ()"
  shows "\<exists>v xs. from_slice bs = Ok v \<and> length bs \<le> MAX_VARS \<and> json_get v ''variables'' = JArr xs
    \<and> has_required xs ''PK'' \<and> has_required xs ''KEK'' \<and> has_required xs ''db'' \<and> has_required xs ''dbx''
    \<and> distinct (map (\<lambda>v. (case as_str (json_get v ''guid'') of Some g \<Rightarrow> map to_ascii_lowercase g | None \<Rightarrow> [],
        case as_str (json_get v ''name'') of Some m \<Rightarrow> m | None \<Rightarrow> [])) xs)
    \<and> 64 * length xs \<le> 256 * 1024"
proof -
  from assms obtain v xs n where v: "length bs \<le> MAX_VARS" "from_slice bs = Ok v" "json_get v ''variables'' = JArr xs"
    "check_vars uuid_ok xs [] 0 = Ok n" "n \<le> 256 * 1024" "check_required_keys xs [''PK'', ''KEK'', ''db'', ''dbx''] = Ok ()"
    unfolding validate_vars_def by (auto split: if_splits)
  from v(6) have r: "has_required xs ''PK''" "has_required xs ''KEK''" "has_required xs ''db''" "has_required xs ''dbx''"
    unfolding check_required_keys_Ok by simp_all
  from check_vars_Ok [OF v(4)] v(1-3,5) r show ?thesis by auto
qed


section \<open>Starting a secure machine\<close>

text \<open>
  An environment's directory as far as its identity is concerned: the profile that \<open>vm-security.json\<close> names, the
  generations with their TPM state and firmware variables, and the flash file of an older machine. \<open>Err\<close> is a
  file that cannot be read or is refused.
\<close>

record Profile =
  pf_version :: u32
  pf_generation :: string
  pf_firmware_sha256 :: string

record security_state =
  ss_profile :: "(Profile option, string) result"
  ss_generations :: "(string \<times> (bytes option \<times> bytes option)) list"
  ss_legacy :: "(bytes, string) result option"

record security_host =
  sh_windows :: bool
  sh_runtime :: bool
  sh_firmware :: "(bytes, string) result"
  sh_retained :: "string \<Rightarrow> (bytes, string) result option"
  sh_template :: "(json, string) result"
  sh_create_dir :: "(unit, string) result"
  sh_write_vars :: "(unit, string) result"
  sh_tpm_init :: "(bytes, string) result"
  sh_activate :: "(unit, string) result"

definition eq_ignore_ascii_case :: "string \<Rightarrow> string \<Rightarrow> bool" where
  "eq_ignore_ascii_case a b \<longleftrightarrow> map to_ascii_lowercase a = map to_ascii_lowercase b"

text \<open>The image that a profile was measured with: the installed one, or one retained under its digest.\<close>

definition firmware :: "codecs \<Rightarrow> security_host \<Rightarrow> Profile \<Rightarrow> (unit, string) result" where
  "firmware cd h p =
     (let matches = (\<lambda>bs. eq_ignore_ascii_case (hex_encode (cd_sha256 cd bs)) (pf_firmware_sha256 p))
      in if \<not> valid_hash (pf_firmware_sha256 p) then Err ''Invalid VM firmware fingerprint''
         else result_bind (sh_firmware h) (\<lambda>bs.
           if matches bs then Ok ()
           else (case sh_retained h (pf_firmware_sha256 p) of
               None \<Rightarrow> Err ''The secure VM requires its original firmware version''
             | Some r \<Rightarrow> result_bind r (\<lambda>bs.
                 if matches bs then Ok () else Err ''The secure VM requires its original firmware version''))))"

text \<open>The identity that a profile names, as the bytes that a backup carries in Base64.\<close>

definition capture :: "codecs \<Rightarrow> security_state \<Rightarrow> ((bytes \<times> bytes) option, string) result" where
  "capture cd st =
     result_bind (ss_profile st) (\<lambda>p. case p of
         None \<Rightarrow> Ok None
       | Some p \<Rightarrow>
           (case map_of (ss_generations st) (pf_generation p) of
              Some (Some nv, Some vars) \<Rightarrow>
                if NV_SIZE < length nv \<or> MAX_VARS < length vars then Err ''VM security state is not a bounded regular file''
                else result_bind (validate_nv (cd_sha256 cd) nv) (\<lambda>_.
                  result_bind (validate_vars (cd_json cd) (cd_uuid cd) vars) (\<lambda>_. Ok (Some (nv, vars))))
            | Some _ \<Rightarrow> Err ''Read VM security state''
            | None \<Rightarrow> Err ''Missing VM security identity''))"

definition set_generation :: "string \<Rightarrow> bytes option \<times> bytes option \<Rightarrow> security_state \<Rightarrow> security_state" where
  "set_generation g v st = st\<lparr>ss_generations := (g, v) # ss_generations st\<rparr>"

text \<open>A new identity: every part of it is on disk before the profile names it. \<open>print\<close> is \<open>serde_json::to_vec\<close>.\<close>

definition new_identity :: "codecs \<Rightarrow> (json \<Rightarrow> bytes) \<Rightarrow> security_host \<Rightarrow> string \<Rightarrow> string \<Rightarrow> security_state
    \<Rightarrow> (unit, string) result \<times> security_state" where
  "new_identity cd print h fresh digest st =
     (case sh_create_dir h of
        Err e \<Rightarrow> (Err e, st)
      | Ok _ \<Rightarrow>
          (let st = set_generation fresh (None, None) st
           in case result_bind (sh_template h) (\<lambda>vars. case ss_legacy st of None \<Rightarrow> Ok vars
                  | Some r \<Rightarrow> result_bind r (\<lambda>flash. ok_or (migrate_boot_options vars flash) ''panic'')) of
                Err e \<Rightarrow> (Err e, st)
              | Ok vars \<Rightarrow>
                  (case result_bind (validate_vars (cd_json cd) (cd_uuid cd) (print vars)) (\<lambda>_. sh_write_vars h) of
                     Err e \<Rightarrow> (Err e, st)
                   | Ok _ \<Rightarrow>
                       (let st = set_generation fresh (None, Some (print vars)) st
                        in case sh_tpm_init h of
                             Err e \<Rightarrow> (Err e, st)
                           | Ok nv \<Rightarrow>
                               (let st = set_generation fresh (Some nv, Some (print vars)) st
                                in case result_bind (validate_nv (cd_sha256 cd) nv) (\<lambda>_. sh_activate h) of
                                     Err e \<Rightarrow> (Err e, st)
                                   | Ok _ \<Rightarrow> (Ok (), st\<lparr>ss_profile := Ok (Some \<lparr>pf_version = 1, pf_generation = fresh,
                                       pf_firmware_sha256 = digest\<rparr>)\<rparr>))))))"

definition prepare_required :: "codecs \<Rightarrow> (json \<Rightarrow> bytes) \<Rightarrow> security_host \<Rightarrow> string \<Rightarrow> bool \<Rightarrow> bool \<Rightarrow> security_state
    \<Rightarrow> (unit, string) result \<times> security_state" where
  "prepare_required cd print h fresh modern require_secure st =
     (case ss_profile st of
        Err e \<Rightarrow> (Err e, st)
      | Ok current \<Rightarrow>
          if current = None \<and> \<not> require_secure \<and> \<not> modern then (Ok (), st)
          else if \<not> sh_windows h then (Err ''Windows 10/11 secure VMs are not supported by this macOS/Linux package yet.'', st)
          else if \<not> sh_runtime h then (Err ''Windows VM security runtime is missing.'', st)
          else (case sh_firmware h of
              Err e \<Rightarrow> (Err e, st)
            | Ok bs \<Rightarrow>
                (case current of
                   Some p \<Rightarrow>
                     (result_bind (firmware cd h p) (\<lambda>_. result_bind (capture cd st) (\<lambda>c.
                        if c = None then Err ''Missing VM security state'' else Ok ())), st)
                 | None \<Rightarrow> new_identity cd print h fresh (hex_encode (cd_sha256 cd bs)) st)))"

lemma new_identity_cases:
  assumes "new_identity cd print h fresh digest st = (r, st')" "fresh \<notin> fst ` set (ss_generations st)"
  shows "(\<forall>g. g \<noteq> fresh \<longrightarrow> map_of (ss_generations st') g = map_of (ss_generations st) g)
    \<and> (if r = Ok () then (\<exists>nv vars. ss_profile st' = Ok (Some \<lparr>pf_version = 1, pf_generation = fresh, pf_firmware_sha256 = digest\<rparr>)
          \<and> map_of (ss_generations st') fresh = Some (Some nv, Some vars)
          \<and> validate_nv (cd_sha256 cd) nv = Ok () \<and> validate_vars (cd_json cd) (cd_uuid cd) vars = Ok ())
       else ss_profile st' = ss_profile st)"
  using assms(1) unfolding new_identity_def Let_def
  by (auto simp: set_generation_def split: result.splits)

lemma validated_bounds:
  "validate_nv sha256 nv = Ok () \<Longrightarrow> length nv = NV_SIZE"
  "validate_vars from_slice uuid_ok vars = Ok () \<Longrightarrow> length vars \<le> MAX_VARS"
  by (simp_all add: validate_nv_def validate_vars_def split: if_splits)

text \<open>
  C19. An identity is never reset silently: preparing a machine that has a profile changes nothing, and succeeds only
  if the measured firmware and the whole identity are there and valid; a machine without one gets a new identity
  only when it must have one, complete and valid before its profile names it; a failure leaves the profile as it
  was, and no preparation touches the generations that exist.
\<close>

theorem identity_never_reset:
  assumes p: "prepare_required cd print h fresh modern require_secure st = (r, st')"
    and fresh: "fresh \<notin> fst ` set (ss_generations st)"
  shows "(\<forall>g. g \<noteq> fresh \<longrightarrow> map_of (ss_generations st') g = map_of (ss_generations st) g)
    \<and> (r \<noteq> Ok () \<longrightarrow> ss_profile st' = ss_profile st)
    \<and> (\<forall>pf. ss_profile st = Ok (Some pf) \<longrightarrow> st' = st \<and> (r = Ok () \<longrightarrow> firmware cd h pf = Ok () \<and> (\<exists>i. capture cd st = Ok (Some i))))
    \<and> (ss_profile st = Ok None \<longrightarrow> r = Ok () \<longrightarrow>
        (if require_secure \<or> modern then \<exists>i. capture cd st' = Ok (Some i) else st' = st))"
proof (cases "ss_profile st = Ok None \<and> (require_secure \<or> modern) \<and> sh_windows h \<and> sh_runtime h \<and> is_ok (sh_firmware h)")
  case True
  then obtain bs where b: "sh_firmware h = Ok bs" by (auto simp: is_ok_iff)
  have n: "new_identity cd print h fresh (hex_encode (cd_sha256 cd bs)) st = (r, st')"
    using p True b unfolding prepare_required_def by auto
  note c = new_identity_cases [OF n fresh]
  have "\<exists>i. capture cd st' = Ok (Some i)" if "r = Ok ()"
  proof -
    from c that obtain nv vars where i: "ss_profile st' = Ok (Some \<lparr>pf_version = 1, pf_generation = fresh, pf_firmware_sha256 = hex_encode (cd_sha256 cd bs)\<rparr>)"
      "map_of (ss_generations st') fresh = Some (Some nv, Some vars)"
      "validate_nv (cd_sha256 cd) nv = Ok ()" "validate_vars (cd_json cd) (cd_uuid cd) vars = Ok ()" by auto
    then show ?thesis using validated_bounds(1) [OF i(3)] validated_bounds(2) [OF i(4)] by (simp add: capture_def)
  qed
  then show ?thesis using c True by auto
next
  case False
  have "st' = st" using p False unfolding prepare_required_def
    by (simp add: is_ok_iff split: result.splits option.splits if_splits)
  moreover have "firmware cd h pf = Ok () \<and> (\<exists>i. capture cd st = Ok (Some i))" if "ss_profile st = Ok (Some pf)" "r = Ok ()" for pf
    using p that unfolding prepare_required_def by (auto split: result.splits if_splits)
  moreover have "\<not> (require_secure \<or> modern)" if "ss_profile st = Ok None" "r = Ok ()"
    using p that False unfolding prepare_required_def by (auto simp: is_ok_iff split: result.splits if_splits)
  ultimately show ?thesis by auto
qed

section \<open>Examples\<close>

definition example_variable :: "string \<Rightarrow> string \<Rightarrow> json" where
  "example_variable name guid = JObj [(''attr'', json_int 7), (''data'', JStr ''00''), (''guid'', JStr guid), (''name'', JStr name)]"

definition example_variables :: "json list" where
  "example_variables = [example_variable ''PK'' GLOBAL_GUID, example_variable ''KEK'' GLOBAL_GUID,
     example_variable ''db'' SECURITY_GUID, example_variable ''dbx'' SECURITY_GUID]"

definition example_vars :: json where
  "example_vars = JObj [(''variables'', JArr example_variables), (''version'', json_int 2)]"

definition example_nv :: bytes where
  "example_nv = ascii ''ODTPM001'' @ le_digits 8 1 @ le_digits 8 16384 @ replicate 8 0 @ replicate 32 0 @ replicate 16384 0 @ replicate 16448 0"

definition example_identity :: Backup where
  "example_identity = \<lparr>bk_version = 1, bk_firmware_sha256 = replicate 64 (CHR ''a''), bk_nv = ''n'', bk_variables = ''v''\<rparr>"

definition example_codecs :: codecs where
  "example_codecs = \<lparr>cd_sha256 = (\<lambda>_. replicate 32 0), cd_base64 = (\<lambda>s. Ok (if s = ''n'' then example_nv else [])),
     cd_json = (\<lambda>_. Ok example_vars), cd_uuid = (\<lambda>_. True), cd_decode = (\<lambda>_. Ok example_identity), cd_encode = (\<lambda>_. Ok [1, 2, 3])\<rparr>"

definition example_image :: bytes where
  "example_image = ascii ''QFI'' @ [0xfb] @ be_digits 4 3 @ replicate 12 0 @ be_digits 4 9 @ replicate 76 0 @ be_digits 4 104 @ replicate 408 0"

definition example_flash :: bytes where
  "example_flash = AUTH_STORE @ le_digits 4 110 @ replicate 8 0 @ [0xaa, 0x55, 0x3f, 0] @ replicate 32 0 @ le_digits 4 18 @ le_digits 4 2
     @ GLOBAL_BYTES @ [0x42, 0, 0x6f, 0, 0x6f, 0, 0x74, 0, 0x30, 0, 0x30, 0, 0x30, 0, 0x31, 0, 0, 0] @ [0, 0] @ [1, 2]"

lemma example_variable_get [simp]:
  "json_get (example_variable name guid) ''name'' = JStr name" "json_get (example_variable name guid) ''guid'' = JStr guid"
  "json_get (example_variable name guid) ''data'' = JStr ''00''" "json_get (example_variable name guid) ''attr'' = json_int 7"
  by (simp_all add: example_variable_def)

lemma example_vars_accepted: "validate_vars (\<lambda>_. Ok example_vars) (\<lambda>_. True) [] = Ok ()"
proof -
  have get: "json_get example_vars ''version'' = json_int 2" "json_get example_vars ''variables'' = JArr example_variables"
    by (simp_all add: example_vars_def)
  have "check_vars (\<lambda>_. True) example_variables [] 0 = Ok 280"
    by (simp add: example_variables_def check_var_def json_int_def is_ascii_hexdigit_def is_digit_def GLOBAL_GUID_def SECURITY_GUID_def)
  moreover have "check_required_keys example_variables [''PK'', ''KEK'', ''db'', ''dbx''] = Ok ()"
    by (simp add: example_variables_def has_required_def required_guid_def)
  ultimately show ?thesis by (simp add: validate_vars_def get json_int_def)
qed

theorem accepted_vars_secure_witness:
  "validate_vars (\<lambda>_. Ok example_vars) (\<lambda>_. True) [] = Ok () \<and> has_required example_variables ''PK'' \<and> has_required example_variables ''dbx''"
proof -
  have "json_get example_vars ''variables'' = JArr example_variables" by (simp add: example_vars_def)
  with accepted_vars_secure [OF example_vars_accepted] example_vars_accepted show ?thesis by auto
qed


lemma example_identity_valid: "\<exists>x. backup_validate example_codecs example_identity = Ok x"
proof -
  have "nv_slot_ok (\<lambda>_. replicate 32 0) (take 16448 example_nv)"
    using le_value_digits [of 8 1] le_value_digits [of 8 16384]
    by (simp add: nv_slot_ok_def example_nv_def subslice_def)
  then have "validate_nv (\<lambda>_. replicate 32 0) example_nv = Ok ()"
    by (simp add: validate_nv_def NV_SIZE_def) (simp add: example_nv_def)
  moreover have "valid_hash (replicate 64 (CHR ''a''))" by (auto simp: valid_hash_def list_all_iff is_ascii_hexdigit_def)
  ultimately show ?thesis
    by (simp add: backup_validate_def example_codecs_def example_identity_def NV_SIZE_def MAX_VARS_def example_vars_accepted)
qed

lemma example_image_words: "be_word example_image 4 = 3" "be_word example_image 20 = 9" "be_word example_image 100 = 104"
  "be_value (subslice example_image 8 16) = 0" "be_value (subslice example_image 72 80) = 0" "length example_image = 512"
  using be_value_digits [of 4 3] be_value_digits [of 4 9] be_value_digits [of 4 104] be_value_zeros [of 8]
  by (simp_all add: example_image_def subslice_def)

lemma example_image_extensions: "extensions example_codecs example_image = Ok (example_image, 104, None)"
proof -
  have sub: "subslice (take 104 example_image) x y = subslice example_image x y" if "y \<le> 104" for x y
    using that by (intro subslice_agree [of 104]) simp_all
  have "extension_area (take 104 example_image) = Ok (104, 512)"
    using example_image_words by (simp add: extension_area_def sub Let_def) (simp add: example_image_def)
  moreover have "extension_loop example_codecs example_image 104 None = Ok (104, None)"
  proof -
    have "be_word example_image 104 = 0" "be_value (subslice example_image 108 112) = 0"
      using be_value_zeros [of 4] by (simp_all add: example_image_def subslice_def)
    then show ?thesis using example_image_words(6) by (subst extension_loop_eq) (simp add: Let_def)
  qed
  ultimately show ?thesis using example_image_words(6) by (simp add: extensions_def)
qed

theorem embedded_identity_restored_witness:
  "\<exists>disk. embed_backup example_codecs example_image example_identity = Ok disk
     \<and> vm_read_backup example_codecs disk = Ok (Some example_identity)"
proof -
  obtain x where v: "backup_validate example_codecs example_identity = Ok x" using example_identity_valid ..
  have "subslice example_image 8 20 = replicate 12 0" "\<not> list_ex (\<lambda>n. n \<noteq> 0) (subslice example_image 104 128)"
    by (simp_all add: example_image_def subslice_def list_ex_iff)
  then obtain disk where e: "embed_backup example_codecs example_image example_identity = Ok disk"
    using v example_image_extensions example_image_words(6)
    by (simp add: embed_backup_def example_codecs_def round8_def MAX_BACKUP_def Let_def)
  have "\<not> external_data example_image" using example_image_words by (simp add: external_data_def)
  moreover have "cd_decode example_codecs data = Ok example_identity" for data by (simp add: example_codecs_def)
  ultimately show ?thesis using embedded_identity_restored [OF e] e by blast
qed

lemma example_flash_migrated:
  "migrate_boot_options example_vars example_flash
     = Some (JObj [(''variables'', JArr (example_variables @ [boot_variable ''Boot0001'' [1, 2]])), (''version'', json_int 2)])"
proof -
  have l: "length example_flash = 110" by (simp add: example_flash_def AUTH_STORE_def GLOBAL_BYTES_def)
  have entry: "subslice example_flash 28 88 = [0xaa, 0x55, 0x3f, 0] @ replicate 32 0 @ le_digits 4 18 @ le_digits 4 2 @ GLOBAL_BYTES"
    by (simp add: example_flash_def AUTH_STORE_def GLOBAL_BYTES_def subslice_def)
  have fields: "le_value (subslice (subslice example_flash 28 88) 36 40) = 18" "le_value (subslice (subslice example_flash 28 88) 40 44) = 2"
    "subslice (subslice example_flash 28 88) 44 60 = GLOBAL_BYTES" "subslice example_flash 28 88 ! 2 = 0x3f"
    "take 2 (subslice example_flash 28 88) = [0xaa, 0x55]"
    unfolding entry using le_value_digits [of 4 18] le_value_digits [of 4 2]
    by (simp_all add: subslice_def GLOBAL_BYTES_def)
  have name: "trim_end_matches (CHR 0x00) (from_utf16_lossy (subslice example_flash 88 106)) = ''Boot0001''"
  proof -
    have "subslice example_flash 88 106 = [0x42, 0, 0x6f, 0, 0x6f, 0, 0x74, 0, 0x30, 0, 0x30, 0, 0x30, 0, 0x31, 0, 0, 0]"
      by (simp add: example_flash_def AUTH_STORE_def GLOBAL_BYTES_def subslice_def)
    moreover have "trim_end_matches (CHR 0x00) (from_utf16_lossy [0x42, 0, 0x6f, 0, 0x6f, 0, 0x74, 0, 0x30, 0, 0x30, 0, 0x30, 0, 0x31, 0, 0, 0])
        = ''Boot0001''"
      by (simp add: from_utf16_lossy_def utf8_scalar_def trim_end_matches_def char_of_def bit_numeral_rec bit_0)
    ultimately show ?thesis by simp
  qed
  have data: "subslice example_flash 108 110 = [1, 2]"
    by (simp add: example_flash_def AUTH_STORE_def GLOBAL_BYTES_def subslice_def)
  have boot: "boot_option ''Boot0001''" by (simp add: boot_option_def is_ascii_hexdigit_def is_digit_def)
  have fresh: "filter (\<lambda>v. json_get v ''name'' \<noteq> JStr ''Boot0001'') example_variables = example_variables"
    by (simp add: example_variables_def)
  have "add_boot_option (subslice example_flash 28 88) (subslice example_flash 88 106) [1, 2] example_variables
      = example_variables @ [boot_variable ''Boot0001'' [1, 2]]"
    using fields name boot fresh by (simp add: add_boot_option_def)
  moreover have "boot_entries example_flash 112 xs = xs" for xs by (subst boot_entries.simps) (simp add: get_range_def l)
  ultimately have "boot_entries example_flash 28 example_variables = example_variables @ [boot_variable ''Boot0001'' [1, 2]]"
    using fields data l by (subst boot_entries.simps) (simp add: get_range_def round4_def)
  moreover have "position_window AUTH_STORE example_flash = Some 0" by (simp add: example_flash_def AUTH_STORE_def)
  moreover have "le_value (subslice (subslice example_flash 0 28) 16 20) = 110"
    using le_value_digits [of 4 110] by (simp add: example_flash_def AUTH_STORE_def subslice_def)
  moreover have "subslice example_flash 0 110 = example_flash" by (simp add: l subslice_def)
  ultimately show ?thesis by (simp add: migrate_boot_options_def example_vars_def json_set_def get_range_def l)
qed

theorem boot_migration_keeps_keys_witness:
  "\<exists>vars' xs'. migrate_boot_options example_vars example_flash = Some vars' \<and> json_get vars' ''variables'' = JArr xs'
     \<and> length xs' = 5 \<and> has_required xs' ''PK''"
proof -
  have "json_get example_vars ''variables'' = JArr example_variables" by (simp add: example_vars_def)
  moreover have "has_required example_variables ''PK''" by (simp add: example_variables_def has_required_def required_guid_def)
  moreover have "length example_variables = 4" by (simp add: example_variables_def)
  ultimately show ?thesis using boot_migration_keeps_keys [OF example_flash_migrated] example_flash_migrated by simp
qed


definition example_security_host :: security_host where
  "example_security_host = \<lparr>sh_windows = True, sh_runtime = True, sh_firmware = Ok [1], sh_retained = (\<lambda>_. None), sh_template = Ok example_vars,
     sh_create_dir = Ok (), sh_write_vars = Ok (), sh_tpm_init = Ok example_nv, sh_activate = Ok ()\<rparr>"

definition example_unsecured :: security_state where
  "example_unsecured = \<lparr>ss_profile = Ok None, ss_generations = [], ss_legacy = None\<rparr>"

theorem identity_never_reset_witness:
  "\<exists>st' i. prepare_required example_codecs (\<lambda>_. []) example_security_host ''g'' True False example_unsecured = (Ok (), st')
     \<and> capture example_codecs st' = Ok (Some i)"
proof -
  have nv: "validate_nv (\<lambda>_. replicate 32 0) example_nv = Ok ()"
    using example_identity_valid by (auto simp: backup_validate_def example_codecs_def example_identity_def split: if_splits)
  obtain st' where p: "prepare_required example_codecs (\<lambda>_. []) example_security_host ''g'' True False example_unsecured = (Ok (), st')"
    by (simp add: prepare_required_def new_identity_def example_security_host_def example_unsecured_def example_codecs_def
        set_generation_def example_vars_accepted nv)
  have "''g'' \<notin> fst ` set (ss_generations example_unsecured)" "ss_profile example_unsecured = Ok None"
    by (simp_all add: example_unsecured_def)
  with identity_never_reset [OF p] p show ?thesis by auto
qed

end
