(* ===== verification/Local_Backup.thy ===== *)
theory Local_Backup
  imports Computer_Branch Vm_Security Scheduler
begin

text \<open>
  Portable backups of one environment (\<open>local_backup.rs\<close>): a folder with the environment's disk and a manifest.
  Writing one copies a disk whose size and checksum are known; reading one trusts nothing but the checksum: it
  copies the disk to the application's own folder, checks or retags it, and strips the environment of the identifiers,
  paths and endpoints it had (the name of its image, \<open>env_runtime\<close>, stays). Files are those of \<open>File_Model\<close>. SHA-256, JSON, the tar format and
  Unicode lower case are parameters, as are fresh identifiers and the clock.
\<close>

section \<open>Calls on files\<close>

text \<open>\<open>create_new\<close> refuses an existing name; \<open>write_all\<close> on an open file adds to its end.\<close>

definition fs_create_new :: "path \<Rightarrow> unit io" where
  "fs_create_new p = io_call (\<lambda>f. if f p \<noteq> None then None else Some (f(p \<mapsto> File []))) untouched"

definition fs_append :: "path \<Rightarrow> bytes \<Rightarrow> unit io" where
  "fs_append p bs = io_call
     (\<lambda>f. case f p of Some (File old) \<Rightarrow> Some (f(p \<mapsto> File (old @ bs))) | _ \<Rightarrow> None) (torn p)"

text \<open>A new directory, and its removal: \<open>names\<close> are the entries this program may have left in it.\<close>

definition fs_create_dir :: "path \<Rightarrow> unit io" where
  "fs_create_dir p = io_call (\<lambda>f. if f p \<noteq> None then None else Some (f(p \<mapsto> Other))) untouched"

definition fs_remove_dir :: "path \<Rightarrow> path list \<Rightarrow> unit io" where
  "fs_remove_dir p names = io_call
     (\<lambda>f. if f p = Some Other \<and> list_all (\<lambda>n. f n = None) names then Some (f(p := None)) else None) untouched"

text \<open>A read returns at most \<open>cap\<close> bytes from an offset, how many is up to the system; none only at the end.\<close>

definition fs_read_some :: "(nat \<Rightarrow> nat) \<Rightarrow> path \<Rightarrow> nat \<Rightarrow> nat \<Rightarrow> bytes io" where
  "fs_read_some chunk p cap offset =
     io_bind (fs_read p) (\<lambda>bs. io_return (take (max 1 (min cap (chunk offset))) (drop offset bs)))"

text \<open>The result of a call kept as a value, and put back.\<close>

definition io_result :: "'a io \<Rightarrow> ('a, failure) result io" where
  "io_result m w = (case m w of (Done x, w') \<Rightarrow> (Done (Ok x), w') | (Failed e, w') \<Rightarrow> (Done (Err e), w')
                              | (Crashed, w') \<Rightarrow> (Crashed, w'))"

fun io_lift :: "('a, failure) result \<Rightarrow> 'a io" where
  "io_lift (Ok x) w = (Done x, w)"
| "io_lift (Err e) w = (Failed e, w)"

section \<open>The manifest\<close>

definition MANIFEST :: string where
  "MANIFEST = ''backup.yougori''"

definition PAYLOAD :: string where
  "PAYLOAD = ''disk.data''"

definition MAX_MANIFEST :: nat where
  "MAX_MANIFEST = 1024 * 1024"

record Manifest =
  mf_version :: u32
  mf_environment :: Environment
  mf_snapshot :: Snapshot
  mf_size :: u64
  mf_sha256 :: string

definition supported :: "Environment \<Rightarrow> (unit, string) result" where
  "supported e =
     (let valid = env_kind e = Container \<and> env_provider e \<in> {Some OpenDockOci, Some OpenDockCuda}
            \<or> env_kind e = FullVm \<and> env_provider e = Some Qemu
            \<or> env_kind e = MicroVm \<and> env_provider e = Some Qemu \<and> env_runtime e = ''builtin:alpine''
      in if \<not> valid then Err ''Portable backups support managed containers, full VMs and built-in Alpine microVMs. Native branches and custom microVMs are not supported yet.''
         else validate_policy (env_resource_policy e))"

definition regular_file :: "path \<Rightarrow> unit io" where
  "regular_file p = io_then io_try (\<lambda>w. case w_files w p of
       None \<Rightarrow> (Failed IoError, w)
     | Some Other \<Rightarrow> io_fail ''Backup files must be regular files, not links or directories'' w
     | Some (File _) \<Rightarrow> io_try w)"

definition standalone_vm :: "bytes \<Rightarrow> (unit, string) result" where
  "standalone_vm bs =
     (if length bs < 104 then Err ''Invalid VM backup header''
      else
        (let header = take 104 bs;
             version = be_word header 4;
             backing_offset = be_value (subslice header 8 16);
             backing_size = be_word header 16;
             encryption = be_word header 32;
             features = be_value (subslice header 72 80)
         in if take 4 header \<noteq> ascii ''QFI'' @ [0xfb] \<or> version \<notin> {2, 3} \<or> backing_offset \<noteq> 0 \<or> backing_size \<noteq> 0
               \<or> encryption \<noteq> 0 \<or> version = 3 \<and> features div 4 mod 2 = 1
            then Err ''VM backups must be standalone, unencrypted QCOW2 disks without backing files or external data files''
            else Ok ()))"

definition validate_standalone_vm :: "path \<Rightarrow> unit io" where
  "validate_standalone_vm p =
     io_then (regular_file p) (io_bind (fs_read p) (\<lambda>bs. io_of (standalone_vm bs)))"

definition backup_has_vm_security :: "codecs \<Rightarrow> path \<Rightarrow> bool io" where
  "backup_has_vm_security cd p =
     io_bind (fs_read p) (\<lambda>bs. io_of (result_bind (vm_read_backup cd bs) (\<lambda>b. Ok (b \<noteq> None))))"

section \<open>Container archives\<close>

datatype entry_kind = RegularEntry | DirectoryEntry | SpecialEntry

record tar_header =
  th_kind :: entry_kind
  th_size :: nat
  th_rest :: bytes

text \<open>The path is an error when the archive's is malformed, and nothing when it is not UTF-8.\<close>

record tar_entry =
  te_path :: "(string option, string) result"
  te_header :: tar_header
  te_size :: nat
  te_data :: bytes

record archive_codec =
  ac_entries :: "bytes \<Rightarrow> (tar_entry, string) result list"
  ac_record :: "tar_header \<Rightarrow> bytes \<Rightarrow> bytes"
  ac_trailer :: bytes
  ac_checksum :: "tar_header \<Rightarrow> tar_header"
  ac_parse :: "bytes \<Rightarrow> (json, string) result"
  ac_print :: "json \<Rightarrow> bytes"
  ac_lowercase :: "string \<Rightarrow> string"

text \<open>\<open>Path::components\<close> of a path without backslashes and colons: empty parts and dots disappear.\<close>

definition container_archive_path :: "string option \<Rightarrow> (string, string) result" where
  "container_archive_path path =
     result_bind (ok_or path ''Container backup contains a non-UTF-8 archive path'') (\<lambda>v.
       let parts = split_char (CHR ''/'') v
       in if list_ex (\<lambda>c. c \<in> {CHR 0x5C, CHR '':'', CHR 0x00}) v \<or> starts_with ''/'' v \<or> ''..'' \<in> set parts
          then Err ''Container backup contains an unsafe archive path''
          else Ok (join ''/'' (filter (\<lambda>s. s \<noteq> [] \<and> s \<noteq> ''.'') parts)))"

text \<open>Every string of the document that is the old tag or the old identifier is replaced; whether a tag was.\<close>

fun retag_json :: "string \<Rightarrow> string \<Rightarrow> string \<Rightarrow> string \<Rightarrow> json \<Rightarrow> json" where
  "retag_json old new old_id new_id (JStr s) =
     (if s = old then JStr new else if s = old_id then JStr new_id else JStr s)"
| "retag_json old new old_id new_id (JArr xs) = JArr (map (retag_json old new old_id new_id) xs)"
| "retag_json old new old_id new_id (JObj m) = JObj (map (\<lambda>(k, v). (k, retag_json old new old_id new_id v)) m)"
| "retag_json old new old_id new_id v = v"

fun has_tag :: "string \<Rightarrow> json \<Rightarrow> bool" where
  "has_tag old (JStr s) = (s = old)"
| "has_tag old (JArr xs) = list_ex (has_tag old) xs"
| "has_tag old (JObj m) = list_ex (\<lambda>(k, v). has_tag old v) m"
| "has_tag old v = False"

definition snapshot_tag :: "archive_codec \<Rightarrow> string \<Rightarrow> string" where
  "snapshot_tag ac i = ''opendock.local/snapshots:'' @ ac_lowercase ac i"

text \<open>One entry of the archive: the metadata seen, whether the tag was in it, and what is written.\<close>

definition retag_entry :: "archive_codec \<Rightarrow> string \<Rightarrow> string \<Rightarrow> string list \<Rightarrow> tar_entry
    \<Rightarrow> (string list \<times> bool \<times> tar_header \<times> bytes, string) result" where
  "retag_entry ac old_id new_id seen en =
     result_bind (te_path en) (\<lambda>p. result_bind (container_archive_path p) (\<lambda>path.
       let header = te_header en in
       if th_kind header \<notin> {RegularEntry, DirectoryEntry}
       then Err ''Container backups may only contain regular metadata, layer files and directories''
       else if path = ''index.json'' \<or> path = ''manifest.json'' then
         (if path \<in> set seen \<or> MAX_MANIFEST < te_size en \<or> th_kind header \<noteq> RegularEntry
          then Err ''Invalid container backup metadata''
          else result_bind (ac_parse ac (te_data en)) (\<lambda>json.
            let old = snapshot_tag ac old_id; data = ac_print ac (retag_json old (snapshot_tag ac new_id) old_id new_id json)
            in Ok (path # seen, has_tag old json, ac_checksum ac (header\<lparr>th_size := length data\<rparr>), data)))
       else Ok (seen, False, header, te_data en)))"

fun retag_entries :: "archive_codec \<Rightarrow> path \<Rightarrow> string \<Rightarrow> string \<Rightarrow> string list \<Rightarrow> bool
    \<Rightarrow> (tar_entry, string) result list \<Rightarrow> bool io" where
  "retag_entries ac destination old_id new_id seen found [] = io_return found"
| "retag_entries ac destination old_id new_id seen found (Err e # es) = io_fail e"
| "retag_entries ac destination old_id new_id seen found (Ok en # es) =
     io_then io_try
       (case retag_entry ac old_id new_id seen en of
          Err e \<Rightarrow> io_fail e
        | Ok (seen', tagged, header, data) \<Rightarrow>
            io_then (fs_append destination (ac_record ac header data))
              (retag_entries ac destination old_id new_id seen' (found \<or> tagged) es))"

definition retag_container :: "archive_codec \<Rightarrow> (bytes \<Rightarrow> bytes) \<Rightarrow> path \<Rightarrow> path \<Rightarrow> string \<Rightarrow> string \<Rightarrow> (u64 \<times> string) io" where
  "retag_container ac sha256 source destination old_id new_id =
     io_then (regular_file source) (io_then (fs_create_new destination)
       (io_on_error
         (io_bind (fs_read source) (\<lambda>bs.
          io_bind (retag_entries ac destination old_id new_id [] False (ac_entries ac bs)) (\<lambda>found.
            if \<not> found then io_fail ''Container backup is missing its original snapshot tag''
            else io_then (fs_append destination (ac_trailer ac)) (io_then (fs_sync_all destination)
              (io_bind (fs_read destination) (\<lambda>out. io_return (of_nat (length out), hex_encode (sha256 out))))))))
         (io_ignore (fs_remove_file destination))))"

section \<open>Copying a disk\<close>

definition COPY_BUFFER :: nat where
  "COPY_BUFFER = 1024 * 1024"

text \<open>\<open>copied\<close> is what was hashed and written so far.\<close>

function copy_loop :: "(nat \<Rightarrow> nat) \<Rightarrow> path \<Rightarrow> path \<Rightarrow> nat \<Rightarrow> bytes \<Rightarrow> bytes io" where
  "copy_loop chunk source target expected copied =
     io_bind (fs_read_some chunk source COPY_BUFFER (length copied)) (\<lambda>got.
       if got = [] then io_return copied
       else if 2 ^ 64 \<le> length copied + length got then io_fail ''Backup is too large''
       else if expected < length copied + length got then io_fail ''Backup changed while it was being copied''
       else io_then (fs_append target got) (copy_loop chunk source target expected (copied @ got)))"
  by pat_completeness auto
termination
  by (relation "measure (\<lambda>(chunk, source, target, expected, copied). expected - length copied)") (auto simp flip: length_greater_0_conv)

declare copy_loop.simps [simp del]

definition copy_checked :: "(bytes \<Rightarrow> bytes) \<Rightarrow> (nat \<Rightarrow> nat) \<Rightarrow> path \<Rightarrow> path \<Rightarrow> u64 \<Rightarrow> string \<Rightarrow> unit io" where
  "copy_checked sha256 chunk source target expected checksum =
     io_then (regular_file source) (io_bind (fs_read source) (\<lambda>bs.
       if length bs \<noteq> unat expected then io_fail ''Backup size does not match its manifest''
       else io_then (fs_create_new target)
         (io_on_error
           (io_bind (copy_loop chunk source target (unat expected) []) (\<lambda>copied.
              if length copied \<noteq> unat expected \<or> hex_encode (sha256 copied) \<noteq> checksum
              then io_fail ''Backup checksum verification failed''
              else fs_sync_all target))
           (io_ignore (fs_remove_file target)))))"

definition write_backup :: "(bytes \<Rightarrow> bytes) \<Rightarrow> (nat \<Rightarrow> nat) \<Rightarrow> (Manifest \<Rightarrow> bytes option) \<Rightarrow> (path \<Rightarrow> (path, string) result)
    \<Rightarrow> string \<Rightarrow> path \<Rightarrow> Manifest \<Rightarrow> path \<Rightarrow> path io" where
  "write_backup sha256 chunk encode canonicalize_path fresh parent manifest artifact =
     io_bind (io_of (canonicalize_path parent)) (\<lambda>parent w.
       if w_files w parent \<noteq> Some Other then io_fail ''Choose a backup destination folder'' w
       else
         (let folder = parent @ ''/Yougori-backup-'' @ fresh;
              payload = folder @ ''/'' @ PAYLOAD; manifest_path = folder @ ''/'' @ MANIFEST
          in io_then (fs_create_dir folder)
            (io_on_error
              (io_then (copy_checked sha256 chunk artifact payload (mf_size manifest) (mf_sha256 manifest))
                (case encode manifest of
                   None \<Rightarrow> io_fail ''encode backup manifest''
                 | Some data \<Rightarrow>
                     if MAX_MANIFEST < length data then io_fail ''Backup metadata is too large''
                     else io_then (fs_create_new manifest_path) (io_then (fs_write_all manifest_path data)
                       (io_then (fs_sync_all manifest_path) (io_return manifest_path)))))
              (io_then (io_ignore (fs_remove_file manifest_path)) (io_then (io_ignore (fs_remove_file payload))
                (io_ignore (fs_remove_dir folder [payload, manifest_path]))))) w))"


section \<open>Reading a backup\<close>

text \<open>\<open>name.chars().take(n)\<close> of a string in UTF-8.\<close>

fun take_chars :: "nat \<Rightarrow> string \<Rightarrow> string" where
  "take_chars n [] = []"
| "take_chars n (c # s) =
     (if (of_char c :: nat) div 64 = 2 then c # take_chars n s
      else if n = 0 then [] else c # take_chars (n - 1) s)"

record BackupRestore =
  bre_environment :: Environment
  bre_snapshot :: Snapshot
  bre_connections :: "Connection list"
  bre_artifact_path :: path

text \<open>What is drawn anew for each import.\<close>

record import_ids =
  ii_artifact :: string
  ii_retagged :: string
  ii_snapshot :: string
  ii_environment :: string
  ii_now :: string

definition restored_environment :: "import_ids \<Rightarrow> Environment \<Rightarrow> Environment" where
  "restored_environment ids e =
     e\<lparr>env_id := ''env-'' @ ii_environment ids,
       env_name := take_chars 70 (env_name e) @ '' (restored)'',
       env_status := Stopped, env_runtime_id := None, env_runtime_path := None,
       env_console_endpoint := None, env_control_endpoint := None, env_sandbox_policy := None,
       env_branch_type := None, env_last_opened_at := None, env_created_at := ii_now ids\<rparr>"

definition restored_snapshot :: "import_ids \<Rightarrow> u64 \<Rightarrow> string \<Rightarrow> Snapshot \<Rightarrow> Snapshot" where
  "restored_snapshot ids n checksum s =
     s\<lparr>snap_id := ''snap-'' @ ii_snapshot ids, snap_environment_id := ''env-'' @ ii_environment ids,
       snap_environment_state := None, snap_connections := None, snap_artifact_path := None,
       snap_provider_snapshot_id := None, snap_checksum_sha256 := Some checksum, snap_artifact_size_bytes := Some n\<rparr>"

definition check_manifest :: "Manifest \<Rightarrow> (unit, string) result" where
  "check_manifest m =
     (if mf_version m \<notin> {1, 2} then Err ''Unsupported Yougori backup version''
      else result_bind (supported (mf_environment m)) (\<lambda>_.
        if mf_size m = 0 \<or> 2 * 1024 * 1024 * 1024 * 1024 < mf_size m \<or> \<not> valid_hash (mf_sha256 m)
        then Err ''Invalid backup size or checksum'' else Ok ()))"

definition check_disk :: "codecs \<Rightarrow> Manifest \<Rightarrow> path \<Rightarrow> unit io" where
  "check_disk cd m artifact =
     (if env_provider (mf_environment m) \<noteq> Some Qemu then io_return ()
      else io_on_error
        (io_then (validate_standalone_vm artifact)
          (if mf_version m \<noteq> 2 then io_return ()
           else io_bind (backup_has_vm_security cd artifact) (\<lambda>secure.
             if \<not> secure then io_fail ''This secure VM backup is missing its TPM and firmware state'' else io_return ())))
        (io_ignore (fs_remove_file artifact)))"

text \<open>The artifact under the new tag, with its size and checksum.\<close>

definition retag_artifact :: "archive_codec \<Rightarrow> (bytes \<Rightarrow> bytes) \<Rightarrow> path \<Rightarrow> import_ids \<Rightarrow> Manifest \<Rightarrow> path
    \<Rightarrow> (path \<times> u64 \<times> string) io" where
  "retag_artifact ac sha256 staging ids m artifact =
     (if \<not> (case env_provider (mf_environment m) of Some p \<Rightarrow> provider_is_container p | None \<Rightarrow> False)
      then io_return (artifact, mf_size m, mf_sha256 m)
      else
        (let retagged = staging @ ''/local-'' @ ii_retagged ids @ ''.data''
         in io_bind (io_result (retag_container ac sha256 artifact retagged (snap_id (mf_snapshot m)) (''snap-'' @ ii_snapshot ids)))
              (\<lambda>r. io_then (io_ignore (fs_remove_file artifact))
                (io_bind (io_lift r) (\<lambda>(n, checksum). io_return (retagged, n, checksum))))))"

text \<open>A manifest that names a regular file has a parent: only the root of the file system has none.\<close>

definition read_backup :: "archive_codec \<Rightarrow> codecs \<Rightarrow> (nat \<Rightarrow> nat) \<Rightarrow> (bytes \<Rightarrow> Manifest option) \<Rightarrow> path \<Rightarrow> import_ids
    \<Rightarrow> path \<Rightarrow> BackupRestore io" where
  "read_backup ac cd chunk decode staging ids p =
     io_then (regular_file p) (io_bind (fs_read p) (\<lambda>bs.
       if MAX_MANIFEST < length bs then io_fail ''Backup manifest is too large''
       else (case decode bs of
           None \<Rightarrow> io_fail ''Invalid Yougori backup''
         | Some m \<Rightarrow>
             io_bind (io_of (check_manifest m)) (\<lambda>_.
             let artifact = staging @ ''/local-'' @ ii_artifact ids @ ''.data''
             in io_then (copy_checked (cd_sha256 cd) chunk (with_file_name p PAYLOAD) artifact (mf_size m) (mf_sha256 m))
               (io_then (check_disk cd m artifact)
               (io_bind (retag_artifact ac (cd_sha256 cd) staging ids m artifact) (\<lambda>(artifact, n, checksum).
                  io_return \<lparr>bre_environment = restored_environment ids (mf_environment m),
                    bre_snapshot = restored_snapshot ids n checksum (mf_snapshot m),
                    bre_connections = [], bre_artifact_path = artifact\<rparr>)))))))"

section \<open>Exporting\<close>

text \<open>
  What the command asks of the runtime: a snapshot of the environment under an identifier, as a file with its size
  and checksum, and its removal afterwards. The state is the store's when the environment's lock was taken.
\<close>

record export_runtime =
  er_take :: "Environment \<Rightarrow> string \<Rightarrow> (path \<times> u64 \<times> string) io"
  er_remove :: "Environment \<Rightarrow> string \<Rightarrow> path \<Rightarrow> unit io"

definition local_snapshot :: "string \<Rightarrow> string \<Rightarrow> Environment \<Rightarrow> u64 \<Rightarrow> string \<Rightarrow> Snapshot" where
  "local_snapshot i now e n checksum =
     \<lparr>snap_id = i, snap_environment_id = env_id e, snap_name = ''Local backup'', snap_created_at = now,
      snap_size_gb = f_div (f_of_nat (unat n)) (Fin 1073741824), snap_delta_gb = f_div (f_of_nat (unat n)) (Fin 1073741824),
      snap_encrypted = False, snap_status = SnapReady, snap_provider_snapshot_id = None, snap_artifact_path = None,
      snap_artifact_size_bytes = Some n, snap_checksum_sha256 = Some checksum, snap_environment_state = None,
      snap_connections = None\<rparr>"

definition portable_environment :: "Environment \<Rightarrow> Environment" where
  "portable_environment e = e\<lparr>env_runtime_id := None, env_runtime_path := None, env_control_endpoint := None,
     env_console_endpoint := None, env_sandbox_policy := None\<rparr>"

definition ensure_complete :: "PlatformState \<Rightarrow> string \<Rightarrow> (unit, string) result" where
  "ensure_complete st i =
     (if list_ex (\<lambda>p. env_id (frc_environment p) = i) (pending_factory_resets st)
      then Err ''Finish the pending Factory reset before modifying or backing up this environment'' else Ok ())"

definition check_export :: "PlatformState \<Rightarrow> string \<Rightarrow> (Environment, string) result" where
  "check_export st i =
     result_bind (ensure_complete st i) (\<lambda>_.
     result_bind (ok_or (List.find (\<lambda>e. env_id e = i) (environments st)) ''Environment not found'') (\<lambda>e.
     result_bind (supported e) (\<lambda>_.
       if env_status e \<noteq> Stopped then Err ''Stop the environment before creating a consistent local backup''
       else if env_provider e = Some Qemu \<and> env_runtime_path e = None then Err ''Missing environment disk''
       else Ok e)))"

definition manifest_version :: "codecs \<Rightarrow> Environment \<Rightarrow> path \<Rightarrow> u32 io" where
  "manifest_version cd e p =
     (if env_provider e = Some Qemu
      then io_bind (backup_has_vm_security cd p) (\<lambda>secure. io_return (if secure then 2 else 1)) else io_return 1)"

definition export_backup :: "codecs \<Rightarrow> (nat \<Rightarrow> nat) \<Rightarrow> (Manifest \<Rightarrow> bytes option) \<Rightarrow> (path \<Rightarrow> (path, string) result) \<Rightarrow> export_runtime
    \<Rightarrow> string \<Rightarrow> string \<Rightarrow> string \<Rightarrow> PlatformState \<Rightarrow> string \<Rightarrow> path \<Rightarrow> path io" where
  "export_backup cd chunk encode canonicalize_path er fresh snapshot_uuid now st environment_id folder =
     io_bind (io_of (check_export st environment_id)) (\<lambda>e.
     let i = ''snap-'' @ snapshot_uuid
     in io_bind (er_take er e i) (\<lambda>(p, n, checksum).
        io_bind (manifest_version cd e p) (\<lambda>version.
        let m = \<lparr>mf_version = version, mf_environment = portable_environment e,
                 mf_snapshot = local_snapshot i now e n checksum, mf_size = n, mf_sha256 = checksum\<rparr>
        in io_bind (io_result (write_backup (cd_sha256 cd) chunk encode canonicalize_path fresh folder m p)) (\<lambda>r.
           io_bind (io_result (er_remove er e i p)) (\<lambda>cleanup.
             case (r, cleanup) of
               (Ok saved, Ok _) \<Rightarrow> io_return saved
             | (Ok saved, Err _) \<Rightarrow> io_fail (''Backup saved at '' @ saved @ '' but temporary snapshot cleanup failed'')
             | (Err e, _) \<Rightarrow> io_lift (Err e))))))"


section \<open>Which files a program changes\<close>

text \<open>However it ends, the program leaves every file outside \<open>ps\<close> as it was.\<close>

definition keeps :: "path set \<Rightarrow> 'a io \<Rightarrow> bool" where
  "keeps ps m \<longleftrightarrow> (\<forall>w. same_elsewhere ps (w_files w) (w_files (snd (m w))))"

named_theorems keeps_rules \<open>which files a program changes\<close>

lemma same_elsewhere_refl [simp]: "same_elsewhere ps f f"
  by (simp add: same_elsewhere_def)

lemma same_elsewhere_trans: "same_elsewhere ps f g \<Longrightarrow> same_elsewhere ps g h \<Longrightarrow> same_elsewhere ps f h"
  by (simp add: same_elsewhere_def)

lemma same_elsewhere_mono: "same_elsewhere ps f g \<Longrightarrow> ps \<subseteq> qs \<Longrightarrow> same_elsewhere qs f g"
  by (auto simp: same_elsewhere_def)

lemma keeps_mono: "keeps ps m \<Longrightarrow> ps \<subseteq> qs \<Longrightarrow> keeps qs m"
  by (auto simp: keeps_def intro: same_elsewhere_mono)

lemma keepsD: "keeps ps m \<Longrightarrow> m w = (r, w') \<Longrightarrow> same_elsewhere ps (w_files w) (w_files w')"
  by (metis keeps_def snd_conv)

lemma keeps_bind [keeps_rules]:
  assumes "keeps ps m" "\<And>x. keeps ps (k x)"
  shows "keeps ps (io_bind m k)"
  unfolding keeps_def
proof
  fix w
  obtain r w1 where m: "m w = (r, w1)" by fastforce
  have a: "same_elsewhere ps (w_files w) (w_files w1)" by (rule keepsD [OF assms(1) m])
  show "same_elsewhere ps (w_files w) (w_files (snd (io_bind m k w)))"
  proof (cases r)
    case (Done x)
    have "same_elsewhere ps (w_files w1) (w_files (snd (k x w1)))" using assms(2) [of x] by (simp add: keeps_def)
    with a show ?thesis by (simp add: io_bind_def m Done same_elsewhere_trans)
  qed (use a in \<open>simp_all add: io_bind_def m\<close>)
qed

lemma keeps_then [keeps_rules]: "keeps ps m \<Longrightarrow> keeps ps k \<Longrightarrow> keeps ps (io_then m k)"
  unfolding io_then_def by (rule keeps_bind)

lemma keeps_return [keeps_rules]: "keeps ps (io_return x)"
  by (simp add: keeps_def io_return_def)

lemma keeps_if [keeps_rules]: "(b \<Longrightarrow> keeps ps m) \<Longrightarrow> (\<not> b \<Longrightarrow> keeps ps k) \<Longrightarrow> keeps ps (if b then m else k)"
  by simp

lemma keeps_fail [keeps_rules]: "keeps ps (io_fail e)"
  by (simp add: keeps_def io_fail_def)

lemma keeps_decoded [keeps_rules]: "(\<And>x. keeps ps (k x)) \<Longrightarrow> keeps ps (case v of None \<Rightarrow> io_fail e | Some x \<Rightarrow> k x)"
  by (cases v) (simp_all add: keeps_fail)

lemma keeps_guard [keeps_rules]: "keeps ps m \<Longrightarrow> keeps ps (\<lambda>w. if b w then io_fail e w else m w)"
  by (simp add: keeps_def io_fail_def)

lemma keeps_of [keeps_rules]: "keeps ps (io_of r)"
  by (cases r) (simp_all add: keeps_def io_return_def io_fail_def)

lemma keeps_lift [keeps_rules]: "keeps ps (io_lift r)"
  by (cases r) (simp_all add: keeps_def)

lemma keeps_result [keeps_rules]: "keeps ps m \<Longrightarrow> keeps ps (io_result m)"
  by (simp add: keeps_def io_result_def split: prod.splits outcome.splits) (metis snd_conv)

lemma keeps_ignore [keeps_rules]: "keeps ps m \<Longrightarrow> keeps ps (io_ignore m)"
  by (simp add: keeps_def io_ignore_def split: prod.splits outcome.splits) (metis snd_conv)

lemma on_error_bind: "io_on_error m h = io_bind (io_result m) (\<lambda>r. case r of Ok x \<Rightarrow> io_return x | Err e \<Rightarrow> io_then h (io_lift (Err e)))"
  by (auto simp: io_on_error_def io_result_def io_bind_def io_then_def io_return_def fun_eq_iff split: prod.splits outcome.splits)

lemma keeps_on_error [keeps_rules]:
  assumes "keeps ps m" "keeps ps h"
  shows "keeps ps (io_on_error m h)"
  unfolding on_error_bind
proof (rule keeps_bind [OF keeps_result [OF assms(1)]])
  fix r :: "('a, failure) result"
  show "keeps ps (case r of Ok x \<Rightarrow> io_return x | Err e \<Rightarrow> io_then h (io_lift (Err e)))"
    by (cases r) (auto intro: keeps_rules assms(2))
qed

lemma keeps_call:
  assumes "\<And>f f'. effect f = Some f' \<Longrightarrow> same_elsewhere ps f f'" "\<And>f junk. same_elsewhere ps f (partial junk f)"
  shows "keeps ps (io_call effect partial)"
  using assms by (simp add: keeps_def io_call_def split: list.splits fault.splits option.splits)

lemma keeps_try [keeps_rules]: "keeps ps io_try"
  by (simp add: keeps_def io_try_def io_bind_def io_probe_def split: list.splits fault.splits)

lemma keeps_look: "(\<And>f. keeps ps (m f)) \<Longrightarrow> keeps ps (\<lambda>w. m (w_files w) w)"
  by (simp add: keeps_def)

lemma keeps_read [keeps_rules]: "keeps ps (fs_read p)"
  unfolding fs_read_def
  by (rule keeps_then [OF keeps_try]) (simp add: keeps_def split: option.splits fnode.splits)

lemma keeps_regular_file [keeps_rules]: "keeps ps (regular_file p)"
  unfolding regular_file_def
proof (rule keeps_then [OF keeps_try], unfold keeps_def, rule allI)
  fix w
  show "same_elsewhere ps (w_files w) (w_files (snd (case w_files w p of None \<Rightarrow> (Failed IoError, w)
     | Some Other \<Rightarrow> io_fail ''Backup files must be regular files, not links or directories'' w
     | Some (File _) \<Rightarrow> io_try w)))"
    using keeps_try [of ps] by (auto simp: keeps_def io_fail_def split: option.splits fnode.splits)
qed

lemma keeps_files [keeps_rules]:
  "p \<in> ps \<Longrightarrow> keeps ps (fs_create_new p)" "p \<in> ps \<Longrightarrow> keeps ps (fs_append p bs)"
  "p \<in> ps \<Longrightarrow> keeps ps (fs_create_dir p)" "p \<in> ps \<Longrightarrow> keeps ps (fs_remove_dir p ns)"
  "p \<in> ps \<Longrightarrow> keeps ps (fs_remove_file p)" "p \<in> ps \<Longrightarrow> keeps ps (fs_sync_all p)"
  "p \<in> ps \<Longrightarrow> keeps ps (fs_write_all p bs)"
  by (auto intro!: keeps_call simp: fs_create_new_def fs_append_def fs_create_dir_def fs_remove_dir_def fs_remove_file_def
      fs_sync_all_def fs_write_all_def torn_def untouched_def same_elsewhere_def split: if_splits option.splits fnode.splits)

lemma keeps_read_some [keeps_rules]: "keeps ps (fs_read_some chunk p cap offset)"
  unfolding fs_read_some_def by (intro keeps_rules)

lemma keeps_copy_loop: "target \<in> ps \<Longrightarrow> keeps ps (copy_loop chunk source target n copied)"
proof (induction chunk source target n copied rule: copy_loop.induct)
  case (1 chunk source target n copied)
  show ?case
    by (subst copy_loop.simps) (intro keeps_rules 1; simp)
qed

lemma keeps_copy_checked [keeps_rules]: "target \<in> ps \<Longrightarrow> keeps ps (copy_checked sha256 chunk source target n checksum)"
  unfolding copy_checked_def by (intro keeps_rules keeps_copy_loop)

lemma keeps_retag_entries [keeps_rules]:
  "destination \<in> ps \<Longrightarrow> keeps ps (retag_entries ac destination old_id new_id seen found es)"
proof (induction ac destination old_id new_id seen found es rule: retag_entries.induct)
  case (3 ac destination old_id new_id seen found en es)
  then show ?case
    by (cases "retag_entry ac old_id new_id seen en") (auto intro!: keeps_rules split: prod.splits)
qed (auto intro: keeps_rules)

lemma keeps_retag_container [keeps_rules]:
  "destination \<in> ps \<Longrightarrow> keeps ps (retag_container ac sha256 source destination old_id new_id)"
  unfolding retag_container_def by (intro keeps_rules)


lemma keeps_check_disk [keeps_rules]: "artifact \<in> ps \<Longrightarrow> keeps ps (check_disk cd m artifact)"
  unfolding check_disk_def validate_standalone_vm_def backup_has_vm_security_def by (intro keeps_rules)

lemma keeps_retag_artifact [keeps_rules]:
  "artifact \<in> ps \<Longrightarrow> staging @ ''/local-'' @ ii_retagged ids @ ''.data'' \<in> ps
    \<Longrightarrow> keeps ps (retag_artifact ac sha256 staging ids m artifact)"
  unfolding retag_artifact_def Let_def split_def by (intro keeps_rules)

lemma keeps_read_backup:
  assumes "{staging @ ''/local-'' @ ii_artifact ids @ ''.data'', staging @ ''/local-'' @ ii_retagged ids @ ''.data''} \<subseteq> ps"
  shows "keeps ps (read_backup ac cd chunk decode staging ids p)"
  using assms unfolding read_backup_def Let_def split_def by (intro keeps_rules) auto

lemma keeps_write_backup:
  assumes "canonicalize_path parent = Ok base" "folder = base @ ''/Yougori-backup-'' @ fresh"
    and "{folder, folder @ ''/'' @ PAYLOAD, folder @ ''/'' @ MANIFEST} \<subseteq> ps"
  shows "keeps ps (write_backup sha256 chunk encode canonicalize_path fresh parent m artifact)"
  using assms unfolding write_backup_def Let_def assms(1) io_of.simps io_bind_return
  by (intro keeps_rules) (auto simp: assms(2))

section \<open>What a successful copy has done\<close>

lemma holds_read:
  "holds (\<lambda>f. f = before) (fs_read p) (\<lambda>bs f. before p = Some (File bs) \<and> f = before) (\<lambda>_. True) (\<lambda>_. True)"
  unfolding fs_read_def
  by (rule holds_then [OF holds_weaken [OF holds_try]], assumption) (auto simp: holds_def split: option.splits fnode.splits)

lemma holds_regular_file:
  "holds (\<lambda>f. f = before) (regular_file p) (\<lambda>_ f. (\<exists>bs. before p = Some (File bs)) \<and> f = before) (\<lambda>_. True) (\<lambda>_. True)"
proof -
  have t: "holds (\<lambda>f. f = before) io_try (\<lambda>_ f. f = before) (\<lambda>_. True) (\<lambda>_. True)" by (rule holds_weaken [OF holds_try])
  then show ?thesis unfolding regular_file_def
  proof (rule holds_then)
    show "holds (\<lambda>f. f = before) (\<lambda>w. case w_files w p of None \<Rightarrow> (Failed IoError, w)
       | Some Other \<Rightarrow> io_fail ''Backup files must be regular files, not links or directories'' w
       | Some (File _) \<Rightarrow> io_try w) (\<lambda>_ f. (\<exists>bs. before p = Some (File bs)) \<and> f = before) (\<lambda>_. True) (\<lambda>_. True)"
    proof (rule holds_files, cases "\<exists>bs. before p = Some (File bs)")
      case True
      with t show "holds (\<lambda>f. f = before) (\<lambda>w. case before p of None \<Rightarrow> (Failed IoError, w)
         | Some Other \<Rightarrow> io_fail ''Backup files must be regular files, not links or directories'' w
         | Some (File _) \<Rightarrow> io_try w) (\<lambda>_ f. (\<exists>bs. before p = Some (File bs)) \<and> f = before) (\<lambda>_. True) (\<lambda>_. True)" by auto
    qed (auto simp: holds_def io_fail_def split: option.splits fnode.splits)
  qed
qed

lemma holds_create_new:
  "holds (\<lambda>f. f = before) (fs_create_new p) (\<lambda>_ f. before p = None \<and> f = before(p \<mapsto> File [])) (\<lambda>_. True) (\<lambda>_. True)"
  unfolding fs_create_new_def by (rule holds_call) (auto split: if_splits)

lemma holds_append:
  "holds (\<lambda>f. f = before(p \<mapsto> File old)) (fs_append p bs) (\<lambda>_ f. f = before(p \<mapsto> File (old @ bs))) (\<lambda>_. True) (\<lambda>_. True)"
  unfolding fs_append_def by (rule holds_call) auto

lemma holds_sync: "holds (\<lambda>f. f = before) (fs_sync_all p) (\<lambda>_ f. f = before) (\<lambda>_. True) (\<lambda>_. True)"
  by (rule holds_sync_all) auto

lemma holds_ok: "holds P m Q (\<lambda>_. True) (\<lambda>_. True) \<Longrightarrow> holds P (io_on_error m h) Q (\<lambda>_. True) (\<lambda>_. True)"
  by (erule holds_on_error) (rule holds_weaken [OF holds_any], simp)

lemma holds_fact: "(A \<Longrightarrow> holds P m Q E C) \<Longrightarrow> holds (\<lambda>f. A \<and> P f) m Q E C"
  by (auto simp: holds_def)

lemma holds_if: "(b \<Longrightarrow> holds P m Q E C) \<Longrightarrow> (\<not> b \<Longrightarrow> holds P k Q E C) \<Longrightarrow> holds P (if b then m else k) Q E C"
  by simp

lemma holds_refuse: "holds P (io_fail e) Q (\<lambda>_. True) C"
  by (rule holds_fail) simp

lemma holds_copy_loop:
  assumes "before source = Some (File data)" "source \<noteq> target"
  shows "take (length copied) data = copied
    \<Longrightarrow> holds (\<lambda>f. f = before(target \<mapsto> File copied)) (copy_loop chunk source target n copied)
      (\<lambda>d f. d = data \<and> f = before(target \<mapsto> File data)) (\<lambda>_. True) (\<lambda>_. True)"
  using assms
proof (induction chunk source target n copied rule: copy_loop.induct)
  case (1 chunk source target n copied)
  let ?P = "\<lambda>f. f = before(target \<mapsto> File copied)"
  let ?Q = "\<lambda>d f. d = data \<and> f = before(target \<mapsto> File data)"
  have r: "holds ?P (fs_read_some chunk source COPY_BUFFER (length copied))
      (\<lambda>got f. (\<exists>k > 0. got = take k (drop (length copied) data)) \<and> ?P f) (\<lambda>_. True) (\<lambda>_. True)"
    unfolding fs_read_some_def
    by (rule holds_bind [OF holds_read], rule holds_return) (use 1 in \<open>auto intro!: exI [of _ "max 1 _"]\<close>)
  show ?case
  proof (subst copy_loop.simps, rule holds_bind [OF r], rule holds_fact)
    fix got assume "\<exists>k > 0. got = take k (drop (length copied) data)"
    then obtain k where k: "k > 0" "got = take k (drop (length copied) data)" by auto
    have c: "take (length copied) data = copied" by (rule "1.prems"(1))
    show "holds ?P (if got = [] then io_return copied
       else if 2 ^ 64 \<le> length copied + length got then io_fail ''Backup is too large''
       else if n < length copied + length got then io_fail ''Backup changed while it was being copied''
       else io_then (fs_append target got) (copy_loop chunk source target n (copied @ got))) ?Q (\<lambda>_. True) (\<lambda>_. True)"
    proof (intro holds_if holds_refuse)
      assume "got = []"
      then have "copied = data" using k c by simp
      then show "holds ?P (io_return copied) ?Q (\<lambda>_. True) (\<lambda>_. True)" by (auto intro: holds_return)
    next
      assume b: "got \<noteq> []" "\<not> 2 ^ 64 \<le> length copied + length got" "\<not> n < length copied + length got"
      have "copied @ got = take (length copied + k) data" using k(2) c by (simp add: take_add)
      then have "take (length (copied @ got)) data = copied @ got" by (metis min.cobounded2 take_take length_take min.commute take_all_iff nat_le_linear)
      then have "holds (\<lambda>f. f = before(target \<mapsto> File (copied @ got))) (copy_loop chunk source target n (copied @ got)) ?Q (\<lambda>_. True) (\<lambda>_. True)"
        using "1.prems" b by (intro "1.IH") simp_all
      then show "holds ?P (io_then (fs_append target got) (copy_loop chunk source target n (copied @ got))) ?Q (\<lambda>_. True) (\<lambda>_. True)"
        by (rule holds_then [OF holds_append])
    qed
  qed
qed

lemma holds_copy_checked:
  "holds (\<lambda>f. f = before) (copy_checked sha256 chunk source target n checksum)
     (\<lambda>_ f. \<exists>data. before source = Some (File data) \<and> length data = unat n \<and> hex_encode (sha256 data) = checksum
        \<and> before target = None \<and> f = before(target \<mapsto> File data)) (\<lambda>_. True) (\<lambda>_. True)"
  unfolding copy_checked_def
proof (rule holds_then [OF holds_regular_file], rule holds_fact, rule holds_bind [OF holds_read], rule holds_fact, intro holds_if holds_refuse,
    rule holds_then [OF holds_create_new], rule holds_fact, rule holds_ok, goal_cases)
  case (1 data)
  let ?P = "\<lambda>f. f = before(target \<mapsto> File data)"
  have "source \<noteq> target" using 1 by auto
  then have c: "holds (\<lambda>f. f = before(target \<mapsto> File [])) (copy_loop chunk source target (unat n) [])
      (\<lambda>d f. d = data \<and> ?P f) (\<lambda>_. True) (\<lambda>_. True)" using 1 by (intro holds_copy_loop) simp_all
  show ?case
  proof (rule holds_bind [OF c], rule holds_fact, intro holds_if holds_refuse)
    fix d assume "d = data" and "\<not> (length d \<noteq> unat n \<or> hex_encode (sha256 d) \<noteq> checksum)"
    with 1 show "holds ?P (fs_sync_all target) (\<lambda>_ f. \<exists>data. before source = Some (File data) \<and> length data = unat n
        \<and> hex_encode (sha256 data) = checksum \<and> before target = None \<and> f = before(target \<mapsto> File data)) (\<lambda>_. True) (\<lambda>_. True)"
      by (intro holds_conseq [OF holds_sync [of "before(target \<mapsto> File data)"]]) auto
  qed
qed


section \<open>Retagged archives\<close>

fun retag_list :: "archive_codec \<Rightarrow> string \<Rightarrow> string \<Rightarrow> string list \<Rightarrow> (tar_entry, string) result list
    \<Rightarrow> ((tar_header \<times> bytes) list \<times> bool, string) result" where
  "retag_list ac old_id new_id seen [] = Ok ([], False)"
| "retag_list ac old_id new_id seen (Err e # es) = Err e"
| "retag_list ac old_id new_id seen (Ok en # es) =
     result_bind (retag_entry ac old_id new_id seen en) (\<lambda>(seen', tagged, header, data).
     result_bind (retag_list ac old_id new_id seen' es) (\<lambda>(outs, rest). Ok ((header, data) # outs, tagged \<or> rest)))"

definition archive_bytes :: "archive_codec \<Rightarrow> (tar_header \<times> bytes) list \<Rightarrow> bytes" where
  "archive_bytes ac outs = concat (map (\<lambda>(header, data). ac_record ac header data) outs)"

lemma archive_bytes_simps [simp]:
  "archive_bytes ac [] = []" "archive_bytes ac ((h, d) # outs) = ac_record ac h d @ archive_bytes ac outs"
  by (simp_all add: archive_bytes_def)

lemma holds_retag_entries:
  "holds (\<lambda>f. f = before(destination \<mapsto> File out)) (retag_entries ac destination old_id new_id seen found es)
     (\<lambda>found' f. \<exists>outs tagged. retag_list ac old_id new_id seen es = Ok (outs, tagged)
        \<and> found' = (found \<or> tagged) \<and> f = before(destination \<mapsto> File (out @ archive_bytes ac outs))) (\<lambda>_. True) (\<lambda>_. True)"
proof (induction ac destination old_id new_id seen found es arbitrary: out rule: retag_entries.induct)
  case (1 ac destination old_id new_id seen found)
  show ?case unfolding retag_entries.simps
    by (rule holds_return, rule exI [of _ "[]"], rule exI [of _ False]) (simp only: retag_list.simps archive_bytes_simps append_Nil2 simp_thms)
next
  case (2 ac destination old_id new_id seen found e es)
  show ?case unfolding retag_entries.simps by (rule holds_refuse)
next
  case (3 ac destination old_id new_id seen found en es)
  let ?P = "\<lambda>f. f = before(destination \<mapsto> File out)"
  have t: "holds ?P io_try (\<lambda>_. ?P) (\<lambda>_. True) (\<lambda>_. True)" by (rule holds_weaken [OF holds_try])
  show ?case
  proof (cases "retag_entry ac old_id new_id seen en")
    case (Err e)
    then show ?thesis unfolding retag_entries.simps Err result.case by (intro holds_then [OF t] holds_refuse)
  next
    case (Ok r)
    obtain seen' tagged header data where r: "r = (seen', tagged, header, data)" by (cases r)
    let ?k = "retag_entries ac destination old_id new_id seen' (found \<or> tagged) es"
    have "holds ?P (io_then (fs_append destination (ac_record ac header data)) ?k)
        (\<lambda>found' f. \<exists>outs t. retag_list ac old_id new_id seen' es = Ok (outs, t) \<and> found' = ((found \<or> tagged) \<or> t)
          \<and> f = before(destination \<mapsto> File ((out @ ac_record ac header data) @ archive_bytes ac outs))) (\<lambda>_. True) (\<lambda>_. True)"
      by (rule holds_then [OF holds_append], rule 3 [OF Ok r [symmetric] refl refl])
    then have "holds ?P (io_then (fs_append destination (ac_record ac header data)) ?k)
        (\<lambda>found' f. \<exists>outs t. retag_list ac old_id new_id seen (result.Ok en # es) = result.Ok (outs, t) \<and> found' = (found \<or> t)
          \<and> f = before(destination \<mapsto> File (out @ archive_bytes ac outs))) (\<lambda>_. True) (\<lambda>_. True)"
    proof (rule holds_weaken, elim exE conjE)
      fix found' f outs t
      assume a: "retag_list ac old_id new_id seen' es = result.Ok (outs, t)" "found' = ((found \<or> tagged) \<or> t)"
        "f = before(destination \<mapsto> File ((out @ ac_record ac header data) @ archive_bytes ac outs))"
      have "retag_list ac old_id new_id seen (result.Ok en # es) = result.Ok ((header, data) # outs, tagged \<or> t)"
        by (simp add: Ok r a(1))
      moreover have "found' = (found \<or> (tagged \<or> t))" using a(2) by blast
      moreover have "f = before(destination \<mapsto> File (out @ archive_bytes ac ((header, data) # outs)))"
        by (simp only: a(3) archive_bytes_simps append_assoc)
      ultimately show "\<exists>outs t. retag_list ac old_id new_id seen (result.Ok en # es) = result.Ok (outs, t) \<and> found' = (found \<or> t)
          \<and> f = before(destination \<mapsto> File (out @ archive_bytes ac outs))" by blast
    qed
    then show ?thesis unfolding retag_entries.simps Ok r result.case prod.case by (rule holds_then [OF t])
  qed
qed


lemma holds_retag_container:
  "holds (\<lambda>f. f = before) (retag_container ac sha256 source destination old_id new_id)
     (\<lambda>(n, checksum) f. \<exists>bs outs. before source = Some (File bs) \<and> before destination = None
        \<and> retag_list ac old_id new_id [] (ac_entries ac bs) = Ok (outs, True)
        \<and> n = of_nat (length (archive_bytes ac outs @ ac_trailer ac)) \<and> checksum = hex_encode (sha256 (archive_bytes ac outs @ ac_trailer ac))
        \<and> f = before(destination \<mapsto> File (archive_bytes ac outs @ ac_trailer ac))) (\<lambda>_. True) (\<lambda>_. True)" (is "holds _ _ ?Q _ _")
  unfolding retag_container_def
proof (rule holds_then [OF holds_regular_file], rule holds_fact, rule holds_then [OF holds_create_new], rule holds_fact, rule holds_ok,
    rule holds_bind [OF holds_read], rule holds_fact, rule holds_bind, rule holds_retag_entries)
  fix bs found
  assume old: "\<exists>bs. before source = Some (File bs)" and new: "before destination = None" and bs: "(before(destination \<mapsto> File [])) source = Some (File bs)"
  let ?k = "io_then (fs_append destination (ac_trailer ac)) (io_then (fs_sync_all destination)
              (io_bind (fs_read destination) (\<lambda>out. io_return (of_nat (length out), hex_encode (sha256 out)))))"
  have k: "holds (\<lambda>f. f = before(destination \<mapsto> File ([] @ archive_bytes ac outs))) ?k ?Q (\<lambda>_. True) (\<lambda>_. True)"
    if "retag_list ac old_id new_id [] (ac_entries ac bs) = Ok (outs, True)" for outs
  proof (rule holds_then [OF holds_append], rule holds_then [OF holds_sync], rule holds_bind [OF holds_read], rule holds_fact,
      rule holds_return)
    fix out f
    assume out: "(before(destination \<mapsto> File (([] @ archive_bytes ac outs) @ ac_trailer ac))) destination = Some (File out)"
      and f: "f = before(destination \<mapsto> File (([] @ archive_bytes ac outs) @ ac_trailer ac))"
    have "out = archive_bytes ac outs @ ac_trailer ac" using out by simp
    moreover have "before source = Some (File bs)" using bs old new by (auto split: if_splits)
    ultimately show "?Q (of_nat (length out), hex_encode (sha256 out)) f" using new that f
      by (simp only: prod.case append_Nil) blast
  qed
  show "holds (\<lambda>f. \<exists>outs tagged. retag_list ac old_id new_id [] (ac_entries ac bs) = Ok (outs, tagged) \<and> found = (False \<or> tagged)
        \<and> f = before(destination \<mapsto> File ([] @ archive_bytes ac outs)))
     (if \<not> found then io_fail ''Container backup is missing its original snapshot tag'' else ?k) ?Q (\<lambda>_. True) (\<lambda>_. True)"
    by (intro holds_if holds_refuse) (rule holds_pointwise, use k in auto)
qed


text \<open>What becomes of one entry: its path stays inside the archive, and only metadata is rewritten.\<close>

definition retagged :: "archive_codec \<Rightarrow> string \<Rightarrow> string \<Rightarrow> (tar_entry, string) result \<Rightarrow> tar_header \<times> bytes \<Rightarrow> bool" where
  "retagged ac old_id new_id r out \<longleftrightarrow>
     (\<exists>en v path. r = Ok en \<and> te_path en = Ok (Some v) \<and> container_archive_path (Some v) = Ok path
       \<and> \<not> starts_with ''/'' v \<and> ''..'' \<notin> set (split_char (CHR ''/'') v)
       \<and> th_kind (te_header en) \<in> {RegularEntry, DirectoryEntry}
       \<and> (if path \<in> {''index.json'', ''manifest.json''}
          then \<exists>json data. ac_parse ac (te_data en) = Ok json
             \<and> data = ac_print ac (retag_json (snapshot_tag ac old_id) (snapshot_tag ac new_id) old_id new_id json)
             \<and> out = (ac_checksum ac ((te_header en)\<lparr>th_size := length data\<rparr>), data)
          else out = (te_header en, te_data en)))"

lemma container_archive_path_Ok:
  "container_archive_path p = Ok path \<Longrightarrow> \<exists>v. p = Some v \<and> \<not> starts_with ''/'' v \<and> ''..'' \<notin> set (split_char (CHR ''/'') v)"
  by (auto simp: container_archive_path_def Let_def split: if_splits option.splits)

lemma retag_entry_retagged:
  assumes "retag_entry ac old_id new_id seen en = Ok (seen', tagged, out)"
  shows "retagged ac old_id new_id (Ok en) out"
proof -
  obtain header data where out: "out = (header, data)" by (cases out)
  from assms obtain p path where p: "te_path en = Ok p" "container_archive_path p = Ok path"
    by (auto simp: retag_entry_def)
  from container_archive_path_Ok [OF p(2)] obtain v where v: "p = Some v" "\<not> starts_with ''/'' v"
    "''..'' \<notin> set (split_char (CHR ''/'') v)" by blast
  have k: "th_kind (te_header en) \<in> {RegularEntry, DirectoryEntry}"
    using assms p by (simp add: retag_entry_def Let_def split: if_splits)
  show ?thesis
  proof (cases "path \<in> {''index.json'', ''manifest.json''}")
    case True
    then have "path = ''index.json'' \<or> path = ''manifest.json''" by simp
    then obtain json where "ac_parse ac (te_data en) = Ok json"
      "data = ac_print ac (retag_json (snapshot_tag ac old_id) (snapshot_tag ac new_id) old_id new_id json)"
      "header = ac_checksum ac ((te_header en)\<lparr>th_size := length data\<rparr>)"
      using assms p k unfolding retag_entry_def Let_def out by (auto split: if_splits)
    with True p v k show ?thesis unfolding retagged_def out by auto
  next
    case False
    then have "\<not> (path = ''index.json'' \<or> path = ''manifest.json'')" by simp
    then have "out = (te_header en, te_data en)" using assms p k unfolding retag_entry_def Let_def out by (auto split: if_splits)
    with False p v k show ?thesis unfolding retagged_def by auto
  qed
qed

lemma retag_list_retagged:
  "retag_list ac old_id new_id seen es = Ok (outs, tagged) \<Longrightarrow> list_all2 (retagged ac old_id new_id) es outs"
proof (induction ac old_id new_id seen es arbitrary: outs tagged rule: retag_list.induct)
  case (3 ac old_id new_id seen en es)
  from "3.prems" obtain seen' t header data where e: "retag_entry ac old_id new_id seen en = Ok (seen', t, header, data)"
    by auto
  with "3.prems" obtain outs' rest where r: "retag_list ac old_id new_id seen' es = Ok (outs', rest)" "outs = (header, data) # outs'"
    by auto
  from "3.IH" [OF r(1)] retag_entry_retagged [OF e] show ?case by (simp add: r(2))
qed simp_all


lemma retag_list_tag:
  "retag_list ac old_id new_id seen es = Ok (outs, True)
    \<Longrightarrow> \<exists>en json. Ok en \<in> set es \<and> ac_parse ac (te_data en) = Ok json \<and> has_tag (snapshot_tag ac old_id) json"
proof (induction ac old_id new_id seen es arbitrary: outs rule: retag_list.induct)
  case (3 ac old_id new_id seen en es)
  from "3.prems" obtain seen' t header data where e: "retag_entry ac old_id new_id seen en = Ok (seen', t, header, data)"
    by auto
  with "3.prems" obtain outs' rest where r: "retag_list ac old_id new_id seen' es = Ok (outs', rest)" "t \<or> rest" by auto
  show ?case
  proof (cases t)
    case True
    then have "\<exists>json. ac_parse ac (te_data en) = Ok json \<and> has_tag (snapshot_tag ac old_id) json"
      using e by (auto simp: retag_entry_def Let_def split: if_splits)
    then show ?thesis by auto
  next
    case False
    then have "retag_list ac old_id new_id seen' es = Ok (outs', True)" using r by simp
    from "3.IH" [OF this] show ?thesis by auto
  qed
qed simp_all

text \<open>
  A container archive that is imported keeps every layer byte for byte: each entry is a file or directory inside
  the archive, only the two metadata documents are rewritten, the old tag was in one of them, and nothing but the
  new archive is written, whose size and checksum are returned.
\<close>

theorem retag_only_metadata:
  assumes "retag_container ac sha256 source destination old_id new_id w = (Done (n, checksum), w')"
  shows "\<exists>bs outs en json. w_files w source = Some (File bs) \<and> list_all2 (retagged ac old_id new_id) (ac_entries ac bs) outs
    \<and> Ok en \<in> set (ac_entries ac bs) \<and> ac_parse ac (te_data en) = Ok json \<and> has_tag (snapshot_tag ac old_id) json
    \<and> w_files w destination = None \<and> w_files w' = (w_files w)(destination \<mapsto> File (archive_bytes ac outs @ ac_trailer ac))
    \<and> n = of_nat (length (archive_bytes ac outs @ ac_trailer ac)) \<and> checksum = hex_encode (sha256 (archive_bytes ac outs @ ac_trailer ac))"
proof -
  from holdsD [OF holds_retag_container refl assms, simplified] obtain bs outs where
    r: "w_files w source = Some (File bs)" "w_files w destination = None"
      "retag_list ac old_id new_id [] (ac_entries ac bs) = Ok (outs, True)"
      "n = of_nat (length (archive_bytes ac outs @ ac_trailer ac))" "checksum = hex_encode (sha256 (archive_bytes ac outs @ ac_trailer ac))"
      "w_files w' = (w_files w)(destination \<mapsto> File (archive_bytes ac outs @ ac_trailer ac))" by auto
  from retag_list_tag [OF r(3)] obtain en json where "Ok en \<in> set (ac_entries ac bs)" "ac_parse ac (te_data en) = Ok json"
    "has_tag (snapshot_tag ac old_id) json" by blast
  with r retag_list_retagged [OF r(3)] show ?thesis by blast
qed

section \<open>What an import leaves\<close>

lemma holds_result:
  assumes "holds P m Q E C"
  shows "holds P (io_result m) (\<lambda>r f. case r of Ok x \<Rightarrow> Q x f | Err e \<Rightarrow> E f) E' C"
  using assms by (fastforce simp: holds_def io_result_def split: prod.splits outcome.splits)

lemma holds_of_Ok: "holds (\<lambda>f. f = before) (io_of r) (\<lambda>x f. r = Ok x \<and> f = before) (\<lambda>_. True) (\<lambda>_. True)"
  by (rule holds_io_of)

lemma holds_validate_vm:
  "holds (\<lambda>f. f = before) (validate_standalone_vm p)
     (\<lambda>_ f. (\<exists>bs. before p = Some (File bs) \<and> standalone_vm bs = Ok ()) \<and> f = before) (\<lambda>_. True) (\<lambda>_. True)"
  unfolding validate_standalone_vm_def
proof (rule holds_then [OF holds_regular_file], rule holds_fact, rule holds_bind [OF holds_read], rule holds_fact)
  fix bs assume "before p = Some (File bs)"
  then show "holds (\<lambda>f. f = before) (io_of (standalone_vm bs))
     (\<lambda>_ f. (\<exists>bs. before p = Some (File bs) \<and> standalone_vm bs = Ok ()) \<and> f = before) (\<lambda>_. True) (\<lambda>_. True)"
    by (intro holds_weaken [OF holds_of_Ok]) auto
qed

lemma holds_vm_security:
  "holds (\<lambda>f. f = before) (backup_has_vm_security cd p)
     (\<lambda>secure f. (secure \<longrightarrow> (\<exists>bs b. before p = Some (File bs) \<and> vm_read_backup cd bs = Ok (Some b))) \<and> f = before) (\<lambda>_. True) (\<lambda>_. True)"
  unfolding backup_has_vm_security_def
proof (rule holds_bind [OF holds_read], rule holds_fact)
  fix bs assume "before p = Some (File bs)"
  then show "holds (\<lambda>f. f = before) (io_of (result_bind (vm_read_backup cd bs) (\<lambda>b. Ok (b \<noteq> None))))
     (\<lambda>secure f. (secure \<longrightarrow> (\<exists>bs b. before p = Some (File bs) \<and> vm_read_backup cd bs = Ok (Some b))) \<and> f = before) (\<lambda>_. True) (\<lambda>_. True)"
    by (intro holds_weaken [OF holds_of_Ok]) auto
qed

definition disk_accepted :: "codecs \<Rightarrow> Manifest \<Rightarrow> bytes \<Rightarrow> bool" where
  "disk_accepted cd m bs \<longleftrightarrow> (env_provider (mf_environment m) = Some Qemu \<longrightarrow>
     standalone_vm bs = Ok () \<and> (mf_version m = 2 \<longrightarrow> (\<exists>b. vm_read_backup cd bs = Ok (Some b))))"

lemma holds_check_disk:
  assumes "before artifact = Some (File bs)"
  shows "holds (\<lambda>f. f = before) (check_disk cd m artifact) (\<lambda>_ f. disk_accepted cd m bs \<and> f = before) (\<lambda>_. True) (\<lambda>_. True)"
  unfolding check_disk_def
proof (intro holds_if holds_ok)
  assume "env_provider (mf_environment m) \<noteq> Some Qemu"
  then show "holds (\<lambda>f. f = before) (io_return ()) (\<lambda>_ f. disk_accepted cd m bs \<and> f = before) (\<lambda>_. True) (\<lambda>_. True)"
    by (intro holds_return) (simp add: disk_accepted_def)
next
  let ?Q = "\<lambda>_ f. disk_accepted cd m bs \<and> f = before"
  show "holds (\<lambda>f. f = before) (io_then (validate_standalone_vm artifact)
      (if mf_version m \<noteq> 2 then io_return ()
       else io_bind (backup_has_vm_security cd artifact) (\<lambda>secure.
         if \<not> secure then io_fail ''This secure VM backup is missing its TPM and firmware state'' else io_return ()))) ?Q (\<lambda>_. True) (\<lambda>_. True)"
  proof (rule holds_then [OF holds_validate_vm], rule holds_fact, rule holds_if)
    assume "\<exists>bs. before artifact = Some (File bs) \<and> standalone_vm bs = Ok ()" "mf_version m \<noteq> 2"
    then show "holds (\<lambda>f. f = before) (io_return ()) ?Q (\<lambda>_. True) (\<lambda>_. True)"
      using assms by (intro holds_return) (simp add: disk_accepted_def)
  next
    assume s: "\<exists>bs. before artifact = Some (File bs) \<and> standalone_vm bs = Ok ()"
    show "holds (\<lambda>f. f = before) (io_bind (backup_has_vm_security cd artifact) (\<lambda>secure.
         if \<not> secure then io_fail ''This secure VM backup is missing its TPM and firmware state'' else io_return ())) ?Q (\<lambda>_. True) (\<lambda>_. True)"
    proof (rule holds_bind [OF holds_vm_security], rule holds_fact, intro holds_if holds_refuse, goal_cases)
      case (1 secure)
      then show ?case using s assms by (intro holds_return) (simp add: disk_accepted_def)
    qed
  qed
qed

definition artifact_of :: "(bytes \<Rightarrow> bytes) \<Rightarrow> files \<Rightarrow> path \<Rightarrow> u64 \<Rightarrow> string \<Rightarrow> bytes \<Rightarrow> bool" where
  "artifact_of sha256 f p n checksum out \<longleftrightarrow> f p = Some (File out) \<and> n = of_nat (length out) \<and> checksum = hex_encode (sha256 out)"

lemma holds_retag_artifact:
  assumes a: "before artifact = Some (File bs)" "length bs = unat (mf_size m)" "hex_encode (sha256 bs) = mf_sha256 m"
    and r: "retagged_path = staging @ ''/local-'' @ ii_retagged ids @ ''.data''"
  shows "holds (\<lambda>f. f = before) (retag_artifact ac sha256 staging ids m artifact)
     (\<lambda>(p, n, checksum) f. \<exists>out. artifact_of sha256 f p n checksum out \<and> p \<in> {artifact, retagged_path}
        \<and> (env_provider (mf_environment m) = Some Qemu \<longrightarrow> out = bs)) (\<lambda>_. True) (\<lambda>_. True)" (is "holds _ _ ?Q _ _")
  unfolding retag_artifact_def Let_def r [symmetric]
proof (rule holds_if)
  show "holds (\<lambda>f. f = before) (io_return (artifact, mf_size m, mf_sha256 m)) ?Q (\<lambda>_. True) (\<lambda>_. True)"
    using a(2) [symmetric] by (intro holds_return) (simp add: artifact_of_def a)
next
  assume c: "\<not> \<not> (case env_provider (mf_environment m) of None \<Rightarrow> False | Some p \<Rightarrow> provider_is_container p)"
  let ?R = "\<lambda>(n, checksum) f. \<exists>out. artifact_of sha256 f retagged_path n checksum out"
  have t: "holds (\<lambda>f. f = before) (retag_container ac sha256 artifact retagged_path i j)
      (\<lambda>x f. ?R x f \<and> retagged_path \<noteq> artifact) (\<lambda>_. True) (\<lambda>_. True)" for i j
    by (rule holds_weaken [OF holds_retag_container]) (auto simp: artifact_of_def a(1))
  have k: "holds (\<lambda>f. ?R x f \<and> retagged_path \<noteq> artifact) (io_ignore (fs_remove_file artifact)) (\<lambda>_. ?R x) (\<lambda>_. True) (\<lambda>_. True)" for x
    by (rule holds_ignore, rule holds_remove_file) (auto simp: artifact_of_def)
  show "holds (\<lambda>f. f = before) (io_bind (io_result (retag_container ac sha256 artifact retagged_path (snap_id (mf_snapshot m)) (''snap-'' @ ii_snapshot ids)))
      (\<lambda>r. io_then (io_ignore (fs_remove_file artifact)) (io_bind (io_lift r) (\<lambda>(n, checksum). io_return (retagged_path, n, checksum))))) ?Q (\<lambda>_. True) (\<lambda>_. True)"
  proof (rule holds_bind [OF holds_result [OF t]])
    fix r :: "(u64 \<times> string, failure) result"
    let ?k = "io_bind (io_lift r) (\<lambda>(n, checksum). io_return (retagged_path, n, checksum))"
    show "holds (\<lambda>f. case r of Ok x \<Rightarrow> ?R x f \<and> retagged_path \<noteq> artifact | Err e \<Rightarrow> True)
       (io_then (io_ignore (fs_remove_file artifact)) ?k) ?Q (\<lambda>_. True) (\<lambda>_. True)"
    proof (cases r)
      case (Ok x)
      have "env_provider (mf_environment m) \<noteq> Some Qemu" using c by auto
      then have "holds (?R x) ?k ?Q (\<lambda>_. True) (\<lambda>_. True)"
        by (auto simp: Ok holds_def io_bind_def io_return_def split: prod.splits)
      then show ?thesis unfolding Ok result.case by (rule holds_then [OF k])
    next
      case (Err e)
      have "holds (\<lambda>_. True) ?k ?Q (\<lambda>_. True) (\<lambda>_. True)" by (simp add: Err holds_def io_bind_def)
      then show ?thesis unfolding Err result.case by (rule holds_then [OF holds_any])
    qed
  qed
qed

text \<open>
  What an import accepts, said of the manifest and of the bytes of the disk: a container of one of the two engines, a full
  VM, or the built-in microVM, with ranges that make sense; a disk of at most 2 TiB under its checksum; and for a virtual
  machine a QCOW2 header of version 2 or 3 that names neither a backing file nor an encryption nor an external data file.
\<close>

definition standalone_disk :: "bytes \<Rightarrow> bool" where
  "standalone_disk data \<longleftrightarrow> 104 \<le> length data \<and> take 4 data = [0x51, 0x46, 0x49, 0xfb]
     \<and> subslice data 4 8 \<in> {[0, 0, 0, 2], [0, 0, 0, 3]}
     \<and> subslice data 8 20 = replicate 12 0 \<and> subslice data 32 36 = replicate 4 0
     \<and> (data ! 7 = 3 \<longrightarrow> \<not> bit (data ! 79) 2)"

definition portable :: "Environment \<Rightarrow> bool" where
  "portable e \<longleftrightarrow>
     (case env_kind e of
        Container \<Rightarrow> env_provider e = Some OpenDockOci \<or> env_provider e = Some OpenDockCuda
      | FullVm \<Rightarrow> env_provider e = Some Qemu
      | MicroVm \<Rightarrow> env_provider e = Some Qemu \<and> env_runtime e = ''builtin:alpine''
      | _ \<Rightarrow> False)
     \<and> valid_range (rp_cpu (env_resource_policy e)) \<and> valid_range (rp_memory_gb (env_resource_policy e))"

definition importable :: "codecs \<Rightarrow> Manifest \<Rightarrow> bytes \<Rightarrow> bool" where
  "importable cd m data \<longleftrightarrow>
     portable (mf_environment m) \<and> (mf_version m = 1 \<or> mf_version m = 2)
     \<and> 0 < length data \<and> length data \<le> 2 ^ 41 \<and> length data = unat (mf_size m) \<and> hex_encode (cd_sha256 cd data) = mf_sha256 m
     \<and> (env_provider (mf_environment m) = Some Qemu \<longrightarrow>
          standalone_disk data \<and> (mf_version m = 2 \<longrightarrow> (\<exists>b. vm_read_backup cd data = Ok (Some b))))"

text \<open>
  The environment that an import returns, against the one that was exported: a new identity, no identifier, path or
  endpoint of a runtime, no connection; everything else, the name of its image included, is kept.
\<close>

definition kept_part :: "Environment \<Rightarrow> Environment" where
  "kept_part e = e\<lparr>env_id := [], env_name := [], env_status := Stopped, env_created_at := [], env_last_opened_at := None,
     env_runtime_id := None, env_runtime_path := None, env_control_endpoint := None, env_console_endpoint := None,
     env_sandbox_policy := None, env_branch_type := None\<rparr>"

definition sanitized :: "import_ids \<Rightarrow> Environment \<Rightarrow> BackupRestore \<Rightarrow> bool" where
  "sanitized ids original b \<longleftrightarrow> (let e = bre_environment b; s = bre_snapshot b in
     kept_part e = kept_part original \<and> env_status e = Stopped \<and> env_id e = ''env-'' @ ii_environment ids
     \<and> (\<exists>short rest. env_name original = short @ rest \<and> char_count short \<le> 70 \<and> (char_count (env_name original) \<le> 70 \<longrightarrow> rest = [])
          \<and> env_name e = short @ '' (restored)'')
     \<and> env_created_at e = ii_now ids \<and> env_last_opened_at e = None
     \<and> env_runtime_id e = None \<and> env_runtime_path e = None \<and> env_control_endpoint e = None \<and> env_console_endpoint e = None
     \<and> env_sandbox_policy e = None \<and> env_branch_type e = None \<and> bre_connections b = []
     \<and> snap_id s = ''snap-'' @ ii_snapshot ids \<and> snap_environment_id s = env_id e \<and> snap_connections s = None
     \<and> snap_environment_state s = None \<and> snap_artifact_path s = None \<and> snap_provider_snapshot_id s = None)"

lemma take_chars_split:
  "\<exists>rest. s = take_chars n s @ rest" "char_count (take_chars n s) \<le> n" "char_count s \<le> n \<Longrightarrow> take_chars n s = s"
  by (induction n s rule: take_chars.induct) (auto simp: char_count_def split: if_splits)

lemma sanitized_restored:
  "sanitized ids e \<lparr>bre_environment = restored_environment ids e, bre_snapshot = restored_snapshot ids n checksum s,
     bre_connections = [], bre_artifact_path = p\<rparr>"
proof -
  have "\<exists>short rest. env_name e = short @ rest \<and> char_count short \<le> 70 \<and> (char_count (env_name e) \<le> 70 \<longrightarrow> rest = [])
      \<and> env_name (restored_environment ids e) = short @ '' (restored)''"
  proof -
    obtain rest where r: "env_name e = take_chars 70 (env_name e) @ rest" using take_chars_split(1) by blast
    moreover have "rest = []" if "char_count (env_name e) \<le> 70" using take_chars_split(3) [OF that] r by simp
    moreover have "env_name (restored_environment ids e) = take_chars 70 (env_name e) @ '' (restored)''"
      by (simp add: restored_environment_def)
    ultimately show ?thesis using take_chars_split(2) by blast
  qed
  then show ?thesis
    unfolding sanitized_def Let_def by (simp add: restored_environment_def restored_snapshot_def kept_part_def)
qed

lemma be_value_zero: "be_value bs = 0 \<longleftrightarrow> bs = replicate (length bs) 0"
  by (induction bs rule: rev_induct) (auto simp: be_value_def replicate_append_same [symmetric] unat_eq_0)

lemma be_value_low: "bs \<noteq> [] \<Longrightarrow> be_value bs div 4 mod 2 = 1 \<longleftrightarrow> bit (last bs) 2"
proof (cases bs rule: rev_cases)
  case (snoc cs b)
  have "(256 * n + unat b) div 4 mod 2 = unat b div 4 mod 2" for n by presburger
  then have "be_value bs div 4 mod 2 = unat b div 4 mod 2" by (simp add: snoc be_value_def)
  moreover have "bit (unat b) 2 = bit b 2" by (simp add: bit_unsigned_iff)
  then have "bit b 2 \<longleftrightarrow> unat b div 4 mod 2 = 1" by (simp add: bit_iff_odd odd_iff_mod_2_eq_one)
  ultimately show ?thesis by (simp add: snoc)
qed simp

lemma word_version: "length bs = 4 \<Longrightarrow> v < 256 \<Longrightarrow> be_value bs = v \<longleftrightarrow> bs = [0, 0, 0, of_nat v]"
proof -
  assume l: "length bs = 4" and v: "v < 256"
  then obtain a b c d where bs: "bs = [a, b, c, d]" by (auto simp: length_Suc_conv eval_nat_numeral)
  have "unat a < 256" "unat b < 256" "unat c < 256" "unat d < 256" using unsigned_less [of a] unsigned_less [of b] unsigned_less [of c] unsigned_less [of d] by simp_all
  then have "be_value bs = v \<longleftrightarrow> unat a = 0 \<and> unat b = 0 \<and> unat c = 0 \<and> unat d = v"
    using v by (auto simp: bs be_value_def)
  also have "\<dots> \<longleftrightarrow> a = 0 \<and> b = 0 \<and> c = 0 \<and> d = of_nat v"
    using v by (auto simp: unat_eq_0 unat_of_nat)
  finally show ?thesis by (simp add: bs)
qed

lemma standalone_vm_iff: "standalone_vm data = Ok () \<longleftrightarrow> standalone_disk data"
proof (cases "104 \<le> length data")
  case False
  then show ?thesis by (simp add: standalone_vm_def standalone_disk_def)
next
  case l: True
  have s: "subslice (take 104 data) i j = subslice data i j" if "j \<le> 104" for i j
    using that by (simp add: subslice_def drop_take min_def)
  have n: "length (subslice data i j) = j - i" if "j \<le> 104" for i j using that l by (simp add: subslice_def)
  have v: "be_value (subslice data 4 8) = 2 \<longleftrightarrow> subslice data 4 8 = [0, 0, 0, 2]"
    "be_value (subslice data 4 8) = 3 \<longleftrightarrow> subslice data 4 8 = [0, 0, 0, 3]"
    using word_version [of "subslice data 4 8"] n [of 8 4] by simp_all
  have z: "be_value (subslice data i j) = 0 \<longleftrightarrow> subslice data i j = replicate (j - i) 0" if "j \<le> 104" for i j
    using be_value_zero [of "subslice data i j"] n [OF that] by simp
  have "subslice data 8 20 = subslice data 8 16 @ subslice data 16 20"
    by (simp add: subslice_def take_drop flip: take_add [of 8 4 "drop 8 data", simplified]) 
  then have b: "subslice data 8 16 = replicate 8 0 \<and> subslice data 16 20 = replicate 4 0 \<longleftrightarrow> subslice data 8 20 = replicate 12 0"
    using n [of 16 8] append_eq_append_conv [of "subslice data 8 16" "replicate 8 0" "subslice data 16 20" "replicate 4 0"]
    by (simp flip: replicate_add)
  have f: "be_value (subslice data 72 80) div 4 mod 2 = 1 \<longleftrightarrow> bit (data ! 79) 2"
  proof -
    have e: "subslice data 72 80 \<noteq> []" using l by (auto simp: subslice_def)
    have "last (subslice data 72 80) = data ! 79" using l by (simp add: last_conv_nth [OF e] n) (simp add: subslice_def)
    then show ?thesis using be_value_low [OF e] by simp
  qed
  have "subslice data 4 8 ! 3 = data ! 7" using l by (simp add: subslice_def)
  then have d: "subslice data 4 8 = [0, 0, 0, 3] \<Longrightarrow> data ! 7 = 3" "subslice data 4 8 = [0, 0, 0, 2] \<Longrightarrow> data ! 7 = 2" by auto
  have m: "ascii ''QFI'' @ [0xfb] = [0x51, 0x46, 0x49, 0xfb]" by code_simp
  have t: "take 4 (take 104 data) = take 4 data" by simp
  show ?thesis
    unfolding standalone_vm_def standalone_disk_def Let_def m t using l s z [of 16 8] z [of 20 16] z [of 36 32] b f v d
    by (simp add: s) auto
qed

lemma supported_iff: "supported e = Ok () \<longleftrightarrow> portable e"
  by (auto simp: supported_def portable_def validate_policy_Ok Let_def split: EnvironmentKind.splits if_splits)

lemma importable_checked:
  assumes "check_manifest m = Ok ()" "disk_accepted cd m data" "length data = unat (mf_size m)" "hex_encode (cd_sha256 cd data) = mf_sha256 m"
  shows "importable cd m data"
proof -
  have n: "mf_size m \<noteq> 0" "\<not> 2 ^ 41 < mf_size m" using assms(1) by (auto simp: check_manifest_def split: if_splits)
  have "unat (2 ^ 41 :: u64) = 2 ^ 41" by simp
  then have "0 < unat (mf_size m)" "unat (mf_size m) \<le> 2 ^ 41" using n by (simp_all add: word_less_nat_alt unat_gt_0)
  then show ?thesis
    using assms by (auto simp: importable_def check_manifest_def supported_iff disk_accepted_def standalone_vm_iff split: if_splits)
qed

lemma hex_nibble_digit: "n < 16 \<Longrightarrow> is_ascii_hexdigit (hex_nibble n)"
  by (auto simp: is_ascii_hexdigit_def hex_nibble_def is_digit_def less_eq_char_def)

lemma hex_encode_valid: "length bs = 32 \<Longrightarrow> valid_hash (hex_encode bs)"
proof -
  have "unat b div 16 < 16" for b :: "8 word"
  proof -
    have "unat b < 16 * 16" using unsigned_less [of b] by simp
    then show ?thesis by (rule less_mult_imp_div_less)
  qed
  then have "list_all is_ascii_hexdigit (hex_encode bs)"
    unfolding hex_encode_def list_all_iff by (auto intro: hex_nibble_digit)
  moreover have "length (hex_encode bs) = 2 * length bs" by (induction bs) (simp_all add: hex_encode_def)
  ultimately show "length bs = 32 \<Longrightarrow> valid_hash (hex_encode bs)" by (simp add: valid_hash_def)
qed

lemma importable_accepted:
  assumes "importable cd m data" "length (cd_sha256 cd data) = 32"
  shows "check_manifest m = Ok ()" "disk_accepted cd m data"
proof -
  have "valid_hash (mf_sha256 m)" using assms(1) hex_encode_valid [OF assms(2)] by (simp add: importable_def)
  moreover have "mf_size m \<noteq> 0" "\<not> 2 ^ 41 < mf_size m"
    using assms(1) by (auto simp: importable_def word_less_nat_alt)
  ultimately show "check_manifest m = Ok ()"
    using assms(1) by (auto simp: importable_def check_manifest_def supported_iff)
  show "disk_accepted cd m data" using assms(1) by (auto simp: importable_def disk_accepted_def standalone_vm_iff)
qed

definition imported :: "codecs \<Rightarrow> import_ids \<Rightarrow> path \<Rightarrow> path \<Rightarrow> Manifest \<Rightarrow> bytes \<Rightarrow> files \<Rightarrow> BackupRestore \<Rightarrow> bool" where
  "imported cd ids artifact retagged_path m data f b \<longleftrightarrow>
     importable cd m data \<and> sanitized ids (mf_environment m) b \<and> bre_artifact_path b \<in> {artifact, retagged_path}
     \<and> (\<exists>out n checksum. artifact_of (cd_sha256 cd) f (bre_artifact_path b) n checksum out
         \<and> (env_provider (mf_environment m) = Some Qemu \<longrightarrow> out = data)
         \<and> snap_artifact_size_bytes (bre_snapshot b) = Some n \<and> snap_checksum_sha256 (bre_snapshot b) = Some checksum)"

lemma holds_read_backup:
  assumes "artifact = staging @ ''/local-'' @ ii_artifact ids @ ''.data''"
    and "retagged_path = staging @ ''/local-'' @ ii_retagged ids @ ''.data''"
  shows "holds (\<lambda>f. f = before) (read_backup ac cd chunk decode staging ids p)
    (\<lambda>b f. \<exists>bs m data. before p = Some (File bs) \<and> length bs \<le> MAX_MANIFEST \<and> decode bs = Some m
       \<and> before (with_file_name p PAYLOAD) = Some (File data) \<and> imported cd ids artifact retagged_path m data f b)
    (\<lambda>_. True) (\<lambda>_. True)" (is "holds _ _ ?Q _ _")
  unfolding read_backup_def Let_def assms [symmetric]
proof (rule holds_then [OF holds_regular_file], rule holds_fact, rule holds_bind [OF holds_read], rule holds_fact,
    intro holds_if holds_refuse, goal_cases)
  case b: (1 bs)
  show ?case
  proof (cases "decode bs")
    case None
    then show ?thesis by (simp add: holds_refuse)
  next
    case (Some m)
    show ?thesis unfolding Some option.case
    proof (rule holds_bind [OF holds_of_Ok], rule holds_fact, rule holds_then [OF holds_copy_checked], rule holds_pointwise,
        elim exE conjE, goal_cases)
      case c: (1 u f data)
      have d: "f artifact = Some (File data)" using c by simp
      have r: "holds (\<lambda>g. g = f) (retag_artifact ac (cd_sha256 cd) staging ids m artifact)
         (\<lambda>(p, n, checksum) f. \<exists>out. artifact_of (cd_sha256 cd) f p n checksum out \<and> p \<in> {artifact, retagged_path}
        \<and> (env_provider (mf_environment m) = Some Qemu \<longrightarrow> out = data)) (\<lambda>_. True) (\<lambda>_. True)"
        by (rule holds_retag_artifact [where before = f and bs = data]) (use d c assms in auto)
      show ?case
      proof (rule holds_then [OF holds_check_disk [where before = f and bs = data, OF d]], rule holds_fact, rule holds_bind [OF r], clarify, rule holds_return, goal_cases)
        case (1 q n checksum g)
        have "importable cd m data" using c 1 by (intro importable_checked) auto
        moreover note sanitized_restored [of ids "mf_environment m" n checksum "mf_snapshot m" q]
        moreover from 1 obtain out where "artifact_of (cd_sha256 cd) g q n checksum out" "q \<in> {artifact, retagged_path}"
          "env_provider (mf_environment m) = Some Qemu \<longrightarrow> out = data" by auto
        ultimately have "imported cd ids artifact retagged_path m data g \<lparr>bre_environment = restored_environment ids (mf_environment m),
            bre_snapshot = restored_snapshot ids n checksum (mf_snapshot m), bre_connections = [], bre_artifact_path = q\<rparr>"
          using c 1 by (auto simp: imported_def restored_snapshot_def)
        with b c Some show ?case by (auto simp: not_less)
      qed
    qed
  qed
qed


text \<open>
  C20. Importing a backup, whatever its folder holds and however the import ends, changes nothing but its own two files
  in the staging folder. It succeeds only for a manifest and a disk that are acceptable (see \<open>importable\<close>): a supported
  environment with sensible ranges, at most 2 TiB under the manifest's checksum, and for a virtual machine a disk that stands
  alone. What it returns is the manifest's environment, stopped, with a new identity and without runtime identifiers, paths,
  endpoints and connections, and otherwise unchanged (the name of its image is kept as the manifest has it); the returned
  artifact is the file whose size and checksum the snapshot records.
\<close>

theorem import_sanitized:
  assumes "read_backup ac cd chunk decode staging ids p w = (r, w')"
    and "artifact = staging @ ''/local-'' @ ii_artifact ids @ ''.data''"
    and "retagged_path = staging @ ''/local-'' @ ii_retagged ids @ ''.data''"
  shows "same_elsewhere {artifact, retagged_path} (w_files w) (w_files w')
    \<and> (\<forall>b. r = Done b \<longrightarrow> (\<exists>bs m data. w_files w p = Some (File bs) \<and> length bs \<le> MAX_MANIFEST \<and> decode bs = Some m
        \<and> w_files w (with_file_name p PAYLOAD) = Some (File data)
        \<and> imported cd ids artifact retagged_path m data (w_files w') b))"
  using keepsD [OF keeps_read_backup assms(1)] holdsD [OF holds_read_backup [OF assms(2,3)] refl assms(1)] assms(2,3)
  by auto

section \<open>Runs without faults\<close>

abbreviation calm :: "files \<Rightarrow> world" where
  "calm f \<equiv> \<lparr>w_files = f, w_script = []\<rparr>"

lemma calm_calls:
  "io_try (calm f) = (Done (), calm f)"
  "io_return x (calm f) = (Done x, calm f)"
  "f p = Some (File bs) \<Longrightarrow> fs_read p (calm f) = (Done bs, calm f)"
  "f p = Some (File bs) \<Longrightarrow> regular_file p (calm f) = (Done (), calm f)"
  "f p = None \<Longrightarrow> fs_create_new p (calm f) = (Done (), calm (f(p \<mapsto> File [])))"
  "f p = Some (File bs) \<Longrightarrow> fs_append p cs (calm f) = (Done (), calm (f(p \<mapsto> File (bs @ cs))))"
  "f p = None \<Longrightarrow> fs_create_dir p (calm f) = (Done (), calm (f(p \<mapsto> Other)))"
  "fs_write_all p bs (calm f) = (Done (), calm (f(p \<mapsto> File bs)))"
  "fs_sync_all p (calm f) = (Done (), calm f)"
  by (simp_all add: io_try_def io_bind_def io_probe_def io_return_def fs_read_def regular_file_def io_then_def io_call_def
      fs_create_new_def fs_append_def fs_create_dir_def fs_write_all_def fs_sync_all_def)

lemma calm_copy_loop:
  assumes "f source = Some (File data)" "source \<noteq> target" "length data \<le> n" "n < 2 ^ 64"
  shows "take (length copied) data = copied \<Longrightarrow> copy_loop chunk source target n copied (calm (f(target \<mapsto> File copied)))
    = (Done data, calm (f(target \<mapsto> File data)))"
  using assms
proof (induction chunk source target n copied rule: copy_loop.induct)
  case (1 chunk source target n copied)
  let ?f = "f(target \<mapsto> File copied)"
  define got where "got = take (max 1 (min COPY_BUFFER (chunk (length copied)))) (drop (length copied) data)"
  have "fs_read source (calm ?f) = (Done data, calm ?f)" using 1 by (intro calm_calls) simp
  then have r: "fs_read_some chunk source COPY_BUFFER (length copied) (calm ?f) = (Done got, calm ?f)"
    by (simp add: fs_read_some_def io_bind_def calm_calls got_def)
  have c: "take (length copied) data = copied" by (rule "1.prems"(1))
  show ?case
  proof (cases "got = []")
    case True
    then have d: "data = copied" using c by (simp add: got_def)
    show ?thesis by (subst copy_loop.simps, simp only: io_bind_def r True) (simp add: calm_calls d)
  next
    case False
    obtain k where k: "got = take k (drop (length copied) data)" unfolding got_def by blast
    then have t: "copied @ got = take (length copied + k) data" using c by (simp add: take_add)
    then have t': "take (length (copied @ got)) data = copied @ got"
      by (metis min.cobounded2 take_take length_take min.commute take_all_iff nat_le_linear)
    then have l: "length copied + length got \<le> length data" by (metis length_append length_take min.cobounded1)
    have a: "fs_append target got (calm ?f) = (Done (), calm (f(target \<mapsto> File (copied @ got))))"
      using calm_calls(6) [of ?f target copied got] by simp
    have "copy_loop chunk source target n (copied @ got) (calm (f(target \<mapsto> File (copied @ got)))) = (Done data, calm (f(target \<mapsto> File data)))"
      using "1.prems" False l by (intro "1.IH" t') auto
    with False l "1.prems" show ?thesis by (subst copy_loop.simps) (simp add: io_bind_def io_then_def r a)
  qed
qed

lemma calm_copy_checked:
  assumes "f source = Some (File data)" "f target = None" "length data = unat n" "hex_encode (sha256 data) = checksum"
  shows "copy_checked sha256 chunk source target n checksum (calm f) = (Done (), calm (f(target \<mapsto> File data)))"
proof -
  have "source \<noteq> target" using assms by auto
  moreover have "unat n < 2 ^ 64" using unsigned_less [of n] by simp
  ultimately have c: "copy_loop chunk source target (unat n) [] (calm (f(target \<mapsto> File []))) = (Done data, calm (f(target \<mapsto> File data)))"
    using assms by (intro calm_copy_loop) simp_all
  have "io_bind (copy_loop chunk source target (unat n) []) (\<lambda>copied.
      if length copied \<noteq> unat n \<or> hex_encode (sha256 copied) \<noteq> checksum then io_fail ''Backup checksum verification failed''
      else fs_sync_all target) (calm (f(target \<mapsto> File []))) = (Done (), calm (f(target \<mapsto> File data)))"
    by (simp add: io_bind_def c assms calm_calls)
  then show ?thesis
    by (simp add: copy_checked_def io_then_def io_bind_def io_on_error_def calm_calls assms)
qed


lemma calm_write_backup:
  assumes "canonicalize_path parent = Ok base" "f base = Some Other"
    and "folder = base @ ''/Yougori-backup-'' @ fresh" "f folder = None"
    and "f (folder @ ''/'' @ PAYLOAD) = None" "f (folder @ ''/'' @ MANIFEST) = None"
    and "f artifact = Some (File data)" "length data = unat (mf_size m)" "hex_encode (sha256 data) = mf_sha256 m"
    and "encode m = Some bs" "length bs \<le> MAX_MANIFEST"
  shows "write_backup sha256 chunk encode canonicalize_path fresh parent m artifact (calm f)
    = (Done (folder @ ''/'' @ MANIFEST), calm (f(folder \<mapsto> Other, folder @ ''/'' @ PAYLOAD \<mapsto> File data,
        folder @ ''/'' @ MANIFEST \<mapsto> File bs)))"
proof -
  have d: "artifact \<noteq> folder" "folder @ ''/'' @ PAYLOAD \<noteq> folder" "folder @ ''/'' @ MANIFEST \<noteq> folder"
    "folder @ ''/'' @ MANIFEST \<noteq> folder @ ''/'' @ PAYLOAD" using assms by (auto simp: PAYLOAD_def MANIFEST_def)
  let ?f = "f(folder \<mapsto> Other)"
  have c: "copy_checked sha256 chunk artifact (folder @ ''/'' @ PAYLOAD) (mf_size m) (mf_sha256 m) (calm ?f)
      = (Done (), calm (?f(folder @ ''/'' @ PAYLOAD \<mapsto> File data)))"
    using assms d by (intro calm_copy_checked) simp_all
  have e: "fs_create_dir folder (calm f) = (Done (), calm ?f)" using assms by (intro calm_calls)
  have n: "(?f(folder @ ''/'' @ PAYLOAD \<mapsto> File data)) (folder @ ''/'' @ MANIFEST) = None" using assms d by simp
  show ?thesis
    unfolding write_backup_def assms(1) io_of.simps io_bind_return Let_def assms(3) [symmetric]
    using assms(2,10,11) e c n by (simp add: io_then_def io_bind_def io_on_error_def calm_calls)
qed

lemma calm_check_disk:
  assumes "f artifact = Some (File data)" "disk_accepted cd m data"
  shows "check_disk cd m artifact (calm f) = (Done (), calm f)"
  using assms
  by (auto simp: check_disk_def disk_accepted_def validate_standalone_vm_def backup_has_vm_security_def io_then_def io_bind_def
      io_on_error_def calm_calls)

lemma calm_read_backup:
  assumes "g p = Some (File bs)" "length bs \<le> MAX_MANIFEST" "decode bs = Some m" "check_manifest m = Ok ()"
    and "env_provider (mf_environment m) = Some Qemu" "disk_accepted cd m data"
    and "with_file_name p PAYLOAD = d" "g d = Some (File data)" "length data = unat (mf_size m)" "hex_encode (cd_sha256 cd data) = mf_sha256 m"
    and "staged = staging @ ''/local-'' @ ii_artifact ids @ ''.data''" "g staged = None"
  shows "read_backup ac cd chunk decode staging ids p (calm g)
      = (Done \<lparr>bre_environment = restored_environment ids (mf_environment m),
           bre_snapshot = restored_snapshot ids (mf_size m) (mf_sha256 m) (mf_snapshot m),
           bre_connections = [], bre_artifact_path = staged\<rparr>, calm (g(staged \<mapsto> File data)))"
proof -
  have c: "copy_checked (cd_sha256 cd) chunk d staged (mf_size m) (mf_sha256 m) (calm g) = (Done (), calm (g(staged \<mapsto> File data)))"
    by (rule calm_copy_checked) (use assms in simp_all)
  have k: "check_disk cd m staged (calm (g(staged \<mapsto> File data))) = (Done (), calm (g(staged \<mapsto> File data)))"
    by (rule calm_check_disk) (use assms in simp_all)
  have t: "retag_artifact ac (cd_sha256 cd) staging ids m staged = io_return (staged, mf_size m, mf_sha256 m)"
    by (simp add: retag_artifact_def assms(5))
  have r: "regular_file p (calm g) = (Done (), calm g)" "fs_read p (calm g) = (Done bs, calm g)"
    by (rule calm_calls, rule assms)+
  show ?thesis
    unfolding read_backup_def io_then_def Let_def assms(11) [symmetric] assms(7)
    using assms(2) by (simp add: io_bind_def r assms(3,4) c k t io_return_def flip: not_less)
qed

section \<open>What an export leaves\<close>

definition backup_files :: "(bytes \<Rightarrow> bytes) \<Rightarrow> (Manifest \<Rightarrow> bytes option) \<Rightarrow> path \<Rightarrow> Manifest \<Rightarrow> path \<Rightarrow> files \<Rightarrow> files \<Rightarrow> bool" where
  "backup_files sha256 encode folder m artifact before f \<longleftrightarrow>
     (\<exists>data bs. before artifact = Some (File data) \<and> length data = unat (mf_size m) \<and> hex_encode (sha256 data) = mf_sha256 m
       \<and> encode m = Some bs \<and> length bs \<le> MAX_MANIFEST
       \<and> f = before(folder \<mapsto> Other, folder @ ''/'' @ PAYLOAD \<mapsto> File data, folder @ ''/'' @ MANIFEST \<mapsto> File bs))"

lemma holds_write_backup:
  assumes "canonicalize_path parent = Ok base" "folder = base @ ''/Yougori-backup-'' @ fresh"
  shows "holds (\<lambda>f. f = before) (write_backup sha256 chunk encode canonicalize_path fresh parent m artifact)
     (\<lambda>p f. p = folder @ ''/'' @ MANIFEST \<and> backup_files sha256 encode folder m artifact before f) (\<lambda>_. True) (\<lambda>_. True)"
    (is "holds _ _ ?Q _ _")
proof -
  let ?p = "folder @ ''/'' @ MANIFEST" and ?d = "folder @ ''/'' @ PAYLOAD"
  let ?f = "before(folder \<mapsto> Other)"
  let ?store = "case encode m of None \<Rightarrow> io_fail ''encode backup manifest''
       | Some data \<Rightarrow> if MAX_MANIFEST < length data then io_fail ''Backup metadata is too large''
           else io_then (fs_create_new ?p) (io_then (fs_write_all ?p data) (io_then (fs_sync_all ?p) (io_return ?p)))"
  let ?undo = "io_then (io_ignore (fs_remove_file ?p)) (io_then (io_ignore (fs_remove_file ?d)) (io_ignore (fs_remove_dir folder [?d, ?p])))"
  let ?copy = "copy_checked sha256 chunk artifact ?d (mf_size m) (mf_sha256 m)"
  have store: "holds (\<lambda>f. f = ?f(?d \<mapsto> File data)) ?store ?Q (\<lambda>_. True) (\<lambda>_. True)"
    if d: "?f artifact = Some (File data)" "length data = unat (mf_size m)" "hex_encode (sha256 data) = mf_sha256 m" for data
  proof (cases "encode m")
    case None
    then show ?thesis by (simp add: holds_refuse)
  next
    case (Some bs)
    have a: "before artifact = Some (File data)" using d by (auto split: if_splits)
    have w: "holds (\<lambda>f. f = (?f(?d \<mapsto> File data))(?p \<mapsto> File [])) (fs_write_all ?p bs)
        (\<lambda>_ f. f = ?f(?d \<mapsto> File data, ?p \<mapsto> File bs)) (\<lambda>_. True) (\<lambda>_. True)" by (rule holds_write_all) auto
    show ?thesis unfolding Some option.case
    proof (intro holds_if holds_refuse, rule holds_then [OF holds_create_new], rule holds_fact,
        rule holds_then [OF w], rule holds_then [OF holds_sync], rule holds_return)
      fix f assume "\<not> MAX_MANIFEST < length bs" "f = ?f(?d \<mapsto> File data, ?p \<mapsto> File bs)"
      then show "?Q ?p f" using Some d(2,3) a by (auto simp: backup_files_def)
    qed
  qed
  have "holds (\<lambda>f. f = before) (io_then (fs_create_dir folder) (io_on_error (io_then ?copy ?store) ?undo)) ?Q (\<lambda>_. True) (\<lambda>_. True)"
  proof (rule holds_then)
    show "holds (\<lambda>f. f = before) (fs_create_dir folder) (\<lambda>_ f. f = ?f) (\<lambda>_. True) (\<lambda>_. True)"
      unfolding fs_create_dir_def by (rule holds_call) (auto split: if_splits)
    show "holds (\<lambda>f. f = ?f) (io_on_error (io_then ?copy ?store) ?undo) ?Q (\<lambda>_. True) (\<lambda>_. True)"
      by (rule holds_ok, rule holds_then [OF holds_copy_checked], rule holds_pointwise) (use store in blast)
  qed
  then show ?thesis
    unfolding write_backup_def assms(1) io_of.simps io_bind_return Let_def assms(2) [symmetric]
    by (auto simp: holds_def io_fail_def)
qed

text \<open>
  Writing a backup, however it ends, changes nothing but its own new folder and the two files in it. When it
  returns the manifest's path, the folder holds the whole disk, checked against the manifest, and the manifest.
\<close>

theorem backup_written_whole:
  assumes "canonicalize_path parent = Ok base" "folder = base @ ''/Yougori-backup-'' @ fresh"
    and "write_backup sha256 chunk encode canonicalize_path fresh parent m artifact w = (r, w')"
  shows "same_elsewhere {folder, folder @ ''/'' @ PAYLOAD, folder @ ''/'' @ MANIFEST} (w_files w) (w_files w')
    \<and> (\<forall>p. r = Done p \<longrightarrow> p = folder @ ''/'' @ MANIFEST \<and> backup_files sha256 encode folder m artifact (w_files w) (w_files w'))"
proof -
  let ?b = "write_backup sha256 chunk encode canonicalize_path fresh parent m artifact"
  have k: "keeps {folder, folder @ ''/'' @ PAYLOAD, folder @ ''/'' @ MANIFEST} ?b"
    by (rule keeps_write_backup, rule assms, rule assms) simp
  have h: "holds (\<lambda>f. f = w_files w) ?b (\<lambda>p f. p = folder @ ''/'' @ MANIFEST \<and> backup_files sha256 encode folder m artifact (w_files w) f)
      (\<lambda>_. True) (\<lambda>_. True)" by (rule holds_write_backup) (rule assms)+
  show ?thesis using keepsD [OF k assms(3)] holdsD [OF h refl assms(3)] by (cases r) simp_all
qed

lemma export_steps:
  assumes "export_backup cd chunk encode canonicalize_path er fresh snapshot_uuid now st i parent w = (Done p, w')"
    and "List.find (\<lambda>e. env_id e = i) (environments st) = Some e"
    and "er_take er e (''snap-'' @ snapshot_uuid) w = (Done (q, n, checksum), w1)"
  shows "supported e = Ok () \<and> (\<exists>version w2 w3 m. manifest_version cd e q w1 = (Done version, w2)
    \<and> m = \<lparr>mf_version = version, mf_environment = portable_environment e,
            mf_snapshot = local_snapshot (''snap-'' @ snapshot_uuid) now e n checksum, mf_size = n, mf_sha256 = checksum\<rparr>
    \<and> write_backup (cd_sha256 cd) chunk encode canonicalize_path fresh parent m q w2 = (Done p, w3)
    \<and> w' = snd (er_remove er e (''snap-'' @ snapshot_uuid) q w3))"
proof -
  obtain e' where e': "check_export st i = Ok e'"
    using assms(1) by (cases "check_export st i") (auto simp: export_backup_def io_bind_def io_fail_def)
  then have c: "supported e = Ok ()" "check_export st i = Ok e"
    using assms(2) by (auto simp: check_export_def split: if_splits result.splits)
  show ?thesis using assms(1,3) c
    unfolding export_backup_def Let_def
    by (auto simp: io_bind_def io_result_def io_return_def io_fail_def split: outcome.splits prod.splits result.splits)
qed

lemma manifest_version_done:
  assumes "manifest_version cd e q w = (Done version, w')" "w_files w q = Some (File data)"
  shows "w_files w' = w_files w \<and> (version = 1 \<or> version = 2) \<and> (version = 2 \<longrightarrow> (\<exists>b. vm_read_backup cd data = Ok (Some b)))"
proof (cases "env_provider e = Some Qemu")
  case True
  obtain r w1 where b: "backup_has_vm_security cd q w = (r, w1)" by fastforce
  from holdsD [OF holds_vm_security refl b] assms True show ?thesis
    by (cases r) (auto simp: manifest_version_def io_bind_def io_return_def b split: if_splits)
qed (use assms in \<open>auto simp: manifest_version_def io_return_def\<close>)

text \<open>
  C22. A backup of a virtual machine that was exported can be imported, whatever went wrong on the way to the export's
  success: if the runtime gave the export a standalone disk of at most 2 TiB and removes nothing but files of its own, then
  an import without faults of the manifest that the export returned gives back the same disk and the exported environment,
  stopped, under a new identity, and otherwise as it was. JSON is assumed to give back this environment's manifests, and
  SHA-256 to give 32 bytes.
\<close>

theorem exported_backup_imports:
  assumes "export_backup cd chunk encode canonicalize_path er fresh snapshot_uuid now st i parent w = (Done p, w')"
    and "List.find (\<lambda>e. env_id e = i) (environments st) = Some e" "env_provider e = Some Qemu"
    and "er_take er e (''snap-'' @ snapshot_uuid) w = (Done (q, n, checksum), w1)" "w_files w1 q = Some (File data)"
    and "standalone_disk data" "length data \<le> 2 ^ 41"
    and "canonicalize_path parent = Ok base" "folder = base @ ''/Yougori-backup-'' @ fresh"
    and "keeps own (er_remove er e (''snap-'' @ snapshot_uuid) q)" "folder @ ''/'' @ PAYLOAD \<notin> own" "folder @ ''/'' @ MANIFEST \<notin> own"
    and "\<And>m bs. env_id (mf_environment m) = i \<Longrightarrow> encode m = Some bs \<Longrightarrow> decode bs = Some m"
    and "length (cd_sha256 cd data) = 32"
    and "staged = staging @ ''/local-'' @ ii_artifact ids @ ''.data''" "w_files w' staged = None"
  shows "\<exists>b. read_backup ac cd chunk' decode staging ids p (calm (w_files w')) = (Done b, calm ((w_files w')(staged \<mapsto> File data)))
    \<and> sanitized ids e b \<and> bre_artifact_path b = staged
    \<and> snap_artifact_size_bytes (bre_snapshot b) = Some n \<and> snap_checksum_sha256 (bre_snapshot b) = Some checksum"
proof -
  let ?id = "''snap-'' @ snapshot_uuid" and ?p = "folder @ ''/'' @ MANIFEST" and ?d = "folder @ ''/'' @ PAYLOAD"
  from export_steps [OF assms(1,2,4)] obtain version w2 w3 m where
    s: "supported e = Ok ()" "manifest_version cd e q w1 = (Done version, w2)"
    and m: "m = \<lparr>mf_version = version, mf_environment = portable_environment e,
            mf_snapshot = local_snapshot ?id now e n checksum, mf_size = n, mf_sha256 = checksum\<rparr>"
    and wr: "write_backup (cd_sha256 cd) chunk encode canonicalize_path fresh parent m q w2 = (Done p, w3)"
    and w': "w' = snd (er_remove er e ?id q w3)" by blast
  note v = manifest_version_done [OF s(2) assms(5)]
  have h: "holds (\<lambda>f. f = w_files w2) (write_backup (cd_sha256 cd) chunk encode canonicalize_path fresh parent m q)
      (\<lambda>p f. p = ?p \<and> backup_files (cd_sha256 cd) encode folder m q (w_files w2) f) (\<lambda>_. True) (\<lambda>_. True)"
    by (rule holds_write_backup) (rule assms)+
  have "p = ?p \<and> backup_files (cd_sha256 cd) encode folder m q (w_files w2) (w_files w3)" using holdsD [OF h refl wr] by simp
  then obtain bs where f: "p = ?p" "length data = unat n" "hex_encode (cd_sha256 cd data) = checksum" "encode m = Some bs"
    "length bs \<le> MAX_MANIFEST" "w_files w3 = (w_files w2)(folder \<mapsto> Other, ?d \<mapsto> File data, ?p \<mapsto> File bs)"
    using v assms(5) unfolding backup_files_def by (auto simp: m)
  have i: "env_id e = i" using assms(2) by (auto simp: find_Some_iff)
  have k: "w_files w' ?p = w_files w3 ?p" "w_files w' ?d = w_files w3 ?d"
    using assms(10-12) by (auto simp: w' keeps_def same_elsewhere_def)
  have g: "w_files w' ?p = Some (File bs)" "w_files w' ?d = Some (File data)"
    unfolding k f(6) by (simp_all add: PAYLOAD_def MANIFEST_def)
  have "supported (portable_environment e) = supported e" by (simp add: supported_def portable_environment_def)
  then have "portable (portable_environment e)" using s(1) by (simp flip: supported_iff)
  then have imp: "importable cd m data" using v f(2,3) assms(6,7)
    by (auto simp: importable_def m standalone_disk_def)
  note c = importable_accepted [OF imp assms(14)]
  have "decode bs = Some m" using assms(13) f(4) i by (simp add: m portable_environment_def)
  moreover have "with_file_name ?p PAYLOAD = ?d" by (simp add: with_file_name_def MANIFEST_def)
  ultimately have r: "read_backup ac cd chunk' decode staging ids p (calm (w_files w'))
      = (Done \<lparr>bre_environment = restored_environment ids (mf_environment m),
           bre_snapshot = restored_snapshot ids (mf_size m) (mf_sha256 m) (mf_snapshot m),
           bre_connections = [], bre_artifact_path = staged\<rparr>, calm ((w_files w')(staged \<mapsto> File data)))"
    using c g f(1-3,5) assms(3,15,16) by (intro calm_read_backup) (auto simp: m portable_environment_def)
  have "kept_part (portable_environment e) = kept_part e" "env_name (portable_environment e) = env_name e"
    by (simp_all add: kept_part_def portable_environment_def)
  then have "sanitized ids e \<lparr>bre_environment = restored_environment ids (mf_environment m),
      bre_snapshot = restored_snapshot ids (mf_size m) (mf_sha256 m) (mf_snapshot m), bre_connections = [], bre_artifact_path = staged\<rparr>"
    using sanitized_restored [of ids "mf_environment m" "mf_size m" "mf_sha256 m" "mf_snapshot m" staged]
    unfolding sanitized_def Let_def by (simp add: m)
  then show ?thesis using r by (auto simp: m restored_snapshot_def)
qed

text \<open>
  An export whose temporary disk image cannot be inspected returns at once and leaves the image behind: the
  removal that follows every other outcome is skipped.
\<close>

theorem export_leaves_artifact:
  assumes "check_export st i = Ok e" "env_provider e = Some Qemu"
    and "er_take er e (''snap-'' @ snapshot_uuid) (calm f) = (Done (p, n, checksum), calm g)"
    and "g p = Some (File bs)" "vm_read_backup cd bs = Err x"
  shows "export_backup cd chunk encode canonicalize_path er fresh snapshot_uuid now st i folder (calm f)
    = (Failed (OperationRefused x), calm g)"
  using assms
  by (simp add: export_backup_def Let_def io_bind_def manifest_version_def backup_has_vm_security_def calm_calls io_fail_def)


section \<open>Examples\<close>

definition example_disk :: bytes where
  "example_disk = [0x51, 0x46, 0x49, 0xfb, 0, 0, 0, 2] @ replicate 96 0"

definition backup_env :: Environment where
  "backup_env = (example_env ''env-1'' FullVm Stopped)\<lparr>env_provider := Some Qemu, env_runtime_path := Some ''/vm/disk''\<rparr>"

definition example_manifest :: Manifest where
  "example_manifest = \<lparr>mf_version = 1, mf_environment = portable_environment backup_env,
     mf_snapshot = local_snapshot ''snap-1'' ''now'' backup_env 104 (replicate 64 (CHR ''0'')), mf_size = 104,
     mf_sha256 = replicate 64 (CHR ''0'')\<rparr>"

definition example_ids :: import_ids where
  "example_ids = \<lparr>ii_artifact = ''1'', ii_retagged = ''2'', ii_snapshot = ''3'', ii_environment = ''4'', ii_now = ''now''\<rparr>"

definition backup_tree :: files where
  "backup_tree = Map.empty(''/home'' \<mapsto> Other, ''/vm/snap'' \<mapsto> File example_disk)"

definition example_archive :: archive_codec where
  "example_archive = \<lparr>ac_entries = (\<lambda>_. [Ok \<lparr>te_path = Ok (Some ''./index.json''),
       te_header = \<lparr>th_kind = RegularEntry, th_size = 2, th_rest = []\<rparr>, te_size = 2, te_data = [1]\<rparr>]),
     ac_record = (\<lambda>h d. d), ac_trailer = [0], ac_checksum = (\<lambda>h. h),
     ac_parse = (\<lambda>_. Ok (JArr [JStr ''opendock.local/snapshots:old''])), ac_print = (\<lambda>_. [7]), ac_lowercase = (\<lambda>s. s)\<rparr>"

lemma example_disk_hash: "length example_disk = 104" "hex_encode (replicate 32 0) = replicate 64 (CHR ''0'')"
  by (simp_all add: example_disk_def) code_simp

lemma example_disk_standalone: "standalone_vm example_disk = Ok ()"
  by code_simp

lemma example_hash: "cd_sha256 example_codecs bs = replicate 32 0"
  by (simp add: example_codecs_def)

lemma backup_env_supported: "supported backup_env = Ok ()" "supported (portable_environment backup_env) = Ok ()"
  by (simp_all add: supported_def backup_env_def portable_environment_def example_env_def validate_policy_Ok valid_range_def
      example_policy_def example_range_def)

lemma example_manifest_ok: "check_manifest example_manifest = Ok ()"
proof -
  have "valid_hash (replicate 64 (CHR ''0''))" by code_simp
  then show ?thesis by (simp add: check_manifest_def example_manifest_def backup_env_supported)
qed

lemma example_accepted: "disk_accepted example_codecs example_manifest example_disk"
  by (simp add: disk_accepted_def example_disk_standalone example_manifest_def)


lemma example_manifest_simps:
  "mf_size example_manifest = 104" "mf_sha256 example_manifest = replicate 64 (CHR ''0'')"
  "env_provider (mf_environment example_manifest) = Some Qemu"
  by (simp_all add: example_manifest_def portable_environment_def backup_env_def)

lemma example_export:
  "write_backup (cd_sha256 example_codecs) (\<lambda>_. 10) (\<lambda>_. Some [1]) Ok ''1'' ''/home'' example_manifest ''/vm/snap'' (calm backup_tree)
     = (Done (''/home/Yougori-backup-1/'' @ MANIFEST), calm (backup_tree(''/home/Yougori-backup-1'' \<mapsto> Other,
         ''/home/Yougori-backup-1/'' @ PAYLOAD \<mapsto> File example_disk, ''/home/Yougori-backup-1/'' @ MANIFEST \<mapsto> File [1])))"
proof -
  have "write_backup (cd_sha256 example_codecs) (\<lambda>_. 10) (\<lambda>_. Some [1]) Ok ''1'' ''/home'' example_manifest ''/vm/snap'' (calm backup_tree)
     = (Done (''/home/Yougori-backup-1'' @ ''/'' @ MANIFEST), calm (backup_tree(''/home/Yougori-backup-1'' \<mapsto> Other,
         ''/home/Yougori-backup-1'' @ ''/'' @ PAYLOAD \<mapsto> File example_disk, ''/home/Yougori-backup-1'' @ ''/'' @ MANIFEST \<mapsto> File [1])))"
    by (rule calm_write_backup)
      (simp_all add: backup_tree_def PAYLOAD_def MANIFEST_def example_manifest_simps example_disk_hash example_hash MAX_MANIFEST_def)
  then show ?thesis by simp
qed

definition exported_disk :: bytes where
  "exported_disk = [0x51, 0x46, 0x49, 0xfb, 0, 0, 0, 2] @ replicate 12 0 @ [0, 0, 0, 9] @ replicate 488 0"

definition example_er :: export_runtime where
  "example_er = \<lparr>er_take = (\<lambda>e i w. (Done (''/vm/snap'', 512, replicate 64 (CHR ''0'')), w\<lparr>w_files := (w_files w)(''/vm/snap'' \<mapsto> File exported_disk)\<rparr>)),
     er_remove = (\<lambda>e i p. fs_remove_file p)\<rparr>"

definition exported_manifest :: Manifest where
  "exported_manifest = \<lparr>mf_version = 1, mf_environment = portable_environment backup_env,
     mf_snapshot = local_snapshot ''snap-1'' ''now'' backup_env 512 (replicate 64 (CHR ''0'')), mf_size = 512,
     mf_sha256 = replicate 64 (CHR ''0'')\<rparr>"

definition example_encode_manifest :: "Manifest \<Rightarrow> bytes option" where
  "example_encode_manifest m = (if m = exported_manifest then Some [1] else None)"

definition home_tree :: files where
  "home_tree = Map.empty(''/home'' \<mapsto> Other)"

lemma exported_disk_plain: "vm_read_backup example_codecs exported_disk = Ok None"
  by code_simp

lemma exported_disk_standalone: "length exported_disk = 512" "standalone_disk exported_disk"
  by (simp add: exported_disk_def) code_simp

lemma example_exported:
  "\<exists>g. export_backup example_codecs (\<lambda>_. 10) example_encode_manifest Ok example_er ''1'' ''1'' ''now'' (example_state 1 [backup_env]) ''env-1'' ''/home'' (calm home_tree)
     = (Done (''/home/Yougori-backup-1'' @ ''/'' @ MANIFEST), calm g) \<and> g ''/staging/local-1.data'' = None"
proof -
  let ?f = "home_tree(''/vm/snap'' \<mapsto> File exported_disk)" and ?b = "''/home/Yougori-backup-1''"
  let ?g = "?f(?b \<mapsto> Other, ?b @ ''/'' @ PAYLOAD \<mapsto> File exported_disk, ?b @ ''/'' @ MANIFEST \<mapsto> File [1])"
  have w: "write_backup (cd_sha256 example_codecs) (\<lambda>_. 10) example_encode_manifest Ok ''1'' ''/home'' exported_manifest ''/vm/snap'' (calm ?f)
     = (Done (?b @ ''/'' @ MANIFEST), calm ?g)"
    by (rule calm_write_backup)
      (simp_all add: home_tree_def PAYLOAD_def MANIFEST_def exported_manifest_def example_encode_manifest_def exported_disk_standalone
        example_disk_hash example_hash MAX_MANIFEST_def)
  have c: "check_export (example_state 1 [backup_env]) ''env-1'' = Ok backup_env"
    by (simp add: check_export_def ensure_complete_def example_state_def backup_env_supported) (simp add: backup_env_def example_env_def)
  have "?f ''/vm/snap'' = Some (File exported_disk)" by simp
  then have v: "manifest_version example_codecs backup_env ''/vm/snap'' (calm ?f) = (Done 1, calm ?f)"
    by (simp add: manifest_version_def backup_has_vm_security_def io_bind_def calm_calls exported_disk_plain backup_env_def)
  have m: "\<lparr>mf_version = 1, mf_environment = portable_environment backup_env,
       mf_snapshot = local_snapshot ''snap-1'' ''now'' backup_env 512 (replicate 64 (CHR ''0'')), mf_size = 512, mf_sha256 = replicate 64 (CHR ''0'')\<rparr>
     = exported_manifest" by (simp only: exported_manifest_def)
  have d: "''/vm/snap'' \<noteq> ?b @ ''/'' @ PAYLOAD" "''/vm/snap'' \<noteq> ?b @ ''/'' @ MANIFEST" "''/vm/snap'' \<noteq> ?b"
    "''/staging/local-1.data'' \<noteq> ?b @ ''/'' @ PAYLOAD" "''/staging/local-1.data'' \<noteq> ?b @ ''/'' @ MANIFEST"
    by (simp_all add: PAYLOAD_def MANIFEST_def)
  have r: "fs_remove_file ''/vm/snap'' (calm ?g) = (Done (), calm (?g(''/vm/snap'' := None)))"
    using d by (simp add: fs_remove_file_def io_call_def del: append.simps)
  have "export_backup example_codecs (\<lambda>_. 10) example_encode_manifest Ok example_er ''1'' ''1'' ''now'' (example_state 1 [backup_env]) ''env-1'' ''/home'' (calm home_tree)
     = (Done (?b @ ''/'' @ MANIFEST), calm (?g(''/vm/snap'' := None)))"
    unfolding export_backup_def c io_of.simps io_bind_return Let_def example_er_def export_runtime.simps
    using w v m r by (simp add: io_bind_def io_result_def io_return_def)
  moreover have "(?g(''/vm/snap'' := None)) ''/staging/local-1.data'' = None" using d by (simp add: home_tree_def del: append.simps)
  ultimately show ?thesis by blast
qed

theorem exported_backup_imports_witness:
  "\<exists>p g b. export_backup example_codecs (\<lambda>_. 10) example_encode_manifest Ok example_er ''1'' ''1'' ''now'' (example_state 1 [backup_env]) ''env-1'' ''/home'' (calm home_tree)
       = (Done p, calm g)
     \<and> read_backup example_archive example_codecs (\<lambda>_. 7) (\<lambda>_. Some exported_manifest) ''/staging'' example_ids p (calm g)
       = (Done b, calm (g(''/staging/local-1.data'' \<mapsto> File exported_disk)))
     \<and> sanitized example_ids backup_env b"
proof -
  let ?b = "''/home/Yougori-backup-1''"
  obtain g where e: "export_backup example_codecs (\<lambda>_. 10) example_encode_manifest Ok example_er ''1'' ''1'' ''now'' (example_state 1 [backup_env]) ''env-1'' ''/home'' (calm home_tree)
       = (Done (?b @ ''/'' @ MANIFEST), calm g)" "g ''/staging/local-1.data'' = None" using example_exported by blast
  have f: "List.find (\<lambda>e. env_id e = ''env-1'') (environments (example_state 1 [backup_env])) = Some backup_env"
    "env_provider backup_env = Some Qemu"
    by (simp_all add: example_state_def backup_env_def example_env_def)
  have t: "er_take example_er backup_env (''snap-'' @ ''1'') (calm home_tree)
      = (Done (''/vm/snap'', 512, replicate 64 (CHR ''0'')), calm (home_tree(''/vm/snap'' \<mapsto> File exported_disk)))"
    by (simp add: example_er_def)
  have k: "keeps {''/vm/snap''} (er_remove example_er backup_env (''snap-'' @ ''1'') ''/vm/snap'')"
    by (simp add: example_er_def keeps_rules)
  have s: "''/staging/local-1.data'' = ''/staging'' @ ''/local-'' @ ii_artifact example_ids @ ''.data''" by (simp add: example_ids_def)
  have b: "?b = ''/home'' @ ''/Yougori-backup-'' @ ''1''" by simp
  have "\<exists>b. read_backup example_archive example_codecs (\<lambda>_. 7) (\<lambda>_. Some exported_manifest) ''/staging'' example_ids (?b @ ''/'' @ MANIFEST) (calm (w_files (calm g)))
      = (Done b, calm ((w_files (calm g))(''/staging/local-1.data'' \<mapsto> File exported_disk)))
    \<and> sanitized example_ids backup_env b \<and> bre_artifact_path b = ''/staging/local-1.data''
    \<and> snap_artifact_size_bytes (bre_snapshot b) = Some 512 \<and> snap_checksum_sha256 (bre_snapshot b) = Some (replicate 64 (CHR ''0''))"
    by (rule exported_backup_imports [OF e(1) f t _ exported_disk_standalone(2) _ _ b k _ _ _ _ s])
      (simp_all add: e(2) exported_disk_standalone(1) PAYLOAD_def MANIFEST_def example_hash example_encode_manifest_def split: if_splits)
  with e(1) show ?thesis by auto
qed

theorem backup_written_whole_witness:
  "\<exists>g. same_elsewhere {''/home/Yougori-backup-1'', ''/home/Yougori-backup-1'' @ ''/'' @ PAYLOAD, ''/home/Yougori-backup-1'' @ ''/'' @ MANIFEST}
      backup_tree g
    \<and> backup_files (cd_sha256 example_codecs) (\<lambda>_. Some [1]) ''/home/Yougori-backup-1'' example_manifest ''/vm/snap'' backup_tree g"
proof -
  have f: "''/home/Yougori-backup-1'' = ''/home'' @ ''/Yougori-backup-'' @ ''1''" by simp
  note w = backup_written_whole [OF refl f example_export, unfolded world.simps]
  show ?thesis
  proof (rule exI, rule conjI)
    show "same_elsewhere {''/home/Yougori-backup-1'', ''/home/Yougori-backup-1'' @ ''/'' @ PAYLOAD, ''/home/Yougori-backup-1'' @ ''/'' @ MANIFEST}
      backup_tree (backup_tree(''/home/Yougori-backup-1'' \<mapsto> Other,
         ''/home/Yougori-backup-1/'' @ PAYLOAD \<mapsto> File example_disk, ''/home/Yougori-backup-1/'' @ MANIFEST \<mapsto> File [1]))"
      by (rule conjunct1 [OF w])
    show "backup_files (cd_sha256 example_codecs) (\<lambda>_. Some [1]) ''/home/Yougori-backup-1'' example_manifest ''/vm/snap'' backup_tree
      (backup_tree(''/home/Yougori-backup-1'' \<mapsto> Other,
         ''/home/Yougori-backup-1/'' @ PAYLOAD \<mapsto> File example_disk, ''/home/Yougori-backup-1/'' @ MANIFEST \<mapsto> File [1]))"
      by (rule conjunct2 [OF mp [OF spec [OF conjunct2 [OF w]] refl]])
  qed
qed

definition import_tree :: files where
  "import_tree = Map.empty(''/b/'' @ MANIFEST \<mapsto> File [1], ''/b/'' @ PAYLOAD \<mapsto> File example_disk)"

lemma example_import:
  "read_backup example_archive example_codecs (\<lambda>_. 7) (\<lambda>_. Some example_manifest) ''/staging'' example_ids (''/b/'' @ MANIFEST) (calm import_tree)
     = (Done \<lparr>bre_environment = restored_environment example_ids (mf_environment example_manifest),
          bre_snapshot = restored_snapshot example_ids (mf_size example_manifest) (mf_sha256 example_manifest) (mf_snapshot example_manifest),
          bre_connections = [], bre_artifact_path = ''/staging/local-1.data''\<rparr>, calm (import_tree(''/staging/local-1.data'' \<mapsto> File example_disk)))"
  by (rule calm_read_backup [where bs = "[1]" and d = "''/b/'' @ PAYLOAD"])
    (simp_all add: import_tree_def PAYLOAD_def MANIFEST_def with_file_name_def example_manifest_simps example_disk_hash example_hash MAX_MANIFEST_def
      example_manifest_ok example_accepted example_ids_def)

theorem import_sanitized_witness:
  "\<exists>b g. same_elsewhere {''/staging/local-1.data'', ''/staging/local-2.data''} import_tree g
    \<and> imported example_codecs example_ids ''/staging/local-1.data'' ''/staging/local-2.data'' example_manifest example_disk g b"
proof -
  have "with_file_name (''/b/'' @ MANIFEST) PAYLOAD = ''/b/'' @ PAYLOAD" by (simp add: with_file_name_def MANIFEST_def)
  then have d: "import_tree (with_file_name (''/b/'' @ MANIFEST) PAYLOAD) = Some (File example_disk)" by (simp add: import_tree_def)
  have "''/staging/local-1.data'' = ''/staging'' @ ''/local-'' @ ii_artifact example_ids @ ''.data''"
    "''/staging/local-2.data'' = ''/staging'' @ ''/local-'' @ ii_retagged example_ids @ ''.data''" by (simp_all add: example_ids_def)
  note i = import_sanitized [OF example_import this, unfolded world.simps]
  from mp [OF spec [OF conjunct2 [OF i]] refl] d show ?thesis using conjunct1 [OF i] by (metis fnode.inject(1) option.inject)
qed

lemma example_retag:
  "\<exists>n c w'. retag_container example_archive (\<lambda>_. []) ''/a'' ''/b'' ''old'' ''new'' (calm (Map.empty(''/a'' \<mapsto> File [5]))) = (Done (n, c), w')"
proof -
  have p: "container_archive_path (Some ''./index.json'') = Ok ''index.json''" by code_simp
  have e: "retag_entry example_archive ''old'' ''new'' [] \<lparr>te_path = Ok (Some ''./index.json''),
       te_header = \<lparr>th_kind = RegularEntry, th_size = 2, th_rest = []\<rparr>, te_size = 2, te_data = [1]\<rparr>
     = Ok ([''index.json''], True, \<lparr>th_kind = RegularEntry, th_size = Suc 0, th_rest = []\<rparr>, [7])"
    by (simp add: retag_entry_def p Let_def MAX_MANIFEST_def example_archive_def snapshot_tag_def)
  have a: "ac_entries example_archive bs = [Ok \<lparr>te_path = Ok (Some ''./index.json''),
       te_header = \<lparr>th_kind = RegularEntry, th_size = 2, th_rest = []\<rparr>, te_size = 2, te_data = [1]\<rparr>]" for bs
    by (simp add: example_archive_def)
  show ?thesis
    by (simp add: retag_container_def io_then_def io_bind_def io_on_error_def calm_calls a e)
qed

theorem retag_only_metadata_witness:
  "\<exists>outs g en json. list_all2 (retagged example_archive ''old'' ''new'') (ac_entries example_archive [5]) outs
    \<and> Ok en \<in> set (ac_entries example_archive [5]) \<and> ac_parse example_archive (te_data en) = Ok json
    \<and> has_tag (snapshot_tag example_archive ''old'') json
    \<and> g = Map.empty(''/a'' \<mapsto> File [5], ''/b'' \<mapsto> File (archive_bytes example_archive outs @ ac_trailer example_archive))"
proof -
  obtain n c w' where r: "retag_container example_archive (\<lambda>_. []) ''/a'' ''/b'' ''old'' ''new'' (calm (Map.empty(''/a'' \<mapsto> File [5]))) = (Done (n, c), w')"
    using example_retag by blast
  from retag_only_metadata [OF r] obtain bs outs en json where
    "(Map.empty(''/a'' \<mapsto> File [5])) ''/a'' = Some (File bs)" "list_all2 (retagged example_archive ''old'' ''new'') (ac_entries example_archive bs) outs"
    "Ok en \<in> set (ac_entries example_archive bs)" "ac_parse example_archive (te_data en) = Ok json"
    "has_tag (snapshot_tag example_archive ''old'') json"
    "w_files w' = Map.empty(''/a'' \<mapsto> File [5], ''/b'' \<mapsto> File (archive_bytes example_archive outs @ ac_trailer example_archive))"
    unfolding world.simps by blast
  moreover from this(1) have "bs = [5]" by simp
  ultimately show ?thesis by blast
qed

theorem export_leaves_artifact_witness:
  "export_backup example_codecs (\<lambda>_. 10) (\<lambda>_. Some [1]) Ok
     \<lparr>er_take = (\<lambda>e i w. (Done (''/vm/snap'', 1, []), w\<lparr>w_files := (w_files w)(''/vm/snap'' \<mapsto> File [0])\<rparr>)), er_remove = (\<lambda>e i p. fs_remove_file p)\<rparr>
     ''1'' ''2'' ''now'' (example_state 1 [backup_env]) ''env-1'' ''/home'' (calm Map.empty)
   = (Failed (OperationRefused ''Read backup header''), calm (Map.empty(''/vm/snap'' \<mapsto> File [0])))"
  by (rule export_leaves_artifact [where e = backup_env and p = "''/vm/snap''" and bs = "[0]"])
    (simp_all add: check_export_def ensure_complete_def example_state_def backup_env_supported, simp_all add: backup_env_def example_env_def
      vm_read_backup_def extensions_def)

end
