(* ===== verification/Snapshots.thy ===== *)
theory Snapshots
  imports Lifecycle Local_Backup
begin

text \<open>
  Snapshots and restored backups, as the desktop commands manage them (\<open>src-tauri/src/commands.rs\<close>): taking,
  deleting and restoring a snapshot, the retention limit, and the installation of a backup that was read
  (\<open>local_backup.rs\<close> reads it and cleans up after a failure). What the runtime answers is a parameter; the calls
  made to it are kept in order, beside the engine of \<open>Connections\<close>, which holds the platform state. At the end, the connections through all
  commands that change them.
\<close>

section \<open>The runtime's part\<close>

datatype snapshot_call =
    DeleteContainerSnapshot string string | DeleteVmSnapshot string path string
  | RemoveArtifact path | DeleteStaged path
  | TakeSnapshot string string | StopExisting string
  | RegisterContainer string | RegisterSnapshot string | ImportSnapshot string path
  | RestoreContainer string string | LimitContainer string | DeleteContainer string
  | UpdateInternet string bool | RestoreVm string string
  | InstallDisk string path | RollbackDisk string | FinalizeDisk string
  | BranchBoot string | MicroManifest string | InspectArtifact path | RequireCuda

text \<open>A taken or imported snapshot: its name at the provider, its file, the size and the checksum.\<close>

type_synonym taken = "string option \<times> path option \<times> u64 \<times> string option"

record snapshot_runtime =
  sr_runtime :: runtime
  sr_answer :: "snapshot_call \<Rightarrow> (unit, string) result"
  sr_take :: "string \<Rightarrow> (string \<times> path \<times> u64 \<times> string, string) result"
  sr_import :: "string \<Rightarrow> path \<Rightarrow> (string \<times> path \<times> u64 \<times> string, string) result"
  sr_secure :: "(bool, string) result"
  sr_export :: "(path \<times> u64 \<times> string, string) result"
  sr_vm_size :: "(u64, string) result"
  sr_disk :: "(path, string) result"
  sr_length :: "(u64, string) result"

record desk =
  dk_engine :: engine
  dk_calls :: "snapshot_call list"

abbreviation dk_state :: "desk \<Rightarrow> PlatformState" where
  "dk_state d \<equiv> eng_state (dk_engine d)"

definition asked :: "snapshot_call \<Rightarrow> desk \<Rightarrow> desk" where
  "asked c d = d\<lparr>dk_calls := dk_calls d @ [c]\<rparr>"

definition ask :: "snapshot_runtime \<Rightarrow> snapshot_call \<Rightarrow> desk \<Rightarrow> (unit, string) result \<times> desk" where
  "ask sr c d = (sr_answer sr c, asked c d)"

definition and_then :: "('a, string) result \<times> desk \<Rightarrow> ('a \<Rightarrow> desk \<Rightarrow> ('b, string) result \<times> desk) \<Rightarrow> ('b, string) result \<times> desk" where
  "and_then m k = (case m of (Ok x, d) \<Rightarrow> k x d | (Err e, d) \<Rightarrow> (Err e, d))"

lemma and_then_simps [simp]: "and_then (Ok x, d) k = k x d" "and_then (Err e, d) k = (Err e, d)"
  by (simp_all add: and_then_def)

definition on_engine :: "(engine \<Rightarrow> 'a \<times> engine) \<Rightarrow> desk \<Rightarrow> 'a \<times> desk" where
  "on_engine m d = (case m (dk_engine d) of (r, eng) \<Rightarrow> (r, d\<lparr>dk_engine := eng\<rparr>))"

definition commit :: "snapshot_runtime \<Rightarrow> (PlatformState \<Rightarrow> (PlatformState, string) result) \<Rightarrow> desk
    \<Rightarrow> (PlatformState, string) result \<times> desk" where
  "commit sr operation = on_engine (mutate (sr_runtime sr) operation)"

text \<open>The message of a failed call, as an element of the list that is joined in the end.\<close>

fun errors_of :: "('a, string) result \<Rightarrow> string list" where
  "errors_of (Ok _) = []"
| "errors_of (Err e) = [e]"

definition gigabytes :: "u64 \<Rightarrow> f64" where
  "gigabytes n = f_div (f_of_nat (unat n)) (Fin 1073741824)"

section \<open>Removing a snapshot's resources\<close>

definition cleanup_provider :: "snapshot_runtime \<Rightarrow> Snapshot \<Rightarrow> PlatformState \<Rightarrow> desk \<Rightarrow> (string list, string) result \<times> desk" where
  "cleanup_provider sr s st d =
     (let e = find_env st (snap_environment_id s);
          p = (case e of Some e \<Rightarrow> Some (provider e) | None \<Rightarrow> Option.bind (snap_environment_state s) ses_provider);
          rid = (case e of Some e \<Rightarrow> runtime_id e | None \<Rightarrow> snap_environment_id s)
      in case p of
           Some CloudSsh \<Rightarrow> (Err ''Cloud nodes do not have local snapshots'', d)
         | Some NativeSandbox \<Rightarrow> (Ok [], d)
         | None \<Rightarrow> (Ok [], d)
         | Some Qemu \<Rightarrow>
             (case (snap_provider_snapshot_id s, e) of
                (Some _, Some e) \<Rightarrow>
                  (case env_runtime_path e of
                     Some disk \<Rightarrow> (case ask sr (DeleteVmSnapshot (runtime_id e) disk (snap_id s)) d of (r, d) \<Rightarrow> (Ok (errors_of r), d))
                   | None \<Rightarrow> (Ok [''virtual machine disk metadata is missing''], d))
              | _ \<Rightarrow> (Ok [], d))
         | Some _ \<Rightarrow> (case ask sr (DeleteContainerSnapshot rid (snap_id s)) d of (r, d) \<Rightarrow> (Ok (errors_of r), d)))"

definition cleanup_artifact :: "snapshot_runtime \<Rightarrow> Snapshot \<Rightarrow> desk \<Rightarrow> string list \<times> desk" where
  "cleanup_artifact sr s d =
     (case snap_artifact_path s of
        None \<Rightarrow> ([], d)
      | Some p \<Rightarrow>
          (case ask sr (RemoveArtifact p) d of
             (Ok _, d) \<Rightarrow> ([], d)
           | (Err e, d) \<Rightarrow>
               (case ask sr (DeleteStaged p) d of
                  (Ok _, d) \<Rightarrow> ([], d)
                | (Err e', d) \<Rightarrow> ([e @ ''; '' @ e'], d))))"

definition cleanup_snapshot_resources :: "snapshot_runtime \<Rightarrow> Snapshot \<Rightarrow> PlatformState \<Rightarrow> desk \<Rightarrow> (unit, string) result \<times> desk" where
  "cleanup_snapshot_resources sr s st d =
     and_then (cleanup_provider sr s st d) (\<lambda>errors d.
       let (more_errors, d) = cleanup_artifact sr s d; errors = errors @ more_errors
       in (if errors = [] then Ok () else Err (join ''; '' (remdups_adj (sort errors))), d))"

section \<open>Retention\<close>

definition drop_snapshot :: "string \<Rightarrow> PlatformState \<Rightarrow> PlatformState" where
  "drop_snapshot i st = st\<lparr>snapshots := filter (\<lambda>s. snap_id s \<noteq> i) (snapshots st)\<rparr>"

lemma asked_state [simp]: "dk_engine (asked c d) = dk_engine d"
  by (simp add: asked_def)

lemma ask_state: "ask sr c d = (r, d') \<Longrightarrow> dk_engine d' = dk_engine d"
  by (auto simp: ask_def)

lemma cleanup_provider_state: "cleanup_provider sr s st d = (r, d') \<Longrightarrow> dk_engine d' = dk_engine d"
  by (auto simp: cleanup_provider_def Let_def ask_def split: option.splits RuntimeProviderKind.splits)

lemma cleanup_artifact_state: "cleanup_artifact sr s d = (r, d') \<Longrightarrow> dk_engine d' = dk_engine d"
  by (auto simp: cleanup_artifact_def ask_def split: option.splits result.splits)

lemma cleanup_state: "cleanup_snapshot_resources sr s st d = (r, d') \<Longrightarrow> dk_engine d' = dk_engine d"
  by (auto simp: cleanup_snapshot_resources_def and_then_def Let_def split: prod.splits result.splits
      dest!: cleanup_provider_state cleanup_artifact_state)

lemma commit_Ok:
  assumes "commit sr operation d = (Ok st, d')"
  shows "operation (dk_state d) = Ok st \<and> dk_state d' = st \<and> dk_calls d' = dk_calls d \<and> eng_calls (dk_engine d') = eng_calls (dk_engine d)"
proof -
  obtain eng where m: "mutate (sr_runtime sr) operation (dk_engine d) = (Ok st, eng)" and d: "d' = d\<lparr>dk_engine := eng\<rparr>"
    using assms by (auto simp: commit_def on_engine_def split: prod.splits)
  show ?thesis using mutate_Ok [OF m] by (simp add: d)
qed

lemma commit_Err: "commit sr operation d = (Err e, d') \<Longrightarrow> d' = d"
  unfolding commit_def on_engine_def by (auto split: prod.splits dest: mutate_Err)

function enforce_snapshot_retention :: "snapshot_runtime \<Rightarrow> desk \<Rightarrow> (PlatformState, string) result \<times> desk" where
  "enforce_snapshot_retention sr d =
     (let st = dk_state d; retention = max (set_snapshot_retention (settings st)) 1
      in if length (snapshots st) \<le> retention then (Ok st, d)
         else
           (let s = snapshots st ! retention
            in case cleanup_snapshot_resources sr s st d of
                 (Err e, d') \<Rightarrow> (Err e, d')
               | (Ok _, d') \<Rightarrow>
                   (case commit sr (\<lambda>st. Ok (drop_snapshot (snap_id s) st)) d' of
                      (Err e, d'') \<Rightarrow> (Err e, d'')
                    | (Ok _, d'') \<Rightarrow> enforce_snapshot_retention sr d'')))"
  by pat_completeness auto
termination
proof (relation "measure (\<lambda>(sr, d). length (snapshots (dk_state d)))", goal_cases)
  case (2 sr d st retention s r d' x r' d'' st')
  have e: "dk_engine d' = dk_engine d" using cleanup_state 2 by metis
  have "commit sr (\<lambda>st. Ok (drop_snapshot (snap_id s) st)) d' = (Ok st', d'')" using 2(7,8) by simp
  from commit_Ok [OF this] have "dk_state d'' = drop_snapshot (snap_id s) (dk_state d)" using e by auto
  moreover have "s \<in> set (snapshots (dk_state d))" using 2(1,3,4) nth_mem not_le by blast
  then have "length (filter (\<lambda>x. snap_id x \<noteq> snap_id s) (snapshots (dk_state d))) < length (snapshots (dk_state d))"
    by (intro length_filter_less) auto
  ultimately show ?case by (simp add: drop_snapshot_def)
qed simp

declare enforce_snapshot_retention.simps [simp del]


section \<open>Taking and deleting\<close>

definition state_of_env :: "RuntimeProviderKind option \<Rightarrow> Environment \<Rightarrow> SnapshotEnvironmentState" where
  "state_of_env p e = \<lparr>ses_runtime = env_runtime e, ses_provider = p, ses_runtime_path = env_runtime_path e,
     ses_container_command = env_container_command e, ses_network_access = env_network_access e,
     ses_gpu_access = env_gpu_access e, ses_sandbox_policy = env_sandbox_policy e, ses_description = env_description e,
     ses_branch_type = env_branch_type e, ses_resource_policy = env_resource_policy e\<rparr>"

definition vm_disk :: "Environment \<Rightarrow> (path, string) result" where
  "vm_disk e = ok_or (env_runtime_path e) ''virtual machine disk metadata is missing''"

definition take_snapshot :: "snapshot_runtime \<Rightarrow> string \<Rightarrow> Environment \<Rightarrow> desk \<Rightarrow> (taken, string) result \<times> desk" where
  "take_snapshot sr i e d =
     (case provider e of
        CloudSsh \<Rightarrow> (Err ''Cloud nodes do not have local snapshots'', d)
      | NativeSandbox \<Rightarrow> (Err ''Snapshots for native application sandboxes are not available yet'', d)
      | Qemu \<Rightarrow>
          (case sr_secure sr of
             Err x \<Rightarrow> (Err x, d)
           | Ok secure \<Rightarrow>
               (case vm_disk e of
                  Err x \<Rightarrow> (Err x, d)
                | Ok _ \<Rightarrow>
                    (if secure then result_bind (sr_export sr) (\<lambda>(p, n, checksum). Ok (None, Some p, n, Some checksum))
                     else result_bind (sr_vm_size sr) (\<lambda>n. Ok (Some i, None, n, None)),
                     asked (TakeSnapshot (runtime_id e) i) d)))
      | _ \<Rightarrow> (result_bind (sr_take sr i) (\<lambda>(name, p, n, checksum). Ok (Some name, Some p, n, Some checksum)),
              asked (TakeSnapshot (runtime_id e) i) d))"

definition new_snapshot :: "string \<Rightarrow> string \<Rightarrow> string \<Rightarrow> Environment \<Rightarrow> Connection list \<Rightarrow> taken \<Rightarrow> Snapshot" where
  "new_snapshot i name now e cs t =
     (case t of (psid, artifact, n, checksum) \<Rightarrow>
        \<lparr>snap_id = i, snap_environment_id = env_id e, snap_name = name, snap_created_at = now, snap_size_gb = gigabytes n,
         snap_delta_gb = gigabytes n, snap_encrypted = False, snap_status = SnapReady, snap_provider_snapshot_id = psid,
         snap_artifact_path = artifact, snap_artifact_size_bytes = Some n, snap_checksum_sha256 = checksum,
         snap_environment_state = Some (state_of_env (Some (provider e)) e), snap_connections = Some cs\<rparr>)"

definition insert_snapshot :: "Snapshot \<Rightarrow> PlatformState \<Rightarrow> PlatformState" where
  "insert_snapshot s st = st\<lparr>snapshots := s # snapshots st\<rparr>"

definition create_snapshot :: "snapshot_runtime \<Rightarrow> string \<Rightarrow> string \<Rightarrow> string \<Rightarrow> desk \<Rightarrow> (PlatformState, string) result \<times> desk" where
  "create_snapshot sr uuid environment_id name d =
     (let name = trim name; st = dk_state d; i = ''snap-'' @ uuid
      in if name = [] \<or> 100 < length name then (Err ''Snapshot name must be between 1 and 100 characters'', d)
         else
           (case result_bind (ensure_complete st environment_id) (\<lambda>_. ok_or (find_env st environment_id) ''Environment not found'') of
              Err x \<Rightarrow> (Err x, d)
            | Ok e \<Rightarrow>
                and_then (take_snapshot sr i e d) (\<lambda>t d.
                  let s = new_snapshot i name (rt_now (sr_runtime sr)) e (filter (touches environment_id) (connections st)) t
                  in case commit sr (\<lambda>st. Ok (insert_snapshot s st)) d of
                       (Err x, d) \<Rightarrow>
                         (case cleanup_snapshot_resources sr s st d of
                            (Err y, d) \<Rightarrow> (Err (x @ ''; rollback snapshot: '' @ y), d)
                          | (Ok _, d) \<Rightarrow> (Err x, d))
                     | (Ok _, d) \<Rightarrow> enforce_snapshot_retention sr d)))"

definition delete_snapshot :: "snapshot_runtime \<Rightarrow> string \<Rightarrow> desk \<Rightarrow> (PlatformState, string) result \<times> desk" where
  "delete_snapshot sr i d =
     (case List.find (\<lambda>s. snap_id s = i) (snapshots (dk_state d)) of
        None \<Rightarrow> (Err ''Snapshot not found'', d)
      | Some s \<Rightarrow>
          and_then (cleanup_snapshot_resources sr s (dk_state d) d) (\<lambda>_ d. commit sr (\<lambda>st. Ok (drop_snapshot i st)) d))"

definition update_settings :: "bool \<Rightarrow> snapshot_runtime \<Rightarrow> AppSettings \<Rightarrow> desk \<Rightarrow> (PlatformState, string) result \<times> desk" where
  "update_settings macos sr se d =
     (if set_snapshot_retention se = 0 \<or> 365 < set_snapshot_retention se
      then (Err ''Snapshot retention must be between 1 and 365'', d)
      else if 100000 < set_bandwidth_limit_mbps se
      then (Err ''Backup bandwidth must be 0 (unlimited) or at most 100,000 Mbps'', d)
      else and_then (commit sr (\<lambda>st. scheduled macos (st\<lparr>settings := se\<rparr>)) d) (\<lambda>_ d. enforce_snapshot_retention sr d))"

section \<open>Replacing the disk of a virtual machine\<close>

text \<open>
  The intent is stored before the disk is replaced, so that a start after a crash puts the old disk back. The
  runtime keeps the old disk until it is told to finalize or to roll back.
\<close>

definition begin_vm_restore_intent :: "snapshot_runtime \<Rightarrow> string \<Rightarrow> desk \<Rightarrow> (unit, string) result \<times> desk" where
  "begin_vm_restore_intent sr i d =
     and_then (commit sr (\<lambda>st. Ok (if i \<in> set (pending_vm_restores st) then st
         else st\<lparr>pending_vm_restores := pending_vm_restores st @ [i]\<rparr>)) d) (\<lambda>_ d. (Ok (), d))"

definition clear_vm_restore_intent :: "snapshot_runtime \<Rightarrow> string \<Rightarrow> desk \<Rightarrow> (unit, string) result \<times> desk" where
  "clear_vm_restore_intent sr i d =
     and_then (commit sr (\<lambda>st. Ok (st\<lparr>pending_vm_restores := filter (\<lambda>x. x \<noteq> i) (pending_vm_restores st)\<rparr>)) d) (\<lambda>_ d. (Ok (), d))"

definition install_disk :: "snapshot_runtime \<Rightarrow> string \<Rightarrow> path \<Rightarrow> desk \<Rightarrow> (path, string) result \<times> desk" where
  "install_disk sr i p d = (sr_disk sr, asked (InstallDisk i p) d)"

text \<open>After the new state could not be saved: the old disk back, the intent gone, and what failed of that.\<close>

definition undo_disk :: "snapshot_runtime \<Rightarrow> string \<Rightarrow> desk \<Rightarrow> string list \<times> desk" where
  "undo_disk sr i d =
     (let (r, d) = ask sr (RollbackDisk i) d; (c, d) = clear_vm_restore_intent sr i d
      in (map (\<lambda>e. ''restoring the previous VM disk also failed: '' @ e) (errors_of r)
          @ map (\<lambda>e. ''clearing the VM restore intent failed: '' @ e) (errors_of c), d))"

section \<open>Restoring a snapshot\<close>

text \<open>Whether the disk was replaced, so that its installation has to be finalized or rolled back.\<close>

definition restore_vm :: "snapshot_runtime \<Rightarrow> Snapshot \<Rightarrow> Environment \<Rightarrow> desk \<Rightarrow> (bool, string) result \<times> desk" where
  "restore_vm sr s e d =
     (if snap_provider_snapshot_id s \<noteq> None then
        (let live = env_kind e = FullVm \<and> env_status e \<in> {Running, Paused};
             network = (case snap_environment_state s of Some x \<Rightarrow> ses_network_access x | None \<Rightarrow> env_network_access e)
         in and_then (if live \<and> \<not> network then ask sr (UpdateInternet (runtime_id e) False) d else (Ok (), d)) (\<lambda>_ d.
            and_then (case vm_disk e of Err x \<Rightarrow> (Err x, d) | Ok _ \<Rightarrow> ask sr (RestoreVm (runtime_id e) (snap_id s)) d) (\<lambda>_ d.
            and_then (if live then ask sr (UpdateInternet (runtime_id e) network) d else (Ok (), d)) (\<lambda>_ d. (Ok False, d)))))
      else
        (case snap_artifact_path s of
           None \<Rightarrow> (Err ''virtual machine snapshot has no restorable provider state'', d)
         | Some p \<Rightarrow>
             and_then (begin_vm_restore_intent sr (runtime_id e) d) (\<lambda>_ d.
               case install_disk sr (runtime_id e) p d of
                 (Err x, d) \<Rightarrow>
                   (case clear_vm_restore_intent sr (runtime_id e) d of
                      (Err y, d) \<Rightarrow> (Err (x @ ''; clearing the VM restore intent also failed: '' @ y), d)
                    | (Ok _, d) \<Rightarrow> (Err x, d))
               | (Ok _, d) \<Rightarrow> (Ok True, d))))"

definition restore_container :: "snapshot_runtime \<Rightarrow> Snapshot \<Rightarrow> Environment \<Rightarrow> desk \<Rightarrow> (bool, string) result \<times> desk" where
  "restore_container sr s e d =
     and_then (ask sr (RegisterSnapshot (snap_id s)) d) (\<lambda>_ d.
     and_then (case snap_artifact_path s of Some p \<Rightarrow> ask sr (ImportSnapshot (snap_id s) p) d | None \<Rightarrow> (Ok (), d)) (\<lambda>_ d.
     and_then (ask sr (RestoreContainer (runtime_id e) (snap_id s)) d) (\<lambda>_ d.
     and_then (ask sr (LimitContainer (runtime_id e)) d) (\<lambda>_ d. (Ok False, d)))))"

definition restore_runtime :: "snapshot_runtime \<Rightarrow> Snapshot \<Rightarrow> Environment \<Rightarrow> desk \<Rightarrow> (bool, string) result \<times> desk" where
  "restore_runtime sr s e d =
     (case provider e of
        CloudSsh \<Rightarrow> (Err ''Cloud nodes do not have local snapshots'', d)
      | Qemu \<Rightarrow> restore_vm sr s e d
      | NativeSandbox \<Rightarrow> (Err ''Snapshots for native application sandboxes are not available yet'', d)
      | _ \<Rightarrow> restore_container sr s e d)"

definition check_restore :: "PlatformState \<Rightarrow> string \<Rightarrow> (Snapshot \<times> Environment, string) result" where
  "check_restore st i =
     result_bind (ok_or (List.find (\<lambda>s. snap_id s = i) (snapshots st)) ''Snapshot not found'') (\<lambda>s.
     result_bind (ensure_complete st (snap_environment_id s)) (\<lambda>_.
     result_bind (ok_or (find_env st (snap_environment_id s)) ''Environment not found'') (\<lambda>e.
     result_bind (if provider_is_container (provider e)
        then validate_container_policy_capacity
          (case snap_environment_state s of Some x \<Rightarrow> ses_resource_policy x | None \<Rightarrow> env_resource_policy e) (host st)
        else Ok ()) (\<lambda>_. Ok (s, e)))))"

definition restore_snapshot :: "bool \<Rightarrow> snapshot_runtime \<Rightarrow> string \<Rightarrow> desk \<Rightarrow> (PlatformState, string) result \<times> desk" where
  "restore_snapshot macos sr i d =
     (case check_restore (dk_state d) i of
        Err x \<Rightarrow> (Err x, d)
      | Ok (s, e) \<Rightarrow>
          and_then (restore_runtime sr s e d) (\<lambda>replaced d.
            case commit sr (restore_update macos s (if replaced then Some (runtime_id e) else None)) d of
              (Err x, d) \<Rightarrow>
                if replaced then (let (more_errors, d) = undo_disk sr (runtime_id e) d in (Err (join ''; '' (x # more_errors)), d))
                else (Err x, d)
            | (Ok _, d) \<Rightarrow>
                and_then (if replaced then ask sr (FinalizeDisk (runtime_id e)) d else (Ok (), d)) (\<lambda>_ d.
                and_then (on_engine (reconcile_connections (sr_runtime sr)) d) (\<lambda>_ d. (Ok (dk_state d), d)))))"


section \<open>Installing a backup\<close>

definition check_install :: "PlatformState \<Rightarrow> BackupRestore \<Rightarrow> (unit, string) result" where
  "check_install st b =
     (let e = bre_environment b
      in result_bind (ensure_complete st (env_id e)) (\<lambda>_.
         if env_kind e = MicroVm \<and> env_runtime e \<noteq> ''builtin:alpine''
         then Err ''This custom microVM backup does not contain its external kernel and initramfs and cannot be restored safely''
         else result_bind (if provider_is_container (provider e)
             then validate_container_policy_capacity (env_resource_policy e) (host st) else Ok ()) (\<lambda>_.
           case find_env st (env_id e) of
             None \<Rightarrow> Ok ()
           | Some existing \<Rightarrow> if provider existing \<noteq> provider e
               then Err ''the existing environment uses a different runtime provider'' else Ok ())))"

text \<open>The staged file is deleted on every refusal, except that of a cloud node.\<close>

definition stop_existing :: "snapshot_runtime \<Rightarrow> PlatformState \<Rightarrow> BackupRestore \<Rightarrow> desk \<Rightarrow> (unit, string) result \<times> desk" where
  "stop_existing sr st b d =
     (case find_env st (env_id (bre_environment b)) of
        None \<Rightarrow> (Ok (), d)
      | Some existing \<Rightarrow>
          if env_status existing \<notin> {Running, Paused} then (Ok (), d)
          else if provider existing = CloudSsh then (Err ''Cloud nodes cannot be restored from a local VM backup'', d)
          else
            (case ask sr (StopExisting (runtime_id existing)) d of
               (Ok _, d) \<Rightarrow> (Ok (), d)
             | (Err x, d) \<Rightarrow>
                 if str_contains ''not running'' x then (Ok (), d)
                 else (Err (''stop environment before restore: '' @ x), asked (DeleteStaged (bre_artifact_path b)) d)))"

definition installed_environment :: "Environment \<Rightarrow> Environment" where
  "installed_environment e =
     e\<lparr>env_status := Stopped, env_runtime_id := Some (env_id e), env_control_endpoint := None, env_console_endpoint := None,
       env_last_error := None, env_cpu_usage := Fin 0, env_memory_usage_gb := Fin 0, env_network_rx_mbps := Fin 0,
       env_resource_policy := (env_resource_policy e)\<lparr>
         rp_cpu := (rp_cpu (env_resource_policy e))\<lparr>rr_current := Fin 0\<rparr>,
         rp_memory_gb := (rp_memory_gb (env_resource_policy e))\<lparr>rr_current := Fin 0\<rparr>\<rparr>\<rparr>"

definition install_container :: "snapshot_runtime \<Rightarrow> BackupRestore \<Rightarrow> Environment \<Rightarrow> desk \<Rightarrow> (Environment \<times> taken, string) result \<times> desk" where
  "install_container sr b e d =
     (let i = snap_id (bre_snapshot b); p = bre_artifact_path b
      in and_then (ask sr (RegisterContainer (env_id e)) d) (\<lambda>_ d.
         and_then (ask sr (RegisterSnapshot i) d) (\<lambda>_ d.
         and_then (sr_import sr i p, asked (ImportSnapshot i p) d) (\<lambda>(name, artifact, n, checksum) d.
         and_then (ask sr (RestoreContainer (env_id e) i) d) (\<lambda>_ d.
         and_then (ask sr (LimitContainer (env_id e)) d) (\<lambda>_ d.
           (Ok (e, Some name, Some artifact, n, Some checksum), asked (DeleteStaged p) d)))))))"

definition setup_vm :: "snapshot_runtime \<Rightarrow> BackupRestore \<Rightarrow> Environment \<Rightarrow> path \<Rightarrow> desk \<Rightarrow> (Environment \<times> taken, string) result \<times> desk" where
  "setup_vm sr b e disk d =
     and_then (if env_kind e = ComputerBranch then ask sr (BranchBoot (env_id e)) d else (Ok (), d)) (\<lambda>_ d.
       let e = e\<lparr>env_runtime_path := Some disk\<rparr>
       in and_then (if env_kind e = MicroVm then ask sr (MicroManifest (env_id e)) d else (Ok (), d)) (\<lambda>_ d.
          and_then (sr_length sr, asked (InspectArtifact (bre_artifact_path b)) d) (\<lambda>n d.
            (Ok (e\<lparr>env_runtime := if env_kind e = MicroVm then ''builtin:alpine'' else disk\<rparr>,
                 None, Some (bre_artifact_path b), n, snap_checksum_sha256 (bre_snapshot b)), d))))"

definition install_vm :: "snapshot_runtime \<Rightarrow> BackupRestore \<Rightarrow> Environment \<Rightarrow> desk \<Rightarrow> (Environment \<times> taken, string) result \<times> desk" where
  "install_vm sr b e d =
     and_then (begin_vm_restore_intent sr (env_id e) d) (\<lambda>_ d.
       case install_disk sr (env_id e) (bre_artifact_path b) d of
         (Err x, d) \<Rightarrow>
           (let (c, d) = clear_vm_restore_intent sr (env_id e) d; (s, d) = ask sr (DeleteStaged (bre_artifact_path b)) d
            in (Err (join ''; '' (x # errors_of c @ errors_of s)), d))
       | (Ok disk, d) \<Rightarrow>
           (case setup_vm sr b e disk d of
              (Ok r, d) \<Rightarrow> (Ok r, d)
            | (Err x, d) \<Rightarrow>
                (let (u, d) = ask sr (RollbackDisk (env_id e)) d; (s, d) = ask sr (DeleteStaged (bre_artifact_path b)) d;
                     (c, d) = clear_vm_restore_intent sr (env_id e) d
                 in (Err (join ''; '' (x # errors_of u @ errors_of s @ errors_of c)), d))))"

definition install_runtime :: "snapshot_runtime \<Rightarrow> BackupRestore \<Rightarrow> Environment \<Rightarrow> desk \<Rightarrow> (Environment \<times> taken, string) result \<times> desk" where
  "install_runtime sr b e d =
     (case provider (bre_environment b) of
        CloudSsh \<Rightarrow> (Err ''Cloud nodes cannot be restored from a local VM backup'', d)
      | Qemu \<Rightarrow> install_vm sr b e d
      | NativeSandbox \<Rightarrow> (Err ''Restoring native application sandbox backups is not available yet'', asked (DeleteStaged (bre_artifact_path b)) d)
      | _ \<Rightarrow> install_container sr b e d)"

definition installed_snapshot :: "Snapshot \<Rightarrow> Environment \<Rightarrow> taken \<Rightarrow> Snapshot" where
  "installed_snapshot s e t =
     (case t of (psid, artifact, n, checksum) \<Rightarrow>
        s\<lparr>snap_environment_id := env_id e, snap_status := SnapReady, snap_encrypted := False, snap_provider_snapshot_id := psid,
          snap_artifact_path := artifact, snap_artifact_size_bytes := Some n, snap_checksum_sha256 := checksum,
          snap_environment_state := Some (state_of_env (env_provider e) e)\<rparr>)"

definition put_environment :: "Environment \<Rightarrow> PlatformState \<Rightarrow> PlatformState" where
  "put_environment e st =
     (if find_env st (env_id e) \<noteq> None then set_env (env_id e) (\<lambda>_. e) st else st\<lparr>environments := e # environments st\<rparr>)"

definition pending_connection :: "Connection \<Rightarrow> Connection" where
  "pending_connection c = c\<lparr>conn_enforcement_status := Some Pending, conn_provider_rule_ids := [], conn_last_error := None\<rparr>"

definition install_update :: "bool \<Rightarrow> bool \<Rightarrow> Environment \<Rightarrow> Snapshot \<Rightarrow> Connection list \<Rightarrow> PlatformState \<Rightarrow> (PlatformState, string) result" where
  "install_update macos replaced e s cs st =
     (let e = (if list_ex (\<lambda>x. env_id x \<noteq> env_id e \<and> eq_ignore_ascii_case (env_name x) (env_name e)) (environments st)
               then e\<lparr>env_name := env_name e @ '' (restored)''\<rparr> else e);
          st = put_environment e st;
          st = st\<lparr>snapshots := s # filter (\<lambda>x. snap_id x \<noteq> snap_id s) (snapshots st)\<rparr>;
          st = st\<lparr>connections := filter (\<lambda>c. \<not> touches (env_id e) c) (connections st)
                @ map pending_connection (filter (\<lambda>c. has_env st (conn_source_id c) \<and> has_env st (conn_target_id c)) cs)\<rparr>;
          st = (if replaced then st\<lparr>pending_vm_restores := filter (\<lambda>x. x \<noteq> env_id e) (pending_vm_restores st)\<rparr> else st)
      in scheduled macos st)"

definition abandon_install :: "snapshot_runtime \<Rightarrow> BackupRestore \<Rightarrow> Environment \<Rightarrow> Snapshot \<Rightarrow> string \<Rightarrow> desk \<Rightarrow> (PlatformState, string) result \<times> desk" where
  "abandon_install sr b e s x d =
     (let (es, d) =
        (if provider (bre_environment b) = Qemu then undo_disk sr (env_id e) d
         else if provider_is_container (provider (bre_environment b))
         then (case cleanup_snapshot_resources sr s (dk_state d) d of
                 (r, d) \<Rightarrow> (map (\<lambda>y. ''rollback restored container snapshot: '' @ y) (errors_of r), d))
         else ([], d));
          (r, d) = ask sr (DeleteStaged (bre_artifact_path b)) d
      in (Err (join ''; '' (x # es @ errors_of r)), d))"

definition install_restored_backup :: "bool \<Rightarrow> snapshot_runtime \<Rightarrow> BackupRestore \<Rightarrow> desk \<Rightarrow> (PlatformState, string) result \<times> desk" where
  "install_restored_backup macos sr b d =
     (let st = dk_state d; i = env_id (bre_environment b)
      in case check_install st b of
           Err x \<Rightarrow> (Err x, asked (DeleteStaged (bre_artifact_path b)) d)
         | Ok _ \<Rightarrow>
             and_then (stop_existing sr st b d) (\<lambda>_ d.
               let d = d\<lparr>dk_engine := foldl (\<lambda>eng c. called (remove_call st c) eng) (dk_engine d) (filter (touches i) (connections st))\<rparr>
               in and_then (install_runtime sr b (installed_environment (bre_environment b)) d) (\<lambda>(e, t) d.
                    let e = e\<lparr>env_storage_delta_gb := gigabytes (fst (snd (snd t)))\<rparr>;
                        s = installed_snapshot (bre_snapshot b) e t;
                        replaced = (provider (bre_environment b) = Qemu)
                    in case commit sr (install_update macos replaced e s (bre_connections b)) d of
                         (Err x, d) \<Rightarrow> abandon_install sr b e s x d
                       | (Ok _, d) \<Rightarrow>
                           and_then (if replaced then ask sr (FinalizeDisk i) d else (Ok (), d)) (\<lambda>_ d.
                           and_then (on_engine (reconcile_connections (sr_runtime sr)) d) (\<lambda>_ d.
                             enforce_snapshot_retention sr d)))))"


section \<open>Importing a local backup\<close>

text \<open>\<open>read\<close> is what \<open>read_backup\<close> returned for the chosen file.\<close>

definition retarget :: "RuntimeProviderKind \<Rightarrow> BackupRestore \<Rightarrow> BackupRestore" where
  "retarget p b = b\<lparr>bre_environment := (bre_environment b)\<lparr>env_provider := Some p, env_gpu_access := False, env_network_access := False\<rparr>\<rparr>"

definition container_backup :: "BackupRestore \<Rightarrow> bool" where
  "container_backup b \<longleftrightarrow> (case env_provider (bre_environment b) of Some p \<Rightarrow> provider_is_container p | None \<Rightarrow> False)"

definition prepare_import :: "snapshot_runtime \<Rightarrow> BackupRestore \<Rightarrow> desk \<Rightarrow> (unit, string) result \<times> desk" where
  "prepare_import sr b d =
     and_then (if env_provider (bre_environment b) = Some OpenDockCuda then ask sr RequireCuda d else (Ok (), d)) (\<lambda>_ d.
       if container_backup b
       then and_then (ask sr (RegisterContainer (env_id (bre_environment b))) d) (\<lambda>_ d. ask sr (RegisterSnapshot (snap_id (bre_snapshot b))) d)
       else (Ok (), d))"

definition discard_import :: "snapshot_runtime \<Rightarrow> BackupRestore \<Rightarrow> string \<Rightarrow> desk \<Rightarrow> (PlatformState, string) result \<times> desk" where
  "discard_import sr b x d =
     (let i = env_id (bre_environment b); j = snap_id (bre_snapshot b)
      in if has_env (dk_state d) i
         then (Err (''The restored environment was saved, but follow-up maintenance failed: '' @ x), d)
         else
           (let (c, d) = (if container_backup b then ask sr (DeleteContainer i) d else (Ok (), d));
                (s, d) = (if container_backup b then ask sr (DeleteContainerSnapshot i j) d else (Ok (), d));
                (a, d) = ask sr (DeleteStaged (bre_artifact_path b)) d
            in (Err (join ''; '' (x # map (\<lambda>y. ''Clean up incomplete restored container: '' @ y) (errors_of c)
                  @ map (\<lambda>y. ''Clean up imported snapshot: '' @ y) (errors_of s) @ errors_of a)), d)))"

definition finish_import :: "bool \<Rightarrow> snapshot_runtime \<Rightarrow> BackupRestore \<Rightarrow> desk \<Rightarrow> (PlatformState, string) result \<times> desk" where
  "finish_import macos sr b d =
     (case prepare_import sr b d of
        (Err x, d) \<Rightarrow>
          (case ask sr (DeleteStaged (bre_artifact_path b)) d of
             (Ok _, d) \<Rightarrow> (Err x, d)
           | (Err y, d) \<Rightarrow> (Err (x @ ''; '' @ y), d))
      | (Ok _, d) \<Rightarrow>
          (case install_restored_backup macos sr b d of
             (Ok st, d) \<Rightarrow> (Ok st, d)
           | (Err x, d) \<Rightarrow> discard_import sr b x d))"

definition import_backup_with_provider :: "bool \<Rightarrow> snapshot_runtime \<Rightarrow> RuntimeProviderKind option \<Rightarrow> (BackupRestore, string) result \<Rightarrow> desk
    \<Rightarrow> (PlatformState, string) result \<times> desk" where
  "import_backup_with_provider macos sr target read_result d =
     (if (case target of Some p \<Rightarrow> \<not> provider_is_container p | None \<Rightarrow> False)
      then (Err ''Backup engine conversion is only supported between the two container engines.'', d)
      else
        and_then (if target = Some OpenDockCuda then ask sr RequireCuda d else (Ok (), d)) (\<lambda>_ d.
          case read_result of
            Err x \<Rightarrow> (Err x, d)
          | Ok b \<Rightarrow>
              (case target of
                 None \<Rightarrow> finish_import macos sr b d
               | Some p \<Rightarrow>
                   if env_kind (bre_environment b) \<noteq> Container \<or> \<not> container_backup b
                   then (Err ''A VM disk cannot be loaded into a container engine. Keep its original engine.'', asked (DeleteStaged (bre_artifact_path b)) d)
                   else finish_import macos sr (retarget p b) d)))"

section \<open>Retention keeps the newest\<close>

lemma commit_calls: "commit sr operation d = (r, d') \<Longrightarrow> dk_calls d' = dk_calls d"
  by (auto simp: commit_def on_engine_def split: prod.splits)

lemma cleanup_removes:
  assumes "cleanup_snapshot_resources sr s st d = (Ok x, d')" "snap_artifact_path s = Some p"
  shows "RemoveArtifact p \<in> set (dk_calls d')"
  using assms
  by (auto simp: cleanup_snapshot_resources_def and_then_def cleanup_artifact_def ask_def asked_def Let_def
      split: prod.splits result.splits)

lemma cleanup_grows: "cleanup_snapshot_resources sr s st d = (r, d') \<Longrightarrow> set (dk_calls d) \<subseteq> set (dk_calls d')"
proof -
  assume a: "cleanup_snapshot_resources sr s st d = (r, d')"
  obtain r1 d1 where p: "cleanup_provider sr s st d = (r1, d1)" by fastforce
  have "set (dk_calls d) \<subseteq> set (dk_calls d1)"
    using p by (auto simp: cleanup_provider_def ask_def asked_def Let_def split: option.splits RuntimeProviderKind.splits)
  moreover have "set (dk_calls d1) \<subseteq> set (dk_calls d')"
    using a p by (auto simp: cleanup_snapshot_resources_def and_then_def cleanup_artifact_def ask_def asked_def Let_def
      split: result.splits option.splits prod.splits)
  ultimately show ?thesis by blast
qed

lemma filter_distinct_split:
  assumes "distinct (map g (ys @ y # zs))"
  shows "filter (\<lambda>x. g x \<noteq> g y) (ys @ y # zs) = ys @ zs"
proof -
  have "\<forall>x \<in> set ys. g x \<noteq> g y" "\<forall>x \<in> set zs. g x \<noteq> g y" using assms by (auto simp: image_iff)
  then have "filter (\<lambda>x. g x \<noteq> g y) ys = ys" "filter (\<lambda>x. g x \<noteq> g y) zs = zs" by (simp_all add: filter_id_conv)
  then show ?thesis by simp
qed

lemma filter_distinct_key:
  assumes "distinct (map g xs)" "k < length xs"
  shows "filter (\<lambda>x. g x \<noteq> g (xs ! k)) xs = take k xs @ drop (Suc k) xs"
  using filter_distinct_split [of g "take k xs" "xs ! k" "drop (Suc k) xs"] assms
  unfolding id_take_nth_drop [OF assms(2), symmetric] by simp

definition retention_of :: "PlatformState \<Rightarrow> nat" where
  "retention_of st = max (set_snapshot_retention (settings st)) 1"

lemma retention_run:
  assumes "enforce_snapshot_retention sr d = (r, d')" "distinct (map snap_id (snapshots (dk_state d)))"
    and "k = retention_of (dk_state d)"
  shows "set (dk_calls d) \<subseteq> set (dk_calls d') \<and> (\<exists>n. dk_state d' = (dk_state d)\<lparr>snapshots := take k (snapshots (dk_state d)) @ drop (k + n) (snapshots (dk_state d))\<rparr>
      \<and> (\<forall>s \<in> set (take n (drop k (snapshots (dk_state d)))). \<forall>p. snap_artifact_path s = Some p \<longrightarrow> RemoveArtifact p \<in> set (dk_calls d'))
      \<and> (\<forall>st. r = Ok st \<longrightarrow> st = dk_state d' \<and> length (snapshots st) \<le> k))"
  using assms
proof (induction sr d arbitrary: r d' rule: enforce_snapshot_retention.induct)
  case (1 sr d)
  let ?st = "dk_state d"
  let ?xs = "snapshots ?st"
  have k: "max (set_snapshot_retention (settings ?st)) 1 = k" by (simp add: 1(4) retention_of_def)
  show ?case
  proof (cases "length ?xs \<le> k")
    case True
    then have "enforce_snapshot_retention sr d = (Ok ?st, d)" using k by (simp add: enforce_snapshot_retention.simps [of sr d] Let_def)
    then have "r = Ok ?st" "d' = d" using "1.prems"(1) by simp_all
    then show ?thesis using True by (auto intro!: exI [of _ 0])
  next
    case False
    let ?s = "?xs ! k"
    obtain c d1 where c: "cleanup_snapshot_resources sr ?s ?st d = (c, d1)" by fastforce
    note e = cleanup_state [OF c] and g = cleanup_grows [OF c]
    show ?thesis
    proof (cases c)
      case (Err x)
      then have "r = Err x" "d' = d1" using "1.prems"(1) k False c by (simp_all add: enforce_snapshot_retention.simps [of sr d] Let_def)
      then show ?thesis using e g by (auto intro!: exI [of _ 0])
    next
      case (Ok u)
      obtain m d2 where m: "commit sr (\<lambda>st. Ok (drop_snapshot (snap_id ?s) st)) d1 = (m, d2)" by fastforce
      show ?thesis
      proof (cases m)
        case (Err x)
        then have "r = Err x" "d' = d2" using "1.prems"(1) k False c Ok m by (simp_all add: enforce_snapshot_retention.simps [of sr d] Let_def)
        moreover have "d2 = d1" using commit_Err m Err by blast
        ultimately show ?thesis using e g by (auto intro!: exI [of _ 0])
      next
        case saved: (Ok st1)
        note w = commit_Ok [OF m [unfolded saved]]
        have run: "enforce_snapshot_retention sr d2 = (r, d')"
          using "1.prems"(1) k False c Ok m saved by (simp add: enforce_snapshot_retention.simps [of sr d] Let_def)
        have l: "k < length ?xs" using False by simp
        have st: "dk_state d2 = ?st\<lparr>snapshots := take k ?xs @ drop (Suc k) ?xs\<rparr>"
          using w e filter_distinct_key [OF "1.prems"(2) l] by (auto simp: drop_snapshot_def)
        have "snapshots (dk_state d2) = filter (\<lambda>x. snap_id x \<noteq> snap_id ?s) ?xs" using w e by (auto simp: drop_snapshot_def)
        then have dis: "distinct (map snap_id (snapshots (dk_state d2)))" using "1.prems"(2) by (simp add: distinct_map_filter)
        have k2: "k = retention_of (dk_state d2)" by (simp add: "1.prems"(3) st retention_of_def)
        have "\<not> length ?xs \<le> max (set_snapshot_retention (settings ?st)) 1" using False k by simp
        from "1.IH" [OF refl refl this refl, unfolded k, OF c [symmetric] Ok m [symmetric] saved run dis k2] obtain n where
          n: "set (dk_calls d2) \<subseteq> set (dk_calls d')"
            "dk_state d' = (dk_state d2)\<lparr>snapshots := take k (snapshots (dk_state d2)) @ drop (k + n) (snapshots (dk_state d2))\<rparr>"
            "\<forall>s \<in> set (take n (drop k (snapshots (dk_state d2)))). \<forall>p. snap_artifact_path s = Some p \<longrightarrow> RemoveArtifact p \<in> set (dk_calls d')"
            "\<forall>st. r = Ok st \<longrightarrow> st = dk_state d' \<and> length (snapshots st) \<le> k" by blast
        have a: "take k (snapshots (dk_state d2)) = take k ?xs" "drop (k + n) (snapshots (dk_state d2)) = drop (k + Suc n) ?xs"
          "drop k (snapshots (dk_state d2)) = drop (Suc k) ?xs" using l by (simp_all add: st add.commute)
        have b: "take (Suc n) (drop k ?xs) = ?s # take n (drop (Suc k) ?xs)" by (simp add: Cons_nth_drop_Suc [OF l, symmetric])
        have "dk_state d' = ?st\<lparr>snapshots := take k ?xs @ drop (k + Suc n) ?xs\<rparr>" using n(2) a by (simp add: st)
        moreover have "RemoveArtifact p \<in> set (dk_calls d')" if "snap_artifact_path ?s = Some p" for p
          using cleanup_removes [OF c [unfolded Ok] that] commit_calls [OF m] n(1) by auto
        moreover have "\<forall>s \<in> set (take (Suc n) (drop k ?xs)). \<forall>p. snap_artifact_path s = Some p \<longrightarrow> RemoveArtifact p \<in> set (dk_calls d')"
          unfolding b list.set using n(3) [unfolded a(3)] calculation(2) by (intro ballI) (erule insertE, simp_all)
        moreover have "set (dk_calls d) \<subseteq> set (dk_calls d')" using n(1) g commit_calls [OF m] by simp
        ultimately show ?thesis using n(4) by blast
      qed
    qed
  qed
qed


text \<open>
  C31. The retention limit keeps the newest snapshots and always ends: when every snapshot has its own identifier, the
  first ones up to the limit stay, a snapshot beyond it is forgotten only after the removal of its file was asked
  for, in order, and on success no more than the limit are left. Nothing else of the state changes.
\<close>

theorem retention_keeps_newest:
  assumes "enforce_snapshot_retention sr d = (r, d')" "distinct (map snap_id (snapshots (dk_state d)))"
    and "k = retention_of (dk_state d)" "xs = snapshots (dk_state d)"
  shows "\<exists>n. dk_state d' = (dk_state d)\<lparr>snapshots := take k xs @ drop (k + n) xs\<rparr>
    \<and> (\<forall>s \<in> set (take n (drop k xs)). \<forall>p. snap_artifact_path s = Some p \<longrightarrow> RemoveArtifact p \<in> set (dk_calls d'))
    \<and> (\<forall>st. r = Ok st \<longrightarrow> st = dk_state d' \<and> snapshots st = take k xs)"
proof -
  from retention_run [OF assms(1-3)] obtain n where
    n: "dk_state d' = (dk_state d)\<lparr>snapshots := take k xs @ drop (k + n) xs\<rparr>"
      "\<forall>s \<in> set (take n (drop k xs)). \<forall>p. snap_artifact_path s = Some p \<longrightarrow> RemoveArtifact p \<in> set (dk_calls d')"
      "\<forall>st. r = Ok st \<longrightarrow> st = dk_state d' \<and> length (snapshots st) \<le> k" unfolding assms(4) by blast
  have "snapshots st = take k xs" if "r = Ok st" for st
  proof -
    have "st = dk_state d'" "length (snapshots st) \<le> k" using n(3) that by blast+
    then have s: "snapshots st = take k xs @ drop (k + n) xs" "length (take k xs @ drop (k + n) xs) \<le> k" using n(1) by simp_all
    show ?thesis
    proof (cases "k \<le> length xs")
      case True
      then have "drop (k + n) xs = []" using s(2) by (auto simp: min_def split: if_splits)
      then show ?thesis using s(1) by simp
    qed (use s in simp)
  qed
  with n show ?thesis by blast
qed

section \<open>A disk is replaced for good or put back\<close>

fun disk_call :: "snapshot_call \<Rightarrow> bool" where
  "disk_call (InstallDisk i p) = True"
| "disk_call (RollbackDisk i) = True"
| "disk_call (FinalizeDisk i) = True"
| "disk_call _ = False"

definition disk_calls :: "desk \<Rightarrow> snapshot_call list" where
  "disk_calls d = filter disk_call (dk_calls d)"

text \<open>The state as it was, but for the intents to restore a disk.\<close>

definition unsaved :: "desk \<Rightarrow> desk \<Rightarrow> bool" where
  "unsaved d d' \<longleftrightarrow> (\<exists>ps. dk_state d' = (dk_state d)\<lparr>pending_vm_restores := ps\<rparr>)"

text \<open>Steps that make no call about a disk, and those that save nothing either.\<close>

definition same_disks :: "desk \<Rightarrow> desk \<Rightarrow> bool" where
  "same_disks d d' \<longleftrightarrow> disk_calls d' = disk_calls d"

definition idle :: "desk \<Rightarrow> desk \<Rightarrow> bool" where
  "idle d d' \<longleftrightarrow> same_disks d d' \<and> unsaved d d'"

lemma unsaved_refl [simp]: "unsaved d d"
  by (auto simp: unsaved_def intro!: exI [of _ "pending_vm_restores (dk_state d)"])

lemma unsaved_trans: "unsaved a b \<Longrightarrow> unsaved b c \<Longrightarrow> unsaved a c"
  by (auto simp: unsaved_def)

lemma unsaved_same: "dk_state d' = dk_state d \<Longrightarrow> unsaved d d'"
  by (auto simp: unsaved_def intro!: exI [of _ "pending_vm_restores (dk_state d)"])

lemma idle_refl [simp]: "idle d d"
  by (simp add: idle_def same_disks_def)

lemma idle_trans: "idle a b \<Longrightarrow> idle b c \<Longrightarrow> idle a c"
  by (auto simp: idle_def same_disks_def intro: unsaved_trans)

lemma asked_disks [simp]: "disk_calls (asked c d) = disk_calls d @ (if disk_call c then [c] else [])"
  by (simp add: disk_calls_def asked_def)

lemma asked_unsaved [simp]: "unsaved d (asked c d)"
  by (rule unsaved_same) simp

lemma asked_idle [simp]: "\<not> disk_call c \<Longrightarrow> idle d (asked c d)"
  by (simp add: idle_def same_disks_def)

lemma ask_idle: "ask sr c d = (r, d') \<Longrightarrow> \<not> disk_call c \<Longrightarrow> idle d d'"
  by (auto simp: ask_def)

lemma and_then_idle:
  assumes "and_then m k = (r, d')" "\<And>x d1. m = (x, d1) \<Longrightarrow> idle d d1" "\<And>x d1 r. m = (Ok x, d1) \<Longrightarrow> k x d1 = (r, d') \<Longrightarrow> idle d1 d'"
  shows "idle d d'"
proof (cases m)
  case (Pair x d1)
  show ?thesis
  proof (cases x)
    case (Ok y)
    then have "k y d1 = (r, d')" using assms(1) Pair by (simp add: and_then_def)
    then show ?thesis using assms(2) [OF Pair] assms(3) Pair Ok idle_trans by blast
  next
    case (Err e)
    then show ?thesis using assms(1,2) Pair by (simp add: and_then_def)
  qed
qed

lemma commit_disks [simp]: "commit sr operation d = (r, d') \<Longrightarrow> disk_calls d' = disk_calls d"
  by (simp add: disk_calls_def commit_calls)

lemma commit_idle:
  assumes "commit sr (\<lambda>st. Ok (g st)) d = (r, d')" "\<And>st. \<exists>ps. g st = st\<lparr>pending_vm_restores := ps\<rparr>"
  shows "idle d d'"
proof (cases r)
  case (Ok st)
  from commit_Ok [OF assms(1) [unfolded Ok]] have "dk_state d' = g (dk_state d)" by auto
  then have "unsaved d d'" using assms(2) [of "dk_state d"] by (simp add: unsaved_def)
  then show ?thesis using commit_disks [OF assms(1)] by (simp add: idle_def same_disks_def)
next
  case (Err x)
  then show ?thesis using assms(1) commit_Err by fastforce
qed

lemma begin_idle: "begin_vm_restore_intent sr i d = (r, d') \<Longrightarrow> idle d d'"
  unfolding begin_vm_restore_intent_def
proof (erule and_then_idle, erule commit_idle)
  fix st :: PlatformState
  show "\<exists>ps. (if i \<in> set (pending_vm_restores st) then st else st\<lparr>pending_vm_restores := pending_vm_restores st @ [i]\<rparr>)
      = st\<lparr>pending_vm_restores := ps\<rparr>"
    by (rule exI [of _ "if i \<in> set (pending_vm_restores st) then pending_vm_restores st else pending_vm_restores st @ [i]"]) simp
qed simp

lemma clear_idle: "clear_vm_restore_intent sr i d = (r, d') \<Longrightarrow> idle d d'"
  unfolding clear_vm_restore_intent_def by (erule and_then_idle, erule commit_idle) auto


text \<open>Nothing was saved; if the disk was replaced it was put back.\<close>

definition disk_kept :: "snapshot_runtime \<Rightarrow> string \<Rightarrow> path \<Rightarrow> desk \<Rightarrow> desk \<Rightarrow> bool" where
  "disk_kept sr i p d d' \<longleftrightarrow> unsaved d d' \<and>
     (disk_calls d' = disk_calls d \<or> disk_calls d' = disk_calls d @ [InstallDisk i p] \<and> \<not> is_ok (sr_disk sr)
      \<or> disk_calls d' = disk_calls d @ [InstallDisk i p, RollbackDisk i])"

definition disk_installed :: "snapshot_runtime \<Rightarrow> string \<Rightarrow> path \<Rightarrow> desk \<Rightarrow> desk \<Rightarrow> bool" where
  "disk_installed sr i p d d' \<longleftrightarrow> unsaved d d' \<and> disk_calls d' = disk_calls d @ [InstallDisk i p] \<and> is_ok (sr_disk sr)"

text \<open>The error of a refused rollback is part of the reported error.\<close>

definition told :: "snapshot_runtime \<Rightarrow> string \<Rightarrow> ('a, string) result \<Rightarrow> bool" where
  "told sr i r \<longleftrightarrow> (case (sr_answer sr (RollbackDisk i), r) of (Err y, Err x) \<Rightarrow> \<exists>a b. x = a @ y @ b | (Err y, Ok _) \<Rightarrow> False | (Ok _, _) \<Rightarrow> True)"

lemma join_mentions: "x \<in> set xs \<Longrightarrow> \<exists>a b. join sep xs = a @ x @ b"
proof (induction sep xs rule: join.induct)
  case (2 sep y)
  then show ?case by (auto intro: exI [of _ "[]"])
next
  case (3 sep y z zs)
  show ?case
  proof (cases "x = y")
    case True
    then show ?thesis by (auto intro: exI [of _ "[]"])
  next
    case False
    then obtain a b where "join sep (z # zs) = a @ x @ b" using 3 by auto
    then have "join sep (y # z # zs) = (y @ sep @ a) @ x @ b" by simp
    then show ?thesis by blast
  qed
qed simp

lemma told_Err: "told sr i (Err x) \<longleftrightarrow> (\<forall>y. sr_answer sr (RollbackDisk i) = Err y \<longrightarrow> (\<exists>a b. x = a @ y @ b))"
  by (auto simp: told_def split: result.splits)

lemma told_join:
  assumes "\<And>y. sr_answer sr (RollbackDisk i) = Err y \<Longrightarrow> \<exists>w. w @ y \<in> set xs"
  shows "told sr i (Err (join sep xs))"
proof (cases "sr_answer sr (RollbackDisk i)")
  case (Err y)
  then obtain w where "w @ y \<in> set xs" using assms by blast
  then obtain a b where "join sep xs = a @ (w @ y) @ b" using join_mentions by blast
  then have "join sep xs = (a @ w) @ y @ b" by simp
  then show ?thesis using Err by (auto simp only: told_Err result.inject)
qed (simp add: told_def)

lemma idle_kept: "idle d d' \<Longrightarrow> disk_kept sr i p d d'"
  by (simp add: idle_def same_disks_def disk_kept_def)

lemma kept_idle: "disk_kept sr i p d d1 \<Longrightarrow> idle d1 d2 \<Longrightarrow> disk_kept sr i p d d2"
  by (auto simp: idle_def same_disks_def disk_kept_def intro: unsaved_trans)

lemma idle_disk_kept: "idle d d1 \<Longrightarrow> disk_kept sr i p d1 d2 \<Longrightarrow> disk_kept sr i p d d2"
  by (auto simp: idle_def same_disks_def disk_kept_def intro: unsaved_trans)

lemma idle_installed: "idle d d1 \<Longrightarrow> disk_installed sr i p d1 d2 \<Longrightarrow> disk_installed sr i p d d2"
  by (auto simp: idle_def same_disks_def disk_installed_def intro: unsaved_trans)

lemma installed_idle: "disk_installed sr i p d d1 \<Longrightarrow> idle d1 d2 \<Longrightarrow> disk_installed sr i p d d2"
  by (auto simp: idle_def same_disks_def disk_installed_def intro: unsaved_trans)

lemma installed_rolled_back: "disk_installed sr i p d d1 \<Longrightarrow> disk_kept sr i p d (asked (RollbackDisk i) d1)"
  by (auto simp: disk_kept_def disk_installed_def intro: unsaved_trans)

lemma undo_kept:
  assumes "undo_disk sr i d1 = (es, d2)" "disk_installed sr i p d d1"
  shows "disk_kept sr i p d d2"
proof -
  obtain c where "clear_vm_restore_intent sr i (asked (RollbackDisk i) d1) = (c, d2)"
    using assms(1) by (auto simp: undo_disk_def ask_def Let_def split: prod.splits)
  from kept_idle [OF installed_rolled_back [OF assms(2)] clear_idle [OF this]] show ?thesis .
qed

lemma install_disk_effect:
  assumes "install_disk sr i p d = (r, d')"
  shows "d' = asked (InstallDisk i p) d" "r = sr_disk sr"
  using assms by (simp_all add: install_disk_def)

lemma failed_install_kept:
  assumes "install_disk sr i p d = (Err x, d')"
  shows "disk_kept sr i p d d'"
proof -
  have "\<not> is_ok (sr_disk sr)" using install_disk_effect(2) [OF assms] by (cases "sr_disk sr") auto
  then show ?thesis using install_disk_effect(1) [OF assms] by (simp add: disk_kept_def)
qed

lemma install_disk_installed:
  assumes "install_disk sr i p d = (Ok disk, d')"
  shows "disk_installed sr i p d d'"
  using install_disk_effect [OF assms] by (auto simp: disk_installed_def simp flip: install_disk_effect(2) [OF assms])

lemma restore_vm_effect:
  assumes "restore_vm sr s e d = (r, d')"
  shows "case r of Ok True \<Rightarrow> (\<exists>p. snap_artifact_path s = Some p \<and> disk_installed sr (runtime_id e) p d d')
    | Ok False \<Rightarrow> idle d d' | Err x \<Rightarrow> \<exists>p. disk_kept sr (runtime_id e) p d d'"
proof (cases "snap_provider_snapshot_id s \<noteq> None")
  case True
  have n: "r \<noteq> Ok True" using assms True by (auto simp: restore_vm_def Let_def and_then_def split: prod.splits result.splits if_splits)
  have "idle d d'" using assms True unfolding restore_vm_def Let_def if_P [OF True]
    by (elim and_then_idle) (auto simp: ask_def split: if_splits result.splits)
  with n show ?thesis by (auto split: result.split bool.split intro: idle_kept)
next
  case False
  note a = assms [unfolded restore_vm_def if_not_P [OF False]]
  show ?thesis
  proof (cases "snap_artifact_path s")
    case None
    then show ?thesis using a by (auto intro!: exI [of _ "[]"] idle_kept)
  next
    case (Some p)
    obtain b d1 where b: "begin_vm_restore_intent sr (runtime_id e) d = (b, d1)" by fastforce
    note i = begin_idle [OF b]
    show ?thesis
    proof (cases b)
      case (Err x)
      then show ?thesis using a Some b i by (auto simp: and_then_def intro!: exI [of _ p] idle_kept)
    next
      case (Ok u)
      obtain q d2 where q: "install_disk sr (runtime_id e) p d1 = (q, d2)" by fastforce
      show ?thesis
      proof (cases q)
        case (Err x)
        obtain c d3 where c: "clear_vm_restore_intent sr (runtime_id e) d2 = (c, d3)" by fastforce
        have "disk_kept sr (runtime_id e) p d d3"
          using kept_idle [OF idle_disk_kept [OF i failed_install_kept [OF q [unfolded Err]]] clear_idle [OF c]] .
        moreover have "\<not> is_ok r \<and> d' = d3" using a Some b Ok q Err c by (cases c) (auto simp: and_then_def)
        ultimately show ?thesis by (auto split: result.split)
      next
        case installed: (Ok disk)
        have "disk_installed sr (runtime_id e) p d d2" using idle_installed [OF i install_disk_installed [OF q [unfolded installed]]] .
        moreover have "r = Ok True \<and> d' = d2" using a Some b Ok q installed by (auto simp: and_then_def)
        ultimately show ?thesis using Some by auto
      qed
    qed
  qed
qed

lemma setup_vm_idle: "setup_vm sr b e disk d = (r, d') \<Longrightarrow> idle d d'"
  unfolding setup_vm_def Let_def by (elim and_then_idle) (auto simp: ask_def split: if_splits)

lemma setup_vm_Ok:
  assumes "setup_vm sr b e disk d = (Ok (e', t), d')"
  shows "env_id e' = env_id e \<and> env_status e' = env_status e \<and> env_runtime_path e' = Some disk"
  using assms by (auto simp: setup_vm_def and_then_def Let_def split: prod.splits result.splits if_splits)


lemma install_vm_effect:
  assumes "install_vm sr b e d = (r, d')"
  shows "case r of Ok (e', t) \<Rightarrow> disk_installed sr (env_id e) (bre_artifact_path b) d d' \<and> env_id e' = env_id e \<and> env_status e' = env_status e
      \<and> (\<exists>disk. sr_disk sr = Ok disk \<and> env_runtime_path e' = Some disk)
    | Err x \<Rightarrow> disk_kept sr (env_id e) (bre_artifact_path b) d d'
        \<and> (RollbackDisk (env_id e) \<in> set (disk_calls d') \<longrightarrow> RollbackDisk (env_id e) \<in> set (disk_calls d) \<or> told sr (env_id e) r)"
proof -
  let ?i = "env_id e" and ?p = "bre_artifact_path b"
  obtain c d1 where c: "begin_vm_restore_intent sr ?i d = (c, d1)" by fastforce
  note i = begin_idle [OF c]
  show ?thesis
  proof (cases c)
    case (Err x)
    then show ?thesis using assms c i by (auto simp: install_vm_def and_then_def idle_def same_disks_def disk_kept_def)
  next
    case (Ok u)
    obtain q d2 where q: "install_disk sr ?i ?p d1 = (q, d2)" by fastforce
    show ?thesis
    proof (cases q)
      case (Err x)
      obtain k d3 where k: "clear_vm_restore_intent sr ?i d2 = (k, d3)" by fastforce
      have "disk_kept sr ?i ?p d (asked (DeleteStaged ?p) d3)"
        using kept_idle [OF kept_idle [OF idle_disk_kept [OF i failed_install_kept [OF q [unfolded Err]]] clear_idle [OF k]]] by simp
      moreover have "disk_calls (asked (DeleteStaged ?p) d3) = disk_calls d @ [InstallDisk ?i ?p]"
        using i clear_idle [OF k] install_disk_effect(1) [OF q] by (simp add: idle_def same_disks_def)
      moreover have "\<not> is_ok r \<and> d' = asked (DeleteStaged ?p) d3"
        using assms c Ok q Err k by (auto simp: install_vm_def and_then_def ask_def Let_def)
      ultimately show ?thesis by (auto split: result.split)
    next
      case installed: (Ok disk)
      have n: "disk_installed sr ?i ?p d d2" using idle_installed [OF i install_disk_installed [OF q [unfolded installed]]] .
      obtain t d3 where t: "setup_vm sr b e disk d2 = (t, d3)" by fastforce
      have n': "disk_installed sr ?i ?p d d3" by (rule installed_idle [OF n setup_vm_idle [OF t]])
      show ?thesis
      proof (cases t)
        case ready: (Ok x)
        have "r = Ok x \<and> d' = d3" using assms c Ok q installed t ready by (auto simp: install_vm_def and_then_def)
        moreover obtain e' tk where "x = (e', tk)" by (cases x)
        moreover have "sr_disk sr = Ok disk" using install_disk_effect(2) [OF q] installed by simp
        ultimately show ?thesis using n' setup_vm_Ok t ready by fastforce
      next
        case (Err x)
        let ?d = "asked (DeleteStaged ?p) (asked (RollbackDisk ?i) d3)"
        obtain k d4 where k: "clear_vm_restore_intent sr ?i ?d = (k, d4)" by fastforce
        have "disk_kept sr ?i ?p d ?d" by (rule kept_idle [OF installed_rolled_back [OF n']]) simp
        then have "disk_kept sr ?i ?p d d4" by (rule kept_idle [OF _ clear_idle [OF k]])
        moreover have "\<exists>es. r = Err (join ''; '' (x # errors_of (sr_answer sr (RollbackDisk ?i)) @ es)) \<and> d' = d4"
          using assms c Ok q installed t Err k by (auto simp: install_vm_def and_then_def ask_def Let_def)
        moreover have "told sr ?i (Err (join ''; '' (x # errors_of (sr_answer sr (RollbackDisk ?i)) @ es)) :: (Environment \<times> taken, string) result)" for es
          by (rule told_join) (auto intro: exI [of _ "[]"])
        ultimately show ?thesis by (auto split: result.split)
      qed
    qed
  qed
qed

text \<open>What follows the saved state neither touches a disk nor an environment.\<close>

definition follows :: "desk \<Rightarrow> desk \<Rightarrow> bool" where
  "follows d d' \<longleftrightarrow> same_disks d d' \<and> environments (dk_state d') = environments (dk_state d)
     \<and> pending_vm_restores (dk_state d') = pending_vm_restores (dk_state d)"

lemma follows_refl [simp]: "follows d d"
  by (simp add: follows_def same_disks_def)

lemma follows_trans: "follows a b \<Longrightarrow> follows b c \<Longrightarrow> follows a c"
  by (simp add: follows_def same_disks_def)

lemma set_conn_keeps [simp]: "environments (set_conn i f st) = environments st" "pending_vm_restores (set_conn i f st) = pending_vm_restores st"
  by (simp_all add: set_conn_def Let_def)

lemma reconcile_one_keeps:
  assumes "reconcile_one rt seen c eng = (r, eng')"
  shows "environments (eng_state eng') = environments (eng_state eng) \<and> pending_vm_restores (eng_state eng') = pending_vm_restores (eng_state eng)"
proof -
  have "environments (eng_state g') = environments (eng_state g) \<and> pending_vm_restores (eng_state g') = pending_vm_restores (eng_state g)"
    if "mutate rt (\<lambda>st. Ok (set_conn i f st)) g = (x, g')" for x g g' i f
    using mutate_state [OF that] by auto
  then show ?thesis
    using assms unfolding reconcile_one_def Let_def
    by (fastforce split: if_splits option.splits prod.splits result.splits)
qed

lemma reconcile_each_keeps:
  "reconcile_each rt seen cs eng = (r, eng') \<Longrightarrow> environments (eng_state eng') = environments (eng_state eng)
    \<and> pending_vm_restores (eng_state eng') = pending_vm_restores (eng_state eng)"
proof (induction cs arbitrary: eng)
  case (Cons c cs)
  obtain x eng1 where o: "reconcile_one rt seen c eng = (x, eng1)" by fastforce
  show ?case using reconcile_one_keeps [OF o] Cons.IH [of eng1] Cons.prems o by (cases x) auto
qed simp

lemma reconcile_follows: "on_engine (reconcile_connections rt) d = (r, d') \<Longrightarrow> follows d d'"
  by (auto simp: on_engine_def reconcile_connections_def follows_def same_disks_def disk_calls_def split: prod.splits
      dest: reconcile_each_keeps)

lemma cleanup_disks: "cleanup_snapshot_resources sr s st d = (r, d') \<Longrightarrow> disk_calls d' = disk_calls d"
  by (auto simp: cleanup_snapshot_resources_def and_then_def cleanup_artifact_def cleanup_provider_def ask_def Let_def
      split: prod.splits result.splits option.splits RuntimeProviderKind.splits if_splits)

lemma retention_follows: "enforce_snapshot_retention sr d = (r, d') \<Longrightarrow> follows d d'"
proof (induction sr d arbitrary: r d' rule: enforce_snapshot_retention.induct)
  case (1 sr d)
  let ?st = "dk_state d"
  let ?k = "max (set_snapshot_retention (settings ?st)) 1"
  let ?s = "snapshots ?st ! ?k"
  show ?case
  proof (cases "length (snapshots ?st) \<le> ?k")
    case True
    then show ?thesis using "1.prems" by (simp add: enforce_snapshot_retention.simps [of sr d] Let_def)
  next
    case False
    obtain c d1 where c: "cleanup_snapshot_resources sr ?s ?st d = (c, d1)" by fastforce
    have f: "follows d d1" using cleanup_state [OF c] cleanup_disks [OF c] by (simp add: follows_def same_disks_def)
    show ?thesis
    proof (cases c)
      case (Err x)
      then show ?thesis using "1.prems" False c f by (simp add: enforce_snapshot_retention.simps [of sr d] Let_def)
    next
      case (Ok u)
      obtain m d2 where m: "commit sr (\<lambda>st. Ok (drop_snapshot (snap_id ?s) st)) d1 = (m, d2)" by fastforce
      have "follows d1 d2"
      proof (cases m)
        case saved: (Ok st1)
        from commit_Ok [OF m [unfolded saved]] commit_disks [OF m] show ?thesis
          by (auto simp: follows_def same_disks_def drop_snapshot_def)
      qed (use m commit_Err in fastforce)
      then have g: "follows d d2" using f follows_trans by blast
      show ?thesis
      proof (cases m)
        case (Err x)
        then show ?thesis using "1.prems" False c Ok m g by (simp add: enforce_snapshot_retention.simps [of sr d] Let_def)
      next
        case saved: (Ok st1)
        have "enforce_snapshot_retention sr d2 = (r, d')"
          using "1.prems" False c Ok m saved by (simp add: enforce_snapshot_retention.simps [of sr d] Let_def)
        from "1.IH" [OF refl refl False refl c [symmetric] Ok m [symmetric] saved this] show ?thesis
          using g follows_trans by blast
      qed
    qed
  qed
qed

lemma find_put_environment: "find_env (put_environment e st) (env_id e) = Some e"
proof (cases "find_env st (env_id e)")
  case None
  then show ?thesis by (simp add: put_environment_def find_env_def)
next
  case (Some x)
  let ?i = "env_id e"
  let ?f = "\<lambda>x. if env_id x = ?i then e else x"
  have "set_env ?i (\<lambda>_. e) st = set_env ?i ?f st"
    using nth_length_takeWhile [of "\<lambda>y. env_id y \<noteq> ?i" "environments st"] by (simp add: set_env_def Let_def)
  moreover have "find_env (set_env ?i ?f st) ?i = Some (?f x)" by (rule find_set_env [OF _ Some]) simp
  moreover have "env_id x = ?i" using Some by (auto simp: find_env_def find_Some_iff)
  ultimately show ?thesis using Some by (simp add: put_environment_def)
qed

lemma scheduled_keeps:
  assumes "scheduled macos st = Ok st'"
  shows "map_option env_status (find_env st' i) = map_option env_status (find_env st i)" "pending_vm_restores st' = pending_vm_restores st"
proof -
  show "map_option env_status (find_env st' i) = map_option env_status (find_env st i)"
    by (rule find_status) (use scheduled_frame(2,3) [OF assms] in simp_all)
  from assms have "schedule_for_host st macos = Some st'" by (simp add: scheduled_def)
  from schedule_keeps [OF this] have s: "st' = st\<lparr>environments := environments st'\<rparr>" by blast
  show "pending_vm_restores st' = pending_vm_restores st" by (subst s) simp
qed

lemma install_update_effect:
  assumes "install_update macos replaced e s cs st = Ok st'"
  shows "map_option env_status (find_env st' (env_id e)) = Some (env_status e) \<and> (replaced \<longrightarrow> env_id e \<notin> set (pending_vm_restores st'))"
proof -
  let ?e = "if list_ex (\<lambda>x. env_id x \<noteq> env_id e \<and> eq_ignore_ascii_case (env_name x) (env_name e)) (environments st)
     then e\<lparr>env_name := env_name e @ '' (restored)''\<rparr> else e"
  have id: "env_id ?e = env_id e" "env_status ?e = env_status e" by simp_all
  obtain st1 where st1: "scheduled macos st1 = Ok st'" "environments st1 = environments (put_environment ?e st)"
    "replaced \<longrightarrow> env_id ?e \<notin> set (pending_vm_restores st1)"
    using assms unfolding install_update_def Let_def by (cases replaced) auto
  have "find_env st1 (env_id e) = find_env (put_environment ?e st) (env_id ?e)" by (simp add: find_env_def st1(2) id)
  then have "find_env st1 (env_id e) = Some ?e" by (simp only: find_put_environment)
  then show ?thesis using scheduled_keeps [OF st1(1)] st1(3) id by simp
qed

lemma asked_twice_idle [simp]: "\<not> disk_call c \<Longrightarrow> \<not> disk_call c' \<Longrightarrow> idle d (asked c' (asked c d))"
  by (rule idle_trans [of _ "asked c d"]) simp_all

lemma stop_existing_idle: "stop_existing sr st b d = (q, d') \<Longrightarrow> idle d d'"
  by (auto simp: stop_existing_def ask_def split: option.splits if_splits result.splits)

lemma and_then_follows:
  assumes "and_then m k = (r, d')" "\<And>x d1. m = (x, d1) \<Longrightarrow> follows d d1" "\<And>x d1 r. k x d1 = (r, d') \<Longrightarrow> follows d1 d'"
  shows "follows d d'"
proof (cases m)
  case (Pair x d1)
  show ?thesis
  proof (cases x)
    case (Ok y)
    then have "k y d1 = (r, d')" using assms(1) Pair by (simp add: and_then_def)
    then show ?thesis using assms(2) [OF Pair] assms(3) follows_trans by blast
  qed (use assms(1,2) Pair in \<open>simp add: and_then_def\<close>)
qed

text \<open>The old disk given up, and what follows: the state that was saved stays.\<close>

lemma finalize_effect:
  assumes "and_then (ask sr (FinalizeDisk i) d) k = (r, d')" "\<And>d1 r. k () d1 = (r, d') \<Longrightarrow> follows d1 d'"
  shows "disk_calls d' = disk_calls d @ [FinalizeDisk i] \<and> environments (dk_state d') = environments (dk_state d)
    \<and> pending_vm_restores (dk_state d') = pending_vm_restores (dk_state d)"
proof -
  have "follows (asked (FinalizeDisk i) d) d'"
  proof (cases "sr_answer sr (FinalizeDisk i)")
    case (Ok u)
    then show ?thesis using assms by (simp add: and_then_def ask_def)
  qed (use assms(1) in \<open>simp add: and_then_def ask_def\<close>)
  then show ?thesis by (simp add: follows_def same_disks_def)
qed

definition disk_saved :: "snapshot_runtime \<Rightarrow> string \<Rightarrow> path \<Rightarrow> desk \<Rightarrow> desk \<Rightarrow> bool" where
  "disk_saved sr i p d d' \<longleftrightarrow> disk_calls d' = disk_calls d @ [InstallDisk i p, FinalizeDisk i] \<and> is_ok (sr_disk sr)
     \<and> i \<notin> set (pending_vm_restores (dk_state d'))"

lemma abandon_kept:
  assumes "abandon_install sr b e s x d1 = (r, d')" "provider (bre_environment b) = Qemu" "disk_installed sr (env_id e) p d d1"
  shows "\<not> is_ok r \<and> disk_kept sr (env_id e) p d d' \<and> told sr (env_id e) r"
proof -
  obtain es d2 where u: "undo_disk sr (env_id e) d1 = (es, d2)" by fastforce
  have r: "\<exists>more_errors. r = Err (join ''; '' (x # es @ more_errors)) \<and> d' = asked (DeleteStaged (bre_artifact_path b)) d2"
    using assms(1,2) u by (auto simp: abandon_install_def ask_def Let_def)
  moreover have "told sr (env_id e) (Err (join ''; '' (x # es @ more_errors)) :: (PlatformState, string) result)" for more_errors
    using u by (intro told_join) (auto simp: undo_disk_def ask_def Let_def split: prod.splits)
  ultimately have "\<not> is_ok r \<and> told sr (env_id e) r \<and> d' = asked (DeleteStaged (bre_artifact_path b)) d2" by auto
  with kept_idle [OF undo_kept [OF u assms(3)], of "asked (DeleteStaged (bre_artifact_path b)) d2"] show ?thesis by simp
qed

lemma install_commit_effect:
  assumes c: "commit sr (install_update macos True e s cs) d1 = (m, d2)" and n: "disk_installed sr (env_id e) p d d1"
    and r: "(case m of Err x \<Rightarrow> abandon_install sr b e s x d2
       | Ok _ \<Rightarrow> and_then (ask sr (FinalizeDisk (env_id e)) d2) (\<lambda>_ d.
           and_then (on_engine (reconcile_connections (sr_runtime sr)) d) (\<lambda>_ d. enforce_snapshot_retention sr d))) = (r, d')"
    and q: "provider (bre_environment b) = Qemu"
  shows "\<not> is_ok r \<and> disk_kept sr (env_id e) p d d' \<and> told sr (env_id e) r
    \<or> disk_saved sr (env_id e) p d d' \<and> map_option env_status (find_env (dk_state d') (env_id e)) = Some (env_status e)"
proof (cases m)
  case (Err x)
  then have "d2 = d1" using c commit_Err by blast
  then show ?thesis using abandon_kept [OF _ q] r Err n by fastforce
next
  case (Ok st)
  from commit_Ok [OF c [unfolded Ok]] have st: "install_update macos True e s cs (dk_state d1) = Ok st" "dk_state d2 = st" by auto
  note u = install_update_effect [OF st(1)]
  have f: "disk_calls d' = disk_calls d2 @ [FinalizeDisk (env_id e)] \<and> environments (dk_state d') = environments (dk_state d2)
    \<and> pending_vm_restores (dk_state d') = pending_vm_restores (dk_state d2)"
  proof (rule finalize_effect)
    show "and_then (ask sr (FinalizeDisk (env_id e)) d2) (\<lambda>_ d. and_then (on_engine (reconcile_connections (sr_runtime sr)) d)
        (\<lambda>_ d. enforce_snapshot_retention sr d)) = (r, d')" using r Ok by simp
    show "follows d3 d'" if "and_then (on_engine (reconcile_connections (sr_runtime sr)) d3) (\<lambda>_ d. enforce_snapshot_retention sr d) = (r, d')"
      for d3 r using that by (rule and_then_follows) (auto dest: reconcile_follows retention_follows)
  qed
  then have "find_env (dk_state d') (env_id e) = find_env st (env_id e)" using st(2) by (simp add: find_env_def)
  then show ?thesis using f u st(2) n commit_disks [OF c] by (auto simp: disk_saved_def disk_installed_def)
qed



text \<open>
  The same holds when a snapshot kept as a disk image is restored: the old disk is given up only after the restored
  state was saved, and is put back, or was never replaced, whenever it was not.
\<close>

theorem restored_disk_saved:
  assumes "restore_snapshot macos sr i d = (r, d')" "check_restore (dk_state d) i = Ok (s, e)" "provider e = Qemu"
    and "snap_provider_snapshot_id s = None"
  shows "\<exists>p. \<not> is_ok r \<and> disk_kept sr (runtime_id e) p d d' \<or> disk_saved sr (runtime_id e) p d d'"
proof -
  obtain v d1 where v: "restore_vm sr s e d = (v, d1)" by fastforce
  note eff = restore_vm_effect [OF v]
  have nf: "v \<noteq> Ok False"
    using v assms(4) by (auto simp: restore_vm_def and_then_def split: option.splits prod.splits result.splits)
  have run: "and_then (v, d1) (\<lambda>replaced d.
            case commit sr (restore_update macos s (if replaced then Some (runtime_id e) else None)) d of
              (Err x, d) \<Rightarrow>
                if replaced then (let (more_errors, d) = undo_disk sr (runtime_id e) d in (Err (join ''; '' (x # more_errors)), d))
                else (Err x, d)
            | (Ok _, d) \<Rightarrow>
                and_then (if replaced then ask sr (FinalizeDisk (runtime_id e)) d else (Ok (), d)) (\<lambda>_ d.
                and_then (on_engine (reconcile_connections (sr_runtime sr)) d) (\<lambda>_ d. (Ok (dk_state d), d)))) = (r, d')"
    using assms(1) by (simp add: restore_snapshot_def assms(2,3) restore_runtime_def v)
  show ?thesis
  proof (cases v)
    case (Err x)
    then show ?thesis using eff run by auto
  next
    case (Ok x)
    then have x: "v = Ok True" using nf by (cases x) auto
    then obtain p where n: "disk_installed sr (runtime_id e) p d d1" using eff by auto
    obtain m d2 where m: "commit sr (restore_update macos s (Some (runtime_id e))) d1 = (m, d2)" by fastforce
    show ?thesis
    proof (cases m)
      case (Err y)
      then have "d2 = d1" using m commit_Err by blast
      obtain es d3 where u: "undo_disk sr (runtime_id e) d1 = (es, d3)" by fastforce
      have "\<not> is_ok r \<and> d' = d3" using run x m Err \<open>d2 = d1\<close> u by auto
      then show ?thesis using undo_kept [OF u n] by blast
    next
      case saved: (Ok st)
      from commit_Ok [OF m [unfolded saved]] have st: "restore_update macos s (Some (runtime_id e)) (dk_state d1) = Ok st" "dk_state d2 = st" by auto
      have pend: "runtime_id e \<notin> set (pending_vm_restores st)"
        using st(1) by (auto simp: restore_update_def Let_def scheduled_keeps(2) split: if_splits)
      have "disk_calls d' = disk_calls d2 @ [FinalizeDisk (runtime_id e)] \<and> environments (dk_state d') = environments (dk_state d2)
          \<and> pending_vm_restores (dk_state d') = pending_vm_restores (dk_state d2)"
      proof (rule finalize_effect)
        show "and_then (ask sr (FinalizeDisk (runtime_id e)) d2) (\<lambda>_ d.
            and_then (on_engine (reconcile_connections (sr_runtime sr)) d) (\<lambda>_ d. (Ok (dk_state d), d))) = (r, d')"
          using run x m saved by simp
        show "follows d3 d'" if "and_then (on_engine (reconcile_connections (sr_runtime sr)) d3) (\<lambda>_ d. (Ok (dk_state d), d)) = (r, d')"
          for d3 r using that by (rule and_then_follows) (auto dest: reconcile_follows)
      qed
      then show ?thesis using pend st(2) n commit_disks [OF m] by (auto simp: disk_saved_def disk_installed_def)
    qed
  qed
qed

section \<open>A failed import leaves nothing behind\<close>

lemma discard_import_effect:
  assumes "discard_import sr b x d = (r, d')"
  shows "\<not> is_ok r \<and> dk_engine d' = dk_engine d \<and> (has_env (dk_state d') (env_id (bre_environment b)) \<or> DeleteStaged (bre_artifact_path b) \<in> set (dk_calls d'))"
  using assms by (auto simp: discard_import_def ask_def asked_def Let_def split: if_splits)

lemma retarget_simps [simp]:
  "env_id (bre_environment (retarget p b)) = env_id (bre_environment b)" "bre_artifact_path (retarget p b) = bre_artifact_path b"
  by (simp_all add: retarget_def)

lemma finish_import_effect:
  assumes "finish_import macos sr b d = (Err x, d')"
  shows "has_env (dk_state d') (env_id (bre_environment b)) \<or> DeleteStaged (bre_artifact_path b) \<in> set (dk_calls d')"
proof -
  obtain q d1 where q: "prepare_import sr b d = (q, d1)" by fastforce
  show ?thesis
  proof (cases q)
    case (Err y)
    then show ?thesis using assms q by (auto simp: finish_import_def ask_def asked_def split: result.splits)
  next
    case (Ok u)
    obtain v d2 where v: "install_restored_backup macos sr b d1 = (v, d2)" by fastforce
    show ?thesis
    proof (cases v)
      case (Err y)
      then have "discard_import sr b y d2 = (Err x, d')" using assms q Ok v by (simp add: finish_import_def)
      from discard_import_effect [OF this] show ?thesis by blast
    qed (use assms q Ok v in \<open>simp add: finish_import_def\<close>)
  qed
qed

text \<open>
  An import that fails after the backup was read either left the environment in the saved state, and then says
  so, or asked for the removal of the copied disk: no import loses track of its staged copy.
\<close>

theorem failed_import_cleans_up:
  assumes "import_backup_with_provider macos sr target (Ok b) d = (Err x, d')"
  shows "has_env (dk_state d') (env_id (bre_environment b)) \<or> DeleteStaged (bre_artifact_path b) \<in> set (dk_calls d')
    \<or> (\<exists>p. target = Some p \<and> (\<not> provider_is_container p \<or> p = OpenDockCuda \<and> \<not> is_ok (sr_answer sr RequireCuda)))"
proof (cases target)
  case None
  then have "finish_import macos sr b d = (Err x, d')" using assms by (simp add: import_backup_with_provider_def)
  from finish_import_effect [OF this] show ?thesis by blast
next
  case (Some p)
  show ?thesis
  proof (cases "provider_is_container p \<and> (p = OpenDockCuda \<longrightarrow> is_ok (sr_answer sr RequireCuda))")
    case True
    then obtain d1 where g: "(case Ok b of Err x \<Rightarrow> (Err x, d1)
        | Ok b \<Rightarrow> if env_kind (bre_environment b) \<noteq> Container \<or> \<not> container_backup b
            then (Err ''A VM disk cannot be loaded into a container engine. Keep its original engine.'', asked (DeleteStaged (bre_artifact_path b)) d1)
            else finish_import macos sr (retarget p b) d1) = (Err x, d')"
      using assms Some by (cases "sr_answer sr RequireCuda") (auto simp: import_backup_with_provider_def ask_def split: if_splits)
    then show ?thesis using finish_import_effect [of macos sr "retarget p b" d1 x d'] by (auto simp: asked_def split: if_splits)
  qed (use Some in auto)
qed


section \<open>Examples\<close>

definition example_desk :: desk where
  "example_desk = \<lparr>dk_engine = \<lparr>eng_state = (example_state 1 [backup_env])\<lparr>settings := example_settings\<lparr>set_snapshot_retention := 1\<rparr>, snapshots :=
       [(local_snapshot ''snap-1'' [] backup_env 104 [])\<lparr>snap_artifact_path := Some ''/snapshots/1''\<rparr>,
        (local_snapshot ''snap-0'' [] backup_env 104 [])\<lparr>snap_artifact_path := Some ''/snapshots/0''\<rparr>]\<rparr>, eng_calls = []\<rparr>, dk_calls = []\<rparr>"

definition example_sr :: "(unit, string) result \<Rightarrow> snapshot_runtime" where
  "example_sr answer = \<lparr>sr_runtime = example_runtime, sr_answer = (\<lambda>_. answer), sr_take = (\<lambda>_. Ok ([], [], 1, [])), sr_import = (\<lambda>_ _. Ok ([], [], 1, [])), sr_secure = Ok False,
     sr_export = Err [], sr_vm_size = Ok 1, sr_disk = Ok ''/vm/new'', sr_length = Ok 104\<rparr>"

definition example_restore :: BackupRestore where
  "example_restore = \<lparr>bre_environment = restored_environment example_ids backup_env, bre_snapshot = local_snapshot ''snap-3'' [] backup_env 104 [],
     bre_connections = [], bre_artifact_path = ''/staging/local-1.data''\<rparr>"

lemma backup_env_provider [simp]: "provider backup_env = Qemu" "provider (bre_environment example_restore) = Qemu"
  by (simp_all add: provider_def example_restore_def restored_environment_def backup_env_def example_env_def)

theorem retention_keeps_newest_witness:
  "\<exists>r d' n. enforce_snapshot_retention (example_sr (Ok ())) example_desk = (r, d')
    \<and> snapshots (dk_state d') = take 1 (snapshots (dk_state example_desk)) @ drop (1 + n) (snapshots (dk_state example_desk))"
proof -
  obtain r d' where e: "enforce_snapshot_retention (example_sr (Ok ())) example_desk = (r, d')" by fastforce
  have "distinct (map snap_id (snapshots (dk_state example_desk)))" "1 = retention_of (dk_state example_desk)"
    by (simp_all add: example_desk_def local_snapshot_def retention_of_def example_state_def example_settings_def)
  from retention_keeps_newest [OF e this refl] obtain n where "dk_state d' = (dk_state example_desk)\<lparr>snapshots :=
      take 1 (snapshots (dk_state example_desk)) @ drop (1 + n) (snapshots (dk_state example_desk))\<rparr>" by blast
  then have "snapshots (dk_state d') = take 1 (snapshots (dk_state example_desk)) @ drop (1 + n) (snapshots (dk_state example_desk))" by simp
  with e show ?thesis by blast
qed


theorem restored_disk_saved_witness:
  "\<exists>r d' p. restore_snapshot False (example_sr (Ok ())) ''snap-1'' example_desk = (r, d')
    \<and> (\<not> is_ok r \<and> disk_kept (example_sr (Ok ())) ''env-1'' p example_desk d' \<or> disk_saved (example_sr (Ok ())) ''env-1'' p example_desk d')"
proof -
  let ?s = "(local_snapshot ''snap-1'' [] backup_env 104 [])\<lparr>snap_artifact_path := Some ''/snapshots/1''\<rparr>"
  obtain r d' where e: "restore_snapshot False (example_sr (Ok ())) ''snap-1'' example_desk = (r, d')" by fastforce
  have i: "env_id backup_env = ''env-1''" "runtime_id backup_env = ''env-1''" by (simp_all add: backup_env_def example_env_def runtime_id_def)
  have "check_restore (dk_state example_desk) ''snap-1'' = Ok (?s, backup_env)"
    by (simp add: check_restore_def example_desk_def local_snapshot_def ensure_complete_def find_env_def example_state_def i)
  moreover have "snap_provider_snapshot_id ?s = None" by (simp add: local_snapshot_def)
  ultimately show ?thesis using restored_disk_saved [OF e _ backup_env_provider(1)] e unfolding i by blast
qed

theorem failed_import_cleans_up_witness:
  "\<exists>x d'. import_backup_with_provider False (example_sr (Err ''no'')) None
      (Ok (example_restore\<lparr>bre_environment := (bre_environment example_restore)\<lparr>env_provider := Some OpenDockOci\<rparr>\<rparr>)) example_desk = (Err x, d')
    \<and> DeleteStaged ''/staging/local-1.data'' \<in> set (dk_calls d')"
proof -
  let ?b = "example_restore\<lparr>bre_environment := (bre_environment example_restore)\<lparr>env_provider := Some OpenDockOci\<rparr>\<rparr>"
  have p: "prepare_import (example_sr (Err ''no'')) ?b example_desk = (Err ''no'', asked (RegisterContainer ''env-4'') example_desk)"
    by (simp add: prepare_import_def container_backup_def ask_def example_sr_def example_restore_def restored_environment_def example_ids_def)
  then have i: "import_backup_with_provider False (example_sr (Err ''no'')) None (Ok ?b) example_desk
      = (Err (''no'' @ ''; '' @ ''no''), asked (DeleteStaged ''/staging/local-1.data'') (asked (RegisterContainer ''env-4'') example_desk))"
    by (simp add: import_backup_with_provider_def finish_import_def ask_def example_sr_def) (simp add: example_restore_def)
  have "\<not> has_env (dk_state (asked (DeleteStaged ''/staging/local-1.data'') (asked (RegisterContainer ''env-4'') example_desk))) ''env-4''"
    by (simp add: has_env_def example_desk_def example_state_def backup_env_def example_env_def)
  moreover have "env_id (bre_environment ?b) = ''env-4''" "bre_artifact_path ?b = ''/staging/local-1.data''"
    by (simp_all add: example_restore_def restored_environment_def example_ids_def)
  ultimately show ?thesis using failed_import_cleans_up [OF i] i by (metis option.distinct(1))
qed

section \<open>Connections through restores\<close>

text \<open>
  The histories of the stored connections: the commands on connections and environments in any interleaving, a restored
  snapshot, an installed backup, and any other command, which adds environments at most. What a snapshot or a backup
  brings back are connections of its environment as they were stored in some state of the history; a restore does not fall
  between the check and the update of a connection that is being created (see \<open>restore_race_duplicates\<close>).
\<close>

definition saved_connections :: "string \<Rightarrow> PlatformState \<Rightarrow> Connection list" where
  "saved_connections i st = filter (touches i) (connections st)"

inductive desktop_reach :: "bool \<Rightarrow> engine \<Rightarrow> bool" for macos :: bool where
  desk_start: "connections (eng_state eng) = [] \<Longrightarrow> desktop_reach macos eng"
| desk_step: "desktop_reach macos eng \<Longrightarrow> desktop_step macos eng eng' \<Longrightarrow> desktop_reach macos eng'"
| desk_restore: "desktop_reach macos eng \<Longrightarrow> desktop_reach macos earlier \<Longrightarrow>
     snap_connections s \<in> {None, Some (saved_connections (snap_environment_id s) (eng_state earlier))} \<Longrightarrow>
     mutate rt (restore_update macos s pending) eng = (r, eng') \<Longrightarrow> desktop_reach macos eng'"
| desk_install: "desktop_reach macos eng \<Longrightarrow> desktop_reach macos earlier \<Longrightarrow>
     cs \<in> {[], saved_connections (env_id e) (eng_state earlier)} \<Longrightarrow>
     mutate rt (install_update macos replaced e s cs) eng = (r, eng') \<Longrightarrow> desktop_reach macos eng'"
| desk_other: "desktop_reach macos eng \<Longrightarrow> mutate rt operation eng = (r, eng') \<Longrightarrow>
     (\<And>st st'. operation st = Ok st' \<Longrightarrow> connections st' = connections st \<and> env_id ` set (environments st) \<subseteq> env_id ` set (environments st')) \<Longrightarrow>
     desktop_reach macos eng'"

lemma has_env_image: "has_env st i \<longleftrightarrow> i \<in> env_id ` set (environments st)"
  by (auto simp: has_env_def list_ex_iff)

lemma exchanged_ok:
  assumes "connections_ok st" "env_id ` set (environments st) \<subseteq> env_id ` set (environments st')"
    and "connections st' = filter (\<lambda>c. \<not> touches i c) (connections st) @ new"
    and "distinct (map ends new)" "\<And>c. c \<in> set new \<Longrightarrow> touches i c \<and> valid_connection c \<and> has_env st' (conn_source_id c) \<and> has_env st' (conn_target_id c)"
  shows "connections_ok st'"
proof -
  have "ends c \<noteq> ends c'" if "\<not> touches i c" "touches i c'" for c c'
    using that by (auto simp: ends_def touches_def)
  then have "distinct (map ends (connections st'))"
    using assms(1,3-5) by (fastforce simp: connections_ok_def distinct_map_filter)
  then show ?thesis using assms by (auto simp: connections_ok_def has_env_image)
qed

lemma saved_ok:
  assumes "connections_ok st0" "new = filter P (saved_connections i st0)"
  shows "distinct (map ends new)" "c \<in> set new \<Longrightarrow> touches i c \<and> valid_connection c"
  using assms by (auto simp: connections_ok_def saved_connections_def distinct_map_filter)

lemma restore_update_frame:
  assumes "restore_update macos s pending st = Ok st'"
  shows "connections st' = connections (restore_connections s (set_env (snap_environment_id s) (restore_env s) st))"
    and "map env_id (environments st') = map env_id (environments st)"
proof -
  let ?t = "set_env (snap_environment_id s) (restore_env s) st"
  let ?u = "restore_connections s ?t"
  have i: "map env_id (environments ?t) = map env_id (environments st)"
    by (rule set_env_frame) (simp add: restore_env_def Let_def split: option.split)
  obtain st1 where st1: "scheduled macos st1 = Ok st'" "environments st1 = environments ?u" "connections st1 = connections ?u"
    using assms by (cases pending) (auto simp: restore_update_def Let_def split: if_splits)
  note f = scheduled_frame(1,2) [OF st1(1), unfolded st1(2,3)]
  show "connections st' = connections ?u" by (rule f)
  show "map env_id (environments st') = map env_id (environments st)"
    using f(2) i by (simp add: restore_connections_def split: option.splits)
qed

lemma restore_update_ok:
  assumes u: "restore_update macos s pending st = Ok st'" and ok: "connections_ok st" "connections_ok st0"
    and s: "snap_connections s \<in> {None, Some (saved_connections (snap_environment_id s) st0)}"
  shows "connections_ok st'"
proof -
  let ?i = "snap_environment_id s" and ?t = "set_env (snap_environment_id s) (restore_env s) st"
  note f = restore_update_frame [OF u]
  have i: "map env_id (environments ?t) = map env_id (environments st)"
    by (rule set_env_frame) (simp add: restore_env_def Let_def split: option.split)
  note e = f(2)
  from e have e': "env_id ` set (environments st') = env_id ` set (environments st)" by (metis list.set_map)
  have h: "has_env ?t j = has_env st' j" for j using i e by (simp add: has_env_ids)
  have c: "connections ?t = connections st" by (simp add: set_env_def Let_def)
  show ?thesis
  proof (cases "snap_connections s")
    case None
    then have "connections st' = connections st" using f(1) c by (simp add: restore_connections_def)
    then show ?thesis using ok(1) e' by (auto simp: connections_ok_def has_env_image)
  next
    case (Some cs)
    let ?new = "filter (\<lambda>c. has_env st' (conn_source_id c) \<and> has_env st' (conn_target_id c)) (saved_connections ?i st0)"
    have "connections st' = filter (\<lambda>c. \<not> touches ?i c) (connections st) @ ?new"
      using f(1) c Some s h by (simp add: restore_connections_def touches_def)
    then show ?thesis using saved_ok [OF ok(2) refl] e' by (intro exchanged_ok [OF ok(1)]) (auto simp del: set_filter, auto)
  qed
qed

lemma ends_pending [simp]: "ends (pending_connection c) = ends c" "touches i (pending_connection c) = touches i c"
  "valid_connection (pending_connection c) = valid_connection c" "conn_source_id (pending_connection c) = conn_source_id c"
  "conn_target_id (pending_connection c) = conn_target_id c"
  by (simp_all add: pending_connection_def ends_def touches_def valid_connection_def)

lemma put_environment_frame:
  "connections (put_environment e st) = connections st"
  "env_id ` set (environments st) \<subseteq> env_id ` set (environments (put_environment e st))"
proof -
  let ?f = "\<lambda>x. if env_id x = env_id e then e else x"
  have s: "set_env (env_id e) (\<lambda>_. e) st = set_env (env_id e) ?f st"
    using nth_length_takeWhile [of "\<lambda>y. env_id y \<noteq> env_id e" "environments st"] by (simp add: set_env_def Let_def)
  have i: "map env_id (environments (set_env (env_id e) ?f st)) = map env_id (environments st)" by (rule set_env_frame) simp
  have e: "env_id ` set (environments (set_env (env_id e) ?f st)) = env_id ` set (environments st)"
    using i by (metis list.set_map)
  show "connections (put_environment e st) = connections st" by (simp add: put_environment_def set_env_def Let_def)
  show "env_id ` set (environments st) \<subseteq> env_id ` set (environments (put_environment e st))"
    unfolding put_environment_def s using e by auto
qed

lemma install_update_ok:
  assumes u: "install_update macos replaced e s cs st = Ok st'" and ok: "connections_ok st" "connections_ok st0"
    and cs: "cs \<in> {[], saved_connections (env_id e) st0}"
  shows "connections_ok st'"
proof -
  let ?e = "if list_ex (\<lambda>x. env_id x \<noteq> env_id e \<and> eq_ignore_ascii_case (env_name x) (env_name e)) (environments st)
            then e\<lparr>env_name := env_name e @ '' (restored)''\<rparr> else e"
  let ?t = "put_environment ?e st"
  have id: "env_id ?e = env_id e" by simp
  have f: "connections st' = filter (\<lambda>c. \<not> touches (env_id e) c) (connections st)
        @ map pending_connection (filter (\<lambda>c. has_env ?t (conn_source_id c) \<and> has_env ?t (conn_target_id c)) cs)"
    "map env_id (environments st') = map env_id (environments ?t)"
  proof -
    obtain st1 where st1: "scheduled macos st1 = Ok st'" "environments st1 = environments ?t"
      "connections st1 = filter (\<lambda>c. \<not> touches (env_id e) c) (connections ?t)
        @ map pending_connection (filter (\<lambda>c. has_env ?t (conn_source_id c) \<and> has_env ?t (conn_target_id c)) cs)"
      using u unfolding install_update_def Let_def id by (cases replaced) (auto simp: has_env_def)
    then show "map env_id (environments st') = map env_id (environments ?t)"
      "connections st' = filter (\<lambda>c. \<not> touches (env_id e) c) (connections st)
        @ map pending_connection (filter (\<lambda>c. has_env ?t (conn_source_id c) \<and> has_env ?t (conn_target_id c)) cs)"
      using scheduled_frame(1,2) [OF st1(1)] put_environment_frame(1) by simp_all
  qed
  have h: "has_env ?t j = has_env st' j" for j using f(2) by (simp only: has_env_ids)
  have "env_id ` set (environments st) \<subseteq> env_id ` set (environments ?t)" by (rule put_environment_frame)
  then have sub: "env_id ` set (environments st) \<subseteq> env_id ` set (environments st')" using f(2) by (metis list.set_map)
  let ?new = "map pending_connection (filter (\<lambda>c. has_env st' (conn_source_id c) \<and> has_env st' (conn_target_id c)) cs)"
  have d: "distinct (map ends ?new)" "\<And>c. c \<in> set ?new \<Longrightarrow> touches (env_id e) c \<and> valid_connection c \<and> has_env st' (conn_source_id c) \<and> has_env st' (conn_target_id c)"
    using cs saved_ok [OF ok(2) refl, where P = "\<lambda>c. has_env st' (conn_source_id c) \<and> has_env st' (conn_target_id c)" and i = "env_id e"]
    by (auto simp: comp_def simp del: set_filter) (auto)
  show ?thesis by (rule exchanged_ok [OF ok(1) sub _ d]) (use f(1) h in simp)
qed

lemma desktop_reach_ok: "desktop_reach macos eng \<Longrightarrow> connections_ok (eng_state eng)"
proof (induction rule: desktop_reach.induct)
  case (desk_start eng)
  then show ?case by (simp add: connections_ok_def)
next
  case (desk_step eng eng')
  then show ?case using wiring.inv_move by blast
next
  case (desk_restore eng earlier s rt pending r eng')
  then show ?case using mutate_state [OF desk_restore(4)] restore_update_ok [OF _ desk_restore(5,6,3)] by auto
next
  case (desk_install eng earlier cs e rt replaced s r eng')
  then show ?case using mutate_state [OF desk_install(4)] install_update_ok [OF _ desk_install(5,6,3)] by auto
next
  case (desk_other eng rt operation r eng')
  have "connections_ok st'" if "operation (eng_state eng) = Ok st'" for st'
    using desk_other(3) [OF that] desk_other(4) by (auto simp: connections_ok_def has_env_image)
  then show ?case using mutate_state [OF desk_other(2)] desk_other(4) by auto
qed



lemma restored_connections:
  assumes "restore_update macos s pending st = Ok st'" and "snap_connections s = Some cs" and "c \<in> set cs"
    and "has_env st (conn_source_id c)" and "has_env st (conn_target_id c)"
  shows "c \<in> set (connections st')"
proof -
  let ?t = "set_env (snap_environment_id s) (restore_env s) st"
  have ids: "env_id (restore_env s x) = env_id x" for x by (simp add: restore_env_def Let_def split: option.split)
  have h: "has_env ?t j = has_env st j" for j using ids by (simp add: has_env_ids)
  have c: "c \<in> set (connections (restore_connections s ?t))" using assms(2-5) h by (simp add: restore_connections_def)
  then show ?thesis using restore_update_frame(1) [OF assms(1)] by simp
qed

text \<open>
  C38. A restore takes no part in the lock of the connection commands, and creating a connection looks for a duplicate only
  in the state it read first: a snapshot restored while the runtime applies the new connection brings an old connection of
  the same two ends back, and the state then holds both.
\<close>

theorem restore_race_duplicates:
  assumes "restore_update macos s pending seen = Ok (eng_state eng)" and "snap_connections s = Some cs" and "c \<in> set cs"
    and "ends c = (ccr_source_id r, ccr_target_id r)" and "has_env seen (ccr_source_id r)" and "has_env seen (ccr_target_id r)"
    and "create_connection rt i r seen eng = (Ok st, eng')"
  shows "\<not> distinct (map ends (connections (eng_state eng')))"
proof -
  have "c \<in> set (connections (eng_state eng))"
    by (rule restored_connections [OF assms(1-3)]) (use assms(4-6) in \<open>auto simp: ends_def\<close>)
  then have "ends c \<in> ends ` set (connections (eng_state eng))" by simp
  moreover obtain rule where "connections (eng_state eng') = connections (eng_state eng) @ [new_connection i (rt_now rt) r rule]"
    using create_connection_effect [OF assms(7)] by auto
  ultimately show ?thesis using assms(4) by simp
qed

theorem restore_race_duplicates_witness:
  "\<exists>st1 st eng'. restore_update False example_snapshot None (eng_state example_engine) = Ok st1
     \<and> create_connection example_runtime ''c'' example_connect (eng_state example_engine) (example_engine\<lparr>eng_state := st1\<rparr>) = (Ok st, eng')
     \<and> \<not> distinct (map ends (connections (eng_state eng')))"
proof -
  obtain st1 where r: "restore_update False example_snapshot None (eng_state example_engine) = Ok st1" using example_snapshot_restored by blast
  let ?eng = "example_engine\<lparr>eng_state := st1\<rparr>"
  have s: "snap_connections example_snapshot = Some [example_link]" by (simp add: example_snapshot_def)
  have l: "ends example_link = (ccr_source_id example_connect, ccr_target_id example_connect)"
    by (simp add: example_link_def)
  have "has_env st1 j" if "has_env (eng_state example_engine) j" for j
    using restore_update_frame(2) [OF r] that by (simp add: has_env_ids)
  then have h: "has_env (eng_state ?eng) ''a''" "has_env (eng_state ?eng) ''b''" using example_has_env by simp_all
  obtain st eng' where c: "create_connection example_runtime ''c'' example_connect (eng_state example_engine) ?eng = (Ok st, eng')"
    using example_create [OF h] by blast
  have "\<not> distinct (map ends (connections (eng_state eng')))"
    by (rule restore_race_duplicates [OF _ s _ l _ _ c]) (use r example_has_env in \<open>simp_all add: example_connect_def\<close>)
  with r c show ?thesis by blast
qed

end
