(* ===== verification/Recovery.thy ===== *)
theory Recovery
  imports Snapshots
begin

text \<open>
  The commands that may be cut off half-way: creating an environment (\<open>commands.rs\<close>,
  \<open>commands/vm_creation.rs\<close>), the factory reset with its journal (\<open>commands/factory_reset.rs\<close>) and the recovery of the
  stored state when the application starts again (\<open>lib.rs\<close>). Every save and every call of the runtime may succeed, fail,
  or be the moment at which the application is killed; the state in memory, the saved state and the disks of the
  environments survive differently.
\<close>

section \<open>Runs that may be cut off\<close>

datatype event = Proceeds | Breaks string | Dies

datatype 'a ending = Finished 'a | Errored string | Panicked | Killed

datatype reset_call =
    DropLayer string string | DropArtifact path | DropStaged path | DropGeneration string
  | ProvisionGeneration string | AskRunning string | RegisterProvider string | AskCapacity string | GrowStorage string f64

text \<open>
  The platform state in memory and on disk: \<open>State_Store.mutate_transaction\<close> is what lets a save be one step, after
  which both agree and before which neither has changed. \<open>va_generations\<close> are the runtime ids whose disk or container is
  complete, \<open>va_artifacts\<close> the snapshot files, \<open>va_announced\<close> the states sent to the interface, and \<open>va_script\<close> what
  will happen to the next steps (after its end, everything succeeds).
\<close>

record vault =
  va_state :: PlatformState
  va_saved :: PlatformState
  va_generations :: "string list"
  va_artifacts :: "path list"
  va_calls :: "reset_call list"
  va_announced :: "PlatformState list"
  va_script :: "event list"

type_synonym 'a run = "vault \<Rightarrow> 'a ending \<times> vault"

definition run_return :: "'a \<Rightarrow> 'a run" where
  "run_return x v = (Finished x, v)"

definition run_fail :: "string \<Rightarrow> 'a run" where
  "run_fail e v = (Errored e, v)"

definition run_panic :: "'a run" where
  "run_panic v = (Panicked, v)"

definition run_bind :: "'a run \<Rightarrow> ('a \<Rightarrow> 'b run) \<Rightarrow> 'b run" where
  "run_bind m k v =
     (case m v of (Finished x, v) \<Rightarrow> k x v | (Errored e, v) \<Rightarrow> (Errored e, v) | (Panicked, v) \<Rightarrow> (Panicked, v) | (Killed, v) \<Rightarrow> (Killed, v))"

abbreviation run_then :: "'a run \<Rightarrow> 'b run \<Rightarrow> 'b run" where
  "run_then m k \<equiv> run_bind m (\<lambda>_. k)"

text \<open>A result that the code looks at instead of passing its error on.\<close>

definition run_result :: "'a run \<Rightarrow> ('a, string) result run" where
  "run_result m v =
     (case m v of (Finished x, v) \<Rightarrow> (Finished (Ok x), v) | (Errored e, v) \<Rightarrow> (Finished (Err e), v) | (Panicked, v) \<Rightarrow> (Panicked, v) | (Killed, v) \<Rightarrow> (Killed, v))"

fun run_of :: "('a, string) result \<Rightarrow> 'a run" where
  "run_of (Ok x) = run_return x"
| "run_of (Err e) = run_fail e"

definition attempt :: "(vault \<Rightarrow> vault) \<Rightarrow> (vault \<Rightarrow> vault) \<Rightarrow> unit run" where
  "attempt good bad v =
     (case va_script v of
        [] \<Rightarrow> (Finished (), good v)
      | Proceeds # s \<Rightarrow> (Finished (), good (v\<lparr>va_script := s\<rparr>))
      | Breaks e # s \<Rightarrow> (Errored e, bad (v\<lparr>va_script := s\<rparr>))
      | Dies # s \<Rightarrow> (Killed, bad (v\<lparr>va_script := s\<rparr>)))"

definition runtime_call :: "reset_call \<Rightarrow> (vault \<Rightarrow> vault) \<Rightarrow> (vault \<Rightarrow> vault) \<Rightarrow> unit run" where
  "runtime_call c good bad =
     attempt (\<lambda>v. good (v\<lparr>va_calls := va_calls v @ [c]\<rparr>)) (\<lambda>v. bad (v\<lparr>va_calls := va_calls v @ [c]\<rparr>))"

definition stored :: "PlatformState run" where
  "stored v = (Finished (va_state v), v)"

definition save :: "(PlatformState \<Rightarrow> (PlatformState, string) result) \<Rightarrow> PlatformState run" where
  "save operation v =
     (case operation (va_state v) of
        Err e \<Rightarrow> (Errored e, v)
      | Ok st \<Rightarrow> run_then (attempt (\<lambda>v. v\<lparr>va_state := st, va_saved := st\<rparr>) (\<lambda>v. v)) (run_return st) v)"

definition remember :: "(PlatformState \<Rightarrow> (PlatformState, string) result) \<Rightarrow> PlatformState run" where
  "remember operation v =
     (case operation (va_state v) of Err e \<Rightarrow> (Errored e, v) | Ok st \<Rightarrow> (Finished st, v\<lparr>va_state := st\<rparr>))"

definition announce :: "PlatformState \<Rightarrow> unit run" where
  "announce st v = (Finished (), v\<lparr>va_announced := va_announced v @ [st]\<rparr>)"

text \<open>A disk that is removed is no longer complete, even when the removal fails or is cut off.\<close>

definition without_generation :: "string \<Rightarrow> vault \<Rightarrow> vault" where
  "without_generation rid v = v\<lparr>va_generations := filter (\<lambda>g. g \<noteq> rid) (va_generations v)\<rparr>"

definition drop_generation :: "string \<Rightarrow> unit run" where
  "drop_generation rid = runtime_call (DropGeneration rid) (without_generation rid) (without_generation rid)"

definition provision_generation :: "string \<Rightarrow> unit run" where
  "provision_generation rid =
     runtime_call (ProvisionGeneration rid) (\<lambda>v. v\<lparr>va_generations := va_generations v @ [rid]\<rparr>) (\<lambda>v. v)"

section \<open>What the runtime answers\<close>

record cuda_status =
  cu_supported :: bool
  cu_installed :: bool
  cu_update_available :: bool
  cu_detail :: string

record recovery_runtime =
  rv_uuid :: string
  rv_now :: string
  rv_host :: HostMetrics
  rv_show :: "f64 \<Rightarrow> string"
  rv_running :: "string \<Rightarrow> bool"
  rv_prepared :: "string \<Rightarrow> path \<times> string"
  rv_capacity :: f64
  rv_cuda :: cuda_status
  rv_sandbox :: "path \<times> string"

section \<open>Creating an environment\<close>

definition BUILTIN_MICRO_VM_SOURCE :: string where
  "BUILTIN_MICRO_VM_SOURCE = ''builtin:alpine''"

definition storage_bytes :: "f64 \<Rightarrow> (nat, string) result" where
  "storage_bytes gb =
     (if \<not> is_finite gb \<or> f_lt gb (Fin 1) \<or> f_lt (Fin 16384) gb \<or> \<not> f_eq (f_sub gb (f_floor gb)) (Fin 0)
      then Err ''Storage must be a whole number between 1 and 16384 GB''
      else Ok (f_to_u64 (f_mul gb (Fin 1073741824))))"

definition check_kind :: "EnvironmentKind \<Rightarrow> RuntimeProviderKind \<Rightarrow> (unit, string) result" where
  "check_kind k p =
     (if k = Container then
        (if p = OpenDockOci \<or> p = OpenDockCuda then Ok () else Err ''Choose the Yougori OCI or NVIDIA CUDA container runtime'')
      else if k = ComputerBranch then
        (if p = NativeSandbox then Ok () else Err ''Computer Branches use native Windows application isolation, not a VM'')
      else if (k = MicroVm \<or> k = FullVm) \<and> p = Qemu then Ok ()
      else if p = NativeSandbox then Err ''Native application isolation is only valid for Computer Branches''
      else Err ''Virtual environments must use bundled Yougori virtualization'')"

definition check_branch :: "CreateEnvironmentRequest \<Rightarrow> (unit, string) result" where
  "check_branch r =
     (if cer_kind r \<noteq> ComputerBranch \<and> cer_branch_type r \<noteq> None then Err ''Branch type is only valid for computer branches''
      else if cer_kind r = ComputerBranch then
        (case cer_sandbox_policy r of
           None \<Rightarrow> Err ''Choose an application and file access for this Computer Branch''
         | Some p \<Rightarrow>
             if trim (sp_executable p) \<noteq> trim (cer_runtime r)
             then Err ''Computer Branch application metadata does not match the selected application'' else Ok ())
      else if cer_sandbox_policy r \<noteq> None then Err ''File access policy is only valid for Computer Branches''
      else Ok ())"

definition authorize_gpu :: "CreateEnvironmentRequest \<Rightarrow> CreateEnvironmentRequest" where
  "authorize_gpu r = (if cer_kind r = Container \<and> cer_provider r = OpenDockCuda then r\<lparr>cer_gpu_access := True\<rparr> else r)"

definition check_request_fields :: "CreateEnvironmentRequest \<Rightarrow> (unit, string) result" where
  "check_request_fields r =
     (if length (trim (cer_name r)) < 2 \<or> 80 < length (trim (cer_name r))
      then Err ''Environment name must be between 2 and 80 characters''
      else if trim (cer_runtime r) = [] then Err ''An OCI image, application, or bootable media path is required''
      else if cer_kind r = ComputerBranch then Err ''Computer Branch is temporarily unavailable''
      else
        result_bind (validate_range ''CPU'' (crp_cpu (cer_resource_policy r))) (\<lambda>_.
        result_bind (case cer_storage_gb r of Some gb \<Rightarrow> result_bind (storage_bytes gb) (\<lambda>_. Ok ()) | None \<Rightarrow> Ok ()) (\<lambda>_.
        if cer_kind r = Container \<and> (case cer_storage_gb r of Some gb \<Rightarrow> f_lt gb (Fin 6) | None \<Rightarrow> False)
        then Err ''Container storage limits start at 6 GB.''
        else
          result_bind (validate_range ''Memory'' (crp_memory_gb (cer_resource_policy r))) (\<lambda>_.
          if f_lt (Fin 255) (crr_max (crp_cpu (cer_resource_policy r))) then Err ''CPU maximum cannot exceed 255 virtual CPUs''
          else if f_lt (Fin 1024) (crr_max (crp_memory_gb (cer_resource_policy r))) then Err ''Memory maximum cannot exceed 1024 GiB''
          else result_bind (check_kind (cer_kind r) (cer_provider r)) (\<lambda>_. check_branch r)))))"

definition name_taken :: "string \<Rightarrow> PlatformState \<Rightarrow> bool" where
  "name_taken name st \<longleftrightarrow> list_ex (\<lambda>e. eq_ignore_ascii_case (env_name e) name) (environments st)"

definition check_host :: "recovery_runtime \<Rightarrow> CreateEnvironmentRequest \<Rightarrow> PlatformState \<Rightarrow> (unit, string) result" where
  "check_host rv r st =
     (if f_lt (f_of_nat (host_total_cpu (rv_host rv))) (crr_max (crp_cpu (cer_resource_policy r)))
      then Err (''CPU maximum cannot exceed this host's '' @ show_nat (host_total_cpu (rv_host rv)) @ '' logical processors'')
      else if f_lt (host_total_memory_gb (rv_host rv)) (crr_max (crp_memory_gb (cer_resource_policy r)))
      then Err (''Memory maximum cannot exceed this host's '' @ rv_show rv (host_total_memory_gb (rv_host rv)) @ '' GiB'')
      else if name_taken (trim (cer_name r)) st then Err ''An environment with this name already exists''
      else Ok ())"

definition range_of :: "CreateResourceRange \<Rightarrow> ResourceRange" where
  "range_of c = \<lparr>rr_min = crr_min c, rr_preferred = crr_preferred c, rr_max = crr_max c, rr_current = Fin 0\<rparr>"

definition policy_of :: "CreateEnvironmentRequest \<Rightarrow> ResourcePolicy" where
  "policy_of r = \<lparr>rp_cpu = range_of (crp_cpu (cer_resource_policy r)), rp_memory_gb = range_of (crp_memory_gb (cer_resource_policy r)),
     rp_priority = crp_priority (cer_resource_policy r), rp_dynamic = crp_dynamic (cer_resource_policy r)\<rparr>"

definition arrow_sign :: string where
  "arrow_sign = map char_of [226, 134, 146 :: nat]"

definition check_cuda :: "cuda_status \<Rightarrow> (unit, string) result" where
  "check_cuda s =
     (if \<not> cu_supported s then Err (''NVIDIA CUDA is unavailable on this computer: '' @ cu_detail s)
      else if \<not> cu_installed s \<or> cu_update_available s
      then Err (''Set up or update NVIDIA CUDA in New environment '' @ arrow_sign
             @ '' GPU, or run yougori-cli gpu setup --yes, before creating a GPU container.'')
      else Ok ())"

definition default_command :: "string option \<Rightarrow> string" where
  "default_command c = (case c of Some c \<Rightarrow> trim c | None \<Rightarrow> ''sleep 2147483647'')"

definition new_environment :: "recovery_runtime \<Rightarrow> CreateEnvironmentRequest \<Rightarrow> string \<Rightarrow> Environment" where
  "new_environment rv r i =
     (let container = provider_is_container (cer_provider r) in
      \<lparr>env_id = i, env_name = trim (cer_name r), env_kind = cer_kind r, env_status = Provisioning,
       env_runtime = trim (cer_runtime r), env_provider = Some (cer_provider r), env_runtime_id = Some i, env_runtime_path = None,
       env_control_endpoint = None, env_console_endpoint = None,
       env_container_command = (if container then Some (default_command (cer_container_command r)) else None),
       env_network_access = (container \<and> cer_network_access r),
       env_gpu_access = ((container \<or> cer_kind r = FullVm) \<and> cer_gpu_access r), env_sandbox_policy = None,
       env_last_error = None, env_description = trim (cer_description r), env_branch_type = cer_branch_type r,
       env_created_at = rv_now rv, env_last_opened_at = None, env_cpu_usage = Fin 0, env_memory_usage_gb = Fin 0,
       env_storage_delta_gb = Fin 0,
       env_storage_limit_gb = (if container then Some (case cer_storage_gb r of Some gb \<Rightarrow> gb | None \<Rightarrow> Fin 20) else None),
       env_network_rx_mbps = Fin 0, env_resource_policy = policy_of r\<rparr>)"

definition insert_environment :: "Environment \<Rightarrow> PlatformState \<Rightarrow> (PlatformState, string) result" where
  "insert_environment e st =
     (if name_taken (env_name e) st then Err ''An environment with this name already exists''
      else Ok (st\<lparr>environments := e # environments st\<rparr>))"

definition creation_error :: "string \<Rightarrow> string" where
  "creation_error e = ''Environment creation failed: '' @ e
     @ CHR 0x0A # ''Delete this node and create the environment again. Your original images and boot media were not changed.''"

definition finish_environment :: "(path option \<times> string, string) result \<Rightarrow> Environment \<Rightarrow> Environment" where
  "finish_environment r e =
     (case r of
        Ok (disk, source) \<Rightarrow> e\<lparr>env_runtime_path := disk, env_runtime := source, env_status := Stopped, env_last_error := None\<rparr>
      | Err x \<Rightarrow> e\<lparr>env_status := StatusError, env_last_error := Some (creation_error x)\<rparr>)"

definition mark_error :: "string \<Rightarrow> Environment \<Rightarrow> Environment" where
  "mark_error message e = e\<lparr>env_status := StatusError, env_last_error := Some message\<rparr>"

definition edit_env :: "string \<Rightarrow> string \<Rightarrow> (Environment \<Rightarrow> Environment) \<Rightarrow> PlatformState \<Rightarrow> (PlatformState, string) result" where
  "edit_env missing i f st = (if find_env st i = None then Err missing else Ok (set_env i f st))"

definition settle_creation :: "string \<Rightarrow> (path option \<times> string, string) result \<Rightarrow> (PlatformState, string) result \<Rightarrow> PlatformState run" where
  "settle_creation i result finalized =
     (case finalized of
        Err e \<Rightarrow>
          (let message = ''Could not save the environment creation result: '' @ e
             @ ''. Free disk space, then delete this incomplete node and create it again.''
           in run_bind (run_result (remember (\<lambda>st. Ok (set_env i (mark_error message) st)))) (\<lambda>remembered.
              run_then (case remembered of Ok st \<Rightarrow> announce st | Err _ \<Rightarrow> run_return ()) (run_fail message)))
      | Ok st \<Rightarrow> run_then (announce st) (run_of (case result of Ok _ \<Rightarrow> Ok st | Err e \<Rightarrow> Err e)))"

definition create_on_graph :: "recovery_runtime \<Rightarrow> CreateEnvironmentRequest \<Rightarrow> string \<Rightarrow> (path option \<times> string) run \<Rightarrow> PlatformState run" where
  "create_on_graph rv r i provision =
     run_bind (save (insert_environment (new_environment rv r i))) (\<lambda>st.
     run_then (announce st) (
     run_bind (run_result provision) (\<lambda>result.
     run_bind (run_result (save (edit_env ''The environment creation record is missing'' i (finish_environment result))))
       (settle_creation i result))))"

definition grow_provisioned :: "recovery_runtime \<Rightarrow> CreateEnvironmentRequest \<Rightarrow> string \<Rightarrow> unit run" where
  "grow_provisioned rv r i =
     (case cer_storage_gb r of
        None \<Rightarrow> run_return ()
      | Some gb \<Rightarrow>
          run_bind (run_result (run_then (runtime_call (AskCapacity i) (\<lambda>v. v) (\<lambda>v. v))
                      (if f_lt (rv_capacity rv) gb then runtime_call (GrowStorage i gb) (\<lambda>v. v) (\<lambda>v. v) else run_return ())))
            (\<lambda>grown. case grown of Ok _ \<Rightarrow> run_return () | Err e \<Rightarrow> run_then (run_result (drop_generation i)) (run_fail e)))"

definition provision_environment :: "recovery_runtime \<Rightarrow> CreateEnvironmentRequest \<Rightarrow> string \<Rightarrow> (path option \<times> string) run" where
  "provision_environment rv r i =
     (let source = trim (cer_runtime r); (disk, managed) = rv_prepared rv i in
      if cer_kind r = FullVm then run_then (provision_generation i) (run_return (Some disk, managed))
      else
        (case cer_provider r of
           CloudSsh \<Rightarrow> run_fail ''Use Add cloud environment to connect an existing server''
         | Qemu \<Rightarrow>
             if cer_kind r = ComputerBranch \<and> cer_branch_type r = None then run_fail ''Select a current-computer branch type''
             else
               run_then (provision_generation i) (
               run_then (grow_provisioned rv r i)
                 (run_return (Some disk,
                    if cer_kind r = MicroVm \<and> source = BUILTIN_MICRO_VM_SOURCE then BUILTIN_MICRO_VM_SOURCE else managed)))
         | NativeSandbox \<Rightarrow>
             (case cer_sandbox_policy r of
                None \<Rightarrow> run_fail ''Choose a native branch application''
              | Some _ \<Rightarrow>
                  run_then (provision_generation i)
                    (case rv_sandbox rv of (workspace, executable) \<Rightarrow> run_return (Some workspace, executable)))
         | _ \<Rightarrow>
             run_then (runtime_call (RegisterProvider i) (\<lambda>v. v) (\<lambda>v. v)) (
             run_then (provision_generation i) (run_return (None, source)))))"

definition create_environment :: "recovery_runtime \<Rightarrow> CreateEnvironmentRequest \<Rightarrow> PlatformState run" where
  "create_environment rv request =
     (if cer_kind request = Cloud \<or> cer_provider request = CloudSsh
      then run_fail ''Use Cloud environment to add an existing server. Yougori does not create cloud machines.''
      else
        (let r = authorize_gpu request; i = ''env-'' @ rv_uuid rv in
         run_then (run_of (check_request_fields r)) (
         run_bind stored (\<lambda>st.
         run_then (run_of (check_host rv r st)) (
         run_then (if provider_is_container (cer_provider r)
                   then run_of (validate_container_policy_capacity (policy_of r) (rv_host rv)) else run_return ()) (
         run_then (if cer_provider r = OpenDockCuda then run_of (check_cuda (rv_cuda rv)) else run_return ())
           (create_on_graph rv r i (provision_environment rv r i))))))))"

section \<open>The journal of factory resets\<close>

definition interrupted_reset :: string where
  "interrupted_reset = ''Factory reset was interrupted. Use Factory reset again to finish cleanup safely. External backups and the original image are unchanged.''"

definition recover_reset :: "PlatformState \<Rightarrow> PlatformState" where
  "recover_reset st = fold (\<lambda>p. set_env (env_id (frc_environment p)) (mark_error interrupted_reset)) (pending_factory_resets st) st"

definition reset_unsupported :: "Environment \<Rightarrow> bool" where
  "reset_unsupported e \<longleftrightarrow> env_kind e \<in> {ComputerBranch, Cloud} \<or> provider e = NativeSandbox"

definition validate_cleanup :: "PlatformState \<Rightarrow> FactoryResetCleanup \<Rightarrow> (unit, string) result" where
  "validate_cleanup st p =
     (if list_ex (\<lambda>e. runtime_id e = runtime_id (frc_environment p)) (environments st)
      then Err ''Refusing to delete the active environment generation''
      else if reset_unsupported (frc_environment p)
      then Err ''Factory reset is only supported for containers, MicroVMs and VMs''
      else Ok ())"

definition drop_artifact :: "path \<Rightarrow> unit run" where
  "drop_artifact p v =
     (if p \<in> set (va_artifacts v) then
        (let gone = (\<lambda>v. v\<lparr>va_artifacts := filter (\<lambda>q. q \<noteq> p) (va_artifacts v)\<rparr>) in
         run_bind (run_result (runtime_call (DropArtifact p) gone (\<lambda>v. v))) (\<lambda>removed.
           case removed of
             Ok _ \<Rightarrow> run_return ()
           | Err e \<Rightarrow>
               run_bind (run_result (runtime_call (DropStaged p) gone (\<lambda>v. v))) (\<lambda>staged.
                 case staged of Ok _ \<Rightarrow> run_return () | Err e' \<Rightarrow> run_fail (e @ ''; '' @ e'))) v)
      else (Finished (), v))"

primrec drop_snapshots :: "Environment \<Rightarrow> Snapshot list \<Rightarrow> unit run" where
  "drop_snapshots e [] = run_return ()"
| "drop_snapshots e (s # ss) =
     run_then (if provider_is_container (provider e)
               then runtime_call (DropLayer (runtime_id e) (snap_id s)) (\<lambda>v. v) (\<lambda>v. v) else run_return ()) (
     run_then (case snap_artifact_path s of Some p \<Rightarrow> drop_artifact p | None \<Rightarrow> run_return ())
       (drop_snapshots e ss))"

definition retire_runtime :: "Environment \<Rightarrow> unit run" where
  "retire_runtime e =
     (case provider e of
        OpenDockOci \<Rightarrow> drop_generation (runtime_id e)
      | OpenDockCuda \<Rightarrow> drop_generation (runtime_id e)
      | Qemu \<Rightarrow> drop_generation (runtime_id e)
      | _ \<Rightarrow> run_panic)"

definition forget_entry :: "Environment \<Rightarrow> PlatformState \<Rightarrow> PlatformState" where
  "forget_entry e st = st\<lparr>pending_factory_resets :=
     filter (\<lambda>p. runtime_id (frc_environment p) \<noteq> runtime_id e) (pending_factory_resets st)\<rparr>"

primrec drop_entries :: "FactoryResetCleanup list \<Rightarrow> unit run" where
  "drop_entries [] = run_return ()"
| "drop_entries (p # ps) =
     run_bind stored (\<lambda>st.
     run_then (run_of (validate_cleanup st p)) (
     run_then (drop_snapshots (frc_environment p) (frc_snapshots p)) (
     run_then (retire_runtime (frc_environment p)) (
     run_then (save (\<lambda>st. Ok (forget_entry (frc_environment p) st)))
       (drop_entries ps)))))"

definition entries_of :: "string \<Rightarrow> PlatformState \<Rightarrow> FactoryResetCleanup list" where
  "entries_of i st = filter (\<lambda>p. env_id (frc_environment p) = i) (pending_factory_resets st)"

definition cleanup_pending :: "string \<Rightarrow> bool run" where
  "cleanup_pending i =
     run_bind stored (\<lambda>st.
     run_then (drop_entries (entries_of i st))
       (run_return (list_ex frc_committed (entries_of i st))))"

section \<open>The factory reset\<close>

definition finish_env :: "Environment \<Rightarrow> Environment" where
  "finish_env e = set_memory (Fin 0) (set_cpu (Fin 0)
     (e\<lparr>env_status := Stopped, env_last_error := None, env_console_endpoint := None, env_control_endpoint := None,
        env_last_opened_at := None, env_cpu_usage := Fin 0, env_memory_usage_gb := Fin 0, env_storage_delta_gb := Fin 0,
        env_network_rx_mbps := Fin 0\<rparr>))"

definition finish_connection :: "string \<Rightarrow> Connection \<Rightarrow> Connection" where
  "finish_connection i c =
     (if touches i c then c\<lparr>conn_enforcement_status := Some Pending, conn_provider_rule_ids := [], conn_last_error := None\<rparr> else c)"

definition finish_state :: "string \<Rightarrow> PlatformState \<Rightarrow> (PlatformState, string) result" where
  "finish_state i st =
     result_bind (edit_env ''Environment not found'' i finish_env st)
       (\<lambda>st. Ok (st\<lparr>connections := map (finish_connection i) (connections st)\<rparr>))"

definition fresh_id :: "recovery_runtime \<Rightarrow> string" where
  "fresh_id rv = ''reset-'' @ rv_uuid rv"

definition fresh_environment :: "recovery_runtime \<Rightarrow> Environment \<Rightarrow> Environment" where
  "fresh_environment rv e = e\<lparr>env_runtime_id := Some (fresh_id rv), env_runtime_path := None\<rparr>"

definition begin_reset :: "string \<Rightarrow> Environment \<Rightarrow> PlatformState \<Rightarrow> (PlatformState, string) result" where
  "begin_reset i fresh st =
     edit_env ''Environment not found'' i (\<lambda>e. e\<lparr>env_status := Provisioning, env_last_error := None\<rparr>)
       (st\<lparr>pending_factory_resets := pending_factory_resets st
          @ [\<lparr>frc_environment = fresh, frc_snapshots = [], frc_committed = False\<rparr>]\<rparr>)"

definition prepare_reset :: "recovery_runtime \<Rightarrow> Environment \<Rightarrow> Environment \<Rightarrow> Environment run" where
  "prepare_reset rv e fresh =
     (case provider e of
        OpenDockOci \<Rightarrow> run_then (provision_generation (runtime_id fresh)) (run_return fresh)
      | OpenDockCuda \<Rightarrow> run_then (provision_generation (runtime_id fresh)) (run_return fresh)
      | Qemu \<Rightarrow>
          run_then (run_of (vm_disk e)) (
          run_then (provision_generation (runtime_id fresh)) (
          (case rv_prepared rv (runtime_id fresh) of (disk, source) \<Rightarrow>
             run_return (fresh\<lparr>env_runtime_path := Some disk,
               env_runtime := (if env_runtime e \<noteq> BUILTIN_MICRO_VM_SOURCE then source else env_runtime fresh)\<rparr>))))
      | _ \<Rightarrow> run_panic)"

definition switch_env :: "Environment \<Rightarrow> Environment \<Rightarrow> Environment" where
  "switch_env fresh e = e\<lparr>env_runtime_id := env_runtime_id fresh, env_runtime_path := env_runtime_path fresh,
     env_runtime := env_runtime fresh\<rparr>"

definition commit_reset :: "string \<Rightarrow> Environment \<Rightarrow> Environment \<Rightarrow> PlatformState \<Rightarrow> (PlatformState, string) result" where
  "commit_reset i e fresh st =
     (let retired = filter (\<lambda>s. snap_environment_id s = i) (snapshots st) in
      edit_env ''Environment not found'' i (switch_env fresh)
        (st\<lparr>snapshots := filter (\<lambda>s. snap_environment_id s \<noteq> i) (snapshots st),
            pending_factory_resets := filter (\<lambda>p. env_id (frc_environment p) \<noteq> i) (pending_factory_resets st)
              @ [\<lparr>frc_environment = e, frc_snapshots = retired, frc_committed = True\<rparr>]\<rparr>))"

definition report_reset :: "string \<Rightarrow> string \<Rightarrow> 'a run" where
  "report_reset i message =
     run_then (save (edit_env ''Environment not found'' i (mark_error message))) (run_fail message)"

definition check_reset :: "PlatformState \<Rightarrow> string \<Rightarrow> (Environment, string) result" where
  "check_reset st i =
     result_bind (ok_or (find_env st i) ''Environment not found'') (\<lambda>e.
     if env_status e \<noteq> Stopped \<and> env_status e \<noteq> StatusError then Err ''Shut down this environment before factory reset''
     else if reset_unsupported e then Err ''Factory reset is only supported for containers, MicroVMs and VMs''
     else if list_ex (\<lambda>b. br_environment_id b = i \<and> br_status b = RunRunning) (backup_runs st)
     then Err ''Wait for the current backup to finish before factory reset''
     else Ok e)"

definition abandon_reset :: "string \<Rightarrow> string \<Rightarrow> PlatformState run" where
  "abandon_reset i error =
     run_bind (run_result (cleanup_pending i)) (\<lambda>cleanup.
       report_reset i (''Factory reset did not replace your environment: '' @ error
         @ (case cleanup of Ok _ \<Rightarrow> [] | Err x \<Rightarrow> ''. Temporary cleanup needs retry: '' @ x)))"

definition complete_reset :: "string \<Rightarrow> Environment \<Rightarrow> Environment \<Rightarrow> PlatformState run" where
  "complete_reset i e fresh =
     run_then (save (commit_reset i e fresh)) (
     run_bind (run_result (cleanup_pending i)) (\<lambda>cleanup.
       case cleanup of
         Err error \<Rightarrow>
           report_reset i (''The fresh image is ready, but old data cleanup is incomplete: '' @ error
             @ ''. Use Factory reset again to finish cleanup; it will not reset the new disk twice.'')
       | Ok _ \<Rightarrow> save (finish_state i)))"

definition replace_generation :: "recovery_runtime \<Rightarrow> string \<Rightarrow> Environment \<Rightarrow> PlatformState run" where
  "replace_generation rv i e =
     (let fresh = fresh_environment rv e in
      run_then (save (begin_reset i fresh)) (
      run_bind (run_result (prepare_reset rv e fresh)) (\<lambda>prepared.
        case prepared of Err error \<Rightarrow> abandon_reset i error | Ok fresh \<Rightarrow> complete_reset i e fresh)))"

definition check_stopped :: "recovery_runtime \<Rightarrow> Environment \<Rightarrow> unit run" where
  "check_stopped rv e =
     (if provider e = Qemu
      then run_then (runtime_call (AskRunning (runtime_id e)) (\<lambda>v. v) (\<lambda>v. v))
             (if rv_running rv (runtime_id e)
              then run_fail ''The VM is still running. Shut it down before factory reset'' else run_return ())
      else run_return ())"

definition reset :: "recovery_runtime \<Rightarrow> string \<Rightarrow> PlatformState run" where
  "reset rv i =
     run_bind stored (\<lambda>st.
     run_bind (run_of (check_reset st i)) (\<lambda>e.
     run_bind (cleanup_pending i) (\<lambda>committed.
       if committed then save (finish_state i)
       else run_then (check_stopped rv e) (replace_generation rv i e))))"

definition unstick :: "string \<Rightarrow> Environment \<Rightarrow> Environment" where
  "unstick error e =
     (if env_status e = Provisioning
      then mark_error (''Factory reset could not finish saving its state: '' @ error @ ''. Free disk space if needed, then retry.'') e
      else e)"

definition recover_failed :: "string \<Rightarrow> string \<Rightarrow> PlatformState \<Rightarrow> (PlatformState, string) result" where
  "recover_failed i error st = Ok (set_env i (unstick error) (recover_reset st))"

definition conclude_reset :: "string \<Rightarrow> (PlatformState, string) result \<Rightarrow> PlatformState run" where
  "conclude_reset i result =
     (case result of
        Ok st \<Rightarrow> run_return st
      | Err error \<Rightarrow>
          run_bind (run_result (save (recover_failed i error))) (\<lambda>saved.
          run_then (if is_ok saved then run_return saved else run_result (remember (recover_failed i error)))
            (run_fail error)))"

definition factory_reset_environment :: "recovery_runtime \<Rightarrow> string \<Rightarrow> string \<Rightarrow> PlatformState run" where
  "factory_reset_environment rv i confirmation =
     run_bind stored (\<lambda>st.
     run_bind (run_of (ok_or (find_env st i) ''Environment not found'')) (\<lambda>e.
     if confirmation \<noteq> env_name e then run_fail ''Type the environment name exactly to confirm factory reset''
     else run_bind (run_result (reset rv i)) (conclude_reset i)))"

section \<open>Starting again\<close>

record startup =
  su_host :: HostMetrics
  su_providers :: "ProviderStatus list"
  su_appliance_reset :: bool
  su_appliance_error :: "string option"
  su_now :: string

definition interrupted_creation :: string where
  "interrupted_creation = ''Yougori closed before environment creation finished. Delete this incomplete node and create the environment again. Your original images and boot media were not changed.''"

definition recover_creation :: "PlatformState \<Rightarrow> PlatformState" where
  "recover_creation st = st\<lparr>environments := map (\<lambda>e.
     if env_kind e \<in> {Container, MicroVm, FullVm} \<and> env_status e = Provisioning
        \<and> \<not> list_ex (\<lambda>p. env_id (frc_environment p) = env_id e) (pending_factory_resets st)
     then mark_error interrupted_creation e else e) (environments st)\<rparr>"

definition archived_disk :: string where
  "archived_disk = ''The previous OCI runtime disk was archived after an appliance upgrade or filesystem failure. Recreate this container; its archived runtime disk remains available for recovery.''"

definition appliance_env :: "startup \<Rightarrow> Environment \<Rightarrow> Environment" where
  "appliance_env su e =
     (case su_appliance_error su of
        Some error \<Rightarrow> if env_provider e = Some OpenDockOci then mark_error error e else e
      | None \<Rightarrow> e)"

definition settle_env :: "Environment \<Rightarrow> Environment" where
  "settle_env e =
     (if env_status e \<in> {Running, Paused, Provisioning}
      then set_memory (Fin 0) (set_cpu (Fin 0)
             (e\<lparr>env_status := Stopped, env_cpu_usage := Fin 0, env_memory_usage_gb := Fin 0, env_network_rx_mbps := Fin 0,
                env_control_endpoint := None, env_console_endpoint := None\<rparr>))
      else e)"

definition interrupted_run :: "string \<Rightarrow> BackupRun \<Rightarrow> BackupRun" where
  "interrupted_run now b =
     (if br_status b = RunRunning
      then b\<lparr>br_status := RunFailed, br_completed_at := Some now, br_last_error := Some ''Yougori closed before this backup completed''\<rparr>
      else b)"

definition startup_state :: "startup \<Rightarrow> PlatformState \<Rightarrow> PlatformState" where
  "startup_state su st =
     (let st = st\<lparr>pending_vm_restores := [], host := (su_host su)\<lparr>host_storage_saved_gb := Fin 0\<rparr>, providers := su_providers su\<rparr>;
          st = (if su_appliance_reset su
                then st\<lparr>environments := map (\<lambda>e. if env_provider e = Some OpenDockOci then mark_error archived_disk e else e) (environments st)\<rparr>
                else st);
          st = recover_reset (recover_creation st);
          st = st\<lparr>environments := map (settle_env \<circ> appliance_env su) (environments st)\<rparr>
      in st\<lparr>connections := map (\<lambda>c. c\<lparr>conn_enforcement_status := Some Pending, conn_provider_rule_ids := []\<rparr>) (connections st),
            backup_runs := map (interrupted_run (su_now su)) (backup_runs st)\<rparr>)"

section \<open>Reasoning about runs\<close>

text \<open>
  A property of the state in memory, the saved state and the complete generations, in that order. \<open>run_keeps\<close> is a
  triple for runs that may end in any way: the invariant holds at every end, the postcondition where the run succeeded.
  A quiet run changes none of the three.
\<close>

type_synonym view = "PlatformState \<Rightarrow> PlatformState \<Rightarrow> string list \<Rightarrow> bool"

definition view :: "view \<Rightarrow> vault \<Rightarrow> bool" where
  "view P v \<longleftrightarrow> P (va_state v) (va_saved v) (va_generations v)"

definition run_keeps :: "view \<Rightarrow> view \<Rightarrow> 'a run \<Rightarrow> ('a \<Rightarrow> view) \<Rightarrow> bool" where
  "run_keeps I P m Q \<longleftrightarrow>
     (\<forall>v r v'. m v = (r, v') \<longrightarrow> view I v \<longrightarrow> view P v \<longrightarrow> view I v' \<and> (\<forall>x. r = Finished x \<longrightarrow> view (Q x) v'))"

definition quiet :: "'a run \<Rightarrow> bool" where
  "quiet m \<longleftrightarrow> (\<forall>v r v'. m v = (r, v') \<longrightarrow>
     va_state v' = va_state v \<and> va_saved v' = va_saved v \<and> va_generations v' = va_generations v)"

named_theorems quiet_rules \<open>runs that leave the states and the generations alone\<close>

lemma run_keepsD:
  "run_keeps I P m Q \<Longrightarrow> m v = (r, v') \<Longrightarrow> view I v \<Longrightarrow> view P v \<Longrightarrow> view I v' \<and> (\<forall>x. r = Finished x \<longrightarrow> view (Q x) v')"
  unfolding run_keeps_def by blast

lemma run_bind_cases:
  assumes "run_bind m k v = (r, v')"
  obtains x w where "m v = (Finished x, w)" and "k x w = (r, v')" | w where "m v = (Errored w, v')" and "r = Errored w"
    | "m v = (Panicked, v')" and "r = Panicked" | "m v = (Killed, v')" and "r = Killed"
  using assms unfolding run_bind_def by (cases "m v"; cases "fst (m v)") auto

lemma run_result_cases:
  assumes "run_result m v = (r, v')"
  obtains x where "m v = (Finished x, v')" and "r = Finished (Ok x)" | e where "m v = (Errored e, v')" and "r = Finished (Err e)"
    | "m v = (Panicked, v')" and "r = Panicked" | "m v = (Killed, v')" and "r = Killed"
  using assms unfolding run_result_def by (cases "m v"; cases "fst (m v)") auto

lemma attempt_cases:
  assumes "attempt good bad v = (r, v')"
  obtains s where "r = Finished ()" and "v' = good (v\<lparr>va_script := s\<rparr>)"
    | s where "r \<noteq> Finished ()" and "v' = bad (v\<lparr>va_script := s\<rparr>)"
proof (cases "va_script v")
  case Nil
  have same: "v\<lparr>va_script := va_script v\<rparr> = v" by simp
  from Nil have "r = Finished ()" "v' = good v" using assms by (simp_all add: attempt_def)
  then show thesis using that(1) [of "va_script v"] unfolding same by blast
next
  case (Cons e s)
  then show thesis using assms that unfolding attempt_def by (cases e) auto
qed

lemma quiet_basic [quiet_rules]: "quiet (run_return x)" "quiet (run_fail e)" "quiet run_panic" "quiet stored" "quiet (announce st)"
  by (simp_all add: quiet_def run_return_def run_fail_def run_panic_def stored_def announce_def)

lemma quiet_of [quiet_rules]: "quiet (run_of r)"
  by (cases r) (simp_all add: quiet_rules)

lemma quiet_bind [quiet_rules]: "quiet m \<Longrightarrow> (\<And>x. quiet (k x)) \<Longrightarrow> quiet (run_bind m k)"
  unfolding quiet_def by (auto elim!: run_bind_cases)

lemma quiet_result [quiet_rules]: "quiet m \<Longrightarrow> quiet (run_result m)"
  unfolding quiet_def by (auto elim!: run_result_cases)

lemma quiet_if [quiet_rules]: "quiet m \<Longrightarrow> quiet k \<Longrightarrow> quiet (if b then m else k)"
  by simp

lemma quiet_case [quiet_rules]:
  "(\<And>x. quiet (k x)) \<Longrightarrow> (\<And>e. quiet (h e)) \<Longrightarrow> quiet (case r of Ok x \<Rightarrow> k x | Err e \<Rightarrow> h e)"
  "quiet m \<Longrightarrow> (\<And>x. quiet (n x)) \<Longrightarrow> quiet (case t of None \<Rightarrow> m | Some x \<Rightarrow> n x)"
  by (cases r, simp_all) (cases t, simp_all)

lemma quiet_call:
  assumes "\<And>v. va_state (good v) = va_state v \<and> va_saved (good v) = va_saved v \<and> va_generations (good v) = va_generations v"
    and "\<And>v. va_state (bad v) = va_state v \<and> va_saved (bad v) = va_saved v \<and> va_generations (bad v) = va_generations v"
  shows "quiet (runtime_call c good bad)"
  unfolding quiet_def runtime_call_def by (auto elim!: attempt_cases simp: assms)

lemma quiet_ask [quiet_rules]: "quiet (runtime_call c (\<lambda>v. v) (\<lambda>v. v))"
  by (rule quiet_call) simp_all

lemma quiet_drop_artifact [quiet_rules]: "quiet (drop_artifact p)"
proof -
  have "quiet (runtime_call c (\<lambda>v. v\<lparr>va_artifacts := filter (\<lambda>q. q \<noteq> p) (va_artifacts v)\<rparr>) (\<lambda>v. v))" for c
    by (rule quiet_call) simp_all
  then have "quiet (run_bind (run_result (runtime_call (DropArtifact p) (\<lambda>v. v\<lparr>va_artifacts := filter (\<lambda>q. q \<noteq> p) (va_artifacts v)\<rparr>) (\<lambda>v. v)))
     (\<lambda>removed. case removed of Ok _ \<Rightarrow> run_return ()
        | Err e \<Rightarrow> run_bind (run_result (runtime_call (DropStaged p) (\<lambda>v. v\<lparr>va_artifacts := filter (\<lambda>q. q \<noteq> p) (va_artifacts v)\<rparr>) (\<lambda>v. v)))
            (\<lambda>staged. case staged of Ok _ \<Rightarrow> run_return () | Err e' \<Rightarrow> run_fail (e @ ''; '' @ e'))))"
    by (intro quiet_rules)
  then show ?thesis unfolding quiet_def drop_artifact_def Let_def by auto
qed

lemma quiet_drop_snapshots [quiet_rules]: "quiet (drop_snapshots e ss)"
  by (induction ss) (simp_all only: drop_snapshots.simps, (intro quiet_rules | assumption)+)

lemma keeps_quiet: "quiet m \<Longrightarrow> run_keeps I P m (\<lambda>_. P)"
  unfolding run_keeps_def quiet_def view_def by metis

lemma keeps_weaken: "run_keeps I P m Q \<Longrightarrow> (\<And>s d g. P' s d g \<Longrightarrow> P s d g) \<Longrightarrow> (\<And>x s d g. Q x s d g \<Longrightarrow> Q' x s d g) \<Longrightarrow> run_keeps I P' m Q'"
  unfolding run_keeps_def view_def by blast

lemma run_keeps_bind: "run_keeps I P m R \<Longrightarrow> (\<And>x. run_keeps I (R x) (k x) Q) \<Longrightarrow> run_keeps I P (run_bind m k) Q"
  unfolding run_keeps_def by (auto elim!: run_bind_cases)

lemma run_keeps_result: "run_keeps I P m Q \<Longrightarrow> run_keeps I P (run_result m) (\<lambda>r s d g. \<forall>x. r = Ok x \<longrightarrow> Q x s d g)"
  unfolding run_keeps_def view_def by (auto elim!: run_result_cases)

lemma run_keeps_return: "(\<And>s d g. P s d g \<Longrightarrow> Q x s d g) \<Longrightarrow> run_keeps I P (run_return x) Q"
  by (simp add: run_keeps_def run_return_def view_def)

lemma run_keeps_fail: "run_keeps I P (run_fail e) Q" "run_keeps I P run_panic Q"
  by (simp_all add: run_keeps_def run_fail_def run_panic_def)

lemma run_keeps_of: "(\<And>x. r = Ok x \<Longrightarrow> run_keeps I P (k x) Q) \<Longrightarrow> run_keeps I P (run_bind (run_of r) k) Q"
  by (cases r) (simp_all add: run_keeps_def run_bind_def run_return_def run_fail_def)

lemma run_keeps_stored: "(\<And>st. run_keeps I (\<lambda>s d g. P s d g \<and> s = st) (k st) Q) \<Longrightarrow> run_keeps I P (run_bind stored k) Q"
  by (simp add: run_keeps_def run_bind_def stored_def view_def)

lemma run_keeps_save:
  assumes "\<And>s d g st. I s d g \<Longrightarrow> P s d g \<Longrightarrow> operation s = Ok st \<Longrightarrow> I st st g \<and> Q st st st g"
  shows "run_keeps I P (save operation) Q"
  unfolding run_keeps_def
proof (intro allI impI)
  fix v r v' assume m: "save operation v = (r, v')" and i: "view I v" and p: "view P v"
  show "view I v' \<and> (\<forall>x. r = Finished x \<longrightarrow> view (Q x) v')"
  proof (cases "operation (va_state v)")
    case (Ok st)
    with m have "run_then (attempt (\<lambda>v. v\<lparr>va_state := st, va_saved := st\<rparr>) (\<lambda>v. v)) (run_return st) v = (r, v')" by (simp add: save_def)
    then show ?thesis using i p assms [of "va_state v" "va_saved v" "va_generations v", OF _ _ Ok]
      by (elim run_bind_cases attempt_cases) (auto simp: view_def run_return_def)
  qed (use m i in \<open>auto simp: save_def\<close>)
qed

lemma run_keeps_remember:
  assumes "\<And>s d g st. I s d g \<Longrightarrow> P s d g \<Longrightarrow> operation s = Ok st \<Longrightarrow> I st d g \<and> Q st st d g"
  shows "run_keeps I P (remember operation) Q"
  unfolding run_keeps_def remember_def using assms by (auto simp: view_def split: result.splits)

lemma run_keeps_drop:
  assumes "\<And>s d g. I s d g \<Longrightarrow> P s d g \<Longrightarrow> I s d (filter (\<lambda>x. x \<noteq> rid) g) \<and> Q () s d (filter (\<lambda>x. x \<noteq> rid) g)"
  shows "run_keeps I P (drop_generation rid) Q"
  unfolding run_keeps_def drop_generation_def runtime_call_def
  using assms by (auto elim!: attempt_cases simp: view_def without_generation_def)

lemma run_keeps_provision:
  assumes "\<And>s d g. I s d g \<Longrightarrow> P s d g \<Longrightarrow> I s d (g @ [rid]) \<and> Q () s d (g @ [rid])"
  shows "run_keeps I P (provision_generation rid) Q"
  unfolding run_keeps_def provision_generation_def runtime_call_def
  using assms by (auto elim!: attempt_cases simp: view_def)

section \<open>Every generation in use is complete, and every complete one is known\<close>

definition names :: "PlatformState \<Rightarrow> (string \<times> string) list" where
  "names st = map (\<lambda>e. (env_id e, runtime_id e)) (environments st)"

definition in_use :: "PlatformState \<Rightarrow> string set" where
  "in_use st = runtime_id ` set (environments st)"

definition journal :: "PlatformState \<Rightarrow> string set" where
  "journal st = (\<lambda>p. runtime_id (frc_environment p)) ` set (pending_factory_resets st)"

text \<open>\<open>lost\<close> are the generations that were never complete or that are gone with an archived runtime disk.\<close>

definition accounted :: "string set \<Rightarrow> string set \<Rightarrow> view" where
  "accounted lost others s d g \<longleftrightarrow>
     names d = names s \<and> journal d = journal s \<and> in_use s \<subseteq> set g \<union> lost \<and> set g \<subseteq> in_use s \<union> journal s \<union> others"

lemma in_use_names: "in_use st = snd ` set (names st)"
  by (simp add: in_use_def names_def image_image)

lemma find_names: "map_option runtime_id (find_env st i) = map_of (names st) i"
proof -
  have "map_option runtime_id (List.find (\<lambda>e. env_id e = i) es) = map_of (map (\<lambda>e. (env_id e, runtime_id e)) es) i" for es
    by (induction es) auto
  then show ?thesis by (simp add: find_env_def names_def)
qed

lemma set_env_fields [simp]:
  "pending_factory_resets (set_env i f st) = pending_factory_resets st" "snapshots (set_env i f st) = snapshots st"
  by (simp_all add: set_env_def Let_def)

lemma names_set_env:
  assumes "\<And>e. env_id (f e) = env_id e" and "\<And>e. runtime_id (f e) = runtime_id e"
  shows "names (set_env i f st) = names st"
  by (simp add: names_def set_env_def Let_def map_update assms list_update_same_conv)

lemma set_env_split:
  assumes "find_env st i = Some e"
  obtains xs ys where "environments st = xs @ e # ys" and "\<forall>x \<in> set xs. env_id x \<noteq> i" and "env_id e = i"
    and "environments (set_env i f st) = xs @ f e # ys"
proof -
  from assms obtain n where n: "n < length (environments st)" "env_id (environments st ! n) = i" "e = environments st ! n"
    "\<forall>j < n. env_id (environments st ! j) \<noteq> i" unfolding find_env_def find_Some_iff by auto
  let ?xs = "take n (environments st)" and ?ys = "drop (Suc n) (environments st)"
  have es: "environments st = ?xs @ e # ?ys" using n id_take_nth_drop by blast
  have xs: "\<forall>x \<in> set ?xs. env_id x \<noteq> i" using n by (auto simp: in_set_conv_nth)
  have l: "length ?xs = n" using n by simp
  have t: "length (takeWhile (\<lambda>e. env_id e \<noteq> i) (environments st)) = n"
    by (subst es, subst takeWhile_append2) (use xs n l in auto)
  have "environments (set_env i f st) = ?xs @ f e # ?ys" using n t by (simp add: set_env_def Let_def upd_conv_take_nth_drop)
  then show thesis using that [OF es xs _] n by simp
qed

lemma runtime_id_simps [simp]:
  "runtime_id (mark_error m e) = runtime_id e" "env_id (mark_error m e) = env_id e"
  "runtime_id (finish_env e) = runtime_id e" "env_id (finish_env e) = env_id e"
  "runtime_id (unstick m e) = runtime_id e" "env_id (unstick m e) = env_id e"
  "env_id (switch_env new e) = env_id e" "runtime_id (settle_env e) = runtime_id e" "env_id (settle_env e) = env_id e"
  "runtime_id (appliance_env su e) = runtime_id e" "env_id (appliance_env su e) = env_id e"
  by (simp_all add: mark_error_def finish_env_def unstick_def switch_env_def settle_env_def appliance_env_def runtime_id_def set_memory_def set_cpu_def
      split: option.split)

lemma edit_env_Ok: "edit_env x i f st = Ok st' \<longleftrightarrow> find_env st i \<noteq> None \<and> st' = set_env i f st"
  by (auto simp: edit_env_def)

lemma recover_reset_frame [simp]:
  "names (recover_reset st) = names st" "pending_factory_resets (recover_reset st) = pending_factory_resets st"
proof -
  have "names (fold (\<lambda>p. set_env (env_id (frc_environment p)) (mark_error m)) ps st) = names st
      \<and> pending_factory_resets (fold (\<lambda>p. set_env (env_id (frc_environment p)) (mark_error m)) ps st) = pending_factory_resets st" for ps m
    by (induction ps arbitrary: st) (simp_all add: names_set_env)
  then show "names (recover_reset st) = names st" "pending_factory_resets (recover_reset st) = pending_factory_resets st"
    unfolding recover_reset_def by blast+
qed

lemma accounted_same:
  "accounted lost others s d g \<Longrightarrow> names t = names s \<Longrightarrow> journal t = journal s \<Longrightarrow> accounted lost others t d g \<and> accounted lost others t t g"
  by (simp add: accounted_def in_use_names)

lemma journal_cong: "pending_factory_resets t = pending_factory_resets s \<Longrightarrow> journal t = journal s"
  by (simp add: journal_def)

text \<open>The journal is worked off: what is dropped is in no environment's use, and is forgotten only once it is gone.\<close>

lemma validate_cleanup_Ok: "validate_cleanup st p = Ok u \<Longrightarrow> runtime_id (frc_environment p) \<notin> in_use st"
  by (auto simp: validate_cleanup_def in_use_def list_ex_iff split: if_splits)

lemma keeps_retire:
  assumes "runtime_id e \<notin> snd ` set N"
  shows "run_keeps (accounted lost others) (\<lambda>s d g. names s = N \<and> J s) (retire_runtime e)
    (\<lambda>_ s d g. names s = N \<and> J s \<and> runtime_id e \<notin> set g)"
proof -
  have drop: "run_keeps (accounted lost others) (\<lambda>s d g. names s = N \<and> J s) (drop_generation (runtime_id e))
    (\<lambda>_ s d g. names s = N \<and> J s \<and> runtime_id e \<notin> set g)"
    by (rule run_keeps_drop) (use assms in \<open>auto simp: accounted_def in_use_names image_iff\<close>)
  show ?thesis unfolding retire_runtime_def by (cases "provider e") (simp_all add: drop run_keeps_fail)
qed

lemma keeps_forget:
  "run_keeps (accounted lost others) (\<lambda>s d g. names s = N \<and> J s \<and> runtime_id e \<notin> set g) (save (\<lambda>st. Ok (forget_entry e st)))
     (\<lambda>_ s d g. names s = N \<and> (\<exists>t. J t \<and> s = forget_entry e t))"
proof (rule run_keeps_save, elim conjE)
  fix s d g st assume a: "accounted lost others s d g" "names s = N" "J s" "runtime_id e \<notin> set g" and "Ok (forget_entry e s) = Ok st"
  then have st: "st = forget_entry e s" by simp
  have "journal s \<subseteq> insert (runtime_id e) (journal st)" by (auto simp: st journal_def forget_entry_def)
  moreover have "names st = names s" by (simp add: st names_def forget_entry_def)
  ultimately show "accounted lost others st st g \<and> names st = N \<and> (\<exists>t. J t \<and> st = forget_entry e t)"
    using a st by (auto simp: accounted_def in_use_names)
qed

lemma keeps_drop_entries:
  "run_keeps (accounted lost others) (\<lambda>s d g. names s = N \<and> (\<forall>p \<in> set (entries_of i s). runtime_id (frc_environment p) \<in> (\<lambda>p. runtime_id (frc_environment p)) ` set ps))
     (drop_entries ps) (\<lambda>_ s d g. names s = N \<and> entries_of i s = [])"
proof (induction ps)
  case Nil
  show ?case unfolding drop_entries.simps by (rule run_keeps_return) (auto simp: filter_empty_conv)
next
  case (Cons p ps)
  let ?e = "frc_environment p"
  let ?J = "\<lambda>qs s. \<forall>q \<in> set (entries_of i s). runtime_id (frc_environment q) \<in> (\<lambda>p. runtime_id (frc_environment p)) ` set qs"
  have "run_keeps (accounted lost others) (\<lambda>s d g. names s = N \<and> ?J (p # ps) s \<and> s = st)
     (run_then (run_of (validate_cleanup st p)) (
      run_then (drop_snapshots ?e (frc_snapshots p)) (
      run_then (retire_runtime ?e) (
      run_then (save (\<lambda>st. Ok (forget_entry ?e st))) (drop_entries ps))))) (\<lambda>_ s d g. names s = N \<and> entries_of i s = [])" for st
  proof (rule run_keeps_of)
    fix u assume "validate_cleanup st p = Ok u"
    then have v: "runtime_id ?e \<notin> in_use st" by (rule validate_cleanup_Ok)
    show "run_keeps (accounted lost others) (\<lambda>s d g. names s = N \<and> ?J (p # ps) s \<and> s = st)
      (run_then (drop_snapshots ?e (frc_snapshots p)) (run_then (retire_runtime ?e) (
       run_then (save (\<lambda>st. Ok (forget_entry ?e st))) (drop_entries ps)))) (\<lambda>_ s d g. names s = N \<and> entries_of i s = [])"
    proof (cases "names st = N")
      case True
      with v have r: "runtime_id ?e \<notin> snd ` set N" by (simp add: in_use_names)
      have w: "run_keeps (accounted lost others) (\<lambda>s d g. names s = N \<and> (\<exists>t. (?J (p # ps) t \<and> t = st) \<and> s = forget_entry ?e t))
         (drop_entries ps) (\<lambda>_ s d g. names s = N \<and> entries_of i s = [])"
        by (rule keeps_weaken [OF Cons.IH]) (auto simp: entries_of_def forget_entry_def)
      show ?thesis
        by (rule run_keeps_bind, rule keeps_quiet, rule quiet_drop_snapshots, rule run_keeps_bind, rule keeps_retire [OF r],
            rule run_keeps_bind, rule keeps_forget, rule w)
    qed (auto simp: run_keeps_def view_def)
  qed
  then show ?case unfolding drop_entries.simps by (intro run_keeps_stored) (simp only: conj_assoc)
qed

lemma keeps_cleanup:
  "run_keeps (accounted lost others) (\<lambda>s d g. names s = N) (cleanup_pending i) (\<lambda>_ s d g. names s = N \<and> entries_of i s = [])"
  unfolding cleanup_pending_def
proof (rule run_keeps_stored)
  fix st
  have "run_keeps (accounted lost others) (\<lambda>s d g. names s = N \<and> s = st) (drop_entries (entries_of i st))
    (\<lambda>_ s d g. names s = N \<and> entries_of i s = [])"
    by (rule keeps_weaken [OF keeps_drop_entries]) auto
  then show "run_keeps (accounted lost others) (\<lambda>s d g. names s = N \<and> s = st)
     (run_then (drop_entries (entries_of i st)) (run_return (list_ex frc_committed (entries_of i st))))
     (\<lambda>_ s d g. names s = N \<and> entries_of i s = [])"
    by (rule run_keeps_bind) (rule keeps_quiet, rule quiet_basic)
qed

text \<open>The new generation is in the journal before it is made, and the old one before it is unused.\<close>

lemma runtime_id_fresh [simp]: "runtime_id (fresh_environment rv e) = fresh_id rv" "env_id (fresh_environment rv e) = env_id e"
  by (simp_all add: fresh_environment_def runtime_id_def)

definition begun :: "string \<Rightarrow> string \<Rightarrow> PlatformState \<Rightarrow> bool" where
  "begun i rid s \<longleftrightarrow> rid \<in> journal s \<and> (\<forall>p \<in> set (entries_of i s). runtime_id (frc_environment p) = rid)"

lemma keeps_begin:
  assumes "env_id fresh = i"
  shows "run_keeps (accounted lost others) (\<lambda>s d g. names s = N \<and> entries_of i s = []) (save (begin_reset i fresh))
    (\<lambda>_ s d g. names s = N \<and> begun i (runtime_id fresh) s)"
proof (rule run_keeps_save, elim conjE)
  fix s d g st assume a: "accounted lost others s d g" "names s = N" "entries_of i s = []" "begin_reset i fresh s = Ok st"
  let ?t = "s\<lparr>pending_factory_resets := pending_factory_resets s @ [\<lparr>frc_environment = fresh, frc_snapshots = [], frc_committed = False\<rparr>]\<rparr>"
  from a(4) have st: "st = set_env i (\<lambda>e. e\<lparr>env_status := Provisioning, env_last_error := None\<rparr>) ?t" by (simp add: begin_reset_def edit_env_Ok)
  have n: "names st = names s" unfolding st by (subst names_set_env) (simp_all add: runtime_id_def names_def split: option.split)
  have j: "journal st = insert (runtime_id fresh) (journal s)" by (simp add: st journal_def)
  have "\<forall>p \<in> set (entries_of i st). runtime_id (frc_environment p) = runtime_id fresh" using a(3) by (auto simp: st entries_of_def filter_empty_conv)
  then show "accounted lost others st st g \<and> names st = N \<and> begun i (runtime_id fresh) st"
    using a n j by (auto simp: accounted_def begun_def in_use_names)
qed

lemma keeps_prepare:
  "run_keeps (accounted lost others) (\<lambda>s d g. names s = N \<and> begun i (runtime_id fresh) s) (prepare_reset rv e fresh)
    (\<lambda>new s d g. names s = N \<and> begun i (runtime_id fresh) s \<and> runtime_id fresh \<in> set g
       \<and> env_id new = env_id fresh \<and> env_runtime_id new = env_runtime_id fresh)"
proof -
  let ?P = "\<lambda>s d g. names s = N \<and> begun i (runtime_id fresh) s"
  let ?Q = "\<lambda>new s d g. names s = N \<and> begun i (runtime_id fresh) s \<and> runtime_id fresh \<in> set g
       \<and> env_id new = env_id fresh \<and> env_runtime_id new = env_runtime_id fresh"
  have p: "run_keeps (accounted lost others) ?P (provision_generation (runtime_id fresh)) (\<lambda>_ s d g. ?P s d g \<and> runtime_id fresh \<in> set g)"
    by (rule run_keeps_provision) (auto simp: accounted_def begun_def)
  have k: "run_keeps (accounted lost others) ?P (run_then (provision_generation (runtime_id fresh)) (run_return new)) ?Q"
    if "env_id new = env_id fresh" "env_runtime_id new = env_runtime_id fresh" for new
    by (rule run_keeps_bind, rule p, rule run_keeps_return) (use that in simp)
  have q: "run_keeps (accounted lost others) ?P (run_then (run_of (vm_disk e)) (run_then (provision_generation (runtime_id fresh)) (run_return new))) ?Q"
    if "env_id new = env_id fresh" "env_runtime_id new = env_runtime_id fresh" for new
    by (rule run_keeps_of) (rule k, rule that(1), rule that(2))
  show ?thesis unfolding prepare_reset_def
    by (cases "provider e"; cases "rv_prepared rv (runtime_id fresh)") (simp_all add: k q run_keeps_fail)
qed

lemma keeps_commit:
  assumes e: "find_env st i = Some e" and new: "env_runtime_id new = Some rid"
  shows "run_keeps (accounted lost others) (\<lambda>s d g. names s = names st \<and> begun i rid s \<and> rid \<in> set g) (save (commit_reset i e new)) (\<lambda>_ s d g. True)"
proof (rule run_keeps_save, elim conjE)
  fix s d g t assume a: "accounted lost others s d g" "names s = names st" "begun i rid s" "rid \<in> set g" "commit_reset i e new s = Ok t"
  let ?u = "s\<lparr>snapshots := filter (\<lambda>x. snap_environment_id x \<noteq> i) (snapshots s),
            pending_factory_resets := filter (\<lambda>p. env_id (frc_environment p) \<noteq> i) (pending_factory_resets s)
              @ [\<lparr>frc_environment = e, frc_snapshots = filter (\<lambda>x. snap_environment_id x = i) (snapshots s), frc_committed = True\<rparr>]\<rparr>"
  from a(5) have t: "t = set_env i (switch_env new) ?u" and f: "find_env ?u i \<noteq> None" by (simp_all add: commit_reset_def Let_def edit_env_Ok)
  obtain x where x: "find_env s i = Some x" using f by (auto simp: find_env_def)
  have "map_option runtime_id (find_env s i) = map_option runtime_id (find_env st i)" by (simp only: find_names a(2))
  with x e have "runtime_id x = runtime_id e" by simp
  moreover have "runtime_id (switch_env new x) = rid" using new by (simp add: switch_env_def runtime_id_def)
  moreover have "find_env ?u i = Some x" using x by (simp add: find_env_def)
  then obtain xs ys where "environments ?u = xs @ x # ys" "environments (set_env i (switch_env new) ?u) = xs @ switch_env new x # ys"
    by (rule set_env_split)
  ultimately have l: "in_use s = insert (runtime_id e) (runtime_id ` set (xs @ ys))" "in_use t = insert rid (runtime_id ` set (xs @ ys))"
    by (simp_all add: in_use_def t)
  have "journal s \<subseteq> insert rid (journal t)" using a(3) by (auto simp: t journal_def begun_def entries_of_def)
  moreover have "runtime_id e \<in> journal t" by (simp add: t journal_def)
  ultimately show "accounted lost others t t g \<and> True" using a(1,4) l by (auto simp: accounted_def)
qed

lemma names_finish_state: "finish_state i st = Ok st' \<Longrightarrow> names st' = names st \<and> pending_factory_resets st' = pending_factory_resets st"
  unfolding finish_state_def by (auto simp: edit_env_Ok names_set_env) (simp add: names_def [of "_\<lparr>connections := _\<rparr>"] names_def [symmetric] names_set_env)

lemma keeps_finish: "run_keeps (accounted lost others) P (save (finish_state i)) (\<lambda>_ s d g. True)"
  by (rule run_keeps_save) (use names_finish_state accounted_same journal_cong in blast)

lemma keeps_report: "run_keeps (accounted lost others) P (report_reset i m) Q"
  unfolding report_reset_def
proof (rule run_keeps_bind)
  show "run_keeps (accounted lost others) P (save (edit_env ''Environment not found'' i (mark_error m))) (\<lambda>_ s d g. True)"
    by (rule run_keeps_save) (auto simp: edit_env_Ok intro!: accounted_same [THEN conjunct2] journal_cong names_set_env)
qed (rule run_keeps_fail)

lemma keeps_cleanup_any: "run_keeps (accounted lost others) P (run_result (cleanup_pending i)) (\<lambda>_ s d g. True)"
  by (rule keeps_weaken [OF run_keeps_result]) (use keeps_cleanup in \<open>auto simp: run_keeps_def view_def\<close>)

lemma keeps_complete:
  assumes "find_env st i = Some e" and "env_runtime_id new = Some rid"
  shows "run_keeps (accounted lost others) (\<lambda>s d g. names s = names st \<and> begun i rid s \<and> rid \<in> set g) (complete_reset i e new) (\<lambda>_ s d g. True)"
  unfolding complete_reset_def
  by (rule run_keeps_bind, rule keeps_commit [OF assms], rule run_keeps_bind, rule keeps_cleanup_any)
    (simp split: result.split add: keeps_report keeps_finish)

lemma keeps_abandon: "run_keeps (accounted lost others) P (abandon_reset i x) (\<lambda>_ s d g. True)"
  unfolding abandon_reset_def by (rule run_keeps_bind, rule keeps_cleanup_any, rule keeps_report)

lemma keeps_replace:
  assumes e: "find_env st i = Some e"
  shows "run_keeps (accounted lost others) (\<lambda>s d g. names s = names st \<and> entries_of i s = []) (replace_generation rv i e) (\<lambda>_ s d g. True)"
proof -
  let ?f = "fresh_environment rv e"
  have i: "env_id ?f = i" using e by (simp add: find_env_def find_Some_iff) metis
  have r: "env_runtime_id ?f = Some (runtime_id ?f)" by (simp add: fresh_environment_def runtime_id_def)
  show ?thesis unfolding replace_generation_def Let_def
  proof (rule run_keeps_bind [OF keeps_begin [OF i]], rule run_keeps_bind [OF run_keeps_result [OF keeps_prepare]])
    fix prepared :: "(Environment, string) result"
    let ?R = "\<lambda>s d g. \<forall>new. prepared = Ok new \<longrightarrow> names s = names st \<and> begun i (runtime_id ?f) s \<and> runtime_id ?f \<in> set g
       \<and> env_id new = env_id ?f \<and> env_runtime_id new = env_runtime_id ?f"
    show "run_keeps (accounted lost others) ?R (case prepared of Err x \<Rightarrow> abandon_reset i x | Ok new \<Rightarrow> complete_reset i e new) (\<lambda>_ s d g. True)"
    proof (cases prepared)
      case (Ok new)
      show ?thesis
      proof (cases "env_runtime_id new = Some (runtime_id ?f)")
        case True
        show ?thesis unfolding Ok result.case by (rule keeps_weaken [OF keeps_complete [OF e True]]) simp_all
      qed (simp add: run_keeps_def view_def Ok r)
    qed (simp add: keeps_abandon)
  qed
qed

lemma check_reset_env: "check_reset st i = Ok e \<Longrightarrow> find_env st i = Some e"
  by (auto simp: check_reset_def split: if_splits)

lemma quiet_check_stopped [quiet_rules]: "quiet (check_stopped rv e)"
  unfolding check_stopped_def by (intro quiet_rules)

lemma keeps_reset: "run_keeps (accounted lost others) P (reset rv i) (\<lambda>_ s d g. True)"
  unfolding reset_def
proof (rule run_keeps_stored, rule run_keeps_of, rule run_keeps_bind)
  fix st e assume "check_reset st i = Ok e"
  then have e: "find_env st i = Some e" by (rule check_reset_env)
  show "run_keeps (accounted lost others) (\<lambda>s d g. P s d g \<and> s = st) (cleanup_pending i) (\<lambda>_ s d g. names s = names st \<and> entries_of i s = [])"
    by (rule keeps_weaken [OF keeps_cleanup]) auto
  fix committed
  have "run_keeps (accounted lost others) (\<lambda>s d g. names s = names st \<and> entries_of i s = [])
     (run_then (check_stopped rv e) (replace_generation rv i e)) (\<lambda>_ s d g. True)"
    by (rule run_keeps_bind, rule keeps_quiet, rule quiet_check_stopped, rule keeps_replace [OF e])
  then show "run_keeps (accounted lost others) (\<lambda>s d g. names s = names st \<and> entries_of i s = [])
     (if committed then save (finish_state i) else run_then (check_stopped rv e) (replace_generation rv i e)) (\<lambda>_ s d g. True)"
    by (simp add: keeps_finish)
qed

lemma recover_failed_frame: "recover_failed i x st = Ok st' \<Longrightarrow> names st' = names st \<and> pending_factory_resets st' = pending_factory_resets st"
  by (auto simp: recover_failed_def names_set_env)

lemma keeps_conclude:
  assumes frame: "\<And>s d g x st. I s d g \<Longrightarrow> recover_failed i x s = Ok st \<Longrightarrow> I st st g \<and> I st d g"
  shows "run_keeps I (P result) (conclude_reset i result) (\<lambda>st s d g. \<exists>r. result = Ok r \<and> st = r \<and> P result s d g)"
proof (cases result)
  case (Err x)
  have s: "run_keeps I Q (run_result (save (recover_failed i x))) (\<lambda>_ s d g. True)" for Q
    by (rule keeps_weaken [OF run_keeps_result [OF run_keeps_save [where Q = "\<lambda>_ s d g. True"]]]) (use frame in auto)
  have m: "run_keeps I Q (run_result (remember (recover_failed i x))) (\<lambda>_ s d g. True)" for Q
    by (rule keeps_weaken [OF run_keeps_result [OF run_keeps_remember [where Q = "\<lambda>_ s d g. True"]]]) (use frame in auto)
  show ?thesis unfolding Err conclude_reset_def result.case
    by (rule run_keeps_bind [OF s], rule run_keeps_bind [where R = "\<lambda>_ s d g. True"]) (simp_all add: m run_keeps_return run_keeps_fail)
qed (simp add: conclude_reset_def run_keeps_return)

lemma keeps_factory_reset: "run_keeps (accounted lost others) P (factory_reset_environment rv i confirmation) (\<lambda>_ s d g. True)"
  unfolding factory_reset_environment_def
proof (rule run_keeps_stored, rule run_keeps_of)
  fix st e
  have c: "run_keeps (accounted lost others) (\<lambda>s d g. True) (conclude_reset i result) (\<lambda>_ s d g. True)" for result
    by (rule keeps_weaken [OF keeps_conclude [where P = "\<lambda>_ s d g. True"]])
      (use recover_failed_frame accounted_same journal_cong in blast)+
  have "run_keeps (accounted lost others) (\<lambda>s d g. P s d g \<and> s = st) (run_bind (run_result (reset rv i)) (conclude_reset i)) (\<lambda>_ s d g. True)"
    by (rule run_keeps_bind [OF run_keeps_result [OF keeps_reset]]) (simp add: c)
  then show "run_keeps (accounted lost others) (\<lambda>s d g. P s d g \<and> s = st)
    (if confirmation \<noteq> env_name e then run_fail ''Type the environment name exactly to confirm factory reset''
     else run_bind (run_result (reset rv i)) (conclude_reset i)) (\<lambda>_ s d g. True)"
    by (simp add: run_keeps_fail)
qed

section \<open>Resets, crashes and restarts\<close>

text \<open>
  When the start-up archived the disk of the OCI runtime, the containers on it are gone, those of the journal too.
\<close>

definition archived_generations :: "startup \<Rightarrow> PlatformState \<Rightarrow> string set" where
  "archived_generations su st =
     (if su_appliance_reset su
      then runtime_id ` set (filter (\<lambda>e. provider e = OpenDockOci) (environments st @ map frc_environment (pending_factory_resets st)))
      else {})"

definition restart :: "startup \<Rightarrow> vault \<Rightarrow> vault" where
  "restart su v = v\<lparr>va_state := startup_state su (va_saved v), va_saved := startup_state su (va_saved v),
     va_generations := filter (\<lambda>g. g \<notin> archived_generations su (va_saved v)) (va_generations v), va_script := []\<rparr>"

text \<open>
  What may happen one after the other: a factory reset of any environment under any sequence of faults, which the
  application survives or not, a restart at any time, and any other command that saves a state without touching the
  generations in use or the journal. The second part of the state collects the generations that a start-up archived.
\<close>

inductive reset_step :: "vault \<times> string set \<Rightarrow> vault \<times> string set \<Rightarrow> bool" where
  commanded: "factory_reset_environment rv i confirmation (v\<lparr>va_script := script\<rparr>) = (r, w) \<Longrightarrow> r \<noteq> Killed \<Longrightarrow> reset_step (v, lost) (w, lost)"
| killed: "factory_reset_environment rv i confirmation (v\<lparr>va_script := script\<rparr>) = (Killed, w) \<Longrightarrow>
     reset_step (v, lost) (restart su w, lost \<union> archived_generations su (va_saved w))"
| restarted: "reset_step (v, lost) (restart su v, lost \<union> archived_generations su (va_saved v))"
| edited: "save operation v = (r, w) \<Longrightarrow>
     (\<And>s t. operation s = Ok t \<Longrightarrow> names t = names s \<and> pending_factory_resets t = pending_factory_resets s) \<Longrightarrow> reset_step (v, lost) (w, lost)"

inductive_cases reset_stepE: "reset_step v w"

definition settled :: "string set \<Rightarrow> vault \<times> string set \<Rightarrow> bool" where
  "settled others = (\<lambda>(v, lost). va_saved v = va_state v \<and> lost = in_use (va_state v) - set (va_generations v)
     \<and> set (va_generations v) \<subseteq> in_use (va_state v) \<union> journal (va_state v) \<union> others)"

lemma names_map: "(\<And>e. env_id (f e) = env_id e \<and> runtime_id (f e) = runtime_id e) \<Longrightarrow> names (st\<lparr>environments := map f (environments st)\<rparr>) = names st"
  by (simp add: names_def)

lemma names_outside [simp]:
  "names (st\<lparr>connections := c\<rparr>) = names st" "names (st\<lparr>backup_runs := b\<rparr>) = names st" "names (st\<lparr>pending_vm_restores := p\<rparr>) = names st"
  "names (st\<lparr>host := h\<rparr>) = names st" "names (st\<lparr>providers := q\<rparr>) = names st"
  by (simp_all add: names_def)

lemma recover_creation_frame [simp]:
  "names (recover_creation st) = names st" "pending_factory_resets (recover_creation st) = pending_factory_resets st"
  unfolding recover_creation_def by (rule names_map) simp_all

lemma startup_frame:
  "names (startup_state su st) = names st" "pending_factory_resets (startup_state su st) = pending_factory_resets st"
  unfolding startup_state_def Let_def by (simp_all add: names_map) (simp add: names_def)

lemma accounted_restart:
  "view (accounted lost others) v \<Longrightarrow> view (accounted (lost \<union> archived_generations su (va_saved v)) others) (restart su v)"
  unfolding view_def restart_def by (auto simp: accounted_def in_use_names journal_def startup_frame)

lemma accounted_step:
  assumes "reset_step p q" and "view (accounted (snd p) others) (fst p)"
  shows "view (accounted (snd q) others) (fst q)"
  using assms
proof (induction rule: reset_step.induct)
  case (commanded rv i confirmation v script r w lost)
  from run_keepsD [OF keeps_factory_reset [where P = "\<lambda>s d g. True"] commanded(1)] commanded(3) show ?case by (simp add: view_def)
next
  case (killed rv i confirmation v script w lost su)
  from run_keepsD [OF keeps_factory_reset [where P = "\<lambda>s d g. True"] killed(1)] killed(2)
  have "view (accounted lost others) w" by (simp add: view_def)
  then show ?case unfolding fst_conv snd_conv by (rule accounted_restart)
next
  case (restarted v lost su)
  then show ?case unfolding fst_conv snd_conv by (rule accounted_restart)
next
  case (edited operation v r w lost)
  have "run_keeps (accounted lost others) (\<lambda>s d g. True) (save operation) (\<lambda>_ s d g. True)"
    by (rule run_keeps_save) (use edited(2) accounted_same journal_cong in blast)
  from run_keepsD [OF this edited(1)] edited(3) show ?case by (simp add: view_def)
qed

interpretation recovery: safety "settled others" reset_step "\<lambda>p. view (accounted (snd p) others) (fst p)" for others
proof
  show "settled others p \<Longrightarrow> view (accounted (snd p) others) (fst p)" for p
    by (cases p) (auto simp: settled_def view_def accounted_def)
qed (rule accounted_step)

text \<open>
  C8. After any sequence of factory resets, failed saves and runtime calls, crashes and restarts, no generation in use has
  been destroyed: every environment, in memory and in the saved state, uses a complete generation, unless it is one that
  was incomplete at the beginning or a container whose runtime disk a start-up archived; and every complete generation
  is in use, in the saved journal, or was foreign from the beginning, so that none is leaked. A save either takes effect
  or does not (a state file lost as in \<open>double_fault_loses_state\<close> is outside), and no environment is created or deleted
  in between.
\<close>

theorem no_generation_lost:
  assumes "reach (settled others) reset_step (v, lost)"
  shows "(\<forall>e \<in> set (environments (va_state v)) \<union> set (environments (va_saved v)). runtime_id e \<in> set (va_generations v) \<union> lost)
    \<and> set (va_generations v) \<subseteq> in_use (va_saved v) \<union> journal (va_saved v) \<union> others"
proof -
  from recovery.inv_reach [OF assms] have a: "accounted lost others (va_state v) (va_saved v) (va_generations v)" by (simp add: view_def)
  then have "in_use (va_saved v) = in_use (va_state v)" by (simp add: accounted_def in_use_names)
  with a show ?thesis by (auto simp: accounted_def in_use_def)
qed

section \<open>A reset that was committed is not repeated\<close>

definition no_growth :: "(string \<times> string) list \<Rightarrow> string set \<Rightarrow> view" where
  "no_growth N G s d g \<longleftrightarrow> names s = N \<and> names d = N \<and> set g \<subseteq> G"

lemma keeps_drop_no_growth: "run_keeps (no_growth N G) P (drop_entries ps) (\<lambda>_ s d g. True)"
proof (induction ps arbitrary: P)
  case (Cons p ps)
  have d: "run_keeps (no_growth N G) Q (retire_runtime (frc_environment p)) (\<lambda>_ s d g. True)" for Q
  proof -
    have "run_keeps (no_growth N G) Q (drop_generation (runtime_id (frc_environment p))) (\<lambda>_ s d g. True)"
      by (rule run_keeps_drop) (auto simp: no_growth_def)
    then show ?thesis unfolding retire_runtime_def by (cases "provider (frc_environment p)") (simp_all add: run_keeps_fail)
  qed
  have f: "run_keeps (no_growth N G) Q (save (\<lambda>st. Ok (forget_entry (frc_environment p) st))) (\<lambda>_ s d g. True)" for Q
    by (rule run_keeps_save) (auto simp: no_growth_def names_def forget_entry_def)
  show ?case unfolding drop_entries.simps
    by (rule run_keeps_stored, rule run_keeps_of, rule run_keeps_bind, rule keeps_quiet, rule quiet_drop_snapshots,
        rule run_keeps_bind, rule d, rule run_keeps_bind, rule f, rule Cons.IH)
qed (simp add: run_keeps_return)

lemma keeps_cleanup_no_growth:
  "run_keeps (no_growth N G) (\<lambda>s d g. s = st) (cleanup_pending i) (\<lambda>c s d g. c = list_ex frc_committed (entries_of i st))"
  unfolding cleanup_pending_def
proof (rule run_keeps_stored)
  fix u
  show "run_keeps (no_growth N G) (\<lambda>s d g. s = st \<and> s = u)
     (run_then (drop_entries (entries_of i u)) (run_return (list_ex frc_committed (entries_of i u))))
     (\<lambda>c s d g. c = list_ex frc_committed (entries_of i st))"
  proof (cases "u = st")
    case True
    show ?thesis unfolding True by (rule run_keeps_bind, rule keeps_drop_no_growth, rule run_keeps_return) simp
  qed (auto simp: run_keeps_def view_def)
qed

lemma finish_state_status: "finish_state i st = Ok st' \<Longrightarrow> map_option env_status (find_env st' i) = Some Stopped"
proof -
  assume "finish_state i st = Ok st'"
  then obtain e where e: "find_env st i = Some e" and st': "find_env st' i = find_env (set_env i finish_env st) i"
    by (auto simp: finish_state_def edit_env_Ok find_env_def)
  show ?thesis unfolding st' by (subst find_set_env [OF _ e]) (simp_all add: finish_env_def set_memory_def set_cpu_def)
qed

text \<open>
  C35. When the journal of an environment has a committed entry, its generation was already replaced. A factory reset then
  only finishes the clean-up: whatever happens, no environment gets another generation, none is made, and the result,
  if there is one, is a stopped environment.
\<close>

theorem committed_reset_not_repeated:
  assumes journalled: "list_ex frc_committed (entries_of i (va_state v))" and saved: "names (va_saved v) = names (va_state v)"
    and run: "factory_reset_environment rv i confirmation v = (r, w)"
  shows "names (va_state w) = names (va_state v) \<and> names (va_saved w) = names (va_state v)
    \<and> set (va_generations w) \<subseteq> set (va_generations v)
    \<and> (\<forall>st. r = Finished st \<longrightarrow> map_option env_status (find_env st i) = Some Stopped)"
proof -
  let ?I = "no_growth (names (va_state v)) (set (va_generations v))"
  let ?Q = "\<lambda>st s d g. map_option env_status (find_env st i) = Some Stopped"
  have fin: "run_keeps ?I P (save (finish_state i)) ?Q" for P
    by (rule run_keeps_save) (use names_finish_state finish_state_status in \<open>auto simp: no_growth_def\<close>)
  have reset: "run_keeps ?I (\<lambda>s d g. s = va_state v) (reset rv i) ?Q"
    unfolding reset_def
  proof (rule run_keeps_stored, rule run_keeps_of, rule run_keeps_bind)
    fix st e
    show "run_keeps ?I (\<lambda>s d g. s = va_state v \<and> s = st) (cleanup_pending i) (\<lambda>c s d g. c)"
      by (rule keeps_weaken [OF keeps_cleanup_no_growth [of _ _ "va_state v"]]) (use journalled in auto)
    show "run_keeps ?I (\<lambda>s d g. c) (if c then save (finish_state i) else run_then (check_stopped rv e) (replace_generation rv i e)) ?Q" for c
      by (cases c) (simp_all only: if_True fin, simp add: run_keeps_def view_def)
  qed
  have conclude: "run_keeps ?I (\<lambda>s d g. \<forall>x. result = Ok x \<longrightarrow> ?Q x s d g) (conclude_reset i result) ?Q" for result
    by (rule keeps_weaken [OF keeps_conclude [where P = "\<lambda>result s d g. \<forall>x. result = Ok x \<longrightarrow> ?Q x s d g"]])
      (use recover_failed_frame in \<open>auto simp: no_growth_def\<close>)
  have "run_keeps ?I (\<lambda>s d g. s = va_state v) (factory_reset_environment rv i confirmation) ?Q"
    unfolding factory_reset_environment_def
  proof (rule run_keeps_stored, rule run_keeps_of)
    fix st e
    have "run_keeps ?I (\<lambda>s d g. s = va_state v \<and> s = st) (run_bind (run_result (reset rv i)) (conclude_reset i)) ?Q"
      by (rule run_keeps_bind [OF run_keeps_result]) (rule keeps_weaken [OF reset], simp, assumption, rule conclude)
    then show "run_keeps ?I (\<lambda>s d g. s = va_state v \<and> s = st)
      (if confirmation \<noteq> env_name e then run_fail ''Type the environment name exactly to confirm factory reset''
       else run_bind (run_result (reset rv i)) (conclude_reset i)) ?Q"
      by (simp add: run_keeps_fail)
  qed
  from run_keepsD [OF this run] show ?thesis using saved by (simp add: view_def no_growth_def)
qed

section \<open>Runs without faults\<close>

definition run_finishes :: "view \<Rightarrow> 'a run \<Rightarrow> ('a \<Rightarrow> view) \<Rightarrow> bool" where
  "run_finishes P m Q \<longleftrightarrow> (\<forall>v. va_script v = [] \<longrightarrow> view P v \<longrightarrow> (\<exists>x w. m v = (Finished x, w) \<and> va_script w = [] \<and> view (Q x) w))"

lemma total_bind: "run_finishes P m R \<Longrightarrow> (\<And>x. run_finishes (R x) (k x) Q) \<Longrightarrow> run_finishes P (run_bind m k) Q"
  unfolding run_finishes_def run_bind_def by fastforce

lemma total_return: "(\<And>s d g. P s d g \<Longrightarrow> Q x s d g) \<Longrightarrow> run_finishes P (run_return x) Q"
  by (simp add: run_finishes_def run_return_def view_def)

lemma total_result: "run_finishes P m Q \<Longrightarrow> run_finishes P (run_result m) (\<lambda>r s d g. \<exists>x. r = Ok x \<and> Q x s d g)"
  unfolding run_finishes_def run_result_def view_def by fastforce

lemma total_stored: "run_finishes (\<lambda>s d g. s = t \<and> P d g) (k t) Q \<Longrightarrow> run_finishes (\<lambda>s d g. s = t \<and> P d g) (run_bind stored k) Q"
  by (simp add: run_finishes_def run_bind_def stored_def view_def)

lemma total_of: "r = Ok x \<Longrightarrow> run_finishes P (k x) Q \<Longrightarrow> run_finishes P (run_bind (run_of r) k) Q"
  by (simp add: run_finishes_def run_bind_def run_return_def)

lemma total_save:
  assumes "\<And>s d g. P s d g \<Longrightarrow> \<exists>st. operation s = Ok st \<and> Q st st st g"
  shows "run_finishes P (save operation) Q"
  unfolding run_finishes_def
proof (intro allI impI)
  fix v assume v: "va_script v = []" "view P v"
  with assms [of "va_state v" "va_saved v" "va_generations v"]
  obtain st where "operation (va_state v) = Ok st" "Q st st st (va_generations v)" by (auto simp: view_def)
  with v show "\<exists>x w. save operation v = (Finished x, w) \<and> va_script w = [] \<and> view (Q x) w"
    by (simp add: save_def run_bind_def attempt_def run_return_def view_def)
qed

lemma total_drop:
  "(\<And>s d g. P s d g \<Longrightarrow> Q () s d (filter (\<lambda>x. x \<noteq> rid) g)) \<Longrightarrow> run_finishes P (drop_generation rid) Q"
  by (simp add: run_finishes_def drop_generation_def runtime_call_def attempt_def without_generation_def view_def)

lemma total_provision: "(\<And>s d g. P s d g \<Longrightarrow> Q () s d (g @ [rid])) \<Longrightarrow> run_finishes P (provision_generation rid) Q"
  by (simp add: run_finishes_def provision_generation_def runtime_call_def attempt_def view_def)

lemma total_ask: "run_finishes P (runtime_call c (\<lambda>v. v) (\<lambda>v. v)) (\<lambda>_. P)"
  by (simp add: run_finishes_def runtime_call_def attempt_def view_def)

lemma total_artifact: "run_finishes P (drop_artifact p) (\<lambda>_. P)"
  by (simp add: run_finishes_def drop_artifact_def Let_def run_bind_def run_result_def runtime_call_def attempt_def run_return_def view_def)

lemma total_snapshots: "run_finishes P (drop_snapshots e ss) (\<lambda>_. P)"
proof (induction ss)
  case (Cons s ss)
  have a: "run_finishes P (case snap_artifact_path s of Some p \<Rightarrow> drop_artifact p | None \<Rightarrow> run_return ()) (\<lambda>_. P)"
    by (cases "snap_artifact_path s") (simp_all add: total_return total_artifact)
  have l: "run_finishes P (if provider_is_container (provider e) then runtime_call (DropLayer (runtime_id e) (snap_id s)) (\<lambda>v. v) (\<lambda>v. v)
     else run_return ()) (\<lambda>_. P)"
    by (simp add: total_ask total_return)
  show ?case unfolding drop_snapshots.simps by (rule total_bind, rule l, rule total_bind, rule a, rule Cons.IH)
qed (simp add: total_return)

lemma total_weaken: "run_finishes P m Q \<Longrightarrow> (\<And>s d g. P' s d g \<Longrightarrow> P s d g) \<Longrightarrow> (\<And>x s d g. Q x s d g \<Longrightarrow> Q' x s d g) \<Longrightarrow> run_finishes P' m Q'"
  unfolding run_finishes_def view_def by blast

lemma total_cleanup:
  assumes entries: "entries_of i t = ps" and ps: "ps = [] \<or> ps = [p]"
    and ok: "ps = [p] \<Longrightarrow> validate_cleanup t p = Ok () \<and> provider (frc_environment p) \<in> {OpenDockOci, OpenDockCuda, Qemu}"
  shows "run_finishes (\<lambda>s d g. s = t \<and> g = G) (cleanup_pending i) (\<lambda>c s d g. c = list_ex frc_committed ps
     \<and> (if ps = [] then s = t \<and> g = G
        else s = forget_entry (frc_environment p) t \<and> g = filter (\<lambda>x. x \<noteq> runtime_id (frc_environment p)) G))"
    (is "run_finishes ?P _ (\<lambda>c s d g. _ \<and> ?R s g)")
proof -
  let ?e = "frc_environment p"
  have "run_finishes ?P (drop_entries ps) (\<lambda>_ s d g. ?R s g)"
  proof (cases "ps = []")
    case False
    with ps have p: "ps = [p]" by simp
    have v: "validate_cleanup t p = Ok ()" and q: "provider ?e \<in> {OpenDockOci, OpenDockCuda, Qemu}" using ok [OF p] by auto
    let ?G = "filter (\<lambda>x. x \<noteq> runtime_id ?e) G"
    have d: "run_finishes ?P (retire_runtime ?e) (\<lambda>_ s d g. s = t \<and> g = ?G)"
      using q by (auto simp: retire_runtime_def intro!: total_drop)
    have "run_finishes (\<lambda>s d g. s = t \<and> g = ?G) (save (\<lambda>st. Ok (forget_entry ?e st))) (\<lambda>_ s d g. s = forget_entry ?e t \<and> g = ?G)"
      by (rule total_save) simp
    then have k: "run_finishes ?P (run_then (drop_snapshots ?e (frc_snapshots p)) (run_then (retire_runtime ?e)
        (run_then (save (\<lambda>st. Ok (forget_entry ?e st))) (drop_entries [])))) (\<lambda>_ s d g. ?R s g)"
      unfolding drop_entries.simps
      by (intro total_bind [OF total_snapshots] total_bind [OF d] total_bind total_return) (simp_all add: p)
    show ?thesis unfolding p drop_entries.simps(2)
      by (rule total_stored, rule total_of [OF v], use k p in simp)
  qed (simp add: total_return)
  then have "run_finishes ?P (run_then (drop_entries ps) (run_return (list_ex frc_committed ps))) (\<lambda>c s d g. c = list_ex frc_committed ps \<and> ?R s g)"
    by (rule total_bind) (rule total_return, simp)
  then show ?thesis unfolding cleanup_pending_def by (intro total_stored) (simp add: entries)
qed

lemma total_prepare:
  assumes "provider e \<in> {OpenDockOci, OpenDockCuda, Qemu}" and "provider e = Qemu \<Longrightarrow> env_runtime_path e \<noteq> None"
  obtains new where "env_runtime_id new = env_runtime_id fresh" and "env_id new = env_id fresh"
    and "\<And>t G. run_finishes (\<lambda>s d g. s = t \<and> g = G) (prepare_reset rv e fresh) (\<lambda>x s d g. x = new \<and> s = t \<and> g = G @ [runtime_id fresh])"
proof -
  have p: "run_finishes (\<lambda>s d g. s = t \<and> g = G) (run_then (provision_generation (runtime_id fresh)) (run_return new))
     (\<lambda>x s d g. x = new \<and> s = t \<and> g = G @ [runtime_id fresh])" for t G and new :: Environment
    by (rule total_bind [OF total_provision [where Q = "\<lambda>_ s d g. s = t \<and> g = G @ [runtime_id fresh]"]]) (auto intro: total_return)
  show thesis
  proof (cases "provider e = Qemu")
    case True
    then obtain path where path: "vm_disk e = Ok path" using assms(2) by (auto simp: vm_disk_def)
    obtain disk source where d: "rv_prepared rv (runtime_id fresh) = (disk, source)" by fastforce
    show thesis
      by (rule that [of "fresh\<lparr>env_runtime_path := Some disk,
               env_runtime := (if env_runtime e \<noteq> BUILTIN_MICRO_VM_SOURCE then source else env_runtime fresh)\<rparr>"])
        (simp_all add: prepare_reset_def True d total_of [OF path] p)
  next
    case False
    then show thesis using assms(1) by (intro that [of fresh]) (auto simp: prepare_reset_def intro: p)
  qed
qed

lemma total_if: "run_finishes P m Q \<Longrightarrow> b \<Longrightarrow> run_finishes P (if b then m else k) Q" "run_finishes P k Q \<Longrightarrow> \<not> b \<Longrightarrow> run_finishes P (if b then m else k) Q"
  by simp_all

lemma total_complete:
  assumes e: "find_env u i = Some x" "runtime_id x = runtime_id e" "env_id e = i" "\<not> reset_unsupported e"
      "provider e \<in> {OpenDockOci, OpenDockCuda, Qemu}"
    and others: "\<And>y. y \<in> set (environments (set_env i (switch_env new) u)) \<Longrightarrow> runtime_id y \<noteq> runtime_id e"
  obtains t where "commit_reset i e new u = Ok t"
    and "run_finishes (\<lambda>s d g. s = u \<and> g = G) (complete_reset i e new) (\<lambda>st s d g. finish_state i (forget_entry e t) = Ok st \<and> s = st \<and> d = st
       \<and> g = filter (\<lambda>x. x \<noteq> runtime_id e) G)"
proof -
  let ?p = "\<lparr>frc_environment = e, frc_snapshots = filter (\<lambda>s. snap_environment_id s = i) (snapshots u), frc_committed = True\<rparr>"
  let ?w = "u\<lparr>snapshots := filter (\<lambda>s. snap_environment_id s \<noteq> i) (snapshots u),
     pending_factory_resets := filter (\<lambda>p. env_id (frc_environment p) \<noteq> i) (pending_factory_resets u) @ [?p]\<rparr>"
  let ?t = "set_env i (switch_env new) ?w"
  have w: "find_env ?w i = Some x" using e(1) by (simp add: find_env_def)
  have t: "commit_reset i e new u = Ok ?t" using w by (simp add: commit_reset_def Let_def edit_env_def)
  have envs: "environments ?t = environments (set_env i (switch_env new) u)" by (simp add: set_env_def Let_def)
  have entries: "entries_of i ?t = [?p]" using e(3) by (simp add: entries_of_def)
  have valid: "validate_cleanup ?t ?p = Ok ()" using others e(4) by (auto simp: validate_cleanup_def envs list_ex_iff)
  have c: "run_finishes (\<lambda>s d g. s = ?t \<and> g = G) (cleanup_pending i) (\<lambda>c s d g. s = forget_entry e ?t \<and> g = filter (\<lambda>x. x \<noteq> runtime_id e) G)"
    by (rule total_weaken [OF total_cleanup [OF entries, of ?p]]) (use valid e(5) in auto)
  have "find_env (forget_entry e ?t) i = Some (switch_env new x)"
    using find_set_env [of "switch_env new" ?w i x, OF _ w] by (simp add: find_env_def forget_entry_def switch_env_def)
  then obtain st where fin: "finish_state i (forget_entry e ?t) = Ok st" by (auto simp: finish_state_def edit_env_def)
  have f: "run_finishes (\<lambda>s d g. s = forget_entry e ?t \<and> g = H) (save (finish_state i)) (\<lambda>st s d g. finish_state i (forget_entry e ?t) = Ok st \<and> s = st \<and> d = st \<and> g = H)" for H
    by (rule total_save) (simp add: fin)
  have k: "run_finishes (\<lambda>s d g. \<exists>x. r = Ok x \<and> s = forget_entry e ?t \<and> g = filter (\<lambda>x. x \<noteq> runtime_id e) G)
     (case r of Err error \<Rightarrow> report_reset i (''The fresh image is ready, but old data cleanup is incomplete: '' @ error
             @ ''. Use Factory reset again to finish cleanup; it will not reset the new disk twice.'') | Ok _ \<Rightarrow> save (finish_state i))
     (\<lambda>st s d g. finish_state i (forget_entry e ?t) = Ok st \<and> s = st \<and> d = st \<and> g = filter (\<lambda>x. x \<noteq> runtime_id e) G)" for r :: "(bool, string) result"
    by (cases r) (simp_all add: f, simp add: run_finishes_def view_def)
  have m: "run_finishes (\<lambda>s d g. s = u \<and> g = G) (save (commit_reset i e new)) (\<lambda>_ s d g. s = ?t \<and> g = G)"
    by (rule total_save) (simp add: t)
  show thesis unfolding complete_reset_def
    by (rule that [OF t]) (unfold complete_reset_def, rule total_bind [OF m], rule total_bind [OF total_result [OF c]], rule k)
qed

lemma find_other_env:
  assumes f: "\<And>e. env_id (f e) = env_id e" and j: "j \<noteq> i"
  shows "find_env (set_env i f st) j = find_env st j"
proof (cases "find_env st i")
  case None
  then have "set_env i f st = st"
    by (auto simp: set_env_def Let_def find_env_def find_None_iff takeWhile_eq_all_conv [THEN iffD2])
  then show ?thesis by simp
next
  case (Some e)
  have skip: "List.find P (xs @ x # ys) = List.find P (xs @ y # ys)" if "\<not> P x" "\<not> P y" for P xs ys and x y :: Environment
    using that by (induction xs) auto
  from Some obtain xs ys where "environments st = xs @ e # ys" "env_id e = i" "environments (set_env i f st) = xs @ f e # ys"
    by (rule set_env_split)
  then show ?thesis using f j by (simp add: find_env_def skip [of _ "f e" e])
qed

lemma find_env_outside [simp]:
  "find_env (st\<lparr>connections := c\<rparr>) = find_env st" "find_env (st\<lparr>pending_factory_resets := p\<rparr>) = find_env st"
  "find_env (st\<lparr>snapshots := ss\<rparr>) = find_env st" "find_env (forget_entry e st) = find_env st"
  by (simp_all add: find_env_def fun_eq_iff forget_entry_def)

definition replaced :: "string \<Rightarrow> string \<Rightarrow> Environment \<Rightarrow> PlatformState \<Rightarrow> PlatformState \<Rightarrow> bool" where
  "replaced i rid e before after \<longleftrightarrow>
     (\<exists>x. find_env after i = Some x \<and> env_status x = Stopped \<and> runtime_id x = rid \<and> env_name x = env_name e)
     \<and> (\<forall>j. j \<noteq> i \<longrightarrow> find_env after j = find_env before j)
     \<and> entries_of i after = [] \<and> (\<forall>s. s \<in> set (snapshots after) \<longrightarrow> snap_environment_id s \<noteq> i)"

lemma replaced_by_steps:
  assumes e: "find_env st i = Some e" and new: "env_runtime_id new = Some rid"
    and u: "begin_reset i fresh st = Ok u" and t: "commit_reset i e new u = Ok t" and fin: "finish_state i (forget_entry e t) = Ok st'"
  shows "replaced i rid e st st'"
proof -
  let ?b = "\<lambda>e. e\<lparr>env_status := Provisioning, env_last_error := None\<rparr>"
  have i: "env_id e = i" using e by (auto simp: find_env_def find_Some_iff)
  have fu: "find_env u j = (if j = i then Some (?b e) else find_env st j)" for j
    using u e by (auto simp: begin_reset_def edit_env_Ok find_other_env) (subst find_set_env, simp_all)
  have ft: "find_env t j = (if j = i then Some (switch_env new (?b e)) else find_env u j)" for j
    using t fu [of i] by (auto simp: commit_reset_def Let_def edit_env_Ok find_other_env) (subst find_set_env, simp_all)
  have fs: "find_env st' j = (if j = i then Some (finish_env (switch_env new (?b e))) else find_env t j)" for j
    using fin ft [of i] by (auto simp: finish_state_def edit_env_Ok find_other_env) (subst find_set_env, simp_all)
  have "pending_factory_resets st' = pending_factory_resets (forget_entry e t)" using names_finish_state [OF fin] by simp
  then have "entries_of i st' = []" using t by (auto simp: commit_reset_def Let_def edit_env_Ok entries_of_def forget_entry_def i filter_empty_conv)
  moreover have "snapshots st' = snapshots t" using fin by (auto simp: finish_state_def edit_env_Ok forget_entry_def)
  then have "\<forall>s. s \<in> set (snapshots st') \<longrightarrow> snap_environment_id s \<noteq> i" using t by (auto simp: commit_reset_def Let_def edit_env_Ok)
  moreover have "env_status (finish_env x) = Stopped" "env_name (finish_env x) = env_name x" "runtime_id (switch_env new x) = rid"
    "env_name (switch_env new x) = env_name x" for x
    using new by (simp_all add: finish_env_def set_memory_def set_cpu_def switch_env_def runtime_id_def)
  ultimately show ?thesis by (simp add: replaced_def fs ft fu)
qed

lemma total_replace:
  assumes f: "find_env st i = Some e" and supported: "\<not> reset_unsupported e"
    and provider: "provider e \<in> {OpenDockOci, OpenDockCuda, Qemu}" and disk: "provider e = Qemu \<Longrightarrow> env_runtime_path e \<noteq> None"
    and unique: "distinct (map runtime_id (environments st))" and fresh: "fresh_id rv \<noteq> runtime_id e"
  shows "run_finishes (\<lambda>s d g. s = st \<and> g = G) (replace_generation rv i e)
     (\<lambda>r s d g. r = s \<and> d = s \<and> replaced i (fresh_id rv) e st s
        \<and> g = filter (\<lambda>x. x \<noteq> runtime_id e) (G @ [fresh_id rv]))" (is "run_finishes _ _ ?Q")
proof -
  let ?f = "fresh_environment rv e" and ?b = "\<lambda>e. e\<lparr>env_status := Provisioning, env_last_error := None\<rparr>"
  let ?j = "st\<lparr>pending_factory_resets := pending_factory_resets st @ [\<lparr>frc_environment = ?f, frc_snapshots = [], frc_committed = False\<rparr>]\<rparr>"
  let ?u = "set_env i ?b ?j"
  have i: "env_id e = i" using f by (auto simp: find_env_def find_Some_iff)
  have u: "begin_reset i ?f st = Ok ?u" using f by (simp add: begin_reset_def edit_env_def)
  have fu: "find_env ?u i = Some (?b e)" by (rule find_set_env) (simp_all add: f)
  have rid: "runtime_id (?b e) = runtime_id e" for e by (simp add: runtime_id_def split: option.split)
  obtain new where new: "env_runtime_id new = env_runtime_id ?f"
    and prep: "\<And>t G. run_finishes (\<lambda>s d g. s = t \<and> g = G) (prepare_reset rv e ?f) (\<lambda>x s d g. x = new \<and> s = t \<and> g = G @ [runtime_id ?f])"
    using disk by (auto intro: total_prepare [OF provider, of ?f rv])
  then have nid: "env_runtime_id new = Some (fresh_id rv)" by (simp add: fresh_environment_def)
  from fu obtain xs ys where ue: "environments ?u = xs @ ?b e # ys"
    and ut: "environments (set_env i (switch_env new) ?u) = xs @ switch_env new (?b e) # ys" by (rule set_env_split)
  have "map runtime_id (environments ?u) = map runtime_id (environments st)"
    using arg_cong [where f = "map snd", OF names_set_env [of ?b i ?j]] by (simp add: names_def rid comp_def)
  then have "distinct (map runtime_id (xs @ ?b e # ys))" using unique by (simp add: ue)
  then have others: "\<And>y. y \<in> set (environments (set_env i (switch_env new) ?u)) \<Longrightarrow> runtime_id y \<noteq> runtime_id e"
    unfolding ut using nid fresh rid by (auto simp: switch_env_def runtime_id_def [of "_\<lparr>env_runtime := _\<rparr>"] image_iff)
  obtain t where t: "commit_reset i e new ?u = Ok t"
    and complete: "run_finishes (\<lambda>s d g. s = ?u \<and> g = G @ [runtime_id ?f]) (complete_reset i e new)
      (\<lambda>r s d g. finish_state i (forget_entry e t) = Ok r \<and> s = r \<and> d = r \<and> g = filter (\<lambda>x. x \<noteq> runtime_id e) (G @ [runtime_id ?f]))"
    by (rule total_complete [OF fu rid i supported provider others])
  have k: "run_finishes (\<lambda>s d g. \<exists>x. r = Ok x \<and> x = new \<and> s = ?u \<and> g = G @ [runtime_id ?f])
     (case r of Err x \<Rightarrow> abandon_reset i x | Ok x \<Rightarrow> complete_reset i e x) ?Q" for r
  proof (cases "r = Ok new")
    case True
    show ?thesis unfolding True result.case
      by (rule total_weaken [OF complete]) (auto intro: replaced_by_steps [OF f nid u t])
  qed (auto simp: run_finishes_def view_def)
  have b: "run_finishes (\<lambda>s d g. s = st \<and> g = G) (save (begin_reset i ?f)) (\<lambda>_ s d g. s = ?u \<and> g = G)" by (rule total_save) (simp add: u)
  show ?thesis unfolding replace_generation_def Let_def
    by (rule total_bind [OF b], rule total_bind [OF total_result [OF prep]], rule k)
qed

text \<open>
  C34. Without faults, the reset of a stopped container or virtual machine ends with the environment on the fresh generation,
  stopped, its old generation and the journal entry gone, its snapshots forgotten, and every other environment as it was.
\<close>

theorem reset_gives_fresh_generation:
  assumes e: "check_reset (va_state v) i = Ok e" and confirmed: "confirmation = env_name e"
    and provider: "provider e \<in> {OpenDockOci, OpenDockCuda, Qemu}"
    and machine: "provider e = Qemu \<Longrightarrow> \<not> rv_running rv (runtime_id e) \<and> env_runtime_path e \<noteq> None"
    and first: "entries_of i (va_state v) = []"
    and unique: "distinct (map runtime_id (environments (va_state v)))" and fresh: "fresh_id rv \<noteq> runtime_id e"
    and script: "va_script v = []"
  shows "\<exists>st w. factory_reset_environment rv i confirmation v = (Finished st, w) \<and> va_state w = st \<and> va_saved w = st
    \<and> replaced i (fresh_id rv) e (va_state v) st
    \<and> set (va_generations w) = insert (fresh_id rv) (set (va_generations v)) - {runtime_id e}"
proof -
  let ?Q = "\<lambda>r s d g. r = s \<and> d = s \<and> replaced i (fresh_id rv) e (va_state v) s
        \<and> g = filter (\<lambda>x. x \<noteq> runtime_id e) (va_generations v @ [fresh_id rv])"
  let ?P = "\<lambda>s d g. s = va_state v \<and> g = va_generations v"
  have f: "find_env (va_state v) i = Some e" by (rule check_reset_env [OF e])
  have sup: "\<not> reset_unsupported e" using e by (auto simp: check_reset_def split: if_splits)
  have c: "run_finishes ?P (cleanup_pending i) (\<lambda>c s d g. \<not> c \<and> s = va_state v \<and> g = va_generations v)"
    by (rule total_weaken [OF total_cleanup [OF first]]) auto
  have s: "run_finishes ?P (check_stopped rv e) (\<lambda>_. ?P)"
    using machine unfolding check_stopped_def by (auto intro!: total_bind [OF total_ask] total_return)
  have r: "run_finishes ?P (replace_generation rv i e) ?Q" by (rule total_replace [OF f sup provider _ unique fresh]) (use machine in simp)
  have k: "run_finishes (\<lambda>s d g. \<not> c \<and> s = va_state v \<and> g = va_generations v)
     (if c then save (finish_state i) else run_then (check_stopped rv e) (replace_generation rv i e)) ?Q" for c
    by (cases c) (simp add: run_finishes_def view_def, simp only: simp_thms if_False total_bind [OF s r])
  have reset: "run_finishes ?P (reset rv i) ?Q" unfolding reset_def
    by (rule total_stored, rule total_of [OF e], rule total_bind [OF c k])
  have "run_finishes ?P (factory_reset_environment rv i confirmation) ?Q" unfolding factory_reset_environment_def
    by (rule total_stored, rule total_of [where x = e], simp add: f, rule total_if(2), rule total_bind [OF total_result [OF reset]])
      (auto simp: run_finishes_def view_def conclude_reset_def run_return_def confirmed)
  with script obtain st w where "factory_reset_environment rv i confirmation v = (Finished st, w)" "view (?Q st) w"
    unfolding run_finishes_def by (auto simp: view_def)
  then show ?thesis by (intro exI [of _ st] exI [of _ w]) (auto simp: view_def)
qed

section \<open>What an interrupted creation leaves\<close>

lemma find_map_env:
  assumes "environments t = map f (environments st)" and "\<And>e. env_id (f e) = env_id e"
  shows "find_env t i = map_option f (find_env st i)"
proof -
  have "List.find (\<lambda>e. env_id e = i) (map f es) = map_option f (List.find (\<lambda>e. env_id e = i) es)" for es
    by (induction es) (simp_all add: assms(2))
  then show ?thesis by (simp add: find_env_def assms(1))
qed

lemma find_recover_reset:
  "find_env (recover_reset st) i = (if list_ex (\<lambda>p. env_id (frc_environment p) = i) (pending_factory_resets st)
     then map_option (mark_error interrupted_reset) (find_env st i) else find_env st i)"
proof -
  have twice: "mark_error m (mark_error m e) = mark_error m e" for m e by (simp add: mark_error_def)
  have none: "find_env st j = None \<Longrightarrow> set_env j f st = st" for j f and st :: PlatformState
    by (auto simp: set_env_def Let_def find_env_def find_None_iff takeWhile_eq_all_conv [THEN iffD2])
  have step: "find_env (set_env j (mark_error m) st) i = (if j = i then map_option (mark_error m) (find_env st i) else find_env st i)" for j m and st :: PlatformState
    by (cases "j = i"; cases "find_env st i") (simp_all add: find_other_env find_set_env none)
  have "find_env (fold (\<lambda>p. set_env (env_id (frc_environment p)) (mark_error m)) ps st) i
     = (if list_ex (\<lambda>p. env_id (frc_environment p) = i) ps then map_option (mark_error m) (find_env st i) else find_env st i)" for m ps
    by (induction ps arbitrary: st) (simp_all add: step option.map_comp comp_def twice)
  then show ?thesis unfolding recover_reset_def by blast
qed

lemma startup_status:
  assumes "find_env (startup_state su st) i = Some x"
  obtains e where "find_env st i = Some e" and "env_status x \<in> {Stopped, StatusError}"
    and "list_ex (\<lambda>p. env_id (frc_environment p) = i) (pending_factory_resets st)
       \<or> env_status e = Provisioning \<and> env_kind e \<in> {Container, MicroVm, FullVm} \<or> env_status e = StatusError \<Longrightarrow> env_status x = StatusError"
proof -
  let ?s = "st\<lparr>pending_vm_restores := [], host := (su_host su)\<lparr>host_storage_saved_gb := Fin 0\<rparr>, providers := su_providers su\<rparr>"
  let ?a = "\<lambda>e. if su_appliance_reset su \<and> env_provider e = Some OpenDockOci then mark_error archived_disk e else e"
  let ?c = "\<lambda>e. if env_kind e \<in> {Container, MicroVm, FullVm} \<and> env_status e = Provisioning
        \<and> \<not> list_ex (\<lambda>p. env_id (frc_environment p) = env_id e) (pending_factory_resets st)
     then mark_error interrupted_creation e else e"
  let ?t = "if su_appliance_reset su
                then ?s\<lparr>environments := map (\<lambda>e. if env_provider e = Some OpenDockOci then mark_error archived_disk e else e) (environments ?s)\<rparr>
                else ?s"
  let ?p = "list_ex (\<lambda>p. env_id (frc_environment p) = i) (pending_factory_resets st)"
  let ?f = "settle_env \<circ> appliance_env su"
  have t: "find_env ?t i = map_option ?a (find_env st i)" by (rule find_map_env) auto
  have p: "pending_factory_resets ?t = pending_factory_resets st" by simp
  have c: "find_env (recover_creation ?t) i = map_option ?c (find_env ?t i)"
    by (rule find_map_env) (simp_all add: recover_creation_def p)
  have "find_env (startup_state su st) i = map_option ?f (find_env (recover_reset (recover_creation ?t)) i)"
    by (rule find_map_env) (simp_all add: startup_state_def Let_def)
  then have x: "find_env (startup_state su st) i = map_option ?f (if ?p then map_option (mark_error interrupted_reset) (map_option ?c (map_option ?a (find_env st i)))
      else map_option ?c (map_option ?a (find_env st i)))"
    unfolding find_recover_reset c t by simp
  with assms obtain e where e: "find_env st i = Some e" by (cases "find_env st i") (auto split: if_splits)
  have i: "env_id e = i" using e by (auto simp: find_env_def find_Some_iff)
  have x': "x = ?f (if ?p then mark_error interrupted_reset (?c (?a e)) else ?c (?a e))" 
    using x unfolding assms e by (cases ?p) (simp_all only: if_True if_False option.map option.inject)
  have error: "env_status (?f y) = StatusError" if "env_status y = StatusError" for y
    using that by (simp add: settle_env_def appliance_env_def mark_error_def split: option.split)
  have "env_status (?f y) \<in> {Stopped, StatusError}" for y
    by (cases "env_status (appliance_env su y)") (simp_all add: settle_env_def set_memory_def set_cpu_def)
  moreover have "env_status x = StatusError" if "?p \<or> env_status e = Provisioning \<and> env_kind e \<in> {Container, MicroVm, FullVm} \<or> env_status e = StatusError"
    unfolding x' by (rule error) (use that i in \<open>auto simp: mark_error_def\<close>)
  ultimately show thesis using that [OF e] x' by blast
qed

definition node_sound :: "string \<Rightarrow> PlatformState \<Rightarrow> string list \<Rightarrow> bool" where
  "node_sound i st g \<longleftrightarrow> (\<forall>x. find_env st i = Some x \<longrightarrow> env_kind x \<in> {Container, MicroVm, FullVm}
     \<and> env_status x \<in> {Provisioning, Stopped, StatusError} \<and> (env_status x = Stopped \<longrightarrow> i \<in> set g))"

definition preparing :: "string \<Rightarrow> PlatformState \<Rightarrow> bool" where
  "preparing i st \<longleftrightarrow> (\<forall>x. find_env st i = Some x \<longrightarrow> env_status x = Provisioning)"

abbreviation creation_sound :: "string \<Rightarrow> view" where
  "creation_sound i \<equiv> \<lambda>s d g. node_sound i s g \<and> node_sound i d g"

lemma node_sound_any: "node_sound i st g \<Longrightarrow> preparing i st \<Longrightarrow> node_sound i st h"
  by (auto simp: node_sound_def preparing_def)

lemma keeps_creation_drop:
  "run_keeps (creation_sound i) (\<lambda>s d g. preparing i s \<and> preparing i d) (drop_generation j) (\<lambda>_ s d g. True)"
  by (rule run_keeps_drop) (auto intro: node_sound_any)

lemma keeps_grow:
  "run_keeps (creation_sound i) (\<lambda>s d g. preparing i s \<and> preparing i d \<and> i \<in> set g) (grow_provisioned rv r i) (\<lambda>_ s d g. i \<in> set g)"
proof -
  let ?P = "\<lambda>s d g. preparing i s \<and> preparing i d \<and> i \<in> set g"
  have d: "run_keeps (creation_sound i) ?P (run_then (run_result (drop_generation i)) (run_fail x)) (\<lambda>_ s d g. i \<in> set g)" for x
    by (rule run_keeps_bind [OF run_keeps_result [OF keeps_weaken [OF keeps_creation_drop]]]) (auto intro: run_keeps_fail)
  have g: "run_keeps (creation_sound i) ?P (case grown of Ok _ \<Rightarrow> run_return () | Err e \<Rightarrow> run_then (run_result (drop_generation i)) (run_fail e))
     (\<lambda>_ s d g. i \<in> set g)" for grown :: "(unit, string) result"
    by (cases grown) (simp, rule run_keeps_return, simp_all add: d)
  have q: "quiet (run_result (run_then (runtime_call (AskCapacity i) (\<lambda>v. v) (\<lambda>v. v))
                      (if f_lt (rv_capacity rv) gb then runtime_call (GrowStorage i gb) (\<lambda>v. v) (\<lambda>v. v) else run_return ())))" for gb
    by (intro quiet_rules)
  show ?thesis
  proof (cases "cer_storage_gb r")
    case (Some gb)
    show ?thesis unfolding grow_provisioned_def Some option.case by (rule run_keeps_bind, rule keeps_quiet, rule q, rule g)
  qed (simp add: grow_provisioned_def, rule run_keeps_return, simp)
qed

lemma keeps_creation_provision:
  "run_keeps (creation_sound i) (\<lambda>s d g. preparing i s \<and> preparing i d) (provision_environment rv r i) (\<lambda>_ s d g. i \<in> set g)"
proof -
  let ?P = "\<lambda>s d g. preparing i s \<and> preparing i d" and ?Q = "\<lambda>_ s d g. i \<in> set g"
  have p: "run_keeps (creation_sound i) ?P (provision_generation i) (\<lambda>_ s d g. preparing i s \<and> preparing i d \<and> i \<in> set g)"
    by (rule run_keeps_provision) (auto intro: node_sound_any)
  have r: "run_keeps (creation_sound i) (\<lambda>s d g. preparing i s \<and> preparing i d \<and> i \<in> set g) (run_return x) ?Q" for x
    by (rule run_keeps_return) simp
  have c: "run_keeps (creation_sound i) ?P (run_then (provision_generation i) (run_return x)) ?Q" for x
    by (rule run_keeps_bind [OF p]) (rule r)
  have m: "run_keeps (creation_sound i) ?P (run_then (provision_generation i) (run_then (grow_provisioned rv r i) (run_return x))) ?Q" for x
    by (rule run_keeps_bind [OF p], rule run_keeps_bind [OF keeps_grow], rule run_keeps_return) simp
  have o: "run_keeps (creation_sound i) ?P (run_then (runtime_call (RegisterProvider i) (\<lambda>v. v) (\<lambda>v. v))
     (run_then (provision_generation i) (run_return x))) ?Q" for x
    by (rule run_keeps_bind, rule keeps_quiet, rule quiet_ask, rule c)
  show ?thesis unfolding provision_environment_def Let_def
    by (cases "rv_prepared rv i"; cases "rv_sandbox rv"; cases "cer_kind r = FullVm"; cases "cer_provider r"; cases "cer_sandbox_policy r")
      (simp_all add: c m o run_keeps_fail)
qed

lemma save_cases:
  assumes "save operation v = (r, w)"
  obtains st where "operation (va_state v) = Ok st" "r = Finished st" "va_state w = st" "va_saved w = st" "va_generations w = va_generations v"
    | "\<forall>st. r \<noteq> Finished st" "va_state w = va_state v" "va_saved w = va_saved v" "va_generations w = va_generations v"
proof (cases "operation (va_state v)")
  case (Ok st)
  with assms have "run_then (attempt (\<lambda>v. v\<lparr>va_state := st, va_saved := st\<rparr>) (\<lambda>v. v)) (run_return st) v = (r, w)" by (simp add: save_def)
  then show thesis using that Ok by (elim run_bind_cases attempt_cases) (auto simp: run_return_def)
qed (use assms that in \<open>auto simp: save_def\<close>)

lemma finish_environment_simps [simp]: "env_id (finish_environment r e) = env_id e" "env_kind (finish_environment r e) = env_kind e"
  by (simp_all add: finish_environment_def split: result.split prod.split)

lemma find_new_env: "find_env (st\<lparr>environments := e # environments st\<rparr>) j = (if env_id e = j then Some e else find_env st j)"
  by (simp add: find_env_def)

lemma new_environment_simps [simp]:
  "env_id (new_environment rv r i) = i" "env_kind (new_environment rv r i) = cer_kind r" "env_status (new_environment rv r i) = Provisioning"
  by (simp_all add: new_environment_def Let_def)

lemma find_edited: "(\<And>e. env_id (f e) = env_id e) \<Longrightarrow> find_env (set_env i f st) i = map_option f (find_env st i)"
proof (cases "find_env st i")
  case None
  then have "set_env i f st = st" by (auto simp: set_env_def Let_def find_env_def find_None_iff takeWhile_eq_all_conv [THEN iffD2])
  with None show ?thesis by simp
qed (simp add: find_set_env)

lemma keeps_graph:
  assumes kind: "cer_kind r \<in> {Container, MicroVm, FullVm}"
  shows "run_keeps (creation_sound i) (\<lambda>s d g. True) (create_on_graph rv r i (provision_environment rv r i))
     (\<lambda>st s d g. s = st \<and> d = st \<and> (\<exists>x. find_env st i = Some x \<and> env_status x = Stopped))"
proof -
  let ?I = "creation_sound i"
  let ?R = "\<lambda>result s d g. (\<forall>x. result = Ok x \<longrightarrow> i \<in> set g)"
  have insert: "run_keeps ?I (\<lambda>s d g. True) (save (insert_environment (new_environment rv r i))) (\<lambda>_ s d g. preparing i s \<and> preparing i d)"
    by (rule run_keeps_save) (use kind in \<open>auto simp: insert_environment_def node_sound_def preparing_def find_new_env split: if_splits\<close>)
  have finish: "run_keeps ?I (?R result) (save (edit_env m i (finish_environment result)))
     (\<lambda>st s d g. s = st \<and> d = st \<and> (\<forall>y. result = Ok y \<longrightarrow> (\<exists>x. find_env st i = Some x \<and> env_status x = Stopped)))" for result m
    by (rule run_keeps_save, cases result) (auto simp: edit_env_Ok node_sound_def find_edited finish_environment_def)
  have remember: "run_keeps ?I (\<lambda>s d g. True) (remember (\<lambda>st. Ok (set_env i (mark_error m) st))) (\<lambda>_ s d g. True)" for m
    by (rule run_keeps_remember) (auto simp: node_sound_def find_edited mark_error_def)
  have fail: "run_keeps ?I P (run_bind (run_result (remember (\<lambda>st. Ok (set_env i (mark_error m) st)))) (\<lambda>remembered.
     run_then (case remembered of Ok st \<Rightarrow> announce st | Err _ \<Rightarrow> run_return ()) (run_fail m))) Q" for P Q m
    by (rule run_keeps_bind [OF run_keeps_result [OF keeps_weaken [OF remember]]], simp, assumption, rule run_keeps_bind, rule keeps_quiet, intro quiet_rules)
      (rule run_keeps_fail)
  have settle: "run_keeps ?I (\<lambda>s d g. \<forall>st. finalized = Ok st \<longrightarrow> s = st \<and> d = st \<and> (\<forall>y. result = Ok y \<longrightarrow> (\<exists>x. find_env st i = Some x \<and> env_status x = Stopped)))
     (settle_creation i result finalized) (\<lambda>st s d g. s = st \<and> d = st \<and> (\<exists>x. find_env st i = Some x \<and> env_status x = Stopped))" for result finalized
  proof (cases finalized)
    case (Ok t)
    show ?thesis unfolding Ok settle_creation_def result.case
      by (rule run_keeps_bind, rule keeps_quiet, rule quiet_basic, cases result)
        (auto simp: run_keeps_fail intro!: run_keeps_return)
  qed (simp add: settle_creation_def Let_def fail)
  show ?thesis unfolding create_on_graph_def
    by (rule run_keeps_bind [OF insert], rule run_keeps_bind, rule keeps_quiet, rule quiet_basic,
        rule run_keeps_bind [OF run_keeps_result [OF keeps_creation_provision]],
        rule run_keeps_bind [OF run_keeps_result [OF finish]], rule settle)
qed

lemma settle_refused:
  assumes run: "settle_creation i result finalized v = (Errored x, w)"
    and saved: "\<And>st. finalized = Ok st \<Longrightarrow> va_state v = st \<and> (\<exists>t. st = set_env i (finish_environment result) t)"
    and e: "find_env (va_state w) i = Some e"
  shows "env_status e = StatusError"
proof (cases finalized)
  case (Ok st)
  then obtain y where y: "result = Err y" and w: "va_state w = va_state v"
    using run by (cases result) (auto simp: settle_creation_def run_bind_def announce_def run_return_def run_fail_def)
  obtain t where "va_state v = set_env i (finish_environment result) t" using saved [OF Ok] by blast
  with e w show ?thesis by (auto simp: find_edited y finish_environment_def)
next
  case (Err y)
  then have "va_state w = set_env i (mark_error (''Could not save the environment creation result: '' @ y
             @ ''. Free disk space, then delete this incomplete node and create it again.'')) (va_state v)"
    using run by (auto simp: settle_creation_def Let_def run_bind_def run_result_def remember_def announce_def run_fail_def)
  with e show ?thesis by (auto simp: find_edited mark_error_def)
qed

lemma graph_refused:
  assumes run: "create_on_graph rv r i provision v = (Errored x, w)" and absent: "find_env (va_state v) i = None"
    and e: "find_env (va_state w) i = Some e"
  shows "env_status e = StatusError"
proof -
  let ?finish = "\<lambda>result. save (edit_env ''The environment creation record is missing'' i (finish_environment result))"
  from run consider "save (insert_environment (new_environment rv r i)) v = (Errored x, w)"
    | result v1 v2 st where "?finish result v1 = (Finished st, v2)" "settle_creation i result (Ok st) v2 = (Errored x, w)"
    | result v2 y where "settle_creation i result (Err y) v2 = (Errored x, w)"
    unfolding create_on_graph_def by (auto elim!: run_bind_cases run_result_cases simp: announce_def)
  then show ?thesis
  proof cases
    case 1
    then have "va_state w = va_state v" by (rule save_cases) simp_all
    with absent e show ?thesis by simp
  next
    case (2 result v1 v2 st)
    from 2(1) have "va_state v2 = st \<and> (\<exists>t. st = set_env i (finish_environment result) t)" by (rule save_cases) (auto simp: edit_env_Ok)
    then show ?thesis by (intro settle_refused [OF 2(2) _ e]) simp
  next
    case (3 result v2 y)
    then show ?thesis by (rule settle_refused [OF _ _ e]) simp
  qed
qed

lemma bind_simps:
  "run_bind (run_of r) k v = (case r of Ok x \<Rightarrow> k x v | Err e \<Rightarrow> (Errored e, v))"
  "run_bind stored h v = h (va_state v) v" "run_bind (run_return x) j v = j x v" "run_bind (run_fail e) l v = (Errored e, v)"
  "run_bind (if b then m else n) i v = (if b then run_bind m i v else run_bind n i v)"
  by (cases r) (simp_all add: run_bind_def stored_def run_return_def run_fail_def)

lemma create_environment_cases:
  assumes "create_environment rv request v = (r, w)"
  obtains e where "r = Errored e" "w = v"
    | "create_on_graph rv (authorize_gpu request) (''env-'' @ rv_uuid rv) (provision_environment rv (authorize_gpu request) (''env-'' @ rv_uuid rv)) v = (r, w)"
      "check_request_fields (authorize_gpu request) = Ok ()" "cer_kind request \<noteq> Cloud"
  using assms unfolding create_environment_def Let_def
  by (cases "check_request_fields (authorize_gpu request)")
    (auto simp: bind_simps run_fail_def simp del: append.simps split: if_splits result.splits)

text \<open>
  C24. Creating an environment under any faults. A node that the command added, in memory or in the saved state, is shown as
  stopped only when its disk or container is complete; success means that the stopped node is saved; a refusal leaves no
  node, or one in the error state, never one that seems to be in progress; and after a restart, whenever the application
  was killed, the node is gone, marked as failed, or stopped and complete.
\<close>

theorem created_node_complete:
  assumes run: "create_environment rv request v = (r, w)" and i: "i = ''env-'' @ rv_uuid rv"
    and absent: "find_env (va_state v) i = None" "find_env (va_saved v) i = None"
  shows "(\<forall>x. find_env (va_state w) i = Some x \<or> find_env (va_saved w) i = Some x \<longrightarrow> env_status x = Stopped \<longrightarrow> i \<in> set (va_generations w))
    \<and> (\<forall>st. r = Finished st \<longrightarrow> va_state w = st \<and> va_saved w = st \<and> (\<exists>x. find_env st i = Some x \<and> env_status x = Stopped))
    \<and> (\<forall>e x. r = Errored e \<longrightarrow> find_env (va_state w) i = Some x \<longrightarrow> env_status x = StatusError)
    \<and> (\<forall>su x. find_env (va_state (restart su w)) i = Some x \<longrightarrow>
         env_status x = StatusError \<or> env_status x = Stopped \<and> i \<in> set (va_generations w))"
proof -
  let ?r = "authorize_gpu request"
  have start: "view (creation_sound i) v" using absent by (simp add: view_def node_sound_def)
  have sound: "view (creation_sound i) w \<and> (\<forall>st. r = Finished st \<longrightarrow> va_state w = st \<and> va_saved w = st \<and> (\<exists>x. find_env st i = Some x \<and> env_status x = Stopped))
     \<and> (\<forall>e x. r = Errored e \<longrightarrow> find_env (va_state w) i = Some x \<longrightarrow> env_status x = StatusError)"
  proof (rule create_environment_cases [OF run, folded i])
    fix e assume "r = Errored e" "w = v"
    then show ?thesis using start absent by auto
  next
    assume g: "create_on_graph rv ?r i (provision_environment rv ?r i) v = (r, w)" and c: "check_request_fields ?r = Ok ()" "cer_kind request \<noteq> Cloud"
    then have "cer_kind ?r \<in> {Container, MicroVm, FullVm}"
      by (cases "cer_kind ?r") (auto simp: check_request_fields_def authorize_gpu_def split: if_splits)
    from run_keepsD [OF keeps_graph [OF this] g start] show ?thesis
      using graph_refused [of rv ?r i "provision_environment rv ?r i" v _ w] g absent(1) by (auto simp: view_def)
  qed
  have "env_status x = StatusError \<or> env_status x = Stopped \<and> i \<in> set (va_generations w)" if x: "find_env (va_state (restart su w)) i = Some x" for su x
  proof -
    from x have "find_env (startup_state su (va_saved w)) i = Some x" by (simp add: restart_def)
    then obtain e where "find_env (va_saved w) i = Some e" "env_status x \<in> {Stopped, StatusError}"
      "env_status e = Provisioning \<and> env_kind e \<in> {Container, MicroVm, FullVm} \<or> env_status e = StatusError \<Longrightarrow> env_status x = StatusError"
      by (rule startup_status) blast
    then show ?thesis using sound by (auto simp: view_def node_sound_def)
  qed
  then show ?thesis using sound by (auto simp: view_def node_sound_def)
qed

section \<open>Examples\<close>

definition recovery_example :: recovery_runtime where
  "recovery_example = \<lparr>rv_uuid = ''1'', rv_now = [], rv_host = example_host, rv_show = (\<lambda>_. []), rv_running = (\<lambda>_. False),
     rv_prepared = (\<lambda>_. (''disk'', ''image'')), rv_capacity = Fin 1,
     rv_cuda = \<lparr>cu_supported = False, cu_installed = False, cu_update_available = False, cu_detail = []\<rparr>, rv_sandbox = ([], [])\<rparr>"

definition example_vault :: "PlatformState \<Rightarrow> event list \<Rightarrow> vault" where
  "example_vault st script = \<lparr>va_state = st, va_saved = st, va_generations = [''env-1''], va_artifacts = [], va_calls = [],
     va_announced = [], va_script = script\<rparr>"

definition example_startup :: startup where
  "example_startup = \<lparr>su_host = example_host, su_providers = [], su_appliance_reset = False, su_appliance_error = None, su_now = []\<rparr>"

abbreviation one_container :: PlatformState where
  "one_container \<equiv> example_state 1 [example_env ''env-1'' Container Stopped]"

fun killed_run :: "'a ending \<Rightarrow> bool" where
  "killed_run Killed = True"
| "killed_run _ = False"

lemma killed_run_iff: "killed_run r \<longleftrightarrow> r = Killed"
  by (cases r) simp_all

lemma example_killed:
  "killed_run (fst (factory_reset_environment recovery_example ''env-1'' ''web'' (example_vault one_container [Proceeds, Proceeds, Proceeds, Dies])))"
  by code_simp

text \<open>The application is killed after the fresh generation was committed and before the old one was removed, and starts again.\<close>

definition interrupted_vault :: vault where
  "interrupted_vault = restart example_startup
     (snd (factory_reset_environment recovery_example ''env-1'' ''web'' (example_vault one_container [Proceeds, Proceeds, Proceeds, Dies])))"

lemma interrupted_reached: "reach (settled {}) reset_step (interrupted_vault, {})"
proof (rule reach_move)
  let ?v = "example_vault one_container []" and ?w = "snd (factory_reset_environment recovery_example ''env-1'' ''web'' (example_vault one_container [Proceeds, Proceeds, Proceeds, Dies]))"
  show "reach (settled {}) reset_step (?v, {})"
    by (rule reach_start) (simp add: settled_def in_use_def journal_def example_vault_def example_state_def example_env_def runtime_id_def)
  have "?v\<lparr>va_script := [Proceeds, Proceeds, Proceeds, Dies]\<rparr> = example_vault one_container [Proceeds, Proceeds, Proceeds, Dies]"
    by (simp add: example_vault_def)
  then have "factory_reset_environment recovery_example ''env-1'' ''web'' (?v\<lparr>va_script := [Proceeds, Proceeds, Proceeds, Dies]\<rparr>) = (Killed, ?w)"
    using example_killed unfolding killed_run_iff by (simp only: prod_eq_iff fst_conv snd_conv simp_thms)
  from killed [OF this, of "{}" example_startup] show "reset_step (?v, {}) (interrupted_vault, {})"
    by (simp add: interrupted_vault_def archived_generations_def example_startup_def)
qed

lemma interrupted_names:
  "map runtime_id (environments (va_saved interrupted_vault)) = [''reset-1'']"
  "map (\<lambda>p. runtime_id (frc_environment p)) (pending_factory_resets (va_saved interrupted_vault)) = [''env-1'']"
  "list_ex frc_committed (entries_of ''env-1'' (va_state interrupted_vault))"
  by code_simp+

theorem no_generation_lost_witness:
  "reach (settled {}) reset_step (interrupted_vault, {})
    \<and> list_all (\<lambda>e. runtime_id e \<in> set (va_generations interrupted_vault)) (environments (va_state interrupted_vault) @ environments (va_saved interrupted_vault))
    \<and> set (va_generations interrupted_vault) \<subseteq> in_use (va_saved interrupted_vault) \<union> journal (va_saved interrupted_vault) \<union> {}
    \<and> map runtime_id (environments (va_saved interrupted_vault)) = [''reset-1'']"
  using no_generation_lost [OF interrupted_reached] interrupted_reached interrupted_names(1) unfolding list_all_iff set_append Un_empty_right by blast

theorem committed_reset_not_repeated_witness:
  "names (va_state (snd (factory_reset_environment recovery_example ''env-1'' ''web'' interrupted_vault))) = names (va_state interrupted_vault)
    \<and> set (va_generations (snd (factory_reset_environment recovery_example ''env-1'' ''web'' interrupted_vault))) \<subseteq> set (va_generations interrupted_vault)
    \<and> va_generations (snd (factory_reset_environment recovery_example ''env-1'' ''web'' interrupted_vault)) = [''reset-1'']"
proof -
  have "names (va_saved interrupted_vault) = names (va_state interrupted_vault)" by (simp add: interrupted_vault_def restart_def)
  note t = committed_reset_not_repeated [OF interrupted_names(3) this prod.collapse [symmetric]]
  have "va_generations (snd (factory_reset_environment recovery_example ''env-1'' ''web'' interrupted_vault)) = [''reset-1'']" by code_simp
  with t [of recovery_example "''web''"] show ?thesis by blast
qed

theorem reset_gives_fresh_generation_witness:
  "\<exists>st w. factory_reset_environment recovery_example ''env-1'' ''web'' (example_vault one_container []) = (Finished st, w) \<and> va_state w = st \<and> va_saved w = st
    \<and> replaced ''env-1'' ''reset-1'' (example_env ''env-1'' Container Stopped) one_container st
    \<and> set (va_generations w) = {''reset-1''}"
proof -
  let ?v = "example_vault one_container []" and ?e = "example_env ''env-1'' Container Stopped"
  have s: "va_state ?v = one_container" "va_script ?v = []" "va_generations ?v = [''env-1'']" by (simp_all add: example_vault_def)
  have p: "provider ?e = OpenDockOci" "runtime_id ?e = ''env-1''" "fresh_id recovery_example = ''reset-1''" "env_name ?e = ''web''"
    by (simp_all add: provider_def example_env_def runtime_id_def fresh_id_def recovery_example_def)
  have "check_reset (va_state ?v) ''env-1'' = Ok ?e" "entries_of ''env-1'' (va_state ?v) = []" "distinct (map runtime_id (environments (va_state ?v)))"
    unfolding s by (simp_all add: check_reset_def find_env_def example_state_def entries_of_def reset_unsupported_def provider_def example_env_def)
  moreover have "insert ''reset-1'' (set [''env-1'']) - {''env-1''} = {''reset-1''}" by auto
  ultimately show ?thesis using reset_gives_fresh_generation [OF _ _ _ _ _ _ _ s(2), of "''env-1''" ?e "''web''" recovery_example]
    unfolding s p by simp
qed

definition creation_example :: CreateEnvironmentRequest where
  "creation_example = \<lparr>cer_storage_gb = None, cer_name = ''web'', cer_kind = Container, cer_runtime = ''alpine'', cer_provider = OpenDockOci,
     cer_container_command = None, cer_network_access = False, cer_gpu_access = False, cer_sandbox_policy = None, cer_description = [],
     cer_branch_type = None, cer_resource_policy = \<lparr>crp_cpu = \<lparr>crr_min = Fin 1, crr_preferred = Fin 1, crr_max = Fin 1\<rparr>,
       crp_memory_gb = \<lparr>crr_min = Fin 1, crr_preferred = Fin 1, crr_max = Fin 1\<rparr>, crp_priority = PrioNormal, crp_dynamic = False\<rparr>\<rparr>"

abbreviation created_vault :: vault where
  "created_vault \<equiv> snd (create_environment recovery_example creation_example (example_vault (example_state 1 []) [Proceeds, Proceeds, Dies]))"

lemma example_checked:
  assumes "\<not> name_taken ''web'' (va_state v)"
  shows "create_environment recovery_example creation_example v =
     create_on_graph recovery_example creation_example ''env-1'' (provision_environment recovery_example creation_example ''env-1'') v"
proof -
  have r: "rnd 255 = Fin 255" "rnd 1024 = Fin 1024" "f_of_nat 8 = Fin 8"
    using rnd_of_nat [of 255] rnd_of_nat [of 1024] rnd_of_nat [of 8] by (simp_all add: f_of_nat_def)
  have a: "authorize_gpu creation_example = creation_example" by (simp add: authorize_gpu_def creation_example_def)
  have t: "trim ''web'' = ''web''" "trim ''alpine'' = ''alpine''" by code_simp+
  have "check_request_fields creation_example = Ok ()"
    by (simp add: creation_example_def check_request_fields_def validate_range_def check_kind_def check_branch_def t f_le_def)
  moreover have "check_host recovery_example creation_example st = (if name_taken ''web'' st then Err ''An environment with this name already exists'' else Ok ())" for st
    by (simp add: creation_example_def check_host_def recovery_example_def example_host_def r t)
  moreover have "validate_container_policy_capacity (policy_of creation_example) (rv_host recovery_example) = Ok ()"
    by (simp add: creation_example_def policy_of_def range_of_def recovery_example_def example_host_def validate_container_policy_capacity_def validate_policy_def validate_range_def f_le_def r)
  moreover have "cer_kind creation_example = Container" "cer_provider creation_example = OpenDockOci" "rv_uuid recovery_example = ''1''"
    by (simp_all add: creation_example_def recovery_example_def)
  ultimately show ?thesis unfolding create_environment_def Let_def a by (auto simp: bind_simps assms)
qed

lemma example_creation: "map env_status (environments (va_saved created_vault)) = [Provisioning]"
proof -
  have free: "\<not> name_taken ''web'' (va_state (example_vault (example_state 1 []) [Proceeds, Proceeds, Dies]))"
    by (simp add: name_taken_def example_vault_def example_state_def)
  show ?thesis unfolding example_checked [OF free] by code_simp
qed

lemma example_restarted: "\<exists>x. find_env (va_state (restart example_startup created_vault)) ''env-1'' = Some x"
proof -
  have free: "\<not> name_taken ''web'' (va_state (example_vault (example_state 1 []) [Proceeds, Proceeds, Dies]))"
    by (simp add: name_taken_def example_vault_def example_state_def)
  have "map env_id (environments (va_state (restart example_startup created_vault))) = [''env-1'']"
    unfolding example_checked [OF free] by code_simp
  then show ?thesis by (auto simp: find_env_def find_Some_iff map_eq_Cons_conv intro!: exI [of _ "hd (environments (va_state (restart example_startup created_vault)))"] exI [of _ 0])
qed

theorem created_node_complete_witness:
  "map env_status (environments (va_saved created_vault)) = [Provisioning]
    \<and> (\<exists>x. find_env (va_state (restart example_startup created_vault)) ''env-1'' = Some x
         \<and> (env_status x = StatusError \<or> env_status x = Stopped \<and> ''env-1'' \<in> set (va_generations created_vault)))"
proof -
  have "find_env (va_state (example_vault (example_state 1 []) s)) i = None" "find_env (va_saved (example_vault (example_state 1 []) s)) i = None" for s i
    by (simp_all add: example_vault_def example_state_def find_env_def)
  moreover have "''env-1'' = ''env-'' @ rv_uuid recovery_example" by (simp add: recovery_example_def)
  ultimately show ?thesis using created_node_complete [OF prod.collapse [symmetric], of "''env-1''"] example_creation example_restarted by blast
qed

end
