(* ===== verification/Spec2Isabelle.thy ===== *)
theory Spec2Isabelle
  imports State_Store Migration Fabric Scheduler Cli_Client Job_Control Guest_Keyboard Lifecycle Capacity File_Service
    Computer_Branch Vm_Security Recovery
begin

text \<open>
  Yougori is a desktop application (Rust behind Tauri, under \<open>src/src-tauri/src\<close>) that runs
  workloads in \<^emph>\<open>environments\<close>: containers, MicroVMs, virtual machines, native sandboxes and the
  system's own. It keeps one platform state on disk, divides the machine between the running
  environments, connects them by a private Ethernet, and is driven by its windows or by a command
  line program (\<open>src/cli/src\<close>) over a local socket. This development models the parts that decide
  something and proves what they promise; the parts that only drive other programs are parameters.

  \<^bold>\<open>How the parts interact.\<close> The CLI parses its arguments into a request (\<open>parse.rs\<close>, over the
  catalog of methods in \<open>catalog.rs\<close>), frames it (\<open>wire.rs\<close>) and sends it to the automation server
  (\<open>automation/mod.rs\<close>), which admits it against the same catalog, queues a job and runs the command
  under a write lock; the CLI polls the job and prints its result (\<open>main.rs\<close>, \<open>output.rs\<close>). Commands
  (\<open>commands.rs\<close>) check the state, call the runtimes, and commit through the store (\<open>store.rs\<close>), whose
  updates run the scheduler (\<open>scheduler.rs\<close>). An enforced connection is a rule of the private Ethernet
  (\<open>runtime/fabric.rs\<close>). At start-up the stored state is migrated (\<open>models.rs\<close>, \<open>PlatformState::migrate\<close>).
  Folders of the computer reach guests through a small file server (\<open>host_files.rs\<close>) or through the fabric
  (\<open>runtime/connection_files.rs\<close>, \<open>runtime/fabric/file_service.rs\<close>). A branch of the computer boots from a snapshot that a block server presents as a disk
  (\<open>runtime/branch.rs\<close>); a secure machine keeps its TPM and firmware state beside its disk and inside its backups
  (\<open>runtime/vm_security.rs\<close>). Snapshots and backups are taken and installed by commands and \<open>local_backup.rs\<close>.
  Creation and factory reset write what they are about to do into the state first, and start-up (\<open>lib.rs\<close>) settles
  what was cut off.
  The keyboard hook (\<open>guest_keyboard.rs\<close>) stands apart: it routes system keys to a guest's window.

  \<^bold>\<open>Theories.\<close>
  \<^item> \<open>Yougori_Prelude\<close>: results, sorted association lists for \<open>BTreeMap\<close>, slices with their bounds
    checks, reachability (\<open>reach\<close>), and the collections of simplification rules.
  \<^item> \<open>Float64\<close>: the finite doubles, infinities and NaN of Rust's \<open>f64\<close>, with rounding to nearest even
    over the reals, as far as scheduler and policies compute with them.
  \<^item> \<open>Rust_Text\<close>, \<open>Json_Value\<close>: the functions of \<open>str\<close> and \<open>serde_json::Value\<close> that the sources call.
  \<^item> \<open>Models\<close>: the records and enumerations of \<open>models.rs\<close>. \<open>Migration\<close>: \<open>PlatformState::migrate\<close>;
    a migrated state is a fixed point, keeps what the user made, and its virtual machines are sound.
  \<^item> \<open>File_Model\<close>: a file system whose calls can fail or be cut by a crash, with unsynced data torn; an
    inspection that fails looks like a missing file, as \<open>Path::exists\<close> has it.
    \<open>State_Store\<close>: \<open>store.rs\<close> on it (\<open>load\<close>, \<open>persist\<close>, \<open>write_atomic\<close>, \<open>mutate\<close>,
    recovery from the backup). After any history of writes whose failures left the state file in place, the next
    start finds one of the states of the history or of those the files held before; a write that left only the
    backup, followed by a crash, loses it, and a state larger than the reader's limit (32 MiB) reverts to the
    backup. \<open>mutate\<close> refines a transaction; \<open>load\<close> meets a specification stated on the files alone.
  \<^item> \<open>Packet\<close>, \<open>Fabric\<close>: \<open>runtime/fabric.rs\<close>. Frames at their byte offsets, addresses from a digest
    parameter, DHCP and ARP answers, peers, rules and flows with their expiry, \<open>receive\<close>, \<open>configure\<close>,
    registration and the tasks that leave. A delivered frame follows from a rule of the policy,
    unconnected peers never hear each other, a one-way rule does not open TCP backwards, permitted
    conversations do work, and no frame of any length makes the code index out of range.
  \<^item> \<open>Scheduler\<close>: \<open>scheduler.rs\<close> and the policy checks, in doubles: allocations stay in the policies'
    ranges, idle and booting environments get what the code says, the CUDA pool is bounded.
  \<^item> \<open>Catalog\<close>, \<open>Wire\<close>, \<open>Cli_Parse\<close>, \<open>Cli_Client\<close>: the CLI: the whole table of methods, validation of
    parameters against their declarations, framing, the argument parser, job polling, colouring, exit codes.
  \<^item> \<open>Job_Control\<close>: \<open>automation/mod.rs\<close> as a state machine (submit, begin, finish, prune) with at most
    eight pending operations and one writer; \<open>native_validate\<close> is the check of nested parameters
    (\<open>automation/dispatch.rs\<close>) with the decoding of their types as a parameter.
  \<^item> \<open>Guest_Keyboard\<close>: the hook and the window's capture as a step relation; a key that went down in a
    guest goes up there.
  \<^item> \<open>Capacity\<close>: \<open>runtime/appliance_capacity.rs\<close> and \<open>runtime/vm_memory.rs\<close>: the capacity the appliances
    are given and the memory a virtual machine may take.
  \<^item> \<open>Connections\<close>, \<open>Lifecycle\<close>: the commands of \<open>commands.rs\<close> that create, change and remove
    connections, change the power status of environments, restore snapshots and change policies, over a
    runtime whose answers are parameters (record \<open>runtime\<close>). Interleavings are sequences of steps; the
    connection lock separates \<open>desktop_step\<close> from \<open>unlocked_step\<close>; \<open>desktop_reach\<close> of \<open>Snapshots\<close> adds
    restored snapshots and installed backups. What the drivers do to the power state is assumed only as \<open>power_laws\<close>.
  \<^item> \<open>Host_Files\<close>, \<open>Host_Server\<close>: the operations on a shared folder over a file tree with links, and the HTTP
    server before them: requests with a token, framing of bodies, answers. Nothing outside the folder is
    read or changed. \<open>Shared_Files\<close>: the folders of connections: which guest may use which folder, and how they
    are offered, all or nothing. \<open>File_Service\<close>: the same operations over the private Ethernet.
  \<^item> \<open>Snapshot_Disk\<close>: the disk that is put around a volume's snapshot (partition tables with their checksums)
    and the block protocol that serves it; the answers to reads are the bytes of one fixed image.
    \<open>Computer_Branch\<close>: the metadata and overlay of a branch on the file model: the old overlay survives a failed
    or interrupted migration, and a prepared branch can be served.
  \<^item> \<open>Vm_Security\<close>: validation of TPM and firmware state, migration of boot options, the identity in the header of
    a disk image (embedded and read back), and the preparation of a machine, which never resets an identity.
  \<^item> \<open>Local_Backup\<close>: portable backups on the file model: copying with a checksum, writing, reading an untrusted
    folder, retagging of container archives; \<open>importable\<close> and \<open>sanitized\<close> specify, on the bytes and the fields, what an
    import accepts and returns, and an export followed by an import gives back disk and environment. \<open>keeps\<close> says which files a program changes, \<open>calm\<close> runs it without
    faults. \<open>Snapshots\<close>: taking, deleting, restoring and installing, the retention loop; a virtual machine's old
    disk is given up only with the saved state, and the connections stay well formed through restores, unless one
    falls into the creation of a connection.
  \<^item> \<open>Recovery\<close>: \<open>create_environment\<close> with \<open>commands/vm_creation.rs\<close>, \<open>commands/factory_reset.rs\<close> and the start-up of
    \<open>lib.rs\<close> as runs in which every save and call may fail or be the moment of a crash (\<open>run_keeps\<close> for all endings,
    \<open>run_finishes\<close> for runs without faults). No reset, crash and restart in any order destroys a disk in use or loses
    track of one (an OCI disk that start-up archives apart; a save is one atomic step here), a committed reset is not repeated, and an interrupted creation never looks finished.
  \<^item> this theory: the properties across components, from the CLI's arguments to the server's admission.

  \<^bold>\<open>Interfaces.\<close> A locale states each contract that a component uses of another, and is interpreted on
  the model's own definitions in the theory of the provider.

  \<^bold>\<open>Parameters and hypotheses.\<close> JSON encoding and decoding of the state, SHA-256, the runtimes' answers,
  the clock and fresh identifiers come from outside the sources. What is assumed of them is a named
  hypothesis of the theorem that needs it, and each such theorem has a witness with a concrete instance.

  \<^bold>\<open>Bounds.\<close> The only fuel is that of \<open>wait_job\<close>, whose loop sleeps half a second between polls: with
  \<open>2 * seconds + 1\<close> rounds it returns, which is proved. Following links stops after forty, as on the systems
  it models, and a machine is awaited for the 121 questions of the source. Every other recursion is structural or
  has a termination proof: short reads (\<open>read_source\<close>, \<open>copy_loop\<close>) and retention among them. Words are kept at
  their width in packets, frames, disk tables and keyboard messages.

  \<^bold>\<open>Not modelled.\<close> Driving QEMU, libkrun, containerd, WSL, Windows Sandbox and the GPU tools
  (\<open>runtime/vm.rs\<close>, \<open>appliance.rs\<close>, \<open>native_sandbox.rs\<close>, \<open>gpu.rs\<close>, \<open>cuda.rs\<close>): process launching and parsing of
  other programs' output; of \<open>branch.rs\<close> the Windows calls, of \<open>vm_security.rs\<close> the staging of a restored identity.
  Cloud nodes, workspaces, the upload of backups, boot media and file import (\<open>runtime/cloud\<close>, \<open>workspace.rs\<close>,
  \<open>backup.rs\<close>, \<open>file_import.rs\<close>): sequences of network and file calls. The preparation
  of a container start, the cache of applied limits and the clean-up of storage after a
  deletion are calls of the runtime parameter or left out where the command's effect on the state does
  not depend on them, as is the decision of the start-up about disks of an interrupted restore. The Go agent, the
  TypeScript front end and the Tauri glue are other programs.
\<close>

section \<open>An example across the components\<close>

definition delete_args :: "string list" where
  "delete_args = [''env'', ''delete'', ''e1'', ''--yes'']"

definition delete_request :: Request where
  "delete_request = \<lparr>req_version = VERSION, req_method = ''delete_environment'',
     req_params = JObj [(''environmentId'', JStr ''e1'')], req_confirmed = True, req_dry_run = False\<rparr>"

lemma delete_parse:
  "\<exists>call m. parse delete_args no_json no_json Ok = Some (Ok call) \<and> inv_request call = delete_request
     \<and> find_method ''delete_environment'' = Ok m \<and> method_name m = ''delete_environment''
     \<and> method_confirmation m \<noteq> None \<and> admission no_check delete_request = Some (Ok m)"
proof -
  obtain m where m: "find_method ''delete_environment'' = Ok m"
    "method_parameters m = ''environmentId:string recoverRuntime?:bool''"
    "method_confirmation m \<noteq> None" "method_name m = ''delete_environment''"
    by (simp add: find_method_def methods_def methods_1_def new_method_def)
  have s: "scan_args delete_args [] [] {} = Ok ([''env'', ''delete'', ''e1''], [(''yes'', ''true'')])"
    by (simp add: delete_args_def strip_prefix_def camel_def)
  define ps where "ps = [(''environmentId'', JStr ''e1'')]"
  have p: "prepare delete_args no_json no_json Ok = Ok (m, ps,
      targeted [] [] ''environmentId'' ''delete_environment'', True, False, False, 3600)"
    by (simp add: prepare_def s toggle_def take_timeout_def take_input_def json_obj_def get_at_def
        command_for_def app_command_def env_command_def set_explicit_def finish_def targeted_def plain_def
        m absolute_path_def absolute_runtime_def path_key_def ps_def Let_def)
  have d: "definitions m = Some [(''environmentId'', ''string''), (''recoverRuntime?'', ''bool'')]"
    unfolding definitions_def m(2) by code_simp
  have v: "validate m (JObj ps) = Some (Ok ())"
    by (simp add: validate_def d m ps_def bare_def trim_end_matches_def valid_kind_def ends_with_def Let_def)
  then have a: "admission no_check delete_request = Some (Ok m)"
    using m by (simp add: admission_def delete_request_def ps_def no_check_def)
  show ?thesis using m p v a by (simp add: parse_def ps_def delete_request_def targeted_def plain_def)
qed

lemma native_validate_Err:
  assumes "native_validate decode decode_host method p = Err e"
  shows "(\<exists>key type x. (method, key, type) \<in> set nested_arguments \<and> decode type (json_get p key) = Err x \<and> e = ''Invalid '' @ key @ '': '' @ x)
    \<or> method = ''host_terminal_action''
        \<and> (case decode_host (json_get p ''request'') of Err x \<Rightarrow> e = ''Invalid request: '' @ x | Ok r \<Rightarrow> validate_request r = Err e)"
proof (cases "method = ''host_terminal_action''")
  case True
  then show ?thesis using assms by (cases "decode_host (json_get p ''request'')") (simp_all add: native_validate_def arg_def)
next
  case False
  then obtain key type where k: "map_of nested_arguments method = Some (key, type)" "arg (decode type) p key = Err e"
    using assms by (auto simp: native_validate_def split: option.splits)
  then have "(method, key, type) \<in> set nested_arguments" by (rule_tac map_of_SomeD)
  then show ?thesis using k(2) by (auto simp: arg_def split: result.splits)
qed

text \<open>
  C28. The command line and the engine agree: a request that the command line builds is never
  refused for its protocol version, its method, the declared parameters or a missing confirmation.
  The engine refuses it only because eight operations are pending, because the job it asks for is
  gone, or, for the ten methods with a parameter of a type of its own, because that parameter does not
  decode to its type or is a request that the host terminal does not allow.
\<close>

theorem cli_request_admitted:
  assumes "parse args from_str read_json absolute = Some (Ok call)"
    and "request = inv_request call" "method = req_method request" "argument = json_get (req_params request)"
  shows "\<exists>out ctl'. submit (native_validate decode decode_host) report now i created request ctl = Some (out, ctl')
    \<and> (\<forall>e. out = Refused e \<longrightarrow>
        e = ''Eight CLI operations are already pending. Inspect jobs and wait before submitting more.'' \<and> ctl_permits ctl = 0
      \<or> e = ''Job not found (completed jobs expire after 30 minutes or an engine restart). Inspect persisted state before retrying.''
          \<and> method = ''jobs_get''
      \<or> (\<exists>key type x. (method, key, type) \<in> set nested_arguments \<and> decode type (argument key) = Err x
          \<and> e = ''Invalid '' @ key @ '': '' @ x)
      \<or> method = ''host_terminal_action''
          \<and> (case decode_host (argument ''request'') of Err x \<Rightarrow> e = ''Invalid request: '' @ x | Ok r \<Rightarrow> validate_request r = Err e))"
proof -
  let ?check = "native_validate decode decode_host"
  from assms(1,2) obtain m params c confirmed dry_run no_wait timeout where
    p: "prepare args from_str read_json absolute = Ok (m, params, c, confirmed, dry_run, no_wait, timeout)"
    and v: "validate m (JObj params) = Some (Ok ())" "confirmed \<or> dry_run \<or> confirmation_for m (JObj params) = None"
    and r: "request = \<lparr>req_version = VERSION, req_method = cmd_method c, req_params = JObj params,
       req_confirmed = confirmed, req_dry_run = dry_run\<rparr>"
    by (auto elim: parse_OkE)
  have f: "find_method (cmd_method c) = Ok m" using p by (auto elim: prepareE)
  then have n: "method_name m = cmd_method c" using find_method_mem by blast
  show ?thesis
  proof (cases "?check method (req_params request)")
    case (Err e)
    then have "admission ?check request = Some (Err e)" using f v r assms(3) by (simp add: admission_def)
    then show ?thesis using native_validate_Err [OF Err] assms(4) by (auto simp: submit_def)
  next
    case (Ok u)
    then have a: "admission ?check request = Some (Ok m)" using f v r assms(3) by (simp add: admission_def)
    show ?thesis
    proof (cases dry_run)
      case True
      with a r show ?thesis by (simp add: submit_def)
    next
      case False
      then have c: "(if req_confirmed request then None else confirmation_for m (req_params request)) = None"
        using v(2) r by auto
      have d: "\<not> req_dry_run request" "method_name m = method" using False n r assms(3) by simp_all
      show ?thesis unfolding submit_def a option.case result.case c if_not_P [OF d(1)] d(2) Let_def
        by (simp split: option.split)
    qed
  qed
qed

theorem cli_request_admitted_witness:
  "\<exists>call out ctl. parse delete_args no_json no_json Ok = Some (Ok call)
     \<and> submit (native_validate (\<lambda>_ _. Ok ()) (\<lambda>_. Err [])) JNull 0 ''a'' ''now'' (inv_request call) start_control = Some (out, ctl)
     \<and> (\<forall>e. out \<noteq> Refused e)"
proof -
  obtain call m where c: "parse delete_args no_json no_json Ok = Some (Ok call)" "inv_request call = delete_request"
    using delete_parse by blast
  from cli_request_admitted [OF c(1) refl refl refl, of "\<lambda>_ _. Ok ()" "\<lambda>_. Err []" JNull 0 "''a''" "''now''" start_control] c show ?thesis
    by (auto simp: start_control_def delete_request_def)
qed

text \<open>
  C7. From the keyboard to the engine: when a command line starts an operation whose method
  asks for confirmation of these parameters, the option \<open>--yes\<close> was written on that command line.
\<close>

theorem destructive_needs_yes:
  assumes "parse args from_str read_json absolute = Some (Ok call)"
    and "submit native_check report now i created (inv_request call) ctl = Some (out, ctl')"
    and "ctl_tasks ctl' = ctl_tasks ctl @ [t]"
    and "confirmation_for (tk_method t) (tk_params t) \<noteq> None"
  shows "''--yes'' \<in> set args \<or> ''--yes=true'' \<in> set args"
proof -
  from submit_cases [OF assms(2)] assms(3) obtain m where
    m: "req_confirmed (inv_request call) \<or> confirmation_for m (req_params (inv_request call)) = None"
    and e: "ctl' = enqueue now i created m (inv_request call) ctl" by auto
  have "tk_method t = m" "tk_params t = req_params (inv_request call)"
    using assms(3) unfolding e by (auto simp: enqueue_def)
  with m assms(4) have "req_confirmed (inv_request call)" by auto
  with assms(1) show ?thesis by (rule parse_confirmed)
qed

theorem destructive_needs_yes_witness:
  "\<exists>call out ctl t. parse delete_args no_json no_json Ok = Some (Ok call)
     \<and> submit no_check JNull 0 ''a'' ''now'' (inv_request call) start_control = Some (out, ctl)
     \<and> ctl_tasks ctl = [t] \<and> (''--yes'' \<in> set delete_args \<or> ''--yes=true'' \<in> set delete_args)"
proof -
  obtain call m where c: "parse delete_args no_json no_json Ok = Some (Ok call)" "inv_request call = delete_request"
    and m: "method_name m = ''delete_environment''" "method_confirmation m \<noteq> None"
      "admission no_check delete_request = Some (Ok m)"
    using delete_parse by blast
  let ?t = "\<lparr>tk_id = ''a'', tk_method = m, tk_params = JObj [(''environmentId'', JStr ''e1'')], tk_running = False\<rparr>"
  obtain v where s: "submit no_check JNull 0 ''a'' ''now'' (inv_request call) start_control
      = Some (Accepted ''a'' v, enqueue 0 ''a'' ''now'' m delete_request start_control)"
    using m c(2) by (simp add: submit_def) (simp add: delete_request_def start_control_def)
  have t: "ctl_tasks (enqueue 0 ''a'' ''now'' m delete_request start_control) = ctl_tasks start_control @ [?t]"
    by (simp add: enqueue_def delete_request_def)
  have "confirmation_for (tk_method ?t) (tk_params ?t) \<noteq> None" using m by (simp add: confirmation_for_def)
  from destructive_needs_yes [OF c(1) s t this] c(1) s t show ?thesis
    by (auto simp: start_control_def)
qed

end
